(* ===== verification/Prelude.thy ===== *)
theory Prelude
  imports
    Complex_Main
    "HOL-Library.AList"
    "HOL-Library.Char_ord"
    "HOL-Library.List_Lexorder"
    "HOL-Library.Multiset"
begin

text \<open>
  Shared vocabulary of the development.

  \<^item> \<open>uuid\<close> stands for Python's \<open>UUID\<close>; a fresh identifier (\<open>uuid4\<close>, an injected
    \<open>id_factory\<close>) is always an argument of the operation that draws it.
  \<^item> A call that may raise returns a sum: \<open>Inl\<close> the exception, \<open>Inr\<close> the value.
  \<^item> A Python dict whose iteration order is observed is an association list
    (\<open>AList.update\<close> overwrites in place or appends, as \<open>d[k] = v\<close> does); a dict used
    for lookup only is a map.
  \<^item> \<open>json\<close> is the value space of the open JSON fields of the contracts.
  \<^item> Clocks are read once per call in the code and are an argument here.
\<close>

type_synonym uuid = nat

type_synonym timestamp = int

type_synonym units = rat

datatype json =
    JNull
  | JBool bool
  | JInt int
  | JFloat rat
  | JStr string
  | JList "json list"
  | JObj "(string \<times> json) list"

type_synonym json_object = "(string \<times> json) list"

named_theorems py_defs \<open>definitions of the modelled operations\<close>
named_theorems py_inv \<open>invariant preservation facts\<close>

section \<open>Sums as results\<close>

definition is_ok :: "'e + 'a \<Rightarrow> bool" where
  "is_ok r = (case r of Inl _ \<Rightarrow> False | Inr _ \<Rightarrow> True)"

definition result_bind :: "'e + 'a \<Rightarrow> ('a \<Rightarrow> 'e + 'b) \<Rightarrow> 'e + 'b" where
  "result_bind r f = (case r of Inl e \<Rightarrow> Inl e | Inr a \<Rightarrow> f a)"

lemma is_ok_simps [simp]: "is_ok (Inl e) = False" "is_ok (Inr a) = True"
  by (simp_all add: is_ok_def)

lemma is_ok_iff: "is_ok r \<longleftrightarrow> (\<exists>a. r = Inr a)"
  by (cases r) simp_all

lemma result_bind_simps [simp]:
  "result_bind (Inl e) f = Inl e" "result_bind (Inr a) f = f a"
  by (simp_all add: result_bind_def)

lemma result_bind_Inr_iff:
  "result_bind r f = Inr b \<longleftrightarrow> (\<exists>a. r = Inr a \<and> f a = Inr b)"
  by (cases r) simp_all

section \<open>Ordered dictionaries\<close>

lemma map_of_alist_update [simp]:
  "map_of (AList.update k v d) = (map_of d)(k \<mapsto> v)"
  by (simp add: update_conv')

lemma map_of_alist_delete [simp]:
  "map_of (AList.delete k d) = (map_of d)(k := None)"
  by (simp add: delete_conv')

lemma distinct_keys_update [simp]:
  "distinct (map fst d) \<Longrightarrow> distinct (map fst (AList.update k v d))"
  by (rule distinct_update)

lemma distinct_keys_delete [simp]:
  "distinct (map fst d) \<Longrightarrow> distinct (map fst (AList.delete k d))"
  by (rule distinct_delete)

lemma map_upd_same_eq [simp]: "m(k \<mapsto> a) = m(k \<mapsto> b) \<longleftrightarrow> a = b"
  by (auto dest: map_upd_eqD1)

lemma alist_update_fresh:
  "k \<notin> fst ` set d \<Longrightarrow> AList.update k v d = d @ [(k, v)]"
  by (induction d) auto

lemma alist_update_in_set:
  "x \<in> set (AList.update k v d) \<Longrightarrow> x = (k, v) \<or> x \<in> set d"
  by (induction d) (auto split: if_splits)

lemma room_left: "int k < n \<Longrightarrow> nat (n - int k) = Suc (nat (n - (1 + int k)))"
  by linarith

lemma map_of_NoneI: "k \<notin> fst ` set d \<Longrightarrow> map_of d k = None"
  by (simp add: map_of_eq_None_iff)

lemma dict_values_iff:
  "distinct (map fst d) \<Longrightarrow> (v \<in> snd ` set d) = (\<exists>k. map_of d k = Some v)"
  by (force simp: image_iff)

section \<open>Sums over the values of a dictionary\<close>

text \<open>Total of a measure over the values: the accounting invariants are stated with it.\<close>

definition dict_sum :: "('v \<Rightarrow> 'n::comm_monoid_add) \<Rightarrow> ('k \<times> 'v) list \<Rightarrow> 'n" where
  "dict_sum f d = sum_list (map (f \<circ> snd) d)"

lemma dict_sum_Nil [simp]: "dict_sum f [] = 0"
  by (simp add: dict_sum_def)

lemma dict_sum_Cons [simp]: "dict_sum f (p # d) = f (snd p) + dict_sum f d"
  by (simp add: dict_sum_def)

lemma dict_sum_append [simp]: "dict_sum f (d @ e) = dict_sum f d + dict_sum f e"
  by (simp add: dict_sum_def)

lemma dict_sum_update_fresh:
  "map_of d k = None \<Longrightarrow> dict_sum f (AList.update k v d) = dict_sum f d + f v"
  by (induction d) (auto simp: algebra_simps)

lemma dict_sum_update:
  fixes f :: "'v \<Rightarrow> 'n::ab_group_add"
  shows "map_of d k = Some w \<Longrightarrow>
    dict_sum f (AList.update k v d) = dict_sum f d - f w + f v"
  by (induction d) (auto simp: algebra_simps)

lemma dict_sum_cong:
  "(\<And>k v. (k, v) \<in> set d \<Longrightarrow> f v = g v) \<Longrightarrow> dict_sum f d = dict_sum g d"
  by (force simp: dict_sum_def intro: arg_cong [where f = sum_list] map_cong)

lemma dict_sum_const_zero [simp]: "dict_sum (\<lambda>_. 0) d = 0"
  by (induction d) simp_all

lemma dict_sum_zero:
  "(\<And>k v. (k, v) \<in> set d \<Longrightarrow> f v = 0) \<Longrightarrow> dict_sum f d = 0"
  using dict_sum_cong [of d f "\<lambda>_. 0"] by simp

lemma dict_sum_nonneg:
  fixes f :: "'v \<Rightarrow> 'n::ordered_comm_monoid_add"
  shows "(\<And>k v. (k, v) \<in> set d \<Longrightarrow> 0 \<le> f v) \<Longrightarrow> 0 \<le> dict_sum f d"
proof (induction d)
  case (Cons p d)
  then have "0 \<le> f (snd p)" and "0 \<le> dict_sum f d"
    by (cases p, auto)+
  then show ?case by simp
qed simp

section \<open>Lists\<close>

text \<open>\<open>str.startswith\<close> for one prefix.\<close>

definition startswith :: "string \<Rightarrow> string \<Rightarrow> bool" where
  "startswith s p \<longleftrightarrow> take (length p) s = p"

lemma startswith_append [simp]: "startswith (p @ s) p"
  by (simp add: startswith_def)

lemma startswith_refl [simp]: "startswith p p"
  by (simp add: startswith_def)

end
