(* ===== verification/Capability_Firewall.thy ===== *)
theory Capability_Firewall
  imports Prelude
begin

text \<open>
  The deny-by-default evaluator of \<open>core/security/firewall.py\<close> over the contract of
  \<open>core/contracts/security.py\<close>: the closed decision set, the decision input, the
  per-tenant policy record and \<open>CapabilityFirewall\<close>'s three methods.  Lemmas: the
  exact condition of every verdict, tenant isolation of policy changes, and what an
  approval can and cannot change.
\<close>

datatype actor_kind = USER | SYSTEM

datatype firewall_decision = ALLOW | DENY | ALLOW_WITH_LIMIT | REQUIRE_APPROVAL

text \<open>\<open>approval_state: Literal["approved"] | None\<close>.\<close>

datatype approval_state = Approved

record firewall_input =
  fi_actor :: actor_kind
  fi_tenant_id :: uuid
  fi_permission :: string
  fi_resource :: string
  fi_scope :: string
  fi_entitlement :: string
  fi_approval_state :: "approval_state option"
  fi_risk_level :: string

record tenant_policy =
  granted_permissions :: "string set"
  granted_entitlements :: "string set"
  approval_gated_permissions :: "string set"
  limited_permissions :: "string set"

type_synonym firewall = "uuid \<rightharpoonup> tenant_policy"

definition set_tenant_policy :: "uuid \<Rightarrow> tenant_policy \<Rightarrow> firewall \<Rightarrow> firewall" where
  "set_tenant_policy t pol fw = fw(t \<mapsto> pol)"

definition policy_for :: "firewall \<Rightarrow> uuid \<Rightarrow> tenant_policy option" where
  "policy_for fw t = fw t"

definition decide :: "firewall \<Rightarrow> firewall_input \<Rightarrow> firewall_decision" where
  "decide fw req =
     (case fw (fi_tenant_id req) of
        None \<Rightarrow> DENY
      | Some policy \<Rightarrow>
          if fi_permission req \<notin> granted_permissions policy then DENY
          else if fi_entitlement req \<notin> granted_entitlements policy then DENY
          else if fi_permission req \<in> approval_gated_permissions policy
                  \<and> fi_approval_state req \<noteq> Some Approved then REQUIRE_APPROVAL
          else if fi_permission req \<in> limited_permissions policy then ALLOW_WITH_LIMIT
          else ALLOW)"

text \<open>What the tenant holds, as one predicate: the abstract grant the verdicts refine.\<close>

definition holds_grant :: "firewall \<Rightarrow> firewall_input \<Rightarrow> bool" where
  "holds_grant fw req =
     (case fw (fi_tenant_id req) of
        None \<Rightarrow> False
      | Some policy \<Rightarrow>
          fi_permission req \<in> granted_permissions policy
          \<and> fi_entitlement req \<in> granted_entitlements policy)"

definition approval_missing :: "firewall \<Rightarrow> firewall_input \<Rightarrow> bool" where
  "approval_missing fw req =
     (case fw (fi_tenant_id req) of
        None \<Rightarrow> False
      | Some policy \<Rightarrow>
          fi_permission req \<in> approval_gated_permissions policy
          \<and> fi_approval_state req \<noteq> Some Approved)"

definition admits :: "firewall_decision \<Rightarrow> bool" where
  "admits d = (d = ALLOW \<or> d = ALLOW_WITH_LIMIT)"

lemma admits_simps [simp]:
  "admits ALLOW" "admits ALLOW_WITH_LIMIT" "\<not> admits DENY" "\<not> admits REQUIRE_APPROVAL"
  by (simp_all add: admits_def)

lemma admits_cases: "admits d \<or> d = DENY \<or> d = REQUIRE_APPROVAL"
  by (cases d) simp_all

lemma decide_DENY_iff [simp]: "decide fw req = DENY \<longleftrightarrow> \<not> holds_grant fw req"
  by (auto simp: decide_def holds_grant_def split: option.splits if_splits)

lemma decide_REQUIRE_APPROVAL_iff [simp]:
  "decide fw req = REQUIRE_APPROVAL \<longleftrightarrow> holds_grant fw req \<and> approval_missing fw req"
  by (auto simp: decide_def holds_grant_def approval_missing_def
      split: option.splits if_splits)

lemma decide_admits_iff:
  "admits (decide fw req) \<longleftrightarrow> holds_grant fw req \<and> \<not> approval_missing fw req"
  by (auto simp: decide_def holds_grant_def approval_missing_def
      split: option.splits if_splits)

lemma decide_other_tenant:
  "fi_tenant_id req \<noteq> t \<Longrightarrow> decide (set_tenant_policy t pol fw) req = decide fw req"
  by (simp add: decide_def set_tenant_policy_def)

text \<open>
  C1. The firewall refines its abstract grant: a request is let through exactly when the
  tenant has a policy record, that record grants both the permission and the
  entitlement, and an approval-gated permission carries an approval; a request without
  the grant is DENY whatever its approval state says, and a granted request that only
  lacks its approval is REQUIRE_APPROVAL, never DENY and never an allow.
\<close>

theorem firewall_deny_by_default:
  "(admits (decide fw req) \<longleftrightarrow> holds_grant fw req \<and> \<not> approval_missing fw req)
   \<and> (decide fw (req\<lparr>fi_approval_state := a\<rparr>) = DENY \<longleftrightarrow> \<not> holds_grant fw req)
   \<and> (decide fw req = REQUIRE_APPROVAL \<longleftrightarrow> holds_grant fw req \<and> approval_missing fw req)"
proof -
  have "holds_grant fw (req\<lparr>fi_approval_state := a\<rparr>) = holds_grant fw req"
    by (simp add: holds_grant_def split: option.split)
  then show ?thesis by (simp add: decide_admits_iff)
qed

end
