(* ===== verification/Device_Trust.thy ===== *)
theory Device_Trust
  imports Prelude
begin

text \<open>
  The device trust registry: the closed states and the transition table of
  \<open>core/contracts/device.py\<close> and the verbs of \<open>core/identity/devices.py\<close>.  The registry
  is a map from device id to record; the clock value and the fresh id of \<open>pair\<close> are
  arguments.  \<open>device_step\<close> is one successful call on the registry; the lemmas are about
  the registries reachable by such calls: a burned identity never comes back, and the
  trust stamps always tell the state.
\<close>

datatype device_state = PAIRED | TRUSTED | REVOKED | EXPIRED | COMPROMISED

definition USABLE_DEVICE_STATES :: "device_state set" where
  "USABLE_DEVICE_STATES = {TRUSTED}"

definition TERMINAL_DEVICE_STATES :: "device_state set" where
  "TERMINAL_DEVICE_STATES = {REVOKED, COMPROMISED}"

definition ALLOWED_DEVICE_TRANSITIONS :: "(device_state \<times> device_state) set" where
  "ALLOWED_DEVICE_TRANSITIONS =
     {(PAIRED, TRUSTED), (TRUSTED, EXPIRED), (EXPIRED, TRUSTED),
      (PAIRED, REVOKED), (TRUSTED, REVOKED), (EXPIRED, REVOKED),
      (PAIRED, COMPROMISED), (TRUSTED, COMPROMISED), (EXPIRED, COMPROMISED)}"

record device =
  dev_id :: uuid
  dev_tenant_id :: uuid
  dev_user_id :: uuid
  dev_name :: string
  dev_state :: device_state
  dev_paired_at :: timestamp
  dev_trusted_at :: "timestamp option"
  dev_revoked_at :: "timestamp option"
  dev_last_heartbeat_at :: "timestamp option"

datatype device_error =
    DeviceNotFound uuid
  | DeviceTransitionDenied device_state device_state
  | DeviceHeartbeatRefused device_state

type_synonym device_registry = "uuid \<rightharpoonup> device"

definition pair_device ::
  "uuid \<Rightarrow> timestamp \<Rightarrow> uuid \<Rightarrow> uuid \<Rightarrow> string \<Rightarrow> device_registry
    \<Rightarrow> device_registry \<times> device" where
  "pair_device new_id now tenant_id user_id name reg =
     (let device = \<lparr>dev_id = new_id, dev_tenant_id = tenant_id, dev_user_id = user_id,
                    dev_name = name, dev_state = PAIRED, dev_paired_at = now,
                    dev_trusted_at = None, dev_revoked_at = None,
                    dev_last_heartbeat_at = None\<rparr>
      in (reg(new_id \<mapsto> device), device))"

definition transition ::
  "timestamp \<Rightarrow> device_registry \<Rightarrow> uuid \<Rightarrow> device_state
    \<Rightarrow> device_error + (device_registry \<times> device)" where
  "transition now reg did requested =
     (case reg did of
        None \<Rightarrow> Inl (DeviceNotFound did)
      | Some device \<Rightarrow>
          if (dev_state device, requested) \<notin> ALLOWED_DEVICE_TRANSITIONS
          then Inl (DeviceTransitionDenied (dev_state device) requested)
          else
            let updated =
              (if requested = TRUSTED
               then device\<lparr>dev_state := requested, dev_trusted_at := Some now\<rparr>
               else if requested = REVOKED \<or> requested = COMPROMISED
               then device\<lparr>dev_state := requested, dev_revoked_at := Some now\<rparr>
               else device\<lparr>dev_state := requested\<rparr>)
            in Inr (reg(dev_id device \<mapsto> updated), updated))"

definition trust where "trust now reg did = transition now reg did TRUSTED"
definition expire where "expire now reg did = transition now reg did EXPIRED"
definition revoke where "revoke now reg did = transition now reg did REVOKED"
definition mark_compromised where
  "mark_compromised now reg did = transition now reg did COMPROMISED"

definition get_device ::
  "device_registry \<Rightarrow> uuid \<Rightarrow> uuid \<Rightarrow> device_error + device" where
  "get_device reg did tenant_id =
     (case reg did of
        None \<Rightarrow> Inl (DeviceNotFound did)
      | Some device \<Rightarrow>
          if dev_tenant_id device \<noteq> tenant_id then Inl (DeviceNotFound did)
          else Inr device)"

definition is_usable ::
  "device_registry \<Rightarrow> uuid \<Rightarrow> uuid \<Rightarrow> device_error + bool" where
  "is_usable reg did tenant_id =
     result_bind (get_device reg did tenant_id)
       (\<lambda>device. Inr (dev_state device \<in> USABLE_DEVICE_STATES))"

definition heartbeat ::
  "timestamp \<Rightarrow> device_registry \<Rightarrow> uuid \<Rightarrow> uuid
    \<Rightarrow> device_error + (device_registry \<times> device)" where
  "heartbeat now reg did tenant_id =
     result_bind (get_device reg did tenant_id)
       (\<lambda>device.
          if dev_state device \<notin> USABLE_DEVICE_STATES
          then Inl (DeviceHeartbeatRefused (dev_state device))
          else let updated = device\<lparr>dev_last_heartbeat_at := Some now\<rparr>
               in Inr (reg(dev_id device \<mapsto> updated), updated))"

lemmas device_verb_defs = trust_def expire_def revoke_def mark_compromised_def

section \<open>Reachable registries\<close>

text \<open>
  One rule per verb that changes the registry.  \<open>pair\<close> draws its id from \<open>uuid4\<close>, whose
  documented behaviour is that the id is new: the premise of the first rule.
\<close>

inductive device_step :: "device_registry \<Rightarrow> device_registry \<Rightarrow> bool" where
  step_pair: "new_id \<notin> dom reg
    \<Longrightarrow> device_step reg (fst (pair_device new_id now t u n reg))"
| step_trust: "trust now reg did = Inr (reg', d) \<Longrightarrow> device_step reg reg'"
| step_expire: "expire now reg did = Inr (reg', d) \<Longrightarrow> device_step reg reg'"
| step_revoke: "revoke now reg did = Inr (reg', d) \<Longrightarrow> device_step reg reg'"
| step_compromise: "mark_compromised now reg did = Inr (reg', d) \<Longrightarrow> device_step reg reg'"
| step_heartbeat: "heartbeat now reg did t = Inr (reg', d) \<Longrightarrow> device_step reg reg'"

inductive device_reachable :: "device_registry \<Rightarrow> bool" where
  reach_empty: "device_reachable Map.empty"
| reach_step: "device_reachable reg \<Longrightarrow> device_step reg reg' \<Longrightarrow> device_reachable reg'"

text \<open>What the stamps of a record say, and that a record is stored under its own id.\<close>

definition device_stamps_ok :: "device \<Rightarrow> bool" where
  "device_stamps_ok d \<longleftrightarrow>
     (dev_state d \<in> {TRUSTED, EXPIRED} \<longrightarrow> dev_trusted_at d \<noteq> None)
     \<and> (dev_state d \<in> TERMINAL_DEVICE_STATES \<longleftrightarrow> dev_revoked_at d \<noteq> None)
     \<and> (dev_last_heartbeat_at d \<noteq> None \<longrightarrow> dev_trusted_at d \<noteq> None)"

definition device_registry_inv :: "device_registry \<Rightarrow> bool" where
  "device_registry_inv reg \<longleftrightarrow>
     (\<forall>i d. reg i = Some d \<longrightarrow> dev_id d = i \<and> device_stamps_ok d)"

lemma device_registry_invD:
  "device_registry_inv reg \<Longrightarrow> reg i = Some d \<Longrightarrow> dev_id d = i \<and> device_stamps_ok d"
  by (simp add: device_registry_inv_def)

lemma device_registry_inv_empty: "device_registry_inv Map.empty"
  by (simp add: device_registry_inv_def)

lemma device_registry_inv_update:
  "device_registry_inv reg \<Longrightarrow> dev_id d = i \<Longrightarrow> device_stamps_ok d
    \<Longrightarrow> device_registry_inv (reg(i \<mapsto> d))"
  by (auto simp: device_registry_inv_def)

lemma transition_Inr:
  assumes "transition now reg did requested = Inr (reg', d')"
  obtains d where "reg did = Some d"
    and "(dev_state d, requested) \<in> ALLOWED_DEVICE_TRANSITIONS"
    and "reg' = reg(dev_id d \<mapsto> d')" and "dev_state d' = requested"
    and "dev_id d' = dev_id d" and "dev_last_heartbeat_at d' = dev_last_heartbeat_at d"
    and "dev_trusted_at d' = (if requested = TRUSTED then Some now else dev_trusted_at d)"
    and "dev_revoked_at d' =
      (if requested \<in> TERMINAL_DEVICE_STATES then Some now else dev_revoked_at d)"
  using assms
  by (auto simp: transition_def Let_def TERMINAL_DEVICE_STATES_def
      split: option.splits if_splits)

lemma allowed_from_live:
  "(s, s') \<in> ALLOWED_DEVICE_TRANSITIONS
    \<Longrightarrow> s \<notin> TERMINAL_DEVICE_STATES \<and> s' \<noteq> PAIRED
        \<and> (s' = EXPIRED \<longrightarrow> s = TRUSTED)"
  by (auto simp: ALLOWED_DEVICE_TRANSITIONS_def TERMINAL_DEVICE_STATES_def)

lemma transition_stamps:
  assumes "transition now reg did requested = Inr (reg', d')"
    and "device_registry_inv reg"
  shows "device_registry_inv reg'"
proof -
  obtain d where d: "reg did = Some d"
      "(dev_state d, requested) \<in> ALLOWED_DEVICE_TRANSITIONS"
      "reg' = reg(dev_id d \<mapsto> d')" "dev_state d' = requested" "dev_id d' = dev_id d"
      "dev_last_heartbeat_at d' = dev_last_heartbeat_at d"
      "dev_trusted_at d' = (if requested = TRUSTED then Some now else dev_trusted_at d)"
      "dev_revoked_at d' =
        (if requested \<in> TERMINAL_DEVICE_STATES then Some now else dev_revoked_at d)"
    using assms(1) by (rule transition_Inr)
  have "device_stamps_ok d" using device_registry_invD [OF assms(2) d(1)] by simp
  then have "device_stamps_ok d'"
    using d allowed_from_live [OF d(2)]
    by (auto simp: device_stamps_ok_def split: if_splits)
  with d assms(2) show ?thesis by (auto intro: device_registry_inv_update)
qed

lemma heartbeat_Inr:
  "heartbeat now reg did t = Inr (reg', d') \<Longrightarrow>
    \<exists>d. reg did = Some d \<and> dev_state d = TRUSTED
      \<and> d' = d\<lparr>dev_last_heartbeat_at := Some now\<rparr> \<and> reg' = reg(dev_id d \<mapsto> d')"
  by (auto simp: heartbeat_def get_device_def result_bind_Inr_iff Let_def
      USABLE_DEVICE_STATES_def split: option.splits if_splits)

lemma device_step_inv:
  assumes "device_step reg reg'" and "device_registry_inv reg"
  shows "device_registry_inv reg'"
  using assms
proof (cases rule: device_step.cases)
  case (step_pair new_id now t u n)
  then show ?thesis
    using assms(2)
    by (auto simp: pair_device_def Let_def device_stamps_ok_def TERMINAL_DEVICE_STATES_def
        intro!: device_registry_inv_update)
next
  case (step_heartbeat now did t d)
  then obtain d0 where d0: "reg did = Some d0" "dev_state d0 = TRUSTED"
      "d = d0\<lparr>dev_last_heartbeat_at := Some now\<rparr>" "reg' = reg(dev_id d0 \<mapsto> d)"
    using heartbeat_Inr by blast
  then have "device_stamps_ok d"
    using device_registry_invD [OF assms(2) d0(1)] by (auto simp: device_stamps_ok_def)
  with d0 assms(2) show ?thesis by (auto intro: device_registry_inv_update)
qed (use assms(2) in \<open>auto simp: device_verb_defs intro: transition_stamps\<close>)

lemma device_reachable_inv: "device_reachable reg \<Longrightarrow> device_registry_inv reg"
  by (induction rule: device_reachable.induct)
     (auto intro: device_registry_inv_empty device_step_inv)

text \<open>A step touches the record of one device, and never a terminal one.\<close>

lemma device_step_terminal:
  assumes "device_step reg reg'" and "device_registry_inv reg"
    and "reg i = Some d" and "dev_state d \<in> TERMINAL_DEVICE_STATES"
  shows "reg' i = Some d"
proof -
  have trans: "reg' i = Some d" if "transition now reg did requested = Inr (reg', d')"
    for now did requested d'
    using that
  proof (rule transition_Inr)
    fix d0
    assume "reg did = Some d0" "(dev_state d0, requested) \<in> ALLOWED_DEVICE_TRANSITIONS"
      and r: "reg' = reg(dev_id d0 \<mapsto> d')"
    then have "dev_id d0 = did" and "did \<noteq> i"
      using assms(2-4) allowed_from_live by (auto dest: device_registry_invD)
    with r assms(3) show ?thesis by simp
  qed
  from assms(1) show ?thesis
  proof (cases rule: device_step.cases)
    case (step_heartbeat now did t d1)
    then obtain d0 where "reg did = Some d0" "dev_state d0 = TRUSTED"
        "reg' = reg(dev_id d0 \<mapsto> d1)"
      using heartbeat_Inr by blast
    with assms(2-4) show ?thesis
      by (auto simp: TERMINAL_DEVICE_STATES_def dest: device_registry_invD)
  qed (use assms(3) trans in \<open>auto simp: pair_device_def Let_def device_verb_defs domIff\<close>)
qed

lemma device_steps_terminal:
  assumes "device_step\<^sup>*\<^sup>* reg reg'" and "device_registry_inv reg"
    and "reg i = Some d" and "dev_state d \<in> TERMINAL_DEVICE_STATES"
  shows "reg' i = Some d \<and> device_registry_inv reg'"
  using assms(1)
  by (induction rule: rtranclp_induct)
     (use assms(2-4) in \<open>auto intro: device_step_inv device_step_terminal\<close>)

text \<open>
  C2. Anti-resurrection: once a device of a reachable registry is revoked or compromised,
  its record never changes again, whatever verbs are called on any device afterwards, and
  it is never usable: the tool gate's usability question is answered with False for its
  own tenant and with "not found" for every other tenant.
\<close>

theorem burned_device_never_returns:
  assumes "device_reachable reg" and "reg i = Some d"
    and "dev_state d \<in> TERMINAL_DEVICE_STATES" and "device_step\<^sup>*\<^sup>* reg reg'"
  shows "reg' i = Some d
    \<and> is_usable reg' i t
      = (if t = dev_tenant_id d then Inr False else Inl (DeviceNotFound i))"
proof -
  have "reg' i = Some d"
    using device_steps_terminal [OF assms(4) device_reachable_inv [OF assms(1)] assms(2,3)]
    by simp
  with assms(3) show ?thesis
    by (auto simp: is_usable_def get_device_def USABLE_DEVICE_STATES_def
        TERMINAL_DEVICE_STATES_def)
qed

text \<open>
  The stamps tell the trust history in every reachable registry: a trusted or expired
  device has been trusted, \<open>revoked_at\<close> is set exactly on revoked and compromised devices,
  a heartbeat was only ever recorded on a device that had been trusted, and a record is
  stored under its own id.
\<close>

theorem device_stamps_tell_state:
  assumes "device_reachable reg" and "reg i = Some d"
  shows "dev_id d = i
    \<and> (dev_state d \<in> {TRUSTED, EXPIRED} \<longrightarrow> dev_trusted_at d \<noteq> None)
    \<and> (dev_revoked_at d \<noteq> None \<longleftrightarrow> dev_state d \<in> {REVOKED, COMPROMISED})
    \<and> (dev_last_heartbeat_at d \<noteq> None \<longrightarrow> dev_trusted_at d \<noteq> None)"
  using device_registry_invD [OF device_reachable_inv [OF assms(1)] assms(2)]
  by (auto simp: device_stamps_ok_def TERMINAL_DEVICE_STATES_def)

section \<open>Witnesses\<close>

definition ex_paired :: device_registry where
  "ex_paired = fst (pair_device 7 10 1 2 ''laptop'' Map.empty)"

definition ex_trusted :: device where
  "ex_trusted = \<lparr>dev_id = 7, dev_tenant_id = 1, dev_user_id = 2, dev_name = ''laptop'',
     dev_state = TRUSTED, dev_paired_at = 10, dev_trusted_at = Some 11,
     dev_revoked_at = None, dev_last_heartbeat_at = None\<rparr>"

definition ex_revoked :: device where
  "ex_revoked = ex_trusted\<lparr>dev_state := REVOKED, dev_revoked_at := Some 12\<rparr>"

lemma ex_reach_paired: "device_reachable ex_paired"
  unfolding ex_paired_def by (rule reach_step [OF reach_empty step_pair]) simp

lemma ex_reach_trusted: "device_reachable [7 \<mapsto> ex_trusted]"
  by (rule reach_step [OF ex_reach_paired step_trust [where now = 11 and did = 7]])
     (simp add: ex_paired_def pair_device_def trust_def transition_def Let_def
       ALLOWED_DEVICE_TRANSITIONS_def ex_trusted_def)

lemma ex_reach_revoked: "device_reachable [7 \<mapsto> ex_revoked]"
  by (rule reach_step [OF ex_reach_trusted step_revoke [where now = 12 and did = 7]])
     (simp add: revoke_def transition_def Let_def ALLOWED_DEVICE_TRANSITIONS_def
       ex_trusted_def ex_revoked_def)

lemma ex_step_after_revoke:
  "device_step\<^sup>*\<^sup>* [7 \<mapsto> ex_revoked] (fst (pair_device 8 13 1 2 ''phone'' [7 \<mapsto> ex_revoked]))"
  by (rule r_into_rtranclp, rule step_pair) simp

theorem burned_device_never_returns_witness:
  "fst (pair_device 8 13 1 2 ''phone'' [7 \<mapsto> ex_revoked]) 7 = Some ex_revoked
   \<and> is_usable (fst (pair_device 8 13 1 2 ''phone'' [7 \<mapsto> ex_revoked])) 7 1 = Inr False"
  using burned_device_never_returns [OF ex_reach_revoked _ _ ex_step_after_revoke,
      of 7 ex_revoked 1]
  by (simp add: ex_revoked_def ex_trusted_def TERMINAL_DEVICE_STATES_def)

theorem device_stamps_tell_state_witness:
  "dev_id ex_revoked = 7 \<and> dev_revoked_at ex_revoked \<noteq> None"
  using device_stamps_tell_state [OF ex_reach_revoked, of 7 ex_revoked]
  by (simp add: ex_revoked_def)

end
