(* ===== verification/Tool_Fabric.thy ===== *)
theory Tool_Fabric
  imports Capability_Firewall Device_Trust
begin

text \<open>
  Tools and their single admission path: the contract of \<open>core/contracts/tools.py\<close>
  (manifest validation and \<open>approval_for\<close> included), the registry of
  \<open>core/tools/registry.py\<close> and \<open>ToolCallGate\<close> of \<open>core/tools/gate.py\<close>.  The gate is
  modelled with its own order of checks and the reason string of every refusal.  Lemmas:
  the gate admits exactly when its five checks hold, refusals name the failing check, and
  the composed verdict only ever tightens the firewall's.
\<close>

datatype tool_location = SERVER | CLIENT | HYBRID

datatype tool_status = ACTIVE | DISABLED

datatype approval_requirement = NONE | BEFORE_ACTION | ALWAYS

text \<open>The enum values, as \<open>.value\<close> reads them.\<close>

fun tool_location_value :: "tool_location \<Rightarrow> string" where
  "tool_location_value SERVER = ''server''"
| "tool_location_value CLIENT = ''client''"
| "tool_location_value HYBRID = ''hybrid''"

fun tool_status_value :: "tool_status \<Rightarrow> string" where
  "tool_status_value ACTIVE = ''active''"
| "tool_status_value DISABLED = ''disabled''"

fun approval_value :: "approval_requirement \<Rightarrow> string" where
  "approval_value NONE = ''none''"
| "approval_value BEFORE_ACTION = ''before_action''"
| "approval_value ALWAYS = ''always''"

definition DEFAULT_APPROVAL_REQUIREMENT :: approval_requirement where
  "DEFAULT_APPROVAL_REQUIREMENT = ALWAYS"

section \<open>Manifest\<close>

record tool_manifest =
  tm_id :: string
  tm_name :: string
  tm_version :: string
  tm_location :: tool_location
  tm_status :: tool_status
  tm_permissions :: "string list"
  tm_input_schema :: json_object
  tm_output_schema :: json_object
  tm_supported_owners :: "string list"
  tm_approval_policy :: "(string \<times> approval_requirement) list"
  tm_sandbox_policy :: json_object
  tm_rate_limits :: "json_object option"

definition manifest_unknown_permissions :: "tool_manifest \<Rightarrow> string list" where
  "manifest_unknown_permissions m =
     [key. key \<leftarrow> map fst (tm_approval_policy m), key \<notin> set (tm_permissions m)]"

definition manifest_valid :: "tool_manifest \<Rightarrow> bool" where
  "manifest_valid m \<longleftrightarrow> manifest_unknown_permissions m = []"

text \<open>\<open>None\<close> is the \<open>KeyError\<close> for a permission the manifest never declared.\<close>

definition approval_for :: "tool_manifest \<Rightarrow> string \<Rightarrow> approval_requirement option" where
  "approval_for m permission =
     (if permission \<notin> set (tm_permissions m) then None
      else Some (case map_of (tm_approval_policy m) permission of
                   None \<Rightarrow> DEFAULT_APPROVAL_REQUIREMENT
                 | Some r \<Rightarrow> r))"

lemma manifest_valid_iff:
  "manifest_valid m \<longleftrightarrow> fst ` set (tm_approval_policy m) \<subseteq> set (tm_permissions m)"
  by (auto simp: manifest_valid_def manifest_unknown_permissions_def)

section \<open>Registry\<close>

record tool =
  tool_id :: uuid
  tool_name :: string
  tool_version :: string
  tool_location :: tool_location
  tool_permissions :: "string list"
  tool_input_schema :: json_object
  tool_output_schema :: json_object
  tool_sandbox_policy :: json_object
  tool_approval_policy :: "(string \<times> approval_requirement) list"
  tool_status :: tool_status

datatype tool_error =
    ToolNotRegistered uuid
  | DuplicateToolRegistration uuid
  | ToolNotSelectable uuid tool_status
  | ToolHandlerNotBound uuid

type_synonym tool_registry = "(uuid \<times> tool) list"

definition tool_register :: "tool_registry \<Rightarrow> tool \<Rightarrow> tool_error + tool_registry" where
  "tool_register reg t =
     (if map_of reg (tool_id t) \<noteq> None then Inl (DuplicateToolRegistration (tool_id t))
      else Inr (AList.update (tool_id t) t reg))"

definition tool_get :: "tool_registry \<Rightarrow> uuid \<Rightarrow> tool_error + tool" where
  "tool_get reg i =
     (case map_of reg i of None \<Rightarrow> Inl (ToolNotRegistered i) | Some t \<Rightarrow> Inr t)"

definition tool_replace :: "tool_registry \<Rightarrow> tool \<Rightarrow> tool_error + tool_registry" where
  "tool_replace reg t =
     (if map_of reg (tool_id t) = None then Inl (ToolNotRegistered (tool_id t))
      else Inr (AList.update (tool_id t) t reg))"

definition tool_select :: "tool_registry \<Rightarrow> uuid \<Rightarrow> tool_error + tool" where
  "tool_select reg i =
     result_bind (tool_get reg i)
       (\<lambda>t. if tool_status t \<noteq> ACTIVE then Inl (ToolNotSelectable i (tool_status t))
            else Inr t)"

definition tool_list_selectable :: "tool_registry \<Rightarrow> tool list" where
  "tool_list_selectable reg =
     sort_key tool_name (filter (\<lambda>t. tool_status t = ACTIVE) (map snd reg))"

definition tool_list_all :: "tool_registry \<Rightarrow> tool list" where
  "tool_list_all reg = sort_key tool_name (map snd reg)"

definition tool_registry_inv :: "tool_registry \<Rightarrow> bool" where
  "tool_registry_inv reg \<longleftrightarrow>
     distinct (map fst reg) \<and> (\<forall>(i, t) \<in> set reg. tool_id t = i)"

lemma tool_registry_inv_empty: "tool_registry_inv []"
  by (simp add: tool_registry_inv_def)

lemma tool_registry_inv_update:
  assumes "tool_registry_inv reg"
  shows "tool_registry_inv (AList.update (tool_id t) t reg)"
proof -
  have "set (AList.update (tool_id t) t reg) \<subseteq> insert (tool_id t, t) (set reg)"
    by (induction reg) auto
  with assms show ?thesis by (auto simp: tool_registry_inv_def)
qed

lemma tool_register_inv [py_inv]:
  "tool_registry_inv reg \<Longrightarrow> tool_register reg t = Inr reg' \<Longrightarrow> tool_registry_inv reg'"
  by (auto simp: tool_register_def tool_registry_inv_update split: if_splits)

lemma tool_replace_inv [py_inv]:
  "tool_registry_inv reg \<Longrightarrow> tool_replace reg t = Inr reg' \<Longrightarrow> tool_registry_inv reg'"
  by (auto simp: tool_replace_def tool_registry_inv_update split: if_splits)

lemma tool_select_Inr_iff:
  "tool_select reg i = Inr t \<longleftrightarrow> map_of reg i = Some t \<and> tool_status t = ACTIVE"
  by (auto simp: tool_select_def tool_get_def result_bind_Inr_iff split: option.splits)

lemma tool_select_cases:
  "tool_select reg i =
     (case map_of reg i of
        None \<Rightarrow> Inl (ToolNotRegistered i)
      | Some t \<Rightarrow> if tool_status t = ACTIVE then Inr t
                  else Inl (ToolNotSelectable i (tool_status t)))"
  by (simp add: tool_select_def tool_get_def split: option.split)

lemma tool_registry_inv_lookup:
  "tool_registry_inv reg \<Longrightarrow> map_of reg i = Some t \<Longrightarrow> tool_id t = i"
  by (auto simp: tool_registry_inv_def dest: map_of_SomeD)

lemma set_tool_list_selectable:
  assumes "tool_registry_inv reg"
  shows "t \<in> set (tool_list_selectable reg) \<longleftrightarrow> tool_select reg (tool_id t) = Inr t"
proof -
  have "t \<in> snd ` set reg \<longleftrightarrow> map_of reg (tool_id t) = Some t"
    using assms dict_values_iff [of reg t] tool_registry_inv_lookup [OF assms, of _ t]
    by (auto simp: tool_registry_inv_def)
  then show ?thesis by (auto simp: tool_list_selectable_def tool_select_Inr_iff)
qed

text \<open>
  Registry contract: registering never overwrites, replacing never creates, both
  leave every other tool alone and keep ids and records in agreement; the listing of
  selectable tools holds exactly the tools that \<open>select\<close> returns, in name order.
\<close>

theorem tool_registry_contract:
  assumes "tool_registry_inv reg"
  shows "(tool_register reg t = Inr reg' \<longrightarrow>
            map_of reg (tool_id t) = None \<and> map_of reg' = (map_of reg)(tool_id t \<mapsto> t)
            \<and> tool_registry_inv reg')
    \<and> (tool_replace reg t = Inr reg' \<longrightarrow>
            map_of reg (tool_id t) \<noteq> None \<and> map_of reg' = (map_of reg)(tool_id t \<mapsto> t)
            \<and> tool_registry_inv reg')
    \<and> (u \<in> set (tool_list_selectable reg) \<longleftrightarrow> tool_select reg (tool_id u) = Inr u)
    \<and> sorted (map tool_name (tool_list_selectable reg))"
proof -
  have "tool_register reg t = Inr reg' \<longrightarrow>
      map_of reg (tool_id t) = None \<and> map_of reg' = (map_of reg)(tool_id t \<mapsto> t)
      \<and> tool_registry_inv reg'"
    using tool_register_inv [OF assms] by (auto simp: tool_register_def split: if_splits)
  moreover have "tool_replace reg t = Inr reg' \<longrightarrow>
      map_of reg (tool_id t) \<noteq> None \<and> map_of reg' = (map_of reg)(tool_id t \<mapsto> t)
      \<and> tool_registry_inv reg'"
    using tool_replace_inv [OF assms] by (auto simp: tool_replace_def split: if_splits)
  moreover have "sorted (map tool_name (tool_list_selectable reg))"
    by (simp add: tool_list_selectable_def)
  ultimately show ?thesis using set_tool_list_selectable [OF assms] by simp
qed

section \<open>The gate\<close>

record tool_call_decision =
  tcd_admitted :: bool
  tcd_decision :: firewall_decision
  tcd_reason :: "string option"

definition refuse :: "firewall_decision \<Rightarrow> string \<Rightarrow> tool_call_decision" where
  "refuse d reason = \<lparr>tcd_admitted = False, tcd_decision = d, tcd_reason = Some reason\<rparr>"

text \<open>\<open>ToolCallGate._check_device\<close>: \<open>None\<close> when the check passed.\<close>

definition check_device ::
  "device_registry \<Rightarrow> tool \<Rightarrow> uuid \<Rightarrow> uuid option \<Rightarrow> string option" where
  "check_device devices t tenant_id device_id =
     (if tool_location t = SERVER then None
      else case device_id of
        None \<Rightarrow> Some (''device_required:'' @ tool_location_value (tool_location t))
      | Some did \<Rightarrow>
          (case is_usable devices did tenant_id of
             Inl _ \<Rightarrow> Some ''device_unknown''
           | Inr usable \<Rightarrow> if \<not> usable then Some ''device_not_trusted'' else None))"

text \<open>\<open>tool.approval_policy.get(permission, ApprovalRequirement.ALWAYS)\<close>.\<close>

definition needs_approval :: "tool \<Rightarrow> string \<Rightarrow> approval_requirement" where
  "needs_approval t permission =
     (case map_of (tool_approval_policy t) permission of None \<Rightarrow> ALWAYS | Some r \<Rightarrow> r)"

definition admit ::
  "tool_registry \<Rightarrow> firewall \<Rightarrow> device_registry \<Rightarrow> uuid \<Rightarrow> firewall_input \<Rightarrow> uuid option
    \<Rightarrow> tool_error + tool_call_decision" where
  "admit tools fw devices tid request device_id =
     (case tool_select tools tid of
        Inl (ToolNotSelectable _ status) \<Rightarrow>
          Inr (refuse DENY (''tool_not_selectable:'' @ tool_status_value status))
      | Inl e \<Rightarrow> Inl e
      | Inr t \<Rightarrow>
          if fi_permission request \<notin> set (tool_permissions t)
          then Inr (refuse DENY (''permission_undeclared:'' @ fi_permission request))
          else case check_device devices t (fi_tenant_id request) device_id of
            Some device_reason \<Rightarrow> Inr (refuse DENY device_reason)
          | None \<Rightarrow>
              (let verdict = decide fw request;
                   needs = needs_approval t (fi_permission request)
               in if verdict = DENY then Inr (refuse DENY ''firewall_deny'')
                  else if needs \<noteq> NONE \<and> fi_approval_state request \<noteq> Some Approved
                  then Inr (refuse REQUIRE_APPROVAL
                              (''tool_approval_required:'' @ approval_value needs))
                  else if verdict = REQUIRE_APPROVAL
                  then Inr (refuse REQUIRE_APPROVAL ''firewall_requires_approval'')
                  else Inr \<lparr>tcd_admitted = True, tcd_decision = verdict,
                            tcd_reason = None\<rparr>))"

text \<open>The device rule of the gate, as a predicate of the tool and the registry.\<close>

definition device_ok :: "device_registry \<Rightarrow> tool \<Rightarrow> uuid \<Rightarrow> uuid option \<Rightarrow> bool" where
  "device_ok devices t tenant_id device_id \<longleftrightarrow>
     tool_location t = SERVER
     \<or> (\<exists>did d. device_id = Some did \<and> devices did = Some d
          \<and> dev_tenant_id d = tenant_id \<and> dev_state d = TRUSTED)"

lemma check_device_None_iff:
  "check_device devices t tenant_id device_id = None
    \<longleftrightarrow> device_ok devices t tenant_id device_id"
  by (auto simp: check_device_def device_ok_def is_usable_def get_device_def
      USABLE_DEVICE_STATES_def split: option.splits sum.splits if_splits)

definition tool_approval_ok :: "tool \<Rightarrow> firewall_input \<Rightarrow> bool" where
  "tool_approval_ok t request \<longleftrightarrow>
     needs_approval t (fi_permission request) = NONE
     \<or> fi_approval_state request = Some Approved"

lemma admit_error_iff:
  "admit tools fw devices tid request device_id = Inl e
    \<longleftrightarrow> map_of tools tid = None \<and> e = ToolNotRegistered tid"
  by (auto simp: admit_def tool_select_cases Let_def split: option.splits)

lemma refuse_sel [simp]:
  "tcd_admitted (refuse d s) = False" "tcd_decision (refuse d s) = d"
  "tcd_reason (refuse d s) = Some s"
  by (simp_all add: refuse_def)

text \<open>What the gate returns once the tool and the permission are in order.\<close>

lemma admit_declared:
  assumes "map_of tools tid = Some t" and "tool_status t = ACTIVE"
    and "fi_permission request \<in> set (tool_permissions t)"
    and "device_ok devices t (fi_tenant_id request) device_id"
  shows "admit tools fw devices tid request device_id =
    (if \<not> holds_grant fw request then Inr (refuse DENY ''firewall_deny'')
     else if \<not> tool_approval_ok t request
     then Inr (refuse REQUIRE_APPROVAL (''tool_approval_required:''
            @ approval_value (needs_approval t (fi_permission request))))
     else if approval_missing fw request
     then Inr (refuse REQUIRE_APPROVAL ''firewall_requires_approval'')
     else Inr \<lparr>tcd_admitted = True, tcd_decision = decide fw request, tcd_reason = None\<rparr>)"
  using assms
  by (simp add: admit_def tool_select_cases check_device_None_iff [symmetric] Let_def
      tool_approval_ok_def)

lemma admit_admitted_iff:
  "(\<exists>d. admit tools fw devices tid request device_id = Inr d \<and> tcd_admitted d)
   \<longleftrightarrow> (\<exists>t. map_of tools tid = Some t \<and> tool_status t = ACTIVE
          \<and> fi_permission request \<in> set (tool_permissions t)
          \<and> device_ok devices t (fi_tenant_id request) device_id
          \<and> holds_grant fw request \<and> \<not> approval_missing fw request
          \<and> tool_approval_ok t request)" (is "?L \<longleftrightarrow> ?R")
proof
  assume ?R
  then show ?L by (auto simp: admit_declared)
next
  assume ?L
  then show ?R
    by (auto simp: admit_def tool_select_cases check_device_None_iff Let_def
        tool_approval_ok_def split: option.splits if_splits)
qed

lemma admit_verdict:
  "admit tools fw devices tid request device_id = Inr d \<Longrightarrow>
     (tcd_admitted d \<longleftrightarrow> admits (tcd_decision d))
     \<and> (tcd_admitted d \<longleftrightarrow> tcd_reason d = None)
     \<and> (tcd_admitted d \<longrightarrow> tcd_decision d = decide fw request)"
  by (auto simp: admit_def tool_select_cases Let_def admits_def
      split: option.splits if_splits)
     (use firewall_decision.exhaust decide_REQUIRE_APPROVAL_iff decide_DENY_iff in metis)+

text \<open>
  C3. Complete mediation: a tool call is admitted exactly when the tool is registered and
  active, the permission is declared by it, a client or hybrid tool is presented with a
  trusted device of the caller's tenant, the firewall holds the grant with no approval of
  its own missing, and the tool's own approval policy is satisfied.  An admitted call
  carries the firewall's verdict unchanged and no reason; a refusal carries DENY or
  REQUIRE_APPROVAL and names a reason; an unregistered tool is the only error.
\<close>

theorem gate_complete_mediation:
  "((\<exists>d. admit tools fw devices tid request device_id = Inr d \<and> tcd_admitted d)
     \<longleftrightarrow> (\<exists>t. map_of tools tid = Some t \<and> tool_status t = ACTIVE
          \<and> fi_permission request \<in> set (tool_permissions t)
          \<and> device_ok devices t (fi_tenant_id request) device_id
          \<and> holds_grant fw request \<and> \<not> approval_missing fw request
          \<and> tool_approval_ok t request))
   \<and> (case admit tools fw devices tid request device_id of
        Inl e \<Rightarrow> e = ToolNotRegistered tid \<and> map_of tools tid = None
      | Inr d \<Rightarrow> (if tcd_admitted d
                 then tcd_decision d = decide fw request \<and> admits (tcd_decision d)
                      \<and> tcd_reason d = None
                 else tcd_decision d \<in> {DENY, REQUIRE_APPROVAL} \<and> tcd_reason d \<noteq> None))"
proof -
  have "case admit tools fw devices tid request device_id of
        Inl e \<Rightarrow> e = ToolNotRegistered tid \<and> map_of tools tid = None
      | Inr d \<Rightarrow> (if tcd_admitted d
                 then tcd_decision d = decide fw request \<and> admits (tcd_decision d)
                      \<and> tcd_reason d = None
                 else tcd_decision d \<in> {DENY, REQUIRE_APPROVAL} \<and> tcd_reason d \<noteq> None)"
    using admit_verdict [of tools fw devices tid request device_id]
      admit_error_iff [of tools fw devices tid request device_id]
      admits_cases
    by (fastforce split: sum.split)
  then show ?thesis by (simp add: admit_admitted_iff)
qed

text \<open>
  The tool policy only tightens: whatever the tool declares, the gate never admits
  what the firewall alone would not, a firewall DENY stays DENY, and weakening a tool's
  approval entry to \<open>none\<close> never turns a firewall refusal into an admission.
\<close>

theorem gate_only_tightens:
  assumes "admit tools fw devices tid request device_id = Inr d"
  shows "(tcd_admitted d \<longrightarrow> admits (decide fw request))
    \<and> (decide fw request = DENY \<longrightarrow> tcd_decision d = DENY)
    \<and> (decide fw request = REQUIRE_APPROVAL \<longrightarrow> \<not> tcd_admitted d)"
  using assms admit_verdict [OF assms]
  by (auto simp: admit_def tool_select_cases Let_def split: option.splits if_splits)

text \<open>A concrete tenant, tool and device for the witnesses.\<close>

definition ex_policy :: tenant_policy where
  "ex_policy = \<lparr>granted_permissions = {''fs.read''}, granted_entitlements = {''dev''},
     approval_gated_permissions = {}, limited_permissions = {}\<rparr>"

definition ex_request :: firewall_input where
  "ex_request = \<lparr>fi_actor = USER, fi_tenant_id = 1, fi_permission = ''fs.read'',
     fi_resource = ''repo'', fi_scope = ''project'', fi_entitlement = ''dev'',
     fi_approval_state = Some Approved, fi_risk_level = ''low''\<rparr>"

definition ex_tool :: tool where
  "ex_tool = \<lparr>tool_id = 5, tool_name = ''reader'', tool_version = ''1'',
     tool_location = CLIENT, tool_permissions = [''fs.read''],
     tool_input_schema = [], tool_output_schema = [], tool_sandbox_policy = [],
     tool_approval_policy = [], tool_status = ACTIVE\<rparr>"

definition ex_tools :: tool_registry where
  "ex_tools = [(5, ex_tool)]"

lemma ex_admit:
  "admit ex_tools [1 \<mapsto> ex_policy] [7 \<mapsto> ex_trusted] 5 ex_request (Some 7)
    = Inr \<lparr>tcd_admitted = True, tcd_decision = ALLOW, tcd_reason = None\<rparr>"
  by (simp add: admit_def tool_select_def tool_get_def ex_tools_def ex_tool_def
      ex_request_def ex_policy_def ex_trusted_def check_device_def is_usable_def
      get_device_def USABLE_DEVICE_STATES_def decide_def needs_approval_def Let_def)

theorem tool_registry_contract_witness:
  "tool_register [] ex_tool = Inr ex_tools
   \<and> map_of ex_tools 5 = Some ex_tool"
proof -
  have r: "tool_register [] ex_tool = Inr ex_tools"
    by (simp add: tool_register_def ex_tools_def ex_tool_def)
  then have "map_of ex_tools = (map_of [])(tool_id ex_tool \<mapsto> ex_tool)"
    using tool_registry_contract [OF tool_registry_inv_empty, of ex_tool ex_tools] by blast
  with r show ?thesis by (simp add: ex_tool_def)
qed

theorem gate_only_tightens_witness:
  "admits (decide [1 \<mapsto> ex_policy] ex_request)"
  using gate_only_tightens [OF ex_admit] by simp

end
