(* ===== verification/Audit_Log.thy ===== *)
theory Audit_Log
  imports Prelude
begin

text \<open>
  The append-only audit log: the event contract of \<open>core/contracts/audit.py\<close> and
  \<open>InMemoryAuditLog\<close> of \<open>core/audit/memory.py\<close>.  The evs is the list of events in
  insertion order; the event's default id and time are fields chosen by the caller.
  Lemmas: the integrity rule for admin changes, tenant isolation and the order of a read,
  and what \<open>limit\<close> returns.
\<close>

datatype audit_event_type =
    LOGIN | LOGOUT | CREDENTIAL_CREATED | CREDENTIAL_REVOKED | PROVIDER_ACCOUNT_USED
  | PERMISSION_DENIED | TOOL_CALL | APPROVAL_DECISION | ADMIN_CONFIG_PUBLISHED
  | ADMIN_CONFIG_ROLLED_BACK | SECURITY_POLICY_CHANGED | TRAINING_DATASET_PROMOTED
  | CROSS_TENANT_ACCESS_DENIED

definition ADMIN_CHANGE_EVENT_TYPES :: "audit_event_type set" where
  "ADMIN_CHANGE_EVENT_TYPES = {ADMIN_CONFIG_PUBLISHED, ADMIN_CONFIG_ROLLED_BACK}"

record admin_change =
  ac_what :: string
  ac_previous_version :: string
  ac_new_version :: string
  ac_validation_result :: string
  ac_impact_preview :: string
  ac_rollback_target :: string

record audit_event =
  ae_id :: uuid
  ae_tenant_id :: uuid
  ae_event_type :: audit_event_type
  ae_actor_id :: "uuid option"
  ae_occurred_at :: timestamp
  ae_details :: json_object
  ae_admin_change :: "admin_change option"

datatype audit_error = InvalidAuditEvent audit_event_type

type_synonym audit_log = "audit_event list"

definition audit_append :: "audit_log \<Rightarrow> audit_event \<Rightarrow> audit_error + audit_log" where
  "audit_append evs e =
     (let is_admin = ae_event_type e \<in> ADMIN_CHANGE_EVENT_TYPES
      in if is_admin \<and> ae_admin_change e = None then Inl (InvalidAuditEvent (ae_event_type e))
         else if \<not> is_admin \<and> ae_admin_change e \<noteq> None
         then Inl (InvalidAuditEvent (ae_event_type e))
         else Inr (evs @ [e]))"

text \<open>Python's \<open>xs[i:]\<close> for any integer \<open>i\<close>.\<close>

definition slice_from :: "'a list \<Rightarrow> int \<Rightarrow> 'a list" where
  "slice_from xs i =
     (if i < 0 then drop (nat (int (length xs) + i)) xs else drop (nat i) xs)"

definition audit_selected ::
  "audit_log \<Rightarrow> uuid \<Rightarrow> audit_event_type option \<Rightarrow> audit_event list" where
  "audit_selected evs tenant_id event_type =
     sort_key ae_occurred_at
       [e. e \<leftarrow> evs, ae_tenant_id e = tenant_id
           \<and> (event_type = None \<or> Some (ae_event_type e) = event_type)]"

definition audit_read ::
  "audit_log \<Rightarrow> uuid \<Rightarrow> audit_event_type option \<Rightarrow> int option \<Rightarrow> audit_event list" where
  "audit_read evs tenant_id event_type limit =
     (let selected = audit_selected evs tenant_id event_type
      in case limit of None \<Rightarrow> selected | Some n \<Rightarrow> slice_from selected (- n))"

definition audit_count :: "audit_log \<Rightarrow> uuid \<Rightarrow> nat" where
  "audit_count evs tenant_id = length (filter (\<lambda>e. ae_tenant_id e = tenant_id) evs)"

section \<open>Facts\<close>

lemma slice_from_suffix: "\<exists>ys. xs = ys @ slice_from xs i"
proof (cases "i < 0")
  case True
  then show ?thesis
    by (simp add: slice_from_def) (metis append_take_drop_id)
next
  case False
  then show ?thesis by (simp add: slice_from_def) (metis append_take_drop_id)
qed

lemma set_slice_from: "set (slice_from xs i) \<subseteq> set xs"
  by (auto simp: slice_from_def dest: in_set_dropD)

lemma sorted_slice_from: "sorted (map f xs) \<Longrightarrow> sorted (map f (slice_from xs i))"
  by (simp add: slice_from_def drop_map [symmetric] sorted_wrt_drop)

lemma length_slice_newest:
  "0 < n \<Longrightarrow> length (slice_from xs (- n)) = min (nat n) (length xs)"
  by (auto simp: slice_from_def)

lemma set_audit_selected:
  "set (audit_selected evs t ty)
    = {e \<in> set evs. ae_tenant_id e = t \<and> (ty = None \<or> Some (ae_event_type e) = ty)}"
  by (auto simp: audit_selected_def)

lemma audit_append_Inr_iff:
  "audit_append evs e = Inr evs' \<longleftrightarrow>
     evs' = evs @ [e]
     \<and> (ae_event_type e \<in> ADMIN_CHANGE_EVENT_TYPES \<longleftrightarrow> ae_admin_change e \<noteq> None)"
  by (auto simp: audit_append_def Let_def)

lemma audit_append_plain:
  "ae_event_type e \<notin> ADMIN_CHANGE_EVENT_TYPES \<Longrightarrow> ae_admin_change e = None
    \<Longrightarrow> audit_append evs e = Inr (evs @ [e])"
  by (simp add: audit_append_def)

text \<open>The log after a list of appends of which the invalid ones raised.\<close>

fun audit_append_all :: "audit_log \<Rightarrow> audit_event list \<Rightarrow> audit_log" where
  "audit_append_all evs [] = evs"
| "audit_append_all evs (e # es) =
     (case audit_append evs e of Inl _ \<Rightarrow> audit_append_all evs es
      | Inr evs' \<Rightarrow> audit_append_all evs' es)"

lemma audit_append_all_append:
  "audit_append_all evs (es @ fs) = audit_append_all (audit_append_all evs es) fs"
  by (induction es arbitrary: evs) (auto split: sum.split)

definition audit_log_inv :: "audit_log \<Rightarrow> bool" where
  "audit_log_inv evs \<longleftrightarrow>
     (\<forall>e \<in> set evs. ae_event_type e \<in> ADMIN_CHANGE_EVENT_TYPES \<longleftrightarrow> ae_admin_change e \<noteq> None)"

lemma audit_append_all_spec:
  "audit_log_inv evs \<Longrightarrow>
     audit_log_inv (audit_append_all evs es) \<and> (\<exists>new. audit_append_all evs es = evs @ new)"
proof (induction es arbitrary: evs)
  case (Cons e es)
  show ?case
  proof (cases "audit_append evs e")
    case (Inl x)
    with Cons show ?thesis by simp
  next
    case (Inr evs')
    then have "evs' = evs @ [e]" and "audit_log_inv evs'"
      using Cons.prems by (auto simp: audit_append_Inr_iff audit_log_inv_def)
    with Inr Cons.IH [of evs'] show ?thesis by auto
  qed
qed simp

text \<open>
  The log is append-only and keeps the admin-change rule: after any sequence of
  appends the old log is a prefix of the new one, every stored admin publish or rollback
  carries its change record and no other event does; a read returns only the named
  tenant's events of the requested type, in time order, and a positive \<open>limit\<close> keeps
  exactly the newest ones.
\<close>

theorem audit_log_append_only:
  "(\<exists>new. audit_append_all [] (es @ fs) = audit_append_all [] es @ new)
   \<and> audit_log_inv (audit_append_all [] es)
   \<and> (\<forall>e \<in> set (audit_read evs t ty lim_n). e \<in> set evs \<and> ae_tenant_id e = t
        \<and> (ty = None \<or> Some (ae_event_type e) = ty))
   \<and> sorted (map ae_occurred_at (audit_read evs t ty lim_n))
   \<and> (0 < n \<longrightarrow> length (audit_read evs t ty (Some n)) =
        min (nat n) (length (audit_read evs t ty None))
        \<and> (\<exists>old. audit_read evs t ty None = old @ audit_read evs t ty (Some n)))"
proof -
  have inv: "audit_log_inv ([] :: audit_log)" by (simp add: audit_log_inv_def)
  have spec: "audit_log_inv (audit_append_all [] es)"
    using audit_append_all_spec [OF inv] by blast
  then have pre: "\<exists>new. audit_append_all [] (es @ fs) = audit_append_all [] es @ new"
    using audit_append_all_spec by (simp add: audit_append_all_append)
  have sel: "\<forall>e \<in> set (audit_read evs t ty lim_n). e \<in> set (audit_selected evs t ty)"
    by (auto simp: audit_read_def Let_def dest: set_slice_from [THEN subsetD]
        split: option.splits)
  have sorted: "sorted (map ae_occurred_at (audit_read evs t ty lim_n))"
    by (simp add: audit_read_def audit_selected_def sorted_slice_from Let_def
        split: option.split)
  have "0 < n \<longrightarrow> length (audit_read evs t ty (Some n)) =
        min (nat n) (length (audit_read evs t ty None))
        \<and> (\<exists>old. audit_read evs t ty None = old @ audit_read evs t ty (Some n))"
    using slice_from_suffix by (auto simp: audit_read_def length_slice_newest)
  with pre spec sel sorted show ?thesis by (auto simp: set_audit_selected)
qed

text \<open>
  \<open>limit\<close> is documented to keep the newest N events; for N = 0 the slice
  \<open>selected[-0:]\<close> is the whole list, so a read asked for no events returns every event of
  the tenant.
\<close>

theorem audit_read_limit_zero:
  "audit_read evs t ty (Some 0) = audit_read evs t ty None"
  by (simp add: audit_read_def slice_from_def)

theorem audit_log_append_only_witness:
  "length (audit_read [\<lparr>ae_id = 1, ae_tenant_id = 3, ae_event_type = LOGIN, ae_actor_id = None,
      ae_occurred_at = 5, ae_details = [], ae_admin_change = None\<rparr>] 3 None (Some 2)) = 1"
  using audit_log_append_only [of "[]" "[]" "[\<lparr>ae_id = 1, ae_tenant_id = 3, ae_event_type = LOGIN,
      ae_actor_id = None, ae_occurred_at = 5, ae_details = [], ae_admin_change = None\<rparr>]" 3 None None 2]
  by (simp add: audit_read_def audit_selected_def)

end
