(* ===== verification/Double_Arith.thy ===== *)
theory Double_Arith
  imports Prelude "HOL-Library.Log_Nat"
begin

text \<open>
  The rounding of Python's \<open>float\<close>: the value of an arithmetic operation on two floats is the
  exact rational result rounded to the nearest binary64 number, ties to even, with gradual underflow
  (\<open>dbl\<close>).  Overflow to an infinity is outside the model: the exponent has no upper bound here.
  A multiple of \<open>2 powi g\<close> of at most \<open>2 ^ 53\<close> such quanta is not rounded (\<open>dbl_grid\<close>);
  the accounting equations hold on such a grid, and not in general.
\<close>

definition round_half_even :: "rat \<Rightarrow> int" where
  "round_half_even y =
     (let f = \<lfloor>y\<rfloor>; d = y - of_int f
      in if d < 1 / 2 \<or> d = 1 / 2 \<and> even f then f else f + 1)"

definition binary_exponent :: "rat \<Rightarrow> int" where
  "binary_exponent x =
     (case quotient_of \<bar>x\<bar> of (p, q) \<Rightarrow>
        let k = bitlen p - bitlen q in if 2 powi k \<le> \<bar>x\<bar> then k else k - 1)"

definition dbl :: "rat \<Rightarrow> rat" where
  "dbl x =
     (let u = 2 powi max (binary_exponent x - 52) (- 1074)
      in of_int (round_half_even (x / u)) * u)"

lemma round_half_even_of_int [simp]: "round_half_even (of_int m) = m"
  by (simp add: round_half_even_def)

lemma round_half_even_nonneg: "0 \<le> y \<Longrightarrow> 0 \<le> round_half_even y"
  by (auto simp: round_half_even_def Let_def)

lemma dbl_nonneg: "0 \<le> x \<Longrightarrow> 0 \<le> dbl x"
  by (simp add: dbl_def Let_def round_half_even_nonneg)

lemma bitlen_powi:
  assumes "0 < n"
  shows "2 powi (bitlen n - 1) \<le> (of_int n :: rat)" and "(of_int n :: rat) < 2 powi bitlen n"
proof -
  have b: "1 \<le> bitlen n" using assms bitlen_eq_zero_iff [of n] bitlen_nonneg [of n] by linarith
  have w: "2 ^ nat (bitlen n - 1) \<le> n" "n < 2 ^ nat (bitlen n)" using bitlen_bounds [OF assms] by auto
  have "(of_int (2 ^ nat (bitlen n - 1)) :: rat) \<le> of_int n" using w(1) by (simp only: of_int_le_iff)
  then show "2 powi (bitlen n - 1) \<le> (of_int n :: rat)" using b by (simp add: power_int_def)
  have "(of_int n :: rat) < of_int (2 ^ nat (bitlen n))" using w(2) by (simp only: of_int_less_iff)
  then show "(of_int n :: rat) < 2 powi bitlen n" using b by (simp add: power_int_def)
qed

lemma binary_exponent_le:
  assumes "x \<noteq> 0"
  shows "2 powi binary_exponent x \<le> \<bar>x\<bar>"
proof -
  obtain p q where pq: "quotient_of \<bar>x\<bar> = (p, q)" by fastforce
  have q: "0 < q" using quotient_of_denom_pos [OF pq] .
  have x: "\<bar>x\<bar> = of_int p / of_int q" by (rule quotient_of_div [OF pq])
  have p: "0 < p"
  proof -
    have "0 < of_int p / (of_int q :: rat)" using assms x by simp
    with q show ?thesis by (simp add: zero_less_divide_iff)
  qed
  have "2 powi (bitlen p - bitlen q - 1) * of_int q \<le> 2 powi (bitlen p - bitlen q - 1) * (2 powi bitlen q :: rat)"
    using bitlen_powi(2) [OF q] by (intro mult_left_mono) auto
  also have "\<dots> = 2 powi (bitlen p - 1)" by (simp flip: power_int_add)
  also have "\<dots> \<le> of_int p" by (rule bitlen_powi(1) [OF p])
  finally have "2 powi (bitlen p - bitlen q - 1) \<le> \<bar>x\<bar>" using q x by (simp add: le_divide_eq)
  then show ?thesis by (simp add: binary_exponent_def pq Let_def)
qed

text \<open>A multiple of \<open>2 powi g\<close>.\<close>

definition grid :: "int \<Rightarrow> rat \<Rightarrow> bool" where
  "grid g x \<longleftrightarrow> (\<exists>m. x = of_int m * 2 powi g)"

lemma gridI: "x = of_int m * 2 powi g \<Longrightarrow> grid g x"
  by (auto simp: grid_def)

lemma grid_add: "grid g x \<Longrightarrow> grid g y \<Longrightarrow> grid g (x + y)"
  unfolding grid_def by (metis of_int_add distrib_right)

lemma grid_minus: "grid g x \<Longrightarrow> grid g (- x)"
  unfolding grid_def by (metis of_int_minus mult_minus_left)

lemma grid_diff: "grid g x \<Longrightarrow> grid g y \<Longrightarrow> grid g (x - y)"
  using grid_add [OF _ grid_minus] by fastforce

lemma grid_zero [simp]: "grid g 0"
  by (rule gridI [of _ 0]) simp

lemma grid_of_int [simp]: "grid 0 (of_int m)"
  by (rule gridI [of _ m]) simp

lemma grid_mono: "h \<le> g \<Longrightarrow> grid g x \<Longrightarrow> grid h x"
proof -
  assume h: "h \<le> g" and "grid g x"
  then obtain m where "x = of_int m * 2 powi g" by (auto simp: grid_def)
  also have "(2::rat) powi g = of_int (2 ^ nat (g - h)) * 2 powi h"
    using power_int_add [of "2::rat" "g - h" h] h by (simp add: power_int_def [of _ "g - h"])
  finally have "x = of_int (m * 2 ^ nat (g - h)) * 2 powi h" by simp
  then show "grid h x" by (rule gridI)
qed

lemma dbl_grid:
  assumes "grid g x" and "\<bar>x\<bar> \<le> 2 ^ 53 * 2 powi g" and "- 1074 \<le> g"
  shows "dbl x = x"
proof (cases "x = 0")
  case False
  define s where "s = max (binary_exponent x - 52) (- 1074)"
  have "2 powi binary_exponent x \<le> (2::rat) powi (g + 53)"
    using binary_exponent_le [OF False] assms(2) by (simp add: power_int_add)
  then have e: "binary_exponent x \<le> g + 53" using power_int_strict_increasing [of "g + 53" _ "2::rat"] by (meson less_le_not_le not_le one_less_numeral_iff semiring_norm(76))
  have "grid s x"
  proof (cases "s \<le> g")
    case True
    with assms(1) show ?thesis by (rule grid_mono [rotated])
  next
    case False
    with e assms(3) have s: "s = g + 1" "binary_exponent x = g + 53" by (auto simp: s_def)
    from assms(1) obtain m where m: "x = of_int m * 2 powi g" by (auto simp: grid_def)
    have "(2 powi (g + 53) :: rat) \<le> \<bar>x\<bar>" using binary_exponent_le [OF \<open>x \<noteq> 0\<close>] s by simp
    then have "\<bar>x\<bar> = 2 ^ 53 * 2 powi g" using assms(2) by (simp add: power_int_add)
    then have "\<bar>of_int m\<bar> * 2 powi g = (2 ^ 53 :: rat) * 2 powi g" using m by (simp add: abs_mult)
    then have "\<bar>of_int m\<bar> = (2 ^ 53 :: rat)" by simp
    then have "of_int \<bar>m\<bar> = (of_int (2 ^ 53) :: rat)" by simp
    then have "\<bar>m\<bar> = 2 ^ 53" by (simp only: of_int_eq_iff)
    then have "m = 2 * 2 ^ 52 \<or> m = 2 * (- (2 ^ 52))" by auto
    then obtain k where "m = 2 * k" by blast
    with m s have "x = of_int k * 2 powi s" by (simp add: power_int_add)
    then show ?thesis by (rule gridI)
  qed
  then obtain m where m: "x = of_int m * 2 powi s" by (auto simp: grid_def)
  then have "x / 2 powi s = of_int m" by simp
  moreover have "dbl x = of_int (round_half_even (x / 2 powi s)) * 2 powi s"
    by (simp add: dbl_def Let_def s_def)
  ultimately show ?thesis using m by simp
qed (simp add: dbl_def Let_def round_half_even_def)

lemma dbl_of_int: "\<bar>m\<bar> \<le> 2 ^ 53 \<Longrightarrow> dbl (of_int m) = of_int m"
proof -
  assume "\<bar>m\<bar> \<le> 2 ^ 53"
  then have "(of_int \<bar>m\<bar> :: rat) \<le> of_int (2 ^ 53)" by (simp only: of_int_le_iff)
  then show ?thesis by (intro dbl_grid [of 0]) simp_all
qed

lemma dbl_numerals [simp]:
  "dbl 0 = 0" "dbl 1 = 1"
  "(numeral k :: int) \<le> 2 ^ 53 \<Longrightarrow> dbl (numeral k) = numeral k"
  "(numeral k :: int) \<le> 2 ^ 53 \<Longrightarrow> dbl (- numeral k) = - numeral k"
  using dbl_of_int [of 0] dbl_of_int [of 1] dbl_of_int [of "numeral k"] dbl_of_int [of "- numeral k"]
  by simp_all

end
