(* ===== verification/Usage_Ledger.thy ===== *)
theory Usage_Ledger
  imports Double_Arith
begin

text \<open>
  Task-unit accounting: \<open>InMemoryUsageAccounting\<close> of \<open>core/usage/memory.py\<close> over the
  contract of \<open>core/contracts/usage.py\<close>, the estimator of \<open>core/usage/estimation.py\<close>, and
  the port of \<open>core/usage/ports.py\<close> as a locale.  Amounts are Python floats: every sum and
  difference the code computes is rounded (\<open>dbl\<close>).  Lemmas: as long as the ledger's amounts lie on
  one binary grid (\<open>usage_exact\<close>: whole units, halves, \<open>\<dots>\<close>, up to \<open>2 ^ 53\<close> quanta in all) the
  budget equations are an invariant of every call and a granted reservation never overdraws; two
  evaluated runs show that neither holds of arbitrary floats.  A reservation resolves exactly once,
  and the port's laws hold of this implementation, whatever the amounts.
\<close>

datatype usage_status = RESERVED | SETTLED | REFUNDED | FAILED

record usage_ledger =
  ul_id :: uuid
  ul_tenant_id :: uuid
  ul_execution_id :: uuid
  ul_units_reserved :: units
  ul_units_settled :: units
  ul_modality_costs :: json_object
  ul_status :: usage_status

record tenant_budget =
  tb_plan :: string
  tb_limit :: units
  tb_consumed :: units
  tb_held :: units
  tb_modality_limits :: json_object

definition tb_used :: "tenant_budget \<Rightarrow> units" where
  "tb_used b = dbl (tb_consumed b + tb_held b)"

definition tb_remaining :: "tenant_budget \<Rightarrow> units" where
  "tb_remaining b = dbl (tb_limit b - tb_used b)"

datatype usage_error =
    EntitlementNotConfigured uuid
  | BudgetExceeded uuid units units
  | UnknownComplexity string "string list"
  | ReservationNotFound uuid
  | ReservationAlreadyResolved uuid usage_status
  | UsageValueError
  | UsageKeyError uuid

record usage_state =
  us_budgets :: "uuid \<rightharpoonup> tenant_budget"
  us_ledger :: "(uuid \<times> usage_ledger) list"

definition usage_init :: usage_state where
  "usage_init = \<lparr>us_budgets = Map.empty, us_ledger = []\<rparr>"

definition configure_tenant ::
  "usage_state \<Rightarrow> uuid \<Rightarrow> string \<Rightarrow> units \<Rightarrow> json_object option
    \<Rightarrow> usage_error + usage_state" where
  "configure_tenant u t plan task_units_limit modality_limits =
     (if task_units_limit < 0 then Inl UsageValueError
      else
        let fresh = \<lparr>tb_plan = plan, tb_limit = task_units_limit, tb_consumed = 0,
                     tb_held = 0,
                     tb_modality_limits = (case modality_limits of None \<Rightarrow> [] | Some m \<Rightarrow> m)\<rparr>;
            budget = (case us_budgets u t of
                        None \<Rightarrow> fresh
                      | Some existing \<Rightarrow> fresh\<lparr>tb_consumed := tb_consumed existing,
                                               tb_held := tb_held existing\<rparr>)
        in Inr (u\<lparr>us_budgets := (us_budgets u)(t \<mapsto> budget)\<rparr>))"

definition usage_reserve ::
  "uuid \<Rightarrow> usage_state \<Rightarrow> uuid \<Rightarrow> uuid \<Rightarrow> units
    \<Rightarrow> usage_error + (usage_state \<times> usage_ledger)" where
  "usage_reserve new_id u t e n =
     (if n < 0 then Inl UsageValueError
      else case us_budgets u t of
        None \<Rightarrow> Inl (EntitlementNotConfigured t)
      | Some budget \<Rightarrow>
          (case map_of (us_ledger u) e of
             Some existing \<Rightarrow> Inl (ReservationAlreadyResolved e (ul_status existing))
           | None \<Rightarrow>
               if tb_remaining budget < n
               then Inl (BudgetExceeded t n (max (tb_remaining budget) 0))
               else
                 let entry = \<lparr>ul_id = new_id, ul_tenant_id = t, ul_execution_id = e,
                              ul_units_reserved = n, ul_units_settled = 0,
                              ul_modality_costs = [], ul_status = RESERVED\<rparr>
                 in Inr (u\<lparr>us_budgets := (us_budgets u)
                              (t \<mapsto> budget\<lparr>tb_held := dbl (tb_held budget + n)\<rparr>),
                           us_ledger := AList.update e entry (us_ledger u)\<rparr>, entry)))"

definition usage_resolve ::
  "usage_state \<Rightarrow> uuid \<Rightarrow> units \<Rightarrow> usage_status \<Rightarrow> json_object
    \<Rightarrow> usage_error + (usage_state \<times> usage_ledger)" where
  "usage_resolve u e n status costs =
     (if n < 0 then Inl UsageValueError
      else case map_of (us_ledger u) e of
        None \<Rightarrow> Inl (ReservationNotFound e)
      | Some entry \<Rightarrow>
          if ul_status entry \<noteq> RESERVED
          then Inl (ReservationAlreadyResolved e (ul_status entry))
          else case us_budgets u (ul_tenant_id entry) of
            None \<Rightarrow> Inl (UsageKeyError (ul_tenant_id entry))
          | Some budget \<Rightarrow>
              let resolved = entry\<lparr>ul_units_settled := n, ul_status := status,
                                   ul_modality_costs := costs\<rparr>
              in Inr (u\<lparr>us_budgets := (us_budgets u)(ul_tenant_id entry \<mapsto>
                           budget\<lparr>tb_held := dbl (tb_held budget - ul_units_reserved entry),
                                  tb_consumed := dbl (tb_consumed budget + n)\<rparr>),
                        us_ledger := AList.update e resolved (us_ledger u)\<rparr>, resolved))"

definition usage_settle where "usage_settle u e n costs = usage_resolve u e n SETTLED costs"
definition usage_refund where "usage_refund u e = usage_resolve u e 0 REFUNDED []"
definition usage_fail where "usage_fail u e n costs = usage_resolve u e n FAILED costs"

definition usage_get :: "usage_state \<Rightarrow> uuid \<Rightarrow> usage_error + usage_ledger" where
  "usage_get u e =
     (case map_of (us_ledger u) e of None \<Rightarrow> Inl (ReservationNotFound e) | Some l \<Rightarrow> Inr l)"

record usage_summary =
  sum_plan :: string
  sum_limit :: units
  sum_used :: units
  sum_remaining :: units
  sum_modality_limits :: json_object

definition usage_summary_of :: "usage_state \<Rightarrow> uuid \<Rightarrow> usage_error + usage_summary" where
  "usage_summary_of u t =
     (case us_budgets u t of
        None \<Rightarrow> Inl (EntitlementNotConfigured t)
      | Some b \<Rightarrow> Inr \<lparr>sum_plan = tb_plan b, sum_limit = tb_limit b, sum_used = tb_used b,
                       sum_remaining = max (tb_remaining b) 0,
                       sum_modality_limits = tb_modality_limits b\<rparr>)"

lemmas usage_verb_defs = usage_settle_def usage_refund_def usage_fail_def

section \<open>Estimation\<close>

definition DEFAULT_TASK_UNIT_VALUES :: "(string \<times> units) list" where
  "DEFAULT_TASK_UNIT_VALUES = [(''simple'', 1), (''medium'', 2), (''complex'', 3)]"

definition estimator_init :: "(string \<times> units) list \<Rightarrow> usage_error + (string \<times> units) list" where
  "estimator_init vals =
     (if \<exists>p \<in> set vals. snd p < 0 then Inl UsageValueError else Inr vals)"

definition estimate :: "(string \<times> units) list \<Rightarrow> string \<Rightarrow> usage_error + units" where
  "estimate vals complexity =
     (case map_of vals complexity of
        None \<Rightarrow> Inl (UnknownComplexity complexity (sort (map fst vals)))
      | Some n \<Rightarrow> Inr n)"

section \<open>The accounting invariant\<close>

definition entry_held :: "uuid \<Rightarrow> usage_ledger \<Rightarrow> units" where
  "entry_held t l = (if ul_tenant_id l = t \<and> ul_status l = RESERVED
                     then ul_units_reserved l else 0)"

definition entry_consumed :: "uuid \<Rightarrow> usage_ledger \<Rightarrow> units" where
  "entry_consumed t l = (if ul_tenant_id l = t \<and> ul_status l \<noteq> RESERVED
                         then ul_units_settled l else 0)"

definition usage_entry_ok :: "usage_state \<Rightarrow> uuid \<Rightarrow> usage_ledger \<Rightarrow> bool" where
  "usage_entry_ok u e l \<longleftrightarrow>
     ul_execution_id l = e \<and> us_budgets u (ul_tenant_id l) \<noteq> None
     \<and> 0 \<le> ul_units_reserved l \<and> 0 \<le> ul_units_settled l"

text \<open>
  Every amount the ledger has booked is a multiple of \<open>2 powi g\<close>, and together they are at most
  \<open>2 ^ 53\<close> such quanta, within the range of a double.  An entry's amount is what it reserved and,
  once resolved, what it settled.
\<close>

definition entry_amount :: "usage_ledger \<Rightarrow> units" where
  "entry_amount l =
     ul_units_reserved l + (if ul_status l = RESERVED then 0 else ul_units_settled l)"

definition entry_grid :: "int \<Rightarrow> usage_ledger \<Rightarrow> bool" where
  "entry_grid g l \<longleftrightarrow> grid g (ul_units_reserved l)
     \<and> (ul_status l = RESERVED \<or> grid g (ul_units_settled l))"

definition usage_exact :: "int \<Rightarrow> usage_state \<Rightarrow> bool" where
  "usage_exact g u \<longleftrightarrow> - 1074 \<le> g \<and> g \<le> 970 \<and> (\<forall>p \<in> set (us_ledger u). entry_grid g (snd p))
     \<and> dict_sum entry_amount (us_ledger u) \<le> 2 ^ 53 * 2 powi g"

definition usage_budget_ok :: "usage_state \<Rightarrow> uuid \<Rightarrow> tenant_budget \<Rightarrow> bool" where
  "usage_budget_ok u t b \<longleftrightarrow>
     tb_held b = dict_sum (entry_held t) (us_ledger u)
     \<and> tb_consumed b = dict_sum (entry_consumed t) (us_ledger u)"

definition usage_inv :: "usage_state \<Rightarrow> bool" where
  "usage_inv u \<longleftrightarrow>
     (\<forall>e l. map_of (us_ledger u) e = Some l \<longrightarrow> usage_entry_ok u e l)
     \<and> distinct (map fst (us_ledger u))
     \<and> (\<forall>t b. us_budgets u t = Some b \<longrightarrow> 0 \<le> tb_limit b \<and> 0 \<le> tb_consumed b)
     \<and> (\<forall>g. usage_exact g u \<longrightarrow> (\<forall>t b. us_budgets u t = Some b \<longrightarrow> usage_budget_ok u t b))"

lemma usage_invD_entry:
  "usage_inv u \<Longrightarrow> map_of (us_ledger u) e = Some l \<Longrightarrow> usage_entry_ok u e l"
  by (simp add: usage_inv_def)

lemma usage_invD_budget:
  "usage_inv u \<Longrightarrow> us_budgets u t = Some b \<Longrightarrow> usage_exact g u \<Longrightarrow> usage_budget_ok u t b"
  unfolding usage_inv_def by blast

lemma usage_invD_limit:
  "usage_inv u \<Longrightarrow> us_budgets u t = Some b \<Longrightarrow> 0 \<le> tb_limit b \<and> 0 \<le> tb_consumed b"
  unfolding usage_inv_def by blast

lemma usage_inv_entries:
  assumes "usage_inv u" and "(e, l) \<in> set (us_ledger u)"
  shows "usage_entry_ok u e l"
  using assms usage_invD_entry [OF assms(1), of e l] by (simp add: usage_inv_def)

lemma usage_invI:
  assumes "\<And>e l. map_of (us_ledger u) e = Some l \<Longrightarrow> usage_entry_ok u e l"
    and "distinct (map fst (us_ledger u))"
    and "\<And>t b. us_budgets u t = Some b \<Longrightarrow> 0 \<le> tb_limit b \<and> 0 \<le> tb_consumed b"
    and "\<And>g t b. usage_exact g u \<Longrightarrow> us_budgets u t = Some b \<Longrightarrow> usage_budget_ok u t b"
  shows "usage_inv u"
  using assms unfolding usage_inv_def by blast

lemma usage_exactD_grid: "usage_exact g u \<Longrightarrow> (e, l) \<in> set (us_ledger u) \<Longrightarrow> entry_grid g l"
  unfolding usage_exact_def by fastforce

text \<open>On the grid, no sum of amounts is rounded.\<close>

lemma dict_sum_grid: "(\<And>k v. (k, v) \<in> set d \<Longrightarrow> grid g (f v)) \<Longrightarrow> grid g (dict_sum f d)"
proof (induction d)
  case (Cons p d)
  have "grid g (f (snd p))" by (rule Cons.prems [of "fst p"]) simp
  with Cons show ?case by (auto intro: grid_add)
qed simp

lemma usage_exact_sums:
  assumes inv: "\<And>e l. (e, l) \<in> set (us_ledger u) \<Longrightarrow> usage_entry_ok u e l" and ex: "usage_exact g u"
  shows "grid g (dict_sum (entry_held t) (us_ledger u))"
    and "grid g (dict_sum (entry_consumed t) (us_ledger u))"
    and "0 \<le> dict_sum (entry_held t) (us_ledger u)"
    and "0 \<le> dict_sum (entry_consumed t) (us_ledger u)"
    and "dict_sum (entry_consumed t) (us_ledger u) + dict_sum (entry_held t) (us_ledger u)
           \<le> 2 ^ 53 * 2 powi g"
proof -
  show "grid g (dict_sum (entry_held t) (us_ledger u))"
    and "grid g (dict_sum (entry_consumed t) (us_ledger u))"
    using ex by (fastforce intro!: dict_sum_grid
        simp: usage_exact_def entry_grid_def entry_held_def entry_consumed_def)+
  show "0 \<le> dict_sum (entry_held t) (us_ledger u)"
    and "0 \<le> dict_sum (entry_consumed t) (us_ledger u)"
    using inv by (auto intro!: dict_sum_nonneg simp: entry_held_def entry_consumed_def
        usage_entry_ok_def)
  have "dict_sum (entry_consumed t) d + dict_sum (entry_held t) d \<le> dict_sum entry_amount d"
    if "\<And>e l. (e, l) \<in> set d \<Longrightarrow> usage_entry_ok u e l" for d
    using that
  proof (induction d)
    case (Cons p d)
    then have "usage_entry_ok u (fst p) (snd p)" by simp
    then have "entry_consumed t (snd p) + entry_held t (snd p) \<le> entry_amount (snd p)"
      by (auto simp: entry_consumed_def entry_held_def entry_amount_def usage_entry_ok_def)
    moreover have "dict_sum (entry_consumed t) d + dict_sum (entry_held t) d \<le> dict_sum entry_amount d"
      using Cons by simp
    ultimately show ?case by simp
  qed simp
  with inv ex show "dict_sum (entry_consumed t) (us_ledger u) + dict_sum (entry_held t) (us_ledger u)
           \<le> 2 ^ 53 * 2 powi g"
    by (meson order_trans usage_exact_def)
qed

lemma usage_exact_dbl:
  assumes "usage_exact g u" and "grid g x" and "0 \<le> x" and "x \<le> 2 ^ 53 * 2 powi g"
  shows "dbl x = x"
  using assms by (intro dbl_grid [of g]) (auto simp: usage_exact_def)

text \<open>Booking only adds to the ledger: a state whose successor is exact is exact.\<close>

lemma usage_exact_update:
  assumes "usage_exact g u'" and led: "us_ledger u' = AList.update e l (us_ledger u)"
    and dist: "distinct (map fst (us_ledger u))"
    and old: "case map_of (us_ledger u) e of None \<Rightarrow> 0 \<le> entry_amount l
              | Some k \<Rightarrow> entry_amount k \<le> entry_amount l \<and> (entry_grid g l \<longrightarrow> entry_grid g k)"
  shows "usage_exact g u"
proof -
  have "map_of (us_ledger u') e = Some l" by (simp add: led)
  then have l: "entry_grid g l" by (intro usage_exactD_grid [OF assms(1)] map_of_SomeD)
  have "entry_grid g k" if "(i, k) \<in> set (us_ledger u)" for i k
  proof (cases "i = e")
    case True
    with that dist old l show ?thesis by simp
  next
    case False
    with that dist have "map_of (us_ledger u') i = Some k" by (simp add: led)
    then show ?thesis by (intro usage_exactD_grid [OF assms(1)] map_of_SomeD)
  qed
  moreover have "dict_sum entry_amount (us_ledger u) \<le> dict_sum entry_amount (us_ledger u')"
    using old by (auto simp: led dict_sum_update_fresh dict_sum_update split: option.splits)
  ultimately show ?thesis using assms(1) by (fastforce simp: usage_exact_def)
qed

lemma usage_inv_init: "usage_inv usage_init"
  by (simp add: usage_inv_def usage_init_def)

text \<open>A tenant without a budget has no ledger entry, so its sums are zero.\<close>

lemma usage_inv_unconfigured:
  assumes "usage_inv u" and "us_budgets u t = None"
  shows "dict_sum (entry_held t) (us_ledger u) = 0"
    and "dict_sum (entry_consumed t) (us_ledger u) = 0"
proof -
  have "ul_tenant_id l \<noteq> t" if "(e, l) \<in> set (us_ledger u)" for e l
  proof -
    have "map_of (us_ledger u) e = Some l"
      using that assms(1) by (simp add: usage_inv_def)
    then have "usage_entry_ok u e l" by (rule usage_invD_entry [OF assms(1)])
    with assms(2) show ?thesis by (auto simp: usage_entry_ok_def)
  qed
  then show "dict_sum (entry_held t) (us_ledger u) = 0"
    and "dict_sum (entry_consumed t) (us_ledger u) = 0"
    by (auto intro!: dict_sum_zero simp: entry_held_def entry_consumed_def)
qed

lemma configure_tenant_inv [py_inv]:
  assumes inv: "usage_inv u" and c: "configure_tenant u t plan limit ml = Inr u'"
  shows "usage_inv u'"
proof -
  from c obtain b where u': "u' = u\<lparr>us_budgets := (us_budgets u)(t \<mapsto> b)\<rparr>" and lim: "0 \<le> tb_limit b"
    and amounts: "us_budgets u t = None \<and> tb_consumed b = 0 \<and> tb_held b = 0
      \<or> (\<exists>b0. us_budgets u t = Some b0 \<and> tb_consumed b = tb_consumed b0 \<and> tb_held b = tb_held b0)"
    by (auto simp: configure_tenant_def Let_def split: if_splits option.splits)
  have ex: "usage_exact g (u\<lparr>us_budgets := m\<rparr>) \<longleftrightarrow> usage_exact g u" for g m
    by (simp add: usage_exact_def)
  show ?thesis
  proof (rule usage_invI)
    fix g t' b'
    assume "usage_exact g u'" and "us_budgets u' t' = Some b'"
    then have exu: "usage_exact g u" and which: "us_budgets u t' = Some b' \<or> t' = t \<and> b' = b"
      using ex by (auto simp: u' split: if_splits)
    note eq = usage_invD_budget [OF inv _ exu]
    from which show "usage_budget_ok u' t' b'"
    proof
      assume "us_budgets u t' = Some b'"
      then show ?thesis using eq by (simp add: u' usage_budget_ok_def)
    next
      assume "t' = t \<and> b' = b"
      then show ?thesis
        using eq [of t] usage_inv_unconfigured [OF inv, of t] amounts
        by (auto simp: u' usage_budget_ok_def)
    qed
  next
    fix t' b' assume "us_budgets u' t' = Some b'"
    with usage_invD_limit [OF inv] lim amounts show "0 \<le> tb_limit b' \<and> 0 \<le> tb_consumed b'"
      by (auto simp: u' split: if_splits)
  next
    fix e l assume "map_of (us_ledger u') e = Some l"
    then show "usage_entry_ok u' e l"
      using usage_invD_entry [OF inv, of e l] by (auto simp: u' usage_entry_ok_def)
  next
    show "distinct (map fst (us_ledger u'))" using inv by (simp add: u' usage_inv_def)
  qed
qed

lemma usage_reserve_Inr:
  assumes "usage_reserve new_id u t e n = Inr (u', l)"
  obtains b where "us_budgets u t = Some b" and "map_of (us_ledger u) e = None"
    and "0 \<le> n" and "n \<le> tb_remaining b"
    and "l = \<lparr>ul_id = new_id, ul_tenant_id = t, ul_execution_id = e,
              ul_units_reserved = n, ul_units_settled = 0, ul_modality_costs = [],
              ul_status = RESERVED\<rparr>"
    and "us_budgets u' = (us_budgets u)(t \<mapsto> b\<lparr>tb_held := dbl (tb_held b + n)\<rparr>)"
    and "us_ledger u' = AList.update e l (us_ledger u)"
  using assms by (auto simp: usage_reserve_def Let_def split: if_splits option.splits)

lemma usage_resolve_Inr:
  assumes "usage_resolve u e n status costs = Inr (u', l')"
  obtains l b where "map_of (us_ledger u) e = Some l" and "ul_status l = RESERVED"
    and "us_budgets u (ul_tenant_id l) = Some b" and "0 \<le> n"
    and "l' = l\<lparr>ul_units_settled := n, ul_status := status, ul_modality_costs := costs\<rparr>"
    and "us_budgets u' = (us_budgets u)(ul_tenant_id l \<mapsto>
           b\<lparr>tb_held := dbl (tb_held b - ul_units_reserved l), tb_consumed := dbl (tb_consumed b + n)\<rparr>)"
    and "us_ledger u' = AList.update e l' (us_ledger u)"
  using assms by (auto simp: usage_resolve_def Let_def split: if_splits option.splits)

lemma usage_reserve_inv [py_inv]:
  assumes inv: "usage_inv u" and r: "usage_reserve new_id u t e n = Inr (u', l)"
  shows "usage_inv u'"
proof -
  obtain b where b: "us_budgets u t = Some b" and none: "map_of (us_ledger u) e = None"
    and n: "0 \<le> n"
    and l: "l = \<lparr>ul_id = new_id, ul_tenant_id = t, ul_execution_id = e,
              ul_units_reserved = n, ul_units_settled = 0, ul_modality_costs = [],
              ul_status = RESERVED\<rparr>"
    and bud: "us_budgets u' = (us_budgets u)(t \<mapsto> b\<lparr>tb_held := dbl (tb_held b + n)\<rparr>)"
    and led: "us_ledger u' = AList.update e l (us_ledger u)"
    using r by (rule usage_reserve_Inr)
  have held: "dict_sum (entry_held t') (us_ledger u')
      = dict_sum (entry_held t') (us_ledger u) + (if t' = t then n else 0)"
    and cons: "dict_sum (entry_consumed t') (us_ledger u')
      = dict_sum (entry_consumed t') (us_ledger u)" for t'
    using none by (auto simp: led dict_sum_update_fresh l entry_held_def entry_consumed_def)
  have dist: "distinct (map fst (us_ledger u))" using inv by (simp add: usage_inv_def)
  have ok: "usage_entry_ok u' e' l'" if "map_of (us_ledger u') e' = Some l'" for e' l'
    using that usage_invD_entry [OF inv, of e' l'] b n
    by (auto simp: led bud usage_entry_ok_def l split: if_splits)
  have dist': "distinct (map fst (us_ledger u'))" using dist by (simp add: led)
  have ok': "usage_entry_ok u' e' l'" if "(e', l') \<in> set (us_ledger u')" for e' l'
    using that dist' ok by simp
  show ?thesis
  proof (rule usage_invI [OF ok dist'])
    fix t' b' assume "us_budgets u' t' = Some b'"
    then show "0 \<le> tb_limit b' \<and> 0 \<le> tb_consumed b'"
      using usage_invD_limit [OF inv, of t'] usage_invD_limit [OF inv b]
      by (auto simp: bud split: if_splits)
  next
    fix g t' b' assume ex: "usage_exact g u'" and b': "us_budgets u' t' = Some b'"
    have "usage_exact g u"
      by (rule usage_exact_update [OF ex led dist]) (use none n in \<open>simp add: l entry_amount_def\<close>)
    note eq = usage_invD_budget [OF inv _ this]
    note sums = usage_exact_sums [OF ok' ex, where t = t]
    have "dict_sum (entry_held t) (us_ledger u') \<le> 2 ^ 53 * 2 powi g" using sums by linarith
    then have "dbl (dict_sum (entry_held t) (us_ledger u')) = dict_sum (entry_held t) (us_ledger u')"
      using usage_exact_dbl [OF ex] sums by blast
    then show "usage_budget_ok u' t' b'"
      using b' eq [of t'] b held [of t'] held [of t] cons [of t']
      by (auto simp: bud usage_budget_ok_def split: if_splits)
  qed
qed

lemma usage_resolve_inv [py_inv]:
  assumes inv: "usage_inv u" and r: "usage_resolve u e n status costs = Inr (u', l')"
    and st: "status \<noteq> RESERVED"
  shows "usage_inv u'"
proof -
  obtain l b where l: "map_of (us_ledger u) e = Some l" "ul_status l = RESERVED"
    and b: "us_budgets u (ul_tenant_id l) = Some b" and n: "0 \<le> n"
    and l': "l' = l\<lparr>ul_units_settled := n, ul_status := status, ul_modality_costs := costs\<rparr>"
    and bud: "us_budgets u' = (us_budgets u)(ul_tenant_id l \<mapsto>
           b\<lparr>tb_held := dbl (tb_held b - ul_units_reserved l), tb_consumed := dbl (tb_consumed b + n)\<rparr>)"
    and led: "us_ledger u' = AList.update e l' (us_ledger u)"
    using r by (rule usage_resolve_Inr)
  have held: "dict_sum (entry_held t') (us_ledger u') = dict_sum (entry_held t') (us_ledger u)
        - (if t' = ul_tenant_id l then ul_units_reserved l else 0)"
    and cons: "dict_sum (entry_consumed t') (us_ledger u')
      = dict_sum (entry_consumed t') (us_ledger u) + (if t' = ul_tenant_id l then n else 0)"
    for t'
    using l st by (auto simp: led dict_sum_update l' entry_held_def entry_consumed_def)
  have dist: "distinct (map fst (us_ledger u))" using inv by (simp add: usage_inv_def)
  have ok: "usage_entry_ok u' e' k" if "map_of (us_ledger u') e' = Some k" for e' k
    using that usage_invD_entry [OF inv, of e' k] usage_invD_entry [OF inv l(1)] b n
    by (auto simp: led bud usage_entry_ok_def l' split: if_splits)
  have dist': "distinct (map fst (us_ledger u'))" using dist by (simp add: led)
  have ok': "usage_entry_ok u' e' k" if "(e', k) \<in> set (us_ledger u')" for e' k
    using that dist' ok by simp
  let ?t = "ul_tenant_id l"
  show ?thesis
  proof (rule usage_invI [OF ok dist'])
    fix t' b' assume "us_budgets u' t' = Some b'"
    then show "0 \<le> tb_limit b' \<and> 0 \<le> tb_consumed b'"
      using usage_invD_limit [OF inv, of t'] usage_invD_limit [OF inv b] n
      by (auto simp: bud intro!: dbl_nonneg split: if_splits)
  next
    fix g t' b' assume ex: "usage_exact g u'" and b': "us_budgets u' t' = Some b'"
    have "usage_exact g u"
      by (rule usage_exact_update [OF ex led dist]) (use l n st in \<open>simp add: l' entry_amount_def entry_grid_def\<close>)
    note eq = usage_invD_budget [OF inv _ this]
    note sums = usage_exact_sums [OF ok' ex, where t = ?t]
    have "dict_sum (entry_held ?t) (us_ledger u') \<le> 2 ^ 53 * 2 powi g"
      "dict_sum (entry_consumed ?t) (us_ledger u') \<le> 2 ^ 53 * 2 powi g" using sums by linarith+
    then have "dbl (dict_sum (entry_held ?t) (us_ledger u')) = dict_sum (entry_held ?t) (us_ledger u')"
      "dbl (dict_sum (entry_consumed ?t) (us_ledger u')) = dict_sum (entry_consumed ?t) (us_ledger u')"
      using usage_exact_dbl [OF ex] sums by blast+
    then show "usage_budget_ok u' t' b'"
      using b' eq [of t'] b held [of t'] held [of ?t] cons [of t'] cons [of ?t]
      by (auto simp: bud usage_budget_ok_def split: if_splits)
  qed
qed

section \<open>Reachable ledgers\<close>

inductive usage_step :: "usage_state \<Rightarrow> usage_state \<Rightarrow> bool" where
  step_configure: "configure_tenant u t plan limit ml = Inr u' \<Longrightarrow> usage_step u u'"
| step_reserve: "usage_reserve i u t e n = Inr (u', l) \<Longrightarrow> usage_step u u'"
| step_settle: "usage_settle u e n costs = Inr (u', l) \<Longrightarrow> usage_step u u'"
| step_refund: "usage_refund u e = Inr (u', l) \<Longrightarrow> usage_step u u'"
| step_fail: "usage_fail u e n costs = Inr (u', l) \<Longrightarrow> usage_step u u'"

abbreviation usage_reachable :: "usage_state \<Rightarrow> bool" where
  "usage_reachable u \<equiv> usage_step\<^sup>*\<^sup>* usage_init u"

lemma usage_step_inv: "usage_step u u' \<Longrightarrow> usage_inv u \<Longrightarrow> usage_inv u'"
  by (induction rule: usage_step.induct) (auto simp: usage_verb_defs intro: py_inv)

lemma usage_steps_inv: "usage_step\<^sup>*\<^sup>* u u' \<Longrightarrow> usage_inv u \<Longrightarrow> usage_inv u'"
  by (induction rule: rtranclp_induct) (auto intro: usage_step_inv)

lemma usage_reachable_inv: "usage_reachable u \<Longrightarrow> usage_inv u"
  using usage_steps_inv usage_inv_init by blast

text \<open>An entry that is no longer RESERVED is never rewritten.\<close>

lemma usage_resolve_keeps_resolved:
  "usage_resolve u e n status costs = Inr (u', l') \<Longrightarrow> map_of (us_ledger u) i = Some l
    \<Longrightarrow> ul_status l \<noteq> RESERVED \<Longrightarrow> map_of (us_ledger u') i = Some l"
  by (erule usage_resolve_Inr) auto

lemma usage_step_keeps_resolved:
  "usage_step u u' \<Longrightarrow> map_of (us_ledger u) i = Some l \<Longrightarrow> ul_status l \<noteq> RESERVED
    \<Longrightarrow> map_of (us_ledger u') i = Some l"
proof (induction rule: usage_step.induct)
  case (step_configure u t plan limit ml u')
  then show ?case by (auto simp: configure_tenant_def Let_def split: if_splits)
next
  case (step_reserve i u t e n u' l')
  then show ?case by (auto elim!: usage_reserve_Inr)
qed (auto simp: usage_verb_defs intro: usage_resolve_keeps_resolved)

lemma usage_steps_keep_resolved:
  "usage_step\<^sup>*\<^sup>* u u' \<Longrightarrow> map_of (us_ledger u) i = Some l \<Longrightarrow> ul_status l \<noteq> RESERVED
    \<Longrightarrow> map_of (us_ledger u') i = Some l"
  by (induction rule: rtranclp_induct) (auto intro: usage_step_keeps_resolved)

text \<open>
  C4. The budget equations hold after any sequence of calls, as long as the booked amounts are
  multiples of one power of two that add up to at most \<open>2 ^ 53\<close> of it (so that no double is rounded;
  of arbitrary floats the equations do not hold): what a tenant's budget holds is the total of its
  unresolved reservations, what it has consumed is the total settled by its resolved ones (plan
  changes included), and the summary reports exactly these, with the remaining units the rounded
  difference to the limit, floored at zero.
\<close>

theorem usage_budget_equations:
  assumes "usage_reachable u" and "us_budgets u t = Some b" and "usage_exact g u"
  shows "tb_held b = dict_sum (entry_held t) (us_ledger u)
    \<and> tb_consumed b = dict_sum (entry_consumed t) (us_ledger u)
    \<and> 0 \<le> tb_held b \<and> 0 \<le> tb_consumed b
    \<and> usage_summary_of u t = Inr \<lparr>sum_plan = tb_plan b, sum_limit = tb_limit b,
        sum_used = dict_sum (entry_consumed t) (us_ledger u)
                   + dict_sum (entry_held t) (us_ledger u),
        sum_remaining = max (dbl (tb_limit b - (tb_consumed b + tb_held b))) 0,
        sum_modality_limits = tb_modality_limits b\<rparr>"
proof -
  have inv: "usage_inv u" by (rule usage_reachable_inv [OF assms(1)])
  have eq: "usage_budget_ok u t b" by (rule usage_invD_budget [OF inv assms(2,3)])
  note sums = usage_exact_sums [OF usage_inv_entries [OF inv] assms(3), of t]
  have "dbl (tb_consumed b + tb_held b) = tb_consumed b + tb_held b"
    using usage_exact_dbl [OF assms(3) grid_add [OF sums(2,1)]] sums(3-5) eq
    by (simp add: usage_budget_ok_def)
  with eq sums(3,4) assms(2) show ?thesis
    by (simp add: usage_budget_ok_def usage_summary_of_def tb_used_def tb_remaining_def)
qed

text \<open>
  C5. A granted reservation never overdraws, even among parallel holds.  For any floats it is granted
  exactly for a non-negative amount, a configured tenant, a new execution id and an amount the
  remaining budget, as the code computes it, covers, and no other tenant's budget changes.  If
  moreover the amounts booked, this hold included, and the limit lie on one binary grid within
  \<open>2 ^ 53\<close> quanta (so that no double is rounded), the tenant's use, this hold included, is within its
  limit.  Off the grid rounding can grant a hold that exceeds the limit.
\<close>

theorem usage_reserve_never_overdraws:
  "((\<exists>u' l. usage_reserve i u t e n = Inr (u', l)) \<longleftrightarrow>
     (\<exists>b. us_budgets u t = Some b \<and> 0 \<le> n \<and> n \<le> dbl (tb_limit b - dbl (tb_consumed b + tb_held b))
        \<and> map_of (us_ledger u) e = None))
   \<and> (\<forall>u' l. usage_reserve i u t e n = Inr (u', l) \<longrightarrow>
        (\<forall>t'. t' \<noteq> t \<longrightarrow> us_budgets u' t' = us_budgets u t')
        \<and> (\<exists>b'. us_budgets u' t = Some b' \<and>
             (\<forall>g. usage_reachable u \<longrightarrow> usage_exact g u' \<longrightarrow> grid g (tb_limit b')
                \<longrightarrow> tb_limit b' \<le> 2 ^ 53 * 2 powi g
                \<longrightarrow> tb_consumed b' + tb_held b' \<le> tb_limit b' \<and> tb_used b' \<le> tb_limit b')))"
  (is "?granted \<and> (\<forall>u' l. _ \<longrightarrow> ?frame u' \<and> (\<exists>b'. _ \<and> (\<forall>g. _ \<longrightarrow> _ \<longrightarrow> _ \<longrightarrow> _ \<longrightarrow> ?within b')))")
proof (intro conjI [of ?granted] allI impI)
  show ?granted
    by (auto simp: usage_reserve_def tb_remaining_def tb_used_def Let_def split: if_splits option.splits)
next
  fix u' l assume r: "usage_reserve i u t e n = Inr (u', l)"
  obtain b where b: "us_budgets u t = Some b" and none: "map_of (us_ledger u) e = None" and n: "0 \<le> n"
    and le: "n \<le> tb_remaining b"
    and l: "l = \<lparr>ul_id = i, ul_tenant_id = t, ul_execution_id = e,
              ul_units_reserved = n, ul_units_settled = 0, ul_modality_costs = [],
              ul_status = RESERVED\<rparr>"
    and bud: "us_budgets u' = (us_budgets u)(t \<mapsto> b\<lparr>tb_held := dbl (tb_held b + n)\<rparr>)"
    and led: "us_ledger u' = AList.update e l (us_ledger u)"
    using r by (rule usage_reserve_Inr)
  let ?b = "b\<lparr>tb_held := dbl (tb_held b + n)\<rparr>"
  have "?within ?b"
    if "usage_reachable u" and ex: "usage_exact g u'" and lim: "grid g (tb_limit ?b)"
      "tb_limit ?b \<le> 2 ^ 53 * 2 powi g" for g
  proof -
    have inv: "usage_inv u" by (rule usage_reachable_inv [OF that(1)])
    have inv': "usage_inv u'" by (rule usage_reserve_inv [OF inv r])
    have dist: "distinct (map fst (us_ledger u))" using inv by (simp add: usage_inv_def)
    have exu: "usage_exact g u"
      by (rule usage_exact_update [OF ex led dist]) (use none n in \<open>simp add: l entry_amount_def\<close>)
    have eq: "usage_budget_ok u t b" by (rule usage_invD_budget [OF inv b exu])
    have eq': "usage_budget_ok u' t ?b" by (rule usage_invD_budget [OF inv' _ ex]) (simp add: bud)
    note sums = usage_exact_sums [OF usage_inv_entries [OF inv] exu, of t]
    note sums' = usage_exact_sums [OF usage_inv_entries [OF inv'] ex, of t]
    have used: "tb_used b = tb_consumed b + tb_held b"
      using usage_exact_dbl [OF exu grid_add [OF sums(2,1)]] sums(3-5) eq
      by (simp add: usage_budget_ok_def tb_used_def)
    have used': "tb_used ?b = tb_consumed b + tb_held ?b"
      using usage_exact_dbl [OF ex grid_add [OF sums'(2,1)]] sums'(3-5) eq'
      by (simp add: usage_budget_ok_def tb_used_def)
    have held: "tb_held ?b = tb_held b + n"
      using eq eq' none by (simp add: usage_budget_ok_def led dict_sum_update_fresh entry_held_def l)
    have "grid g (tb_limit b - tb_used b)" "0 \<le> tb_limit b" "0 \<le> tb_used b"
      "tb_used b \<le> 2 ^ 53 * 2 powi g"
      using lim(1) grid_add [OF sums(2,1)] usage_invD_limit [OF inv b] sums(3-5) eq
      by (auto simp: used usage_budget_ok_def intro: grid_diff)
    then have "tb_remaining b = tb_limit b - tb_used b"
      using lim(2) ex unfolding tb_remaining_def
      by (intro dbl_grid [of g]) (auto simp: usage_exact_def abs_le_iff)
    with le used used' held show ?thesis by simp
  qed
  moreover have "us_budgets u' t = Some ?b" by (simp add: bud)
  moreover have "?frame u'" by (simp add: bud)
  ultimately show "?frame u' \<and> (\<exists>b'. us_budgets u' t = Some b' \<and> (\<forall>g. usage_reachable u \<longrightarrow>
      usage_exact g u' \<longrightarrow> grid g (tb_limit b') \<longrightarrow> tb_limit b' \<le> 2 ^ 53 * 2 powi g \<longrightarrow> ?within b'))"
    by blast
qed

text \<open>
  A reservation resolves exactly once: once an entry is settled, refunded or failed,
  every later settle, refund, fail or reserve of that execution is refused with its final
  status (or as an invalid amount), and after any further calls the entry reads the same.
\<close>

theorem usage_resolution_is_final:
  assumes "map_of (us_ledger u) e = Some l" and "ul_status l \<noteq> RESERVED"
    and "usage_step\<^sup>*\<^sup>* u u'" and "0 \<le> n"
  shows "usage_get u' e = Inr l
    \<and> usage_settle u' e n costs = Inl (ReservationAlreadyResolved e (ul_status l))
    \<and> usage_refund u' e = Inl (ReservationAlreadyResolved e (ul_status l))
    \<and> usage_fail u' e n costs = Inl (ReservationAlreadyResolved e (ul_status l))
    \<and> \<not> is_ok (usage_reserve i u' t e n)"
  using usage_steps_keep_resolved [OF assms(3,1,2)] assms(2,4)
  by (auto simp: usage_get_def usage_verb_defs usage_resolve_def usage_reserve_def is_ok_def
      split: option.split)

section \<open>The usage port\<close>

text \<open>
  \<open>UsageAccountingPort\<close> of \<open>core/usage/ports.py\<close>, as its clients use it: the three calls,
  the status of an execution's entry (\<open>get\<close>), and a well-formedness predicate the calls
  keep.  The laws are the lifecycle contract of the port's documentation.
\<close>

locale usage_port =
  fixes reserve :: "'u \<Rightarrow> uuid \<Rightarrow> uuid \<Rightarrow> units \<Rightarrow> usage_error + ('u \<times> usage_ledger)"
    and settle :: "'u \<Rightarrow> uuid \<Rightarrow> units \<Rightarrow> json_object \<Rightarrow> usage_error + ('u \<times> usage_ledger)"
    and fail :: "'u \<Rightarrow> uuid \<Rightarrow> units \<Rightarrow> json_object \<Rightarrow> usage_error + ('u \<times> usage_ledger)"
    and entry :: "'u \<Rightarrow> uuid \<Rightarrow> usage_ledger option"
    and wf :: "'u \<Rightarrow> bool"
  assumes reserve_ok: "wf u \<Longrightarrow> reserve u t e n = Inr (u', l) \<Longrightarrow>
      wf u' \<and> entry u e = None \<and> entry u' = (entry u)(e \<mapsto> l)
      \<and> ul_status l = RESERVED \<and> ul_tenant_id l = t \<and> ul_units_reserved l = n \<and> 0 \<le> n"
    and settle_ok: "wf u \<Longrightarrow> entry u e = Some l \<Longrightarrow> ul_status l = RESERVED \<Longrightarrow> 0 \<le> n \<Longrightarrow>
      \<exists>u'. settle u e n costs = Inr (u', l\<lparr>ul_units_settled := n, ul_status := SETTLED,
                                              ul_modality_costs := costs\<rparr>)
        \<and> wf u' \<and> entry u' = (entry u)(e \<mapsto> l\<lparr>ul_units_settled := n,
                                 ul_status := SETTLED, ul_modality_costs := costs\<rparr>)"
    and fail_ok: "wf u \<Longrightarrow> entry u e = Some l \<Longrightarrow> ul_status l = RESERVED \<Longrightarrow> 0 \<le> n \<Longrightarrow>
      \<exists>u'. fail u e n costs = Inr (u', l\<lparr>ul_units_settled := n, ul_status := FAILED,
                                            ul_modality_costs := costs\<rparr>)
        \<and> wf u' \<and> entry u' = (entry u)(e \<mapsto> l\<lparr>ul_units_settled := n,
                                 ul_status := FAILED, ul_modality_costs := costs\<rparr>)"
begin

text \<open>Reserve then settle, or then fail: the two ways a client resolves what it holds.\<close>

lemma reserve_then_settle:
  assumes "wf u" and "reserve u t e n = Inr (u1, l)" and "0 \<le> m"
  obtains u2 where "settle u1 e m costs = Inr (u2, l\<lparr>ul_units_settled := m,
      ul_status := SETTLED, ul_modality_costs := costs\<rparr>)"
    and "wf u2" and "entry u2 = (entry u)(e \<mapsto> l\<lparr>ul_units_settled := m,
      ul_status := SETTLED, ul_modality_costs := costs\<rparr>)"
proof -
  have r: "wf u1" "entry u1 = (entry u)(e \<mapsto> l)" "ul_status l = RESERVED"
    using reserve_ok [OF assms(1,2)] by auto
  with settle_ok [of u1 e l m costs] assms(3) that show thesis by auto
qed

lemma reserve_then_fail:
  assumes "wf u" and "reserve u t e n = Inr (u1, l)" and "0 \<le> m"
  obtains u2 where "fail u1 e m costs = Inr (u2, l\<lparr>ul_units_settled := m,
      ul_status := FAILED, ul_modality_costs := costs\<rparr>)"
    and "wf u2" and "entry u2 = (entry u)(e \<mapsto> l\<lparr>ul_units_settled := m,
      ul_status := FAILED, ul_modality_costs := costs\<rparr>)"
proof -
  have r: "wf u1" "entry u1 = (entry u)(e \<mapsto> l)" "ul_status l = RESERVED"
    using reserve_ok [OF assms(1,2)] by auto
  with fail_ok [of u1 e l m costs] assms(3) that show thesis by auto
qed

end

definition usage_entry :: "usage_state \<Rightarrow> uuid \<Rightarrow> usage_ledger option" where
  "usage_entry u e = map_of (us_ledger u) e"

lemma usage_entry_eq: "usage_entry u = map_of (us_ledger u)"
  by (simp add: usage_entry_def fun_eq_iff)

lemma usage_resolve_ok:
  assumes "usage_inv u" and "map_of (us_ledger u) e = Some l" and "ul_status l = RESERVED"
    and "0 \<le> n" and "status \<noteq> RESERVED"
  shows "\<exists>u'. usage_resolve u e n status costs = Inr (u', l\<lparr>ul_units_settled := n,
            ul_status := status, ul_modality_costs := costs\<rparr>)
    \<and> usage_inv u' \<and> map_of (us_ledger u') = (map_of (us_ledger u))(e \<mapsto>
            l\<lparr>ul_units_settled := n, ul_status := status, ul_modality_costs := costs\<rparr>)"
proof -
  have "us_budgets u (ul_tenant_id l) \<noteq> None"
    using usage_invD_entry [OF assms(1,2)] by (simp add: usage_entry_ok_def)
  then obtain u' where r: "usage_resolve u e n status costs = Inr (u', l\<lparr>ul_units_settled := n,
            ul_status := status, ul_modality_costs := costs\<rparr>)"
    using assms(2-4) by (auto simp: usage_resolve_def Let_def)
  moreover have "usage_inv u'" by (rule usage_resolve_inv [OF assms(1) r assms(5)])
  moreover have "map_of (us_ledger u') = (map_of (us_ledger u))(e \<mapsto>
            l\<lparr>ul_units_settled := n, ul_status := status, ul_modality_costs := costs\<rparr>)"
    using r by (rule usage_resolve_Inr) simp
  ultimately show ?thesis by blast
qed

interpretation mem_usage: usage_port "usage_reserve i" usage_settle usage_fail usage_entry
    usage_inv for i
proof unfold_locales
  fix u t e n u' l
  assume inv: "usage_inv u" and r: "usage_reserve i u t e n = Inr (u', l)"
  from r show "usage_inv u' \<and> usage_entry u e = None
      \<and> usage_entry u' = (usage_entry u)(e \<mapsto> l)
      \<and> ul_status l = RESERVED \<and> ul_tenant_id l = t \<and> ul_units_reserved l = n \<and> 0 \<le> n"
    using usage_reserve_inv [OF inv r]
    by (elim usage_reserve_Inr) (auto simp: usage_entry_eq)
qed (simp_all add: usage_verb_defs usage_entry_eq usage_resolve_ok)

section \<open>Witnesses\<close>

definition ex_usage :: usage_state where
  "ex_usage = \<lparr>us_budgets = [1 \<mapsto> \<lparr>tb_plan = ''pro'', tb_limit = 10, tb_consumed = 0,
     tb_held = 0, tb_modality_limits = []\<rparr>], us_ledger = []\<rparr>"

definition ex_hold :: usage_ledger where
  "ex_hold = \<lparr>ul_id = 100, ul_tenant_id = 1, ul_execution_id = 3, ul_units_reserved = 4,
     ul_units_settled = 0, ul_modality_costs = [], ul_status = RESERVED\<rparr>"

definition ex_usage_held :: usage_state where
  "ex_usage_held = \<lparr>us_budgets = [1 \<mapsto> \<lparr>tb_plan = ''pro'', tb_limit = 10,
     tb_consumed = 0, tb_held = 4, tb_modality_limits = []\<rparr>],
     us_ledger = [(3, ex_hold)]\<rparr>"

definition ex_settled :: usage_ledger where
  "ex_settled = ex_hold\<lparr>ul_units_settled := 6, ul_status := SETTLED\<rparr>"

definition ex_usage_settled :: usage_state where
  "ex_usage_settled = \<lparr>us_budgets = [1 \<mapsto> \<lparr>tb_plan = ''pro'', tb_limit = 10,
     tb_consumed = 6, tb_held = 0, tb_modality_limits = []\<rparr>],
     us_ledger = [(3, ex_settled)]\<rparr>"

lemma ex_usage_configured: "configure_tenant usage_init 1 ''pro'' 10 None = Inr ex_usage"
  by (simp add: configure_tenant_def usage_init_def ex_usage_def)

lemma ex_usage_reserved: "usage_reserve 100 ex_usage 1 3 4 = Inr (ex_usage_held, ex_hold)"
  by (simp add: usage_reserve_def ex_usage_def ex_usage_held_def ex_hold_def
      tb_remaining_def tb_used_def Let_def)

lemma ex_usage_is_settled:
  "usage_settle ex_usage_held 3 6 [] = Inr (ex_usage_settled, ex_settled)"
  by (simp add: usage_settle_def usage_resolve_def ex_usage_held_def ex_hold_def
      ex_usage_settled_def ex_settled_def Let_def)

lemma ex_usage_held_reachable: "usage_reachable ex_usage_held"
  using step_configure [OF ex_usage_configured] step_reserve [OF ex_usage_reserved]
  by (meson rtranclp.rtrancl_into_rtrancl rtranclp.rtrancl_refl)

lemma ex_usage_exact: "usage_exact 0 ex_usage_held"
proof -
  have "grid 0 4" using grid_of_int [of 4] by simp
  then show ?thesis
    by (simp add: usage_exact_def entry_grid_def entry_amount_def ex_usage_held_def ex_hold_def)
qed

theorem usage_budget_equations_witness:
  "tb_held (the (us_budgets ex_usage_held 1)) = 4
   \<and> dict_sum (entry_held 1) (us_ledger ex_usage_held) = 4"
  using usage_budget_equations [OF ex_usage_held_reachable _ ex_usage_exact, of 1]
  by (simp add: ex_usage_held_def)

theorem usage_reserve_never_overdraws_witness:
  "(\<exists>b'. us_budgets ex_usage_held 1 = Some b' \<and> tb_used b' \<le> tb_limit b')"
proof -
  have "usage_reachable ex_usage" using step_configure [OF ex_usage_configured] by blast
  moreover have "grid 0 10" using grid_of_int [of 10] by simp
  ultimately show ?thesis
    using usage_reserve_never_overdraws [of 100 ex_usage 1 3 4] ex_usage_reserved ex_usage_exact
    by (auto simp: ex_usage_held_def)
qed

text \<open>
  Off the grid: \<open>0.1\<close> and \<open>0.7\<close> held and released leave \<open>-2.8e-17\<close> held, and with a limit of \<open>0.3\<close> and
  \<open>0.03\<close> held a further \<open>0.27\<close> is granted, after which the tenant has used more than its limit.
\<close>

definition ex_budget :: "units \<Rightarrow> units \<Rightarrow> usage_state" where
  "ex_budget limit held = \<lparr>us_budgets = [1 \<mapsto> \<lparr>tb_plan = ''pro'', tb_limit = limit, tb_consumed = 0,
     tb_held = held, tb_modality_limits = []\<rparr>], us_ledger = []\<rparr>"

lemma float_holds_drift:
  "let a = 3602879701896397 / 36028797018963968; b = 3152519739159347 / 4503599627370496
   in dbl (dbl (dbl (dbl (0 + a) + b) - b) - a) < 0"
  by code_simp

lemma float_reserve_overdraws:
  "let limit = 5404319552844595 / 18014398509481984; held = 1080863910568919 / 36028797018963968;
       n = 607985949695017 / 2251799813685248
   in case usage_reserve 100 (ex_budget limit held) 1 3 n of
        Inl _ \<Rightarrow> False
      | Inr (u, _) \<Rightarrow> (case us_budgets u 1 of None \<Rightarrow> False | Some b \<Rightarrow> tb_limit b < tb_used b)"
  by code_simp

theorem usage_resolution_is_final_witness:
  "usage_refund ex_usage_settled 3 = Inl (ReservationAlreadyResolved 3 SETTLED)"
  using usage_resolution_is_final [of ex_usage_settled 3 ex_settled ex_usage_settled 0]
  by (simp add: ex_usage_settled_def ex_settled_def)

end
