(* ===== verification/Tool_Executor.thy ===== *)
theory Tool_Executor
  imports Tool_Fabric Audit_Log Usage_Ledger
begin

text \<open>
  The single tool execution path, \<open>ToolExecutor.execute\<close> of \<open>core/tools/executor.py\<close>:
  gate, handler lookup, reservation, handler, settlement and the one audit event.  The
  usage port's three calls are arguments (the executor holds a port), the tool handler is
  a function from its arguments to what awaiting it does: return, raise, or be cancelled
  (\<open>asyncio.CancelledError\<close> is not an \<open>Exception\<close>).  The result is the state after the
  call together with the exception or the record.  Lemmas: every attempt that concludes
  resolves its hold and writes exactly one event; a refused attempt never depends on a
  handler; the error code tells the verdict; a cancelled handler leaves its hold open.
\<close>

datatype error_code =
    VALIDATION_ERROR | UNAUTHENTICATED | UNAUTHORIZED | ENTITLEMENT_EXCEEDED
  | CAPABILITY_DENIED | PROVIDER_UNAVAILABLE | MODEL_UNAVAILABLE | TOOL_APPROVAL_REQUIRED
  | RATE_LIMITED | EXECUTION_FAILED | INTERNAL_ERROR

fun error_code_value :: "error_code \<Rightarrow> string" where
  "error_code_value VALIDATION_ERROR = ''validation_error''"
| "error_code_value UNAUTHENTICATED = ''unauthenticated''"
| "error_code_value UNAUTHORIZED = ''unauthorized''"
| "error_code_value ENTITLEMENT_EXCEEDED = ''entitlement_exceeded''"
| "error_code_value CAPABILITY_DENIED = ''capability_denied''"
| "error_code_value PROVIDER_UNAVAILABLE = ''provider_unavailable''"
| "error_code_value MODEL_UNAVAILABLE = ''model_unavailable''"
| "error_code_value TOOL_APPROVAL_REQUIRED = ''tool_approval_required''"
| "error_code_value RATE_LIMITED = ''rate_limited''"
| "error_code_value EXECUTION_FAILED = ''execution_failed''"
| "error_code_value INTERNAL_ERROR = ''internal_error''"

fun firewall_decision_value :: "firewall_decision \<Rightarrow> string" where
  "firewall_decision_value ALLOW = ''ALLOW''"
| "firewall_decision_value DENY = ''DENY''"
| "firewall_decision_value ALLOW_WITH_LIMIT = ''ALLOW_WITH_LIMIT''"
| "firewall_decision_value REQUIRE_APPROVAL = ''REQUIRE_APPROVAL''"

datatype tool_call_status = Refused | CallFailed | Succeeded

fun tool_call_status_value :: "tool_call_status \<Rightarrow> string" where
  "tool_call_status_value Refused = ''refused''"
| "tool_call_status_value CallFailed = ''failed''"
| "tool_call_status_value Succeeded = ''succeeded''"

record tool_call_record =
  tcr_call_id :: uuid
  tcr_tool_id :: uuid
  tcr_tenant_id :: uuid
  tcr_permission :: string
  tcr_status :: tool_call_status
  tcr_gate_decision :: tool_call_decision
  tcr_result :: "json_object option"
  tcr_error :: "string option"
  tcr_error_detail :: "string option"

datatype handler_outcome =
    Returned json_object
  | Raised string string   \<comment> \<open>an \<open>Exception\<close>: type name and message\<close>
  | Cancelled              \<comment> \<open>a \<open>BaseException\<close>, which \<open>except Exception\<close> lets through\<close>

datatype executor_exn =
    ToolFault tool_error
  | UsageFault usage_error
  | AuditFault audit_error
  | CancelledError

text \<open>What Python's \<open>str\<close> prints for an id and for a usage error: library behaviour.\<close>

record py_show =
  show_uuid :: "uuid \<Rightarrow> string"
  show_usage_error :: "usage_error \<Rightarrow> string"

record tool_env =
  te_tools :: tool_registry
  te_firewall :: firewall
  te_devices :: device_registry
  te_handlers :: "uuid \<rightharpoonup> (json_object \<Rightarrow> handler_outcome)"
  te_show :: py_show

text \<open>The arguments of one \<open>execute\<close>, with the ids and the time the call draws.\<close>

record tool_call =
  tc_call_id :: uuid
  tc_event_id :: uuid
  tc_now :: timestamp
  tc_tool_id :: uuid
  tc_request :: firewall_input
  tc_arguments :: json_object
  tc_device_id :: "uuid option"
  tc_actor_id :: "uuid option"
  tc_estimated_units :: units

record 'u exec_state =
  es_usage :: 'u
  es_audit :: audit_log

definition optional_field :: "string \<Rightarrow> string option \<Rightarrow> json_object" where
  "optional_field k v = (case v of None \<Rightarrow> [] | Some s \<Rightarrow> [(k, JStr s)])"

definition call_details :: "tool_env \<Rightarrow> tool_call_record \<Rightarrow> json_object" where
  "call_details env r =
     [(''call_id'', JStr (show_uuid (te_show env) (tcr_call_id r))),
      (''tool_id'', JStr (show_uuid (te_show env) (tcr_tool_id r))),
      (''permission'', JStr (tcr_permission r)),
      (''status'', JStr (tool_call_status_value (tcr_status r))),
      (''gate_decision'',
         JStr (firewall_decision_value (tcd_decision (tcr_gate_decision r))))]
     @ optional_field ''gate_reason'' (tcd_reason (tcr_gate_decision r))
     @ optional_field ''error'' (tcr_error r)
     @ optional_field ''error_detail'' (tcr_error_detail r)"

definition call_event :: "tool_env \<Rightarrow> tool_call \<Rightarrow> tool_call_record \<Rightarrow> audit_event" where
  "call_event env c r =
     \<lparr>ae_id = tc_event_id c, ae_tenant_id = fi_tenant_id (tc_request c),
      ae_event_type = TOOL_CALL, ae_actor_id = tc_actor_id c,
      ae_occurred_at = tc_now c, ae_details = call_details env r,
      ae_admin_change = None\<rparr>"

definition call_record ::
  "tool_call \<Rightarrow> tool_call_decision \<Rightarrow> tool_call_status \<Rightarrow> json_object option
    \<Rightarrow> string option \<Rightarrow> string option \<Rightarrow> tool_call_record" where
  "call_record c decision status result error error_detail =
     \<lparr>tcr_call_id = tc_call_id c, tcr_tool_id = tc_tool_id c,
      tcr_tenant_id = fi_tenant_id (tc_request c),
      tcr_permission = fi_permission (tc_request c), tcr_status = status,
      tcr_gate_decision = decision, tcr_result = result, tcr_error = error,
      tcr_error_detail = error_detail\<rparr>"

definition conclude ::
  "tool_env \<Rightarrow> tool_call \<Rightarrow> tool_call_record \<Rightarrow> 'u exec_state
    \<Rightarrow> 'u exec_state \<times> (executor_exn + tool_call_record)" where
  "conclude env c r s =
     (case audit_append (es_audit s) (call_event env c r) of
        Inl e \<Rightarrow> (s, Inl (AuditFault e))
      | Inr evs \<Rightarrow> (s\<lparr>es_audit := evs\<rparr>, Inr r))"

definition refusal_code :: "tool_call_decision \<Rightarrow> error_code" where
  "refusal_code d =
     (let reason = (case tcd_reason d of None \<Rightarrow> '''' | Some s \<Rightarrow> s)
      in if startswith reason ''tool_approval_required''
            \<or> startswith reason ''firewall_requires_approval''
         then TOOL_APPROVAL_REQUIRED else CAPABILITY_DENIED)"

definition tool_execute ::
  "('u \<Rightarrow> uuid \<Rightarrow> uuid \<Rightarrow> units \<Rightarrow> usage_error + ('u \<times> usage_ledger))
   \<Rightarrow> ('u \<Rightarrow> uuid \<Rightarrow> units \<Rightarrow> json_object \<Rightarrow> usage_error + ('u \<times> usage_ledger))
   \<Rightarrow> ('u \<Rightarrow> uuid \<Rightarrow> units \<Rightarrow> json_object \<Rightarrow> usage_error + ('u \<times> usage_ledger))
   \<Rightarrow> tool_env \<Rightarrow> tool_call \<Rightarrow> 'u exec_state
   \<Rightarrow> 'u exec_state \<times> (executor_exn + tool_call_record)" where
  "tool_execute reserve settle fail env c s =
     (case admit (te_tools env) (te_firewall env) (te_devices env) (tc_tool_id c)
             (tc_request c) (tc_device_id c) of
        Inl e \<Rightarrow> (s, Inl (ToolFault e))
      | Inr decision \<Rightarrow>
          if \<not> tcd_admitted decision then
            conclude env c (call_record c decision Refused None
              (Some (error_code_value (refusal_code decision))) (tcd_reason decision)) s
          else case te_handlers env (tc_tool_id c) of
            None \<Rightarrow> (s, Inl (ToolFault (ToolHandlerNotBound (tc_tool_id c))))
          | Some handler \<Rightarrow>
              (case reserve (es_usage s) (fi_tenant_id (tc_request c)) (tc_call_id c)
                      (tc_estimated_units c) of
                 Inl exc \<Rightarrow>
                   (case exc of
                      BudgetExceeded _ _ _ \<Rightarrow>
                        conclude env c (call_record c decision Refused None
                          (Some (error_code_value ENTITLEMENT_EXCEEDED))
                          (Some (show_usage_error (te_show env) exc))) s
                    | EntitlementNotConfigured _ \<Rightarrow>
                        conclude env c (call_record c decision Refused None
                          (Some (error_code_value ENTITLEMENT_EXCEEDED))
                          (Some (show_usage_error (te_show env) exc))) s
                    | _ \<Rightarrow> (s, Inl (UsageFault exc)))
               | Inr (u1, _) \<Rightarrow>
                   (let s1 = s\<lparr>es_usage := u1\<rparr>
                    in case handler (tc_arguments c) of
                      Cancelled \<Rightarrow> (s1, Inl CancelledError)
                    | Raised ty msg \<Rightarrow>
                        (case fail u1 (tc_call_id c) 0 [] of
                           Inl e \<Rightarrow> (s1, Inl (UsageFault e))
                         | Inr (u2, _) \<Rightarrow>
                             conclude env c (call_record c decision CallFailed None
                               (Some (error_code_value EXECUTION_FAILED))
                               (Some (ty @ '': '' @ msg))) (s1\<lparr>es_usage := u2\<rparr>))
                    | Returned result \<Rightarrow>
                        (case settle u1 (tc_call_id c) (tc_estimated_units c) [] of
                           Inl e \<Rightarrow> (s1, Inl (UsageFault e))
                         | Inr (u2, _) \<Rightarrow>
                             conclude env c (call_record c decision Succeeded (Some result)
                               None None) (s1\<lparr>es_usage := u2\<rparr>)))))"

section \<open>One event per concluded attempt\<close>

lemma conclude_eq:
  "conclude env c r s = (s\<lparr>es_audit := es_audit s @ [call_event env c r]\<rparr>, Inr r)"
  by (simp add: conclude_def call_event_def audit_append_plain ADMIN_CHANGE_EVENT_TYPES_def)

lemma call_record_sel [simp]:
  "tcr_call_id (call_record c d st res err det) = tc_call_id c"
  "tcr_status (call_record c d st res err det) = st"
  "tcr_gate_decision (call_record c d st res err det) = d"
  "tcr_error (call_record c d st res err det) = err"
  "tcr_result (call_record c d st res err det) = res"
  by (simp_all add: call_record_def)

text \<open>The attempts the executor lets reach a handler.\<close>

definition call_admitted :: "tool_env \<Rightarrow> tool_call \<Rightarrow> bool" where
  "call_admitted env c \<longleftrightarrow>
     (\<exists>d. admit (te_tools env) (te_firewall env) (te_devices env) (tc_tool_id c)
             (tc_request c) (tc_device_id c) = Inr d \<and> tcd_admitted d)"

context usage_port begin

text \<open>
  What one attempt does to the ledger and the log when it produces a record: either no
  entry was written, or the call's entry was created and resolved; one event is appended.
\<close>

lemma tool_execute_concludes:
  assumes wf: "wf (es_usage s)" and run: "tool_execute reserve settle fail env c s = (s', Inr r)"
  shows "wf (es_usage s') \<and> es_audit s' = es_audit s @ [call_event env c r]
    \<and> tcr_call_id r = tc_call_id c
    \<and> (case tcr_status r of
         Refused \<Rightarrow> es_usage s' = es_usage s
       | CallFailed \<Rightarrow> \<exists>l. entry (es_usage s') = (entry (es_usage s))(tc_call_id c \<mapsto> l)
           \<and> entry (es_usage s) (tc_call_id c) = None
           \<and> ul_status l = FAILED \<and> ul_units_settled l = 0
       | Succeeded \<Rightarrow> \<exists>l. entry (es_usage s') = (entry (es_usage s))(tc_call_id c \<mapsto> l)
           \<and> entry (es_usage s) (tc_call_id c) = None
           \<and> ul_status l = SETTLED \<and> ul_units_settled l = tc_estimated_units c)"
proof -
  obtain d where d: "admit (te_tools env) (te_firewall env) (te_devices env) (tc_tool_id c)
      (tc_request c) (tc_device_id c) = Inr d"
    using run by (cases "admit (te_tools env) (te_firewall env) (te_devices env)
        (tc_tool_id c) (tc_request c) (tc_device_id c)") (auto simp: tool_execute_def)
  show ?thesis
  proof (cases "tcd_admitted d")
    case False
    with d run wf show ?thesis by (auto simp: tool_execute_def conclude_eq)
  next
    case True
    then obtain h where h: "te_handlers env (tc_tool_id c) = Some h"
      using d run by (cases "te_handlers env (tc_tool_id c)") (auto simp: tool_execute_def)
    show ?thesis
    proof (cases "reserve (es_usage s) (fi_tenant_id (tc_request c)) (tc_call_id c)
        (tc_estimated_units c)")
      case (Inl e)
      with d True h run wf show ?thesis
        by (cases e) (auto simp: tool_execute_def conclude_eq)
    next
      case (Inr p)
      then obtain u1 l where res: "reserve (es_usage s) (fi_tenant_id (tc_request c))
          (tc_call_id c) (tc_estimated_units c) = Inr (u1, l)" by (cases p) auto
      note ok = reserve_ok [OF wf res]
      show ?thesis
      proof (cases "h (tc_arguments c)")
        case (Returned out)
        obtain u2 where u2: "settle u1 (tc_call_id c) (tc_estimated_units c) [] =
            Inr (u2, l\<lparr>ul_units_settled := tc_estimated_units c, ul_status := SETTLED,
                       ul_modality_costs := []\<rparr>)" "wf u2"
            "entry u2 = (entry (es_usage s))(tc_call_id c \<mapsto> l\<lparr>ul_units_settled :=
              tc_estimated_units c, ul_status := SETTLED, ul_modality_costs := []\<rparr>)"
          using reserve_then_settle [OF wf res, of "tc_estimated_units c" "[]"] ok by blast
        with d True h res Returned run ok show ?thesis
          by (auto simp: tool_execute_def conclude_eq Let_def)
      next
        case (Raised ty msg)
        obtain u2 where u2: "fail u1 (tc_call_id c) 0 [] =
            Inr (u2, l\<lparr>ul_units_settled := 0, ul_status := FAILED, ul_modality_costs := []\<rparr>)"
            "wf u2" "entry u2 = (entry (es_usage s))(tc_call_id c \<mapsto> l\<lparr>ul_units_settled := 0,
              ul_status := FAILED, ul_modality_costs := []\<rparr>)"
          using reserve_then_fail [OF wf res, of 0 "[]"] by auto
        with d True h res Raised run ok show ?thesis
          by (auto simp: tool_execute_def conclude_eq Let_def)
      next
        case Cancelled
        with d True h res run show ?thesis by (auto simp: tool_execute_def Let_def)
      qed
    qed
  qed
qed

lemma tool_execute_cancelled:
  assumes wf: "wf (es_usage s)"
    and run: "tool_execute reserve settle fail env c s = (s', Inl CancelledError)"
  shows "\<exists>l. entry (es_usage s') = (entry (es_usage s))(tc_call_id c \<mapsto> l)
    \<and> ul_status l = RESERVED \<and> ul_units_reserved l = tc_estimated_units c
    \<and> es_audit s' = es_audit s"
  using run reserve_ok [OF wf]
  by (auto simp: tool_execute_def conclude_eq Let_def
      split: sum.splits if_splits option.splits usage_error.splits handler_outcome.splits)

end

text \<open>
  C6. No silent attempt and no leaked hold: over the in-memory ledger, an attempt that
  produces a record appends exactly one TOOL_CALL event to the audit log, whatever the
  outcome; a refused one leaves every ledger entry and budget as it was, a failed one
  leaves the call's hold resolved as FAILED with nothing charged, a succeeded one leaves
  it SETTLED at the estimate; and the ledger's invariant (the budget equations, for amounts on one
  binary grid) still holds.
\<close>

theorem tool_execute_accounts_once:
  assumes "usage_inv (es_usage s)"
    and "tool_execute (usage_reserve i) usage_settle usage_fail env c s = (s', Inr r)"
  shows "usage_inv (es_usage s') \<and> es_audit s' = es_audit s @ [call_event env c r]
    \<and> ae_event_type (call_event env c r) = TOOL_CALL
    \<and> tcr_call_id r = tc_call_id c
    \<and> (case tcr_status r of
         Refused \<Rightarrow> es_usage s' = es_usage s
       | CallFailed \<Rightarrow> \<exists>l. usage_entry (es_usage s')
             = (usage_entry (es_usage s))(tc_call_id c \<mapsto> l)
           \<and> usage_entry (es_usage s) (tc_call_id c) = None
           \<and> ul_status l = FAILED \<and> ul_units_settled l = 0
       | Succeeded \<Rightarrow> \<exists>l. usage_entry (es_usage s')
             = (usage_entry (es_usage s))(tc_call_id c \<mapsto> l)
           \<and> usage_entry (es_usage s) (tc_call_id c) = None
           \<and> ul_status l = SETTLED \<and> ul_units_settled l = tc_estimated_units c)"
  using mem_usage.tool_execute_concludes [OF assms] by (simp add: call_event_def)

text \<open>
  C7. No bypass: a call that the gate does not admit, or whose reservation is refused,
  has the same outcome and the same effects whatever the bound handlers do, so no handler
  ever sees it; and no attempt succeeds or fails without the gate's admission.
\<close>

theorem tool_execute_no_bypass:
  fixes s :: "'u exec_state"
  assumes "dom hs = dom (te_handlers env)"
    and "\<not> call_admitted env c
      \<or> \<not> is_ok (reserve (es_usage s) (fi_tenant_id (tc_request c)) (tc_call_id c)
                  (tc_estimated_units c))"
  shows "tool_execute reserve settle fail (env\<lparr>te_handlers := hs\<rparr>) c s
      = tool_execute reserve settle fail env c s
    \<and> (\<forall>s' r. tool_execute reserve settle fail env c s = (s', Inr r)
          \<longrightarrow> tcr_status r = Refused \<and> tcr_result r = None)"
proof (cases "admit (te_tools env) (te_firewall env) (te_devices env) (tc_tool_id c)
      (tc_request c) (tc_device_id c)")
  case (Inl e)
  then show ?thesis by (simp add: tool_execute_def)
next
  case (Inr d)
  have upd: "call_event (env\<lparr>te_handlers := hs\<rparr>) c r = call_event env c r" for r
    by (simp add: call_event_def call_details_def)
  have bound: "(hs (tc_tool_id c) = None) = (te_handlers env (tc_tool_id c) = None)"
    using assms(1) by (metis domIff)
  show ?thesis
  proof (cases "tcd_admitted d")
    case False
    with Inr show ?thesis by (simp add: tool_execute_def conclude_eq upd)
  next
    case True
    then obtain e where e: "reserve (es_usage s) (fi_tenant_id (tc_request c)) (tc_call_id c)
        (tc_estimated_units c) = Inl e"
      using assms(2) Inr by (auto simp: call_admitted_def is_ok_def split: sum.splits)
    with Inr True bound show ?thesis
      by (cases e) (auto simp: tool_execute_def conclude_eq upd split: option.split)
  qed
qed

text \<open>
  The error code tells the verdict: among the reasons the gate can give, the
  executor's reading of the reason prefix yields \<open>tool_approval_required\<close> exactly for the
  REQUIRE_APPROVAL verdicts and \<open>capability_denied\<close> exactly for DENY, whatever the name
  of an undeclared permission.
\<close>

theorem refusal_code_tells_verdict:
  assumes "admit tools fw devices tid request device_id = Inr d" and "\<not> tcd_admitted d"
  shows "(refusal_code d = TOOL_APPROVAL_REQUIRED \<longleftrightarrow> tcd_decision d = REQUIRE_APPROVAL)
    \<and> (refusal_code d = CAPABILITY_DENIED \<longleftrightarrow> tcd_decision d = DENY)"
  using assms
  by (auto simp: admit_def tool_select_cases Let_def refusal_code_def startswith_def
      check_device_def is_usable_def get_device_def
      split: option.splits if_splits tool_status.splits sum.splits)

text \<open>
  C8. A cancelled handler escapes the accounting: the executor's \<open>except Exception\<close> does
  not see the cancellation, so the call's hold stays RESERVED at the estimate and no audit
  event is written, although the module promises one event per attempt.
\<close>

theorem tool_execute_cancellation_leaks:
  assumes "usage_inv (es_usage s)"
    and "tool_execute (usage_reserve i) usage_settle usage_fail env c s
          = (s', Inl CancelledError)"
  shows "\<exists>l. usage_entry (es_usage s') = (usage_entry (es_usage s))(tc_call_id c \<mapsto> l)
    \<and> ul_status l = RESERVED \<and> ul_units_reserved l = tc_estimated_units c
    \<and> es_audit s' = es_audit s"
  by (rule mem_usage.tool_execute_cancelled [OF assms])

section \<open>Witnesses\<close>

definition ex_env :: "handler_outcome \<Rightarrow> tool_env" where
  "ex_env out = \<lparr>te_tools = ex_tools, te_firewall = [1 \<mapsto> ex_policy],
     te_devices = [7 \<mapsto> ex_trusted], te_handlers = [5 \<mapsto> (\<lambda>_. out)],
     te_show = \<lparr>show_uuid = (\<lambda>_. ''id''), show_usage_error = (\<lambda>_. ''err'')\<rparr>\<rparr>"

definition ex_call :: tool_call where
  "ex_call = \<lparr>tc_call_id = 3, tc_event_id = 50, tc_now = 1000, tc_tool_id = 5,
     tc_request = ex_request, tc_arguments = [], tc_device_id = Some 7,
     tc_actor_id = None, tc_estimated_units = 4\<rparr>"

definition ex_state :: "usage_state exec_state" where
  "ex_state = \<lparr>es_usage = ex_usage, es_audit = []\<rparr>"

lemma ex_usage_inv: "usage_inv ex_usage"
  by (rule configure_tenant_inv [OF usage_inv_init ex_usage_configured])

lemma ex_env_sel [simp]:
  "te_tools (ex_env out) = ex_tools" "te_firewall (ex_env out) = [1 \<mapsto> ex_policy]"
  "te_devices (ex_env out) = [7 \<mapsto> ex_trusted]" "te_handlers (ex_env out) = [5 \<mapsto> (\<lambda>_. out)]"
  by (simp_all add: ex_env_def)

lemma ex_call_sel [simp]:
  "tc_call_id ex_call = 3" "tc_tool_id ex_call = 5" "tc_request ex_call = ex_request"
  "tc_device_id ex_call = Some 7" "tc_estimated_units ex_call = 4"
  "fi_tenant_id ex_request = 1"
  by (simp_all add: ex_call_def ex_request_def)

lemma ex_reserve_one: "usage_reserve 100 ex_usage (Suc 0) 3 4 = Inr (ex_usage_held, ex_hold)"
  using ex_usage_reserved by simp

lemmas ex_admit_Suc = ex_admit [unfolded One_nat_def]

lemma ex_run_cancelled:
  "tool_execute (usage_reserve 100) usage_settle usage_fail (ex_env Cancelled) ex_call ex_state
    = (ex_state\<lparr>es_usage := ex_usage_held\<rparr>, Inl CancelledError)"
  by (simp add: tool_execute_def ex_admit_Suc ex_state_def ex_reserve_one)

lemma ex_run_raised:
  "\<exists>s' r. tool_execute (usage_reserve 100) usage_settle usage_fail
      (ex_env (Raised ''ValueError'' ''x'')) ex_call ex_state = (s', Inr r)
    \<and> tcr_status r = CallFailed"
  by (simp add: tool_execute_def ex_admit_Suc ex_state_def ex_reserve_one conclude_eq
      usage_fail_def usage_resolve_def ex_usage_held_def ex_hold_def Let_def)

theorem tool_execute_accounts_once_witness:
  "\<exists>s' r. tool_execute (usage_reserve 100) usage_settle usage_fail
      (ex_env (Raised ''ValueError'' ''x'')) ex_call ex_state = (s', Inr r)
    \<and> length (es_audit s') = 1 \<and> usage_inv (es_usage s')"
proof -
  obtain s' r where run: "tool_execute (usage_reserve 100) usage_settle usage_fail
      (ex_env (Raised ''ValueError'' ''x'')) ex_call ex_state = (s', Inr r)"
    using ex_run_raised by blast
  have "usage_inv (es_usage ex_state)" by (simp add: ex_state_def ex_usage_inv)
  from tool_execute_accounts_once [OF this run] run show ?thesis
    by (auto simp: ex_state_def)
qed

theorem tool_execute_no_bypass_witness:
  "tool_execute (usage_reserve 100) usage_settle usage_fail
      (ex_env (Returned [])\<lparr>te_handlers := [5 \<mapsto> (\<lambda>_. Cancelled)]\<rparr>)
      (ex_call\<lparr>tc_device_id := None\<rparr>) ex_state
   = tool_execute (usage_reserve 100) usage_settle usage_fail (ex_env (Returned []))
      (ex_call\<lparr>tc_device_id := None\<rparr>) ex_state"
proof -
  have "\<not> call_admitted (ex_env (Returned [])) (ex_call\<lparr>tc_device_id := None\<rparr>)"
    by (simp add: call_admitted_def admit_admitted_iff device_ok_def ex_tools_def ex_tool_def)
  then show ?thesis
    using tool_execute_no_bypass [of "[5 \<mapsto> (\<lambda>_. Cancelled)]" "ex_env (Returned [])"
        "ex_call\<lparr>tc_device_id := None\<rparr>" "usage_reserve 100" ex_state usage_settle usage_fail]
    by simp
qed

theorem refusal_code_tells_verdict_witness:
  "refusal_code (refuse DENY ''device_required:client'') = CAPABILITY_DENIED"
proof -
  have "admit ex_tools [1 \<mapsto> ex_policy] [7 \<mapsto> ex_trusted] 5 ex_request None
      = Inr (refuse DENY ''device_required:client'')"
    by (simp add: admit_def tool_select_cases ex_tools_def ex_tool_def ex_request_def
        check_device_def)
  from refusal_code_tells_verdict [OF this] show ?thesis by simp
qed

theorem tool_execute_cancellation_leaks_witness:
  "\<exists>l. usage_entry ex_usage_held 3 = Some l \<and> ul_status l = RESERVED"
proof -
  have "usage_inv (es_usage ex_state)" by (simp add: ex_state_def ex_usage_inv)
  from tool_execute_cancellation_leaks [OF this ex_run_cancelled] show ?thesis
    by (auto simp: ex_state_def)
qed

end
