(* ===== verification/Runtime_Queue.thy ===== *)
theory Runtime_Queue
  imports Prelude "HOL-Library.Sublist"
begin

text \<open>
  The at-least-once stream queue: \<open>InMemoryQueue\<close> of \<open>core/runtime/memory.py\<close>, the
  message of \<open>core/runtime/ports.py\<close> and the errors of \<open>core/runtime/errors.py\<close>.  A
  message id is its sequence number (the code prints \<open>n-0\<close> and sorts by \<open>n\<close>); the pending
  table of a group is an association list, as the dict it models.  Delivery reads the
  clock once per message: the readings of a call are a function of their position.
  Lemmas: the queue invariant, in-order exactly-once first delivery, and what
  acknowledging, re-claiming and dead-lettering do to a group's pending messages.
\<close>

type_synonym payload = "(string \<times> string) list"

record queue_message =
  qm_message_id :: nat
  qm_stream :: string
  qm_payload :: payload
  qm_idempotency_key :: string
  qm_delivery_count :: nat

text \<open>\<open>StoredEntryMissing\<close> is the KeyError of \<open>by_id[message_id]\<close>.\<close>

datatype queue_error =
    UnknownStream string string
  | MessageNotPending nat string string
  | StoredEntryMissing nat

type_synonym stream_entry = "nat \<times> payload \<times> string"

type_synonym pending_table = "(nat \<times> (string \<times> rat \<times> nat)) list"

record queue_state =
  qs_seq :: nat
  qs_streams :: "string \<rightharpoonup> stream_entry list"
  qs_cursors :: "(string \<times> string) \<rightharpoonup> nat"
  qs_pending :: "(string \<times> string) \<rightharpoonup> pending_table"

definition queue_init :: queue_state where
  "queue_init = \<lparr>qs_seq = 1, qs_streams = Map.empty, qs_cursors = Map.empty,
                 qs_pending = Map.empty\<rparr>"

text \<open>\<open>d.setdefault(k, v)\<close> on a map: the value and the map after it.\<close>

definition setdefault :: "('k \<rightharpoonup> 'v) \<Rightarrow> 'k \<Rightarrow> 'v \<Rightarrow> 'v \<times> ('k \<rightharpoonup> 'v)" where
  "setdefault m k v = (case m k of Some w \<Rightarrow> (w, m) | None \<Rightarrow> (v, m(k \<mapsto> v)))"

abbreviation stream_entries :: "queue_state \<Rightarrow> string \<Rightarrow> stream_entry list" where
  "stream_entries q s \<equiv> fst (setdefault (qs_streams q) s [])"

abbreviation group_cursor :: "queue_state \<Rightarrow> string \<Rightarrow> string \<Rightarrow> nat" where
  "group_cursor q s g \<equiv> fst (setdefault (qs_cursors q) (s, g) 0)"

abbreviation group_pending :: "queue_state \<Rightarrow> string \<Rightarrow> string \<Rightarrow> pending_table" where
  "group_pending q s g \<equiv> fst (setdefault (qs_pending q) (s, g) [])"

definition publish :: "queue_state \<Rightarrow> string \<Rightarrow> payload \<Rightarrow> string \<Rightarrow> queue_state \<times> nat" where
  "publish q s payload key =
     (let message_id = qs_seq q
      in (q\<lparr>qs_seq := qs_seq q + 1,
            qs_streams := (qs_streams q)
              (s \<mapsto> stream_entries q s @ [(message_id, payload, key)])\<rparr>, message_id))"

definition first_delivery :: "string \<Rightarrow> stream_entry \<Rightarrow> queue_message" where
  "first_delivery s e =
     \<lparr>qm_message_id = fst e, qm_stream = s, qm_payload = fst (snd e),
      qm_idempotency_key = snd (snd e), qm_delivery_count = 1\<rparr>"

text \<open>The delivery loop of \<open>consume\<close>: the entries past the cursor, while room is left.\<close>

fun deliver ::
  "string \<Rightarrow> string \<Rightarrow> (nat \<Rightarrow> rat) \<Rightarrow> stream_entry list \<Rightarrow> int \<Rightarrow> pending_table
    \<Rightarrow> queue_message list \<Rightarrow> pending_table \<times> queue_message list" where
  "deliver s consumer clock [] max_messages pending out = (pending, out)"
| "deliver s consumer clock (e # rest) max_messages pending out =
     (if int (length out) < max_messages
      then deliver s consumer clock rest max_messages
             (AList.update (fst e) (consumer, clock (length out), 1) pending)
             (out @ [first_delivery s e])
      else (pending, out))"

definition consume ::
  "(nat \<Rightarrow> rat) \<Rightarrow> queue_state \<Rightarrow> string \<Rightarrow> string \<Rightarrow> string \<Rightarrow> int
    \<Rightarrow> queue_state \<times> queue_message list" where
  "consume clock q s g consumer max_messages =
     (let (entries, streams) = setdefault (qs_streams q) s [];
          cursor = group_cursor q s g;
          (pending, out) = deliver s consumer clock (drop cursor entries) max_messages
                             (group_pending q s g) []
      in (q\<lparr>qs_streams := streams,
            qs_cursors := (qs_cursors q)((s, g) \<mapsto> cursor + length out),
            qs_pending := (qs_pending q)((s, g) \<mapsto> pending)\<rparr>, out))"

definition require_group :: "queue_state \<Rightarrow> string \<Rightarrow> string \<Rightarrow> queue_error + pending_table" where
  "require_group q s g =
     (case qs_pending q (s, g) of None \<Rightarrow> Inl (UnknownStream s g) | Some p \<Rightarrow> Inr p)"

definition queue_ack :: "queue_state \<Rightarrow> string \<Rightarrow> string \<Rightarrow> nat \<Rightarrow> queue_error + queue_state" where
  "queue_ack q s g mid =
     result_bind (require_group q s g)
       (\<lambda>pending. if map_of pending mid = None then Inl (MessageNotPending mid s g)
          else Inr (q\<lparr>qs_pending := (qs_pending q)((s, g) \<mapsto> AList.delete mid pending)\<rparr>))"

text \<open>\<open>{mid: (p, i) for mid, p, i in stream}\<close>: a later entry of the same id would win.\<close>

definition by_id :: "queue_state \<Rightarrow> string \<Rightarrow> nat \<Rightarrow> (payload \<times> string) option" where
  "by_id q s mid = map_of (rev (stream_entries q s)) mid"

text \<open>The claim loop, over the pending ids in increasing order.\<close>

fun claim_loop ::
  "queue_state \<Rightarrow> string \<Rightarrow> string \<Rightarrow> rat \<Rightarrow> int \<Rightarrow> nat list \<Rightarrow> int \<Rightarrow> pending_table
    \<Rightarrow> queue_message list \<Rightarrow> queue_error + (pending_table \<times> queue_message list)" where
  "claim_loop q s consumer now idle_ms [] max_messages pending out = Inr (pending, out)"
| "claim_loop q s consumer now idle_ms (mid # mids) max_messages pending out =
     (if max_messages \<le> int (length out) then Inr (pending, out)
      else case map_of pending mid of
        None \<Rightarrow> Inl (StoredEntryMissing mid)
      | Some (owner, delivered_at, n) \<Rightarrow>
          if (now - delivered_at) * 1000 < of_int idle_ms
          then claim_loop q s consumer now idle_ms mids max_messages pending out
          else (case by_id q s mid of
                  None \<Rightarrow> Inl (StoredEntryMissing mid)
                | Some (payload, key) \<Rightarrow>
                    claim_loop q s consumer now idle_ms mids max_messages
                      (AList.update mid (consumer, now, n + 1) pending)
                      (out @ [\<lparr>qm_message_id = mid, qm_stream = s, qm_payload = payload,
                               qm_idempotency_key = key, qm_delivery_count = n + 1\<rparr>])))"

definition claim_stale ::
  "rat \<Rightarrow> queue_state \<Rightarrow> string \<Rightarrow> string \<Rightarrow> string \<Rightarrow> int \<Rightarrow> int
    \<Rightarrow> queue_error + (queue_state \<times> queue_message list)" where
  "claim_stale now q s g consumer idle_ms max_messages =
     result_bind (require_group q s g)
       (\<lambda>pending.
          result_bind (claim_loop q s consumer now idle_ms
                         (sort (map fst pending)) max_messages pending [])
            (\<lambda>(pending', out).
               Inr (q\<lparr>qs_pending := (qs_pending q)((s, g) \<mapsto> pending')\<rparr>, out)))"

definition dlq :: "string \<Rightarrow> string" where
  "dlq s = s @ ''.dlq''"

definition dead_letter ::
  "queue_state \<Rightarrow> string \<Rightarrow> string \<Rightarrow> nat \<Rightarrow> queue_error + queue_state" where
  "dead_letter q s g mid =
     result_bind (require_group q s g)
       (\<lambda>pending. if map_of pending mid = None then Inl (MessageNotPending mid s g)
          else case by_id q s mid of
            None \<Rightarrow> Inl (StoredEntryMissing mid)
          | Some (payload, key) \<Rightarrow>
              (let q' = fst (publish q (dlq s) payload key)
               in Inr (q'\<lparr>qs_pending := (qs_pending q')
                            ((s, g) \<mapsto> AList.delete mid pending)\<rparr>)))"

section \<open>The invariant\<close>

definition entries_ok :: "nat \<Rightarrow> stream_entry list \<Rightarrow> bool" where
  "entries_ok n es \<longleftrightarrow> sorted_wrt (<) (map fst es) \<and> (\<forall>e\<in>set es. fst e < n)"

definition pending_ok :: "nat set \<Rightarrow> pending_table \<Rightarrow> bool" where
  "pending_ok ids p \<longleftrightarrow> distinct (map fst p) \<and> fst ` set p \<subseteq> ids
     \<and> (\<forall>x\<in>set p. 1 \<le> snd (snd (snd x)))"

definition delivered_ids :: "queue_state \<Rightarrow> string \<Rightarrow> string \<Rightarrow> nat list" where
  "delivered_ids q s g = map fst (take (group_cursor q s g) (stream_entries q s))"

definition queue_inv :: "queue_state \<Rightarrow> bool" where
  "queue_inv q \<longleftrightarrow> (\<forall>s. entries_ok (qs_seq q) (stream_entries q s))
     \<and> (\<forall>s g. group_cursor q s g \<le> length (stream_entries q s))
     \<and> (\<forall>s g. pending_ok (set (delivered_ids q s g)) (group_pending q s g))"

lemma setdefault_fst [simp]:
  "fst (setdefault m k v) = (case m k of None \<Rightarrow> v | Some w \<Rightarrow> w)"
  by (simp add: setdefault_def split: option.split)

lemma setdefault_lookup [simp]:
  "(case snd (setdefault m k v) l of None \<Rightarrow> v | Some w \<Rightarrow> w)
     = (case m l of None \<Rightarrow> v | Some w \<Rightarrow> w)"
  by (simp add: setdefault_def split: option.split)

lemma entries_ok_distinct: "entries_ok n es \<Longrightarrow> distinct (map fst es)"
  by (auto simp: entries_ok_def strict_sorted_iff)

lemma entries_ok_snoc:
  "entries_ok n es \<Longrightarrow> entries_ok (Suc n) (es @ [(n, x)])"
  by (auto simp: entries_ok_def sorted_wrt_append)

lemma entries_ok_mono: "entries_ok n es \<Longrightarrow> n \<le> m \<Longrightarrow> entries_ok m es"
  by (auto simp: entries_ok_def)

lemma queue_inv_init: "queue_inv queue_init"
  by (simp add: queue_inv_def queue_init_def entries_ok_def pending_ok_def)

lemma queue_invD:
  assumes "queue_inv q"
  shows "entries_ok (qs_seq q) (stream_entries q s)"
    and "group_cursor q s g \<le> length (stream_entries q s)"
    and "pending_ok (set (delivered_ids q s g)) (group_pending q s g)"
  using assms by (auto simp: queue_inv_def)

lemma queue_invI:
  assumes "\<And>s. entries_ok (qs_seq q) (stream_entries q s)"
    and "\<And>s g. group_cursor q s g \<le> length (stream_entries q s)"
    and "\<And>s g. pending_ok (set (delivered_ids q s g)) (group_pending q s g)"
  shows "queue_inv q"
  using assms by (auto simp: queue_inv_def)

section \<open>What each operation changes\<close>

lemma publish_sel:
  assumes "publish q s payload key = (q', mid)"
  shows "mid = qs_seq q" and "qs_seq q' = Suc (qs_seq q)"
    and "stream_entries q' t =
           stream_entries q t @ (if t = s then [(qs_seq q, payload, key)] else [])"
    and "qs_cursors q' = qs_cursors q" and "qs_pending q' = qs_pending q"
  using assms by (auto simp: publish_def Let_def split: if_splits)

lemma delivered_ids_publish:
  assumes "queue_inv q" and "publish q s payload key = (q', mid)"
  shows "delivered_ids q' t g = delivered_ids q t g"
proof -
  have "group_cursor q t g \<le> length (stream_entries q t)"
    using queue_invD(2) [OF assms(1)] .
  then show ?thesis
    using publish_sel(3,4) [OF assms(2)] by (simp add: delivered_ids_def)
qed

lemma publish_inv [py_inv]:
  assumes "queue_inv q" and "publish q s payload key = (q', mid)"
  shows "queue_inv q'"
proof (rule queue_invI)
  note sel = publish_sel [OF assms(2)]
  show "entries_ok (qs_seq q') (stream_entries q' t)" for t
    using queue_invD(1) [OF assms(1), of t] entries_ok_snoc
    by (simp only: sel) (auto intro: entries_ok_mono)
  show "group_cursor q' t g \<le> length (stream_entries q' t)" for t g
    using queue_invD(2) [OF assms(1), of t g] by (simp only: sel) simp
  show "pending_ok (set (delivered_ids q' t g)) (group_pending q' t g)" for t g
    using queue_invD(3) [OF assms(1), of t g]
    by (simp only: sel delivered_ids_publish [OF assms])
qed

text \<open>The delivery loop hands out a prefix of the undelivered entries.\<close>

lemma deliver_messages:
  "snd (deliver s c clk es n p out) =
     out @ map (first_delivery s) (take (nat (n - int (length out))) es)"
proof (induction s c clk es n p out rule: deliver.induct)
  case (2 s c clk e es n p out)
  show ?case
  proof (cases "int (length out) < n")
    case True
    with 2 room_left [OF True] show ?thesis by simp
  qed simp
qed simp

lemma deliver_pending:
  "map_of (fst (deliver s c clk es n p out)) m = map_of p m \<or>
   (\<exists>t. map_of (fst (deliver s c clk es n p out)) m = Some (c, t, 1)) \<and>
     m \<in> fst ` set (take (nat (n - int (length out))) es)"
proof (induction s c clk es n p out rule: deliver.induct)
  case (2 s c clk e es n p out)
  show ?case
  proof (cases "int (length out) < n")
    case True
    with 2 room_left [OF True] show ?thesis by (auto split: if_splits)
  qed simp
qed simp

lemma deliver_pending_new:
  "m \<in> fst ` set (take (nat (n - int (length out))) es) \<Longrightarrow> distinct (map fst es) \<Longrightarrow>
   \<exists>t. map_of (fst (deliver s c clk es n p out)) m = Some (c, t, 1)"
proof (induction s c clk es n p out rule: deliver.induct)
  case (2 s c clk e es n p out)
  show ?case
  proof (cases "int (length out) < n")
    case True
    note k = room_left [OF True]
    show ?thesis
    proof (cases "m = fst e")
      case same: True
      have "m \<notin> fst ` set (take (nat (n - int (length (out @ [first_delivery s e])))) es)"
        using 2(3) same by (auto dest!: in_set_takeD)
      then show ?thesis
        using deliver_pending [of s c clk es n "AList.update (fst e) (c, clk (length out), 1) p"
            "out @ [first_delivery s e]" m] True same by auto
    next
      case False
      with 2 True k show ?thesis by auto
    qed
  qed (use 2 in simp)
qed simp

lemma deliver_distinct:
  "distinct (map fst p) \<Longrightarrow> distinct (map fst (fst (deliver s c clk es n p out)))"
  by (induction s c clk es n p out rule: deliver.induct) auto

lemma deliver_ids:
  "fst ` set p \<inter> fst ` set es = {} \<Longrightarrow> distinct (map fst es) \<Longrightarrow>
   map fst (fst (deliver s c clk es n p out)) =
     map fst p @ map fst (take (nat (n - int (length out))) es)"
proof (induction s c clk es n p out rule: deliver.induct)
  case (2 s c clk e es n p out)
  show ?case
  proof (cases "int (length out) < n")
    case True
    have "AList.update (fst e) (c, clk (length out), 1) p
        = p @ [(fst e, (c, clk (length out), 1))]"
      by (rule alist_update_fresh) (use 2(2) in auto)
    then show ?thesis using 2 True room_left [OF True] by auto
  qed simp
qed simp

lemma deliver_counts:
  "\<forall>x\<in>set p. 1 \<le> snd (snd (snd x)) \<Longrightarrow>
   \<forall>x\<in>set (fst (deliver s c clk es n p out)). 1 \<le> snd (snd (snd x))"
proof (induction s c clk es n p out rule: deliver.induct)
  case (2 s c clk e es n p out)
  have "\<forall>x\<in>set (AList.update (fst e) (c, clk (length out), 1) p). 1 \<le> snd (snd (snd x))"
    using 2(2) by (auto dest!: alist_update_in_set)
  with 2 show ?case by auto
qed simp

lemma consume_sel:
  assumes "consume clk q s g c n = (q', out)"
  shows "out = map (first_delivery s)
                 (take (nat n) (drop (group_cursor q s g) (stream_entries q s)))"
    and "qs_seq q' = qs_seq q"
    and "stream_entries q' t = stream_entries q t"
    and "group_cursor q' t h = group_cursor q t h + (if (t, h) = (s, g) then length out else 0)"
    and "group_pending q' t h =
           (if (t, h) = (s, g)
            then fst (deliver s c clk (drop (group_cursor q s g) (stream_entries q s)) n
                        (group_pending q s g) [])
            else group_pending q t h)"
proof -
  obtain p m where d: "deliver s c clk (drop (group_cursor q s g) (stream_entries q s)) n
      (group_pending q s g) [] = (p, m)" by fastforce
  moreover have "m = map (first_delivery s)
      (take (nat n) (drop (group_cursor q s g) (stream_entries q s)))"
    using deliver_messages [of s c clk "drop (group_cursor q s g) (stream_entries q s)" n
        "group_pending q s g" "[]"] d by simp
  ultimately show "out = map (first_delivery s)
                 (take (nat n) (drop (group_cursor q s g) (stream_entries q s)))"
    and "qs_seq q' = qs_seq q"
    and "stream_entries q' t = stream_entries q t"
    and "group_cursor q' t h = group_cursor q t h + (if (t, h) = (s, g) then length out else 0)"
    and "group_pending q' t h =
           (if (t, h) = (s, g)
            then fst (deliver s c clk (drop (group_cursor q s g) (stream_entries q s)) n
                        (group_pending q s g) [])
            else group_pending q t h)"
    using assms by (auto simp: consume_def Let_def split_beta)
qed

lemma consume_delivered_ids:
  assumes "consume clk q s g c n = (q', out)"
  shows "delivered_ids q' t h =
    delivered_ids q t h @ (if (t, h) = (s, g) then map qm_message_id out else [])"
proof -
  have "map qm_message_id out =
      map fst (take (length out) (drop (group_cursor q s g) (stream_entries q s)))"
    using consume_sel(1) [OF assms]
    by (simp add: first_delivery_def comp_def min_def take_map)
  then show ?thesis
    by (simp add: delivered_ids_def consume_sel(3,4) [OF assms] take_add
        del: setdefault_fst)
qed

lemma queue_ids_split:
  assumes "queue_inv q"
  shows "set (delivered_ids q s g) \<inter>
      fst ` set (drop (group_cursor q s g) (stream_entries q s)) = {}"
    and "distinct (delivered_ids q s g)"
    and "distinct (map fst (drop k (stream_entries q s)))"
proof -
  have d: "distinct (map fst (stream_entries q s))"
    by (rule entries_ok_distinct [OF queue_invD(1) [OF assms]])
  then have "distinct (map fst (take (group_cursor q s g) (stream_entries q s))
      @ map fst (drop (group_cursor q s g) (stream_entries q s)))"
    by (simp only: map_append [symmetric] append_take_drop_id)
  then show "set (delivered_ids q s g) \<inter>
      fst ` set (drop (group_cursor q s g) (stream_entries q s)) = {}"
    and "distinct (delivered_ids q s g)"
    by (simp_all add: delivered_ids_def del: setdefault_fst)
  show "distinct (map fst (drop k (stream_entries q s)))"
    using d by (simp add: drop_map [symmetric] del: setdefault_fst)
qed

text \<open>A delivery appends exactly the delivered ids to the pending table of its group.\<close>

lemma consume_pending_ids:
  assumes "queue_inv q" and "consume clk q s g c n = (q', out)"
  shows "map fst (group_pending q' s g) = map fst (group_pending q s g) @ map qm_message_id out"
proof -
  have "fst ` set (group_pending q s g) \<inter>
      fst ` set (drop (group_cursor q s g) (stream_entries q s)) = {}"
    using queue_invD(3) [OF assms(1), of s g] queue_ids_split(1) [OF assms(1), of s g]
    unfolding pending_ok_def by blast
  from deliver_ids [OF this queue_ids_split(3) [OF assms(1)], of s c clk n "[]"]
  show ?thesis
    by (simp add: consume_sel(5) [OF assms(2)] consume_sel(1) [OF assms(2)]
        first_delivery_def comp_def del: setdefault_fst)
qed

lemma consume_pending_other:
  assumes "queue_inv q" and "consume clk q s g c n = (q', out)"
  shows "m \<notin> qm_message_id ` set out \<Longrightarrow>
      map_of (group_pending q' s g) m = map_of (group_pending q s g) m"
    and "m \<in> qm_message_id ` set out \<Longrightarrow>
      \<exists>t. map_of (group_pending q' s g) m = Some (c, t, 1)"
proof -
  let ?es = "drop (group_cursor q s g) (stream_entries q s)"
  have o: "qm_message_id ` set out = fst ` set (take (nat n - length []) ?es)"
    by (simp add: consume_sel(1) [OF assms(2)] first_delivery_def image_image
        del: setdefault_fst)
  show "m \<notin> qm_message_id ` set out \<Longrightarrow>
      map_of (group_pending q' s g) m = map_of (group_pending q s g) m"
    using deliver_pending [of s c clk ?es n "group_pending q s g" "[]" m] o
    by (auto simp: consume_sel(5) [OF assms(2)] simp del: setdefault_fst)
  show "m \<in> qm_message_id ` set out \<Longrightarrow>
      \<exists>t. map_of (group_pending q' s g) m = Some (c, t, 1)"
    using deliver_pending_new [of m n "[]" ?es s c clk "group_pending q s g"] o
      queue_ids_split(3) [OF assms(1)]
    by (simp add: consume_sel(5) [OF assms(2)] del: setdefault_fst)
qed

lemma consume_inv [py_inv]:
  assumes "queue_inv q" and "consume clk q s g c n = (q', out)"
  shows "queue_inv q'"
proof (rule queue_invI)
  show "entries_ok (qs_seq q') (stream_entries q' t)" for t
    using queue_invD(1) [OF assms(1)]
    by (simp only: consume_sel(2,3) [OF assms(2)])
  show "group_cursor q' t h \<le> length (stream_entries q' t)" for t h
    using queue_invD(2) [OF assms(1), of t h] consume_sel(1) [OF assms(2)]
    by (auto simp: consume_sel(3,4) [OF assms(2)] min_def simp del: setdefault_fst)
  show "pending_ok (set (delivered_ids q' t h)) (group_pending q' t h)" for t h
  proof (cases "(t, h) = (s, g)")
    case True
    have p: "pending_ok (set (delivered_ids q s g)) (group_pending q s g)"
      using queue_invD(3) [OF assms(1)] .
    have "distinct (map fst (group_pending q' s g))"
      using p deliver_distinct
      by (simp add: consume_sel(5) [OF assms(2)] pending_ok_def del: setdefault_fst)
    moreover have "set (map fst (group_pending q' s g)) \<subseteq> set (delivered_ids q' s g)"
      using p
      by (auto simp: consume_pending_ids [OF assms] consume_delivered_ids [OF assms(2)]
          pending_ok_def simp del: setdefault_fst)
    moreover have "\<forall>x\<in>set (group_pending q' s g). 1 \<le> snd (snd (snd x))"
      using p deliver_counts [of "group_pending q s g" s c clk
          "drop (group_cursor q s g) (stream_entries q s)" n "[]"]
      by (simp add: consume_sel(5) [OF assms(2)] pending_ok_def del: setdefault_fst)
    ultimately show ?thesis
      using True by (simp add: pending_ok_def del: setdefault_fst)
  next
    case False
    then show ?thesis
      using queue_invD(3) [OF assms(1)] consume_delivered_ids [OF assms(2)]
      by (auto simp: consume_sel(5) [OF assms(2)] simp del: setdefault_fst)
  qed
qed

text \<open>Replacing the pending table of one group.\<close>

definition with_pending :: "queue_state \<Rightarrow> string \<Rightarrow> string \<Rightarrow> pending_table \<Rightarrow> queue_state" where
  "with_pending q s g p = q\<lparr>qs_pending := (qs_pending q)((s, g) \<mapsto> p)\<rparr>"

lemma with_pending_sel [simp]:
  "qs_seq (with_pending q s g p) = qs_seq q"
  "qs_streams (with_pending q s g p) = qs_streams q"
  "qs_cursors (with_pending q s g p) = qs_cursors q"
  "qs_pending (with_pending q s g p) = (qs_pending q)((s, g) \<mapsto> p)"
  "delivered_ids (with_pending q s g p) = delivered_ids q"
  by (simp_all add: with_pending_def delivered_ids_def fun_eq_iff)

lemma with_pending_inv:
  assumes "queue_inv q" and "pending_ok (set (delivered_ids q s g)) p"
  shows "queue_inv (with_pending q s g p)"
proof (rule queue_invI)
  show "pending_ok (set (delivered_ids (with_pending q s g p) t h))
      (group_pending (with_pending q s g p) t h)" for t h
    using queue_invD(3) [OF assms(1), of t h] assms(2) by (simp split: option.splits)
qed (use queue_invD(1,2) [OF assms(1)] in simp_all)

lemma pending_ok_delete:
  assumes "pending_ok ids p" shows "pending_ok ids (AList.delete m p)"
proof -
  have "set (AList.delete m p) \<subseteq> set p"
    by (auto simp: AList.delete_eq)
  with assms show ?thesis
    unfolding pending_ok_def by (auto simp: distinct_delete)
qed

lemma pending_ok_update:
  "pending_ok ids p \<Longrightarrow> m \<in> ids \<Longrightarrow> 1 \<le> n \<Longrightarrow> pending_ok ids (AList.update m (c, t, n) p)"
  unfolding pending_ok_def by (auto simp: dom_update dest!: alist_update_in_set)

lemma require_group_Inr:
  "require_group q s g = Inr p \<Longrightarrow> group_pending q s g = p"
  by (simp add: require_group_def split: option.splits)

lemma queue_ack_Inr:
  assumes "queue_ack q s g m = Inr q'"
  obtains v where "map_of (group_pending q s g) m = Some v"
    and "q' = with_pending q s g (AList.delete m (group_pending q s g))"
  using assms
  by (auto simp: queue_ack_def result_bind_Inr_iff with_pending_def dest!: require_group_Inr
      split: if_splits)

lemma queue_ack_inv [py_inv]:
  "queue_inv q \<Longrightarrow> queue_ack q s g m = Inr q' \<Longrightarrow> queue_inv q'"
  by (elim queue_ack_Inr)
    (simp add: with_pending_inv pending_ok_delete queue_invD(3) del: setdefault_fst)

text \<open>A pending id is stored, so the lookup \<open>by_id[mid]\<close> never fails.\<close>

lemma by_id_entry:
  assumes "queue_inv q" and "(m, pl, key) \<in> set (stream_entries q s)"
  shows "by_id q s m = Some (pl, key)"
proof -
  have "distinct (map fst (rev (stream_entries q s)))"
    using entries_ok_distinct [OF queue_invD(1) [OF assms(1)]] by (simp add: rev_map [symmetric])
  with assms(2) show ?thesis by (simp add: by_id_def del: setdefault_fst)
qed

lemma pending_stored:
  assumes "queue_inv q" and "map_of (group_pending q s g) m = Some v"
  obtains pl key where "by_id q s m = Some (pl, key)"
    and "(m, pl, key) \<in> set (stream_entries q s)"
proof -
  have "m \<in> fst ` set (group_pending q s g)"
    using assms(2) by (force simp del: setdefault_fst dest: map_of_SomeD)
  then have "m \<in> set (delivered_ids q s g)"
    using queue_invD(3) [OF assms(1), of s g] unfolding pending_ok_def by blast
  then obtain pl key where "(m, pl, key) \<in> set (stream_entries q s)"
    by (auto simp: delivered_ids_def simp del: setdefault_fst dest: in_set_takeD)
  with by_id_entry [OF assms(1)] that show thesis by blast
qed

lemma dead_letter_Inr:
  assumes "dead_letter q s g m = Inr q'"
  obtains v pl key where "map_of (group_pending q s g) m = Some v"
    and "by_id q s m = Some (pl, key)"
    and "q' = with_pending (fst (publish q (dlq s) pl key)) s g
                (AList.delete m (group_pending q s g))"
  using assms
  by (auto simp: dead_letter_def result_bind_Inr_iff with_pending_def Let_def
      dest!: require_group_Inr split: if_splits option.splits)

lemma dead_letter_inv [py_inv]:
  assumes inv: "queue_inv q" and r: "dead_letter q s g m = Inr q'"
  shows "queue_inv q'"
proof -
  obtain pl key where q': "q' = with_pending (fst (publish q (dlq s) pl key)) s g
                (AList.delete m (group_pending q s g))"
    using r by (rule dead_letter_Inr)
  obtain q1 mid where p: "publish q (dlq s) pl key = (q1, mid)" by fastforce
  have "pending_ok (set (delivered_ids q1 s g)) (AList.delete m (group_pending q s g))"
    using queue_invD(3) [OF inv] delivered_ids_publish [OF inv p] pending_ok_delete by simp
  with publish_inv [OF inv p] q' p show ?thesis by (simp add: with_pending_inv)
qed

section \<open>Claiming stale messages\<close>

definition stale :: "rat \<Rightarrow> int \<Rightarrow> pending_table \<Rightarrow> nat \<Rightarrow> bool" where
  "stale now idle_ms p m =
     (case map_of p m of None \<Rightarrow> False
      | Some (owner, delivered_at, n) \<Rightarrow> of_int idle_ms \<le> (now - delivered_at) * 1000)"

definition redelivery :: "queue_state \<Rightarrow> string \<Rightarrow> pending_table \<Rightarrow> nat \<Rightarrow> queue_message" where
  "redelivery q s p m =
     \<lparr>qm_message_id = m, qm_stream = s, qm_payload = fst (the (by_id q s m)),
      qm_idempotency_key = snd (the (by_id q s m)),
      qm_delivery_count = snd (snd (the (map_of p m))) + 1\<rparr>"

text \<open>The loop claims the oldest stale ids, as many as there is room for.\<close>

lemma claim_loop_eq:
  assumes "\<forall>m\<in>set mids. map_of p m \<noteq> None \<and> by_id q s m \<noteq> None" and "distinct mids"
  shows "\<exists>p'. claim_loop q s c now idle_ms mids n p out = Inr (p', out @ map (redelivery q s p)
             (take (nat (n - int (length out))) (filter (stale now idle_ms p) mids)))
      \<and> map fst p' = map fst p
      \<and> (\<forall>m. map_of p' m =
          (if m \<in> set (take (nat (n - int (length out))) (filter (stale now idle_ms p) mids))
           then Some (c, now, snd (snd (the (map_of p m))) + 1) else map_of p m))"
  using assms
proof (induction mids arbitrary: p out)
  case (Cons x mids)
  obtain ow d k where v: "map_of p x = Some (ow, d, k)" using Cons.prems(1) by auto
  obtain pl key where b: "by_id q s x = Some (pl, key)" using Cons.prems(1) by auto
  show ?case
  proof (cases "int (length out) < n \<and> stale now idle_ms p x")
    case True
    let ?p = "AList.update x (c, now, k + 1) p"
    let ?m = "redelivery q s p x"
    have keys: "map fst ?p = map fst p"
      using v by (auto simp: update_keys dest!: map_of_SomeD intro: rev_image_eqI)
    have other: "map_of ?p m = map_of p m" if "m \<in> set mids" for m
      using that Cons.prems(2) by auto
    have same1: "filter (stale now idle_ms ?p) mids = filter (stale now idle_ms p) mids"
      by (rule filter_cong [OF refl]) (simp only: stale_def other)
    have same2: "map (redelivery q s ?p) (take i (filter (stale now idle_ms p) mids)) =
         map (redelivery q s p) (take i (filter (stale now idle_ms p) mids))" for i
      by (rule map_cong [OF refl])
        (auto simp only: redelivery_def other set_filter dest!: in_set_takeD)
    note same = same1 same2
    have new: "x \<notin> set (take i (filter (stale now idle_ms p) mids))" for i
      using Cons.prems(2) by (auto dest!: in_set_takeD)
    have ih: "\<exists>p'. claim_loop q s c now idle_ms mids n ?p (out @ [?m])
        = Inr (p', (out @ [?m]) @ map (redelivery q s ?p)
             (take (nat (n - int (length (out @ [?m])))) (filter (stale now idle_ms ?p) mids)))
      \<and> map fst p' = map fst ?p
      \<and> (\<forall>m. map_of p' m =
          (if m \<in> set (take (nat (n - int (length (out @ [?m]))))
                        (filter (stale now idle_ms ?p) mids))
           then Some (c, now, snd (snd (the (map_of ?p m))) + 1) else map_of ?p m))"
      by (rule Cons.IH) (use Cons.prems other in auto)
    then obtain p' where ih': "claim_loop q s c now idle_ms mids n ?p (out @ [?m])
        = Inr (p', (out @ [?m]) @ map (redelivery q s p)
             (take (nat (n - int (length (out @ [?m])))) (filter (stale now idle_ms p) mids)))"
      "map fst p' = map fst p"
      "\<And>m. map_of p' m =
          (if m \<in> set (take (nat (n - int (length (out @ [?m]))))
                        (filter (stale now idle_ms p) mids))
           then Some (c, now, snd (snd (the (map_of ?p m))) + 1) else map_of ?p m)"
      unfolding same keys by blast
    have "claim_loop q s c now idle_ms (x # mids) n p out
        = claim_loop q s c now idle_ms mids n ?p (out @ [?m])"
      using True v b by (simp add: stale_def redelivery_def)
    then show ?thesis
      using ih' True v room_left [of "length out" n] new
      by (intro exI [of _ p']) (auto simp: add.commute)
  next
    case False
    have ih: "\<exists>p'. claim_loop q s c now idle_ms mids n p out = Inr (p', out @ map (redelivery q s p)
             (take (nat (n - int (length out))) (filter (stale now idle_ms p) mids)))
      \<and> map fst p' = map fst p
      \<and> (\<forall>m. map_of p' m =
          (if m \<in> set (take (nat (n - int (length out))) (filter (stale now idle_ms p) mids))
           then Some (c, now, snd (snd (the (map_of p m))) + 1) else map_of p m))"
      by (rule Cons.IH) (use Cons.prems in auto)
    show ?thesis
    proof (cases "int (length out) < n")
      case True
      with False have "\<not> stale now idle_ms p x" by simp
      moreover from this v have "(now - d) * 1000 < of_int idle_ms"
        by (simp add: stale_def)
      ultimately show ?thesis using ih True v by simp
    qed simp
  qed
qed simp

definition claimed_ids :: "rat \<Rightarrow> queue_state \<Rightarrow> string \<Rightarrow> string \<Rightarrow> int \<Rightarrow> int \<Rightarrow> nat list" where
  "claimed_ids now q s g idle_ms n =
     take (nat n) (filter (stale now idle_ms (group_pending q s g))
                     (sort (map fst (group_pending q s g))))"

lemma claim_stale_eq:
  assumes inv: "queue_inv q" and some: "qs_pending q (s, g) \<noteq> None"
  obtains p' where "claim_stale now q s g c idle_ms n =
      Inr (with_pending q s g p',
           map (redelivery q s (group_pending q s g)) (claimed_ids now q s g idle_ms n))"
    and "map fst p' = map fst (group_pending q s g)"
    and "\<And>m. map_of p' m =
          (if m \<in> set (claimed_ids now q s g idle_ms n)
           then Some (c, now, snd (snd (the (map_of (group_pending q s g) m))) + 1)
           else map_of (group_pending q s g) m)"
proof -
  let ?p = "group_pending q s g"
  have r: "require_group q s g = Inr ?p"
    using some by (auto simp: require_group_def)
  have d: "distinct (sort (map fst ?p))"
    using queue_invD(3) [OF inv, of s g] by (simp add: pending_ok_def del: setdefault_fst)
  have "by_id q s m \<noteq> None" if "map_of ?p m \<noteq> None" for m
    using that pending_stored [OF inv] by blast
  then have st: "\<forall>m\<in>set (sort (map fst ?p)). map_of ?p m \<noteq> None \<and> by_id q s m \<noteq> None"
    by (auto simp: map_of_eq_None_iff simp del: setdefault_fst)
  from claim_loop_eq [OF st d, of c now idle_ms n "[]"] r that show thesis
    by (fastforce simp: claim_stale_def with_pending_def claimed_ids_def simp del: setdefault_fst)
qed

lemma claim_stale_inv [py_inv]:
  assumes inv: "queue_inv q" and r: "claim_stale now q s g c idle_ms n = Inr (q', out)"
  shows "queue_inv q'"
proof -
  have some: "qs_pending q (s, g) \<noteq> None"
    using r by (auto simp: claim_stale_def require_group_def split: option.splits)
  let ?p = "group_pending q s g"
  have ok: "pending_ok (set (delivered_ids q s g)) ?p"
    using queue_invD(3) [OF inv] .
  obtain p' where e: "claim_stale now q s g c idle_ms n = Inr (with_pending q s g p',
        map (redelivery q s ?p) (claimed_ids now q s g idle_ms n))"
    and k: "map fst p' = map fst ?p"
    and m: "\<And>m. map_of p' m = (if m \<in> set (claimed_ids now q s g idle_ms n)
           then Some (c, now, snd (snd (the (map_of ?p m))) + 1) else map_of ?p m)"
    by (rule claim_stale_eq [OF inv some, of now c idle_ms n]) blast
  have q': "q' = with_pending q s g p'" using r e by simp
  have "1 \<le> snd (snd (snd x))" if x: "x \<in> set p'" for x
  proof -
    have "map_of p' (fst x) = Some (snd x)"
      using x ok k by (simp add: pending_ok_def del: setdefault_fst)
    then consider "snd (snd (snd x)) = snd (snd (the (map_of ?p (fst x)))) + 1"
      | "map_of ?p (fst x) = Some (snd x)"
      using m [of "fst x"] by (cases "fst x \<in> set (claimed_ids now q s g idle_ms n)")
        (auto simp: eq_commute [of _ "snd x"])
    then show ?thesis
    proof cases
      case 2
      then have "(fst x, snd x) \<in> set ?p" by (rule map_of_SomeD)
      with ok show ?thesis unfolding pending_ok_def by (metis snd_conv)
    qed simp
  qed
  then have "pending_ok (set (delivered_ids q s g)) p'"
    using ok k by (simp add: pending_ok_def set_map [symmetric] del: setdefault_fst set_map)
  with q' inv show ?thesis by (simp add: with_pending_inv)
qed

section \<open>Histories of a queue\<close>

datatype queue_event =
    Published string nat
  | Delivered string string "nat list"
  | Reclaimed string string "nat list"
  | Acked string string nat
  | DeadLettered string string nat

inductive queue_step :: "queue_state \<Rightarrow> queue_event \<Rightarrow> queue_state \<Rightarrow> bool" where
  qs_publish: "publish q s pl key = (q', m) \<Longrightarrow> queue_step q (Published s m) q'"
| qs_consume: "consume clk q s g c n = (q', out) \<Longrightarrow>
     queue_step q (Delivered s g (map qm_message_id out)) q'"
| qs_claim: "claim_stale now q s g c idle_ms n = Inr (q', out) \<Longrightarrow>
     queue_step q (Reclaimed s g (map qm_message_id out)) q'"
| qs_ack: "queue_ack q s g m = Inr q' \<Longrightarrow> queue_step q (Acked s g m) q'"
| qs_dead: "dead_letter q s g m = Inr q' \<Longrightarrow> queue_step q (DeadLettered s g m) q'"

inductive_cases queue_step_cases: "queue_step q ev q'"

inductive queue_run :: "queue_event list \<Rightarrow> queue_state \<Rightarrow> bool" where
  qr_init: "queue_run [] queue_init"
| qr_step: "queue_run evs q \<Longrightarrow> queue_step q ev q' \<Longrightarrow> queue_run (evs @ [ev]) q'"

fun delivered_by :: "string \<Rightarrow> string \<Rightarrow> queue_event \<Rightarrow> nat list" where
  "delivered_by s g (Delivered t h ms) = (if (t, h) = (s, g) then ms else [])"
| "delivered_by s g _ = []"

fun settled_by :: "string \<Rightarrow> string \<Rightarrow> queue_event \<Rightarrow> nat list" where
  "settled_by s g (Acked t h m) = (if (t, h) = (s, g) then [m] else [])"
| "settled_by s g (DeadLettered t h m) = (if (t, h) = (s, g) then [m] else [])"
| "settled_by s g _ = []"

definition delivered_in :: "string \<Rightarrow> string \<Rightarrow> queue_event list \<Rightarrow> nat list" where
  "delivered_in s g evs = concat (map (delivered_by s g) evs)"

definition settled_in :: "string \<Rightarrow> string \<Rightarrow> queue_event list \<Rightarrow> nat list" where
  "settled_in s g evs = concat (map (settled_by s g) evs)"

lemma queue_step_inv: "queue_step q ev q' \<Longrightarrow> queue_inv q \<Longrightarrow> queue_inv q'"
  by (erule queue_step_cases) (blast intro: py_inv)+

lemma queue_run_inv: "queue_run evs q \<Longrightarrow> queue_inv q"
  by (induction rule: queue_run.induct) (blast intro: queue_inv_init queue_step_inv)+

lemma mset_keys_delete:
  "map_of p m = Some v \<Longrightarrow> distinct (map fst p) \<Longrightarrow>
    mset (map fst p) = {#m#} + mset (map fst (AList.delete m p))"
  by (induction p) (auto simp: delete_idem split: if_splits)

text \<open>
  One step moves a group's first deliveries into its pending table, and its pending
  messages to the settled ones; nothing else changes either.
\<close>

lemma queue_step_flow:
  assumes "queue_step q ev q'" and inv: "queue_inv q"
  shows "delivered_ids q' s g = delivered_ids q s g @ delivered_by s g ev
    \<and> mset (map fst (group_pending q s g)) + mset (delivered_by s g ev)
        = mset (map fst (group_pending q' s g)) + mset (settled_by s g ev)"
  using assms(1)
proof (cases rule: queue_step.cases)
  case (qs_publish t pl key m)
  then show ?thesis
    using publish_sel(5) delivered_ids_publish [OF inv] by fastforce
next
  case (qs_consume clk t h c n out)
  then show ?thesis
    using consume_delivered_ids [OF qs_consume(2)] consume_pending_ids [OF inv qs_consume(2)]
      consume_sel(5) [OF qs_consume(2)]
    by (cases "(t, h) = (s, g)") (auto simp del: setdefault_fst)
next
  case (qs_claim now t h c idle_ms n out)
  have some: "qs_pending q (t, h) \<noteq> None"
    using qs_claim(2) by (auto simp: claim_stale_def require_group_def split: option.splits)
  obtain p' where "claim_stale now q t h c idle_ms n = Inr (with_pending q t h p',
        map (redelivery q t (group_pending q t h)) (claimed_ids now q t h idle_ms n))"
    and "map fst p' = map fst (group_pending q t h)"
    by (rule claim_stale_eq [OF inv some, of now c idle_ms n]) blast
  with qs_claim show ?thesis by (auto simp del: mset_map)
next
  case (qs_ack t h m)
  then obtain v where "map_of (group_pending q t h) m = Some v"
    and "q' = with_pending q t h (AList.delete m (group_pending q t h))"
    by (blast elim: queue_ack_Inr)
  with qs_ack(1) show ?thesis
    using mset_keys_delete [of "group_pending q t h" m v] queue_invD(3) [OF inv, of t h]
    by (auto simp: pending_ok_def)
next
  case (qs_dead t h m)
  then obtain v pl key where v: "map_of (group_pending q t h) m = Some v"
    and q': "q' = with_pending (fst (publish q (dlq t) pl key)) t h
                (AList.delete m (group_pending q t h))"
    by (blast elim: dead_letter_Inr)
  obtain q1 mid where p: "publish q (dlq t) pl key = (q1, mid)" by fastforce
  with v q' qs_dead(1) show ?thesis
    using mset_keys_delete [of "group_pending q t h" m v] queue_invD(3) [OF inv, of t h]
      delivered_ids_publish [OF inv p] publish_sel(5) [OF p]
    by (auto simp: pending_ok_def)
qed

section \<open>Properties\<close>

text \<open>
  C9. At-least-once delivery with explicit settlement: over any history of publishing,
  consuming, claiming, acknowledging and dead-lettering, the messages first delivered to
  a consumer group are the stream's oldest messages, in stream order and each exactly
  once; and every one of them is either still pending for the group or has been settled,
  by one acknowledgement or dead-lettering - never both, never twice, never lost.
\<close>

theorem queue_delivers_in_order_and_loses_nothing:
  assumes "queue_run evs q"
  shows "prefix (delivered_in s g evs) (map fst (stream_entries q s))
    \<and> distinct (delivered_in s g evs) \<and> distinct (settled_in s g evs)
    \<and> mset (delivered_in s g evs)
        = mset (settled_in s g evs) + mset (map fst (group_pending q s g))"
proof -
  have "delivered_in s g evs = delivered_ids q s g \<and> mset (delivered_in s g evs)
        = mset (settled_in s g evs) + mset (map fst (group_pending q s g))"
    using assms
  proof (induction rule: queue_run.induct)
    case (qr_step evs q ev q')
    let ?A = "mset (map fst (group_pending q s g))"
    note flow = queue_step_flow [OF qr_step(2) queue_run_inv [OF qr_step(1)], of s g]
    have "mset (delivered_in s g (evs @ [ev]))
        = mset (settled_in s g evs) + (?A + mset (delivered_by s g ev))"
      using conjunct2 [OF qr_step.IH]
      by (simp only: delivered_in_def map_append concat_append mset_append add.assoc) simp
    also have "\<dots> = mset (settled_in s g (evs @ [ev]))
        + mset (map fst (group_pending q' s g))"
      by (simp only: flow) (simp add: settled_in_def)
    finally show ?case
      using flow qr_step.IH by (simp add: delivered_in_def del: setdefault_fst)
  qed (simp add: delivered_in_def settled_in_def queue_init_def delivered_ids_def)
  moreover have "distinct (delivered_ids q s g)"
    by (rule queue_ids_split(2) [OF queue_run_inv [OF assms]])
  moreover have "prefix (delivered_ids q s g) (map fst (stream_entries q s))"
    by (simp add: delivered_ids_def take_map [symmetric] take_is_prefix del: setdefault_fst)
  moreover have "distinct (settled_in s g evs)"
    using calculation(1,2)
    by (metis distinct_append mset_append mset_eq_imp_distinct_iff)
  ultimately show ?thesis by (auto simp del: setdefault_fst mset_map)
qed

text \<open>
  Crash recovery: on a group that exists, claiming succeeds and re-delivers exactly
  the oldest \<open>max_messages\<close> of the pending messages that have been idle for \<open>idle_ms\<close>,
  in id order, each with its stored payload and its delivery count raised by one and now
  owned by the claimer; every other pending message keeps its owner, time and count, and
  no message stops being pending.
\<close>

theorem claim_stale_redelivers_oldest:
  assumes "queue_run evs q" and "qs_pending q (s, g) \<noteq> None"
  shows "\<exists>q' out. claim_stale now q s g c idle_ms n = Inr (q', out)
    \<and> map qm_message_id out = claimed_ids now q s g idle_ms n
    \<and> (\<forall>msg\<in>set out. \<exists>w. map_of (group_pending q s g) (qm_message_id msg) = Some w
          \<and> qm_delivery_count msg = snd (snd w) + 1
          \<and> (qm_message_id msg, qm_payload msg, qm_idempotency_key msg)
              \<in> set (stream_entries q s)
          \<and> map_of (group_pending q' s g) (qm_message_id msg)
              = Some (c, now, snd (snd w) + 1))
    \<and> map fst (group_pending q' s g) = map fst (group_pending q s g)
    \<and> (\<forall>m. m \<notin> set (claimed_ids now q s g idle_ms n) \<longrightarrow>
          map_of (group_pending q' s g) m = map_of (group_pending q s g) m)"
proof -
  note inv = queue_run_inv [OF assms(1)]
  let ?p = "group_pending q s g"
  obtain p' where e: "claim_stale now q s g c idle_ms n = Inr (with_pending q s g p',
        map (redelivery q s ?p) (claimed_ids now q s g idle_ms n))"
    and k: "map fst p' = map fst ?p"
    and m: "\<And>m. map_of p' m = (if m \<in> set (claimed_ids now q s g idle_ms n)
           then Some (c, now, snd (snd (the (map_of ?p m))) + 1) else map_of ?p m)"
    by (rule claim_stale_eq [OF inv assms(2), of now c idle_ms n]) blast
  have "\<exists>w. map_of ?p i = Some w \<and> (i, fst (the (by_id q s i)), snd (the (by_id q s i)))
          \<in> set (stream_entries q s)" if i: "i \<in> set (claimed_ids now q s g idle_ms n)" for i
  proof -
    have "i \<in> fst ` set ?p"
      using i by (auto simp: claimed_ids_def simp del: setdefault_fst dest!: in_set_takeD)
    then obtain w where w: "map_of ?p i = Some w"
      by (metis map_of_eq_None_iff not_None_eq)
    then obtain pl key where "by_id q s i = Some (pl, key)"
      and "(i, pl, key) \<in> set (stream_entries q s)"
      by (rule pending_stored [OF inv])
    with w show ?thesis by (metis fst_conv option.sel snd_conv)
  qed
  note st = this
  show ?thesis
    by (intro exI [of _ "with_pending q s g p'"]
        exI [of _ "map (redelivery q s ?p) (claimed_ids now q s g idle_ms n)"] conjI e)
      (use m k st in \<open>fastforce simp: redelivery_def comp_def\<close>)+
qed

text \<open>
  Settlement errors: acknowledging and dead-lettering succeed exactly for messages
  pending in the group and refuse every other id with \<open>MessageNotPending\<close>, or with
  \<open>UnknownStream\<close> where the group was never created; the lookup of the stored message
  cannot fail.  Dead-lettering appends the message's payload and key, under a new id, to
  the \<open>.dlq\<close> stream in the same step that takes it out of the pending table.
\<close>

theorem queue_settlement_is_exact:
  assumes "queue_run evs q"
  shows "queue_ack q s g m =
      (case qs_pending q (s, g) of None \<Rightarrow> Inl (UnknownStream s g)
       | Some p \<Rightarrow> if map_of p m = None then Inl (MessageNotPending m s g)
                   else Inr (with_pending q s g (AList.delete m p)))
    \<and> dead_letter q s g m =
      (case qs_pending q (s, g) of None \<Rightarrow> Inl (UnknownStream s g)
       | Some p \<Rightarrow> if map_of p m = None then Inl (MessageNotPending m s g)
                   else Inr (with_pending (fst (publish q (dlq s) (fst (the (by_id q s m)))
                               (snd (the (by_id q s m))))) s g (AList.delete m p)))
    \<and> (map_of (group_pending q s g) m \<noteq> None \<longrightarrow> (\<exists>pl key. (m, pl, key) \<in> set (stream_entries q s)
          \<and> by_id q s m = Some (pl, key)))"
proof -
  note inv = queue_run_inv [OF assms]
  have st: "\<exists>pl key. (m, pl, key) \<in> set (stream_entries q s) \<and> by_id q s m = Some (pl, key)"
    if "map_of (group_pending q s g) m \<noteq> None"
    using that pending_stored [OF inv] by blast
  moreover have "queue_ack q s g m =
      (case qs_pending q (s, g) of None \<Rightarrow> Inl (UnknownStream s g)
       | Some p \<Rightarrow> if map_of p m = None then Inl (MessageNotPending m s g)
                   else Inr (with_pending q s g (AList.delete m p)))"
    by (auto simp: queue_ack_def require_group_def with_pending_def split: option.split)
  moreover have "dead_letter q s g m =
      (case qs_pending q (s, g) of None \<Rightarrow> Inl (UnknownStream s g)
       | Some p \<Rightarrow> if map_of p m = None then Inl (MessageNotPending m s g)
                   else Inr (with_pending (fst (publish q (dlq s) (fst (the (by_id q s m)))
                               (snd (the (by_id q s m))))) s g (AList.delete m p)))"
    using st by (auto simp: dead_letter_def require_group_def with_pending_def Let_def
        split: option.splits)
  ultimately show ?thesis by blast
qed

section \<open>The queue port\<close>

text \<open>
  What the clients of \<open>QueuePort\<close> rely on: \<open>pend q s g m\<close> is the delivery count of a
  message pending for the group.  Consuming and claiming hand out distinct messages that
  are pending with the count they carry; acknowledging and dead-lettering a pending
  message succeed and take it, and only it, out of the group's pending messages.
\<close>

locale queue_port =
  fixes consume_new :: "'q \<Rightarrow> string \<Rightarrow> string \<Rightarrow> string \<Rightarrow> int \<Rightarrow> 'q \<times> queue_message list"
    and claim :: "'q \<Rightarrow> string \<Rightarrow> string \<Rightarrow> string \<Rightarrow> int \<Rightarrow> int
                    \<Rightarrow> queue_error + ('q \<times> queue_message list)"
    and acknowledge :: "'q \<Rightarrow> string \<Rightarrow> string \<Rightarrow> nat \<Rightarrow> queue_error + 'q"
    and bury :: "'q \<Rightarrow> string \<Rightarrow> string \<Rightarrow> nat \<Rightarrow> queue_error + 'q"
    and pend :: "'q \<Rightarrow> string \<Rightarrow> string \<Rightarrow> nat \<Rightarrow> nat option"
    and wf :: "'q \<Rightarrow> bool"
  assumes consume_ok: "wf q \<Longrightarrow> consume_new q s g c n = (q', ms) \<Longrightarrow>
      wf q' \<and> distinct (map qm_message_id ms)
      \<and> (\<forall>i\<in>qm_message_id ` set ms. pend q s g i = None)
      \<and> (\<forall>msg\<in>set ms. pend q' s g (qm_message_id msg) = Some (qm_delivery_count msg))
      \<and> (\<forall>i. i \<notin> qm_message_id ` set ms \<longrightarrow> pend q' s g i = pend q s g i)"
    and claim_ok: "wf q \<Longrightarrow> claim q s g c idle n = Inr (q', ms) \<Longrightarrow>
      wf q' \<and> distinct (map qm_message_id ms)
      \<and> (\<forall>i\<in>qm_message_id ` set ms. pend q s g i \<noteq> None)
      \<and> (\<forall>msg\<in>set ms. pend q' s g (qm_message_id msg) = Some (qm_delivery_count msg))
      \<and> (\<forall>i. i \<notin> qm_message_id ` set ms \<longrightarrow> pend q' s g i = pend q s g i)"
    and acknowledge_ok: "wf q \<Longrightarrow> pend q s g m = Some k \<Longrightarrow>
      \<exists>q'. acknowledge q s g m = Inr q' \<and> wf q' \<and> pend q' s g = (pend q s g)(m := None)"
    and bury_ok: "wf q \<Longrightarrow> pend q s g m = Some k \<Longrightarrow>
      \<exists>q'. bury q s g m = Inr q' \<and> wf q' \<and> pend q' s g = (pend q s g)(m := None)"
begin

text \<open>A batch: distinct messages, pending with the delivery count they carry.\<close>

definition batch_ok :: "'q \<Rightarrow> string \<Rightarrow> string \<Rightarrow> queue_message list \<Rightarrow> bool" where
  "batch_ok q s g ms \<longleftrightarrow> distinct (map qm_message_id ms)
     \<and> (\<forall>msg\<in>set ms. pend q s g (qm_message_id msg) = Some (qm_delivery_count msg))"

lemma consume_batch:
  "wf q \<Longrightarrow> consume_new q s g c n = (q', ms) \<Longrightarrow> wf q' \<and> batch_ok q' s g ms"
  using consume_ok [of q s g c n q' ms] by (simp add: batch_ok_def)

lemma claim_batch:
  "wf q \<Longrightarrow> claim q s g c idle n = Inr (q', ms) \<Longrightarrow> wf q' \<and> batch_ok q' s g ms"
  using claim_ok [of q s g c idle n q' ms] by (simp add: batch_ok_def)

lemma batch_ok_Nil [simp]: "batch_ok q s g []"
  by (simp add: batch_ok_def)

lemma batch_ok_Cons_iff:
  "batch_ok q s g (m # ms) \<longleftrightarrow>
     pend q s g (qm_message_id m) = Some (qm_delivery_count m)
     \<and> qm_message_id m \<notin> qm_message_id ` set ms \<and> batch_ok q s g ms"
  by (auto simp: batch_ok_def)

lemma batch_ok_settled:
  "batch_ok q s g ms \<Longrightarrow> i \<notin> qm_message_id ` set ms \<Longrightarrow>
    pend q' s g = (pend q s g)(i := None) \<Longrightarrow> batch_ok q' s g ms"
  by (auto simp: batch_ok_def)

end

definition pending_count :: "queue_state \<Rightarrow> string \<Rightarrow> string \<Rightarrow> nat \<Rightarrow> nat option" where
  "pending_count q s g m = map_option (snd \<circ> snd) (map_of (group_pending q s g) m)"

lemma pending_count_with_pending:
  "pending_count (with_pending q s g p) s g = (\<lambda>m. map_option (snd \<circ> snd) (map_of p m))"
  by (simp add: pending_count_def fun_eq_iff)

lemma pending_count_delete:
  "pending_count (with_pending q s g (AList.delete m (group_pending r s g))) s g
     = (pending_count r s g)(m := None)"
  by (simp add: pending_count_with_pending fun_eq_iff) (simp add: pending_count_def)

lemma queue_settle_ok:
  assumes inv: "queue_inv q" and k: "pending_count q s g m = Some k"
  shows "\<exists>q'. queue_ack q s g m = Inr q' \<and> queue_inv q'
      \<and> pending_count q' s g = (pending_count q s g)(m := None)"
    and "\<exists>q'. dead_letter q s g m = Inr q' \<and> queue_inv q'
      \<and> pending_count q' s g = (pending_count q s g)(m := None)"
proof -
  let ?p = "group_pending q s g"
  obtain v where v: "map_of ?p m = Some v"
    using k by (auto simp: pending_count_def simp del: setdefault_fst)
  then have r: "require_group q s g = Inr ?p"
    by (auto simp: require_group_def split: option.splits)
  have a: "queue_ack q s g m = Inr (with_pending q s g (AList.delete m ?p))"
    using v by (simp add: queue_ack_def r with_pending_def del: setdefault_fst)
  show "\<exists>q'. queue_ack q s g m = Inr q' \<and> queue_inv q'
      \<and> pending_count q' s g = (pending_count q s g)(m := None)"
    using a queue_ack_inv [OF inv a] pending_count_delete by blast
  obtain pl key where b: "by_id q s m = Some (pl, key)"
    by (rule pending_stored [OF inv v])
  have d: "dead_letter q s g m = Inr (with_pending (fst (publish q (dlq s) pl key)) s g
      (AList.delete m ?p))"
    using v b by (simp add: dead_letter_def r with_pending_def Let_def del: setdefault_fst)
  show "\<exists>q'. dead_letter q s g m = Inr q' \<and> queue_inv q'
      \<and> pending_count q' s g = (pending_count q s g)(m := None)"
    using d dead_letter_inv [OF inv d] pending_count_delete by blast
qed

lemma claim_stale_group:
  "claim_stale now q s g c idle_ms n = Inr r \<Longrightarrow> qs_pending q (s, g) \<noteq> None"
  by (auto simp: claim_stale_def require_group_def split: option.splits)

interpretation mem_queue: queue_port "consume clk" "claim_stale now" queue_ack dead_letter
    pending_count queue_inv for clk now
proof unfold_locales
  fix q s g c n q' ms
  assume inv: "queue_inv q" and r: "consume clk q s g c n = (q', ms)"
  have "distinct (map fst (group_pending q' s g))"
    using queue_invD(3) [OF consume_inv [OF inv r], of s g]
    by (simp add: pending_ok_def del: setdefault_fst)
  then have d: "distinct (map fst (group_pending q s g) @ map qm_message_id ms)"
    by (simp only: consume_pending_ids [OF inv r])
  then have "map_of (group_pending q s g) i = None" if "i \<in> qm_message_id ` set ms" for i
    using that by (intro map_of_NoneI) (auto simp del: setdefault_fst)
  moreover have "qm_delivery_count msg = 1" if "msg \<in> set ms" for msg
    using that consume_sel(1) [OF r] by (auto simp: first_delivery_def)
  ultimately show "queue_inv q' \<and> distinct (map qm_message_id ms)
      \<and> (\<forall>i\<in>qm_message_id ` set ms. pending_count q s g i = None)
      \<and> (\<forall>msg\<in>set ms. pending_count q' s g (qm_message_id msg) = Some (qm_delivery_count msg))
      \<and> (\<forall>i. i \<notin> qm_message_id ` set ms \<longrightarrow> pending_count q' s g i = pending_count q s g i)"
    using consume_inv [OF inv r] d consume_pending_other [OF inv r]
    by (fastforce simp: pending_count_def simp del: setdefault_fst)
next
  fix q s g c idle n q' ms
  assume inv: "queue_inv q" and r: "claim_stale now q s g c idle n = Inr (q', ms)"
  let ?p = "group_pending q s g"
  let ?ids = "claimed_ids now q s g idle n"
  obtain p' where e: "claim_stale now q s g c idle n = Inr (with_pending q s g p',
        map (redelivery q s ?p) ?ids)"
    and m: "\<And>m. map_of p' m = (if m \<in> set ?ids
           then Some (c, now, snd (snd (the (map_of ?p m))) + 1) else map_of ?p m)"
    by (rule claim_stale_eq [OF inv claim_stale_group [OF r], of now c idle n]) blast
  have q': "q' = with_pending q s g p'" and ms: "ms = map (redelivery q s ?p) ?ids"
    using r e by simp_all
  have ids: "map qm_message_id ms = ?ids"
    by (simp add: ms comp_def redelivery_def)
  have "set ?ids \<subseteq> fst ` set ?p" and d: "distinct ?ids"
    using queue_invD(3) [OF inv, of s g]
    by (auto simp: claimed_ids_def pending_ok_def simp del: setdefault_fst dest!: in_set_takeD)
  then have known: "map_of ?p i \<noteq> None" if "i \<in> set ?ids" for i
    using that by (auto simp: map_of_eq_None_iff simp del: setdefault_fst)
  show "queue_inv q' \<and> distinct (map qm_message_id ms)
      \<and> (\<forall>i\<in>qm_message_id ` set ms. pending_count q s g i \<noteq> None)
      \<and> (\<forall>msg\<in>set ms. pending_count q' s g (qm_message_id msg) = Some (qm_delivery_count msg))
      \<and> (\<forall>i. i \<notin> qm_message_id ` set ms \<longrightarrow> pending_count q' s g i = pending_count q s g i)"
  proof (intro conjI)
    show "\<forall>i\<in>qm_message_id ` set ms. pending_count q s g i \<noteq> None"
      using known unfolding set_map [symmetric] ids by (simp add: pending_count_def)
    show "\<forall>msg\<in>set ms. pending_count q' s g (qm_message_id msg) = Some (qm_delivery_count msg)"
      using m by (auto simp: q' ms pending_count_with_pending redelivery_def)
    show "\<forall>i. i \<notin> qm_message_id ` set ms \<longrightarrow> pending_count q' s g i = pending_count q s g i"
      unfolding set_map [symmetric] ids
      using m by (simp add: q' pending_count_with_pending) (simp add: pending_count_def)
  qed (use claim_stale_inv [OF inv r] d ids in simp_all)
qed (use queue_settle_ok in blast)+

section \<open>Witnesses\<close>

definition ex_queue_published :: queue_state where
  "ex_queue_published =
     fst (publish (fst (publish queue_init ''jobs'' [] ''a'')) ''jobs'' [(''k'', ''v'')] ''b'')"

definition ex_queue :: queue_state where
  "ex_queue = fst (consume (\<lambda>i. of_nat i) ex_queue_published ''jobs'' ''g'' ''w'' 2)"

definition ex_queue_acked :: queue_state where
  "ex_queue_acked = with_pending ex_queue ''jobs'' ''g'' [(2, ''w'', 1, 1)]"

definition ex_queue_history :: "queue_event list" where
  "ex_queue_history =
     [Published ''jobs'' 1, Published ''jobs'' 2, Delivered ''jobs'' ''g'' [1, 2]]"

lemma ex_queue_eq:
  "ex_queue_published =
     \<lparr>qs_seq = 3, qs_streams = [''jobs'' \<mapsto> [(1, [], ''a''), (2, [(''k'', ''v'')], ''b'')]],
      qs_cursors = Map.empty, qs_pending = Map.empty\<rparr>"
  "ex_queue =
     \<lparr>qs_seq = 3, qs_streams = [''jobs'' \<mapsto> [(1, [], ''a''), (2, [(''k'', ''v'')], ''b'')]],
      qs_cursors = [(''jobs'', ''g'') \<mapsto> 2],
      qs_pending = [(''jobs'', ''g'') \<mapsto> [(1, ''w'', 0, 1), (2, ''w'', 1, 1)]]\<rparr>"
  by (simp_all add: ex_queue_published_def ex_queue_def publish_def queue_init_def consume_def
      setdefault_def)

lemma ex_queue_run: "queue_run ex_queue_history ex_queue"
proof -
  let ?q1 = "fst (publish queue_init ''jobs'' [] ''a'')"
  have s1: "queue_step queue_init (Published ''jobs'' 1) ?q1"
    by (rule qs_publish [of _ _ "[]" "''a''"]) (simp add: publish_def queue_init_def)
  have s2: "queue_step ?q1 (Published ''jobs'' 2) ex_queue_published"
    by (rule qs_publish [of _ _ "[(''k'', ''v'')]" "''b''"])
      (simp add: ex_queue_published_def publish_def queue_init_def)
  have s3: "queue_step ex_queue_published (Delivered ''jobs'' ''g'' [1, 2]) ex_queue"
    using qs_consume [of "\<lambda>i. of_nat i" ex_queue_published "''jobs''" "''g''" "''w''" 2 ex_queue
        "map (first_delivery ''jobs'') [(1, [], ''a''), (2, [(''k'', ''v'')], ''b'')]"]
    by (simp add: ex_queue_eq consume_def setdefault_def first_delivery_def)
  show ?thesis
    using qr_step [OF qr_step [OF qr_step [OF qr_init s1] s2] s3]
    by (simp add: ex_queue_history_def)
qed

lemma ex_queue_ack: "queue_ack ex_queue ''jobs'' ''g'' 1 = Inr ex_queue_acked"
  by (simp add: ex_queue_acked_def with_pending_def ex_queue_eq queue_ack_def require_group_def)

theorem queue_delivers_in_order_and_loses_nothing_witness:
  "delivered_in ''jobs'' ''g'' (ex_queue_history @ [Acked ''jobs'' ''g'' 1]) = [1, 2]
    \<and> mset [1, 2] = mset [1] + mset (map fst (group_pending ex_queue_acked ''jobs'' ''g''))"
proof -
  have r: "queue_run (ex_queue_history @ [Acked ''jobs'' ''g'' 1]) ex_queue_acked"
    by (rule qr_step [OF ex_queue_run qs_ack [OF ex_queue_ack]])
  have d: "delivered_in ''jobs'' ''g'' (ex_queue_history @ [Acked ''jobs'' ''g'' 1]) = [1, 2]"
    and s: "settled_in ''jobs'' ''g'' (ex_queue_history @ [Acked ''jobs'' ''g'' 1]) = [1]"
    by (simp_all add: delivered_in_def settled_in_def ex_queue_history_def)
  from queue_delivers_in_order_and_loses_nothing [OF r, of "''jobs''" "''g''"]
  show ?thesis unfolding d s by blast
qed

theorem claim_stale_redelivers_oldest_witness:
  "\<exists>q' out. claim_stale 5 ex_queue ''jobs'' ''g'' ''w2'' 4500 9 = Inr (q', out)
    \<and> map qm_message_id out = [1]"
proof -
  have some: "qs_pending ex_queue (''jobs'', ''g'') \<noteq> None"
    by (simp add: ex_queue_eq)
  have "claimed_ids 5 ex_queue ''jobs'' ''g'' 4500 9 = [1]"
    by (simp add: claimed_ids_def ex_queue_eq stale_def)
  with claim_stale_redelivers_oldest [OF ex_queue_run some, of 5 "''w2''" 4500 9]
  show ?thesis by metis
qed

theorem queue_settlement_is_exact_witness:
  "queue_ack ex_queue ''jobs'' ''g'' 7 = Inl (MessageNotPending 7 ''jobs'' ''g'')
    \<and> dead_letter ex_queue ''jobs'' ''h'' 2 = Inl (UnknownStream ''jobs'' ''h'')"
  using queue_settlement_is_exact [OF ex_queue_run, of "''jobs''" "''g''" 7]
    queue_settlement_is_exact [OF ex_queue_run, of "''jobs''" "''h''" 2]
  by (simp add: ex_queue_eq)

end
