(* ===== verification/Runtime_Worker.thy ===== *)
theory Runtime_Worker
  imports Runtime_Queue
begin

text \<open>
  The worker runtime (\<open>core/runtime/worker.py\<close>) and the transactional outbox with its
  relay (\<open>core/runtime/outbox.py\<close>).  The worker holds its queue port, so the port's calls
  are fields of the worker record; the handler is a function of the application state and
  the message to the new application state and what awaiting it does.  A crash stands for
  an exception that is not an \<open>Exception\<close> (cancellation): it leaves the pass at once.
  The queue facts come from the locale of \<open>Runtime_Queue\<close> and its interpretation.
\<close>

section \<open>The worker\<close>

datatype handler_result =
    HandlerDone
  | HandlerPermanent   \<comment> \<open>\<open>PermanentTaskError\<close>\<close>
  | HandlerTransient   \<comment> \<open>any other \<open>Exception\<close>\<close>
  | HandlerCrash       \<comment> \<open>a \<open>BaseException\<close>, not contained\<close>

datatype worker_exn =
    MaxDeliveriesBelowOne
  | WorkerQueueFault queue_error
  | WorkerCrashed

record worker_report =
  rep_processed :: "nat list"
  rep_duplicates :: "nat list"
  rep_left_pending :: "nat list"
  rep_dead_lettered :: "nat list"

definition empty_report :: worker_report where
  "empty_report = \<lparr>rep_processed = [], rep_duplicates = [], rep_left_pending = [],
                   rep_dead_lettered = []\<rparr>"

definition idem_seen :: "string set \<Rightarrow> string \<Rightarrow> bool" where
  "idem_seen keys key \<longleftrightarrow> key \<in> keys"

definition idem_record :: "string set \<Rightarrow> string \<Rightarrow> string set" where
  "idem_record keys key = insert key keys"

record ('q, 'w) worker =
  wk_consume :: "'q \<Rightarrow> string \<Rightarrow> string \<Rightarrow> string \<Rightarrow> int \<Rightarrow> 'q \<times> queue_message list"
  wk_claim :: "'q \<Rightarrow> string \<Rightarrow> string \<Rightarrow> string \<Rightarrow> int \<Rightarrow> int
                 \<Rightarrow> queue_error + ('q \<times> queue_message list)"
  wk_ack :: "'q \<Rightarrow> string \<Rightarrow> string \<Rightarrow> nat \<Rightarrow> queue_error + 'q"
  wk_dead_letter :: "'q \<Rightarrow> string \<Rightarrow> string \<Rightarrow> nat \<Rightarrow> queue_error + 'q"
  wk_stream :: string
  wk_group :: string
  wk_consumer :: string
  wk_handler :: "'w \<Rightarrow> queue_message \<Rightarrow> 'w \<times> handler_result"
  wk_max_deliveries :: int

record ('q, 'w) worker_state =
  ws_queue :: 'q
  ws_keys :: "string set"
  ws_app :: 'w

definition worker_init :: "('q, 'w) worker \<Rightarrow> worker_exn + ('q, 'w) worker" where
  "worker_init wk = (if wk_max_deliveries wk < 1 then Inl MaxDeliveriesBelowOne else Inr wk)"

fun worker_process ::
  "('q, 'w) worker \<Rightarrow> queue_message list \<Rightarrow> ('q, 'w) worker_state \<Rightarrow> worker_report
    \<Rightarrow> ('q, 'w) worker_state \<times> (worker_exn + worker_report)" where
  "worker_process wk [] s rep = (s, Inr rep)"
| "worker_process wk (m # ms) s rep =
     (let mid = qm_message_id m;
          key = qm_idempotency_key m;
          acked = wk_ack wk (ws_queue s) (wk_stream wk) (wk_group wk) mid
      in if idem_seen (ws_keys s) key
         then (case acked of
                 Inl e \<Rightarrow> (s, Inl (WorkerQueueFault e))
               | Inr q \<Rightarrow> worker_process wk ms (s\<lparr>ws_queue := q\<rparr>)
                            (rep\<lparr>rep_duplicates := rep_duplicates rep @ [mid]\<rparr>))
         else
          (let (app, outcome) = wk_handler wk (ws_app s) m;
               s1 = s\<lparr>ws_app := app\<rparr>;
               buried = wk_dead_letter wk (ws_queue s) (wk_stream wk) (wk_group wk) mid;
               rep_dead = rep\<lparr>rep_dead_lettered := rep_dead_lettered rep @ [mid]\<rparr>
           in case outcome of
                HandlerPermanent \<Rightarrow>
                  (case buried of
                     Inl e \<Rightarrow> (s1, Inl (WorkerQueueFault e))
                   | Inr q \<Rightarrow> worker_process wk ms (s1\<lparr>ws_queue := q\<rparr>) rep_dead)
              | HandlerTransient \<Rightarrow>
                  if wk_max_deliveries wk \<le> int (qm_delivery_count m)
                  then (case buried of
                          Inl e \<Rightarrow> (s1, Inl (WorkerQueueFault e))
                        | Inr q \<Rightarrow> worker_process wk ms (s1\<lparr>ws_queue := q\<rparr>) rep_dead)
                  else worker_process wk ms s1
                         (rep\<lparr>rep_left_pending := rep_left_pending rep @ [mid]\<rparr>)
              | HandlerCrash \<Rightarrow> (s1, Inl WorkerCrashed)
              | HandlerDone \<Rightarrow>
                  (let s2 = s1\<lparr>ws_keys := idem_record (ws_keys s1) key\<rparr>
                   in case acked of
                        Inl e \<Rightarrow> (s2, Inl (WorkerQueueFault e))
                      | Inr q \<Rightarrow> worker_process wk ms (s2\<lparr>ws_queue := q\<rparr>)
                                   (rep\<lparr>rep_processed := rep_processed rep @ [mid]\<rparr>))))"

definition run_once ::
  "('q, 'w) worker \<Rightarrow> ('q, 'w) worker_state \<Rightarrow> int
    \<Rightarrow> ('q, 'w) worker_state \<times> (worker_exn + worker_report)" where
  "run_once wk s max_messages =
     (let (q, ms) = wk_consume wk (ws_queue s) (wk_stream wk) (wk_group wk)
                      (wk_consumer wk) max_messages
      in worker_process wk ms (s\<lparr>ws_queue := q\<rparr>) empty_report)"

definition recover_once ::
  "('q, 'w) worker \<Rightarrow> ('q, 'w) worker_state \<Rightarrow> int \<Rightarrow> int
    \<Rightarrow> ('q, 'w) worker_state \<times> (worker_exn + worker_report)" where
  "recover_once wk s idle_ms max_messages =
     (case wk_claim wk (ws_queue s) (wk_stream wk) (wk_group wk) (wk_consumer wk)
             idle_ms max_messages of
        Inl e \<Rightarrow> (s, Inl (WorkerQueueFault e))
      | Inr (q, ms) \<Rightarrow> worker_process wk ms (s\<lparr>ws_queue := q\<rparr>) empty_report)"

section \<open>What a pass settles\<close>

text \<open>All ids a report accounts for.\<close>

definition report_ids :: "worker_report \<Rightarrow> nat list" where
  "report_ids rep = rep_processed rep @ rep_duplicates rep @ rep_left_pending rep
     @ rep_dead_lettered rep"

text \<open>
  The account of a pass over the batch \<open>ms\<close> from state \<open>s\<close> and report \<open>rep\<close>: every id of
  the batch enters the report exactly once, the ids left pending are those still pending
  and each has deliveries left, and no other pending message is touched.
\<close>

definition pass_ok ::
  "('q \<Rightarrow> string \<Rightarrow> string \<Rightarrow> nat \<Rightarrow> nat option) \<Rightarrow> ('q, 'w) worker \<Rightarrow> queue_message list
    \<Rightarrow> ('q, 'w) worker_state \<Rightarrow> worker_report \<Rightarrow> ('q, 'w) worker_state \<Rightarrow> worker_report \<Rightarrow> bool"
where
  "pass_ok pend wk ms s rep s' rep' \<longleftrightarrow>
     mset (report_ids rep') = mset (report_ids rep) + mset (map qm_message_id ms)
     \<and> set (rep_left_pending rep) \<subseteq> set (rep_left_pending rep')
     \<and> set (rep_left_pending rep') \<subseteq> set (rep_left_pending rep) \<union> qm_message_id ` set ms
     \<and> (\<forall>m\<in>set ms.
          pend (ws_queue s') (wk_stream wk) (wk_group wk) (qm_message_id m) =
            (if qm_message_id m \<in> set (rep_left_pending rep')
             then Some (qm_delivery_count m) else None)
          \<and> (qm_message_id m \<in> set (rep_left_pending rep')
               \<longrightarrow> int (qm_delivery_count m) < wk_max_deliveries wk))
     \<and> (\<forall>i. i \<notin> qm_message_id ` set ms \<longrightarrow>
          pend (ws_queue s') (wk_stream wk) (wk_group wk) i =
            pend (ws_queue s) (wk_stream wk) (wk_group wk) i)"

definition never_crashes :: "('q, 'w) worker \<Rightarrow> bool" where
  "never_crashes wk \<longleftrightarrow> (\<forall>w m. snd (wk_handler wk w m) \<noteq> HandlerCrash)"

text \<open>One message settled, then the rest of the batch; and one left pending.\<close>

lemma pass_ok_settle:
  assumes rest: "pass_ok pend wk ms s1 rep1 s' rep'"
    and ids: "mset (report_ids rep1) = add_mset (qm_message_id m) (mset (report_ids rep))"
    and left: "rep_left_pending rep1 = rep_left_pending rep"
    and pend: "pend (ws_queue s1) (wk_stream wk) (wk_group wk)
      = (pend (ws_queue s) (wk_stream wk) (wk_group wk))(qm_message_id m := None)"
    and fresh: "qm_message_id m \<notin> qm_message_id ` set ms"
      "qm_message_id m \<notin> set (report_ids rep)"
  shows "pass_ok pend wk (m # ms) s rep s' rep'"
proof -
  have "qm_message_id m \<notin> set (rep_left_pending rep')"
    using rest fresh left unfolding pass_ok_def report_ids_def by auto
  then show ?thesis
    using rest ids left pend fresh(1) unfolding pass_ok_def by auto
qed

lemma pass_ok_leave:
  assumes rest: "pass_ok pend wk ms s1 rep1 s' rep'"
    and rep1: "rep1 = rep\<lparr>rep_left_pending := rep_left_pending rep @ [qm_message_id m]\<rparr>"
    and queue: "ws_queue s1 = ws_queue s"
    and count: "pend (ws_queue s) (wk_stream wk) (wk_group wk) (qm_message_id m)
      = Some (qm_delivery_count m)" "int (qm_delivery_count m) < wk_max_deliveries wk"
    and fresh: "qm_message_id m \<notin> qm_message_id ` set ms"
  shows "pass_ok pend wk (m # ms) s rep s' rep'"
  using assms unfolding pass_ok_def by (auto simp: report_ids_def)

context queue_port begin

definition serves :: "('q, 'w) worker \<Rightarrow> bool" where
  "serves wk \<longleftrightarrow> wk_consume wk = consume_new \<and> wk_claim wk = claim
     \<and> wk_ack wk = acknowledge \<and> wk_dead_letter wk = bury"

abbreviation batch_of :: "('q, 'w) worker \<Rightarrow> ('q, 'w) worker_state \<Rightarrow> queue_message list \<Rightarrow> bool" where
  "batch_of wk s ms \<equiv> wf (ws_queue s) \<and> batch_ok (ws_queue s) (wk_stream wk) (wk_group wk) ms"

text \<open>Settling the first message of a batch through either call leaves a batch.\<close>

lemma settle_first:
  assumes "serves wk" and b: "batch_of wk s (m # ms)"
  obtains qa qd where
    "wk_ack wk (ws_queue s) (wk_stream wk) (wk_group wk) (qm_message_id m) = Inr qa"
    "wk_dead_letter wk (ws_queue s) (wk_stream wk) (wk_group wk) (qm_message_id m) = Inr qd"
    "pend qa (wk_stream wk) (wk_group wk)
       = (pend (ws_queue s) (wk_stream wk) (wk_group wk))(qm_message_id m := None)"
    "pend qd (wk_stream wk) (wk_group wk)
       = (pend (ws_queue s) (wk_stream wk) (wk_group wk))(qm_message_id m := None)"
    "wf qa" "wf qd" "batch_ok qa (wk_stream wk) (wk_group wk) ms"
    "batch_ok qd (wk_stream wk) (wk_group wk) ms"
proof -
  have p: "pend (ws_queue s) (wk_stream wk) (wk_group wk) (qm_message_id m)
      = Some (qm_delivery_count m)"
    and f: "qm_message_id m \<notin> qm_message_id ` set ms"
    and r: "batch_ok (ws_queue s) (wk_stream wk) (wk_group wk) ms"
    using b by (simp_all add: batch_ok_Cons_iff)
  from acknowledge_ok [OF _ p] bury_ok [OF _ p] b assms(1) batch_ok_settled [OF r f] that
  show thesis unfolding serves_def by metis
qed

lemma process_settles:
  assumes "serves wk" and "never_crashes wk"
  shows "batch_of wk s ms \<Longrightarrow> set (report_ids rep) \<inter> qm_message_id ` set ms = {} \<Longrightarrow>
    \<exists>s' rep'. worker_process wk ms s rep = (s', Inr rep') \<and> wf (ws_queue s')
      \<and> pass_ok pend wk ms s rep s' rep'"
proof (induction ms arbitrary: s rep)
  case Nil
  then show ?case by (auto simp: pass_ok_def)
next
  case (Cons m ms)
  let ?id = "qm_message_id m"
  obtain qa qd where a: "wk_ack wk (ws_queue s) (wk_stream wk) (wk_group wk) ?id = Inr qa"
      "wk_dead_letter wk (ws_queue s) (wk_stream wk) (wk_group wk) ?id = Inr qd"
    and p: "pend qa (wk_stream wk) (wk_group wk)
       = (pend (ws_queue s) (wk_stream wk) (wk_group wk))(?id := None)"
      "pend qd (wk_stream wk) (wk_group wk)
       = (pend (ws_queue s) (wk_stream wk) (wk_group wk))(?id := None)"
    and w: "wf qa" "wf qd" "batch_ok qa (wk_stream wk) (wk_group wk) ms"
      "batch_ok qd (wk_stream wk) (wk_group wk) ms"
    by (rule settle_first [OF assms(1) Cons.prems(1)])
  have fresh: "?id \<notin> qm_message_id ` set ms" "?id \<notin> set (report_ids rep)"
    and count: "pend (ws_queue s) (wk_stream wk) (wk_group wk) ?id = Some (qm_delivery_count m)"
    and rest: "batch_ok (ws_queue s) (wk_stream wk) (wk_group wk) ms" "wf (ws_queue s)"
    using Cons.prems by (auto simp: batch_ok_Cons_iff)
  have settled: "\<exists>s' rep'. worker_process wk ms s1 rep1 = (s', Inr rep') \<and> wf (ws_queue s')
      \<and> pass_ok pend wk (m # ms) s rep s' rep'"
    if q: "ws_queue s1 = qa \<or> ws_queue s1 = qd"
      and i: "mset (report_ids rep1) = add_mset ?id (mset (report_ids rep))"
      and l: "rep_left_pending rep1 = rep_left_pending rep" for s1 rep1
  proof -
    have "set (report_ids rep1) = insert ?id (set (report_ids rep))"
      using i by (metis set_mset_add_mset_insert set_mset_mset)
    then have "set (report_ids rep1) \<inter> qm_message_id ` set ms = {}"
      using Cons.prems(2) fresh(1) by auto
    then obtain s' rep' where r: "worker_process wk ms s1 rep1 = (s', Inr rep')"
        "wf (ws_queue s')" "pass_ok pend wk ms s1 rep1 s' rep'"
      using Cons.IH [of s1 rep1] q w by auto
    then show ?thesis
      using pass_ok_settle [OF r(3) i l _ fresh] q p by auto
  qed
  show ?case
  proof (cases "idem_seen (ws_keys s) (qm_idempotency_key m)")
    case True
    then show ?thesis
      using a settled [of "s\<lparr>ws_queue := qa\<rparr>"
          "rep\<lparr>rep_duplicates := rep_duplicates rep @ [?id]\<rparr>"]
      by (simp add: report_ids_def)
  next
    case False
    obtain app outcome where h: "wk_handler wk (ws_app s) m = (app, outcome)" by fastforce
    show ?thesis
    proof (cases outcome)
      case HandlerDone
      with False h a show ?thesis
        using settled [of "s\<lparr>ws_app := app, ws_keys := idem_record (ws_keys s)
              (qm_idempotency_key m), ws_queue := qa\<rparr>"
            "rep\<lparr>rep_processed := rep_processed rep @ [?id]\<rparr>"]
        by (simp add: report_ids_def)
    next
      case HandlerPermanent
      with False h a show ?thesis
        using settled [of "s\<lparr>ws_app := app, ws_queue := qd\<rparr>"
            "rep\<lparr>rep_dead_lettered := rep_dead_lettered rep @ [?id]\<rparr>"]
        by (simp add: report_ids_def)
    next
      case HandlerTransient
      show ?thesis
      proof (cases "wk_max_deliveries wk \<le> int (qm_delivery_count m)")
        case True
        with False h a HandlerTransient show ?thesis
          using settled [of "s\<lparr>ws_app := app, ws_queue := qd\<rparr>"
              "rep\<lparr>rep_dead_lettered := rep_dead_lettered rep @ [?id]\<rparr>"]
          by (simp add: report_ids_def)
      next
        case room: False
        let ?rep = "rep\<lparr>rep_left_pending := rep_left_pending rep @ [?id]\<rparr>"
        have "set (report_ids ?rep) \<inter> qm_message_id ` set ms = {}"
          using Cons.prems(2) fresh(1) by (auto simp: report_ids_def)
        with Cons.IH [of "s\<lparr>ws_app := app\<rparr>" ?rep] rest
        obtain s' rep' where "worker_process wk ms (s\<lparr>ws_app := app\<rparr>) ?rep = (s', Inr rep')"
            "wf (ws_queue s')" "pass_ok pend wk ms (s\<lparr>ws_app := app\<rparr>) ?rep s' rep'"
          by auto
        with False h room HandlerTransient show ?thesis
          using pass_ok_leave [of pend wk ms "s\<lparr>ws_app := app\<rparr>" ?rep s' rep' rep m s]
            fresh(1) count by auto
      qed
    next
      case HandlerCrash
      with h assms(2) show ?thesis by (metis never_crashes_def snd_conv)
    qed
  qed
qed

text \<open>A pass over new or over stale messages.\<close>

lemma run_once_settles:
  assumes "serves wk" and "never_crashes wk" and "wf (ws_queue s)"
    and "consume_new (ws_queue s) (wk_stream wk) (wk_group wk) (wk_consumer wk) n = (q, ms)"
  shows "\<exists>s' rep. run_once wk s n = (s', Inr rep) \<and> wf (ws_queue s')
    \<and> pass_ok pend wk ms (s\<lparr>ws_queue := q\<rparr>) empty_report s' rep"
  using process_settles [OF assms(1,2), of "s\<lparr>ws_queue := q\<rparr>" ms empty_report]
    consume_batch [OF assms(3,4)] assms(1,4)
  by (simp add: run_once_def serves_def report_ids_def empty_report_def)

lemma recover_once_settles:
  assumes "serves wk" and "never_crashes wk" and "wf (ws_queue s)"
    and "claim (ws_queue s) (wk_stream wk) (wk_group wk) (wk_consumer wk) idle n = Inr (q, ms)"
  shows "\<exists>s' rep. recover_once wk s idle n = (s', Inr rep) \<and> wf (ws_queue s')
    \<and> pass_ok pend wk ms (s\<lparr>ws_queue := q\<rparr>) empty_report s' rep"
  using process_settles [OF assms(1,2), of "s\<lparr>ws_queue := q\<rparr>" ms empty_report]
    claim_batch [OF assms(3,4)] assms(1,4)
  by (simp add: recover_once_def serves_def report_ids_def empty_report_def)

end

section \<open>Workers on the in-memory queue\<close>

definition mem_worker ::
  "(nat \<Rightarrow> rat) \<Rightarrow> rat \<Rightarrow> string \<Rightarrow> string \<Rightarrow> string \<Rightarrow> ('w \<Rightarrow> queue_message \<Rightarrow> 'w \<times> handler_result)
    \<Rightarrow> int \<Rightarrow> (queue_state, 'w) worker" where
  "mem_worker clk now stream grp consumer handler max_deliveries =
     \<lparr>wk_consume = consume clk, wk_claim = claim_stale now, wk_ack = queue_ack,
      wk_dead_letter = dead_letter, wk_stream = stream, wk_group = grp,
      wk_consumer = consumer, wk_handler = handler, wk_max_deliveries = max_deliveries\<rparr>"

lemma mem_worker_serves: "mem_queue.serves clk now (mem_worker clk now s g c h k)"
  by (simp add: mem_queue.serves_def mem_worker_def)

text \<open>
  C10. A worker pass over the in-memory queue whose handler does not crash always
  concludes with a report, and the report is a complete account: every message consumed
  (or, in recovery, claimed) appears in it exactly once; the messages it lists as left
  pending, and only those, are still pending afterwards, each with fewer deliveries than
  the maximum; all others are settled; and no message outside the batch is touched.
\<close>

theorem worker_pass_accounts_for_every_message:
  fixes s :: "(queue_state, 'w) worker_state"
  assumes wk: "wk = mem_worker clk now stream grp consumer handler max_deliveries"
    and run: "queue_run evs (ws_queue s)" and calm: "never_crashes wk"
  shows "(\<exists>q ms s' rep. consume clk (ws_queue s) stream grp consumer n = (q, ms)
      \<and> run_once wk s n = (s', Inr rep) \<and> mset (report_ids rep) = mset (map qm_message_id ms)
      \<and> pass_ok pending_count wk ms (s\<lparr>ws_queue := q\<rparr>) empty_report s' rep)
    \<and> (case claim_stale now (ws_queue s) stream grp consumer idle n of
         Inl e \<Rightarrow> recover_once wk s idle n = (s, Inl (WorkerQueueFault e))
       | Inr (q, ms) \<Rightarrow> \<exists>s' rep. recover_once wk s idle n = (s', Inr rep)
           \<and> mset (report_ids rep) = mset (map qm_message_id ms)
           \<and> pass_ok pending_count wk ms (s\<lparr>ws_queue := q\<rparr>) empty_report s' rep)"
proof -
  note inv = queue_run_inv [OF run]
  have sv: "mem_queue.serves clk now wk"
    by (simp add: wk mem_worker_serves)
  have f: "wk_stream wk = stream" "wk_group wk = grp" "wk_consumer wk = consumer"
    "wk_claim wk = claim_stale now"
    by (simp_all add: wk mem_worker_def)
  obtain q ms where c: "consume clk (ws_queue s) stream grp consumer n = (q, ms)"
    by fastforce
  have all: "mset (report_ids rep) = mset (map qm_message_id ms)"
    if "pass_ok pending_count wk ms s1 empty_report s2 rep" for ms s1 s2 rep
    using that by (simp add: pass_ok_def) (simp add: report_ids_def empty_report_def)
  show ?thesis
  proof (intro conjI)
    show "\<exists>q ms s' rep. consume clk (ws_queue s) stream grp consumer n = (q, ms)
      \<and> run_once wk s n = (s', Inr rep) \<and> mset (report_ids rep) = mset (map qm_message_id ms)
      \<and> pass_ok pending_count wk ms (s\<lparr>ws_queue := q\<rparr>) empty_report s' rep"
      using mem_queue.run_once_settles [OF sv calm inv, of n q ms] c f all by fastforce
    show "case claim_stale now (ws_queue s) stream grp consumer idle n of
         Inl e \<Rightarrow> recover_once wk s idle n = (s, Inl (WorkerQueueFault e))
       | Inr (q, ms) \<Rightarrow> \<exists>s' rep. recover_once wk s idle n = (s', Inr rep)
           \<and> mset (report_ids rep) = mset (map qm_message_id ms)
           \<and> pass_ok pending_count wk ms (s\<lparr>ws_queue := q\<rparr>) empty_report s' rep"
    proof (cases "claim_stale now (ws_queue s) stream grp consumer idle n")
      case (Inl e)
      then show ?thesis by (simp add: recover_once_def f)
    next
      case (Inr r)
      obtain q ms where r: "r = (q, ms)" by fastforce
      with Inr mem_queue.recover_once_settles [OF sv calm inv, of idle n q ms] f all
      show ?thesis by fastforce
    qed
  qed
qed

section \<open>Idempotency\<close>

text \<open>A handler instrumented with the log of the keys it has processed successfully.\<close>

definition logged ::
  "('w \<Rightarrow> queue_message \<Rightarrow> 'w \<times> handler_result) \<Rightarrow> 'w \<times> string list \<Rightarrow> queue_message
    \<Rightarrow> ('w \<times> string list) \<times> handler_result" where
  "logged h a m =
     (let (w, r) = h (fst a) m
      in ((w, if r = HandlerDone then snd a @ [qm_idempotency_key m] else snd a), r))"

definition log_ok :: "('q, 'w \<times> string list) worker_state \<Rightarrow> bool" where
  "log_ok s \<longleftrightarrow> distinct (snd (ws_app s)) \<and> set (snd (ws_app s)) = ws_keys s"

lemma process_log_ok:
  "wk_handler wk = logged h \<Longrightarrow> log_ok s \<Longrightarrow> log_ok (fst (worker_process wk ms s rep))"
proof (induction ms arbitrary: s rep)
  case (Cons m ms)
  obtain w r where h: "h (fst (ws_app s)) m = (w, r)" by fastforce
  have l: "wk_handler wk (ws_app s) m
      = ((w, if r = HandlerDone then snd (ws_app s) @ [qm_idempotency_key m]
             else snd (ws_app s)), r)"
    using Cons.prems(1) h by (simp add: logged_def)
  show ?case
  proof (cases "idem_seen (ws_keys s) (qm_idempotency_key m)")
    case True
    then show ?thesis
      using Cons.IH Cons.prems by (auto simp: log_ok_def Let_def split: sum.split)
  next
    case False
    then show ?thesis
      using Cons.IH Cons.prems l
      by (cases r) (auto simp: log_ok_def Let_def idem_seen_def idem_record_def
          split: sum.split)
  qed
qed simp

inductive worker_pass ::
  "('w \<Rightarrow> queue_message \<Rightarrow> 'w \<times> handler_result)
    \<Rightarrow> ('q, 'w \<times> string list) worker_state \<Rightarrow> ('q, 'w \<times> string list) worker_state \<Rightarrow> bool"
  for h where
  wp_run: "wk_handler wk = logged h \<Longrightarrow> run_once wk s n = (s', out) \<Longrightarrow> worker_pass h s s'"
| wp_recover: "wk_handler wk = logged h \<Longrightarrow> recover_once wk s idle n = (s', out) \<Longrightarrow>
     worker_pass h s s'"

lemma worker_pass_log_ok: "worker_pass h s s' \<Longrightarrow> log_ok s \<Longrightarrow> log_ok s'"
proof (induction rule: worker_pass.induct)
  case (wp_run wk s n s' out)
  obtain q ms where "wk_consume wk (ws_queue s) (wk_stream wk) (wk_group wk)
      (wk_consumer wk) n = (q, ms)" by fastforce
  moreover have "log_ok (s\<lparr>ws_queue := q\<rparr>)" for q
    using wp_run(3) by (simp add: log_ok_def)
  ultimately show ?case
    using process_log_ok [OF wp_run(1), of "s\<lparr>ws_queue := q\<rparr>" ms empty_report] wp_run(2)
    by (simp add: run_once_def)
next
  case (wp_recover wk s idle n s' out)
  show ?case
  proof (cases "wk_claim wk (ws_queue s) (wk_stream wk) (wk_group wk) (wk_consumer wk) idle n")
    case (Inr r)
    have "log_ok (s\<lparr>ws_queue := fst r\<rparr>)"
      using wp_recover(3) by (simp add: log_ok_def)
    with process_log_ok [OF wp_recover(1), of "s\<lparr>ws_queue := fst r\<rparr>" "snd r" empty_report]
      Inr wp_recover(2)
    show ?thesis by (auto simp: recover_once_def split_beta)
  qed (use wp_recover(2,3) in \<open>simp add: recover_once_def\<close>)
qed

text \<open>
  C11. Over any sequence of worker passes sharing one idempotency store - any queue, any
  mix of new and recovered messages, crashes and queue faults included - no idempotency
  key is processed successfully twice: starting from an empty store, the log of
  successfully processed keys has no repetition, and the store holds exactly those keys.
\<close>

theorem worker_processes_each_key_once:
  assumes "(worker_pass h)\<^sup>*\<^sup>* s s'" and "ws_keys s = {}" and "snd (ws_app s) = []"
  shows "distinct (snd (ws_app s')) \<and> set (snd (ws_app s')) = ws_keys s'"
proof -
  have "log_ok s'"
    using assms(1)
    by induction (use assms(2,3) worker_pass_log_ok in \<open>auto simp: log_ok_def\<close>)
  then show ?thesis by (simp add: log_ok_def)
qed

section \<open>The outbox and its relay\<close>

text \<open>A record id \<open>outbox-n\<close> is its number \<open>n\<close>; the pending dict is an association list.\<close>

record outbox_record =
  ob_record_id :: nat
  ob_stream :: string
  ob_payload :: payload
  ob_idempotency_key :: string

record outbox =
  ox_seq :: nat
  ox_pending :: "(nat \<times> outbox_record) list"
  ox_dispatched :: "outbox_record list"

datatype outbox_error = RecordNotPending nat

definition outbox_init :: outbox where
  "outbox_init = \<lparr>ox_seq = 1, ox_pending = [], ox_dispatched = []\<rparr>"

definition outbox_append :: "outbox \<Rightarrow> string \<Rightarrow> payload \<Rightarrow> string \<Rightarrow> outbox \<times> nat" where
  "outbox_append ox stream pl key =
     (let record_id = ox_seq ox
      in (ox\<lparr>ox_seq := ox_seq ox + 1,
             ox_pending := AList.update record_id
               \<lparr>ob_record_id = record_id, ob_stream = stream, ob_payload = pl,
                ob_idempotency_key = key\<rparr> (ox_pending ox)\<rparr>, record_id))"

text \<open>\<open>xs[:n]\<close>, which drops from the end for a negative \<open>n\<close>.\<close>

definition slice_to :: "int \<Rightarrow> 'a list \<Rightarrow> 'a list" where
  "slice_to n xs = (if 0 \<le> n then take (nat n) xs else take (nat (int (length xs) + n)) xs)"

definition outbox_pending :: "outbox \<Rightarrow> int \<Rightarrow> outbox_record list" where
  "outbox_pending ox max_records = slice_to max_records (map snd (ox_pending ox))"

definition mark_dispatched :: "outbox \<Rightarrow> nat \<Rightarrow> outbox_error + outbox" where
  "mark_dispatched ox record_id =
     (case map_of (ox_pending ox) record_id of
        None \<Rightarrow> Inl (RecordNotPending record_id)
      | Some r \<Rightarrow> Inr (ox\<lparr>ox_pending := AList.delete record_id (ox_pending ox),
                          ox_dispatched := ox_dispatched ox @ [r]\<rparr>))"

text \<open>The relay loop: publish, then mark.  \<open>pub\<close> is the queue port's \<open>publish\<close>.\<close>

fun relay_loop ::
  "('q \<Rightarrow> string \<Rightarrow> payload \<Rightarrow> string \<Rightarrow> 'q \<times> nat) \<Rightarrow> outbox_record list \<Rightarrow> outbox \<Rightarrow> 'q
    \<Rightarrow> nat \<Rightarrow> (outbox \<times> 'q) \<times> (outbox_error + nat)" where
  "relay_loop pub [] ox q relayed = ((ox, q), Inr relayed)"
| "relay_loop pub (r # rs) ox q relayed =
     (let (q', mid) = pub q (ob_stream r) (ob_payload r) (ob_idempotency_key r)
      in case mark_dispatched ox (ob_record_id r) of
           Inl e \<Rightarrow> ((ox, q'), Inl e)
         | Inr ox' \<Rightarrow> relay_loop pub rs ox' q' (relayed + 1))"

definition relay_once ::
  "('q \<Rightarrow> string \<Rightarrow> payload \<Rightarrow> string \<Rightarrow> 'q \<times> nat) \<Rightarrow> outbox \<Rightarrow> 'q \<Rightarrow> int
    \<Rightarrow> (outbox \<times> 'q) \<times> (outbox_error + nat)" where
  "relay_once pub ox q max_records =
     relay_loop pub (outbox_pending ox max_records) ox q 0"

definition outbox_inv :: "outbox \<Rightarrow> bool" where
  "outbox_inv ox \<longleftrightarrow> distinct (map fst (ox_pending ox))
     \<and> (\<forall>(i, r)\<in>set (ox_pending ox). ob_record_id r = i \<and> i < ox_seq ox)"

lemma outbox_inv_init: "outbox_inv outbox_init"
  by (simp add: outbox_inv_def outbox_init_def)

lemma outbox_append_inv [py_inv]:
  "outbox_inv ox \<Longrightarrow> outbox_append ox st pl key = (ox', i) \<Longrightarrow> outbox_inv ox'"
  by (fastforce simp: outbox_inv_def outbox_append_def Let_def dest!: alist_update_in_set)

lemma outbox_append_pending:
  assumes "outbox_inv ox" and "outbox_append ox st pl key = (ox', i)"
  shows "ox_pending ox' = ox_pending ox @ [(i, \<lparr>ob_record_id = i, ob_stream = st,
      ob_payload = pl, ob_idempotency_key = key\<rparr>)]"
proof -
  have "ox_seq ox \<notin> fst ` set (ox_pending ox)"
    using assms(1) by (fastforce simp: outbox_inv_def)
  with assms(2) show ?thesis
    by (auto simp: outbox_append_def Let_def alist_update_fresh)
qed

lemma mark_dispatched_inv [py_inv]:
  "outbox_inv ox \<Longrightarrow> mark_dispatched ox i = Inr ox' \<Longrightarrow> outbox_inv ox'"
  by (auto simp: outbox_inv_def mark_dispatched_def AList.delete_eq split: option.splits)
    (auto simp: AList.delete_eq [symmetric])

text \<open>Relaying a prefix of the pending records moves exactly it, in order.\<close>

lemma relay_loop_prefix:
  "distinct (map fst (prs @ rest)) \<Longrightarrow> (\<forall>(i, r)\<in>set (prs @ rest). ob_record_id r = i) \<Longrightarrow>
   ox_pending ox = prs @ rest \<Longrightarrow>
   relay_loop pub (map snd prs) ox q n =
     ((ox\<lparr>ox_pending := rest, ox_dispatched := ox_dispatched ox @ map snd prs\<rparr>,
       fold (\<lambda>r q. fst (pub q (ob_stream r) (ob_payload r) (ob_idempotency_key r)))
         (map snd prs) q), Inr (n + length prs))"
proof (induction prs arbitrary: ox q n)
  case (Cons p prs)
  obtain i r where p: "p = (i, r)" by fastforce
  have "i \<notin> fst ` set (prs @ rest)" and e: "ox_pending ox = (i, r) # prs @ rest"
    using Cons.prems p by auto
  then have "AList.delete i (ox_pending ox) = prs @ rest"
    by (simp add: e)
  then have m: "mark_dispatched ox (ob_record_id r) =
      Inr (ox\<lparr>ox_pending := prs @ rest, ox_dispatched := ox_dispatched ox @ [r]\<rparr>)"
    using Cons.prems p by (simp add: mark_dispatched_def)
  show ?case
    using Cons.IH [of "ox\<lparr>ox_pending := prs @ rest, ox_dispatched := ox_dispatched ox @ [r]\<rparr>"]
      Cons.prems p m by (simp add: split_beta)
qed simp

inductive outbox_reachable :: "outbox \<Rightarrow> bool" where
  or_init: "outbox_reachable outbox_init"
| or_append: "outbox_reachable ox \<Longrightarrow> outbox_append ox st pl key = (ox', i) \<Longrightarrow>
     outbox_reachable ox'"
| or_mark: "outbox_reachable ox \<Longrightarrow> mark_dispatched ox i = Inr ox' \<Longrightarrow> outbox_reachable ox'"

lemma outbox_reachable_inv: "outbox_reachable ox \<Longrightarrow> outbox_inv ox"
  by (induction rule: outbox_reachable.induct) (blast intro: outbox_inv_init py_inv)+

lemma slice_to_prefix: "slice_to n xs = take (length (slice_to n xs)) xs"
  by (cases xs) (auto simp: slice_to_def min_def)

lemma publish_all_entries:
  "map snd (stream_entries (fold (\<lambda>r q. fst (publish q (ob_stream r) (ob_payload r)
        (ob_idempotency_key r))) rs q) t) =
     map snd (stream_entries q t) @
     map (\<lambda>r. (ob_payload r, ob_idempotency_key r)) (filter (\<lambda>r. ob_stream r = t) rs)"
proof (induction rs arbitrary: q)
  case (Cons r rs)
  show ?case
    unfolding fold.simps comp_def Cons.IH
    using publish_sel(3) [OF prod.collapse [symmetric],
        of q "ob_stream r" "ob_payload r" "ob_idempotency_key r" t]
    by (simp del: setdefault_fst)
qed simp

text \<open>
  Publish-then-mark: one relay pass over the in-memory outbox and queue never fails;
  it relays a prefix of the pending records, oldest first, appends their payloads and
  keys to their streams in that order, leaves the other pending records as they were,
  moves exactly the relayed ones to the dispatched list, and returns their number.
\<close>

theorem relay_pass_moves_a_prefix:
  assumes "outbox_reachable ox"
  shows "\<exists>rs ox' q'. rs = outbox_pending ox n
    \<and> relay_once publish ox q n = ((ox', q'), Inr (length rs))
    \<and> map snd (ox_pending ox) = rs @ map snd (ox_pending ox')
    \<and> ox_dispatched ox' = ox_dispatched ox @ rs \<and> ox_seq ox' = ox_seq ox
    \<and> (\<forall>t. map snd (stream_entries q' t) = map snd (stream_entries q t) @
          map (\<lambda>r. (ob_payload r, ob_idempotency_key r)) (filter (\<lambda>r. ob_stream r = t) rs))"
proof -
  note inv = outbox_reachable_inv [OF assms]
  define k where "k = length (outbox_pending ox n)"
  let ?prs = "take k (ox_pending ox)" and ?rest = "drop k (ox_pending ox)"
  have rs: "outbox_pending ox n = map snd ?prs"
    using slice_to_prefix [of n "map snd (ox_pending ox)"]
    by (simp add: k_def outbox_pending_def take_map)
  have "relay_loop publish (map snd ?prs) ox q 0 =
     ((ox\<lparr>ox_pending := ?rest, ox_dispatched := ox_dispatched ox @ map snd ?prs\<rparr>,
       fold (\<lambda>r q. fst (publish q (ob_stream r) (ob_payload r) (ob_idempotency_key r)))
         (map snd ?prs) q), Inr (0 + length ?prs))"
    by (rule relay_loop_prefix) (use inv in \<open>auto simp: outbox_inv_def\<close>)
  then show ?thesis
    unfolding relay_once_def rs
    by (intro exI [of _ "map snd ?prs"] exI conjI refl)
      (simp, simp_all add: publish_all_entries map_append [symmetric]
        del: setdefault_fst map_append)
qed

section \<open>Witnesses\<close>

definition ex_handler :: "unit \<Rightarrow> queue_message \<Rightarrow> unit \<times> handler_result" where
  "ex_handler w m =
     (w, if qm_idempotency_key m = ''a'' then HandlerDone else HandlerTransient)"

definition ex_worker :: "(queue_state, unit) worker" where
  "ex_worker = mem_worker (\<lambda>_. 0) 0 ''jobs'' ''h'' ''w'' ex_handler 3"

definition ex_worker_state :: "(queue_state, unit) worker_state" where
  "ex_worker_state = \<lparr>ws_queue = ex_queue, ws_keys = {}, ws_app = ()\<rparr>"

lemma ex_worker_calm: "never_crashes ex_worker"
  by (simp add: never_crashes_def ex_worker_def mem_worker_def ex_handler_def)

lemma ex_worker_batch:
  "consume (\<lambda>_. 0) (ws_queue ex_worker_state) ''jobs'' ''h'' ''w'' 5 = (q, ms) \<Longrightarrow>
    map qm_message_id ms = [1, 2]"
  by (auto simp: ex_worker_state_def ex_queue_eq consume_def setdefault_def first_delivery_def)

theorem worker_pass_accounts_for_every_message_witness:
  "\<exists>s' rep. run_once ex_worker ex_worker_state 5 = (s', Inr rep)
    \<and> mset (report_ids rep) = mset [1, 2]"
proof -
  have run: "queue_run ex_queue_history (ws_queue ex_worker_state)"
    by (simp add: ex_worker_state_def ex_queue_run)
  from worker_pass_accounts_for_every_message [OF ex_worker_def run ex_worker_calm, of 5 0]
  show ?thesis using ex_worker_batch by metis
qed

definition ex_logged_worker :: "(queue_state, unit \<times> string list) worker" where
  "ex_logged_worker = mem_worker (\<lambda>_. 0) 0 ''jobs'' ''h'' ''w'' (logged ex_handler) 3"

definition ex_logged_state :: "(queue_state, unit \<times> string list) worker_state" where
  "ex_logged_state = \<lparr>ws_queue = ex_queue, ws_keys = {}, ws_app = ((), [])\<rparr>"

lemma ex_logged_pass:
  "worker_pass ex_handler ex_logged_state (fst (run_once ex_logged_worker ex_logged_state 2))"
  by (rule wp_run [of ex_logged_worker, OF _ prod.collapse [symmetric]])
    (simp add: ex_logged_worker_def mem_worker_def)

theorem worker_processes_each_key_once_witness:
  "set (snd (ws_app (fst (run_once ex_logged_worker ex_logged_state 2))))
    = ws_keys (fst (run_once ex_logged_worker ex_logged_state 2))"
  using worker_processes_each_key_once [of ex_handler ex_logged_state
      "fst (run_once ex_logged_worker ex_logged_state 2)"]
    r_into_rtranclp [of "worker_pass ex_handler", OF ex_logged_pass]
  by (simp add: ex_logged_state_def)

definition ex_outbox :: outbox where
  "ex_outbox = fst (outbox_append outbox_init ''jobs'' [] ''a'')"

theorem relay_pass_moves_a_prefix_witness:
  "\<exists>ox' q'. relay_once publish ex_outbox queue_init 4 = ((ox', q'), Inr 1)"
proof -
  have "outbox_reachable ex_outbox"
    unfolding ex_outbox_def by (rule or_append [OF or_init prod.collapse [symmetric]])
  moreover have "length (outbox_pending ex_outbox 4) = 1"
    by (simp add: ex_outbox_def outbox_append_def outbox_init_def outbox_pending_def slice_to_def)
  ultimately show ?thesis
    using relay_pass_moves_a_prefix [of ex_outbox 4 queue_init] by auto
qed

end
