(* ===== verification/Runtime_Lease.thy ===== *)
theory Runtime_Lease
  imports Prelude
begin

text \<open>
  Leases with fencing tokens, the tenant cache and the fixed-window rate limiter of
  \<open>core/runtime/memory.py\<close>.  Monotonic seconds are exact rationals and every reading of
  the clock is an argument of the call that takes it (\<open>renew\<close> reads it twice).  Lemmas:
  tokens are never reused and a lost lease stays lost; a live lease excludes other owners;
  the cache is a per-tenant map with expiry; the limiter counts the hits of a window.
\<close>

section \<open>Leases\<close>

record lease =
  ls_resource :: string
  ls_owner :: string
  ls_fencing_token :: nat
  ls_ttl_seconds :: rat

record lease_state =
  lm_token :: nat
  lm_held :: "string \<rightharpoonup> (string \<times> nat \<times> rat)"

datatype lease_error = LeaseNotHeld string string

definition lease_init :: lease_state where
  "lease_init = \<lparr>lm_token = 1, lm_held = Map.empty\<rparr>"

definition lease_acquire ::
  "rat \<Rightarrow> lease_state \<Rightarrow> string \<Rightarrow> string \<Rightarrow> rat \<Rightarrow> lease_state \<times> lease option" where
  "lease_acquire now st resource owner ttl =
     (if (case lm_held st resource of None \<Rightarrow> False
          | Some (holder, token, expires_at) \<Rightarrow> now < expires_at \<and> holder \<noteq> owner)
      then (st, None)
      else
        (let token = lm_token st
         in (\<lparr>lm_token = token + 1,
              lm_held = (lm_held st)(resource \<mapsto> (owner, token, now + ttl))\<rparr>,
             Some \<lparr>ls_resource = resource, ls_owner = owner, ls_fencing_token = token,
                   ls_ttl_seconds = ttl\<rparr>)))"

definition require_holder :: "rat \<Rightarrow> lease_state \<Rightarrow> lease \<Rightarrow> lease_error + unit" where
  "require_holder now st l =
     (case lm_held st (ls_resource l) of
        None \<Rightarrow> Inl (LeaseNotHeld (ls_owner l) (ls_resource l))
      | Some (holder, token, expires_at) \<Rightarrow>
          if expires_at \<le> now \<or> holder \<noteq> ls_owner l \<or> token \<noteq> ls_fencing_token l
          then Inl (LeaseNotHeld (ls_owner l) (ls_resource l)) else Inr ())"

definition lease_renew ::
  "rat \<Rightarrow> rat \<Rightarrow> lease_state \<Rightarrow> lease \<Rightarrow> rat \<Rightarrow> lease_error + (lease_state \<times> lease)" where
  "lease_renew now now' st l ttl =
     result_bind (require_holder now st l)
       (\<lambda>_. Inr (st\<lparr>lm_held := (lm_held st)
                     (ls_resource l \<mapsto> (ls_owner l, ls_fencing_token l, now' + ttl))\<rparr>,
                 l\<lparr>ls_ttl_seconds := ttl\<rparr>))"

definition lease_release :: "rat \<Rightarrow> lease_state \<Rightarrow> lease \<Rightarrow> lease_error + lease_state" where
  "lease_release now st l =
     result_bind (require_holder now st l)
       (\<lambda>_. Inr (st\<lparr>lm_held := (lm_held st)(ls_resource l := None)\<rparr>))"

text \<open>Who holds a lease at a time: the negation of what \<open>_require_holder\<close> refuses.\<close>

definition holds :: "lease_state \<Rightarrow> rat \<Rightarrow> lease \<Rightarrow> bool" where
  "holds st now l \<longleftrightarrow> (\<exists>e. lm_held st (ls_resource l)
      = Some (ls_owner l, ls_fencing_token l, e) \<and> now < e)"

lemma require_holder_iff: "require_holder now st l = Inr u \<longleftrightarrow> holds st now l"
  by (auto simp: require_holder_def holds_def split: option.split)

lemma require_holder_not:
  "\<not> holds st now l \<Longrightarrow> require_holder now st l = Inl (LeaseNotHeld (ls_owner l) (ls_resource l))"
  by (auto simp: require_holder_def holds_def split: option.split)

lemma lease_renew_eq:
  "lease_renew now now' st l ttl =
     (if holds st now l
      then Inr (st\<lparr>lm_held := (lm_held st)
                     (ls_resource l \<mapsto> (ls_owner l, ls_fencing_token l, now' + ttl))\<rparr>,
                 l\<lparr>ls_ttl_seconds := ttl\<rparr>)
      else Inl (LeaseNotHeld (ls_owner l) (ls_resource l)))"
  using require_holder_iff [of now st l "()"] require_holder_not [of st now l]
  by (auto simp: lease_renew_def)

lemma lease_release_eq:
  "lease_release now st l =
     (if holds st now l then Inr (st\<lparr>lm_held := (lm_held st)(ls_resource l := None)\<rparr>)
      else Inl (LeaseNotHeld (ls_owner l) (ls_resource l)))"
  using require_holder_iff [of now st l "()"] require_holder_not [of st now l]
  by (auto simp: lease_release_def)

text \<open>
  Histories: each step carries the time of its first clock reading, and time does not run
  backwards.  An event records the lease granted, if any.
\<close>

inductive lease_step ::
  "rat \<times> lease_state \<Rightarrow> lease option \<Rightarrow> rat \<times> lease_state \<Rightarrow> bool" where
  ls_acquire: "t \<le> now \<Longrightarrow> lease_acquire now st r owner ttl = (st', granted) \<Longrightarrow>
     lease_step (t, st) granted (now, st')"
| ls_renew: "t \<le> now \<Longrightarrow> now \<le> now' \<Longrightarrow> lease_renew now now' st l ttl = Inr (st', l') \<Longrightarrow>
     lease_step (t, st) None (now', st')"
| ls_release: "t \<le> now \<Longrightarrow> lease_release now st l = Inr st' \<Longrightarrow>
     lease_step (t, st) None (now, st')"
| ls_wait: "t \<le> now \<Longrightarrow> lease_step (t, st) None (now, st)"

inductive lease_run :: "lease list \<Rightarrow> rat \<times> lease_state \<Rightarrow> bool" where
  lr_init: "lease_run [] (t, lease_init)"
| lr_step: "lease_run gs c \<Longrightarrow> lease_step c g c' \<Longrightarrow>
     lease_run (case g of None \<Rightarrow> gs | Some l \<Rightarrow> gs @ [l]) c'"

definition lease_inv :: "lease_state \<Rightarrow> bool" where
  "lease_inv st \<longleftrightarrow> (\<forall>r h k e. lm_held st r = Some (h, k, e) \<longrightarrow> k < lm_token st)"

lemma lease_inv_init: "lease_inv lease_init"
  by (simp add: lease_inv_def lease_init_def)

lemma lease_step_inv: "lease_step c g c' \<Longrightarrow> lease_inv (snd c) \<Longrightarrow> lease_inv (snd c')"
  by (induction rule: lease_step.induct)
    (fastforce simp: lease_inv_def lease_acquire_def lease_renew_eq lease_release_eq Let_def
      holds_def split: if_splits option.splits)+

lemma lease_step_token:
  "lease_step c g c' \<Longrightarrow> lm_token (snd c') =
     (case g of None \<Rightarrow> lm_token (snd c) | Some l \<Rightarrow> Suc (lm_token (snd c)))"
  by (induction rule: lease_step.induct)
    (auto simp: lease_acquire_def lease_renew_eq lease_release_eq Let_def split: if_splits)

lemma lease_step_grant:
  "lease_step c (Some l) c' \<Longrightarrow> ls_fencing_token l = lm_token (snd c)
     \<and> (\<exists>ttl. lm_held (snd c') (ls_resource l)
          = Some (ls_owner l, ls_fencing_token l, fst c' + ttl))
     \<and> (\<forall>k. holds (snd c) (fst c') k \<longrightarrow> ls_resource k = ls_resource l
          \<longrightarrow> ls_owner k = ls_owner l)"
  by (cases rule: lease_step.cases, assumption)
    (auto simp: lease_acquire_def Let_def holds_def split: if_splits)

lemma lease_run_inv:
  "lease_run gs c \<Longrightarrow> lease_inv (snd c) \<and> sorted_wrt (<) (map ls_fencing_token gs)
     \<and> (\<forall>l\<in>set gs. ls_fencing_token l < lm_token (snd c))"
proof (induction rule: lease_run.induct)
  case (lr_step gs c g c')
  then show ?case
    using lease_step_inv [OF lr_step(2)] lease_step_token [OF lr_step(2)]
      lease_step_grant [of c _ c']
    by (cases g) (force simp: sorted_wrt_append)+
qed (simp add: lease_inv_init)

text \<open>A lease that is not held is never held again: its token is not reissued.\<close>

lemma lease_step_lost:
  assumes "lease_step c g c'" and "\<not> holds (snd c) (fst c) l"
    and "ls_fencing_token l < lm_token (snd c)"
  shows "\<not> holds (snd c') (fst c') l"
  using assms
  by (induction rule: lease_step.induct)
    (auto simp: lease_acquire_def lease_renew_eq lease_release_eq Let_def holds_def
      split: if_splits)

lemma lease_steps_lost:
  assumes "(\<lambda>c c'. \<exists>g. lease_step c g c')\<^sup>*\<^sup>* c c'" and "\<not> holds (snd c) (fst c) l"
    and "ls_fencing_token l < lm_token (snd c)"
  shows "\<not> holds (snd c') (fst c') l \<and> ls_fencing_token l < lm_token (snd c')"
  using assms(1)
proof induction
  case (step c1 c2)
  then obtain g where g: "lease_step c1 g c2" by blast
  show ?case
    using lease_step_lost [OF g] lease_step_token [OF g] step.IH by (cases g) auto
qed (use assms in simp)

text \<open>
  C12. Fencing: over any history of acquires, renewals, releases and expiries, the tokens
  granted are strictly increasing, across resources and owners; at any time at most one
  owner and token hold a resource; and an acquire of a resource that another owner holds
  is refused and changes nothing.
\<close>

theorem lease_fencing:
  assumes "lease_run grants (t, st)"
  shows "sorted_wrt (<) (map ls_fencing_token grants)
    \<and> (\<forall>now k l. holds st now k \<longrightarrow> holds st now l \<longrightarrow> ls_resource k = ls_resource l \<longrightarrow>
          ls_owner k = ls_owner l \<and> ls_fencing_token k = ls_fencing_token l)
    \<and> (\<forall>now k owner ttl. holds st now k \<longrightarrow> owner \<noteq> ls_owner k \<longrightarrow>
          lease_acquire now st (ls_resource k) owner ttl = (st, None))"
  using lease_run_inv [OF assms]
  by (auto simp: holds_def lease_acquire_def)

text \<open>
  A lost lease stays lost: once a granted lease is no longer held - it was released,
  it expired, or another acquire replaced it - then at any later time, whatever happens
  in between, renewing and releasing it raise \<open>LeaseNotHeld\<close>, even after its owner
  acquires the same resource again.
\<close>

theorem lost_lease_is_never_accepted:
  assumes "lease_run grants (t, st)" and "l \<in> set grants" and "\<not> holds st t l"
    and "(\<lambda>c c'. \<exists>g. lease_step c g c')\<^sup>*\<^sup>* (t, st) (t', st')"
  shows "lease_renew t' now' st' l ttl = Inl (LeaseNotHeld (ls_owner l) (ls_resource l))
    \<and> lease_release t' st' l = Inl (LeaseNotHeld (ls_owner l) (ls_resource l))"
  using lease_steps_lost [OF assms(4), of l] lease_run_inv [OF assms(1)] assms(2,3)
  by (simp add: lease_renew_eq lease_release_eq)

section \<open>The lease port\<close>

text \<open>
  What the clients of \<open>LeasePort\<close> rely on, at one time: a granted lease is on the
  requested resource for the requesting owner, excludes no live lease of another owner
  and leaves other resources alone; a refusal means another owner holds the resource;
  a held lease can be released.
\<close>

locale lease_port =
  fixes acquire :: "'l \<Rightarrow> string \<Rightarrow> string \<Rightarrow> rat \<Rightarrow> 'l \<times> lease option"
    and release :: "'l \<Rightarrow> lease \<Rightarrow> lease_error + 'l"
    and held_by :: "'l \<Rightarrow> lease \<Rightarrow> bool"
  assumes acquire_Some: "acquire st r owner ttl = (st', Some l) \<Longrightarrow>
      ls_resource l = r \<and> ls_owner l = owner \<and> (0 < ttl \<longrightarrow> held_by st' l)
      \<and> (\<forall>k. held_by st k \<longrightarrow> ls_resource k = r \<longrightarrow> ls_owner k = owner)
      \<and> (\<forall>k. ls_resource k \<noteq> r \<longrightarrow> held_by st' k = held_by st k)"
    and acquire_None: "acquire st r owner ttl = (st', None) \<Longrightarrow>
      st' = st \<and> (\<exists>k. held_by st k \<and> ls_resource k = r \<and> ls_owner k \<noteq> owner)"
    and release_ok: "held_by st l \<Longrightarrow> \<exists>st'. release st l = Inr st' \<and> \<not> held_by st' l"
begin

definition free_for :: "'l \<Rightarrow> string \<Rightarrow> string \<Rightarrow> bool" where
  "free_for st r owner \<longleftrightarrow> (\<forall>k. held_by st k \<longrightarrow> ls_resource k = r \<longrightarrow> ls_owner k = owner)"

text \<open>An acquire is granted exactly when no other owner holds the resource.\<close>

lemma acquire_granted_iff:
  "(snd (acquire st r owner ttl) \<noteq> None) = free_for st r owner"
proof (cases "acquire st r owner ttl")
  case (Pair st' g)
  then show ?thesis
    using acquire_None [of st r owner ttl st'] acquire_Some [of st r owner ttl st']
    by (cases g) (auto simp: free_for_def)
qed

end

interpretation mem_lease: lease_port "lease_acquire now" "lease_release now"
    "\<lambda>st. holds st now" for now
proof unfold_locales
  fix st r owner ttl st' l
  assume "lease_acquire now st r owner ttl = (st', Some l)"
  then show "ls_resource l = r \<and> ls_owner l = owner \<and> (0 < ttl \<longrightarrow> holds st' now l)
      \<and> (\<forall>k. holds st now k \<longrightarrow> ls_resource k = r \<longrightarrow> ls_owner k = owner)
      \<and> (\<forall>k. ls_resource k \<noteq> r \<longrightarrow> holds st' now k = holds st now k)"
    by (auto simp: lease_acquire_def Let_def holds_def split: if_splits)
next
  fix st r owner ttl st'
  assume "lease_acquire now st r owner ttl = (st', None)"
  then have "st' = st" and "case lm_held st r of None \<Rightarrow> False
      | Some (holder, token, e) \<Rightarrow> now < e \<and> holder \<noteq> owner"
    by (auto simp: lease_acquire_def Let_def split: if_splits)
  then obtain h k e where "lm_held st r = Some (h, k, e)" "now < e" "h \<noteq> owner" "st' = st"
    by (auto split: option.splits)
  then show "st' = st \<and> (\<exists>k. holds st now k \<and> ls_resource k = r \<and> ls_owner k \<noteq> owner)"
    by (auto simp: holds_def intro!: exI [of _ "\<lparr>ls_resource = r, ls_owner = h,
        ls_fencing_token = k, ls_ttl_seconds = 0\<rparr>"])
qed (auto simp: lease_release_eq holds_def)

section \<open>The tenant cache\<close>

type_synonym cache = "(string \<times> string) \<rightharpoonup> (string \<times> rat)"

definition cache_get :: "rat \<Rightarrow> cache \<Rightarrow> string \<Rightarrow> string \<Rightarrow> cache \<times> string option" where
  "cache_get now c tenant key =
     (case c (tenant, key) of
        None \<Rightarrow> (c, None)
      | Some (v, expires_at) \<Rightarrow>
          if expires_at \<le> now then (c((tenant, key) := None), None) else (c, Some v))"

definition cache_set :: "rat \<Rightarrow> cache \<Rightarrow> string \<Rightarrow> string \<Rightarrow> string \<Rightarrow> rat \<Rightarrow> cache" where
  "cache_set now c tenant key v ttl = c((tenant, key) \<mapsto> (v, now + ttl))"

definition cache_delete :: "cache \<Rightarrow> string \<Rightarrow> string \<Rightarrow> cache" where
  "cache_delete c tenant key = c((tenant, key) := None)"

text \<open>The abstract view: what a reader at a time sees.\<close>

definition cache_view :: "rat \<Rightarrow> cache \<Rightarrow> (string \<times> string) \<rightharpoonup> string" where
  "cache_view now c = (\<lambda>k. case c k of None \<Rightarrow> None
     | Some (v, expires_at) \<Rightarrow> if now < expires_at then Some v else None)"

text \<open>
  The cache implements a per-tenant map with expiry: reading returns what the view
  at that time holds and never changes the view of any later time (dropping an expired
  entry is invisible); setting with a positive time to live makes exactly that tenant's
  key visible until it expires; deleting hides exactly it; no operation on one tenant
  changes what another tenant sees.
\<close>

theorem cache_is_tenant_map:
  "snd (cache_get now c tenant key) = cache_view now c (tenant, key)
    \<and> (now \<le> later \<longrightarrow> cache_view later (fst (cache_get now c tenant key)) = cache_view later c)
    \<and> cache_view later (cache_set now c tenant key v ttl) =
        (cache_view later c)((tenant, key) := (if later < now + ttl then Some v else None))
    \<and> cache_view later (cache_delete c tenant key) = (cache_view later c)((tenant, key) := None)"
  by (auto simp: cache_get_def cache_set_def cache_delete_def cache_view_def fun_eq_iff
      split: option.split)

section \<open>The rate limiter\<close>

type_synonym windows = "((string \<times> int) \<times> nat) list"

datatype limiter_error = WindowZeroDivision

text \<open>\<open>int(now // window_seconds)\<close>; a zero window raises.\<close>

definition window_of :: "rat \<Rightarrow> rat \<Rightarrow> int" where
  "window_of now window_seconds = \<lfloor>now / window_seconds\<rfloor>"

definition prune :: "windows \<Rightarrow> string \<Rightarrow> int \<Rightarrow> windows" where
  "prune ws scope window = filter (\<lambda>(k, n). \<not> (fst k = scope \<and> snd k < window)) ws"

definition rate_hit ::
  "rat \<Rightarrow> windows \<Rightarrow> string \<Rightarrow> int \<Rightarrow> rat \<Rightarrow> limiter_error + (windows \<times> bool)" where
  "rate_hit now ws scope limit window_seconds =
     (if window_seconds = 0 then Inl WindowZeroDivision
      else
       (let window = window_of now window_seconds;
            ws1 = prune ws scope window;
            n = (case map_of ws1 (scope, window) of None \<Rightarrow> 0 | Some m \<Rightarrow> m) + 1
        in Inr (AList.update (scope, window) n ws1, int n \<le> limit)))"

text \<open>A run of hits at their times, on one window width, and its answers.\<close>

fun rate_hits ::
  "rat \<Rightarrow> (rat \<times> string \<times> int) list \<Rightarrow> windows \<Rightarrow> bool list
    \<Rightarrow> limiter_error + (windows \<times> bool list)" where
  "rate_hits w [] ws answers = Inr (ws, answers)"
| "rate_hits w ((now, scope, limit) # hs) ws answers =
     result_bind (rate_hit now ws scope limit w)
       (\<lambda>(ws', ok). rate_hits w hs ws' (answers @ [ok]))"

text \<open>The hits of a history that fall on a scope and window.\<close>

definition hits_in :: "rat \<Rightarrow> (rat \<times> string \<times> int) list \<Rightarrow> string \<Rightarrow> int \<Rightarrow> nat" where
  "hits_in w hs scope window =
     length (filter (\<lambda>(now, s, limit). s = scope \<and> window_of now w = window) hs)"

definition window_count :: "windows \<Rightarrow> string \<Rightarrow> int \<Rightarrow> nat" where
  "window_count ws scope window = (case map_of ws (scope, window) of None \<Rightarrow> 0 | Some m \<Rightarrow> m)"

lemma map_of_prune:
  "map_of (prune ws scope window) k =
     (if fst k = scope \<and> snd k < window then None else map_of ws k)"
  by (induction ws) (auto simp: prune_def)

lemma rate_hit_count:
  assumes "0 < w" and "rate_hit now ws scope limit w = Inr (ws', ok)"
  shows "ok = (int (window_count ws scope (window_of now w)) + 1 \<le> limit)"
    and "window_of now w \<le> v \<Longrightarrow> window_count ws' s v = window_count ws s v
           + (if s = scope \<and> v = window_of now w then 1 else 0)"
  using assms by (auto simp: rate_hit_def Let_def window_count_def map_of_prune split: option.splits)

lemma rate_hit_total:
  "0 < w \<Longrightarrow> \<exists>ws' ok. rate_hit now ws scope limit w = Inr (ws', ok)"
  by (simp add: rate_hit_def Let_def)

lemma rate_hits_snoc:
  "rate_hits w (hs @ [(now, scope, limit)]) ws answers =
     result_bind (rate_hits w hs ws answers)
       (\<lambda>(ws1, as). result_bind (rate_hit now ws1 scope limit w)
          (\<lambda>(ws2, ok). Inr (ws2, as @ [ok])))"
proof (induction hs arbitrary: ws answers)
  case (Cons h hs)
  obtain t s l where h: "h = (t, s, l)" by (cases h)
  show ?case
    using Cons.IH by (cases "rate_hit t ws s l w") (auto simp: h)
qed (simp split: sum.split prod.split)

lemma window_of_mono: "0 < w \<Longrightarrow> s \<le> t \<Longrightarrow> window_of s w \<le> window_of t w"
  unfolding window_of_def by (intro floor_mono divide_right_mono) simp_all

lemma hits_in_snoc:
  "hits_in w (hs @ [(now, scope, limit)]) s v =
     hits_in w hs s v + (if s = scope \<and> window_of now w = v then 1 else 0)"
  by (simp add: hits_in_def)

text \<open>
  Fixed windows: over any run of hits whose times do not run backwards, on any mix
  of scopes, the limiter admits a hit exactly when fewer than \<open>limit\<close> hits - admitted or
  not - have already fallen on the same scope in the same window; pruning the windows of
  the past never loses a count that is still needed.
\<close>

theorem rate_limiter_counts_the_window:
  assumes "0 < w" and "sorted_wrt (\<le>) (map fst hs)"
  shows "\<exists>ws answers. rate_hits w hs [] [] = Inr (ws, answers) \<and> length answers = length hs
    \<and> (\<forall>i<length hs. answers ! i \<longleftrightarrow>
         int (hits_in w (take i hs) (fst (snd (hs ! i))) (window_of (fst (hs ! i)) w))
           < snd (snd (hs ! i)))
    \<and> (\<forall>s v. (\<forall>h\<in>set hs. window_of (fst h) w \<le> v) \<longrightarrow>
         window_count ws s v = hits_in w hs s v)"
  using assms(2)
proof (induction hs rule: rev_induct)
  case (snoc h hs)
  obtain now scope limit where h: "h = (now, scope, limit)" by (cases h)
  obtain ws answers where r: "rate_hits w hs [] [] = Inr (ws, answers)"
    and len: "length answers = length hs"
    and ans: "\<And>i. i < length hs \<Longrightarrow> answers ! i \<longleftrightarrow>
         int (hits_in w (take i hs) (fst (snd (hs ! i))) (window_of (fst (hs ! i)) w))
           < snd (snd (hs ! i))"
    and cnt: "\<And>s v. \<forall>h\<in>set hs. window_of (fst h) w \<le> v \<Longrightarrow>
         window_count ws s v = hits_in w hs s v"
    using snoc by (auto simp: sorted_wrt_append)
  obtain ws' ok where hit: "rate_hit now ws scope limit w = Inr (ws', ok)"
    using rate_hit_total [OF assms(1)] by blast
  have past: "\<forall>h\<in>set hs. window_of (fst h) w \<le> window_of now w"
    using snoc(2) assms(1) by (auto simp: sorted_wrt_append h intro: window_of_mono)
  have ok: "ok \<longleftrightarrow> int (hits_in w hs scope (window_of now w)) < limit"
    using rate_hit_count(1) [OF assms(1) hit] cnt [OF past] by auto
  have "rate_hits w (hs @ [h]) [] [] = Inr (ws', answers @ [ok])"
    using r hit by (simp add: h rate_hits_snoc)
  moreover have "\<forall>i<length (hs @ [h]). (answers @ [ok]) ! i \<longleftrightarrow>
      int (hits_in w (take i (hs @ [h])) (fst (snd ((hs @ [h]) ! i)))
        (window_of (fst ((hs @ [h]) ! i)) w)) < snd (snd ((hs @ [h]) ! i))"
    using ans ok len by (auto simp: nth_append h less_Suc_eq)
  moreover have "\<forall>s v. (\<forall>k\<in>set (hs @ [h]). window_of (fst k) w \<le> v) \<longrightarrow>
      window_count ws' s v = hits_in w (hs @ [h]) s v"
    using rate_hit_count(2) [OF assms(1) hit] cnt by (auto simp: h hits_in_snoc)
  ultimately show ?case using len by auto
qed (simp add: hits_in_def window_count_def)

section \<open>Witnesses\<close>

definition ex_lease :: lease where
  "ex_lease = \<lparr>ls_resource = ''acct'', ls_owner = ''w1'', ls_fencing_token = 1,
               ls_ttl_seconds = 5\<rparr>"

definition ex_leases :: lease_state where
  "ex_leases = fst (lease_acquire 0 lease_init ''acct'' ''w1'' 5)"

lemma ex_leases_eq: "ex_leases = \<lparr>lm_token = 2, lm_held = [''acct'' \<mapsto> (''w1'', 1, 5)]\<rparr>"
  by (simp add: ex_leases_def lease_acquire_def lease_init_def)

lemma ex_lease_run: "lease_run [ex_lease] (0, ex_leases)"
proof -
  have "lease_step (0, lease_init) (Some ex_lease) (0, ex_leases)"
    by (rule ls_acquire [of _ _ _ "''acct''" "''w1''" 5])
      (simp_all add: ex_leases_eq lease_acquire_def lease_init_def ex_lease_def)
  from lr_step [OF lr_init this] show ?thesis by simp
qed

lemma ex_lease_run_expired: "lease_run [ex_lease] (9, ex_leases)"
  using lr_step [OF ex_lease_run ls_wait [of 0 9 ex_leases]] by simp

theorem lease_fencing_witness:
  "lease_acquire 3 ex_leases ''acct'' ''w2'' 5 = (ex_leases, None)"
proof -
  have "holds ex_leases 3 ex_lease"
    by (simp add: holds_def ex_lease_def ex_leases_eq)
  then have "\<forall>owner ttl. owner \<noteq> ls_owner ex_lease \<longrightarrow>
      lease_acquire 3 ex_leases (ls_resource ex_lease) owner ttl = (ex_leases, None)"
    using lease_fencing [OF ex_lease_run] by blast
  then show ?thesis by (simp add: ex_lease_def)
qed

theorem lost_lease_is_never_accepted_witness:
  "lease_release 9 ex_leases ex_lease = Inl (LeaseNotHeld ''w1'' ''acct'')"
proof -
  have "\<not> holds ex_leases 9 ex_lease"
    by (simp add: holds_def ex_lease_def ex_leases_eq)
  from lost_lease_is_never_accepted [OF ex_lease_run_expired _ this, of 9 ex_leases]
  show ?thesis by (simp add: ex_lease_def)
qed

theorem cache_is_tenant_map_witness:
  "cache_view 4 (fst (cache_get 3 [(''t'', ''k'') \<mapsto> (''v'', 2)] ''t'' ''k'')) =
     cache_view 4 [(''t'', ''k'') \<mapsto> (''v'', 2)]"
  using cache_is_tenant_map [of 3 "[(''t'', ''k'') \<mapsto> (''v'', 2)]" "''t''" "''k''" 4] by simp

theorem rate_limiter_counts_the_window_witness:
  "\<exists>ws answers. rate_hits 1 [(1, ''s'', 1), (1, ''s'', 1), (2, ''s'', 1)] [] []
     = Inr (ws, answers) \<and> answers ! 0 \<and> \<not> answers ! 1 \<and> answers ! 2"
proof -
  let ?hs = "[(1, ''s'', 1), (1, ''s'', 1), (2, ''s'', 1)] :: (rat \<times> string \<times> int) list"
  obtain ws answers where r: "rate_hits 1 ?hs [] [] = Inr (ws, answers)"
    and a: "\<forall>i<length ?hs. answers ! i \<longleftrightarrow>
         int (hits_in 1 (take i ?hs) (fst (snd (?hs ! i))) (window_of (fst (?hs ! i)) 1))
           < snd (snd (?hs ! i))"
    using rate_limiter_counts_the_window [of 1 ?hs] by auto
  show ?thesis
    using a [rule_format, of 0] a [rule_format, of 1] a [rule_format, of 2] r
    by (simp add: hits_in_def window_of_def)
qed

end
