(* ===== verification/Runtime_Admission.thy ===== *)
theory Runtime_Admission
  imports Runtime_Lease "HOL-Library.Sublist"
begin

text \<open>
  Backpressure (\<open>core/runtime/admission.py\<close>): the queue-depth gauge, the admission
  controller over any rate-limit port (its \<open>hit\<close> is an argument), the concurrency limiter
  and the fair scheduler.  Depths and in-flight counts are integers read with the dict's
  default; the scheduler's tiers are ordered dictionaries and its deques lists.
\<close>

section \<open>Queue depth and admission\<close>

record admission_decision =
  ad_admitted :: bool
  ad_reason :: "string option"

type_synonym counters = "string \<rightharpoonup> int"

definition counter_get :: "counters \<Rightarrow> string \<Rightarrow> int" where
  "counter_get c k = (case c k of None \<Rightarrow> 0 | Some n \<Rightarrow> n)"

definition gauge_depth :: "counters \<Rightarrow> string \<Rightarrow> int" where
  "gauge_depth c stream = counter_get c stream"

definition gauge_enqueued :: "counters \<Rightarrow> string \<Rightarrow> counters" where
  "gauge_enqueued c stream = c(stream \<mapsto> counter_get c stream + 1)"

definition gauge_settled :: "counters \<Rightarrow> string \<Rightarrow> counters" where
  "gauge_settled c stream =
     (let current = counter_get c stream
      in if 0 < current then c(stream \<mapsto> current - 1) else c)"

definition admission_admit ::
  "('r \<Rightarrow> string \<Rightarrow> int \<Rightarrow> rat \<Rightarrow> 'e + ('r \<times> bool)) \<Rightarrow> 'r \<Rightarrow> counters \<Rightarrow> string \<Rightarrow> string
    \<Rightarrow> int option \<Rightarrow> int option \<Rightarrow> rat \<Rightarrow> 'e + (('r \<times> counters) \<times> admission_decision)" where
  "admission_admit hit r gauge stream tenant max_queue_depth tenant_limit window_seconds =
     (let window_hit =
        (case tenant_limit of
           None \<Rightarrow> Inr (r, True)
         | Some limit \<Rightarrow> hit r (''admission:'' @ tenant) limit window_seconds)
      in if (case max_queue_depth of None \<Rightarrow> False | Some d \<Rightarrow> d \<le> gauge_depth gauge stream)
         then Inr ((r, gauge), \<lparr>ad_admitted = False, ad_reason = Some (''queue_limit:'' @ stream)\<rparr>)
         else result_bind window_hit
           (\<lambda>(r', ok). if \<not> ok
              then Inr ((r', gauge),
                \<lparr>ad_admitted = False, ad_reason = Some (''tenant_window:'' @ tenant)\<rparr>)
              else Inr ((r', gauge_enqueued gauge stream),
                \<lparr>ad_admitted = True, ad_reason = None\<rparr>)))"

section \<open>Concurrency\<close>

definition in_flight :: "counters \<Rightarrow> string \<Rightarrow> int" where
  "in_flight c scope = counter_get c scope"

definition try_start :: "counters \<Rightarrow> string \<Rightarrow> int \<Rightarrow> counters \<times> bool" where
  "try_start c scope limit =
     (let current = counter_get c scope
      in if limit \<le> current then (c, False) else (c(scope \<mapsto> current + 1), True))"

definition finish :: "counters \<Rightarrow> string \<Rightarrow> counters" where
  "finish c scope =
     (let current = counter_get c scope
      in if 0 < current then c(scope \<mapsto> current - 1) else c)"

section \<open>The fair scheduler\<close>

type_synonym tier = "(string \<times> (nat \<times> string) list) list"

record scheduler =
  fs_seq :: nat
  fs_tiers :: "(int \<times> tier) list"
  fs_rotation :: "int \<rightharpoonup> string list"

definition scheduler_init :: scheduler where
  "scheduler_init = \<lparr>fs_seq = 1, fs_tiers = [], fs_rotation = Map.empty\<rparr>"

definition tier_at :: "scheduler \<Rightarrow> int \<Rightarrow> tier" where
  "tier_at s p = (case map_of (fs_tiers s) p of None \<Rightarrow> [] | Some t \<Rightarrow> t)"

definition rotation_at :: "scheduler \<Rightarrow> int \<Rightarrow> string list" where
  "rotation_at s p = (case fs_rotation s p of None \<Rightarrow> [] | Some r \<Rightarrow> r)"

definition tenant_queue :: "tier \<Rightarrow> string \<Rightarrow> (nat \<times> string) list" where
  "tenant_queue t tenant = (case map_of t tenant of None \<Rightarrow> [] | Some q \<Rightarrow> q)"

definition submit :: "scheduler \<Rightarrow> string \<Rightarrow> string \<Rightarrow> int \<Rightarrow> scheduler" where
  "submit s tenant item priority =
     (let tier = tier_at s priority;
          fresh = map_of tier tenant = None
      in \<lparr>fs_seq = fs_seq s + 1,
          fs_tiers = AList.update priority
            (AList.update tenant (tenant_queue tier tenant @ [(fs_seq s, item)]) tier)
            (fs_tiers s),
          fs_rotation =
            (if fresh then (fs_rotation s)(priority \<mapsto> rotation_at s priority @ [tenant])
             else fs_rotation s)\<rparr>)"

definition backlog :: "scheduler \<Rightarrow> nat" where
  "backlog s = sum_list (map (\<lambda>(p, tier). sum_list (map (\<lambda>(t, q). length q) tier)) (fs_tiers s))"

text \<open>\<open>for _ in range(n)\<close> over the rotation of one tier.\<close>

fun scan_rotation ::
  "nat \<Rightarrow> string list \<Rightarrow> tier \<Rightarrow> string list \<times> (tier \<times> string \<times> string) option" where
  "scan_rotation 0 rotation tier = (rotation, None)"
| "scan_rotation (Suc n) [] tier = ([], None)"
| "scan_rotation (Suc n) (tenant # rotation) tier =
     (case tenant_queue tier tenant of
        [] \<Rightarrow> scan_rotation n (rotation @ [tenant]) tier
      | (sq, item) # q \<Rightarrow>
          (rotation @ [tenant], Some (AList.update tenant q tier, tenant, item)))"

fun next_in :: "int list \<Rightarrow> scheduler \<Rightarrow> scheduler \<times> (string \<times> string) option" where
  "next_in [] s = (s, None)"
| "next_in (p # ps) s =
     (let (rotation, picked) =
            scan_rotation (length (rotation_at s p)) (rotation_at s p) (tier_at s p);
          s' = s\<lparr>fs_rotation := (fs_rotation s)(p \<mapsto> rotation)\<rparr>
      in case picked of
           None \<Rightarrow> next_in ps s'
         | Some (tier, tenant, item) \<Rightarrow>
             (s'\<lparr>fs_tiers := AList.update p tier (fs_tiers s)\<rparr>, Some (tenant, item)))"

definition next_item :: "scheduler \<Rightarrow> scheduler \<times> (string \<times> string) option" where
  "next_item s = next_in (sort (map fst (fs_tiers s))) s"

section \<open>Admission and concurrency bounds\<close>

lemma counter_get_upd [simp]:
  "counter_get (c(k \<mapsto> n)) j = (if j = k then n else counter_get c j)"
  by (simp add: counter_get_def)

inductive limiter_run :: "string \<Rightarrow> int \<Rightarrow> nat \<Rightarrow> nat \<Rightarrow> counters \<Rightarrow> bool"
  for scope :: string and limit :: int where
  lr_zero: "limiter_run scope limit 0 0 Map.empty"
| lr_started: "limiter_run scope limit starts ends c \<Longrightarrow> try_start c scope limit = (c', True) \<Longrightarrow>
     limiter_run scope limit (Suc starts) ends c'"
| lr_refused: "limiter_run scope limit starts ends c \<Longrightarrow> try_start c scope limit = (c', False) \<Longrightarrow>
     limiter_run scope limit starts ends c'"
| lr_finished: "limiter_run scope limit starts ends c \<Longrightarrow> ends < starts \<Longrightarrow>
     limiter_run scope limit starts (Suc ends) (finish c scope)"
| lr_other_start: "limiter_run scope limit starts ends c \<Longrightarrow> other \<noteq> scope \<Longrightarrow>
     try_start c other l = (c', ok) \<Longrightarrow> limiter_run scope limit starts ends c'"
| lr_other_finish: "limiter_run scope limit starts ends c \<Longrightarrow> other \<noteq> scope \<Longrightarrow>
     limiter_run scope limit starts ends (finish c other)"

text \<open>
  C13. Concurrency ceiling: in any run in which a scope is started only with one limit
  and finished at most as often as started - other scopes doing anything in between - the
  in-flight count of the scope is exactly starts minus finishes and never exceeds the
  limit; a start is refused exactly when the ceiling is reached, and then changes nothing.
\<close>

theorem concurrency_never_exceeds_limit:
  assumes "limiter_run scope limit starts ends c" and "0 \<le> limit"
  shows "in_flight c scope = int starts - int ends \<and> 0 \<le> in_flight c scope
    \<and> in_flight c scope \<le> limit
    \<and> try_start c scope limit =
        (if in_flight c scope = limit then (c, False)
         else (c(scope \<mapsto> in_flight c scope + 1), True))"
proof -
  have "in_flight c scope = int starts - int ends \<and> 0 \<le> in_flight c scope
    \<and> in_flight c scope \<le> limit"
    using assms
    by (induction rule: limiter_run.induct)
      (auto simp: in_flight_def try_start_def finish_def Let_def counter_get_def split: if_splits)
  then show ?thesis
    by (auto simp: try_start_def in_flight_def Let_def)
qed

text \<open>
  The front door: a request over the queue limit or over the tenant's window is
  refused with a reason naming the gate and is never counted; it is admitted, without a
  reason, exactly when the queue has room and the tenant's hit (made only then) is within
  its limit, and the depth then grows by one; so the depth of a stream admitted under one
  maximum stays within it.
\<close>

theorem admission_is_explicit_and_bounded:
  assumes "admission_admit hit r gauge stream tenant (Some depth) tenant_limit w
             = Inr ((r', gauge'), d)"
  shows "(gauge_depth gauge' stream \<le> max depth (gauge_depth gauge stream))
    \<and> (\<not> ad_admitted d \<longrightarrow> gauge' = gauge
         \<and> ad_reason d \<in> {Some (''queue_limit:'' @ stream), Some (''tenant_window:'' @ tenant)})
    \<and> (ad_admitted d \<longrightarrow> ad_reason d = None \<and> gauge_depth gauge stream < depth
         \<and> gauge' = gauge(stream \<mapsto> gauge_depth gauge stream + 1)
         \<and> (\<forall>limit. tenant_limit = Some limit \<longrightarrow>
              hit r (''admission:'' @ tenant) limit w = Inr (r', True)))
    \<and> (depth \<le> gauge_depth gauge stream \<longrightarrow> \<not> ad_admitted d \<and> r' = r)"
  using assms
  by (auto simp: admission_admit_def Let_def result_bind_Inr_iff gauge_enqueued_def
      gauge_depth_def split: if_splits option.splits)

section \<open>The scheduler's invariant\<close>

definition tier_ok :: "tier \<Rightarrow> string list \<Rightarrow> bool" where
  "tier_ok tier rot \<longleftrightarrow> distinct (map fst tier) \<and> distinct rot \<and> set rot = fst ` set tier"

definition sched_inv :: "scheduler \<Rightarrow> bool" where
  "sched_inv s \<longleftrightarrow> distinct (map fst (fs_tiers s)) \<and> (\<forall>p. tier_ok (tier_at s p) (rotation_at s p))"

lemma tier_at_upd:
  "tier_at (s\<lparr>fs_tiers := AList.update p t (fs_tiers s)\<rparr>) p' = (if p' = p then t else tier_at s p')"
  by (simp add: tier_at_def)

lemma sched_inv_init: "sched_inv scheduler_init"
  by (simp add: sched_inv_def scheduler_init_def tier_at_def rotation_at_def tier_ok_def)

lemma submit_sel:
  "tier_at (submit s tenant item p) p' =
     (if p' = p then AList.update tenant (tenant_queue (tier_at s p) tenant @ [(fs_seq s, item)])
        (tier_at s p) else tier_at s p')"
  "rotation_at (submit s tenant item p) p' =
     (if p' = p \<and> map_of (tier_at s p) tenant = None then rotation_at s p @ [tenant]
      else rotation_at s p')"
  by (simp_all add: submit_def tier_at_def rotation_at_def Let_def)

lemma submit_inv [py_inv]:
  assumes "sched_inv s" shows "sched_inv (submit s tenant item p)"
proof -
  have "distinct (map fst (fs_tiers (submit s tenant item p)))"
    using assms by (simp add: sched_inv_def submit_def Let_def)
  moreover have "tier_ok (tier_at (submit s tenant item p) p') (rotation_at (submit s tenant item p) p')"
    for p'
    using assms unfolding sched_inv_def tier_ok_def
    by (auto simp: submit_sel dom_update map_of_eq_None_iff dest: map_of_SomeD)
  ultimately show ?thesis by (simp add: sched_inv_def)
qed

text \<open>The rotation scan serves the first tenant with work, or comes full circle.\<close>

lemma scan_rotation_hit:
  assumes "length pre < n" and "\<forall>u\<in>set pre. tenant_queue tier u = []"
    and "tenant_queue tier t = (sq, item) # q"
  shows "scan_rotation n (pre @ t # post) tier =
    (post @ pre @ [t], Some (AList.update t q tier, t, item))"
  using assms
proof (induction pre arbitrary: n post)
  case Nil
  then show ?case by (cases n) simp_all
next
  case (Cons u pre)
  then obtain m where "n = Suc m" "length pre < m" by (cases n) auto
  with Cons.prems Cons.IH [of m "post @ [u]"] show ?case by simp
qed

lemma scan_rotation_miss:
  "\<forall>u\<in>set rot. tenant_queue tier u = [] \<Longrightarrow> n \<le> length rot \<Longrightarrow>
    scan_rotation n rot tier = (drop n rot @ take n rot, None)"
proof (induction n arbitrary: rot)
  case (Suc n)
  then obtain u r where r: "rot = u # r" by (cases rot) auto
  with Suc.IH [of "r @ [u]"] Suc.prems show ?case by simp
qed simp

lemma scan_rotation_cases:
  obtains (miss) "\<forall>u\<in>set rot. tenant_queue tier u = []"
      "scan_rotation (length rot) rot tier = (rot, None)"
  | (hit) pre t post sq item q where "rot = pre @ t # post"
      "\<forall>u\<in>set pre. tenant_queue tier u = []" "tenant_queue tier t = (sq, item) # q"
      "scan_rotation (length rot) rot tier =
         (post @ pre @ [t], Some (AList.update t q tier, t, item))"
proof (cases "\<exists>u\<in>set rot. tenant_queue tier u \<noteq> []")
  case True
  then obtain pre t post where "rot = pre @ t # post" "tenant_queue tier t \<noteq> []"
      "\<forall>u\<in>set pre. tenant_queue tier u = []"
    using split_list_first_prop [of rot "\<lambda>u. tenant_queue tier u \<noteq> []"] by blast
  moreover then obtain sq item q where "tenant_queue tier t = (sq, item) # q"
    by (metis neq_Nil_conv surj_pair)
  ultimately show thesis
    using scan_rotation_hit [of pre "length rot" tier t sq item q post] by (intro hit) auto
next
  case False
  with scan_rotation_miss [of rot tier "length rot"] show thesis by (intro miss) auto
qed

definition tier_idle :: "scheduler \<Rightarrow> int \<Rightarrow> bool" where
  "tier_idle s p \<longleftrightarrow> (\<forall>u\<in>set (rotation_at s p). tenant_queue (tier_at s p) u = [])"

text \<open>A tier without work is passed over and left as it is.\<close>

lemma next_in_idle:
  "tier_idle s p \<Longrightarrow>
    \<exists>s'. next_in (p # ps) s = next_in ps s' \<and> fs_tiers s' = fs_tiers s
      \<and> rotation_at s' = rotation_at s \<and> fs_seq s' = fs_seq s"
  by (rule exI [of _ "s\<lparr>fs_rotation := (fs_rotation s)(p \<mapsto> rotation_at s p)\<rparr>"])
    (auto simp: tier_idle_def scan_rotation_miss rotation_at_def fun_eq_iff split: option.split)

lemma next_in_skips:
  "\<forall>p\<in>set ps. tier_idle s p \<Longrightarrow>
    \<exists>s'. next_in (ps @ qs) s = next_in qs s' \<and> fs_tiers s' = fs_tiers s
      \<and> rotation_at s' = rotation_at s \<and> fs_seq s' = fs_seq s"
proof (induction ps arbitrary: s)
  case (Cons p ps)
  obtain s1 where s1: "next_in (p # (ps @ qs)) s = next_in (ps @ qs) s1"
    "fs_tiers s1 = fs_tiers s" "rotation_at s1 = rotation_at s" "fs_seq s1 = fs_seq s"
    using next_in_idle [of s p "ps @ qs"] Cons.prems by auto
  then have "\<forall>p\<in>set ps. tier_idle s1 p"
    using Cons.prems by (simp add: tier_idle_def tier_at_def)
  then show ?case using Cons.IH [of s1] s1 by auto
qed auto

lemma next_in_serves:
  assumes "rotation_at s p = pre @ t # post" and "\<forall>u\<in>set pre. tenant_queue (tier_at s p) u = []"
    and "tenant_queue (tier_at s p) t = (sq, item) # q"
  shows "next_in (p # ps) s =
    (s\<lparr>fs_rotation := (fs_rotation s)(p \<mapsto> post @ pre @ [t]),
       fs_tiers := AList.update p (AList.update t q (tier_at s p)) (fs_tiers s)\<rparr>, Some (t, item))"
  using scan_rotation_hit [of pre "length (rotation_at s p)" "tier_at s p" t sq item q post] assms
  by simp

lemma tier_idle_all:
  assumes "sched_inv s" and "tier_idle s p"
  shows "tenant_queue (tier_at s p) u = []"
proof (cases "u \<in> set (rotation_at s p)")
  case False
  then have "map_of (tier_at s p) u = None"
    using assms(1) by (simp add: sched_inv_def tier_ok_def map_of_eq_None_iff)
  then show ?thesis by (simp add: tenant_queue_def)
qed (use assms(2) in \<open>simp add: tier_idle_def\<close>)

lemma tier_absent_idle: "p \<notin> fst ` set (fs_tiers s) \<Longrightarrow> tenant_queue (tier_at s p) u = []"
  by (simp add: tier_at_def tenant_queue_def map_of_NoneI)

text \<open>One call of \<open>next_item\<close>: nothing to serve, or the first tenant of the best tier.\<close>

lemma next_item_cases:
  assumes inv: "sched_inv s"
  obtains (none) s' where "next_item s = (s', None)" "fs_tiers s' = fs_tiers s"
      "rotation_at s' = rotation_at s" "\<And>p u. tenant_queue (tier_at s p) u = []"
  | (serve) s' p pre t post sq item q where "next_item s = (s', Some (t, item))"
      "\<And>p' u. p' < p \<Longrightarrow> tenant_queue (tier_at s p') u = []"
      "rotation_at s p = pre @ t # post" "\<forall>u\<in>set pre. tenant_queue (tier_at s p) u = []"
      "tenant_queue (tier_at s p) t = (sq, item) # q"
      "rotation_at s' = (rotation_at s)(p := post @ pre @ [t])"
      "tier_at s' = (tier_at s)(p := AList.update t q (tier_at s p))"
      "fs_tiers s' = AList.update p (AList.update t q (tier_at s p)) (fs_tiers s)"
proof (cases "\<exists>p\<in>set (sort (map fst (fs_tiers s))). \<not> tier_idle s p")
  case False
  then have idle: "\<forall>p\<in>set (sort (map fst (fs_tiers s))). tier_idle s p" by blast
  obtain s' where "next_item s = (s', None)" "fs_tiers s' = fs_tiers s"
      "rotation_at s' = rotation_at s"
    using next_in_skips [OF idle, of "[]"] by (auto simp: next_item_def)
  moreover have "tenant_queue (tier_at s p) u = []" for p u
    using idle tier_idle_all [OF inv] tier_absent_idle [of p s] by force
  ultimately show thesis by (rule none)
next
  case True
  then obtain ps p rs where ps: "sort (map fst (fs_tiers s)) = ps @ p # rs"
    and p: "\<not> tier_idle s p" and before: "\<forall>p\<in>set ps. tier_idle s p"
    using split_list_first_prop [of "sort (map fst (fs_tiers s))" "\<lambda>p. \<not> tier_idle s p"] by auto
  obtain s1 where s1: "next_item s = next_in (p # rs) s1" "fs_tiers s1 = fs_tiers s"
      "rotation_at s1 = rotation_at s" "fs_seq s1 = fs_seq s"
    using next_in_skips [OF before, of "p # rs"] by (auto simp: next_item_def ps)
  have t1: "tier_at s1 = tier_at s"
    using s1(2) by (simp add: tier_at_def fun_eq_iff)
  obtain pre t post sq item q where r: "rotation_at s p = pre @ t # post"
      "\<forall>u\<in>set pre. tenant_queue (tier_at s p) u = []"
      "tenant_queue (tier_at s p) t = (sq, item) # q"
    using p by (cases rule: scan_rotation_cases [of "rotation_at s p" "tier_at s p"])
      (auto simp: tier_idle_def)
  have best: "tenant_queue (tier_at s p') u = []" if "p' < p" for p' u
  proof (cases "p' \<in> fst ` set (fs_tiers s)")
    case True
    then have "p' \<in> set (ps @ p # rs)"
      by (simp only: ps [symmetric] set_sort) simp
    moreover have "\<forall>x\<in>set rs. p \<le> x"
      using sorted_sort [of "map fst (fs_tiers s)"] unfolding ps by (simp add: sorted_append)
    ultimately have "p' \<in> set ps" using that by auto
    then show ?thesis using before tier_idle_all [OF inv] by blast
  qed (rule tier_absent_idle)
  have "next_item s =
    (s1\<lparr>fs_rotation := (fs_rotation s1)(p \<mapsto> post @ pre @ [t]),
       fs_tiers := AList.update p (AList.update t q (tier_at s p)) (fs_tiers s)\<rparr>, Some (t, item))"
    unfolding s1(1) using next_in_serves [of s1 p pre t post sq item q rs] r
    by (simp add: s1 t1)
  then show thesis
    by (rule serve [where p = p and pre = pre and post = post and sq = sq and q = q])
      (use r best s1(3) in \<open>auto simp: rotation_at_def tier_at_def fun_eq_iff\<close>)
qed

inductive sched_reachable :: "scheduler \<Rightarrow> bool" where
  sr_init: "sched_reachable scheduler_init"
| sr_submit: "sched_reachable s \<Longrightarrow> sched_reachable (submit s tenant item p)"
| sr_next: "sched_reachable s \<Longrightarrow> next_item s = (s', r) \<Longrightarrow> sched_reachable s'"

lemma next_item_inv:
  assumes inv: "sched_inv s" and r: "next_item s = (s', r)"
  shows "sched_inv s'"
  using inv
proof (cases rule: next_item_cases)
  case (none s1)
  then show ?thesis
    using inv r by (simp add: sched_inv_def tier_at_def)
next
  case (serve s1 p pre t post sq item q)
  have "t \<in> fst ` set (tier_at s p)"
    using serve(5) by (auto simp: tenant_queue_def split: option.splits dest!: map_of_SomeD
        intro: rev_image_eqI)
  then have keys: "fst ` set (AList.update t q (tier_at s p)) = fst ` set (tier_at s p)"
    by (auto simp: dom_update)
  have ok: "tier_ok (tier_at s p) (rotation_at s p)"
    using inv by (simp add: sched_inv_def)
  have "set (post @ pre @ [t]) = set (rotation_at s p)"
    and "distinct (post @ pre @ [t]) = distinct (rotation_at s p)"
    using serve(3) by auto
  with ok keys have "tier_ok (AList.update t q (tier_at s p)) (post @ pre @ [t])"
    unfolding tier_ok_def by (simp only: distinct_update simp_thms)
  then show ?thesis
    using inv r serve by (auto simp: sched_inv_def)
qed

lemma sched_reachable_inv: "sched_reachable s \<Longrightarrow> sched_inv s"
  by (induction rule: sched_reachable.induct) (blast intro: sched_inv_init py_inv next_item_inv)+

lemma tenant_queue_update:
  "tenant_queue (AList.update t q tier) u = (if u = t then q else tenant_queue tier u)"
  by (simp add: tenant_queue_def)

text \<open>
  Strict priority, first in first out: a call answers nothing exactly when no tenant
  has work in any tier; otherwise it takes the oldest item of one tenant in the tier of
  the lowest priority number that has work, and leaves every other queue as it was.
\<close>

theorem scheduler_serves_best_tier:
  assumes "sched_reachable s"
  shows "case next_item s of
      (s', None) \<Rightarrow> (\<forall>p u. tenant_queue (tier_at s p) u = []) \<and> fs_tiers s' = fs_tiers s
    | (s', Some (t, item)) \<Rightarrow> \<exists>p sq q. tenant_queue (tier_at s p) t = (sq, item) # q
        \<and> (\<forall>p'<p. \<forall>u. tenant_queue (tier_at s p') u = [])
        \<and> (\<forall>p' u. tenant_queue (tier_at s' p') u =
             (if p' = p \<and> u = t then q else tenant_queue (tier_at s p') u))"
  using sched_reachable_inv [OF assms]
proof (cases rule: next_item_cases)
  case (serve s' p pre t post sq item q)
  then show ?thesis
    by (auto simp: tenant_queue_update intro!: exI [of _ p])
qed auto

text \<open>One call while \<open>t\<close> waits in the best tier: it serves \<open>t\<close> or a tenant in front of it.\<close>

lemma next_item_rotates:
  assumes "sched_inv s" and "rotation_at s p = pre @ t # post"
    and "tenant_queue (tier_at s p) t \<noteq> []"
    and "\<And>p' u. p' < p \<Longrightarrow> tenant_queue (tier_at s p') u = []"
  obtains s' item where "next_item s = (s', Some (t, item))"
  | s' u item pre0 mid post' where "next_item s = (s', Some (u, item))" and "u \<noteq> t"
      and "pre = pre0 @ u # mid" and "rotation_at s' p = mid @ t # post'"
      and "tenant_queue (tier_at s' p) t = tenant_queue (tier_at s p) t"
      and "\<And>p' u. p' < p \<Longrightarrow> tenant_queue (tier_at s' p') u = []"
  using assms(1)
proof (cases rule: next_item_cases)
  case (none s')
  then show thesis using assms(3) by simp
next
  case (serve s' p0 pre0 u post0 sq item q)
  have "p0 = p"
    using serve(2,5) assms(3,4) by (metis linorder_neqE list.discI)
  have split: "pre @ t # post = pre0 @ u # post0"
    using assms(2) serve(3) \<open>p0 = p\<close> by simp
  have "t \<notin> set pre0"
    using serve(4) assms(3) \<open>p0 = p\<close> by blast
  with split have "length pre0 \<le> length pre"
    by (metis append_eq_append_conv_if in_set_conv_decomp linorder_not_le nth_append_length
        nth_mem nth_append)
  show thesis
  proof (cases "u = t")
    case True
    with serve(1) that(1) show thesis by simp
  next
    case False
    obtain us where us: "pre = pre0 @ us" "us @ t # post = u # post0"
      using split \<open>length pre0 \<le> length pre\<close> by (auto simp: append_eq_append_conv2)
    with False obtain mid where pre: "pre = pre0 @ u # mid" and post0: "post0 = mid @ t # post"
      by (cases us) auto
    have "rotation_at s' p = mid @ t # (post @ pre0 @ [u])"
      using serve(6) post0 \<open>p0 = p\<close> by simp
    moreover have "tenant_queue (tier_at s' p) t = tenant_queue (tier_at s p) t"
      using serve(7) False \<open>p0 = p\<close> by (simp add: tenant_queue_update)
    moreover have "tenant_queue (tier_at s' p') v = []" if "p' < p" for p' v
      using serve(7) \<open>p0 = p\<close> assms(4) that by simp
    ultimately show thesis
      using that(2) [OF serve(1) False pre] by blast
  qed
qed

text \<open>
  The calls of one period and whom each served, with submissions of any tenant in between, none of
  them to a tier better than \<open>p\<close>.
\<close>

inductive sched_period :: "int \<Rightarrow> scheduler \<Rightarrow> string option list \<Rightarrow> scheduler \<Rightarrow> bool"
  for p :: int and s :: scheduler where
  sp_start: "sched_period p s [] s"
| sp_submit: "sched_period p s served s1 \<Longrightarrow> p \<le> priority \<Longrightarrow>
     sched_period p s served (submit s1 tenant item priority)"
| sp_call: "sched_period p s served s1 \<Longrightarrow> next_item s1 = (s2, r) \<Longrightarrow>
     sched_period p s (served @ [map_option fst r]) s2"

definition waits_behind :: "int \<Rightarrow> string \<Rightarrow> string list \<Rightarrow> scheduler \<Rightarrow> bool" where
  "waits_behind p t pre s \<longleftrightarrow> sched_inv s \<and> tenant_queue (tier_at s p) t \<noteq> []
     \<and> (\<exists>post. rotation_at s p = pre @ t # post)
     \<and> (\<forall>p'<p. \<forall>u. tenant_queue (tier_at s p') u = [])"

lemma waits_behind_submit:
  assumes "waits_behind p t pre s" and "p \<le> priority"
  shows "waits_behind p t pre (submit s tenant item priority)"
proof -
  have "tenant_queue (tier_at (submit s tenant item priority) p) t \<noteq> []"
    using assms(1) by (auto simp: waits_behind_def submit_sel tenant_queue_update)
  moreover have "\<exists>post. rotation_at (submit s tenant item priority) p = pre @ t # post"
    using assms(1) by (auto simp: waits_behind_def submit_sel)
  ultimately show ?thesis
    using assms submit_inv [of s] by (simp add: waits_behind_def submit_sel)
qed

lemma subseq_appended: "subseq xs ys \<Longrightarrow> subseq xs (ys @ zs)"
  by (rule subseq_order.order_trans [of _ ys]) auto

lemma sched_period_waits:
  assumes "sched_period p s served s'" and "waits_behind p t pre s"
  shows "Some t \<in> set served \<and> subseq (takeWhile (\<lambda>c. c \<noteq> Some t) served) (map Some pre)
    \<or> Some t \<notin> set served \<and>
      (\<exists>used pre'. pre = used @ pre' \<and> subseq served (map Some used) \<and> waits_behind p t pre' s')"
  using assms(1)
proof (induction rule: sched_period.induct)
  case sp_start
  show ?case using assms(2) by auto
next
  case (sp_submit served s1 priority tenant item)
  then show ?case by (blast intro: waits_behind_submit)
next
  case (sp_call served s1 s2 r)
  show ?case
  proof (cases "Some t \<in> set served")
    case True
    with sp_call.IH show ?thesis by (simp add: takeWhile_append1)
  next
    case False
    with sp_call.IH obtain used pre' where u: "pre = used @ pre'" "subseq served (map Some used)"
      and w: "waits_behind p t pre' s1" by blast
    have tw: "takeWhile (\<lambda>c. c \<noteq> Some t) (served @ c # cs) =
        served @ takeWhile (\<lambda>c. c \<noteq> Some t) (c # cs)" for c cs
      using False by (intro takeWhile_append2) auto
    from w obtain post where inv: "sched_inv s1" and rot: "rotation_at s1 p = pre' @ t # post"
      and q: "tenant_queue (tier_at s1 p) t \<noteq> []"
      and idle: "\<And>p' u. p' < p \<Longrightarrow> tenant_queue (tier_at s1 p') u = []"
      by (auto simp: waits_behind_def)
    from inv rot q idle show ?thesis
    proof (rule next_item_rotates)
      fix s3 item assume "next_item s1 = (s3, Some (t, item))"
      then have "r = Some (t, item)" using sp_call.hyps(2) by simp
      moreover have "subseq served (map Some pre)" using u by (simp add: subseq_appended)
      ultimately show ?thesis using False by (simp add: tw)
    next
      fix s3 u item pre0 mid post'
      assume n: "next_item s1 = (s3, Some (u, item))" "u \<noteq> t" "pre' = pre0 @ u # mid"
        "rotation_at s3 p = mid @ t # post'"
        "tenant_queue (tier_at s3 p) t = tenant_queue (tier_at s1 p) t"
        "\<And>p' u. p' < p \<Longrightarrow> tenant_queue (tier_at s3 p') u = []"
      then have r: "r = Some (u, item)" "s3 = s2" using sp_call.hyps(2) by simp_all
      have "pre = (used @ pre0 @ [u]) @ mid" using u(1) n(3) by simp
      moreover have "subseq (served @ [Some u]) (map Some (used @ pre0 @ [u]))"
        using u(2) by (auto intro!: list_emb_append_mono)
      moreover have "waits_behind p t mid s2"
        using n q r next_item_inv [OF inv n(1)] by (auto simp: waits_behind_def)
      moreover have "map_option fst r = Some u" "Some t \<notin> set (served @ [Some u])"
        using False n(2) r by simp_all
      ultimately show ?thesis by (metis (no_types, lifting))
    qed
  qed
qed

text \<open>
  C14. Round robin: let a tenant wait in the best tier that has work, and let calls and submissions
  follow in any order, of any tenant, none of them to a better tier.  Then before the tenant is
  served, the calls serve only tenants in front of it, each at most once and in the order of the
  tier's rotation, and no call comes back empty; so it is served within as many calls as it has
  tenants in front of it, plus one, however much the others submit.
\<close>

theorem scheduler_is_fair:
  assumes "sched_reachable s" and "rotation_at s p = pre @ t # post"
    and "tenant_queue (tier_at s p) t \<noteq> []"
    and "\<And>p' u. p' < p \<Longrightarrow> tenant_queue (tier_at s p') u = []"
    and "sched_period p s served s'"
  shows "subseq (takeWhile (\<lambda>c. c \<noteq> Some t) served) (map Some pre)
    \<and> (length pre < length served \<longrightarrow> Some t \<in> set (take (Suc (length pre)) served))"
proof -
  have "waits_behind p t pre s"
    using assms(2-4) sched_reachable_inv [OF assms(1)] by (auto simp: waits_behind_def)
  from sched_period_waits [OF assms(5) this]
  have sub: "subseq (takeWhile (\<lambda>c. c \<noteq> Some t) served) (map Some pre)"
  proof (elim disjE conjE exE)
    fix used pre'
    assume "Some t \<notin> set served" "pre = used @ pre'" "subseq served (map Some used)"
    moreover from this(1) have "takeWhile (\<lambda>c. c \<noteq> Some t) served = served"
      by (auto simp: takeWhile_eq_all_conv)
    ultimately show ?thesis by (simp only: map_append subseq_appended)
  qed
  moreover have "Some t \<in> set (take (Suc (length pre)) served)" if "length pre < length served"
  proof (rule ccontr)
    assume "Some t \<notin> set (take (Suc (length pre)) served)"
    then have "takeWhile (\<lambda>c. c \<noteq> Some t) served = take (Suc (length pre)) served
        @ takeWhile (\<lambda>c. c \<noteq> Some t) (drop (Suc (length pre)) served)"
      using takeWhile_append2 [of "take (Suc (length pre)) served" "\<lambda>c. c \<noteq> Some t"
          "drop (Suc (length pre)) served"] by auto
    then have "Suc (length pre) \<le> length (takeWhile (\<lambda>c. c \<noteq> Some t) served)"
      using that by simp
    with list_emb_length [OF sub] show False by simp
  qed
  ultimately show ?thesis by blast
qed

section \<open>Witnesses\<close>

theorem concurrency_never_exceeds_limit_witness:
  "in_flight [''p'' \<mapsto> 1] ''p'' = 1 \<and> try_start [''p'' \<mapsto> 1] ''p'' 1 = ([''p'' \<mapsto> 1], False)"
proof -
  have "limiter_run ''p'' 1 (Suc 0) 0 [''p'' \<mapsto> 1]"
    by (rule lr_started [OF lr_zero]) (simp add: try_start_def counter_get_def)
  from concurrency_never_exceeds_limit [OF this] show ?thesis by simp
qed

theorem admission_is_explicit_and_bounded_witness:
  "gauge_depth [''s'' \<mapsto> 2] ''s'' \<le> 2"
proof -
  have "admission_admit (\<lambda>r scope limit w. Inr (r, True)) () [''s'' \<mapsto> 1] ''s'' ''t'' (Some 2)
      (Some 5) 1 = (Inr (((), [''s'' \<mapsto> 2]), \<lparr>ad_admitted = True, ad_reason = None\<rparr>)
        :: limiter_error + ((unit \<times> counters) \<times> admission_decision))"
    by (simp add: admission_admit_def gauge_depth_def gauge_enqueued_def counter_get_def)
  from admission_is_explicit_and_bounded [OF this] show ?thesis
    by (simp add: gauge_depth_def counter_get_def)
qed

definition ex_sched :: scheduler where
  "ex_sched = submit (submit (submit scheduler_init ''a'' ''a1'' 0) ''a'' ''a2'' 0) ''b'' ''b1'' 0"

lemma ex_sched_reachable: "sched_reachable ex_sched"
  unfolding ex_sched_def by (intro sr_submit sr_init)

lemma ex_sched_eq:
  "fs_tiers ex_sched = [(0, [(''a'', [(1, ''a1''), (2, ''a2'')]), (''b'', [(3, ''b1'')])])]"
  "fs_rotation ex_sched = [0 \<mapsto> [''a'', ''b'']]"
  by (simp_all add: ex_sched_def submit_def scheduler_init_def tier_at_def rotation_at_def
      tenant_queue_def)

lemma ex_sched_next: "next_item ex_sched = (fst (next_item ex_sched), Some (''a'', ''a1''))"
  by (simp add: next_item_def ex_sched_eq rotation_at_def tier_at_def tenant_queue_def)

theorem scheduler_serves_best_tier_witness:
  "\<exists>p sq q. tenant_queue (tier_at ex_sched p) ''a'' = (sq, ''a1'') # q"
  using scheduler_serves_best_tier [OF ex_sched_reachable] by (subst (asm) ex_sched_next) auto

theorem scheduler_is_fair_witness:
  "\<exists>s1 r1 s2 r2. next_item ex_sched = (s1, r1) \<and> next_item (submit s1 ''c'' ''i'' 0) = (s2, r2)
     \<and> (map_option fst r1 = Some ''b'' \<or> map_option fst r2 = Some ''b'')"
proof -
  have rot: "rotation_at ex_sched 0 = [''a''] @ ''b'' # []"
    by (simp add: rotation_at_def ex_sched_eq)
  have q: "tenant_queue (tier_at ex_sched 0) ''b'' \<noteq> []"
    by (simp add: tenant_queue_def tier_at_def ex_sched_eq)
  have low: "tenant_queue (tier_at ex_sched p') u = []" if "p' < 0" for p' u
    using that by (simp add: tenant_queue_def tier_at_def ex_sched_eq)
  obtain s1 r1 where c1: "next_item ex_sched = (s1, r1)" by fastforce
  obtain s2 r2 where c2: "next_item (submit s1 ''c'' ''i'' 0) = (s2, r2)" by fastforce
  have "sched_period 0 ex_sched ((([] @ [map_option fst r1])) @ [map_option fst r2]) s2"
    by (intro sp_call [OF _ c2] sp_submit [where priority = 0] sp_call [OF sp_start c1]) simp
  from scheduler_is_fair [OF ex_sched_reachable rot q low this]
  have "Some ''b'' \<in> set [map_option fst r1, map_option fst r2]" by simp
  then have "map_option fst r1 = Some ''b'' \<or> map_option fst r2 = Some ''b''"
    unfolding set_simps insert_iff empty_iff by (metis (full_types))
  with c1 c2 show ?thesis by blast
qed

end
