(* ===== verification/Provider_Domain.thy ===== *)
theory Provider_Domain
  imports Prelude
begin

text \<open>
  The data of models, providers and accounts: the closed sets and records of
  \<open>core/contracts/domain.py\<close> and \<open>core/contracts/provider.py\<close>, with the validations a
  record must pass to exist (length bounds, non-empty lists, the two cross-field
  validators).  A constructor that several enumerations share carries its enumeration's
  name in front.
\<close>

section \<open>Closed sets\<close>

datatype model_tier = TIER_FAST | TIER_MEDIUM | TIER_MAX | TIER_CUSTOM

datatype modality = TEXT | IMAGE | AUDIO | VIDEO | CODE

datatype model_status = MODEL_ACTIVE | MODEL_DISABLED | MODEL_DEPRECATED

datatype provider_status = PROVIDER_ACTIVE | PROVIDER_DISABLED | PROVIDER_MAINTENANCE

datatype auth_type = API_KEY | OAUTH | SESSION_COOKIE | CUSTOM_AUTH

datatype binding_availability = BINDING_AVAILABLE | BINDING_UNAVAILABLE | BINDING_DEGRADED

datatype owner_type = OWNER_PLATFORM | OWNER_TENANT | OWNER_USER

datatype credential_policy = PLATFORM_ONLY | USER_ONLY | PREFER_USER | AUTO

datatype credential_status =
  CREDENTIAL_ACTIVE | CREDENTIAL_REVOKED | CREDENTIAL_EXPIRED | CREDENTIAL_INVALID

datatype account_lifecycle =
    ACCOUNT_READY | ACCOUNT_COOLDOWN | REFRESH_REQUIRED | ACCOUNT_AUTH_EXPIRED
  | ACCOUNT_INVALID | ACCOUNT_PENDING | ACCOUNT_DISABLED

datatype account_health =
  HEALTH_HEALTHY | HEALTH_DEGRADED | HEALTH_FAILED | HEALTH_UNKNOWN

datatype agent_capability_type =
    AGENT_NONE | TOOL_USING_MODEL | PROVIDER_AGENT | MANAGED_ASSISTANT | CODE_AGENT
  | RESEARCH_AGENT

datatype agent_state_model = STATELESS | THREAD | RUN | SESSION

datatype agent_tool_policy = PLATFORM_CONTROLLED | PROVIDER_CONTROLLED | HYBRID

datatype provider_operation =
    GENERATE_TEXT | GENERATE_IMAGE | TRANSCRIBE_AUDIO | SYNTHESIZE_SPEECH
  | CREATE_EMBEDDINGS | RERANK_DOCUMENTS | MODERATE_CONTENT | ANALYZE_VISION
  | RUN_PROVIDER_AGENT | UPLOAD_ASSET | DOWNLOAD_ASSET

datatype provider_health_state =
  PH_HEALTHY | PH_DEGRADED | PH_UNAVAILABLE | PH_SUSPENDED

datatype account_check_state =
  CHECK_READY | CHECK_COOLDOWN | CHECK_AUTH_EXPIRED | CHECK_INVALID

datatype rate_limit_state =
  RATE_AVAILABLE | RATE_LIMITED_STATE | RATE_COOLDOWN_UNTIL | RATE_UNKNOWN

datatype provider_error_category =
    AUTH_EXPIRED | INVALID_CREDENTIAL | PROVIDER_RATE_LIMITED | QUOTA_EXCEEDED
  | CATEGORY_MODEL_UNAVAILABLE | CATEGORY_PROVIDER_UNAVAILABLE | UNSUPPORTED_CAPABILITY
  | BAD_REQUEST | CONTENT_REJECTED | TIMEOUT | RETRYABLE_SERVER_ERROR | NON_RETRYABLE_ERROR

text \<open>The string values the Router compares against.\<close>

fun tier_value :: "model_tier \<Rightarrow> string" where
  "tier_value TIER_FAST = ''fast''"
| "tier_value TIER_MEDIUM = ''medium''"
| "tier_value TIER_MAX = ''max''"
| "tier_value TIER_CUSTOM = ''custom''"

fun modality_value :: "modality \<Rightarrow> string" where
  "modality_value TEXT = ''text''"
| "modality_value IMAGE = ''image''"
| "modality_value AUDIO = ''audio''"
| "modality_value VIDEO = ''video''"
| "modality_value CODE = ''code''"

section \<open>Entities\<close>

record agent_capability =
  ac_type :: agent_capability_type
  ac_supports_threads :: "bool option"
  ac_supports_tools :: "bool option"
  ac_supports_files :: "bool option"
  ac_supports_stateful_runs :: "bool option"
  ac_supports_streaming :: "bool option"
  ac_provider_managed_state :: "bool option"

record agent_runtime_binding =
  ar_provider_managed :: bool
  ar_state_model :: agent_state_model
  ar_tool_policy :: agent_tool_policy
  ar_file_support :: "bool option"
  ar_max_steps :: "int option"

record model =
  md_id :: uuid
  md_model_key :: string
  md_display_name :: string
  md_tier :: model_tier
  md_modalities :: "modality list"
  md_capabilities :: "string list"
  md_context_window :: "int option"
  md_quality_score :: "rat option"
  md_speed_score :: "rat option"
  md_cost_score :: "rat option"
  md_reliability_score :: "rat option"
  md_status :: model_status
  md_agent_capability :: "agent_capability option"

record provider =
  pv_id :: uuid
  pv_provider_key :: string
  pv_display_name :: string
  pv_status :: provider_status
  pv_auth_types :: "auth_type list"
  pv_supports_account_pool :: bool

record binding =
  bd_provider_id :: uuid
  bd_model_id :: uuid
  bd_provider_model_name :: string
  bd_endpoint_ref :: "string option"
  bd_availability :: binding_availability
  bd_limits_metadata :: json_object
  bd_capabilities :: json_object
  bd_agent_runtime :: "agent_runtime_binding option"

record credential =
  cr_id :: uuid
  cr_owner_type :: owner_type
  cr_owner_id :: "uuid option"
  cr_provider_id :: uuid
  cr_credential_ref :: string
  cr_status :: credential_status

record account =
  pa_id :: uuid
  pa_provider_id :: uuid
  pa_credential_id :: uuid
  pa_owner_type :: owner_type
  pa_lifecycle_state :: account_lifecycle
  pa_health_state :: account_health
  pa_cooldown_until :: "timestamp option"

section \<open>The manifest\<close>

record manifest_auth =
  mf_auth_types :: "auth_type list"
  mf_supports_refresh :: bool

record manifest_account_pool =
  mf_pool_supported :: bool
  mf_lease_required :: bool
  mf_fencing_required :: bool

record manifest_models =
  mf_discovery :: string
  mf_static_models :: "string list"

record manifest_rate_limits =
  mf_strategy :: string
  mf_dimensions :: "string list"

text \<open>The declared capability flags; all default to \<open>False\<close>.\<close>

record provider_capabilities =
  cap_chat :: bool
  cap_reasoning :: bool
  cap_code :: bool
  cap_vision_input :: bool
  cap_image_generation :: bool
  cap_audio_input :: bool
  cap_audio_output :: bool
  cap_file_upload :: bool
  cap_browser :: bool
  cap_agent_module :: bool
  cap_embeddings :: bool
  cap_rerank :: bool
  cap_moderation :: bool
  cap_tool_use :: bool

definition no_capabilities :: provider_capabilities where
  "no_capabilities =
     \<lparr>cap_chat = False, cap_reasoning = False, cap_code = False, cap_vision_input = False,
      cap_image_generation = False, cap_audio_input = False, cap_audio_output = False,
      cap_file_upload = False, cap_browser = False, cap_agent_module = False,
      cap_embeddings = False, cap_rerank = False, cap_moderation = False,
      cap_tool_use = False\<rparr>"

text \<open>\<open>bool | Literal["unknown"]\<close>, and with a further string for the state model.\<close>

datatype declared_flag = DeclaredFlag bool | FlagUnknown

datatype declared_state = DeclaredState bool | StateWord string

record manifest_agent_module =
  am_supported :: bool
  am_type :: "string option"
  am_state_model :: declared_state
  am_supports_provider_tools :: declared_flag
  am_supports_platform_tools :: declared_flag
  am_provider_managed_state :: declared_flag

record manifest_security =
  sec_provider_side_tools_allowed_by_default :: bool
  sec_requires_capability_firewall :: bool
  sec_requires_evaluation :: bool
  sec_requires_audit :: bool

record manifest =
  mf_id :: string
  mf_name :: string
  mf_version :: string
  mf_status :: string
  mf_is_template :: bool
  mf_is_functional :: bool
  mf_real_provider_required :: bool
  mf_auth :: manifest_auth
  mf_account_pool :: manifest_account_pool
  mf_capabilities :: provider_capabilities
  mf_operations :: "provider_operation list"
  mf_models :: manifest_models
  mf_rate_limits :: manifest_rate_limits
  mf_health_checks :: "string list"
  mf_errors_mapping :: string
  mf_notes :: "string list"
  mf_agent_module :: "manifest_agent_module option"
  mf_security :: "manifest_security option"

definition real_provider_declares_auth :: "manifest \<Rightarrow> bool" where
  "real_provider_declares_auth m =
     (let is_template_like = mf_is_template m \<or> mf_real_provider_required m \<or> \<not> mf_is_functional m
      in is_template_like \<or> mf_auth_types (mf_auth m) \<noteq> [])"

section \<open>Health, rate limits and errors\<close>

record provider_health =
  ph_provider_id :: string
  ph_state :: provider_health_state
  ph_accounts :: "(string \<times> account_check_state) list"
  ph_checked_at :: "timestamp option"
  ph_detail :: "string option"

record rate_limit_status =
  rl_state :: rate_limit_state
  rl_cooldown_until :: "timestamp option"

definition rate_limit_coherent :: "rate_limit_status \<Rightarrow> bool" where
  "rate_limit_coherent r \<longleftrightarrow>
     \<not> (rl_state r = RATE_COOLDOWN_UNTIL \<and> rl_cooldown_until r = None)
     \<and> \<not> (rl_state r = RATE_AVAILABLE \<and> rl_cooldown_until r \<noteq> None)"

record provider_error =
  pe_category :: provider_error_category
  pe_retryable :: bool
  pe_retry_after_ms :: "int option"
  pe_provider_code :: "string option"
  pe_safe_message :: string

record generate_request =
  gr_request_id :: uuid
  gr_tenant_id :: uuid
  gr_operation :: provider_operation
  gr_provider_model_name :: string
  gr_credential_ref :: string
  gr_account_id :: "uuid option"
  gr_payload :: json_object
  gr_timeout_ms :: "int option"

record generate_response =
  gs_request_id :: uuid
  gs_succeeded :: bool
  gs_output :: json_object
  gs_usage :: json_object
  gs_error :: "provider_error option"
  gs_latency_ms :: "int option"

section \<open>Field validation\<close>

definition bounded_str :: "string \<Rightarrow> bool" where
  "bounded_str s \<longleftrightarrow> 1 \<le> length s \<and> length s \<le> 512"

definition at_least :: "int \<Rightarrow> int option \<Rightarrow> bool" where
  "at_least n v = (case v of None \<Rightarrow> True | Some i \<Rightarrow> n \<le> i)"

definition model_valid :: "model \<Rightarrow> bool" where
  "model_valid m \<longleftrightarrow> bounded_str (md_model_key m) \<and> bounded_str (md_display_name m)
     \<and> 1 \<le> length (md_modalities m) \<and> list_all bounded_str (md_capabilities m)
     \<and> at_least 1 (md_context_window m)"

definition provider_valid :: "provider \<Rightarrow> bool" where
  "provider_valid p \<longleftrightarrow> bounded_str (pv_provider_key p) \<and> bounded_str (pv_display_name p)
     \<and> 1 \<le> length (pv_auth_types p)"

end
