(* ===== verification/Routing_Capacity.thy ===== *)
theory Routing_Capacity
  imports Provider_Domain "HOL-Library.Product_Lexorder"
begin

text \<open>
  The resource signal board, \<open>core/routing/capacity.py\<close>: cooldowns, bounded provider
  unavailability and the fixed request-per-minute window of a (provider, model) pair.
  Times are integer microseconds, so the code's float milliseconds are exact here; dates
  beyond Python's range are not modelled.  Reading an answer clears expired fields, so it
  returns the board.  Lemmas: the answer is a pure view of the board that reading never
  changes; what each recorded outcome does to it; the window admits the declared rate.
\<close>

definition DEFAULT_COOLDOWN_MS :: int where "DEFAULT_COOLDOWN_MS = 30000"
definition DEFAULT_UNAVAILABLE_MS :: int where "DEFAULT_UNAVAILABLE_MS = 60000"
definition RPM_WINDOW_SECONDS :: int where "RPM_WINDOW_SECONDS = 60"

definition COOLDOWN_CATEGORIES :: "provider_error_category set" where
  "COOLDOWN_CATEGORIES = {PROVIDER_RATE_LIMITED, QUOTA_EXCEEDED}"

definition UNAVAILABLE_CATEGORIES :: "provider_error_category set" where
  "UNAVAILABLE_CATEGORIES = {CATEGORY_PROVIDER_UNAVAILABLE, AUTH_EXPIRED, INVALID_CREDENTIAL}"

fun category_value :: "provider_error_category \<Rightarrow> string" where
  "category_value AUTH_EXPIRED = ''auth_expired''"
| "category_value INVALID_CREDENTIAL = ''invalid_credential''"
| "category_value PROVIDER_RATE_LIMITED = ''rate_limited''"
| "category_value QUOTA_EXCEEDED = ''quota_exceeded''"
| "category_value CATEGORY_MODEL_UNAVAILABLE = ''model_unavailable''"
| "category_value CATEGORY_PROVIDER_UNAVAILABLE = ''provider_unavailable''"
| "category_value UNSUPPORTED_CAPABILITY = ''unsupported_capability''"
| "category_value BAD_REQUEST = ''bad_request''"
| "category_value CONTENT_REJECTED = ''content_rejected''"
| "category_value TIMEOUT = ''timeout''"
| "category_value RETRYABLE_SERVER_ERROR = ''retryable_server_error''"
| "category_value NON_RETRYABLE_ERROR = ''non_retryable_error''"

record eligibility =
  el_eligible :: bool
  el_reason :: "string option"
  el_retry_after_ms :: "int option"

record signal_record =
  sg_cooldown_until :: "timestamp option"
  sg_unavailable_until :: "timestamp option"
  sg_last_category :: "provider_error_category option"
  sg_window_start :: "timestamp option"
  sg_rpm_used :: int
  sg_rpm_limit :: "int option"
  sg_extra :: "(string \<times> int) list"

definition new_record :: signal_record where
  "new_record = \<lparr>sg_cooldown_until = None, sg_unavailable_until = None,
     sg_last_category = None, sg_window_start = None, sg_rpm_used = 0, sg_rpm_limit = None,
     sg_extra = []\<rparr>"

record board =
  bo_cooldown_ms :: int
  bo_unavailable_ms :: int
  bo_records :: "((uuid \<times> uuid) \<times> signal_record) list"

datatype board_error = NegativeWindow

definition board_init :: "int \<Rightarrow> int \<Rightarrow> board_error + board" where
  "board_init cooldown_ms unavailable_ms =
     (if cooldown_ms < 0 \<or> unavailable_ms < 0 then Inl NegativeWindow
      else Inr \<lparr>bo_cooldown_ms = cooldown_ms, bo_unavailable_ms = unavailable_ms,
                bo_records = []\<rparr>)"

text \<open>What Python prints for an integer, an id and a date: library behaviour.\<close>

record text_env =
  tx_int :: "int \<Rightarrow> string"
  tx_uuid :: "uuid \<Rightarrow> string"
  tx_isoformat :: "timestamp \<Rightarrow> string"

definition show_category :: "provider_error_category option \<Rightarrow> string" where
  "show_category c = (case c of None \<Rightarrow> ''None'' | Some k \<Rightarrow> category_value k)"

text \<open>A declared limit is a positive integer that is not a boolean.\<close>

definition declared_rpm :: "json_object option \<Rightarrow> int option" where
  "declared_rpm limits =
     (case limits of None \<Rightarrow> None
      | Some l \<Rightarrow> (case map_of l ''rpm'' of
          Some (JInt raw) \<Rightarrow> if raw \<le> 0 then None else Some raw
        | _ \<Rightarrow> None))"

definition ms_until :: "timestamp \<Rightarrow> timestamp \<Rightarrow> int" where
  "ms_until now when = max ((when - now) div 1000) 0"

definition rpm_window :: int where
  "rpm_window = RPM_WINDOW_SECONDS * 1000000"

definition roll_window :: "signal_record \<Rightarrow> timestamp \<Rightarrow> signal_record" where
  "roll_window r now =
     (if (case sg_window_start r of None \<Rightarrow> True | Some t \<Rightarrow> rpm_window \<le> now - t)
      then r\<lparr>sg_window_start := Some now, sg_rpm_used := 0\<rparr> else r)"

text \<open>The record after reading at a time, and the answer.\<close>

definition refuse :: "string \<Rightarrow> int \<Rightarrow> eligibility" where
  "refuse reason ms = \<lparr>el_eligible = False, el_reason = Some reason, el_retry_after_ms = Some ms\<rparr>"

definition admit_now :: eligibility where
  "admit_now = \<lparr>el_eligible = True, el_reason = None, el_retry_after_ms = None\<rparr>"

text \<open>The three checks of \<open>eligibility\<close>, from the last to the first.\<close>

definition check_rpm ::
  "text_env \<Rightarrow> timestamp \<Rightarrow> int option \<Rightarrow> signal_record \<Rightarrow> signal_record \<times> eligibility" where
  "check_rpm tx now rpm_limit r =
     (case rpm_limit of
        None \<Rightarrow> (r, admit_now)
      | Some limit \<Rightarrow>
          (let r' = roll_window r now
           in if limit \<le> sg_rpm_used r'
              then (r', refuse (''rpm budget exhausted ('' @ tx_int tx (sg_rpm_used r') @ ''/''
                                @ tx_int tx limit @ '')'')
                     (ms_until now (the (sg_window_start r') + rpm_window)))
              else (r', admit_now)))"

definition check_cooldown ::
  "text_env \<Rightarrow> timestamp \<Rightarrow> int option \<Rightarrow> signal_record \<Rightarrow> signal_record \<times> eligibility" where
  "check_cooldown tx now rpm_limit r =
     (case sg_cooldown_until r of
        None \<Rightarrow> check_rpm tx now rpm_limit r
      | Some t \<Rightarrow>
          if now < t
          then (r, refuse (''cooldown ('' @ show_category (sg_last_category r) @ '')'')
                     (ms_until now t))
          else check_rpm tx now rpm_limit (r\<lparr>sg_cooldown_until := None\<rparr>))"

definition check_unavailable ::
  "text_env \<Rightarrow> timestamp \<Rightarrow> int option \<Rightarrow> signal_record \<Rightarrow> signal_record \<times> eligibility" where
  "check_unavailable tx now rpm_limit r =
     (case sg_unavailable_until r of
        None \<Rightarrow> check_cooldown tx now rpm_limit r
      | Some t \<Rightarrow>
          if now < t
          then (r, refuse (''provider unavailable ('' @ show_category (sg_last_category r) @ '')'')
                     (ms_until now t))
          else check_cooldown tx now rpm_limit (r\<lparr>sg_unavailable_until := None\<rparr>))"

definition board_eligibility ::
  "text_env \<Rightarrow> timestamp \<Rightarrow> board \<Rightarrow> uuid \<Rightarrow> uuid \<Rightarrow> json_object option \<Rightarrow> board \<times> eligibility" where
  "board_eligibility tx now b p m limits =
     (case map_of (bo_records b) (p, m) of
        None \<Rightarrow> (b, admit_now)
      | Some r \<Rightarrow>
          (let (r', e) = check_unavailable tx now (declared_rpm limits) r
           in (b\<lparr>bo_records := AList.update (p, m) r' (bo_records b)\<rparr>, e)))"

definition record_at :: "board \<Rightarrow> uuid \<Rightarrow> uuid \<Rightarrow> signal_record" where
  "record_at b p m = (case map_of (bo_records b) (p, m) of None \<Rightarrow> new_record | Some r \<Rightarrow> r)"

definition record_attempt ::
  "timestamp \<Rightarrow> board \<Rightarrow> uuid \<Rightarrow> uuid \<Rightarrow> json_object option \<Rightarrow> board" where
  "record_attempt now b p m limits =
     (let r = roll_window ((record_at b p m)\<lparr>sg_rpm_limit := declared_rpm limits\<rparr>) now
      in b\<lparr>bo_records := AList.update (p, m) (r\<lparr>sg_rpm_used := sg_rpm_used r + 1\<rparr>)
                         (bo_records b)\<rparr>)"

definition record_success :: "board \<Rightarrow> uuid \<Rightarrow> uuid \<Rightarrow> board" where
  "record_success b p m =
     (case map_of (bo_records b) (p, m) of
        None \<Rightarrow> b
      | Some r \<Rightarrow> b\<lparr>bo_records := AList.update (p, m)
          (r\<lparr>sg_cooldown_until := None, sg_unavailable_until := None, sg_last_category := None\<rparr>)
          (bo_records b)\<rparr>)"

definition record_error :: "timestamp \<Rightarrow> board \<Rightarrow> uuid \<Rightarrow> uuid \<Rightarrow> provider_error \<Rightarrow> board" where
  "record_error now b p m err =
     (if pe_category err \<in> COOLDOWN_CATEGORIES
      then
        (let wait_ms = (case pe_retry_after_ms err of None \<Rightarrow> bo_cooldown_ms b | Some w \<Rightarrow> w)
         in b\<lparr>bo_records := AList.update (p, m)
              ((record_at b p m)\<lparr>sg_cooldown_until := Some (now + wait_ms * 1000),
                                 sg_last_category := Some (pe_category err)\<rparr>) (bo_records b)\<rparr>)
      else if pe_category err \<in> UNAVAILABLE_CATEGORIES
      then b\<lparr>bo_records := AList.update (p, m)
             ((record_at b p m)\<lparr>sg_unavailable_until := Some (now + bo_unavailable_ms b * 1000),
                                sg_last_category := Some (pe_category err)\<rparr>) (bo_records b)\<rparr>
      else b)"

text \<open>\<open>snapshot\<close>: rows in the order of the printed ids.\<close>

definition snapshot_row :: "text_env \<Rightarrow> timestamp \<Rightarrow> (uuid \<times> uuid) \<times> signal_record \<Rightarrow> json_object" where
  "snapshot_row tx now x =
     (let r = snd x;
          ahead = (\<lambda>t. case t of None \<Rightarrow> False | Some u \<Rightarrow> now < (u::timestamp));
          name = (case sg_last_category r of None \<Rightarrow> JNull | Some c \<Rightarrow> JStr (category_value c));
          (state, reason, until) =
            (if ahead (sg_unavailable_until r)
             then (''unavailable'', name, sg_unavailable_until r)
             else if ahead (sg_cooldown_until r) then (''cooldown'', name, sg_cooldown_until r)
             else if (case sg_rpm_limit r of None \<Rightarrow> False | Some l \<Rightarrow> l \<le> sg_rpm_used r)
             then (''limited'', JStr ''rpm'', None)
             else (''available'', JNull, None))
      in [(''provider_id'', JStr (tx_uuid tx (fst (fst x)))),
          (''model_id'', JStr (tx_uuid tx (snd (fst x)))),
          (''state'', JStr state), (''reason'', reason),
          (''cooldown_until'', case until of None \<Rightarrow> JNull | Some t \<Rightarrow> JStr (tx_isoformat tx t)),
          (''rpm_used'', JInt (sg_rpm_used r)),
          (''rpm_limit'', case sg_rpm_limit r of None \<Rightarrow> JNull | Some l \<Rightarrow> JInt l),
          (''last_category'', name)])"

definition snapshot :: "text_env \<Rightarrow> timestamp \<Rightarrow> board \<Rightarrow> json_object list" where
  "snapshot tx now b =
     map (snapshot_row tx now)
       (sort_key (\<lambda>x. (tx_uuid tx (fst (fst x)), tx_uuid tx (snd (fst x)))) (bo_records b))"

section \<open>The view of a record\<close>

text \<open>When a pair may be used, and the budget used in the window a time falls in.\<close>

definition window_used :: "signal_record \<Rightarrow> timestamp \<Rightarrow> int" where
  "window_used r now = sg_rpm_used (roll_window r now)"

definition blocked_until :: "timestamp option \<Rightarrow> timestamp \<Rightarrow> bool" where
  "blocked_until t now = (case t of None \<Rightarrow> False | Some u \<Rightarrow> now < u)"

lemma blocked_until_simps [simp]:
  "\<not> blocked_until None now" "blocked_until (Some t) now = (now < t)"
  by (simp_all add: blocked_until_def)

definition usable :: "signal_record \<Rightarrow> int option \<Rightarrow> timestamp \<Rightarrow> bool" where
  "usable r rpm_limit now \<longleftrightarrow>
     \<not> blocked_until (sg_unavailable_until r) now \<and> \<not> blocked_until (sg_cooldown_until r) now
     \<and> (case rpm_limit of None \<Rightarrow> True | Some l \<Rightarrow> window_used r now < l)"

lemma roll_window_sel [simp]:
  "sg_cooldown_until (roll_window r now) = sg_cooldown_until r"
  "sg_unavailable_until (roll_window r now) = sg_unavailable_until r"
  "sg_last_category (roll_window r now) = sg_last_category r"
  "sg_rpm_limit (roll_window r now) = sg_rpm_limit r"
  by (simp_all add: roll_window_def)

lemma roll_window_twice:
  "now \<le> later \<Longrightarrow> sg_rpm_used (roll_window (roll_window r now) later) = sg_rpm_used (roll_window r later)
    \<or> (sg_rpm_used (roll_window r now) = 0 \<and> sg_rpm_used (roll_window r later) = 0
       \<and> sg_rpm_used (roll_window (roll_window r now) later) = 0)"
  by (auto simp: roll_window_def rpm_window_def RPM_WINDOW_SECONDS_def split: option.splits)

lemma window_used_roll: "now \<le> later \<Longrightarrow> window_used (roll_window r now) later = window_used r later"
  unfolding window_used_def using roll_window_twice [of now later r] by auto

lemma window_used_cong:
  "sg_window_start r = sg_window_start s \<Longrightarrow> sg_rpm_used r = sg_rpm_used s \<Longrightarrow>
    window_used r now = window_used s now"
  by (simp add: window_used_def roll_window_def)

lemma declared_rpm_pos: "declared_rpm limits = Some l \<Longrightarrow> 0 < l"
  by (auto simp: declared_rpm_def split: option.splits json.splits if_splits)

lemma check_rpm_view:
  "el_eligible (snd (check_rpm tx now lmt r)) =
     (case lmt of None \<Rightarrow> True | Some l \<Rightarrow> window_used r now < l)"
  "now \<le> later \<Longrightarrow> window_used (fst (check_rpm tx now lmt r)) later = window_used r later"
  "sg_cooldown_until (fst (check_rpm tx now lmt r)) = sg_cooldown_until r"
  "sg_unavailable_until (fst (check_rpm tx now lmt r)) = sg_unavailable_until r"
  by (auto simp: check_rpm_def admit_now_def refuse_def window_used_roll Let_def
      split: option.split) (auto simp: window_used_def)

lemma check_cooldown_view:
  "el_eligible (snd (check_cooldown tx now lmt r)) \<longleftrightarrow>
     \<not> blocked_until (sg_cooldown_until r) now
     \<and> (case lmt of None \<Rightarrow> True | Some l \<Rightarrow> window_used r now < l)"
  "now \<le> later \<Longrightarrow> window_used (fst (check_cooldown tx now lmt r)) later = window_used r later"
  "now \<le> later \<Longrightarrow> blocked_until (sg_cooldown_until (fst (check_cooldown tx now lmt r))) later
     = blocked_until (sg_cooldown_until r) later"
  "sg_unavailable_until (fst (check_cooldown tx now lmt r)) = sg_unavailable_until r"
proof -
  have u: "window_used (r\<lparr>sg_cooldown_until := x\<rparr>) t = window_used r t" for x t
    by (rule window_used_cong) simp_all
  show "el_eligible (snd (check_cooldown tx now lmt r)) \<longleftrightarrow>
     \<not> blocked_until (sg_cooldown_until r) now
     \<and> (case lmt of None \<Rightarrow> True | Some l \<Rightarrow> window_used r now < l)"
    by (auto simp: check_cooldown_def check_rpm_view refuse_def blocked_until_def u
        split: option.splits)
  show "now \<le> later \<Longrightarrow> window_used (fst (check_cooldown tx now lmt r)) later = window_used r later"
    by (auto simp: check_cooldown_def check_rpm_view u split: option.splits)
  show "now \<le> later \<Longrightarrow> blocked_until (sg_cooldown_until (fst (check_cooldown tx now lmt r))) later
     = blocked_until (sg_cooldown_until r) later"
    by (auto simp: check_cooldown_def check_rpm_view blocked_until_def split: option.splits)
  show "sg_unavailable_until (fst (check_cooldown tx now lmt r)) = sg_unavailable_until r"
    by (auto simp: check_cooldown_def check_rpm_view split: option.splits)
qed

lemma check_unavailable_view:
  "el_eligible (snd (check_unavailable tx now lmt r)) = usable r lmt now"
  "now \<le> later \<Longrightarrow> usable (fst (check_unavailable tx now lmt r)) lmt' later = usable r lmt' later"
proof -
  have u: "window_used (r\<lparr>sg_unavailable_until := x\<rparr>) t = window_used r t" for x t
    by (rule window_used_cong) simp_all
  show "el_eligible (snd (check_unavailable tx now lmt r)) = usable r lmt now"
    by (auto simp: check_unavailable_def check_cooldown_view refuse_def usable_def u
        split: option.splits)
  show "now \<le> later \<Longrightarrow> usable (fst (check_unavailable tx now lmt r)) lmt' later = usable r lmt' later"
    by (auto simp: check_unavailable_def check_cooldown_view usable_def u
        split: option.splits)
qed

lemma refusal_explained:
  "\<not> el_eligible (snd (check_unavailable tx now lmt r)) \<Longrightarrow>
    el_reason (snd (check_unavailable tx now lmt r)) \<noteq> None
    \<and> (\<exists>ms\<ge>0. el_retry_after_ms (snd (check_unavailable tx now lmt r)) = Some ms)"
  by (auto simp: check_unavailable_def check_cooldown_def check_rpm_def refuse_def admit_now_def
      ms_until_def Let_def split: option.splits if_splits)

lemma new_record_usable: "usable new_record (declared_rpm limits) now"
  by (auto simp: usable_def new_record_def blocked_until_def window_used_def roll_window_def
      dest: declared_rpm_pos split: option.split)

definition pair_usable ::
  "board \<Rightarrow> uuid \<Rightarrow> uuid \<Rightarrow> json_object option \<Rightarrow> timestamp \<Rightarrow> bool" where
  "pair_usable b p m limits now = usable (record_at b p m) (declared_rpm limits) now"

lemma record_at_update [simp]:
  "record_at (b\<lparr>bo_records := AList.update (p, m) r (bo_records b)\<rparr>) p' m' =
     (if (p', m') = (p, m) then r else record_at b p' m')"
  by (simp add: record_at_def)

text \<open>
  The board answers a pure question: a pair is eligible at a time exactly when no
  unexpired unavailability or cooldown stands against it and its declared
  request-per-minute budget is not used up in the current window; a refusal always says
  why and when to retry; and asking - which clears expired fields and rolls the window -
  changes the answer for no pair, limit or later time.
\<close>

theorem board_answer_is_a_view:
  assumes "board_eligibility tx now b p m limits = (b', e)"
  shows "el_eligible e = pair_usable b p m limits now
    \<and> (\<not> el_eligible e \<longrightarrow> el_reason e \<noteq> None \<and> (\<exists>ms\<ge>0. el_retry_after_ms e = Some ms))
    \<and> (\<forall>p' m' limits' later. now \<le> later \<longrightarrow>
         pair_usable b' p' m' limits' later = pair_usable b p' m' limits' later)"
proof (cases "map_of (bo_records b) (p, m)")
  case None
  then have "record_at b p m = new_record" by (simp add: record_at_def)
  with None assms show ?thesis
    by (auto simp: board_eligibility_def pair_usable_def new_record_usable admit_now_def)
next
  case (Some r)
  then have r: "record_at b p m = r" by (simp add: record_at_def)
  obtain r' where c: "check_unavailable tx now (declared_rpm limits) r = (r', e)"
    and b': "b' = b\<lparr>bo_records := AList.update (p, m) r' (bo_records b)\<rparr>"
    using assms Some by (auto simp: board_eligibility_def split: prod.splits)
  show ?thesis
    using check_unavailable_view(1) [of tx now "declared_rpm limits" r]
      check_unavailable_view(2) [of now _ tx "declared_rpm limits" r]
      refusal_explained [of tx now "declared_rpm limits" r]
    by (auto simp: c b' pair_usable_def r)
qed

text \<open>
  What an outcome does to a pair, and only to that pair: a rate-limit or quota error
  makes it ineligible until the provider's retry time (or the default) and not longer; an
  outage or credential error makes it ineligible for the bounded default window; a success
  clears both; every other error category changes nothing at all; an attempt uses one unit
  of the current window's budget.
\<close>

theorem outcomes_move_only_their_pair:
  assumes "(p', m') \<noteq> (p, m)"
  shows "record_at (record_error now b p m err) p' m' = record_at b p' m'
    \<and> record_at (record_success b p m) p' m' = record_at b p' m'
    \<and> record_at (record_attempt now b p m limits) p' m' = record_at b p' m'
    \<and> (pe_category err \<in> COOLDOWN_CATEGORIES \<longrightarrow>
        (\<forall>t. blocked_until (sg_cooldown_until (record_at (record_error now b p m err) p m)) t
          \<longleftrightarrow> t < now + (case pe_retry_after_ms err of None \<Rightarrow> bo_cooldown_ms b | Some w \<Rightarrow> w) * 1000))
    \<and> (pe_category err \<in> UNAVAILABLE_CATEGORIES \<longrightarrow>
        (\<forall>t. blocked_until (sg_unavailable_until (record_at (record_error now b p m err) p m)) t
          \<longleftrightarrow> t < now + bo_unavailable_ms b * 1000))
    \<and> (pe_category err \<notin> COOLDOWN_CATEGORIES \<union> UNAVAILABLE_CATEGORIES \<longrightarrow>
        record_error now b p m err = b)
    \<and> (\<forall>t. pair_usable (record_success b p m) p m None t)
    \<and> window_used (record_at (record_attempt now b p m limits) p m) now
        = window_used (record_at b p m) now + 1"
proof -
  have disj: "c \<notin> COOLDOWN_CATEGORIES" if "c \<in> UNAVAILABLE_CATEGORIES" for c
    using that by (auto simp: COOLDOWN_CATEGORIES_def UNAVAILABLE_CATEGORIES_def)
  have "window_used (record_at (record_attempt now b p m limits) p m) now
      = window_used (record_at b p m) now + 1"
    by (auto simp: record_attempt_def Let_def window_used_def roll_window_def rpm_window_def
        RPM_WINDOW_SECONDS_def split: option.splits)
  moreover have "pair_usable (record_success b p m) p m None t" for t
    by (auto simp: pair_usable_def record_success_def usable_def declared_rpm_def blocked_until_def
        new_record_def record_at_def split: option.split)
  ultimately show ?thesis
    using assms disj
    by (auto simp: record_error_def record_success_def record_attempt_def blocked_until_def Let_def
        split: option.split)
qed

section \<open>Witnesses\<close>

definition ex_text :: text_env where
  "ex_text = \<lparr>tx_int = (\<lambda>n. ''n''), tx_uuid = (\<lambda>i. ''u''), tx_isoformat = (\<lambda>t. ''t'')\<rparr>"

definition ex_board :: board where
  "ex_board = \<lparr>bo_cooldown_ms = 30000, bo_unavailable_ms = 60000,
     bo_records = [((7, 9), new_record\<lparr>sg_cooldown_until := Some 500\<rparr>)]\<rparr>"

theorem board_answer_is_a_view_witness:
  "\<not> el_eligible (snd (board_eligibility ex_text 100 ex_board 7 9 None))"
proof -
  have "\<not> pair_usable ex_board 7 9 None 100"
    by (simp add: pair_usable_def usable_def record_at_def ex_board_def blocked_until_def)
  then show ?thesis
    using board_answer_is_a_view [OF prod.collapse [symmetric],
        of ex_text 100 ex_board 7 9 None] by blast
qed

theorem outcomes_move_only_their_pair_witness:
  "record_at (record_success ex_board 7 9) 7 8 = record_at ex_board 7 8
    \<and> pair_usable (record_success ex_board 7 9) 7 9 None 100"
  using outcomes_move_only_their_pair [of 7 8 7 9 100 ex_board
      "\<lparr>pe_category = TIMEOUT, pe_retryable = True, pe_retry_after_ms = None,
        pe_provider_code = None, pe_safe_message = ''m''\<rparr>" None]
  by simp

end
