(* ===== verification/Provider_Registry.thy ===== *)
theory Provider_Registry
  imports Provider_Domain
begin

text \<open>
  The provider, model and binding registries and the health aggregation of
  \<open>core/providers/registry.py\<close>.  A registry is a dictionary by key and a map by id; a
  call that raises between two statements returns the state it leaves behind.  Lemmas: the
  two indexes agree under register, remove and same-id replacement; routing and execution
  eligibility; what a replacement under another entry's id does; health precedence.
\<close>

section \<open>Providers\<close>

definition TEMPLATE_DISABLED_STATUS :: string where
  "TEMPLATE_DISABLED_STATUS = ''template_disabled''"

record registered_provider =
  rp_provider :: provider
  rp_manifest :: manifest

definition is_template :: "registered_provider \<Rightarrow> bool" where
  "is_template e \<longleftrightarrow> mf_is_template (rp_manifest e)
     \<or> mf_status (rp_manifest e) = TEMPLATE_DISABLED_STATUS
     \<or> mf_real_provider_required (rp_manifest e)"

definition is_executable :: "registered_provider \<Rightarrow> bool" where
  "is_executable e \<longleftrightarrow> mf_is_functional (rp_manifest e) \<and> \<not> is_template e"

definition is_routable :: "registered_provider \<Rightarrow> bool" where
  "is_routable e \<longleftrightarrow> pv_status (rp_provider e) = PROVIDER_ACTIVE \<and> is_executable e"

datatype boundary_error =
    ProviderNotRegistered string
  | ProviderIdNotRegistered uuid
  | ProviderNotEligible ineligibility string
  | ModelNotRegistered string
  | ModelIdNotRegistered uuid
  | BindingNotFound uuid uuid
  | DuplicateRegistration string
  | DuplicateBinding uuid uuid
  | IndexKeyError uuid   \<comment> \<open>the KeyError of \<open>del self._by_id[...]\<close>\<close>
and ineligibility =
    ScaffoldTemplate
  | NotFunctional
  | StatusNotActive provider_status
  | OperationNotDeclared provider_operation

text \<open>Both registries: entries by key in insertion order, and by id.\<close>

record 'e registry =
  rg_by_key :: "(string \<times> 'e) list"
  rg_by_id :: "uuid \<rightharpoonup> 'e"

definition empty_registry :: "'e registry" where
  "empty_registry = \<lparr>rg_by_key = [], rg_by_id = Map.empty\<rparr>"

definition by_key :: "'e registry \<Rightarrow> string \<Rightarrow> 'e option" where
  "by_key r k = map_of (rg_by_key r) k"

text \<open>The two index writes and the two index deletions that the operations share.\<close>

definition index_entry :: "'e registry \<Rightarrow> string \<Rightarrow> uuid \<Rightarrow> 'e \<Rightarrow> 'e registry" where
  "index_entry r k i e =
     \<lparr>rg_by_key = AList.update k e (rg_by_key r), rg_by_id = (rg_by_id r)(i \<mapsto> e)\<rparr>"

definition provider_register ::
  "registered_provider registry \<Rightarrow> provider \<Rightarrow> manifest
    \<Rightarrow> boundary_error + registered_provider registry" where
  "provider_register r p m =
     (if by_key r (pv_provider_key p) \<noteq> None \<or> rg_by_id r (pv_id p) \<noteq> None
      then Inl (DuplicateRegistration (pv_provider_key p))
      else Inr (index_entry r (pv_provider_key p) (pv_id p)
             \<lparr>rp_provider = p, rp_manifest = m\<rparr>))"

definition provider_replace ::
  "registered_provider registry \<Rightarrow> provider \<Rightarrow> manifest
    \<Rightarrow> boundary_error + registered_provider registry" where
  "provider_replace r p m =
     (let e = \<lparr>rp_provider = p, rp_manifest = m\<rparr>
      in case by_key r (pv_provider_key p) of
           None \<Rightarrow> Inr (index_entry r (pv_provider_key p) (pv_id p) e)
         | Some existing \<Rightarrow>
             let i = pv_id (rp_provider existing)
             in if rg_by_id r i = None then Inl (IndexKeyError i)
                else Inr (index_entry (r\<lparr>rg_by_id := (rg_by_id r)(i := None)\<rparr>)
                            (pv_provider_key p) (pv_id p) e))"

text \<open>\<open>remove\<close> deletes the key first, so a failing id deletion leaves the key deleted.\<close>

definition provider_remove ::
  "registered_provider registry \<Rightarrow> string
    \<Rightarrow> registered_provider registry \<times> (boundary_error + unit)" where
  "provider_remove r k =
     (case by_key r k of
        None \<Rightarrow> (r, Inl (ProviderNotRegistered k))
      | Some e \<Rightarrow>
          let r1 = r\<lparr>rg_by_key := AList.delete k (rg_by_key r)\<rparr>;
              i = pv_id (rp_provider e)
          in if rg_by_id r1 i = None then (r1, Inl (IndexKeyError i))
             else (r1\<lparr>rg_by_id := (rg_by_id r1)(i := None)\<rparr>, Inr ()))"

definition provider_get ::
  "registered_provider registry \<Rightarrow> string \<Rightarrow> boundary_error + registered_provider" where
  "provider_get r k =
     (case by_key r k of None \<Rightarrow> Inl (ProviderNotRegistered k) | Some e \<Rightarrow> Inr e)"

definition provider_get_by_id ::
  "registered_provider registry \<Rightarrow> uuid \<Rightarrow> boundary_error + registered_provider" where
  "provider_get_by_id r i =
     (case rg_by_id r i of None \<Rightarrow> Inl (ProviderIdNotRegistered i) | Some e \<Rightarrow> Inr e)"

definition provider_all_keys :: "registered_provider registry \<Rightarrow> string list" where
  "provider_all_keys r = sort (map fst (rg_by_key r))"

definition supports_operation ::
  "registered_provider registry \<Rightarrow> string \<Rightarrow> provider_operation \<Rightarrow> boundary_error + bool" where
  "supports_operation r k operation =
     result_bind (provider_get r k)
       (\<lambda>e. Inr (operation \<in> set (mf_operations (rp_manifest e))))"

text \<open>\<open>getattr(capabilities, name, False) is True\<close>: the declared flags by name.\<close>

definition capability_flags :: "provider_capabilities \<Rightarrow> (string \<times> bool) list" where
  "capability_flags c =
     [(''chat'', cap_chat c), (''reasoning'', cap_reasoning c), (''code'', cap_code c),
      (''vision_input'', cap_vision_input c), (''image_generation'', cap_image_generation c),
      (''audio_input'', cap_audio_input c), (''audio_output'', cap_audio_output c),
      (''file_upload'', cap_file_upload c), (''browser'', cap_browser c),
      (''agent_module'', cap_agent_module c), (''embeddings'', cap_embeddings c),
      (''rerank'', cap_rerank c), (''moderation'', cap_moderation c),
      (''tool_use'', cap_tool_use c)]"

definition supports_capability ::
  "registered_provider registry \<Rightarrow> string \<Rightarrow> string \<Rightarrow> boundary_error + bool" where
  "supports_capability r k capability =
     result_bind (provider_get r k)
       (\<lambda>e. Inr (map_of (capability_flags (mf_capabilities (rp_manifest e))) capability
                 = Some True))"

definition ensure_eligible ::
  "registered_provider registry \<Rightarrow> string \<Rightarrow> provider_operation
    \<Rightarrow> boundary_error + registered_provider" where
  "ensure_eligible r k operation =
     result_bind (provider_get r k)
       (\<lambda>e. if is_template e then Inl (ProviderNotEligible ScaffoldTemplate k)
          else if \<not> mf_is_functional (rp_manifest e)
          then Inl (ProviderNotEligible NotFunctional k)
          else if pv_status (rp_provider e) \<noteq> PROVIDER_ACTIVE
          then Inl (ProviderNotEligible (StatusNotActive (pv_status (rp_provider e))) k)
          else if operation \<notin> set (mf_operations (rp_manifest e))
          then Inl (ProviderNotEligible (OperationNotDeclared operation) k)
          else Inr e)"

definition routing_candidates ::
  "registered_provider registry \<Rightarrow> provider_operation option \<Rightarrow> registered_provider list" where
  "routing_candidates r operation =
     (let candidates = filter is_routable (map snd (rg_by_key r));
          narrowed = (case operation of None \<Rightarrow> candidates
            | Some op \<Rightarrow> filter (\<lambda>c. op \<in> set (mf_operations (rp_manifest c))) candidates)
      in sort_key (\<lambda>e. pv_provider_key (rp_provider e)) narrowed)"

section \<open>Models\<close>

definition model_register ::
  "model registry \<Rightarrow> model \<Rightarrow> boundary_error + model registry" where
  "model_register r m =
     (if by_key r (md_model_key m) \<noteq> None \<or> rg_by_id r (md_id m) \<noteq> None
      then Inl (DuplicateRegistration (md_model_key m))
      else Inr (index_entry r (md_model_key m) (md_id m) m))"

definition model_replace :: "model registry \<Rightarrow> model \<Rightarrow> boundary_error + model registry" where
  "model_replace r m =
     (case by_key r (md_model_key m) of
        None \<Rightarrow> Inr (index_entry r (md_model_key m) (md_id m) m)
      | Some existing \<Rightarrow>
          if rg_by_id r (md_id existing) = None then Inl (IndexKeyError (md_id existing))
          else Inr (index_entry (r\<lparr>rg_by_id := (rg_by_id r)(md_id existing := None)\<rparr>)
                      (md_model_key m) (md_id m) m))"

definition model_remove ::
  "model registry \<Rightarrow> string \<Rightarrow> model registry \<times> (boundary_error + unit)" where
  "model_remove r k =
     (case by_key r k of
        None \<Rightarrow> (r, Inl (ModelNotRegistered k))
      | Some m \<Rightarrow>
          let r1 = r\<lparr>rg_by_key := AList.delete k (rg_by_key r)\<rparr>
          in if rg_by_id r1 (md_id m) = None then (r1, Inl (IndexKeyError (md_id m)))
             else (r1\<lparr>rg_by_id := (rg_by_id r1)(md_id m := None)\<rparr>, Inr ()))"

definition model_get :: "model registry \<Rightarrow> string \<Rightarrow> boundary_error + model" where
  "model_get r k = (case by_key r k of None \<Rightarrow> Inl (ModelNotRegistered k) | Some m \<Rightarrow> Inr m)"

definition model_get_by_id :: "model registry \<Rightarrow> uuid \<Rightarrow> boundary_error + model" where
  "model_get_by_id r i =
     (case rg_by_id r i of None \<Rightarrow> Inl (ModelIdNotRegistered i) | Some m \<Rightarrow> Inr m)"

definition all_models :: "model registry \<Rightarrow> model list" where
  "all_models r = sort_key md_model_key (map snd (rg_by_key r))"

definition active_models :: "model registry \<Rightarrow> model list" where
  "active_models r =
     sort_key md_model_key (filter (\<lambda>m. md_status m = MODEL_ACTIVE) (map snd (rg_by_key r)))"

definition models_with_capability :: "model registry \<Rightarrow> string \<Rightarrow> model list" where
  "models_with_capability r c = filter (\<lambda>m. c \<in> set (md_capabilities m)) (active_models r)"

definition models_in_tier :: "model registry \<Rightarrow> string \<Rightarrow> model list" where
  "models_in_tier r t = filter (\<lambda>m. tier_value (md_tier m) = t) (active_models r)"

definition models_with_modality :: "model registry \<Rightarrow> string \<Rightarrow> model list" where
  "models_with_modality r m =
     filter (\<lambda>md. m \<in> modality_value ` set (md_modalities md)) (active_models r)"

section \<open>Bindings\<close>

type_synonym binding_registry = "((uuid \<times> uuid) \<times> binding) list"

definition binding_register ::
  "binding_registry \<Rightarrow> binding \<Rightarrow> boundary_error + binding_registry" where
  "binding_register r b =
     (let k = (bd_provider_id b, bd_model_id b)
      in if map_of r k \<noteq> None then Inl (DuplicateBinding (fst k) (snd k))
         else Inr (AList.update k b r))"

definition binding_remove ::
  "binding_registry \<Rightarrow> uuid \<Rightarrow> uuid \<Rightarrow> boundary_error + binding_registry" where
  "binding_remove r p m =
     (if map_of r (p, m) = None then Inl (BindingNotFound p m)
      else Inr (AList.delete (p, m) r))"

definition binding_get :: "binding_registry \<Rightarrow> uuid \<Rightarrow> uuid \<Rightarrow> boundary_error + binding" where
  "binding_get r p m =
     (case map_of r (p, m) of None \<Rightarrow> Inl (BindingNotFound p m) | Some b \<Rightarrow> Inr b)"

definition bindings_for_model :: "binding_registry \<Rightarrow> uuid \<Rightarrow> binding list" where
  "bindings_for_model r m = filter (\<lambda>b. bd_model_id b = m) (map snd r)"

definition bindings_for_provider :: "binding_registry \<Rightarrow> uuid \<Rightarrow> binding list" where
  "bindings_for_provider r p = filter (\<lambda>b. bd_provider_id b = p) (map snd r)"

section \<open>Provider health\<close>

text \<open>\<open>show_nat\<close> is Python's \<open>str\<close> of a non-negative integer.\<close>

definition aggregate_provider_health ::
  "(nat \<Rightarrow> string) \<Rightarrow> registered_provider \<Rightarrow> (string \<times> account_check_state) list
    \<Rightarrow> provider_health_state option \<Rightarrow> timestamp \<Rightarrow> provider_health" where
  "aggregate_provider_health show_nat e accounts signal stamp =
     (let report = (\<lambda>state detail.
            \<lparr>ph_provider_id = mf_id (rp_manifest e), ph_state = state, ph_accounts = accounts,
             ph_checked_at = Some stamp, ph_detail = detail\<rparr>);
          unhealthy = filter (\<lambda>(k, s). s \<noteq> CHECK_READY) accounts
      in if is_template e \<or> \<not> mf_is_functional (rp_manifest e)
         then report PH_UNAVAILABLE
                (Some ''template/non-functional provider cannot pass health checks'')
         else if signal \<noteq> None \<and> signal \<noteq> Some PH_HEALTHY
         then report (the signal) (Some ''explicit provider-scope signal'')
         else if unhealthy \<noteq> []
         then report PH_DEGRADED
                (Some (show_nat (length unhealthy) @ ''/'' @ show_nat (length accounts)
                       @ '' accounts not READY''))
         else report PH_HEALTHY None)"

section \<open>Two indexes of one set\<close>

definition registry_ok :: "('e \<Rightarrow> string) \<Rightarrow> ('e \<Rightarrow> uuid) \<Rightarrow> 'e registry \<Rightarrow> bool" where
  "registry_ok key_of id_of r \<longleftrightarrow> distinct (map fst (rg_by_key r))
     \<and> (\<forall>k e. by_key r k = Some e \<longrightarrow> key_of e = k \<and> rg_by_id r (id_of e) = Some e)
     \<and> (\<forall>i e. rg_by_id r i = Some e \<longrightarrow> id_of e = i \<and> by_key r (key_of e) = Some e)"

abbreviation provider_key_of :: "registered_provider \<Rightarrow> string" where
  "provider_key_of e \<equiv> pv_provider_key (rp_provider e)"

abbreviation provider_id_of :: "registered_provider \<Rightarrow> uuid" where
  "provider_id_of e \<equiv> pv_id (rp_provider e)"

abbreviation "providers_ok \<equiv> registry_ok provider_key_of provider_id_of"
abbreviation "models_ok \<equiv> registry_ok md_model_key md_id"

lemma by_key_simps [simp]:
  "by_key (index_entry r k i e) k' = (if k' = k then Some e else by_key r k')"
  "by_key (r\<lparr>rg_by_id := m\<rparr>) = by_key r"
  "by_key (r\<lparr>rg_by_key := AList.delete k (rg_by_key r)\<rparr>) k' = (if k' = k then None else by_key r k')"
  "by_key empty_registry k = None"
  "rg_by_id (index_entry r k i e) = (rg_by_id r)(i \<mapsto> e)"
  by (auto simp: by_key_def index_entry_def empty_registry_def)

lemma registry_ok_empty: "registry_ok key_of id_of empty_registry"
  by (simp add: registry_ok_def) (simp add: empty_registry_def)

lemma registry_okD:
  assumes "registry_ok key_of id_of r"
  shows "by_key r k = Some e \<Longrightarrow> key_of e = k \<and> rg_by_id r (id_of e) = Some e"
    and "rg_by_id r i = Some e \<Longrightarrow> id_of e = i \<and> by_key r (key_of e) = Some e"
    and "distinct (map fst (rg_by_key r))"
  using assms by (auto simp: registry_ok_def)

text \<open>Writing an entry whose id is unused, or is that of the entry it replaces.\<close>

lemma registry_ok_insert:
  assumes ok: "registry_ok key_of id_of r"
    and id: "rg_by_id r (id_of e) = None \<or> rg_by_id r (id_of e) = by_key r (key_of e)"
  shows "registry_ok key_of id_of (index_entry
    (case by_key r (key_of e) of None \<Rightarrow> r
     | Some old \<Rightarrow> r\<lparr>rg_by_id := (rg_by_id r)(id_of old := None)\<rparr>) (key_of e) (id_of e) e)"
proof -
  note okD = registry_okD [OF ok]
  let ?r0 = "case by_key r (key_of e) of None \<Rightarrow> r
     | Some old \<Rightarrow> r\<lparr>rg_by_id := (rg_by_id r)(id_of old := None)\<rparr>"
  let ?r = "index_entry ?r0 (key_of e) (id_of e) e"
  have bk: "by_key ?r j = (if j = key_of e then Some e else by_key r j)" for j
    by (simp split: option.split)
  have bi: "rg_by_id ?r i = (if i = id_of e then Some e
      else case by_key r (key_of e) of None \<Rightarrow> rg_by_id r i
        | Some old \<Rightarrow> if i = id_of old then None else rg_by_id r i)" for i
    by (simp split: option.split)
  show ?thesis
    unfolding registry_ok_def
  proof (intro conjI allI impI)
    show "distinct (map fst (rg_by_key ?r))"
      using okD(3) by (simp add: index_entry_def split: option.split)
    show "key_of x = j" if x: "by_key ?r j = Some x" for j x
      using x [unfolded bk] okD(1) by (auto split: if_splits)
    show "rg_by_id ?r (id_of x) = Some x" if x: "by_key ?r j = Some x" for j x
    proof (cases "j = key_of e")
      case False
      then have "key_of x = j" "rg_by_id r (id_of x) = Some x"
        using x [unfolded bk] okD(1) by auto
      moreover have "id_of x \<noteq> id_of e"
      proof
        assume "id_of x = id_of e"
        with calculation(2) id have "by_key r (key_of e) = Some x" by simp
        from okD(1) [OF this] calculation(1) False show False by simp
      qed
      moreover have "id_of x \<noteq> id_of old" if old: "by_key r (key_of e) = Some old" for old
      proof
        assume "id_of x = id_of old"
        with okD(1) [OF old] calculation(2) have "x = old" "key_of old = key_of e" by simp_all
        with calculation(1) False show False by simp
      qed
      ultimately show ?thesis unfolding bi by (simp split: option.split)
    qed (use x [unfolded bk] in \<open>simp add: bi\<close>)
    show "id_of x = i" if x: "rg_by_id ?r i = Some x" for i x
      using x [unfolded bi] okD(2) by (auto split: if_splits option.splits)
    show "by_key ?r (key_of x) = Some x" if x: "rg_by_id ?r i = Some x" for i x
    proof (cases "i = id_of e")
      case False
      then have "id_of x = i" "by_key r (key_of x) = Some x"
        using x [unfolded bi] okD(2) by (auto split: option.splits if_splits)
      moreover have "key_of x \<noteq> key_of e"
        using False x [unfolded bi] calculation by (auto split: if_splits)
      ultimately show ?thesis unfolding bk by simp
    qed (use x [unfolded bi] in \<open>simp add: bk\<close>)
  qed
qed

lemma registry_ok_delete:
  assumes ok: "registry_ok key_of id_of r" and e: "by_key r k = Some e"
  shows "registry_ok key_of id_of
    (r\<lparr>rg_by_key := AList.delete k (rg_by_key r), rg_by_id := (rg_by_id r)(id_of e := None)\<rparr>)"
proof -
  note okD = registry_okD [OF ok]
  show ?thesis
    unfolding registry_ok_def
  proof (intro conjI allI impI)
    let ?r = "r\<lparr>rg_by_key := AList.delete k (rg_by_key r), rg_by_id := (rg_by_id r)(id_of e := None)\<rparr>"
    have b: "by_key ?r k' = (if k' = k then None else by_key r k')" for k'
      by (simp add: by_key_def)
    show "distinct (map fst (rg_by_key ?r))" using okD(3) by simp
    show "key_of x = j" and "rg_by_id ?r (id_of x) = Some x" if "by_key ?r j = Some x" for j x
      using that okD(1) [of j x] okD(1) [OF e] by (auto simp: b split: if_splits)
    show "id_of x = i" and "by_key ?r (key_of x) = Some x" if "rg_by_id ?r i = Some x" for i x
      using that okD(2) [of i x] okD(1) [OF e] e by (auto simp: b split: if_splits)
  qed
qed

section \<open>The registry interface\<close>

text \<open>
  What the admin plane and the routing code rely on: registration fails exactly on a key
  or id in use and otherwise adds one entry to both lookups; removal takes it out of both.
\<close>

locale keyed_registry =
  fixes wf :: "'r \<Rightarrow> bool"
    and look :: "'r \<Rightarrow> string \<Rightarrow> 'e option"
    and look_id :: "'r \<Rightarrow> uuid \<Rightarrow> 'e option"
    and key_of :: "'e \<Rightarrow> string"
    and id_of :: "'e \<Rightarrow> uuid"
    and add :: "'r \<Rightarrow> 'e \<Rightarrow> boundary_error + 'r"
    and drop_key :: "'r \<Rightarrow> string \<Rightarrow> 'r \<times> (boundary_error + unit)"
  assumes add_ok: "wf r \<Longrightarrow> look r (key_of e) = None \<Longrightarrow> look_id r (id_of e) = None \<Longrightarrow>
      \<exists>r'. add r e = Inr r' \<and> wf r' \<and> look r' = (look r)(key_of e \<mapsto> e)
        \<and> look_id r' = (look_id r)(id_of e \<mapsto> e)"
    and add_dup: "look r (key_of e) \<noteq> None \<or> look_id r (id_of e) \<noteq> None \<Longrightarrow>
      add r e = Inl (DuplicateRegistration (key_of e))"
    and drop_ok: "wf r \<Longrightarrow> look r k = Some e \<Longrightarrow>
      \<exists>r'. drop_key r k = (r', Inr ()) \<and> wf r' \<and> look r' = (look r)(k := None)
        \<and> look_id r' = (look_id r)(id_of e := None)"
begin

text \<open>Removing what was just registered restores both lookups.\<close>

lemma add_then_drop:
  assumes "wf r" and "add r e = Inr r1"
  shows "\<exists>r2. drop_key r1 (key_of e) = (r2, Inr ()) \<and> wf r2 \<and> look r2 = look r
    \<and> look_id r2 = look_id r"
proof -
  have fresh: "look r (key_of e) = None" "look_id r (id_of e) = None"
    using add_dup [of r e] assms(2) by (metis sum.distinct(1))+
  with add_ok [OF assms(1), of e] assms(2)
  have r1: "wf r1" "look r1 = (look r)(key_of e \<mapsto> e)" "look_id r1 = (look_id r)(id_of e \<mapsto> e)"
    by auto
  then have "look r1 (key_of e) = Some e" by simp
  from drop_ok [OF r1(1) this] r1(2,3) fresh show ?thesis by (auto simp: fun_upd_idem)
qed

end

definition provider_add ::
  "registered_provider registry \<Rightarrow> registered_provider
    \<Rightarrow> boundary_error + registered_provider registry" where
  "provider_add r e = provider_register r (rp_provider e) (rp_manifest e)"

lemma registered_provider_collapse [simp]:
  "\<lparr>rp_provider = rp_provider e, rp_manifest = rp_manifest (e::registered_provider)\<rparr> = e"
  by simp

interpretation provider_reg: keyed_registry providers_ok by_key rg_by_id provider_key_of
    provider_id_of provider_add provider_remove
proof unfold_locales
  fix r :: "registered_provider registry" and e :: registered_provider
  assume "providers_ok r" "by_key r (provider_key_of e) = None"
    "rg_by_id r (provider_id_of e) = None"
  then show "\<exists>r'. provider_add r e = Inr r' \<and> providers_ok r'
      \<and> by_key r' = (by_key r)(provider_key_of e \<mapsto> e)
      \<and> rg_by_id r' = (rg_by_id r)(provider_id_of e \<mapsto> e)"
    using registry_ok_insert [of provider_key_of provider_id_of r e]
    by (auto simp: provider_add_def provider_register_def fun_eq_iff)
next
  fix r :: "registered_provider registry" and e :: registered_provider
  assume "by_key r (provider_key_of e) \<noteq> None \<or> rg_by_id r (provider_id_of e) \<noteq> None"
  then show "provider_add r e = Inl (DuplicateRegistration (provider_key_of e))"
    by (simp add: provider_add_def provider_register_def)
next
  fix r :: "registered_provider registry" and k and e :: registered_provider
  assume ok: "providers_ok r" and e: "by_key r k = Some e"
  then show "\<exists>r'. provider_remove r k = (r', Inr ()) \<and> providers_ok r'
      \<and> by_key r' = (by_key r)(k := None) \<and> rg_by_id r' = (rg_by_id r)(provider_id_of e := None)"
    using registry_ok_delete [OF ok e] registry_okD(1) [OF ok e]
    by (simp add: provider_remove_def Let_def fun_eq_iff)
qed

interpretation model_reg: keyed_registry models_ok by_key rg_by_id md_model_key md_id
    model_register model_remove
proof unfold_locales
  fix r :: "model registry" and e :: model
  assume "models_ok r" "by_key r (md_model_key e) = None" "rg_by_id r (md_id e) = None"
  then show "\<exists>r'. model_register r e = Inr r' \<and> models_ok r'
      \<and> by_key r' = (by_key r)(md_model_key e \<mapsto> e)
      \<and> rg_by_id r' = (rg_by_id r)(md_id e \<mapsto> e)"
    using registry_ok_insert [of md_model_key md_id r e]
    by (auto simp: model_register_def fun_eq_iff)
next
  fix r :: "model registry" and e :: model
  assume "by_key r (md_model_key e) \<noteq> None \<or> rg_by_id r (md_id e) \<noteq> None"
  then show "model_register r e = Inl (DuplicateRegistration (md_model_key e))"
    by (simp add: model_register_def)
next
  fix r :: "model registry" and k and e :: model
  assume ok: "models_ok r" and e: "by_key r k = Some e"
  then show "\<exists>r'. model_remove r k = (r', Inr ()) \<and> models_ok r'
      \<and> by_key r' = (by_key r)(k := None) \<and> rg_by_id r' = (rg_by_id r)(md_id e := None)"
    using registry_ok_delete [OF ok e] registry_okD(1) [OF ok e]
    by (simp add: model_remove_def Let_def fun_eq_iff)
qed

section \<open>Properties\<close>

text \<open>
  Registries reachable by registrations, removals and replacements that keep an entry's
  id or take an unused one - what the admin plane's update path does.
\<close>

inductive provider_history :: "registered_provider registry \<Rightarrow> bool" where
  ph_empty: "provider_history empty_registry"
| ph_register: "provider_history r \<Longrightarrow> provider_register r p m = Inr r' \<Longrightarrow> provider_history r'"
| ph_remove: "provider_history r \<Longrightarrow> provider_remove r k = (r', out) \<Longrightarrow> provider_history r'"
| ph_replace: "provider_history r \<Longrightarrow>
     rg_by_id r (pv_id p) = None \<or> rg_by_id r (pv_id p) = by_key r (pv_provider_key p) \<Longrightarrow>
     provider_replace r p m = Inr r' \<Longrightarrow> provider_history r'"

lemma provider_history_ok: "provider_history r \<Longrightarrow> providers_ok r"
proof (induction rule: provider_history.induct)
  case (ph_register r p m r')
  then show ?case
    using registry_ok_insert [of provider_key_of provider_id_of r "\<lparr>rp_provider = p, rp_manifest = m\<rparr>"]
    by (auto simp: provider_register_def split: if_splits)
next
  case (ph_remove r k r' out)
  show ?case
  proof (cases "by_key r k")
    case (Some e)
    then show ?thesis
      using provider_reg.drop_ok [OF ph_remove.IH Some] ph_remove(2) by auto
  qed (use ph_remove in \<open>simp add: provider_remove_def\<close>)
next
  case (ph_replace r p m r')
  then show ?case
    using registry_ok_insert [of provider_key_of provider_id_of r "\<lparr>rp_provider = p, rp_manifest = m\<rparr>"]
    by (auto simp: provider_replace_def Let_def split: option.splits if_splits)
qed (rule registry_ok_empty)

lemma provider_get_iff:
  "provider_get r k = Inr e \<longleftrightarrow> by_key r k = Some e"
  "provider_get_by_id r i = Inr e \<longleftrightarrow> rg_by_id r i = Some e"
  by (auto simp: provider_get_def provider_get_by_id_def split: option.splits)

text \<open>
  C15. One registry, two indexes: over registrations, removals and replacements that keep
  or freshen an id, looking a provider up by key and by id always gives the same entry
  with that key and that id; removal never fails half-way; and removing what was just
  registered - the rollback of a publication - restores every lookup.
\<close>

theorem provider_indexes_agree:
  assumes "provider_history r"
  shows "(\<forall>k e. provider_get r k = Inr e \<longrightarrow>
        provider_key_of e = k \<and> provider_get_by_id r (provider_id_of e) = Inr e)
    \<and> (\<forall>i e. provider_get_by_id r i = Inr e \<longrightarrow>
        provider_id_of e = i \<and> provider_get r (provider_key_of e) = Inr e)
    \<and> (\<forall>k i. snd (provider_remove r k) \<noteq> Inl (IndexKeyError i))
    \<and> (\<forall>p m r1. provider_register r p m = Inr r1 \<longrightarrow>
        (\<exists>r2. provider_remove r1 (pv_provider_key p) = (r2, Inr ())
           \<and> provider_get r2 = provider_get r \<and> provider_get_by_id r2 = provider_get_by_id r))"
proof -
  note ok = provider_history_ok [OF assms]
  have remove: "snd (provider_remove r k) \<noteq> Inl (IndexKeyError i)" for k i
  proof (cases "by_key r k")
    case (Some e)
    from provider_reg.drop_ok [OF ok Some] show ?thesis by auto
  qed (simp add: provider_remove_def)
  have rollback: "\<exists>r2. provider_remove r1 (pv_provider_key p) = (r2, Inr ())
      \<and> provider_get r2 = provider_get r \<and> provider_get_by_id r2 = provider_get_by_id r"
    if "provider_register r p m = Inr r1" for p m r1
    using provider_reg.add_then_drop [OF ok, of "\<lparr>rp_provider = p, rp_manifest = m\<rparr>" r1] that
    by (auto simp: provider_add_def provider_get_def provider_get_by_id_def fun_eq_iff)
  show ?thesis
    using remove rollback registry_okD(1,2) [OF ok] by (simp add: provider_get_iff)
qed

text \<open>
  A replacement is not checked against the ids of the other entries: replacing or
  introducing a provider under the id of another registered provider is accepted, after
  which that id answers with the new provider while the old one is still registered under
  its key; and once the old one is removed, removing the new one fails with a bare
  KeyError after it is already gone from the key index.
\<close>

theorem replace_under_foreign_id_splits_the_indexes:
  assumes "provider_history r" and "by_key r k = Some e" and "pv_id p = provider_id_of e"
    and "pv_provider_key p \<noteq> k"
  shows "\<exists>r' r1 r2. provider_replace r p m = Inr r'
    \<and> provider_get r' k = Inr e
    \<and> provider_get_by_id r' (provider_id_of e) = Inr \<lparr>rp_provider = p, rp_manifest = m\<rparr>
    \<and> provider_remove r' k = (r1, Inr ())
    \<and> provider_remove r1 (pv_provider_key p) = (r2, Inl (IndexKeyError (pv_id p)))
    \<and> provider_get r2 (pv_provider_key p) = Inl (ProviderNotRegistered (pv_provider_key p))"
proof -
  note ok = registry_okD [OF provider_history_ok [OF assms(1)]]
  let ?new = "\<lparr>rp_provider = p, rp_manifest = m\<rparr>"
  obtain r' where r': "provider_replace r p m = Inr r'"
    and keys: "by_key r' = (by_key r)(pv_provider_key p \<mapsto> ?new)"
    and ids: "rg_by_id r' (pv_id p) = Some ?new"
    using ok(1) by (cases "by_key r (pv_provider_key p)")
      (auto simp: provider_replace_def Let_def fun_eq_iff)
  let ?r1 = "r'\<lparr>rg_by_key := AList.delete k (rg_by_key r'),
                rg_by_id := (rg_by_id r')(provider_id_of e := None)\<rparr>"
  have r1: "provider_remove r' k = (?r1, Inr ())"
    using keys ids assms(2,3,4) by (simp add: provider_remove_def Let_def)
  have k1: "by_key ?r1 = (by_key r')(k := None)"
    by (auto simp: by_key_def fun_eq_iff)
  have "by_key ?r1 (pv_provider_key p) = Some ?new"
    using keys k1 assms(4) by simp
  moreover have "rg_by_id ?r1 (pv_id p) = None"
    using assms(3) by simp
  ultimately have "provider_remove ?r1 (pv_provider_key p) =
      (?r1\<lparr>rg_by_key := AList.delete (pv_provider_key p) (rg_by_key ?r1)\<rparr>,
       Inl (IndexKeyError (pv_id p)))"
    by (simp add: provider_remove_def Let_def)
  moreover have "provider_get (?r1\<lparr>rg_by_key := AList.delete (pv_provider_key p)
      (rg_by_key ?r1)\<rparr>) (pv_provider_key p) = Inl (ProviderNotRegistered (pv_provider_key p))"
    by (simp add: provider_get_def by_key_def)
  ultimately show ?thesis
    using r' r1 keys ids assms(2,3,4) by (auto simp: provider_get_iff)
qed

lemma dict_values_by_key:
  "distinct (map fst (rg_by_key r)) \<Longrightarrow> e \<in> set (map snd (rg_by_key r)) \<longleftrightarrow> (\<exists>k. by_key r k = Some e)"
  using dict_values_iff [of "rg_by_key r" e] by (simp add: by_key_def)

text \<open>
  Eligibility is deny by default and never granted to a scaffold: the routing
  candidates for an operation are exactly the registered providers that are active,
  functional, free of every template marker and declare the operation, in key order; the
  execution gate accepts exactly those and raises a named reason otherwise; an unknown
  capability name is never supported.
\<close>

theorem eligibility_is_declared:
  assumes "provider_history r"
  shows "sorted (map provider_key_of (routing_candidates r (Some operation)))
    \<and> (\<forall>e. e \<in> set (routing_candidates r (Some operation)) \<longleftrightarrow>
         ensure_eligible r (provider_key_of e) operation = Inr e)
    \<and> (\<forall>k e. ensure_eligible r k operation = Inr e \<longleftrightarrow>
         by_key r k = Some e \<and> pv_status (rp_provider e) = PROVIDER_ACTIVE
         \<and> mf_is_functional (rp_manifest e) \<and> \<not> mf_is_template (rp_manifest e)
         \<and> \<not> mf_real_provider_required (rp_manifest e)
         \<and> mf_status (rp_manifest e) \<noteq> TEMPLATE_DISABLED_STATUS
         \<and> operation \<in> set (mf_operations (rp_manifest e)))
    \<and> (\<forall>k name. name \<notin> fst ` set (capability_flags no_capabilities) \<longrightarrow>
         supports_capability r k name \<noteq> Inr True)"
proof -
  note ok = registry_okD [OF provider_history_ok [OF assms]]
  have gate: "ensure_eligible r k operation = Inr e \<longleftrightarrow>
         by_key r k = Some e \<and> is_routable e \<and> operation \<in> set (mf_operations (rp_manifest e))"
    for k e
    by (auto simp: ensure_eligible_def result_bind_Inr_iff provider_get_iff is_routable_def
        is_executable_def)
  have "e \<in> set (routing_candidates r (Some operation)) \<longleftrightarrow>
         ensure_eligible r (provider_key_of e) operation = Inr e" for e
    using ok(1) dict_values_by_key [OF ok(3), of e]
    by (auto simp: routing_candidates_def gate)
  moreover have "supports_capability r k name \<noteq> Inr True"
    if "name \<notin> fst ` set (capability_flags no_capabilities)" for k name
  proof -
    have "map_of (capability_flags c) name = None" for c
      using that by (simp add: capability_flags_def)
    then show ?thesis by (simp add: supports_capability_def result_bind_Inr_iff)
  qed
  ultimately show ?thesis
    by (auto simp: gate is_routable_def is_executable_def is_template_def routing_candidates_def
        Let_def)
qed

text \<open>
  Health precedence: a template or non-functional provider is always UNAVAILABLE; an
  adverse provider-scope signal wins over account states; account states alone - even all
  of them failing - never make a provider worse than DEGRADED, and make it DEGRADED
  exactly when some account is not READY; with no adverse evidence it is HEALTHY.  The
  account states are reported unchanged in every case.
\<close>

theorem health_precedence:
  "(let h = aggregate_provider_health show_nat e accounts signal stamp
    in ph_accounts h = accounts
     \<and> (\<not> is_executable e \<longrightarrow> ph_state h = PH_UNAVAILABLE)
     \<and> (is_executable e \<and> signal \<noteq> None \<and> signal \<noteq> Some PH_HEALTHY \<longrightarrow> signal = Some (ph_state h))
     \<and> (is_executable e \<and> (signal = None \<or> signal = Some PH_HEALTHY) \<longrightarrow>
          ph_state h = (if \<forall>(k, s)\<in>set accounts. s = CHECK_READY then PH_HEALTHY else PH_DEGRADED))
     \<and> (ph_detail h = None \<longleftrightarrow> ph_state h = PH_HEALTHY))"
  by (auto simp: aggregate_provider_health_def Let_def is_executable_def filter_empty_conv
      split: prod.splits)

section \<open>Witnesses\<close>

definition ex_manifest :: manifest where
  "ex_manifest =
     \<lparr>mf_id = ''acme'', mf_name = ''Acme'', mf_version = ''1'', mf_status = ''active'',
      mf_is_template = False, mf_is_functional = True, mf_real_provider_required = False,
      mf_auth = \<lparr>mf_auth_types = [API_KEY], mf_supports_refresh = False\<rparr>,
      mf_account_pool = \<lparr>mf_pool_supported = True, mf_lease_required = True,
                         mf_fencing_required = False\<rparr>,
      mf_capabilities = no_capabilities\<lparr>cap_chat := True\<rparr>, mf_operations = [GENERATE_TEXT],
      mf_models = \<lparr>mf_discovery = ''static'', mf_static_models = []\<rparr>,
      mf_rate_limits = \<lparr>mf_strategy = ''provider_defined'', mf_dimensions = []\<rparr>,
      mf_health_checks = [], mf_errors_mapping = ''map'', mf_notes = [],
      mf_agent_module = None, mf_security = None\<rparr>"

definition ex_provider :: "uuid \<Rightarrow> string \<Rightarrow> provider" where
  "ex_provider i k =
     \<lparr>pv_id = i, pv_provider_key = k, pv_display_name = k, pv_status = PROVIDER_ACTIVE,
      pv_auth_types = [API_KEY], pv_supports_account_pool = True\<rparr>"

definition ex_entry :: registered_provider where
  "ex_entry = \<lparr>rp_provider = ex_provider 7 ''acme'', rp_manifest = ex_manifest\<rparr>"

definition ex_providers :: "registered_provider registry" where
  "ex_providers = index_entry empty_registry ''acme'' 7 ex_entry"

lemma ex_provider_sel [simp]:
  "pv_id (ex_provider i k) = i" "pv_provider_key (ex_provider i k) = k"
  "pv_status (ex_provider i k) = PROVIDER_ACTIVE"
  "rp_provider ex_entry = ex_provider 7 ''acme''" "rp_manifest ex_entry = ex_manifest"
  by (simp_all add: ex_provider_def ex_entry_def)

lemma ex_providers_history: "provider_history ex_providers"
  by (rule ph_register [OF ph_empty, of "ex_provider 7 ''acme''" ex_manifest])
    (simp add: provider_register_def ex_providers_def ex_entry_def,
     simp add: empty_registry_def)

lemma ex_providers_lookup [simp]:
  "by_key ex_providers ''acme'' = Some ex_entry" "rg_by_id ex_providers 7 = Some ex_entry"
  by (simp_all add: ex_providers_def)

theorem provider_indexes_agree_witness:
  "provider_get_by_id ex_providers 7 = Inr ex_entry"
  using provider_indexes_agree [OF ex_providers_history]
  by (auto simp: provider_get_def provider_get_by_id_def)

theorem replace_under_foreign_id_splits_the_indexes_witness:
  "\<exists>r'. provider_replace ex_providers (ex_provider 7 ''other'') ex_manifest = Inr r'
    \<and> provider_get r' ''acme'' = Inr ex_entry
    \<and> provider_get_by_id r' 7 = Inr \<lparr>rp_provider = ex_provider 7 ''other'', rp_manifest = ex_manifest\<rparr>"
  using replace_under_foreign_id_splits_the_indexes
      [OF ex_providers_history ex_providers_lookup(1), of "ex_provider 7 ''other''" ex_manifest]
  by auto

theorem eligibility_is_declared_witness:
  "ex_entry \<in> set (routing_candidates ex_providers (Some GENERATE_TEXT))
    \<and> supports_capability ex_providers ''acme'' ''teleport'' \<noteq> Inr True"
proof -
  have "is_routable ex_entry" and "GENERATE_TEXT \<in> set (mf_operations ex_manifest)"
    and "ensure_eligible ex_providers ''acme'' GENERATE_TEXT = Inr ex_entry"
    by (simp_all add: is_routable_def is_executable_def is_template_def ex_manifest_def
        TEMPLATE_DISABLED_STATUS_def ensure_eligible_def provider_get_def)
  moreover have "''teleport'' \<notin> fst ` set (capability_flags no_capabilities)"
    by (simp add: capability_flags_def)
  ultimately show ?thesis
    using eligibility_is_declared [OF ex_providers_history, of GENERATE_TEXT] by simp
qed

theorem health_precedence_witness:
  "ph_state (aggregate_provider_health (\<lambda>n. ''n'') ex_entry [(''a'', CHECK_INVALID)] None 0)
    = PH_DEGRADED"
  using health_precedence [of "\<lambda>n. ''n''" ex_entry "[(''a'', CHECK_INVALID)]" None 0]
  by (simp add: is_executable_def is_template_def ex_manifest_def TEMPLATE_DISABLED_STATUS_def
      Let_def)

end
