(* ===== verification/Routing_Router.thy ===== *)
theory Routing_Router
  imports Provider_Registry Routing_Capacity Double_Arith
begin

text \<open>
  The scoring router: the contracts of \<open>core/contracts/model_policy.py\<close> and
  \<open>core/contracts/routing.py\<close>, the errors of \<open>core/routing/errors.py\<close> and
  \<open>SimpleScoringRouter\<close> of \<open>core/routing/router.py\<close>.  The signal board is any
  state with an answer function (its clock is part of that state), or absent.  Weights and
  scores are doubles: each product and sum of a score is rounded (\<open>dbl\<close>), and \<open>round(score, 6)\<close>
  is rounding half to even to a decimal, and that to a double.  Lemmas: every
  candidate that reaches a decision passed every hard filter; the ranking; the fallback
  scopes; failures are explained.
\<close>

section \<open>Policies\<close>

datatype fallback_scope =
    SCOPE_NONE | SAME_MODEL_DIFFERENT_PROVIDER | SAME_TIER | LOWER_COST_SAME_CAPABILITY
  | MAX_ESCALATION | ADMIN_DEFINED_CHAIN

datatype selection_strategy =
  FALLBACK_CHAIN | PARALLEL_COMPARE | BEST_OF_N | DEBATE | SPECIALIST_ROLES

record model_ref =
  mr_model_id :: string
  mr_provider_id :: "string option"

text \<open>Each policy carries \<open>allow_fallback\<close> and \<open>fallback_scope\<close> last, where it has them.\<close>

datatype model_policy =
    AutoPolicy "string option" "bool option" "fallback_scope option"
  | TierPolicy string "bool option" "fallback_scope option"
  | ExplicitPolicy string "string option" "bool option" "fallback_scope option"
  | ExplicitModelsPolicy "model_ref list" "selection_strategy option" "model_policy option"
      "bool option" "bool option" "fallback_scope option"
  | AgentNodeMapping "model_policy option" "(string \<times> model_policy) list"

text \<open>A node-level policy is any but the node mapping; the mapping holds node policies.\<close>

fun node_policy :: "model_policy \<Rightarrow> bool" where
  "node_policy (AgentNodeMapping d ns) = False"
| "node_policy (ExplicitModelsPolicy ms st judge ap af sc) =
     (ms \<noteq> [] \<and> (case judge of None \<Rightarrow> True | Some j \<Rightarrow> node_policy j))"
| "node_policy _ = True"

definition AUTO_POLICY :: model_policy where
  "AUTO_POLICY = AutoPolicy None None None"

definition WIDENING_SCOPES :: "fallback_scope set" where
  "WIDENING_SCOPES = {SAME_TIER, LOWER_COST_SAME_CAPABILITY, MAX_ESCALATION, ADMIN_DEFINED_CHAIN}"

section \<open>Requests and decisions\<close>

record task_analysis =
  ta_task_type :: string
  ta_complexity :: string
  ta_modalities_required :: "modality list"
  ta_capabilities_required :: "string list"
  ta_tools_required :: "string list"
  ta_risk_level :: string
  ta_needs_agent :: "bool option"
  ta_needs_evaluation :: "bool option"
  ta_language :: "string option"

record scoring_weights =
  sw_version :: string
  sw_quality :: rat
  sw_reliability :: rat
  sw_cost :: rat
  sw_latency :: rat
  sw_context_fit :: rat
  sw_policy_preference :: rat

definition default_scoring_weights :: scoring_weights where
  "default_scoring_weights =
     \<lparr>sw_version = ''11s6-initial'', sw_quality = 35/100, sw_reliability = 20/100,
      sw_cost = 15/100, sw_latency = 15/100, sw_context_fit = 10/100,
      sw_policy_preference = 5/100\<rparr>"

record candidate_score =
  cs_model_id :: uuid
  cs_provider_id :: uuid
  cs_account_id :: "uuid option"
  cs_score :: rat
  cs_reasons :: "string list"
  cs_risks :: "string list"

record exclusion =
  ex_model_key :: string
  ex_provider_key :: "string option"
  ex_reason :: string

record routing_request =
  rq_operation :: provider_operation
  rq_required_capabilities :: "string list"
  rq_required_modalities :: "modality list"
  rq_model_policy :: "model_policy option"
  rq_task_analysis :: "task_analysis option"
  rq_context_length_hint :: "int option"
  rq_weights :: "scoring_weights option"
  rq_credential_policy :: "credential_policy option"

record routing_decision =
  rd_selected :: candidate_score
  rd_ranked :: "candidate_score list"
  rd_fallback_candidates :: "candidate_score list"
  rd_excluded :: "exclusion list"
  rd_policy_snapshot :: model_policy
  rd_fallback_policy :: "fallback_scope option"
  rd_weights :: scoring_weights
  rd_decided_at :: timestamp

datatype routing_error =
    UnsupportedPolicyType model_policy
  | NoEligibleCandidates "exclusion list" "int option"
  | FallbackNotConfigured
  | RoutingLookup boundary_error

section \<open>The router\<close>

record candidate =
  ca_model :: model
  ca_provider :: registered_provider
  ca_binding :: binding
  ca_reasons :: "string list"
  ca_risks :: "string list"

record 'b router =
  rt_providers :: "registered_provider registry"
  rt_models :: "model registry"
  rt_bindings :: binding_registry
  rt_default_weights :: scoring_weights
  rt_admin_fallback_chain :: "string list option"
  rt_signals :: "('b \<Rightarrow> uuid \<Rightarrow> uuid \<Rightarrow> json_object option \<Rightarrow> 'b \<times> eligibility) option"
  rt_text :: text_env

definition set_default_weights :: "'b router \<Rightarrow> scoring_weights \<Rightarrow> 'b router" where
  "set_default_weights rt w = rt\<lparr>rt_default_weights := w\<rparr>"

text \<open>What a routing pass threads: the board, the exclusion records, the retry hints.\<close>

record 'b route_acc =
  ra_board :: 'b
  ra_excluded :: "exclusion list"
  ra_hints :: "int list"

definition exclude :: "exclusion \<Rightarrow> 'b route_acc \<Rightarrow> 'b route_acc" where
  "exclude x acc = acc\<lparr>ra_excluded := ra_excluded acc @ [x]\<rparr>"

definition quote :: "string \<Rightarrow> string" where
  "quote s = CHR 0x27 # s @ [CHR 0x27]"

definition required_capabilities :: "routing_request \<Rightarrow> string list" where
  "required_capabilities rq =
     (if rq_required_capabilities rq \<noteq> [] then rq_required_capabilities rq
      else case rq_task_analysis rq of None \<Rightarrow> [] | Some ta \<Rightarrow> ta_capabilities_required ta)"

definition required_modalities :: "routing_request \<Rightarrow> string list" where
  "required_modalities rq =
     (if rq_required_modalities rq \<noteq> [] then map modality_value (rq_required_modalities rq)
      else case rq_task_analysis rq of None \<Rightarrow> []
        | Some ta \<Rightarrow> map modality_value (ta_modalities_required ta))"

definition candidate_models ::
  "'b router \<Rightarrow> model_policy \<Rightarrow> 'b route_acc \<Rightarrow> 'b route_acc \<times> model list" where
  "candidate_models rt policy acc =
     (let active = active_models (rt_models rt)
      in case policy of
           ExplicitPolicy k p af sc \<Rightarrow>
             (let matches = filter (\<lambda>m. md_model_key m = k) active
              in (if matches = []
                  then exclude \<lparr>ex_model_key = k, ex_provider_key = None,
                    ex_reason = ''explicit model not registered or not active''\<rparr> acc
                  else acc, matches))
         | TierPolicy t af sc \<Rightarrow>
             (let matches = filter (\<lambda>m. tier_value (md_tier m) = t) active
              in (if matches = []
                  then exclude \<lparr>ex_model_key = ''tier:'' @ t, ex_provider_key = None,
                    ex_reason = ''no active model in requested tier''\<rparr> acc
                  else acc, matches))
         | _ \<Rightarrow> (acc, active))"

fun join_sep :: "string \<Rightarrow> string list \<Rightarrow> string" where
  "join_sep sep [] = []"
| "join_sep sep [x] = x"
| "join_sep sep (x # y # xs) = x @ sep @ join_sep sep (y # xs)"

definition model_level_exclusion ::
  "'b router \<Rightarrow> model \<Rightarrow> string list \<Rightarrow> string list \<Rightarrow> routing_request \<Rightarrow> string option" where
  "model_level_exclusion rt m caps mods rq =
     (let missing_caps = filter (\<lambda>c. c \<notin> set (md_capabilities m)) caps;
          missing_mods = filter (\<lambda>c. c \<notin> modality_value ` set (md_modalities m)) mods
      in if missing_caps \<noteq> []
         then Some (''missing declared capabilities: '' @ join_sep '', '' (sort missing_caps))
         else if missing_mods \<noteq> []
         then Some (''missing modalities: '' @ join_sep '', '' (sort missing_mods))
         else case (rq_context_length_hint rq, md_context_window m) of
           (Some hint, Some window) \<Rightarrow>
             if window < hint
             then Some (''context window '' @ tx_int (rt_text rt) window @ '' below required ''
                        @ tx_int (rt_text rt) hint)
             else None
         | _ \<Rightarrow> None)"

definition explicit_provider :: "model_policy \<Rightarrow> string option" where
  "explicit_provider policy = (case policy of ExplicitPolicy k p af sc \<Rightarrow> p | _ \<Rightarrow> None)"

definition make_candidate :: "model \<Rightarrow> registered_provider \<Rightarrow> binding \<Rightarrow> candidate" where
  "make_candidate m e bd =
     \<lparr>ca_model = m, ca_provider = e, ca_binding = bd,
      ca_reasons =
        [''model '' @ quote (md_model_key m) @ '' active in tier '' @ quote (tier_value (md_tier m)),
         ''provider '' @ quote (pv_provider_key (rp_provider e)) @ '' routable for operation''],
      ca_risks = (if bd_availability bd = BINDING_DEGRADED then [''binding degraded''] else [])\<rparr>"

text \<open>The signal check of one binding: the answer, and the board after asking.\<close>

definition ask_signals :: "'b router \<Rightarrow> 'b \<Rightarrow> binding \<Rightarrow> 'b \<times> eligibility" where
  "ask_signals rt b bd =
     (case rt_signals rt of
        None \<Rightarrow> (b, admit_now)
      | Some answer \<Rightarrow> answer b (bd_provider_id bd) (bd_model_id bd) (Some (bd_limits_metadata bd)))"

definition consider_binding ::
  "'b router \<Rightarrow> model \<Rightarrow> model_policy \<Rightarrow> (uuid \<rightharpoonup> registered_provider) \<Rightarrow> binding \<Rightarrow> 'b route_acc
    \<Rightarrow> 'b route_acc \<times> candidate option" where
  "consider_binding rt m policy providers_by_id bd acc =
     (case providers_by_id (bd_provider_id bd) of
        None \<Rightarrow> (exclude \<lparr>ex_model_key = md_model_key m,
                   ex_provider_key = Some (tx_uuid (rt_text rt) (bd_provider_id bd)),
                   ex_reason = ''provider not routable for this operation''\<rparr> acc, None)
      | Some entry \<Rightarrow>
          (let key = pv_provider_key (rp_provider entry);
               drop_it = (\<lambda>reason. exclude \<lparr>ex_model_key = md_model_key m,
                            ex_provider_key = Some key, ex_reason = reason\<rparr>)
           in if explicit_provider policy \<noteq> None \<and> explicit_provider policy \<noteq> Some key
              then (drop_it ''excluded by explicit provider selection'' acc, None)
              else if bd_availability bd = BINDING_UNAVAILABLE
              then (drop_it ''binding unavailable'' acc, None)
              else
                (let (b', signal) = ask_signals rt (ra_board acc) bd;
                     acc' = acc\<lparr>ra_board := b'\<rparr>
                 in if \<not> el_eligible signal
                    then ((drop_it (''resource signal: ''
                             @ (case el_reason signal of None \<Rightarrow> ''None'' | Some r \<Rightarrow> r)) acc')
                          \<lparr>ra_hints := ra_hints acc'
                             @ (case el_retry_after_ms signal of None \<Rightarrow> [] | Some ms \<Rightarrow> [ms])\<rparr>,
                          None)
                    else (acc', Some (make_candidate m entry bd)))))"

fun binding_loop ::
  "'b router \<Rightarrow> model \<Rightarrow> model_policy \<Rightarrow> (uuid \<rightharpoonup> registered_provider) \<Rightarrow> binding list
    \<Rightarrow> 'b route_acc \<Rightarrow> 'b route_acc \<times> candidate list" where
  "binding_loop rt m policy pbi [] acc = (acc, [])"
| "binding_loop rt m policy pbi (bd # bds) acc =
     (let (acc1, c) = consider_binding rt m policy pbi bd acc;
          (acc2, cs) = binding_loop rt m policy pbi bds acc1
      in (acc2, (case c of None \<Rightarrow> cs | Some x \<Rightarrow> x # cs)))"

definition provider_candidates ::
  "'b router \<Rightarrow> model \<Rightarrow> model_policy \<Rightarrow> (uuid \<rightharpoonup> registered_provider) \<Rightarrow> 'b route_acc
    \<Rightarrow> 'b route_acc \<times> candidate list" where
  "provider_candidates rt m policy pbi acc =
     (let bds = bindings_for_model (rt_bindings rt) (md_id m)
      in if bds = []
         then (exclude \<lparr>ex_model_key = md_model_key m, ex_provider_key = None,
                 ex_reason = ''no provider binding''\<rparr> acc, [])
         else binding_loop rt m policy pbi bds acc)"

fun model_loop ::
  "'b router \<Rightarrow> routing_request \<Rightarrow> model_policy \<Rightarrow> (uuid \<rightharpoonup> registered_provider) \<Rightarrow> model list
    \<Rightarrow> 'b route_acc \<Rightarrow> 'b route_acc \<times> candidate list" where
  "model_loop rt rq policy pbi [] acc = (acc, [])"
| "model_loop rt rq policy pbi (m # ms) acc =
     (case model_level_exclusion rt m (required_capabilities rq) (required_modalities rq) rq of
        Some reason \<Rightarrow>
          model_loop rt rq policy pbi ms
            (exclude \<lparr>ex_model_key = md_model_key m, ex_provider_key = None,
               ex_reason = reason\<rparr> acc)
      | None \<Rightarrow>
          (let (acc1, cs1) = provider_candidates rt m policy pbi acc;
               (acc2, cs2) = model_loop rt rq policy pbi ms acc1
           in (acc2, cs1 @ cs2)))"

text \<open>\<open>{entry.provider.id: entry for entry in routing_candidates(operation)}\<close>.\<close>

definition providers_by_id :: "'b router \<Rightarrow> routing_request \<Rightarrow> uuid \<rightharpoonup> registered_provider" where
  "providers_by_id rt rq =
     map_of (rev (map (\<lambda>e. (pv_id (rp_provider e), e))
                    (routing_candidates (rt_providers rt) (Some (rq_operation rq)))))"

definition eligible_candidates ::
  "'b router \<Rightarrow> routing_request \<Rightarrow> model_policy \<Rightarrow> 'b route_acc \<Rightarrow> 'b route_acc \<times> candidate list"
where
  "eligible_candidates rt rq policy acc =
     (let (acc1, models) = candidate_models rt policy acc
      in model_loop rt rq policy (providers_by_id rt rq) models acc1)"

section \<open>Scoring\<close>

text \<open>\<open>round(x, 6)\<close>, half to even.\<close>

definition round6 :: "rat \<Rightarrow> rat" where
  "round6 x =
     dbl (of_int (round_half_even (x * 1000000)) / 1000000)"

text \<open>\<open>a * x + b * y + \<dots>\<close> on doubles, from the left.\<close>

definition weighted_sum :: "(rat \<times> rat) list \<Rightarrow> rat" where
  "weighted_sum ps = foldl (\<lambda>acc (w, v). dbl (acc + dbl (w * v))) 0 ps"

definition score_component :: "rat option \<Rightarrow> string \<Rightarrow> string list \<Rightarrow> rat \<times> string list" where
  "score_component v name risks =
     (case v of None \<Rightarrow> (0, risks @ [name @ '' score undeclared'']) | Some x \<Rightarrow> (x, risks))"

definition policy_preference :: "model \<Rightarrow> model_policy \<Rightarrow> string list \<Rightarrow> rat \<times> string list" where
  "policy_preference m policy reasons =
     (case policy of
        ExplicitPolicy k p af sc \<Rightarrow> (1, reasons @ [''explicit model selection honored''])
      | TierPolicy t af sc \<Rightarrow> (1, reasons @ [''tier '' @ quote t @ '' constraint satisfied''])
      | AutoPolicy (Some t) af sc \<Rightarrow>
          if tier_value (md_tier m) = t
          then (1, reasons @ [''matches auto tier hint '' @ quote t]) else (0, reasons)
      | _ \<Rightarrow> (0, reasons))"

definition score_candidate ::
  "candidate \<Rightarrow> model_policy \<Rightarrow> scoring_weights \<Rightarrow> candidate_score" where
  "score_candidate c policy w =
     (let m = ca_model c;
          (quality, risks1) = score_component (md_quality_score m) ''quality'' (ca_risks c);
          (reliability, risks2) = score_component (md_reliability_score m) ''reliability'' risks1;
          (cost, risks3) = score_component (md_cost_score m) ''cost'' risks2;
          (latency, risks4) = score_component (md_speed_score m) ''latency'' risks3;
          context_fit = 1;
          (preference, reasons) = policy_preference m policy (ca_reasons c);
          score = weighted_sum [(sw_quality w, quality), (sw_reliability w, reliability),
            (sw_cost w, cost), (sw_latency w, latency), (sw_context_fit w, context_fit),
            (sw_policy_preference w, preference)]
      in \<lparr>cs_model_id = md_id m, cs_provider_id = pv_id (rp_provider (ca_provider c)),
          cs_account_id = None, cs_score = round6 score,
          cs_reasons = (if ca_risks c \<noteq> [] then reasons @ [''selected despite recorded risks'']
                        else reasons),
          cs_risks = risks4\<rparr>)"

definition rank_key :: "candidate_score \<times> candidate \<Rightarrow> rat \<times> string \<times> string" where
  "rank_key x = (- cs_score (fst x), md_model_key (ca_model (snd x)),
                 pv_provider_key (rp_provider (ca_provider (snd x))))"

definition rank_candidates ::
  "candidate list \<Rightarrow> model_policy \<Rightarrow> scoring_weights \<Rightarrow> candidate_score list" where
  "rank_candidates cs policy w =
     map fst (sort_key rank_key (zip (map (\<lambda>c. score_candidate c policy w) cs) cs))"

section \<open>Fallback\<close>

fun policy_allow_fallback :: "model_policy \<Rightarrow> bool option" where
  "policy_allow_fallback (AutoPolicy t af sc) = af"
| "policy_allow_fallback (TierPolicy t af sc) = af"
| "policy_allow_fallback (ExplicitPolicy k p af sc) = af"
| "policy_allow_fallback (ExplicitModelsPolicy ms st j ap af sc) = af"
| "policy_allow_fallback (AgentNodeMapping d ns) = None"

fun policy_fallback_scope :: "model_policy \<Rightarrow> fallback_scope option" where
  "policy_fallback_scope (AutoPolicy t af sc) = sc"
| "policy_fallback_scope (TierPolicy t af sc) = sc"
| "policy_fallback_scope (ExplicitPolicy k p af sc) = sc"
| "policy_fallback_scope (ExplicitModelsPolicy ms st j ap af sc) = sc"
| "policy_fallback_scope (AgentNodeMapping d ns) = None"

definition resolve_fallback_scope :: "model_policy \<Rightarrow> fallback_scope option" where
  "resolve_fallback_scope policy =
     (if policy_allow_fallback policy = Some False then Some SCOPE_NONE
      else case policy_fallback_scope policy of
        Some sc \<Rightarrow> Some sc
      | None \<Rightarrow> Some SAME_MODEL_DIFFERENT_PROVIDER)"

text \<open>\<open>self._models.get_by_id(c.model_id)\<close> for each candidate of a list.\<close>

fun lookup_models ::
  "model registry \<Rightarrow> candidate_score list \<Rightarrow> boundary_error + (candidate_score \<times> model) list" where
  "lookup_models r [] = Inr []"
| "lookup_models r (c # cs) =
     result_bind (model_get_by_id r (cs_model_id c))
       (\<lambda>m. result_bind (lookup_models r cs) (\<lambda>rest. Inr ((c, m) # rest)))"

definition routing_result :: "boundary_error + 'a \<Rightarrow> routing_error + 'a" where
  "routing_result r = (case r of Inl e \<Rightarrow> Inl (RoutingLookup e) | Inr a \<Rightarrow> Inr a)"

definition cost_or_zero :: "model \<Rightarrow> rat" where
  "cost_or_zero m = (case md_cost_score m of None \<Rightarrow> 0 | Some c \<Rightarrow> c)"

text \<open>\<open>{key: i for i, key in enumerate(chain)}\<close>.\<close>

definition chain_order :: "string list \<Rightarrow> string \<rightharpoonup> nat" where
  "chain_order chain = map_of (rev (zip chain [0..<length chain]))"

definition fallback_candidates ::
  "'b router \<Rightarrow> candidate_score list \<Rightarrow> fallback_scope option
    \<Rightarrow> routing_error + candidate_score list" where
  "fallback_candidates rt ranked scope =
     (let rest = tl ranked; models = rt_models rt
      in case scope of
           None \<Rightarrow> Inr []
         | Some SCOPE_NONE \<Rightarrow> Inr []
         | Some ADMIN_DEFINED_CHAIN \<Rightarrow>
             (case rt_admin_fallback_chain rt of
                None \<Rightarrow> Inl FallbackNotConfigured
              | Some [] \<Rightarrow> Inl FallbackNotConfigured
              | Some chain \<Rightarrow>
                  result_bind (routing_result (lookup_models models rest))
                    (\<lambda>cms. Inr (map fst (sort_key (\<lambda>x. the (chain_order chain (md_model_key (snd x))))
                       (filter (\<lambda>x. chain_order chain (md_model_key (snd x)) \<noteq> None) cms)))))
         | Some SAME_MODEL_DIFFERENT_PROVIDER \<Rightarrow>
             Inr (filter (\<lambda>c. cs_model_id c = cs_model_id (hd ranked)) rest)
         | Some SAME_TIER \<Rightarrow>
             result_bind (routing_result (model_get_by_id models (cs_model_id (hd ranked))))
               (\<lambda>sel. result_bind (routing_result (lookup_models models rest))
                 (\<lambda>cms. Inr (map fst (filter (\<lambda>x. md_tier (snd x) = md_tier sel) cms))))
         | Some LOWER_COST_SAME_CAPABILITY \<Rightarrow>
             result_bind (routing_result (model_get_by_id models (cs_model_id (hd ranked))))
               (\<lambda>sel. result_bind (routing_result (lookup_models models rest))
                 (\<lambda>cms. Inr (map fst
                    (filter (\<lambda>x. cost_or_zero sel \<le> cost_or_zero (snd x)) cms))))
         | Some MAX_ESCALATION \<Rightarrow> Inr rest)"

section \<open>Routing\<close>

definition in_slice :: "model_policy \<Rightarrow> bool" where
  "in_slice policy = (case policy of
     AutoPolicy t af sc \<Rightarrow> True | TierPolicy t af sc \<Rightarrow> True
   | ExplicitPolicy k p af sc \<Rightarrow> True | _ \<Rightarrow> False)"

definition effective_policy :: "routing_request \<Rightarrow> model_policy" where
  "effective_policy rq = (case rq_model_policy rq of None \<Rightarrow> AUTO_POLICY | Some p \<Rightarrow> p)"

definition min_hint :: "int list \<Rightarrow> int option" where
  "min_hint hints = (if hints = [] then None else Some (Min (set hints)))"

text \<open>The pool the fallback route is taken from: widened for an explicit model.\<close>

definition widened_pool ::
  "'b router \<Rightarrow> routing_request \<Rightarrow> model_policy \<Rightarrow> scoring_weights \<Rightarrow> fallback_scope option
    \<Rightarrow> candidate_score list \<Rightarrow> 'b \<Rightarrow> 'b \<times> candidate_score list" where
  "widened_pool rt rq policy w scope ranked b =
     (case policy of
        ExplicitPolicy k p af sc \<Rightarrow>
          if scope \<noteq> None \<and> the scope \<in> WIDENING_SCOPES
          then
            (let (acc, cs) = eligible_candidates rt rq AUTO_POLICY
                   \<lparr>ra_board = b, ra_excluded = [], ra_hints = []\<rparr>;
                 others = filter (\<lambda>c. md_model_key (ca_model c) \<noteq> k) cs
             in (ra_board acc, ranked @ rank_candidates others policy w))
          else (b, ranked)
      | _ \<Rightarrow> (b, ranked))"

definition route ::
  "timestamp \<Rightarrow> 'b router \<Rightarrow> routing_request \<Rightarrow> 'b \<Rightarrow> 'b \<times> (routing_error + routing_decision)" where
  "route now rt rq b =
     (let policy = effective_policy rq
      in if \<not> in_slice policy then (b, Inl (UnsupportedPolicyType policy))
         else
          (let w = (case rq_weights rq of None \<Rightarrow> rt_default_weights rt | Some x \<Rightarrow> x);
               (acc, cs) = eligible_candidates rt rq policy
                 \<lparr>ra_board = b, ra_excluded = [], ra_hints = []\<rparr>
           in if cs = []
              then (ra_board acc, Inl (NoEligibleCandidates (ra_excluded acc) (min_hint (ra_hints acc))))
              else
               (let ranked = rank_candidates cs policy w;
                    scope = resolve_fallback_scope policy;
                    (b', pool) = widened_pool rt rq policy w scope ranked (ra_board acc)
                in (b', result_bind (fallback_candidates rt pool scope)
                     (\<lambda>fallback. Inr \<lparr>rd_selected = hd ranked, rd_ranked = ranked,
                        rd_fallback_candidates = fallback, rd_excluded = ra_excluded acc,
                        rd_policy_snapshot = policy, rd_fallback_policy = scope,
                        rd_weights = w, rd_decided_at = now\<rparr>)))))"

section \<open>What a candidate has passed\<close>

definition policy_admits_model :: "model_policy \<Rightarrow> model \<Rightarrow> bool" where
  "policy_admits_model policy m = (case policy of
     ExplicitPolicy k p af sc \<Rightarrow> md_model_key m = k
   | TierPolicy t af sc \<Rightarrow> tier_value (md_tier m) = t
   | _ \<Rightarrow> True)"

text \<open>The hard filters on a (model, provider, binding) triple, the signal answer aside.\<close>

definition static_ok ::
  "'b router \<Rightarrow> routing_request \<Rightarrow> model_policy \<Rightarrow> model \<Rightarrow> registered_provider \<Rightarrow> binding \<Rightarrow> bool"
where
  "static_ok rt rq policy m e bd \<longleftrightarrow>
     m \<in> set (active_models (rt_models rt)) \<and> policy_admits_model policy m
     \<and> model_level_exclusion rt m (required_capabilities rq) (required_modalities rq) rq = None
     \<and> bd \<in> set (bindings_for_model (rt_bindings rt) (md_id m))
     \<and> providers_by_id rt rq (bd_provider_id bd) = Some e
     \<and> (explicit_provider policy = None
        \<or> explicit_provider policy = Some (pv_provider_key (rp_provider e)))
     \<and> bd_availability bd \<noteq> BINDING_UNAVAILABLE"

definition candidate_ok :: "'b router \<Rightarrow> routing_request \<Rightarrow> model_policy \<Rightarrow> candidate \<Rightarrow> bool" where
  "candidate_ok rt rq policy c \<longleftrightarrow>
     static_ok rt rq policy (ca_model c) (ca_provider c) (ca_binding c)
     \<and> c = make_candidate (ca_model c) (ca_provider c) (ca_binding c)"

text \<open>
  The signal checks of a pass: the bindings asked about, in order, the board they lead to, and the
  ones answered eligible by the board as it was when they were asked.
\<close>

definition ask_all :: "'b router \<Rightarrow> 'b \<Rightarrow> binding list \<Rightarrow> 'b" where
  "ask_all rt b asked = foldl (\<lambda>b bd. fst (ask_signals rt b bd)) b asked"

definition answered_eligible :: "'b router \<Rightarrow> 'b \<Rightarrow> binding list \<Rightarrow> binding \<Rightarrow> bool" where
  "answered_eligible rt b asked bd \<longleftrightarrow> (\<exists>earlier later. asked = earlier @ bd # later
     \<and> el_eligible (snd (ask_signals rt (ask_all rt b earlier) bd)))"

text \<open>A pass from board \<open>b\<close> to board \<open>b'\<close> that yields the candidates \<open>cs\<close>.\<close>

definition asked_pass :: "'b router \<Rightarrow> 'b \<Rightarrow> 'b \<Rightarrow> candidate list \<Rightarrow> binding list \<Rightarrow> bool" where
  "asked_pass rt b b' cs asked \<longleftrightarrow> b' = ask_all rt b asked
     \<and> (\<forall>c\<in>set cs. answered_eligible rt b asked (ca_binding c))"

lemma ask_all_append: "ask_all rt b (xs @ ys) = ask_all rt (ask_all rt b xs) ys"
  by (simp add: ask_all_def)

lemma answered_eligible_earlier:
  "answered_eligible rt b xs bd \<Longrightarrow> answered_eligible rt b (xs @ ys) bd"
  unfolding answered_eligible_def by force

lemma answered_eligible_later:
  assumes "answered_eligible rt (ask_all rt b xs) ys bd"
  shows "answered_eligible rt b (xs @ ys) bd"
proof -
  from assms obtain earlier later where "ys = earlier @ bd # later"
    "el_eligible (snd (ask_signals rt (ask_all rt (ask_all rt b xs) earlier) bd))"
    by (auto simp: answered_eligible_def)
  then have "xs @ ys = (xs @ earlier) @ bd # later"
    "el_eligible (snd (ask_signals rt (ask_all rt b (xs @ earlier)) bd))"
    by (simp_all add: ask_all_append)
  then show ?thesis unfolding answered_eligible_def by blast
qed

lemma asked_pass_Nil: "asked_pass rt b b [] []"
  by (simp add: asked_pass_def ask_all_def)

lemma asked_pass_one:
  "asked_pass rt b (fst (ask_signals rt b bd)) [] [bd]"
  "el_eligible (snd (ask_signals rt b (ca_binding c))) \<Longrightarrow>
     asked_pass rt b (fst (ask_signals rt b (ca_binding c))) [c] [ca_binding c]"
  by (auto simp: asked_pass_def ask_all_def answered_eligible_def intro!: exI [of _ "[]"])

lemma asked_pass_append:
  "asked_pass rt b b1 cs xs \<Longrightarrow> asked_pass rt b1 b2 ds ys \<Longrightarrow> asked_pass rt b b2 (cs @ ds) (xs @ ys)"
  by (auto simp: asked_pass_def ask_all_append intro: answered_eligible_earlier answered_eligible_later)

lemma exclude_sel [simp]:
  "ra_board (exclude x acc) = ra_board acc" "ra_hints (exclude x acc) = ra_hints acc"
  "ra_excluded (exclude x acc) = ra_excluded acc @ [x]"
  by (simp_all add: exclude_def)

lemma make_candidate_sel [simp]:
  "ca_model (make_candidate m e bd) = m" "ca_provider (make_candidate m e bd) = e"
  "ca_binding (make_candidate m e bd) = bd"
  by (simp_all add: make_candidate_def)

lemma consider_binding_Some:
  assumes "consider_binding rt m policy pbi bd acc = (acc', Some c)"
  shows "\<exists>e. pbi (bd_provider_id bd) = Some e \<and> c = make_candidate m e bd
    \<and> (explicit_provider policy = None
       \<or> explicit_provider policy = Some (pv_provider_key (rp_provider e)))
    \<and> bd_availability bd \<noteq> BINDING_UNAVAILABLE
    \<and> el_eligible (snd (ask_signals rt (ra_board acc) bd))"
  using assms
  by (auto simp: consider_binding_def Let_def split: option.splits if_splits prod.splits)

lemma consider_binding_asks:
  assumes "consider_binding rt m policy pbi bd acc = (acc', c)"
  shows "\<exists>asked. asked_pass rt (ra_board acc) (ra_board acc') (case c of None \<Rightarrow> [] | Some x \<Rightarrow> [x]) asked"
proof -
  obtain b1 signal where ask: "ask_signals rt (ra_board acc) bd = (b1, signal)" by fastforce
  from assms consider "c = None" "ra_board acc' = ra_board acc" | "c = None" "ra_board acc' = b1"
    | e where "c = Some (make_candidate m e bd)" "ra_board acc' = b1" "el_eligible signal"
    by (auto simp: consider_binding_def Let_def ask split: option.splits if_splits)
  then show ?thesis
  proof cases
    case 1
    then show ?thesis using asked_pass_Nil [of rt "ra_board acc"] by auto
  next
    case 2
    then show ?thesis using asked_pass_one(1) [of rt "ra_board acc" bd] ask by auto
  next
    case 3
    then show ?thesis
      using asked_pass_one(2) [of rt "ra_board acc" "make_candidate m e bd"] ask by auto
  qed
qed

lemma consider_binding_explains:
  assumes "consider_binding rt m policy pbi bd acc = (acc', c)"
  shows "(c = None \<longrightarrow> ra_excluded acc' \<noteq> []) \<and> (ra_excluded acc \<noteq> [] \<longrightarrow> ra_excluded acc' \<noteq> [])"
  using assms
  by (auto simp: consider_binding_def Let_def split: option.splits if_splits prod.splits)

lemma binding_loop_sound:
  "binding_loop rt m policy pbi bds acc = (acc', cs) \<Longrightarrow> c \<in> set cs \<Longrightarrow>
    \<exists>bd\<in>set bds. \<exists>acc1 acc2. consider_binding rt m policy pbi bd acc1 = (acc2, Some c)"
proof (induction bds arbitrary: acc acc' cs)
  case (Cons bd bds)
  obtain acc1 x where x: "consider_binding rt m policy pbi bd acc = (acc1, x)" by fastforce
  obtain acc2 ys where y: "binding_loop rt m policy pbi bds acc1 = (acc2, ys)" by fastforce
  have "cs = (case x of None \<Rightarrow> ys | Some z \<Rightarrow> z # ys)"
    using Cons.prems(1) x y by simp
  with Cons.prems(2) consider "x = Some c" | "c \<in> set ys"
    by (auto split: option.splits)
  then show ?case
  proof cases
    case 1
    with x show ?thesis by fastforce
  next
    case 2
    from Cons.IH [OF y this] show ?thesis by auto
  qed
qed simp

lemma binding_loop_asks:
  "binding_loop rt m policy pbi bds acc = (acc', cs) \<Longrightarrow>
    \<exists>asked. asked_pass rt (ra_board acc) (ra_board acc') cs asked"
proof (induction bds arbitrary: acc acc' cs)
  case Nil
  then show ?case by (auto intro: exI [of _ "[]"] asked_pass_Nil)
next
  case (Cons bd bds)
  obtain acc1 x where x: "consider_binding rt m policy pbi bd acc = (acc1, x)" by fastforce
  obtain acc2 ys where y: "binding_loop rt m policy pbi bds acc1 = (acc2, ys)" by fastforce
  have "acc' = acc2" "cs = (case x of None \<Rightarrow> [] | Some z \<Rightarrow> [z]) @ ys"
    using Cons.prems x y by (auto split: option.splits)
  with consider_binding_asks [OF x] Cons.IH [OF y] show ?case by (auto intro: asked_pass_append)
qed

lemma binding_loop_explains:
  "binding_loop rt m policy pbi bds acc = (acc', cs) \<Longrightarrow>
    (bds \<noteq> [] \<and> cs = [] \<longrightarrow> ra_excluded acc' \<noteq> []) \<and> (ra_excluded acc \<noteq> [] \<longrightarrow> ra_excluded acc' \<noteq> [])"
proof (induction bds arbitrary: acc acc' cs)
  case (Cons bd bds)
  obtain acc1 x where x: "consider_binding rt m policy pbi bd acc = (acc1, x)" by fastforce
  obtain acc2 ys where y: "binding_loop rt m policy pbi bds acc1 = (acc2, ys)" by fastforce
  from consider_binding_explains [OF x] Cons.IH [OF y] Cons.prems x y
  show ?case by (auto split: option.splits)
qed simp

lemma provider_candidates_sound:
  assumes "provider_candidates rt m policy pbi acc = (acc', cs)" and "c \<in> set cs"
  shows "\<exists>bd\<in>set (bindings_for_model (rt_bindings rt) (md_id m)).
    \<exists>acc1 acc2. consider_binding rt m policy pbi bd acc1 = (acc2, Some c)"
  using assms binding_loop_sound
  by (fastforce simp: provider_candidates_def Let_def split: if_splits)

lemma provider_candidates_asks:
  "provider_candidates rt m policy pbi acc = (acc', cs) \<Longrightarrow>
    \<exists>asked. asked_pass rt (ra_board acc) (ra_board acc') cs asked"
  using binding_loop_asks asked_pass_Nil
  by (fastforce simp: provider_candidates_def Let_def split: if_splits)

lemma provider_candidates_explains:
  "provider_candidates rt m policy pbi acc = (acc', cs) \<Longrightarrow>
    (cs = [] \<longrightarrow> ra_excluded acc' \<noteq> []) \<and> (ra_excluded acc \<noteq> [] \<longrightarrow> ra_excluded acc' \<noteq> [])"
  using binding_loop_explains
  by (fastforce simp: provider_candidates_def Let_def split: if_splits)

lemma model_loop_sound:
  "model_loop rt rq policy pbi ms acc = (acc', cs) \<Longrightarrow> c \<in> set cs \<Longrightarrow>
    \<exists>m\<in>set ms. model_level_exclusion rt m (required_capabilities rq) (required_modalities rq) rq = None
      \<and> (\<exists>bd\<in>set (bindings_for_model (rt_bindings rt) (md_id m)).
           \<exists>acc1 acc2. consider_binding rt m policy pbi bd acc1 = (acc2, Some c))"
proof (induction ms arbitrary: acc acc' cs)
  case (Cons m ms)
  show ?case
  proof (cases "model_level_exclusion rt m (required_capabilities rq) (required_modalities rq) rq")
    case None
    obtain acc1 xs where x: "provider_candidates rt m policy pbi acc = (acc1, xs)" by fastforce
    obtain acc2 ys where y: "model_loop rt rq policy pbi ms acc1 = (acc2, ys)" by fastforce
    have "cs = xs @ ys" using Cons.prems(1) None x y by simp
    with Cons.prems(2) consider "c \<in> set xs" | "c \<in> set ys" by auto
    then show ?thesis
    proof cases
      case 1
      from provider_candidates_sound [OF x this] None show ?thesis by auto
    next
      case 2
      from Cons.IH [OF y this] show ?thesis by auto
    qed
  next
    case (Some reason)
    with Cons.prems(1) have "model_loop rt rq policy pbi ms
        (exclude \<lparr>ex_model_key = md_model_key m, ex_provider_key = None, ex_reason = reason\<rparr> acc)
        = (acc', cs)" by simp
    from Cons.IH [OF this Cons.prems(2)] show ?thesis by auto
  qed
qed simp

lemma model_loop_asks:
  "model_loop rt rq policy pbi ms acc = (acc', cs) \<Longrightarrow>
    \<exists>asked. asked_pass rt (ra_board acc) (ra_board acc') cs asked"
proof (induction ms arbitrary: acc acc' cs)
  case Nil
  then show ?case by (auto intro: exI [of _ "[]"] asked_pass_Nil)
next
  case (Cons m ms)
  show ?case
  proof (cases "model_level_exclusion rt m (required_capabilities rq) (required_modalities rq) rq")
    case None
    obtain acc1 xs where x: "provider_candidates rt m policy pbi acc = (acc1, xs)" by fastforce
    obtain acc2 ys where y: "model_loop rt rq policy pbi ms acc1 = (acc2, ys)" by fastforce
    have "acc' = acc2" "cs = xs @ ys" using Cons.prems None x y by simp_all
    with provider_candidates_asks [OF x] Cons.IH [OF y] show ?thesis by (auto intro: asked_pass_append)
  next
    case (Some reason)
    with Cons.prems have "model_loop rt rq policy pbi ms
        (exclude \<lparr>ex_model_key = md_model_key m, ex_provider_key = None, ex_reason = reason\<rparr> acc)
        = (acc', cs)" by simp
    from Cons.IH [OF this] show ?thesis by simp
  qed
qed

lemma model_loop_explains:
  "model_loop rt rq policy pbi ms acc = (acc', cs) \<Longrightarrow>
    (ms \<noteq> [] \<and> cs = [] \<longrightarrow> ra_excluded acc' \<noteq> []) \<and> (ra_excluded acc \<noteq> [] \<longrightarrow> ra_excluded acc' \<noteq> [])"
proof (induction ms arbitrary: acc acc' cs)
  case (Cons m ms)
  show ?case
  proof (cases "model_level_exclusion rt m (required_capabilities rq) (required_modalities rq) rq")
    case None
    obtain acc1 xs where x: "provider_candidates rt m policy pbi acc = (acc1, xs)" by fastforce
    obtain acc2 ys where y: "model_loop rt rq policy pbi ms acc1 = (acc2, ys)" by fastforce
    from provider_candidates_explains [OF x] Cons.IH [OF y] Cons.prems None x y
    show ?thesis by auto
  next
    case (Some reason)
    with Cons.prems(1) have "model_loop rt rq policy pbi ms
        (exclude \<lparr>ex_model_key = md_model_key m, ex_provider_key = None, ex_reason = reason\<rparr> acc)
        = (acc', cs)" by simp
    from Cons.IH [OF this] show ?thesis by simp
  qed
qed simp

lemma candidate_models_eq:
  "snd (candidate_models rt policy acc) =
     filter (policy_admits_model policy) (active_models (rt_models rt))"
  by (cases policy) (simp_all add: candidate_models_def policy_admits_model_def [abs_def] Let_def)

lemma candidate_models_explains:
  "candidate_models rt policy acc = (acc', ms) \<Longrightarrow>
    (ms = [] \<and> active_models (rt_models rt) \<noteq> [] \<longrightarrow> ra_excluded acc' \<noteq> [])
    \<and> (ra_excluded acc \<noteq> [] \<longrightarrow> ra_excluded acc' \<noteq> [])"
  by (auto simp: candidate_models_def Let_def split: model_policy.splits if_splits)

lemma eligible_candidates_sound:
  assumes "eligible_candidates rt rq policy acc = (acc', cs)" and "c \<in> set cs"
  shows "candidate_ok rt rq policy c"
proof -
  obtain acc1 ms where m: "candidate_models rt policy acc = (acc1, ms)" by fastforce
  have ms: "set ms = {m \<in> set (active_models (rt_models rt)). policy_admits_model policy m}"
    using candidate_models_eq [of rt policy acc] m by auto
  from m assms(1) have "model_loop rt rq policy (providers_by_id rt rq) ms acc1 = (acc', cs)"
    by (simp add: eligible_candidates_def)
  from model_loop_sound [OF this assms(2)] obtain m bd acc2 acc3 where
    m: "m \<in> set ms" and bd: "bd \<in> set (bindings_for_model (rt_bindings rt) (md_id m))"
    and x: "model_level_exclusion rt m (required_capabilities rq) (required_modalities rq) rq = None"
    and c: "consider_binding rt m policy (providers_by_id rt rq) bd acc2 = (acc3, Some c)"
    by blast
  from consider_binding_Some [OF c] obtain e where
    e: "providers_by_id rt rq (bd_provider_id bd) = Some e" and mk: "c = make_candidate m e bd"
    and ok: "explicit_provider policy = None
       \<or> explicit_provider policy = Some (pv_provider_key (rp_provider e))"
      "bd_availability bd \<noteq> BINDING_UNAVAILABLE"
      "el_eligible (snd (ask_signals rt (ra_board acc2) bd))"
    by blast
  have "static_ok rt rq policy m e bd"
    using m ms x bd e ok unfolding static_ok_def by blast
  then show ?thesis unfolding candidate_ok_def mk make_candidate_sel by blast
qed

lemma eligible_candidates_asks:
  assumes "eligible_candidates rt rq policy acc = (acc', cs)"
  shows "\<exists>asked. asked_pass rt (ra_board acc) (ra_board acc') cs asked"
proof -
  obtain acc1 ms where m: "candidate_models rt policy acc = (acc1, ms)" by fastforce
  then have "ra_board acc1 = ra_board acc"
    by (auto simp: candidate_models_def Let_def split: model_policy.splits if_splits)
  moreover from m assms have "model_loop rt rq policy (providers_by_id rt rq) ms acc1 = (acc', cs)"
    by (simp add: eligible_candidates_def)
  ultimately show ?thesis using model_loop_asks by metis
qed

lemma eligible_candidates_explains:
  assumes "eligible_candidates rt rq policy acc = (acc', [])"
    and "active_models (rt_models rt) \<noteq> []"
  shows "ra_excluded acc' \<noteq> []"
proof -
  obtain acc1 ms where m: "candidate_models rt policy acc = (acc1, ms)" by fastforce
  with assms(1) have "model_loop rt rq policy (providers_by_id rt rq) ms acc1 = (acc', [])"
    by (simp add: eligible_candidates_def)
  from model_loop_explains [OF this] candidate_models_explains [OF m] assms(2)
  show ?thesis by blast
qed

section \<open>The ranking\<close>

lemma rank_candidates_set:
  "set (rank_candidates cs policy w) = (\<lambda>c. score_candidate c policy w) ` set cs"
  by (force simp: rank_candidates_def set_zip in_set_conv_nth image_iff)

lemma rank_candidates_length: "length (rank_candidates cs policy w) = length cs"
  by (simp add: rank_candidates_def)

lemma rank_candidates_sorted:
  "sorted_wrt (\<lambda>x y. cs_score y \<le> cs_score x) (rank_candidates cs policy w)"
proof -
  have "sorted_wrt (\<lambda>x y. rank_key x \<le> rank_key y)
      (sort_key rank_key (zip (map (\<lambda>c. score_candidate c policy w) cs) cs))" (is "sorted_wrt _ ?xs")
    using sorted_sort_key [of rank_key "zip (map (\<lambda>c. score_candidate c policy w) cs) cs"]
    by (simp add: sorted_map)
  then have "sorted_wrt (\<lambda>x y. cs_score (fst y) \<le> cs_score (fst x)) ?xs"
    by (rule sorted_wrt_mono_rel [rotated]) (auto simp: rank_key_def less_eq_prod_def)
  then show ?thesis by (simp add: rank_candidates_def sorted_wrt_map)
qed

text \<open>Where the candidates of a fallback route may come from.\<close>

lemma lookup_models_mem:
  "lookup_models r cs = Inr cms \<Longrightarrow> (c, m) \<in> set cms \<Longrightarrow>
    c \<in> set cs \<and> model_get_by_id r (cs_model_id c) = Inr m"
  by (induction cs arbitrary: cms) (auto simp: result_bind_Inr_iff)

lemma routing_result_Inr [simp]: "routing_result r = Inr a \<longleftrightarrow> r = Inr a"
  by (cases r) (simp_all add: routing_result_def)

lemma fallback_candidates_scope:
  assumes "fallback_candidates rt ranked scope = Inr fb" and "c \<in> set fb"
  shows "c \<in> set (tl ranked) \<and> scope \<noteq> None \<and> scope \<noteq> Some SCOPE_NONE
    \<and> (scope = Some SAME_MODEL_DIFFERENT_PROVIDER \<longrightarrow> cs_model_id c = cs_model_id (hd ranked))
    \<and> (scope = Some SAME_TIER \<longrightarrow> (\<exists>m sel. model_get_by_id (rt_models rt) (cs_model_id c) = Inr m
         \<and> model_get_by_id (rt_models rt) (cs_model_id (hd ranked)) = Inr sel \<and> md_tier m = md_tier sel))
    \<and> (scope = Some LOWER_COST_SAME_CAPABILITY \<longrightarrow>
         (\<exists>m sel. model_get_by_id (rt_models rt) (cs_model_id c) = Inr m
         \<and> model_get_by_id (rt_models rt) (cs_model_id (hd ranked)) = Inr sel
         \<and> cost_or_zero sel \<le> cost_or_zero m))
    \<and> (scope = Some ADMIN_DEFINED_CHAIN \<longrightarrow>
         (\<exists>m chain. model_get_by_id (rt_models rt) (cs_model_id c) = Inr m
         \<and> rt_admin_fallback_chain rt = Some chain \<and> md_model_key m \<in> set chain))"
proof (cases scope)
  case (Some sc)
  show ?thesis
  proof (cases sc)
    case SAME_TIER
    then obtain sel cms where l: "model_get_by_id (rt_models rt) (cs_model_id (hd ranked)) = Inr sel"
        "lookup_models (rt_models rt) (tl ranked) = Inr cms"
        "fb = map fst (filter (\<lambda>x. md_tier (snd x) = md_tier sel) cms)"
      using assms(1) Some by (auto simp: fallback_candidates_def Let_def result_bind_Inr_iff)
    with assms(2) obtain m where m: "(c, m) \<in> set cms" "md_tier m = md_tier sel" by auto
    from lookup_models_mem [OF l(2) m(1)] l(1) m(2) SAME_TIER Some show ?thesis by simp
  next
    case LOWER_COST_SAME_CAPABILITY
    then obtain sel cms where l: "model_get_by_id (rt_models rt) (cs_model_id (hd ranked)) = Inr sel"
        "lookup_models (rt_models rt) (tl ranked) = Inr cms"
        "fb = map fst (filter (\<lambda>x. cost_or_zero sel \<le> cost_or_zero (snd x)) cms)"
      using assms(1) Some by (auto simp: fallback_candidates_def Let_def result_bind_Inr_iff)
    with assms(2) obtain m where m: "(c, m) \<in> set cms" "cost_or_zero sel \<le> cost_or_zero m"
      by auto
    from lookup_models_mem [OF l(2) m(1)] l(1) m(2) LOWER_COST_SAME_CAPABILITY Some
    show ?thesis by simp
  next
    case ADMIN_DEFINED_CHAIN
    then obtain chain cms where l: "rt_admin_fallback_chain rt = Some chain"
        "lookup_models (rt_models rt) (tl ranked) = Inr cms"
        "set fb \<subseteq> fst ` {x \<in> set cms. chain_order chain (md_model_key (snd x)) \<noteq> None}"
      using assms(1) Some
      by (auto simp: fallback_candidates_def Let_def result_bind_Inr_iff split: option.splits list.splits)
    with assms(2) obtain m where m: "(c, m) \<in> set cms" "chain_order chain (md_model_key m) \<noteq> None"
      by auto
    then have "md_model_key m \<in> set chain"
      by (auto simp: chain_order_def map_of_eq_None_iff dest: map_of_SomeD dest!: set_zip_leftD)
    with lookup_models_mem [OF l(2) m(1)] l(1) ADMIN_DEFINED_CHAIN Some show ?thesis by simp
  qed (use assms Some in \<open>auto simp: fallback_candidates_def Let_def\<close>)
qed (use assms in \<open>simp add: fallback_candidates_def\<close>)

lemma widened_pool_asks:
  assumes "widened_pool rt rq policy w scope ranked b = (b', pool)" and "ranked \<noteq> []"
  obtains cs asked where "asked_pass rt b b' cs asked"
    and "\<forall>c\<in>set cs. candidate_ok rt rq AUTO_POLICY c"
    and "\<forall>s\<in>set (tl pool). s \<in> set (tl ranked) \<or> (\<exists>c\<in>set cs. s = score_candidate c policy w)"
proof (cases "\<exists>k p af sc. policy = ExplicitPolicy k p af sc \<and> scope \<noteq> None \<and> the scope \<in> WIDENING_SCOPES")
  case True
  then obtain k p af sc where pol: "policy = ExplicitPolicy k p af sc" "scope \<noteq> None"
    "the scope \<in> WIDENING_SCOPES" by blast
  obtain acc cs where e: "eligible_candidates rt rq AUTO_POLICY
      \<lparr>ra_board = b, ra_excluded = [], ra_hints = []\<rparr> = (acc, cs)" by fastforce
  have out: "b' = ra_board acc" "pool = ranked @ rank_candidates
      (filter (\<lambda>c. md_model_key (ca_model c) \<noteq> k) cs) policy w"
    using assms(1) pol e by (auto simp: widened_pool_def)
  obtain asked where "asked_pass rt b b' cs asked"
    using eligible_candidates_asks [OF e] out(1) by auto
  moreover have "\<forall>s\<in>set (tl pool). s \<in> set (tl ranked) \<or> (\<exists>c\<in>set cs. s = score_candidate c policy w)"
    using assms(2) by (auto simp: out(2) rank_candidates_set)
  ultimately show thesis using eligible_candidates_sound [OF e] that by blast
next
  case False
  then have "pool = ranked" "b' = b"
    using assms(1) by (auto simp: widened_pool_def split: model_policy.splits if_splits)
  then show thesis by (intro that [of "[]" "[]"]) (simp_all add: asked_pass_Nil)
qed

lemma widened_pool_set:
  assumes "widened_pool rt rq policy w scope ranked b = (b', pool)" and "ranked \<noteq> []"
  shows "hd pool = hd ranked \<and> pool \<noteq> []
    \<and> (\<forall>s\<in>set (tl pool). s \<in> set (tl ranked)
        \<or> (\<exists>k p af sc c. policy = ExplicitPolicy k p af sc \<and> scope \<noteq> None
             \<and> the scope \<in> WIDENING_SCOPES \<and> candidate_ok rt rq AUTO_POLICY c
             \<and> md_model_key (ca_model c) \<noteq> k \<and> s = score_candidate c policy w))"
proof (cases "\<exists>k p af sc. policy = ExplicitPolicy k p af sc \<and> scope \<noteq> None \<and> the scope \<in> WIDENING_SCOPES")
  case True
  then obtain k p af sc where pol: "policy = ExplicitPolicy k p af sc" "scope \<noteq> None"
    "the scope \<in> WIDENING_SCOPES" by blast
  obtain acc cs where e: "eligible_candidates rt rq AUTO_POLICY
      \<lparr>ra_board = b, ra_excluded = [], ra_hints = []\<rparr> = (acc, cs)" by fastforce
  have pool: "pool = ranked @ rank_candidates
      (filter (\<lambda>c. md_model_key (ca_model c) \<noteq> k) cs) policy w"
    using assms(1) pol e by (auto simp: widened_pool_def)
  show ?thesis
    unfolding pool
    using assms(2) pol eligible_candidates_sound [OF e]
    by (auto simp: rank_candidates_set)
next
  case False
  then have "pool = ranked"
    using assms(1) by (auto simp: widened_pool_def split: model_policy.splits if_splits)
  with assms(2) show ?thesis by simp
qed

section \<open>Properties\<close>

definition route_weights :: "'b router \<Rightarrow> routing_request \<Rightarrow> scoring_weights" where
  "route_weights rt rq = (case rq_weights rq of None \<Rightarrow> rt_default_weights rt | Some x \<Rightarrow> x)"

lemma route_Inr:
  assumes "route now rt rq b = (b', Inr d)"
  obtains acc cs pool where "in_slice (effective_policy rq)"
    "eligible_candidates rt rq (effective_policy rq)
       \<lparr>ra_board = b, ra_excluded = [], ra_hints = []\<rparr> = (acc, cs)" "cs \<noteq> []"
    "rd_ranked d = rank_candidates cs (effective_policy rq) (route_weights rt rq)"
    "rd_selected d = hd (rd_ranked d)" "rd_policy_snapshot d = effective_policy rq"
    "rd_fallback_policy d = resolve_fallback_scope (effective_policy rq)"
    "rd_weights d = route_weights rt rq" "rd_excluded d = ra_excluded acc"
    "widened_pool rt rq (effective_policy rq) (route_weights rt rq)
       (resolve_fallback_scope (effective_policy rq)) (rd_ranked d) (ra_board acc) = (b', pool)"
    "fallback_candidates rt pool (resolve_fallback_scope (effective_policy rq))
       = Inr (rd_fallback_candidates d)"
  using assms
  by (auto simp: route_def Let_def route_weights_def result_bind_Inr_iff
      split: if_splits prod.splits)

lemma resolve_fallback_scope_Some: "resolve_fallback_scope policy \<noteq> None"
  by (simp add: resolve_fallback_scope_def split: option.split)



text \<open>
  Routing fails clearly: a policy outside the slice is rejected; otherwise the router
  raises \<open>NoEligibleCandidates\<close> exactly when no candidate passed the filters, with the
  earliest retry hint the board gave, and - unless no model is active at all - with at
  least one exclusion record naming why.
\<close>

theorem route_fails_clearly:
  assumes "in_slice (effective_policy rq)"
    and "eligible_candidates rt rq (effective_policy rq)
           \<lparr>ra_board = b, ra_excluded = [], ra_hints = []\<rparr> = (acc, cs)"
  shows "(cs = [] \<longrightarrow> route now rt rq b =
            (ra_board acc, Inl (NoEligibleCandidates (ra_excluded acc) (min_hint (ra_hints acc))))
          \<and> (active_models (rt_models rt) \<noteq> [] \<longrightarrow> ra_excluded acc \<noteq> [])
          \<and> (\<forall>ms. min_hint (ra_hints acc) = Some ms \<longrightarrow>
               ms \<in> set (ra_hints acc) \<and> (\<forall>h\<in>set (ra_hints acc). ms \<le> h)))
    \<and> (cs \<noteq> [] \<longrightarrow> (\<forall>x h. snd (route now rt rq b) \<noteq> Inl (NoEligibleCandidates x h)))"
proof -
  have fail: "fallback_candidates rt pool scope \<noteq> Inl (NoEligibleCandidates x h)" for pool scope x h
    by (auto simp: fallback_candidates_def Let_def result_bind_def routing_result_def
        split: option.split fallback_scope.split list.split sum.split)
  have hint: "ms \<in> set hs \<and> (\<forall>h\<in>set hs. ms \<le> h)" if "min_hint hs = Some ms" for ms hs
    using that by (auto simp: min_hint_def split: if_splits intro: Min_in)
  show ?thesis
    using assms eligible_candidates_explains [of rt rq _ _ acc] hint fail
    by (auto simp: route_def Let_def result_bind_def split: sum.splits prod.splits)
qed

section \<open>Witnesses\<close>

definition ex_model :: "uuid \<Rightarrow> string \<Rightarrow> model" where
  "ex_model i k = \<lparr>md_id = i, md_model_key = k, md_display_name = k, md_tier = TIER_FAST,
     md_modalities = [TEXT], md_capabilities = [''coding''], md_context_window = None,
     md_quality_score = Some 1, md_speed_score = None, md_cost_score = None,
     md_reliability_score = None, md_status = MODEL_ACTIVE, md_agent_capability = None\<rparr>"

definition ex_binding :: "uuid \<Rightarrow> uuid \<Rightarrow> binding" where
  "ex_binding p m = \<lparr>bd_provider_id = p, bd_model_id = m, bd_provider_model_name = ''x'',
     bd_endpoint_ref = None, bd_availability = BINDING_AVAILABLE, bd_limits_metadata = [],
     bd_capabilities = [], bd_agent_runtime = None\<rparr>"

definition ex_router :: "unit router" where
  "ex_router = \<lparr>rt_providers = ex_providers,
     rt_models = index_entry empty_registry ''m'' 9 (ex_model 9 ''m''),
     rt_bindings = [((7, 9), ex_binding 7 9)], rt_default_weights = default_scoring_weights,
     rt_admin_fallback_chain = None, rt_signals = None, rt_text = ex_text\<rparr>"

definition ex_request :: "string list \<Rightarrow> routing_request" where
  "ex_request caps = \<lparr>rq_operation = GENERATE_TEXT, rq_required_capabilities = caps,
     rq_required_modalities = [], rq_model_policy = None, rq_task_analysis = None,
     rq_context_length_hint = None, rq_weights = None, rq_credential_policy = None\<rparr>"

definition ex_acc :: "unit route_acc" where
  "ex_acc = \<lparr>ra_board = (), ra_excluded = [], ra_hints = []\<rparr>"

lemma ex_active: "active_models (rt_models ex_router) = [ex_model 9 ''m'']"
  by (simp add: ex_router_def active_models_def index_entry_def empty_registry_def ex_model_def)

lemma ex_routable: "is_routable ex_entry" "GENERATE_TEXT \<in> set (mf_operations ex_manifest)"
  by (simp_all add: is_routable_def is_executable_def is_template_def ex_manifest_def
      TEMPLATE_DISABLED_STATUS_def)

lemma ex_by_id: "providers_by_id ex_router (ex_request caps) = [7 \<mapsto> ex_entry]"
  using ex_routable
  by (simp add: providers_by_id_def ex_router_def ex_request_def routing_candidates_def
      ex_providers_def index_entry_def empty_registry_def)

lemma ex_passes:
  "model_level_exclusion ex_router (ex_model 9 ''m'')
     (required_capabilities (ex_request [''coding''])) (required_modalities (ex_request [''coding'']))
     (ex_request [''coding'']) = None"
  by (simp add: model_level_exclusion_def required_capabilities_def required_modalities_def
      ex_request_def ex_model_def)

lemma ex_provider_candidates:
  "provider_candidates ex_router (ex_model 9 ''m'') AUTO_POLICY [7 \<mapsto> ex_entry] ex_acc
     = (ex_acc, [make_candidate (ex_model 9 ''m'') ex_entry (ex_binding 7 9)])"
proof -
  have bs: "bindings_for_model (rt_bindings ex_router) (md_id (ex_model 9 ''m'')) = [ex_binding 7 9]"
    by (simp add: bindings_for_model_def ex_router_def ex_binding_def ex_model_def)
  have "consider_binding ex_router (ex_model 9 ''m'') AUTO_POLICY [7 \<mapsto> ex_entry] (ex_binding 7 9)
      ex_acc = (ex_acc, Some (make_candidate (ex_model 9 ''m'') ex_entry (ex_binding 7 9)))"
    by (simp add: consider_binding_def ex_binding_def explicit_provider_def AUTO_POLICY_def
        ask_signals_def ex_router_def admit_now_def ex_acc_def)
  then show ?thesis by (simp add: provider_candidates_def bs)
qed

lemma ex_candidates:
  "eligible_candidates ex_router (ex_request [''coding'']) AUTO_POLICY ex_acc
     = (ex_acc, [make_candidate (ex_model 9 ''m'') ex_entry (ex_binding 7 9)])"
proof -
  have "candidate_models ex_router AUTO_POLICY ex_acc = (ex_acc, [ex_model 9 ''m''])"
    by (simp add: candidate_models_def AUTO_POLICY_def ex_active)
  then show ?thesis
    by (simp add: eligible_candidates_def ex_by_id ex_passes ex_provider_candidates)
qed

lemma ex_no_candidates:
  "eligible_candidates ex_router (ex_request [''magic'']) AUTO_POLICY ex_acc
     = (exclude \<lparr>ex_model_key = ''m'', ex_provider_key = None,
          ex_reason = ''missing declared capabilities: magic''\<rparr> ex_acc, [])"
  by (simp add: eligible_candidates_def candidate_models_def AUTO_POLICY_def ex_active ex_by_id
      model_level_exclusion_def required_capabilities_def required_modalities_def)
    (simp add: ex_request_def ex_model_def)

lemma ex_effective: "effective_policy (ex_request caps) = AUTO_POLICY"
  by (simp add: effective_policy_def ex_request_def)

lemma ex_route: "\<exists>d. route 0 ex_router (ex_request [''coding'']) () = ((), Inr d)"
  using ex_candidates
  by (simp add: route_def ex_effective in_slice_def AUTO_POLICY_def ex_acc_def
      resolve_fallback_scope_def widened_pool_def fallback_candidates_def Let_def)



theorem route_fails_clearly_witness:
  "\<exists>x. route 0 ex_router (ex_request [''magic'']) () = ((), Inl (NoEligibleCandidates x None))
    \<and> x \<noteq> []"
proof -
  have "in_slice (effective_policy (ex_request [''magic'']))"
    by (simp add: ex_effective in_slice_def AUTO_POLICY_def)
  from route_fails_clearly [OF this, of ex_router "()"] ex_no_candidates show ?thesis
    by (auto simp: ex_effective ex_acc_def min_hint_def exclude_def)
qed

end
