(* ===== verification/Account_Pool.thy ===== *)
theory Account_Pool
  imports Provider_Registry Runtime_Lease "HOL-Library.Product_Lexorder"
begin

text \<open>
  Account pools and the leased selection of accounts, \<open>core/providers/accounts.py\<close>.  The
  manager holds a lease port: its \<open>acquire\<close> and \<open>release\<close> are arguments, and \<open>show_uuid\<close>
  is what \<open>str\<close> prints for an id (used for the tie-break and the lease resource).  Lemmas:
  a pool never mixes the two ownership sides of its accounts; the eligibility filters and
  the least-recently-used order; acquisition takes the first candidate that can be leased.
\<close>

section \<open>Pools\<close>

datatype pool_violation =
    WrongProvider uuid uuid
  | CredentialNotReferenced uuid uuid
  | MixedOwnership
  | OwnershipSideChange

datatype pool_error =
    PoolOwnershipViolation pool_violation
  | AccountAlreadyRegistered uuid
  | AccountNotRegistered uuid
  | NoEligibleAccount string
  | PoolBoundary boundary_error

definition USER_SIDE :: "owner_type set" where
  "USER_SIDE = {OWNER_TENANT, OWNER_USER}"

definition LEASE_RESOURCE_PREFIX :: string where
  "LEASE_RESOURCE_PREFIX = ''provider_account:''"

definition lease_resource_for :: "(uuid \<Rightarrow> string) \<Rightarrow> uuid \<Rightarrow> string" where
  "lease_resource_for show_uuid account_id = LEASE_RESOURCE_PREFIX @ show_uuid account_id"

record account_pool =
  ap_provider_id :: uuid
  ap_accounts :: "(uuid \<times> account) list"
  ap_credentials :: "uuid \<rightharpoonup> credential"
  ap_side :: "owner_type option"

definition new_pool :: "uuid \<Rightarrow> account_pool" where
  "new_pool provider_id = \<lparr>ap_provider_id = provider_id, ap_accounts = [],
                           ap_credentials = Map.empty, ap_side = None\<rparr>"

definition pool_register ::
  "account_pool \<Rightarrow> account \<Rightarrow> credential \<Rightarrow> pool_error + account_pool" where
  "pool_register p a c =
     (let incoming_is_platform = (pa_owner_type a = OWNER_PLATFORM)
      in if pa_provider_id a \<noteq> ap_provider_id p
         then Inl (PoolOwnershipViolation (WrongProvider (pa_id a) (pa_provider_id a)))
         else if pa_credential_id a \<noteq> cr_id c
         then Inl (PoolOwnershipViolation (CredentialNotReferenced (pa_id a) (cr_id c)))
         else if (case ap_side p of None \<Rightarrow> False
                  | Some side \<Rightarrow> (side = OWNER_PLATFORM) \<noteq> incoming_is_platform)
         then Inl (PoolOwnershipViolation MixedOwnership)
         else if map_of (ap_accounts p) (pa_id a) \<noteq> None
         then Inl (AccountAlreadyRegistered (pa_id a))
         else Inr (p\<lparr>ap_accounts := AList.update (pa_id a) a (ap_accounts p),
                     ap_credentials := (ap_credentials p)(pa_id a \<mapsto> c),
                     ap_side := (case ap_side p of
                        None \<Rightarrow> Some (if incoming_is_platform then OWNER_PLATFORM
                                      else pa_owner_type a)
                      | Some side \<Rightarrow> Some side)\<rparr>))"

definition replace_account :: "account_pool \<Rightarrow> account \<Rightarrow> pool_error + account_pool" where
  "replace_account p a =
     (case map_of (ap_accounts p) (pa_id a) of
        None \<Rightarrow> Inl (AccountNotRegistered (pa_id a))
      | Some existing \<Rightarrow>
          if (pa_owner_type existing = OWNER_PLATFORM) \<noteq> (pa_owner_type a = OWNER_PLATFORM)
          then Inl (PoolOwnershipViolation OwnershipSideChange)
          else Inr (p\<lparr>ap_accounts := AList.update (pa_id a) a (ap_accounts p)\<rparr>))"

definition pool_get :: "account_pool \<Rightarrow> uuid \<Rightarrow> pool_error + account" where
  "pool_get p i = (case map_of (ap_accounts p) i of None \<Rightarrow> Inl (AccountNotRegistered i)
                   | Some a \<Rightarrow> Inr a)"

definition credential_for :: "account_pool \<Rightarrow> uuid \<Rightarrow> pool_error + credential" where
  "credential_for p i = (case ap_credentials p i of None \<Rightarrow> Inl (AccountNotRegistered i)
                         | Some c \<Rightarrow> Inr c)"

definition all_accounts :: "account_pool \<Rightarrow> account list" where
  "all_accounts p = map snd (ap_accounts p)"

section \<open>Eligibility\<close>

record account_manager =
  amg_pools :: "uuid \<rightharpoonup> account_pool"
  amg_use_seq :: nat
  amg_last_used :: "uuid \<rightharpoonup> nat"

text \<open>The per-request context of a selection, with the one reading of the clock.\<close>

record account_query =
  aq_policy :: credential_policy
  aq_rate_limits :: "uuid \<rightharpoonup> rate_limit_status"
  aq_bindings :: "binding_registry option"
  aq_model_id :: "uuid option"
  aq_now :: timestamp

definition pool_for :: "account_manager \<Rightarrow> uuid \<Rightarrow> account_manager \<times> account_pool" where
  "pool_for m i =
     (case amg_pools m i of
        Some p \<Rightarrow> (m, p)
      | None \<Rightarrow> (m\<lparr>amg_pools := (amg_pools m)(i \<mapsto> new_pool i)\<rparr>, new_pool i))"

fun policy_admits :: "credential_policy \<Rightarrow> owner_type \<Rightarrow> bool" where
  "policy_admits PLATFORM_ONLY ot = (ot = OWNER_PLATFORM)"
| "policy_admits USER_ONLY ot = (ot \<in> USER_SIDE)"
| "policy_admits PREFER_USER ot = True"
| "policy_admits AUTO ot = True"

definition budget_available :: "rate_limit_status \<Rightarrow> timestamp \<Rightarrow> bool" where
  "budget_available status now =
     (case rl_state status of
        RATE_AVAILABLE \<Rightarrow> True
      | RATE_LIMITED_STATE \<Rightarrow> False
      | RATE_COOLDOWN_UNTIL \<Rightarrow>
          (case rl_cooldown_until status of None \<Rightarrow> False | Some t \<Rightarrow> t \<le> now)
      | RATE_UNKNOWN \<Rightarrow> False)"

definition binding_available :: "account_query \<Rightarrow> uuid \<Rightarrow> bool" where
  "binding_available q provider_id =
     (case (aq_bindings q, aq_model_id q) of
        (Some bindings, Some model_id) \<Rightarrow>
          (case binding_get bindings provider_id model_id of
             Inl e \<Rightarrow> False
           | Inr b \<Rightarrow> bd_availability b = BINDING_AVAILABLE)
      | _ \<Rightarrow> True)"

text \<open>Filters 2 to 7 of the loop body, in the documented order.\<close>

definition account_passes :: "account_query \<Rightarrow> uuid \<Rightarrow> credential \<Rightarrow> account \<Rightarrow> bool" where
  "account_passes q provider_id c a \<longleftrightarrow>
     cr_status c = CREDENTIAL_ACTIVE
     \<and> pa_lifecycle_state a = ACCOUNT_READY
     \<and> (case pa_cooldown_until a of None \<Rightarrow> True | Some t \<Rightarrow> \<not> (aq_now q < t))
     \<and> policy_admits (aq_policy q) (pa_owner_type a)
     \<and> (case aq_rate_limits q (pa_id a) of None \<Rightarrow> True
        | Some status \<Rightarrow> budget_available status (aq_now q))
     \<and> binding_available q provider_id"

fun eligible_loop ::
  "account_query \<Rightarrow> uuid \<Rightarrow> account_pool \<Rightarrow> account list \<Rightarrow> account list
    \<Rightarrow> pool_error + account list" where
  "eligible_loop q provider_id pool [] out = Inr out"
| "eligible_loop q provider_id pool (a # rest) out =
     result_bind (credential_for pool (pa_id a))
       (\<lambda>c. eligible_loop q provider_id pool rest
              (if account_passes q provider_id c a then out @ [a] else out))"

definition lru_key :: "(uuid \<Rightarrow> string) \<Rightarrow> account_manager \<Rightarrow> account \<Rightarrow> nat \<times> string" where
  "lru_key show_uuid m a =
     (case amg_last_used m (pa_id a) of None \<Rightarrow> 0 | Some n \<Rightarrow> n, show_uuid (pa_id a))"

definition ordered ::
  "(uuid \<Rightarrow> string) \<Rightarrow> account_manager \<Rightarrow> account list \<Rightarrow> credential_policy \<Rightarrow> account list" where
  "ordered show_uuid m accounts policy =
     (let xs = sort_key (lru_key show_uuid m) accounts
      in if policy = PREFER_USER
         then filter (\<lambda>a. pa_owner_type a \<in> USER_SIDE) xs
              @ filter (\<lambda>a. pa_owner_type a = OWNER_PLATFORM) xs
         else xs)"

definition eligible_accounts ::
  "(uuid \<Rightarrow> string) \<Rightarrow> registered_provider registry \<Rightarrow> account_manager \<Rightarrow> string \<Rightarrow> account_query
    \<Rightarrow> pool_error + account list" where
  "eligible_accounts show_uuid providers m provider_key q =
     (case provider_get providers provider_key of
        Inl e \<Rightarrow> Inl (PoolBoundary e)
      | Inr entry \<Rightarrow>
          if \<not> is_routable entry then Inr []
          else
            (let i = pv_id (rp_provider entry)
             in case amg_pools m i of
                  None \<Rightarrow> Inr []
                | Some pool \<Rightarrow>
                    result_bind (eligible_loop q i pool (all_accounts pool) [])
                      (\<lambda>out. Inr (ordered show_uuid m out (aq_policy q)))))"

definition select_account ::
  "(uuid \<Rightarrow> string) \<Rightarrow> registered_provider registry \<Rightarrow> account_manager \<Rightarrow> string \<Rightarrow> account_query
    \<Rightarrow> pool_error + account" where
  "select_account show_uuid providers m provider_key q =
     result_bind (eligible_accounts show_uuid providers m provider_key q)
       (\<lambda>cs. case cs of [] \<Rightarrow> Inl (NoEligibleAccount provider_key) | a # _ \<Rightarrow> Inr a)"

section \<open>Leased acquisition\<close>

fun acquire_first ::
  "('l \<Rightarrow> string \<Rightarrow> string \<Rightarrow> rat \<Rightarrow> 'l \<times> lease option) \<Rightarrow> (uuid \<Rightarrow> string) \<Rightarrow> string \<Rightarrow> string
    \<Rightarrow> rat \<Rightarrow> account list \<Rightarrow> account_manager \<times> 'l
    \<Rightarrow> (account_manager \<times> 'l) \<times> (pool_error + (account \<times> lease))" where
  "acquire_first acq show_uuid provider_key owner ttl [] (m, l) =
     ((m, l), Inl (NoEligibleAccount provider_key))"
| "acquire_first acq show_uuid provider_key owner ttl (a # rest) (m, l) =
     (case acq l (lease_resource_for show_uuid (pa_id a)) owner ttl of
        (l', None) \<Rightarrow> acquire_first acq show_uuid provider_key owner ttl rest (m, l')
      | (l', Some lease) \<Rightarrow>
          let stamp = amg_use_seq m + 1
          in ((m\<lparr>amg_use_seq := stamp, amg_last_used := (amg_last_used m)(pa_id a \<mapsto> stamp)\<rparr>, l'),
              Inr (a, lease)))"

definition acquire_account ::
  "('l \<Rightarrow> string \<Rightarrow> string \<Rightarrow> rat \<Rightarrow> 'l \<times> lease option) \<Rightarrow> (uuid \<Rightarrow> string)
    \<Rightarrow> registered_provider registry \<Rightarrow> account_manager \<times> 'l \<Rightarrow> string \<Rightarrow> string \<Rightarrow> rat
    \<Rightarrow> account_query \<Rightarrow> (account_manager \<times> 'l) \<times> (pool_error + (account \<times> lease))" where
  "acquire_account acq show_uuid providers s provider_key owner ttl q =
     (case eligible_accounts show_uuid providers (fst s) provider_key q of
        Inl e \<Rightarrow> (s, Inl e)
      | Inr cs \<Rightarrow> acquire_first acq show_uuid provider_key owner ttl cs s)"

definition release_account ::
  "('l \<Rightarrow> lease \<Rightarrow> lease_error + 'l) \<Rightarrow> 'l \<Rightarrow> lease \<Rightarrow> lease_error + 'l" where
  "release_account rel l lease = rel l lease"

section \<open>The pool invariant\<close>

definition pool_inv :: "account_pool \<Rightarrow> bool" where
  "pool_inv p \<longleftrightarrow> distinct (map fst (ap_accounts p))
     \<and> (\<forall>i a. map_of (ap_accounts p) i = Some a \<longrightarrow> pa_id a = i \<and> ap_credentials p i \<noteq> None
          \<and> (\<exists>side. ap_side p = Some side
               \<and> (side = OWNER_PLATFORM) = (pa_owner_type a = OWNER_PLATFORM)))"

inductive pool_reachable :: "account_pool \<Rightarrow> bool" where
  pr_new: "pool_reachable (new_pool i)"
| pr_register: "pool_reachable p \<Longrightarrow> pool_register p a c = Inr p' \<Longrightarrow> pool_reachable p'"
| pr_replace: "pool_reachable p \<Longrightarrow> replace_account p a = Inr p' \<Longrightarrow> pool_reachable p'"

lemma pool_register_inv [py_inv]:
  "pool_inv p \<Longrightarrow> pool_register p a c = Inr p' \<Longrightarrow> pool_inv p'"
  by (auto simp: pool_inv_def pool_register_def Let_def split: if_splits option.splits)

lemma replace_account_inv [py_inv]:
  "pool_inv p \<Longrightarrow> replace_account p a = Inr p' \<Longrightarrow> pool_inv p'"
  by (fastforce simp: pool_inv_def replace_account_def split: if_splits option.splits)

lemma pool_inv_new: "pool_inv (new_pool i)"
  by (simp add: pool_inv_def new_pool_def)

lemma pool_reachable_inv: "pool_reachable p \<Longrightarrow> pool_inv p"
  by (induction rule: pool_reachable.induct) (blast intro: pool_inv_new py_inv)+

lemma all_accounts_iff:
  "pool_inv p \<Longrightarrow> a \<in> set (all_accounts p) \<longleftrightarrow> map_of (ap_accounts p) (pa_id a) = Some a"
  using dict_values_iff [of "ap_accounts p" a] by (auto simp: pool_inv_def all_accounts_def)

lemma pool_inv_account:
  assumes "pool_inv p" and "a \<in> set (all_accounts p)"
  shows "ap_credentials p (pa_id a) \<noteq> None" and "\<exists>side. ap_side p = Some side
      \<and> (side = OWNER_PLATFORM) = (pa_owner_type a = OWNER_PLATFORM)"
  using assms all_accounts_iff [OF assms(1), of a] unfolding pool_inv_def by blast+

section \<open>The eligibility loop as a filter\<close>

definition passes_in :: "account_query \<Rightarrow> account_pool \<Rightarrow> account \<Rightarrow> bool" where
  "passes_in q pool a \<longleftrightarrow> (\<exists>c. ap_credentials pool (pa_id a) = Some c
     \<and> account_passes q (ap_provider_id pool) c a)"

lemma eligible_loop_eq:
  "\<forall>a\<in>set as. ap_credentials pool (pa_id a) \<noteq> None \<Longrightarrow>
    eligible_loop q (ap_provider_id pool) pool as out = Inr (out @ filter (passes_in q pool) as)"
proof (induction as arbitrary: out)
  case (Cons a as)
  then show ?case by (auto simp: credential_for_def passes_in_def split: option.splits)
qed simp

lemma ordered_set: "set (ordered sh m as pol) = set as"
proof -
  have "x \<in> USER_SIDE \<or> x = OWNER_PLATFORM" for x
    by (cases x) (simp_all add: USER_SIDE_def)
  then show ?thesis by (auto simp: ordered_def Let_def)
qed

lemma ordered_sorted:
  "pol \<noteq> PREFER_USER \<Longrightarrow> sorted (map (lru_key sh m) (ordered sh m as pol))"
  by (simp add: ordered_def)

lemma ordered_prefer_user:
  "\<exists>us ps. ordered sh m as PREFER_USER = us @ ps
    \<and> (\<forall>a\<in>set us. pa_owner_type a \<in> USER_SIDE) \<and> (\<forall>a\<in>set ps. pa_owner_type a = OWNER_PLATFORM)
    \<and> sorted (map (lru_key sh m) us) \<and> sorted (map (lru_key sh m) ps)"
  by (rule exI [of _ "filter (\<lambda>a. pa_owner_type a \<in> USER_SIDE) (sort_key (lru_key sh m) as)"],
      rule exI [of _ "filter (\<lambda>a. pa_owner_type a = OWNER_PLATFORM) (sort_key (lru_key sh m) as)"])
    (simp add: ordered_def Let_def sorted_filter)

text \<open>A manager whose pools are well formed and filed under their provider.\<close>

definition manager_ok :: "account_manager \<Rightarrow> bool" where
  "manager_ok m \<longleftrightarrow> (\<forall>i p. amg_pools m i = Some p \<longrightarrow> pool_reachable p \<and> ap_provider_id p = i)"

lemma eligible_accounts_eq:
  assumes "manager_ok m" and "provider_get providers k = Inr entry" and "is_routable entry"
    and "amg_pools m (provider_id_of entry) = Some pool"
  shows "eligible_accounts sh providers m k q =
    Inr (ordered sh m (filter (passes_in q pool) (all_accounts pool)) (aq_policy q))"
proof -
  have p: "pool_inv pool" "ap_provider_id pool = provider_id_of entry"
    using assms(1,4) pool_reachable_inv by (auto simp: manager_ok_def)
  have "\<forall>a\<in>set (all_accounts pool). ap_credentials pool (pa_id a) \<noteq> None"
    using pool_inv_account(1) [OF p(1)] by blast
  from eligible_loop_eq [OF this, of q "[]"] p(2) assms(2,3,4) show ?thesis
    by (simp add: eligible_accounts_def)
qed

section \<open>Properties\<close>

text \<open>
  C16. Never mix: in every pool reachable by registering and replacing accounts, the
  accounts are all platform-owned or all on the tenant/user side, each is filed under its
  own id and has a credential record; adding or turning an account to the other side is
  refused with an ownership violation.
\<close>

theorem pool_never_mixes_sides:
  assumes "pool_reachable p"
  shows "(\<forall>a b. a \<in> set (all_accounts p) \<longrightarrow> b \<in> set (all_accounts p) \<longrightarrow>
        (pa_owner_type a = OWNER_PLATFORM) = (pa_owner_type b = OWNER_PLATFORM))
    \<and> (\<forall>a\<in>set (all_accounts p). pool_get p (pa_id a) = Inr a
         \<and> (\<exists>c. credential_for p (pa_id a) = Inr c))
    \<and> (\<forall>a b c. a \<in> set (all_accounts p) \<longrightarrow>
        (pa_owner_type a = OWNER_PLATFORM) \<noteq> (pa_owner_type b = OWNER_PLATFORM) \<longrightarrow>
        pa_provider_id b = ap_provider_id p \<longrightarrow> pa_credential_id b = cr_id c \<longrightarrow>
        pool_register p b c = Inl (PoolOwnershipViolation MixedOwnership)
        \<and> replace_account p (b\<lparr>pa_id := pa_id a\<rparr>)
            = Inl (PoolOwnershipViolation OwnershipSideChange))"
proof -
  have inv: "pool_inv p" by (rule pool_reachable_inv [OF assms])
  note mem = all_accounts_iff [OF inv]
  have side: "\<exists>side. ap_side p = Some side
      \<and> (side = OWNER_PLATFORM) = (pa_owner_type a = OWNER_PLATFORM)"
    if "a \<in> set (all_accounts p)" for a
    by (rule pool_inv_account(2) [OF inv that])
  show ?thesis
  proof (intro conjI allI ballI impI)
    fix a b assume "a \<in> set (all_accounts p)" "b \<in> set (all_accounts p)"
    with side show "(pa_owner_type a = OWNER_PLATFORM) = (pa_owner_type b = OWNER_PLATFORM)"
      by (metis option.inject)
  next
    fix a assume a: "a \<in> set (all_accounts p)"
    then show "pool_get p (pa_id a) = Inr a" using mem by (simp add: pool_get_def)
    show "\<exists>c. credential_for p (pa_id a) = Inr c"
      using pool_inv_account(1) [OF inv a] by (auto simp: credential_for_def)
  next
    fix a b :: account and c :: credential
    assume a: "a \<in> set (all_accounts p)"
      and d: "(pa_owner_type a = OWNER_PLATFORM) \<noteq> (pa_owner_type b = OWNER_PLATFORM)"
      and pr: "pa_provider_id b = ap_provider_id p" and cr: "pa_credential_id b = cr_id c"
    from side [OF a] d pr cr
    show "pool_register p b c = Inl (PoolOwnershipViolation MixedOwnership)"
      by (auto simp: pool_register_def)
    from a d mem show "replace_account p (b\<lparr>pa_id := pa_id a\<rparr>)
        = Inl (PoolOwnershipViolation OwnershipSideChange)"
      by (simp add: replace_account_def)
  qed
qed

text \<open>
  The side that is checked is the account's, never the credential's: whatever a pool
  holds, an account of the pool's side is accepted with a credential of any owner type, so
  one pool can hold platform and user credentials together.
\<close>

theorem pool_accepts_credentials_of_any_owner:
  assumes "pool_reachable p" and "pa_provider_id a = ap_provider_id p"
    and "pa_credential_id a = cr_id c" and "map_of (ap_accounts p) (pa_id a) = None"
    and "\<forall>b\<in>set (all_accounts p). (pa_owner_type b = OWNER_PLATFORM) = (pa_owner_type a = OWNER_PLATFORM)"
    and "all_accounts p \<noteq> []"
  shows "\<exists>p'. pool_register p a (c\<lparr>cr_owner_type := ot\<rparr>) = Inr p' \<and> pool_reachable p'
    \<and> credential_for p' (pa_id a) = Inr (c\<lparr>cr_owner_type := ot\<rparr>)"
proof -
  have inv: "pool_inv p" by (rule pool_reachable_inv [OF assms(1)])
  obtain b where b: "b \<in> set (all_accounts p)"
    using assms(6) by (meson ex_in_conv set_empty)
  with assms(5) pool_inv_account(2) [OF inv b]
  obtain side where "ap_side p = Some side"
      "(side = OWNER_PLATFORM) = (pa_owner_type a = OWNER_PLATFORM)"
    by auto
  with assms(2,3,4) have r: "pool_register p a (c\<lparr>cr_owner_type := ot\<rparr>) =
      Inr (p\<lparr>ap_accounts := AList.update (pa_id a) a (ap_accounts p),
             ap_credentials := (ap_credentials p)(pa_id a \<mapsto> c\<lparr>cr_owner_type := ot\<rparr>),
             ap_side := Some side\<rparr>)"
    by (simp add: pool_register_def)
  then show ?thesis
    using pr_register [OF assms(1) r] by (simp add: credential_for_def)
qed

text \<open>Walking the candidates over any lease port.\<close>

context lease_port begin

lemma acquire_first_none:
  "\<forall>a\<in>set cs. \<not> free_for l (lease_resource_for sh (pa_id a)) owner \<Longrightarrow>
    acquire_first acquire sh k owner ttl (cs @ rest) (m, l)
      = acquire_first acquire sh k owner ttl rest (m, l)"
proof (induction cs)
  case (Cons a cs)
  obtain l' g where r: "acquire l (lease_resource_for sh (pa_id a)) owner ttl = (l', g)"
    by fastforce
  with Cons.prems acquire_granted_iff [of l _ owner ttl] have "g = None" by fastforce
  with r acquire_None [of l "lease_resource_for sh (pa_id a)" owner ttl l'] have "l' = l" by simp
  with r \<open>g = None\<close> Cons show ?case by simp
qed simp

lemma acquire_first_some:
  assumes "\<forall>a\<in>set pre. \<not> free_for l (lease_resource_for sh (pa_id a)) owner"
    and "free_for l (lease_resource_for sh (pa_id a)) owner"
  shows "\<exists>l' lease. acquire_first acquire sh k owner ttl (pre @ a # post) (m, l) =
      ((m\<lparr>amg_use_seq := amg_use_seq m + 1,
          amg_last_used := (amg_last_used m)(pa_id a \<mapsto> amg_use_seq m + 1)\<rparr>, l'), Inr (a, lease))
    \<and> ls_resource lease = lease_resource_for sh (pa_id a) \<and> ls_owner lease = owner
    \<and> (0 < ttl \<longrightarrow> held_by l' lease)"
proof -
  obtain l' g where r: "acquire l (lease_resource_for sh (pa_id a)) owner ttl = (l', g)"
    by fastforce
  with assms(2) acquire_granted_iff [of l "lease_resource_for sh (pa_id a)" owner ttl]
  obtain lease where g: "g = Some lease" by auto
  from acquire_Some [OF r [unfolded g]] r g acquire_first_none [OF assms(1), of k ttl "a # post" m]
  show ?thesis by (auto simp: Let_def)
qed

end

text \<open>The account's resource is not leased to another owner at the time.\<close>

definition leasable :: "(uuid \<Rightarrow> string) \<Rightarrow> rat \<Rightarrow> lease_state \<Rightarrow> string \<Rightarrow> account \<Rightarrow> bool" where
  "leasable sh t l owner a = (\<forall>k. holds l t k \<longrightarrow> ls_resource k = lease_resource_for sh (pa_id a)
     \<longrightarrow> ls_owner k = owner)"

lemma leasable_free: "leasable sh t l owner a = mem_lease.free_for t l (lease_resource_for sh (pa_id a)) owner"
  by (simp add: leasable_def mem_lease.free_for_def)

text \<open>
  Leased selection: for a routable provider with a pool, the candidates are exactly
  the pool's accounts that pass every filter (active credential, READY, out of cooldown,
  admitted by the ownership policy, within budget, bound to the model), ordered least
  recently used first - or, under \<open>prefer_user\<close>, user side before platform.  Acquisition
  returns the first candidate that no other owner holds, with a lease on that account's
  resource for the caller, and stamps it as the most recent use; when there is none it
  raises \<open>NoEligibleAccount\<close> and changes nothing.
\<close>

theorem acquire_account_takes_first_leasable:
  assumes "manager_ok m" and "provider_get providers key = Inr entry" and "is_routable entry"
    and "amg_pools m (provider_id_of entry) = Some pool"
  shows "\<exists>cs. eligible_accounts sh providers m key q = Inr cs
    \<and> set cs = {a \<in> set (all_accounts pool). passes_in q pool a}
    \<and> (aq_policy q \<noteq> PREFER_USER \<longrightarrow> sorted (map (lru_key sh m) cs))
    \<and> (aq_policy q = PREFER_USER \<longrightarrow> (\<exists>us ps. cs = us @ ps
          \<and> (\<forall>a\<in>set us. pa_owner_type a \<in> USER_SIDE)
          \<and> (\<forall>a\<in>set ps. pa_owner_type a = OWNER_PLATFORM)
          \<and> sorted (map (lru_key sh m) us) \<and> sorted (map (lru_key sh m) ps)))
    \<and> (case find (leasable sh t l owner) cs of
         None \<Rightarrow> acquire_account (lease_acquire t) sh providers (m, l) key owner ttl q
                   = ((m, l), Inl (NoEligibleAccount key))
       | Some a \<Rightarrow> \<exists>l' lease.
           acquire_account (lease_acquire t) sh providers (m, l) key owner ttl q =
             ((m\<lparr>amg_use_seq := amg_use_seq m + 1,
                 amg_last_used := (amg_last_used m)(pa_id a \<mapsto> amg_use_seq m + 1)\<rparr>, l'),
              Inr (a, lease))
           \<and> ls_resource lease = lease_resource_for sh (pa_id a) \<and> ls_owner lease = owner
           \<and> (0 < ttl \<longrightarrow> holds l' t lease))"
proof -
  define cs where "cs = ordered sh m (filter (passes_in q pool) (all_accounts pool)) (aq_policy q)"
  have e: "eligible_accounts sh providers m key q = Inr cs"
    unfolding cs_def by (rule eligible_accounts_eq [OF assms])
  then have acq: "acquire_account (lease_acquire t) sh providers (m, l) key owner ttl q =
      acquire_first (lease_acquire t) sh key owner ttl cs (m, l)"
    by (simp add: acquire_account_def)
  have "case find (leasable sh t l owner) cs of
         None \<Rightarrow> acquire_first (lease_acquire t) sh key owner ttl cs (m, l)
                   = ((m, l), Inl (NoEligibleAccount key))
       | Some a \<Rightarrow> \<exists>l' lease. acquire_first (lease_acquire t) sh key owner ttl cs (m, l) =
             ((m\<lparr>amg_use_seq := amg_use_seq m + 1,
                 amg_last_used := (amg_last_used m)(pa_id a \<mapsto> amg_use_seq m + 1)\<rparr>, l'),
              Inr (a, lease))
           \<and> ls_resource lease = lease_resource_for sh (pa_id a) \<and> ls_owner lease = owner
           \<and> (0 < ttl \<longrightarrow> holds l' t lease)"
  proof (cases "find (leasable sh t l owner) cs")
    case None
    then have "\<forall>a\<in>set cs. \<not> mem_lease.free_for t l (lease_resource_for sh (pa_id a)) owner"
      by (simp add: find_None_iff leasable_free)
    from mem_lease.acquire_first_none [OF this, of key ttl "[]" m] None show ?thesis by simp
  next
    case (Some a)
    then obtain i where i: "i < length cs" "leasable sh t l owner (cs ! i)" "a = cs ! i"
        "\<forall>j<i. \<not> leasable sh t l owner (cs ! j)"
      by (auto simp: find_Some_iff)
    have cs: "cs = take i cs @ a # drop (Suc i) cs"
      using i(1,3) by (simp add: id_take_nth_drop)
    have pre: "\<forall>b\<in>set (take i cs). \<not> mem_lease.free_for t l (lease_resource_for sh (pa_id b)) owner"
      using i(1,4) by (auto simp: leasable_free [symmetric] in_set_conv_nth)
    have "mem_lease.free_for t l (lease_resource_for sh (pa_id a)) owner"
      using i(2,3) by (simp add: leasable_free)
    from mem_lease.acquire_first_some [OF pre this, of key ttl "drop (Suc i) cs" m] cs Some
    show ?thesis by simp
  qed
  then show ?thesis
    using e ordered_prefer_user [of sh m "filter (passes_in q pool) (all_accounts pool)"]
    unfolding acq by (intro exI [of _ cs]) (auto simp: cs_def ordered_set ordered_sorted)
qed

section \<open>Witnesses\<close>

definition ex_account :: "uuid \<Rightarrow> owner_type \<Rightarrow> account" where
  "ex_account i ot = \<lparr>pa_id = i, pa_provider_id = 7, pa_credential_id = 50, pa_owner_type = ot,
     pa_lifecycle_state = ACCOUNT_READY, pa_health_state = HEALTH_HEALTHY,
     pa_cooldown_until = None\<rparr>"

definition ex_credential :: "owner_type \<Rightarrow> credential" where
  "ex_credential ot = \<lparr>cr_id = 50, cr_owner_type = ot, cr_owner_id = None, cr_provider_id = 7,
     cr_credential_ref = ''ref'', cr_status = CREDENTIAL_ACTIVE\<rparr>"

definition ex_pool :: account_pool where
  "ex_pool = \<lparr>ap_provider_id = 7, ap_accounts = [(30, ex_account 30 OWNER_PLATFORM)],
     ap_credentials = [30 \<mapsto> ex_credential OWNER_PLATFORM], ap_side = Some OWNER_PLATFORM\<rparr>"

definition ex_manager :: account_manager where
  "ex_manager = \<lparr>amg_pools = [7 \<mapsto> ex_pool], amg_use_seq = 0, amg_last_used = Map.empty\<rparr>"

definition ex_query :: account_query where
  "ex_query = \<lparr>aq_policy = AUTO, aq_rate_limits = Map.empty, aq_bindings = None,
     aq_model_id = None, aq_now = 0\<rparr>"

lemma ex_pool_reachable: "pool_reachable ex_pool"
  by (rule pr_register [OF pr_new [of 7], of "ex_account 30 OWNER_PLATFORM"
        "ex_credential OWNER_PLATFORM"])
    (simp add: pool_register_def new_pool_def ex_account_def ex_credential_def ex_pool_def)

theorem pool_never_mixes_sides_witness:
  "pool_register ex_pool (ex_account 31 OWNER_USER) (ex_credential OWNER_USER)
     = Inl (PoolOwnershipViolation MixedOwnership)"
  using pool_never_mixes_sides [OF ex_pool_reachable]
  by (simp add: all_accounts_def ex_pool_def ex_account_def ex_credential_def)

theorem pool_accepts_credentials_of_any_owner_witness:
  "\<exists>p'. pool_register ex_pool (ex_account 31 OWNER_PLATFORM)
      ((ex_credential OWNER_PLATFORM)\<lparr>cr_owner_type := OWNER_USER\<rparr>) = Inr p'"
  using pool_accepts_credentials_of_any_owner [OF ex_pool_reachable,
      of "ex_account 31 OWNER_PLATFORM" "ex_credential OWNER_PLATFORM" OWNER_USER]
  by (auto simp: all_accounts_def ex_pool_def ex_account_def ex_credential_def)

theorem acquire_account_takes_first_leasable_witness:
  "\<exists>s lease. acquire_account (lease_acquire 0) (\<lambda>i. ''x'') ex_providers
      (ex_manager, lease_init) ''acme'' ''w'' 5 ex_query
      = (s, Inr (ex_account 30 OWNER_PLATFORM, lease))
    \<and> ls_owner lease = ''w''"
proof -
  have m: "manager_ok ex_manager"
    using ex_pool_reachable by (auto simp: manager_ok_def ex_manager_def ex_pool_def)
  have g: "provider_get ex_providers ''acme'' = Inr ex_entry"
    by (simp add: provider_get_def)
  have r: "is_routable ex_entry"
    by (simp add: is_routable_def is_executable_def is_template_def ex_manifest_def
        TEMPLATE_DISABLED_STATUS_def)
  have p: "amg_pools ex_manager (provider_id_of ex_entry) = Some ex_pool"
    by (simp add: ex_manager_def)
  have e: "eligible_accounts (\<lambda>i. ''x'') ex_providers ex_manager ''acme'' ex_query
      = Inr [ex_account 30 OWNER_PLATFORM]"
    by (simp add: eligible_accounts_def g r p [simplified] all_accounts_def ex_pool_def
        credential_for_def account_passes_def ordered_def binding_available_def
        ex_account_def ex_credential_def ex_query_def)
  have "leasable (\<lambda>i. ''x'') 0 lease_init ''w'' a" for a
    by (simp add: leasable_def holds_def lease_init_def)
  with acquire_account_takes_first_leasable [OF m g r p, of "\<lambda>i. ''x''" ex_query 0 lease_init
      "''w''" 5] e
  show ?thesis by auto
qed

end
