(* ===== verification/Routing_Resources.thy ===== *)
theory Routing_Resources
  imports Routing_Router Account_Pool
begin

text \<open>
  The resource selector, \<open>core/routing/resources.py\<close>: it completes a routing decision
  with provider accounts.  \<open>tx_pool_error\<close> is the text of a pool error, used in a record's
  reason only.  Lemmas: what a completed route consists of, in which order, and that it is
  taken from the ranked candidates - not from the fallback route the router decided.
\<close>

datatype resource_error =
    ResourceBoundary boundary_error
  | ResourcePool pool_error
  | NothingCompleted "string list"

fun credential_policy_value :: "credential_policy \<Rightarrow> string" where
  "credential_policy_value PLATFORM_ONLY = ''platform_only''"
| "credential_policy_value USER_ONLY = ''user_only''"
| "credential_policy_value PREFER_USER = ''prefer_user''"
| "credential_policy_value AUTO = ''auto''"

record selector =
  rs_providers :: "registered_provider registry"
  rs_accounts :: account_manager
  rs_text :: text_env
  rs_pool_error :: "pool_error \<Rightarrow> string"

text \<open>The keyword arguments of one call, with its clock reading.\<close>

record selection =
  sl_rate_limits :: "uuid \<rightharpoonup> rate_limit_status"
  sl_bindings :: "binding_registry option"
  sl_now :: timestamp

definition selection_query :: "selection \<Rightarrow> credential_policy \<Rightarrow> candidate_score \<Rightarrow> account_query" where
  "selection_query s policy c =
     \<lparr>aq_policy = policy, aq_rate_limits = sl_rate_limits s, aq_bindings = sl_bindings s,
      aq_model_id = Some (cs_model_id c), aq_now = sl_now s\<rparr>"

text \<open>The errors of class \<open>NoEligibleAccount\<close>.\<close>

fun is_no_eligible_account :: "pool_error \<Rightarrow> bool" where
  "is_no_eligible_account (NoEligibleAccount k) = True"
| "is_no_eligible_account (AccountNotRegistered i) = True"
| "is_no_eligible_account _ = False"

definition skip_record :: "selector \<Rightarrow> candidate_score \<Rightarrow> registered_provider \<Rightarrow> string \<Rightarrow> exclusion" where
  "skip_record rs c e reason =
     \<lparr>ex_model_key = tx_uuid (rs_text rs) (cs_model_id c),
      ex_provider_key = Some (pv_provider_key (rp_provider e)), ex_reason = reason\<rparr>"

fun select_loop ::
  "selector \<Rightarrow> selection \<Rightarrow> credential_policy \<Rightarrow> candidate_score list \<Rightarrow> exclusion list
    \<Rightarrow> resource_error + candidate_score" where
  "select_loop rs s policy [] skipped = Inl (NothingCompleted (map ex_reason skipped))"
| "select_loop rs s policy (c # cs) skipped =
     (case provider_get_by_id (rs_providers rs) (cs_provider_id c) of
        Inl err \<Rightarrow> Inl (ResourceBoundary err)
      | Inr e \<Rightarrow>
          if \<not> mf_pool_supported (mf_account_pool (rp_manifest e)) then Inr c
          else (case select_account (tx_uuid (rs_text rs)) (rs_providers rs) (rs_accounts rs)
                       (pv_provider_key (rp_provider e)) (selection_query s policy c) of
                  Inl err \<Rightarrow>
                    if is_no_eligible_account err
                    then select_loop rs s policy cs
                           (skipped @ [skip_record rs c e
                              (''no eligible account: '' @ rs_pool_error rs err)])
                    else Inl (ResourcePool err)
                | Inr a \<Rightarrow> Inr (c\<lparr>cs_account_id := Some (pa_id a)\<rparr>)))"

definition select_resource ::
  "selector \<Rightarrow> selection \<Rightarrow> credential_policy \<Rightarrow> routing_decision \<Rightarrow> resource_error + candidate_score"
where
  "select_resource rs s policy d = select_loop rs s policy (rd_ranked d) []"

fun complete_loop ::
  "selector \<Rightarrow> selection \<Rightarrow> credential_policy \<Rightarrow> candidate_score list
    \<Rightarrow> candidate_score list \<Rightarrow> exclusion list
    \<Rightarrow> resource_error + (candidate_score list \<times> exclusion list)" where
  "complete_loop rs s policy [] rte skipped = Inr (rte, skipped)"
| "complete_loop rs s policy (c # cs) rte skipped =
     (case provider_get_by_id (rs_providers rs) (cs_provider_id c) of
        Inl err \<Rightarrow> Inl (ResourceBoundary err)
      | Inr e \<Rightarrow>
          if \<not> mf_pool_supported (mf_account_pool (rp_manifest e))
          then complete_loop rs s policy cs (rte @ [c]) skipped
          else (case eligible_accounts (tx_uuid (rs_text rs)) (rs_providers rs) (rs_accounts rs)
                       (pv_provider_key (rp_provider e)) (selection_query s policy c) of
                  Inl err \<Rightarrow> Inl (ResourcePool err)
                | Inr accounts \<Rightarrow>
                    if accounts = []
                    then complete_loop rs s policy cs rte
                           (skipped @ [skip_record rs c e (''no eligible account under policy ''
                              @ credential_policy_value policy)])
                    else complete_loop rs s policy cs
                           (rte @ map (\<lambda>a. c\<lparr>cs_account_id := Some (pa_id a)\<rparr>) accounts)
                           skipped))"

definition complete_decision ::
  "selector \<Rightarrow> selection \<Rightarrow> credential_policy option \<Rightarrow> routing_decision
    \<Rightarrow> resource_error + routing_decision" where
  "complete_decision rs s policy d =
     (let effective = (case policy of None \<Rightarrow> AUTO | Some p \<Rightarrow> p)
      in result_bind (complete_loop rs s effective (rd_ranked d) [] [])
           (\<lambda>(rte, skipped).
              if rte = [] then Inl (NothingCompleted (map ex_reason skipped))
              else Inr (d\<lparr>rd_selected := hd rte, rd_ranked := rte,
                          rd_fallback_candidates := tl rte,
                          rd_excluded := rd_excluded d @ skipped\<rparr>)))"

section \<open>The completed route\<close>

text \<open>The resource-complete candidates that one ranked candidate contributes.\<close>

definition expansion ::
  "selector \<Rightarrow> selection \<Rightarrow> credential_policy \<Rightarrow> candidate_score \<Rightarrow> candidate_score list" where
  "expansion rs s policy c =
     (case provider_get_by_id (rs_providers rs) (cs_provider_id c) of
        Inl err \<Rightarrow> []
      | Inr e \<Rightarrow>
          if \<not> mf_pool_supported (mf_account_pool (rp_manifest e)) then [c]
          else (case eligible_accounts (tx_uuid (rs_text rs)) (rs_providers rs) (rs_accounts rs)
                       (pv_provider_key (rp_provider e)) (selection_query s policy c) of
                  Inl err \<Rightarrow> []
                | Inr accounts \<Rightarrow> map (\<lambda>a. c\<lparr>cs_account_id := Some (pa_id a)\<rparr>) accounts))"

lemma complete_loop_route:
  "complete_loop rs s policy cs rte skipped = Inr (rte', skipped') \<Longrightarrow>
    rte' = rte @ concat (map (expansion rs s policy) cs)"
proof (induction cs arbitrary: rte skipped)
  case (Cons c cs)
  obtain e where e: "provider_get_by_id (rs_providers rs) (cs_provider_id c) = Inr e"
    using Cons.prems by (cases "provider_get_by_id (rs_providers rs) (cs_provider_id c)") auto
  show ?case
  proof (cases "mf_pool_supported (mf_account_pool (rp_manifest e))")
    case True
    then obtain accounts where a: "eligible_accounts (tx_uuid (rs_text rs)) (rs_providers rs)
        (rs_accounts rs) (pv_provider_key (rp_provider e)) (selection_query s policy c)
        = Inr accounts"
      using Cons.prems e by (auto split: sum.splits)
    then have x: "expansion rs s policy c
        = map (\<lambda>a. c\<lparr>cs_account_id := Some (pa_id a)\<rparr>) accounts"
      by (simp add: expansion_def e True)
    show ?thesis
    proof (cases "accounts = []")
      case True': True
      with Cons.prems e True a have "rte' = rte @ concat (map (expansion rs s policy) cs)"
        by (intro Cons.IH) simp
      with x True' show ?thesis by simp
    next
      case False': False
      with Cons.prems e True a have
        "rte' = (rte @ map (\<lambda>a. c\<lparr>cs_account_id := Some (pa_id a)\<rparr>) accounts)
           @ concat (map (expansion rs s policy) cs)"
        by (intro Cons.IH) simp
      with x show ?thesis by simp
    qed
  next
    case False
    then have x: "expansion rs s policy c = [c]" by (simp add: expansion_def e)
    from Cons.prems e False have
      "rte' = (rte @ [c]) @ concat (map (expansion rs s policy) cs)"
      by (intro Cons.IH) simp
    with x show ?thesis by simp
  qed
qed simp

text \<open>
  A completed decision is the ranked candidates in rank order, each replaced by one
  candidate per eligible account in selection order (or kept, for a provider without a
  pool); the first is selected and all others become the fallback route.
\<close>

theorem completion_expands_the_ranking:
  assumes "complete_decision rs s policy d = Inr d'"
  shows "rd_ranked d' = concat (map (expansion rs s (case policy of None \<Rightarrow> AUTO | Some p \<Rightarrow> p))
           (rd_ranked d)) \<and> rd_ranked d' \<noteq> []
    \<and> rd_selected d' = hd (rd_ranked d') \<and> rd_fallback_candidates d' = tl (rd_ranked d')
    \<and> rd_fallback_policy d' = rd_fallback_policy d \<and> rd_policy_snapshot d' = rd_policy_snapshot d"
proof -
  obtain rte skipped where r: "complete_loop rs s (case policy of None \<Rightarrow> AUTO | Some p \<Rightarrow> p)
      (rd_ranked d) [] [] = Inr (rte, skipped)" and ne: "rte \<noteq> []"
    and d': "d' = d\<lparr>rd_selected := hd rte, rd_ranked := rte,
                    rd_fallback_candidates := tl rte, rd_excluded := rd_excluded d @ skipped\<rparr>"
    using assms by (auto simp: complete_decision_def Let_def result_bind_Inr_iff split: if_splits)
  from complete_loop_route [OF r] ne show ?thesis by (simp add: d')
qed

text \<open>
  Completing a decision forgets its fallback scope: whatever fallback route the router
  decided - none at all when the caller forbade fallback - the completed decision's route
  is every other ranked candidate; so when the ranked candidates need no accounts and there
  are several, a decision whose policy forbids fallback comes out with a fallback route of
  all of them, under the same recorded policy.
\<close>

theorem completion_discards_the_fallback_scope:
  assumes "\<forall>c\<in>set (rd_ranked d). \<exists>e. provider_get_by_id (rs_providers rs) (cs_provider_id c) = Inr e
             \<and> \<not> mf_pool_supported (mf_account_pool (rp_manifest e))"
    and "rd_ranked d = c1 # c2 # rest" and "rd_fallback_policy d = Some SCOPE_NONE"
  shows "\<exists>d'. complete_decision rs s policy d = Inr d' \<and> rd_ranked d' = rd_ranked d
    \<and> rd_fallback_policy d' = Some SCOPE_NONE \<and> rd_fallback_candidates d' = c2 # rest"
proof -
  have "complete_loop rs s p cs rte sk = Inr (rte @ cs, sk)"
    if "\<forall>c\<in>set cs. \<exists>e. provider_get_by_id (rs_providers rs) (cs_provider_id c) = Inr e
             \<and> \<not> mf_pool_supported (mf_account_pool (rp_manifest e))" for p cs rte sk
    using that by (induction cs arbitrary: rte) auto
  from this [OF assms(1)] show ?thesis
    using assms(2,3) by (simp add: complete_decision_def)
qed

section \<open>Witnesses\<close>

definition ex_score :: "uuid \<Rightarrow> candidate_score" where
  "ex_score m = \<lparr>cs_model_id = m, cs_provider_id = 7, cs_account_id = None, cs_score = 1,
     cs_reasons = [], cs_risks = []\<rparr>"

definition ex_decision :: "fallback_scope option \<Rightarrow> routing_decision" where
  "ex_decision scope = \<lparr>rd_selected = ex_score 1, rd_ranked = [ex_score 1, ex_score 2],
     rd_fallback_candidates = [], rd_excluded = [], rd_policy_snapshot = AUTO_POLICY,
     rd_fallback_policy = scope, rd_weights = default_scoring_weights, rd_decided_at = 0\<rparr>"

text \<open>A provider without a pool.\<close>

definition ex_direct :: registered_provider where
  "ex_direct = ex_entry\<lparr>rp_manifest := ex_manifest\<lparr>mf_account_pool :=
     \<lparr>mf_pool_supported = False, mf_lease_required = False, mf_fencing_required = False\<rparr>\<rparr>\<rparr>"

definition ex_selector :: "registered_provider \<Rightarrow> selector" where
  "ex_selector e = \<lparr>rs_providers = index_entry empty_registry ''acme'' 7 e,
     rs_accounts = ex_manager, rs_text = ex_text, rs_pool_error = (\<lambda>_. [])\<rparr>"

definition ex_selection :: selection where
  "ex_selection = \<lparr>sl_rate_limits = Map.empty, sl_bindings = None, sl_now = 0\<rparr>"

lemma ex_direct_lookup:
  "provider_get_by_id (rs_providers (ex_selector ex_direct)) 7 = Inr ex_direct"
  "\<not> mf_pool_supported (mf_account_pool (rp_manifest ex_direct))"
  by (simp_all add: ex_selector_def provider_get_by_id_def ex_direct_def)

theorem completion_discards_the_fallback_scope_witness:
  "\<exists>d'. complete_decision (ex_selector ex_direct) ex_selection None
      (ex_decision (Some SCOPE_NONE)) = Inr d'
    \<and> rd_fallback_candidates d' = [ex_score 2] \<and> rd_fallback_policy d' = Some SCOPE_NONE"
  using completion_discards_the_fallback_scope [of "ex_decision (Some SCOPE_NONE)"
      "ex_selector ex_direct" "ex_score 1" "ex_score 2" "[]" ex_selection None] ex_direct_lookup
  by (auto simp: ex_decision_def ex_score_def)

lemma ex_direct_completes:
  "\<exists>d'. complete_decision (ex_selector ex_direct) ex_selection None (ex_decision None) = Inr d'"
  using ex_direct_lookup by (simp add: complete_decision_def ex_decision_def ex_score_def)

theorem completion_expands_the_ranking_witness:
  "\<exists>d'. complete_decision (ex_selector ex_direct) ex_selection None (ex_decision None) = Inr d'
    \<and> rd_selected d' = hd (rd_ranked d') \<and> rd_ranked d' = [ex_score 1, ex_score 2]"
proof -
  obtain d' where d: "complete_decision (ex_selector ex_direct) ex_selection None
      (ex_decision None) = Inr d'"
    using ex_direct_completes by blast
  from completion_expands_the_ranking [OF d] d show ?thesis
    using ex_direct_lookup by (simp add: expansion_def ex_decision_def ex_score_def)
qed

end
