(* ===== verification/Execution_Service.thy ===== *)
theory Execution_Service
  imports Routing_Router Audit_Log Usage_Ledger
begin

text \<open>
  The execution service, \<open>core/execution/service.py\<close>, over the records of
  \<open>core/contracts/execution.py\<close>: it walks the route of a routing decision, retries within a
  bound, chains the stages of a pipeline, and resolves what it reserved.  The outside world
  the service talks to - adapters, sleeper, id and time sources, signal board - is one state
  \<open>'w\<close> that those calls change; the usage port is a client's view as in the tool executor.
  A record that the contracts would reject (\<open>ContractViolation\<close>), a cancelled await
  (\<open>Cancellation\<close>) and a wiring fault are values of \<open>crash\<close>.  Lemmas: what an attempt
  trail looks like, how a pipeline unfolds, and that every hold is resolved once.
\<close>

section \<open>Contracts\<close>

datatype execution_status =
    EXECUTION_QUEUED | EXECUTION_RUNNING | EXECUTION_WAITING_APPROVAL | EXECUTION_SUCCEEDED
  | EXECUTION_FAILED_STATUS | EXECUTION_CANCELLED

datatype execution_strategy =
    STRATEGY_SINGLE | STRATEGY_PARALLEL | STRATEGY_PIPELINE | STRATEGY_DEBATE
  | STRATEGY_REVIEW_JUDGE | STRATEGY_MAP_REDUCE | STRATEGY_AGENT | STRATEGY_HYBRID

datatype execution_node_type =
    NODE_MODEL_CALL | NODE_TOOL_CALL | NODE_PLANNER | NODE_REVIEWER | NODE_TESTER
  | NODE_VALIDATOR | NODE_AGGREGATOR

datatype execution_node_status =
    NODE_PENDING | NODE_RUNNING | NODE_SUCCEEDED | NODE_FAILED | NODE_SKIPPED | NODE_CANCELLED

record execution_node =
  xn_id :: uuid
  xn_execution_id :: uuid
  xn_node_key :: string
  xn_type :: execution_node_type
  xn_status :: execution_node_status
  xn_input_ref :: json_object
  xn_output_ref :: "json_object option"
  xn_retry_count :: nat
  xn_error :: "json_object option"

record execution =
  xc_id :: uuid
  xc_tenant_id :: uuid
  xc_user_id :: uuid
  xc_conversation_id :: "uuid option"
  xc_request_hash :: string
  xc_idempotency_key :: "string option"
  xc_status :: execution_status
  xc_strategy :: execution_strategy
  xc_cost_snapshot :: json_object
  xc_created_at :: timestamp
  xc_completed_at :: "timestamp option"

section \<open>The service\<close>

definition REQUEST_INDICTING :: "provider_error_category set" where
  "REQUEST_INDICTING = {BAD_REQUEST, CONTENT_REJECTED}"

definition PREVIOUS_OUTPUT_KEY :: string where "PREVIOUS_OUTPUT_KEY = ''previous_output''"

definition DEFAULT_MAX_RETRY_WAIT_MS :: int where "DEFAULT_MAX_RETRY_WAIT_MS = 60000"

record pipeline_stage =
  st_node_key :: string
  st_decision :: routing_decision
  st_operation :: provider_operation
  st_payload :: json_object

record attempt_record =
  at_node_key :: string
  at_candidate :: candidate_score
  at_attempt :: nat
  at_succeeded :: bool
  at_error :: "provider_error option"
  at_latency_ms :: "int option"

record node_report =
  np_node :: execution_node
  np_attempts :: "attempt_record list"
  np_response :: "generate_response option"

record execution_report =
  xr_execution :: execution
  xr_nodes :: "node_report list"
  xr_status_history :: "execution_status list"
  xr_usage :: "usage_ledger option"

definition final_output :: "execution_report \<Rightarrow> json_object option" where
  "final_output r =
     (if xc_status (xr_execution r) \<noteq> EXECUTION_SUCCEEDED then None
      else case np_response (last (xr_nodes r)) of None \<Rightarrow> None | Some p \<Rightarrow> Some (gs_output p))"

record node_run =
  nr_attempts :: "attempt_record list"
  nr_response :: "generate_response option"
  nr_error :: "provider_error option"

definition run_succeeded :: "node_run \<Rightarrow> bool" where
  "run_succeeded r = (case nr_response r of None \<Rightarrow> False | Some p \<Rightarrow> gs_succeeded p)"

datatype crash =
    AdapterNotBound uuid
  | CredentialNotConfigured uuid
  | InvalidPipeline "string list"
  | ExecutionBoundary boundary_error
  | WiringKeyError uuid
  | NegativeEstimate
  | ExecutionUsage usage_error
  | ExecutionAudit audit_error
  | ContractViolation
  | AssertionFailed
  | Cancellation

text \<open>What an adapter's \<open>generate\<close> does, and what its \<open>normalize_error\<close> is handed.\<close>

datatype adapter_reply =
    Replied generate_response
  | RaisedException string string
  | Aborted

datatype raw_failure =
    RawException string string
  | RawMessage string

record 'w adapter =
  ad_generate :: "'w \<Rightarrow> generate_request \<Rightarrow> 'w \<times> adapter_reply"
  ad_normalize_error :: "raw_failure \<Rightarrow> provider_error"

record 'w signal_port =
  sp_record_attempt :: "'w \<Rightarrow> uuid \<Rightarrow> uuid \<Rightarrow> json_object option \<Rightarrow> 'w"
  sp_record_success :: "'w \<Rightarrow> uuid \<Rightarrow> uuid \<Rightarrow> 'w"
  sp_record_error :: "'w \<Rightarrow> uuid \<Rightarrow> uuid \<Rightarrow> provider_error \<Rightarrow> 'w"

text \<open>
  \<open>sv_sleep\<close> waits some milliseconds and tells whether the wait was cancelled;
  \<open>sv_event_stamp\<close> draws an audit event's id and time.
\<close>

record 'w service =
  sv_adapters :: "uuid \<rightharpoonup> 'w adapter"
  sv_credential_refs :: "uuid \<rightharpoonup> string"
  sv_account_credentials :: "uuid \<rightharpoonup> string"
  sv_bindings :: binding_registry
  sv_max_retries :: nat
  sv_max_retry_wait_ms :: int
  sv_usage_bound :: bool
  sv_units_per_stage :: units
  sv_audit_bound :: bool
  sv_signals :: "'w signal_port option"
  sv_sleep :: "'w \<Rightarrow> int \<Rightarrow> 'w \<times> bool"
  sv_new_id :: "'w \<Rightarrow> 'w \<times> uuid"
  sv_clock :: "'w \<Rightarrow> 'w \<times> timestamp"
  sv_event_stamp :: "'w \<Rightarrow> 'w \<times> uuid \<times> timestamp"
  sv_show_uuid :: "uuid \<Rightarrow> string"

text \<open>The constructor's checks: a negative bound, price or wait is a \<open>ValueError\<close>.\<close>

definition service_settings_ok :: "int \<Rightarrow> units \<Rightarrow> int \<Rightarrow> bool" where
  "service_settings_ok max_retries_per_candidate units_per_stage max_retry_wait_ms \<longleftrightarrow>
     \<not> max_retries_per_candidate < 0 \<and> \<not> units_per_stage < 0 \<and> \<not> max_retry_wait_ms < 0"

text \<open>The part of the state that running a node changes.\<close>

record 'w node_state =
  ns_world :: 'w
  ns_audit :: audit_log

text \<open>The arguments that stay fixed while one node runs.\<close>

record node_call =
  nc_stage :: pipeline_stage
  nc_tenant_id :: uuid
  nc_payload :: json_object
  nc_timeout_ms :: "int option"

definition credential_ref_for :: "'w service \<Rightarrow> candidate_score \<Rightarrow> crash + string" where
  "credential_ref_for sv c =
     (case (case cs_account_id c of None \<Rightarrow> None | Some a \<Rightarrow> sv_account_credentials sv a) of
        Some ref \<Rightarrow> Inr ref
      | None \<Rightarrow> (case sv_credential_refs sv (cs_provider_id c) of
          None \<Rightarrow> Inl (WiringKeyError (cs_provider_id c)) | Some ref \<Rightarrow> Inr ref))"

definition has_credential :: "'w service \<Rightarrow> candidate_score \<Rightarrow> bool" where
  "has_credential sv c \<longleftrightarrow>
     (case cs_account_id c of None \<Rightarrow> False | Some a \<Rightarrow> sv_account_credentials sv a \<noteq> None)
     \<or> sv_credential_refs sv (cs_provider_id c) \<noteq> None"

definition decision_route :: "routing_decision \<Rightarrow> candidate_score list" where
  "decision_route d = rd_selected d # rd_fallback_candidates d"

fun validate_candidates :: "'w service \<Rightarrow> candidate_score list \<Rightarrow> crash + unit" where
  "validate_candidates sv [] = Inr ()"
| "validate_candidates sv (c # cs) =
     (if sv_adapters sv (cs_provider_id c) = None then Inl (AdapterNotBound (cs_provider_id c))
      else if \<not> has_credential sv c then Inl (CredentialNotConfigured (cs_provider_id c))
      else case binding_get (sv_bindings sv) (cs_provider_id c) (cs_model_id c) of
             Inl e \<Rightarrow> Inl (ExecutionBoundary e)
           | Inr _ \<Rightarrow> validate_candidates sv cs)"

definition validate_route :: "'w service \<Rightarrow> routing_decision \<Rightarrow> crash + unit" where
  "validate_route sv d = validate_candidates sv (decision_route d)"

fun validate_stages :: "'w service \<Rightarrow> pipeline_stage list \<Rightarrow> crash + unit" where
  "validate_stages sv [] = Inr ()"
| "validate_stages sv (t # ts) =
     result_bind (validate_route sv (st_decision t)) (\<lambda>_. validate_stages sv ts)"

subsection \<open>One attempt\<close>

text \<open>The contract checks of \<open>ProviderGenerateRequest\<close>.\<close>

definition request_valid :: "generate_request \<Rightarrow> bool" where
  "request_valid q \<longleftrightarrow> bounded_str (gr_provider_model_name q) \<and> bounded_str (gr_credential_ref q)
     \<and> at_least 1 (gr_timeout_ms q)"

definition CONTRACT_BREACH :: string where
  "CONTRACT_BREACH = ''adapter returned succeeded=false without a normalized error''"

definition attempt_call ::
  "'w adapter \<Rightarrow> generate_request \<Rightarrow> 'w
    \<Rightarrow> 'w \<times> (crash + (generate_response option \<times> provider_error option))" where
  "attempt_call ad q w =
     (case ad_generate ad w q of
        (w', Aborted) \<Rightarrow> (w', Inl Cancellation)
      | (w', RaisedException ty msg) \<Rightarrow>
          (w', Inr (None, Some (ad_normalize_error ad (RawException ty msg))))
      | (w', Replied p) \<Rightarrow>
          (w', Inr (Some p,
             if gs_succeeded p then None
             else case gs_error p of
                    Some e \<Rightarrow> Some e
                  | None \<Rightarrow> Some (ad_normalize_error ad (RawMessage CONTRACT_BREACH)))))"

definition report_signal ::
  "'w service \<Rightarrow> candidate_score \<Rightarrow> bool \<Rightarrow> provider_error option \<Rightarrow> 'w \<Rightarrow> 'w" where
  "report_signal sv c succeeded error w =
     (case sv_signals sv of
        None \<Rightarrow> w
      | Some sp \<Rightarrow>
          if succeeded then sp_record_success sp w (cs_provider_id c) (cs_model_id c)
          else case error of
                 None \<Rightarrow> w
               | Some e \<Rightarrow> sp_record_error sp w (cs_provider_id c) (cs_model_id c) e)"

definition account_event ::
  "'w service \<Rightarrow> node_call \<Rightarrow> candidate_score \<Rightarrow> uuid \<Rightarrow> attempt_record \<Rightarrow> uuid \<Rightarrow> timestamp
    \<Rightarrow> audit_event" where
  "account_event sv n c account r event_id now =
     \<lparr>ae_id = event_id, ae_tenant_id = nc_tenant_id n, ae_event_type = PROVIDER_ACCOUNT_USED,
      ae_actor_id = None, ae_occurred_at = now,
      ae_details =
        [(''account_id'', JStr (sv_show_uuid sv account)),
         (''provider_id'', JStr (sv_show_uuid sv (cs_provider_id c))),
         (''model_id'', JStr (sv_show_uuid sv (cs_model_id c))),
         (''node_key'', JStr (at_node_key r)), (''attempt'', JInt (int (at_attempt r))),
         (''succeeded'', JBool (at_succeeded r)),
         (''error_category'', case at_error r of None \<Rightarrow> JNull
            | Some e \<Rightarrow> JStr (category_value (pe_category e)))],
      ae_admin_change = None\<rparr>"

definition audit_account_used ::
  "'w service \<Rightarrow> node_call \<Rightarrow> candidate_score \<Rightarrow> attempt_record \<Rightarrow> 'w node_state
    \<Rightarrow> 'w node_state \<times> (crash + unit)" where
  "audit_account_used sv n c r s =
     (case (if sv_audit_bound sv then cs_account_id c else None) of
        None \<Rightarrow> (s, Inr ())
      | Some account \<Rightarrow>
          (let (w, event_id, now) = sv_event_stamp sv (ns_world s)
           in case audit_append (ns_audit s) (account_event sv n c account r event_id now) of
                Inl e \<Rightarrow> (s\<lparr>ns_world := w\<rparr>, Inl (ExecutionAudit e))
              | Inr evs \<Rightarrow> (\<lparr>ns_world = w, ns_audit = evs\<rparr>, Inr ())))"

text \<open>The resolved candidate: its adapter, its binding and its credential reference.\<close>

record 'w wired =
  wr_adapter :: "'w adapter"
  wr_binding :: binding
  wr_credential_ref :: string

definition wire_candidate :: "'w service \<Rightarrow> candidate_score \<Rightarrow> crash + 'w wired" where
  "wire_candidate sv c =
     (case sv_adapters sv (cs_provider_id c) of
        None \<Rightarrow> Inl (WiringKeyError (cs_provider_id c))
      | Some ad \<Rightarrow>
          (case binding_get (sv_bindings sv) (cs_provider_id c) (cs_model_id c) of
             Inl e \<Rightarrow> Inl (ExecutionBoundary e)
           | Inr b \<Rightarrow>
               (case credential_ref_for sv c of
                  Inl e \<Rightarrow> Inl e
                | Inr ref \<Rightarrow>
                    Inr \<lparr>wr_adapter = ad, wr_binding = b, wr_credential_ref = ref\<rparr>)))"

definition make_request ::
  "node_call \<Rightarrow> candidate_score \<Rightarrow> 'w wired \<Rightarrow> uuid \<Rightarrow> generate_request" where
  "make_request n c k request_id =
     \<lparr>gr_request_id = request_id, gr_tenant_id = nc_tenant_id n,
      gr_operation = st_operation (nc_stage n),
      gr_provider_model_name = bd_provider_model_name (wr_binding k),
      gr_credential_ref = wr_credential_ref k, gr_account_id = cs_account_id c,
      gr_payload = nc_payload n, gr_timeout_ms = nc_timeout_ms n\<rparr>"

definition make_attempt ::
  "node_call \<Rightarrow> candidate_score \<Rightarrow> nat \<Rightarrow> generate_response option \<Rightarrow> provider_error option
    \<Rightarrow> attempt_record" where
  "make_attempt n c attempt response error =
     \<lparr>at_node_key = st_node_key (nc_stage n), at_candidate = c, at_attempt = attempt,
      at_succeeded = (case response of None \<Rightarrow> False | Some p \<Rightarrow> gs_succeeded p),
      at_error = error,
      at_latency_ms = (case response of None \<Rightarrow> None | Some p \<Rightarrow> gs_latency_ms p)\<rparr>"

definition perform_attempt ::
  "'w service \<Rightarrow> node_call \<Rightarrow> candidate_score \<Rightarrow> 'w wired \<Rightarrow> nat \<Rightarrow> 'w node_state
    \<Rightarrow> 'w node_state \<times> (crash + (attempt_record \<times> generate_response option))" where
  "perform_attempt sv n c k attempt s =
     (let (w1, request_id) = sv_new_id sv (ns_world s);
          q = make_request n c k request_id
      in if \<not> request_valid q then (s\<lparr>ns_world := w1\<rparr>, Inl ContractViolation)
         else
           let w2 = (case sv_signals sv of
                       None \<Rightarrow> w1
                     | Some sp \<Rightarrow> sp_record_attempt sp w1 (cs_provider_id c) (cs_model_id c)
                                   (Some (bd_limits_metadata (wr_binding k))));
               (w3, reply) = attempt_call (wr_adapter k) q w2
           in case reply of
                Inl crash \<Rightarrow> (s\<lparr>ns_world := w3\<rparr>, Inl crash)
              | Inr (response, error) \<Rightarrow>
                  (let r = make_attempt n c attempt response error;
                       w4 = report_signal sv c (at_succeeded r) error w3
                   in case audit_account_used sv n c r (s\<lparr>ns_world := w4\<rparr>) of
                        (s', Inl crash) \<Rightarrow> (s', Inl crash)
                      | (s', Inr _) \<Rightarrow> (s', Inr (r, response))))"

subsection \<open>The traversal of a route\<close>

datatype candidate_outcome =
    Finished node_run
  | NextCandidate "attempt_record list" "provider_error option"
  | Crashed crash

text \<open>
  \<open>attempt_loop\<close> is the \<open>while attempt <= max_retries\<close> loop of one candidate; it ends because
  each round raises \<open>attempt\<close>.
\<close>

function attempt_loop ::
  "'w service \<Rightarrow> node_call \<Rightarrow> candidate_score \<Rightarrow> 'w wired \<Rightarrow> nat \<Rightarrow> attempt_record list
    \<Rightarrow> provider_error option \<Rightarrow> 'w node_state \<Rightarrow> 'w node_state \<times> candidate_outcome" where
  "attempt_loop sv n c k attempt attempts last_error s =
     (if sv_max_retries sv < attempt then (s, NextCandidate attempts last_error)
      else case perform_attempt sv n c k (Suc attempt) s of
             (s1, Inl crash) \<Rightarrow> (s1, Crashed crash)
           | (s1, Inr (r, response)) \<Rightarrow>
               if at_succeeded r
               then (s1, Finished \<lparr>nr_attempts = attempts @ [r], nr_response = response,
                                   nr_error = None\<rparr>)
               else case at_error r of
                 None \<Rightarrow> (s1, Crashed AssertionFailed)
               | Some e \<Rightarrow>
                   if pe_category e \<in> REQUEST_INDICTING
                   then (s1, Finished \<lparr>nr_attempts = attempts @ [r], nr_response = response,
                                       nr_error = Some e\<rparr>)
                   else if pe_retryable e \<and> Suc attempt \<le> sv_max_retries sv
                   then (case pe_retry_after_ms e of
                           None \<Rightarrow> attempt_loop sv n c k (Suc attempt) (attempts @ [r]) (Some e) s1
                         | Some wait_ms \<Rightarrow>
                             if sv_max_retry_wait_ms sv < wait_ms
                             then (s1, NextCandidate (attempts @ [r]) (Some e))
                             else if 0 < wait_ms
                             then (case sv_sleep sv (ns_world s1) wait_ms of (w, cancelled) \<Rightarrow>
                                     if cancelled then (s1\<lparr>ns_world := w\<rparr>, Crashed Cancellation)
                                     else attempt_loop sv n c k (Suc attempt) (attempts @ [r])
                                            (Some e) (s1\<lparr>ns_world := w\<rparr>))
                             else attempt_loop sv n c k (Suc attempt) (attempts @ [r])
                                    (Some e) s1)
                   else (s1, NextCandidate (attempts @ [r]) (Some e)))"
  by pat_completeness auto

termination
  by (relation "measure (\<lambda>(sv, n, c, k, attempt, _). Suc (sv_max_retries sv) - attempt)") auto

declare attempt_loop.simps [simp del]

fun route_loop ::
  "'w service \<Rightarrow> node_call \<Rightarrow> candidate_score list \<Rightarrow> attempt_record list
    \<Rightarrow> provider_error option \<Rightarrow> 'w node_state \<Rightarrow> 'w node_state \<times> (crash + node_run)" where
  "route_loop sv n [] attempts last_error s =
     (s, Inr \<lparr>nr_attempts = attempts, nr_response = None, nr_error = last_error\<rparr>)"
| "route_loop sv n (c # cs) attempts last_error s =
     (case wire_candidate sv c of
        Inl crash \<Rightarrow> (s, Inl crash)
      | Inr k \<Rightarrow>
          (case attempt_loop sv n c k 0 attempts last_error s of
             (s', Crashed crash) \<Rightarrow> (s', Inl crash)
           | (s', Finished r) \<Rightarrow> (s', Inr r)
           | (s', NextCandidate attempts' err) \<Rightarrow> route_loop sv n cs attempts' err s'))"

definition run_node ::
  "'w service \<Rightarrow> node_call \<Rightarrow> 'w node_state \<Rightarrow> 'w node_state \<times> (crash + node_run)" where
  "run_node sv n s = route_loop sv n (decision_route (st_decision (nc_stage n))) [] None s"

subsection \<open>The records of a node\<close>

text \<open>\<open>model_dump\<close> of an error in JSON mode, without its absent fields.\<close>

definition provider_error_json :: "provider_error \<Rightarrow> json_object" where
  "provider_error_json e =
     [(''category'', JStr (category_value (pe_category e))),
      (''retryable'', JBool (pe_retryable e))]
     @ (case pe_retry_after_ms e of None \<Rightarrow> [] | Some ms \<Rightarrow> [(''retry_after_ms'', JInt ms)])
     @ (case pe_provider_code e of None \<Rightarrow> [] | Some code \<Rightarrow> [(''provider_code'', JStr code)])
     @ [(''safe_message'', JStr (pe_safe_message e))]"

definition completed_node ::
  "uuid \<Rightarrow> uuid \<Rightarrow> pipeline_stage \<Rightarrow> json_object \<Rightarrow> node_run \<Rightarrow> node_report" where
  "completed_node node_id execution_id t payload r =
     \<lparr>np_node = \<lparr>xn_id = node_id, xn_execution_id = execution_id, xn_node_key = st_node_key t,
         xn_type = NODE_MODEL_CALL,
         xn_status = (if run_succeeded r then NODE_SUCCEEDED else NODE_FAILED),
         xn_input_ref = payload,
         xn_output_ref = (if run_succeeded r then map_option gs_output (nr_response r) else None),
         xn_retry_count = length (nr_attempts r) - 1,
         xn_error = map_option provider_error_json (nr_error r)\<rparr>,
      np_attempts = nr_attempts r, np_response = nr_response r\<rparr>"

definition skipped_node :: "uuid \<Rightarrow> uuid \<Rightarrow> pipeline_stage \<Rightarrow> node_report" where
  "skipped_node node_id execution_id t =
     \<lparr>np_node = \<lparr>xn_id = node_id, xn_execution_id = execution_id, xn_node_key = st_node_key t,
         xn_type = NODE_MODEL_CALL, xn_status = NODE_SKIPPED, xn_input_ref = st_payload t,
         xn_output_ref = None, xn_retry_count = 0, xn_error = None\<rparr>,
      np_attempts = [], np_response = None\<rparr>"

section \<open>One execution\<close>

text \<open>The caller's fixed arguments.\<close>

record execution_call =
  xq_tenant_id :: uuid
  xq_user_id :: uuid
  xq_request_hash :: string
  xq_idempotency_key :: "string option"
  xq_conversation_id :: "uuid option"
  xq_timeout_ms :: "int option"
  xq_estimated_units :: "units option"

text \<open>What the stage loop carries from stage to stage.\<close>

record progress =
  pg_reports :: "node_report list"
  pg_provider_usage :: "json list"
  pg_failed :: bool
  pg_previous_output :: "json_object option"

definition no_progress :: progress where
  "no_progress = \<lparr>pg_reports = [], pg_provider_usage = [], pg_failed = False,
     pg_previous_output = None\<rparr>"

definition stage_payload :: "pipeline_stage \<Rightarrow> json_object option \<Rightarrow> json_object" where
  "stage_payload t previous =
     (case previous of None \<Rightarrow> st_payload t
      | Some out \<Rightarrow> AList.update PREVIOUS_OUTPUT_KEY (JObj out) (st_payload t))"

definition usage_row :: "pipeline_stage \<Rightarrow> generate_response \<Rightarrow> json list" where
  "usage_row t p =
     (if gs_usage p = [] then []
      else [JObj [(''node_key'', JStr (st_node_key t)), (''usage'', JObj (gs_usage p))]])"

text \<open>A stage that ran: its report is added, and its output is handed on or the run fails.\<close>

definition note_run ::
  "pipeline_stage \<Rightarrow> node_report \<Rightarrow> node_run \<Rightarrow> progress \<Rightarrow> progress" where
  "note_run t report r pg =
     (case (if run_succeeded r then nr_response r else None) of
        Some p \<Rightarrow> pg\<lparr>pg_reports := pg_reports pg @ [report],
                     pg_previous_output := Some (gs_output p),
                     pg_provider_usage := pg_provider_usage pg @ usage_row t p\<rparr>
      | None \<Rightarrow> pg\<lparr>pg_reports := pg_reports pg @ [report], pg_failed := True\<rparr>)"

definition run_stage ::
  "'w service \<Rightarrow> execution_call \<Rightarrow> uuid \<Rightarrow> pipeline_stage \<Rightarrow> progress \<Rightarrow> 'w node_state
    \<Rightarrow> 'w node_state \<times> (crash + progress)" where
  "run_stage sv q execution_id t pg s =
     (if pg_failed pg then
        (let (w, node_id) = sv_new_id sv (ns_world s)
         in if bounded_str (st_node_key t)
            then (s\<lparr>ns_world := w\<rparr>, Inr (pg\<lparr>pg_reports := pg_reports pg
                    @ [skipped_node node_id execution_id t]\<rparr>))
            else (s\<lparr>ns_world := w\<rparr>, Inl ContractViolation))
      else
        (let payload = stage_payload t (pg_previous_output pg)
         in case run_node sv \<lparr>nc_stage = t, nc_tenant_id = xq_tenant_id q,
                    nc_payload = payload, nc_timeout_ms = xq_timeout_ms q\<rparr> s of
              (s', Inl crash) \<Rightarrow> (s', Inl crash)
            | (s', Inr r) \<Rightarrow>
                (let (w, node_id) = sv_new_id sv (ns_world s')
                 in if bounded_str (st_node_key t)
                    then (s'\<lparr>ns_world := w\<rparr>,
                          Inr (note_run t (completed_node node_id execution_id t payload r) r pg))
                    else (s'\<lparr>ns_world := w\<rparr>, Inl ContractViolation))))"

fun stage_loop ::
  "'w service \<Rightarrow> execution_call \<Rightarrow> uuid \<Rightarrow> pipeline_stage list \<Rightarrow> progress \<Rightarrow> 'w node_state
    \<Rightarrow> 'w node_state \<times> (crash + progress)" where
  "stage_loop sv q xid [] pg s = (s, Inr pg)"
| "stage_loop sv q xid (t # ts) pg s =
     (case run_stage sv q xid t pg s of
        (s', Inl crash) \<Rightarrow> (s', Inl crash)
      | (s', Inr pg') \<Rightarrow> stage_loop sv q xid ts pg' s')"

fun usage_status_value :: "usage_status \<Rightarrow> string" where
  "usage_status_value RESERVED = ''reserved''"
| "usage_status_value SETTLED = ''settled''"
| "usage_status_value REFUNDED = ''refunded''"
| "usage_status_value FAILED = ''failed''"

definition cost_snapshot :: "units \<Rightarrow> json list \<Rightarrow> usage_ledger option \<Rightarrow> json_object" where
  "cost_snapshot estimated provider_usage ledger =
     [(''estimated_units'', JFloat estimated), (''provider_usage'', JList provider_usage),
      (''settlement'',
         case ledger of
           None \<Rightarrow> JStr ''pending_usage_service''
         | Some l \<Rightarrow> JObj [(''status'', JStr (usage_status_value (ul_status l))),
                           (''units_reserved'', JFloat (ul_units_reserved l)),
                           (''units_settled'', JFloat (ul_units_settled l))])]"

definition succeeded_stages :: "progress \<Rightarrow> nat" where
  "succeeded_stages pg =
     length (filter (\<lambda>p. xn_status (np_node p) = NODE_SUCCEEDED) (pg_reports pg))"

definition final_status :: "progress \<Rightarrow> execution_status" where
  "final_status pg = (if pg_failed pg then EXECUTION_FAILED_STATUS else EXECUTION_SUCCEEDED)"

text \<open>The report, or the contract violation of its \<open>Execution\<close> record.\<close>

definition make_report ::
  "execution_call \<Rightarrow> execution_strategy \<Rightarrow> uuid \<Rightarrow> timestamp \<Rightarrow> timestamp \<Rightarrow> units \<Rightarrow> progress
    \<Rightarrow> usage_ledger option \<Rightarrow> crash + execution_report" where
  "make_report q strategy xid created completed estimated pg ledger =
     (if bounded_str (xq_request_hash q)
         \<and> (case xq_idempotency_key q of None \<Rightarrow> True | Some k \<Rightarrow> bounded_str k)
      then Inr
        \<lparr>xr_execution =
           \<lparr>xc_id = xid, xc_tenant_id = xq_tenant_id q, xc_user_id = xq_user_id q,
            xc_conversation_id = xq_conversation_id q, xc_request_hash = xq_request_hash q,
            xc_idempotency_key = xq_idempotency_key q, xc_status = final_status pg,
            xc_strategy = strategy,
            xc_cost_snapshot = cost_snapshot estimated (pg_provider_usage pg) ledger,
            xc_created_at = created, xc_completed_at = Some completed\<rparr>,
         xr_nodes = pg_reports pg,
         xr_status_history = [EXECUTION_QUEUED, EXECUTION_RUNNING, final_status pg],
         xr_usage = ledger\<rparr>
      else Inl ContractViolation)"

record ('u, 'w) service_state =
  ss_usage :: 'u
  ss_node :: "'w node_state"

definition set_world :: "'w \<Rightarrow> ('u, 'w) service_state \<Rightarrow> ('u, 'w) service_state" where
  "set_world w s = s\<lparr>ss_node := (ss_node s)\<lparr>ns_world := w\<rparr>\<rparr>"

text \<open>
  \<open>finish_execution\<close> is what follows the stage loop; \<open>fail_execution\<close> its
  \<open>except BaseException\<close> branch, which resolves the hold and re-raises.
\<close>

definition finish_execution ::
  "('u \<Rightarrow> uuid \<Rightarrow> units \<Rightarrow> json_object \<Rightarrow> usage_error + ('u \<times> usage_ledger))
   \<Rightarrow> ('u \<Rightarrow> uuid \<Rightarrow> units \<Rightarrow> json_object \<Rightarrow> usage_error + ('u \<times> usage_ledger))
   \<Rightarrow> 'w service \<Rightarrow> execution_strategy \<Rightarrow> execution_call \<Rightarrow> uuid \<Rightarrow> timestamp \<Rightarrow> units \<Rightarrow> progress
   \<Rightarrow> ('u, 'w) service_state \<Rightarrow> ('u, 'w) service_state \<times> (crash + execution_report)" where
  "finish_execution settle fail sv strategy q xid created estimated pg s =
     (let conclude = (\<lambda>ledger s. let (w, completed) = sv_clock sv (ns_world (ss_node s))
                       in (set_world w s,
                           make_report q strategy xid created completed estimated pg ledger));
          actual = dbl (sv_units_per_stage sv * of_nat (succeeded_stages pg));
          costs = [(''provider_usage'', JList (pg_provider_usage pg))]
      in if \<not> sv_usage_bound sv then conclude None s
         else case (if pg_failed pg then fail (ss_usage s) xid actual costs
                    else settle (ss_usage s) xid actual costs) of
                Inl e \<Rightarrow> (s, Inl (ExecutionUsage e))
              | Inr (u, l) \<Rightarrow> conclude (Some l) (s\<lparr>ss_usage := u\<rparr>))"

definition fail_execution ::
  "('u \<Rightarrow> uuid \<Rightarrow> units \<Rightarrow> json_object \<Rightarrow> usage_error + ('u \<times> usage_ledger))
   \<Rightarrow> 'w service \<Rightarrow> uuid \<Rightarrow> crash
   \<Rightarrow> ('u, 'w) service_state \<Rightarrow> ('u, 'w) service_state \<times> (crash + execution_report)" where
  "fail_execution fail sv xid crash s =
     (if \<not> sv_usage_bound sv then (s, Inl crash)
      else case fail (ss_usage s) xid 0 [] of
             Inl e \<Rightarrow> (s, Inl (ExecutionUsage e))
           | Inr (u, _) \<Rightarrow> (s\<lparr>ss_usage := u\<rparr>, Inl crash))"

text \<open>The reservation, when a usage port is bound, and the stages under it.\<close>

definition hold_units ::
  "('u \<Rightarrow> uuid \<Rightarrow> uuid \<Rightarrow> units \<Rightarrow> usage_error + ('u \<times> usage_ledger))
   \<Rightarrow> 'w service \<Rightarrow> execution_call \<Rightarrow> uuid \<Rightarrow> units \<Rightarrow> 'u \<Rightarrow> usage_error + 'u" where
  "hold_units reserve sv q xid estimated u =
     (if sv_usage_bound sv
      then result_bind (reserve u (xq_tenant_id q) xid estimated) (\<lambda>(u', l). Inr u')
      else Inr u)"

definition run_held ::
  "('u \<Rightarrow> uuid \<Rightarrow> units \<Rightarrow> json_object \<Rightarrow> usage_error + ('u \<times> usage_ledger))
   \<Rightarrow> ('u \<Rightarrow> uuid \<Rightarrow> units \<Rightarrow> json_object \<Rightarrow> usage_error + ('u \<times> usage_ledger))
   \<Rightarrow> 'w service \<Rightarrow> execution_strategy \<Rightarrow> pipeline_stage list \<Rightarrow> execution_call \<Rightarrow> uuid
   \<Rightarrow> timestamp \<Rightarrow> units
   \<Rightarrow> ('u, 'w) service_state \<Rightarrow> ('u, 'w) service_state \<times> (crash + execution_report)" where
  "run_held settle fail sv strategy stages q xid created estimated s =
     (case stage_loop sv q xid stages no_progress (ss_node s) of
        (nd, Inl crash) \<Rightarrow> fail_execution fail sv xid crash (s\<lparr>ss_node := nd\<rparr>)
      | (nd, Inr pg) \<Rightarrow>
          finish_execution settle fail sv strategy q xid created estimated pg (s\<lparr>ss_node := nd\<rparr>))"

text \<open>The price of an execution, fixed before any work.\<close>

definition execution_estimate :: "'w service \<Rightarrow> pipeline_stage list \<Rightarrow> execution_call \<Rightarrow> units" where
  "execution_estimate sv stages q =
     (case xq_estimated_units q of
        None \<Rightarrow> dbl (sv_units_per_stage sv * of_nat (length stages)) | Some n \<Rightarrow> n)"

definition run_execution ::
  "('u \<Rightarrow> uuid \<Rightarrow> uuid \<Rightarrow> units \<Rightarrow> usage_error + ('u \<times> usage_ledger))
   \<Rightarrow> ('u \<Rightarrow> uuid \<Rightarrow> units \<Rightarrow> json_object \<Rightarrow> usage_error + ('u \<times> usage_ledger))
   \<Rightarrow> ('u \<Rightarrow> uuid \<Rightarrow> units \<Rightarrow> json_object \<Rightarrow> usage_error + ('u \<times> usage_ledger))
   \<Rightarrow> 'w service \<Rightarrow> execution_strategy \<Rightarrow> pipeline_stage list \<Rightarrow> execution_call
   \<Rightarrow> ('u, 'w) service_state \<Rightarrow> ('u, 'w) service_state \<times> (crash + execution_report)" where
  "run_execution reserve settle fail sv strategy stages q s =
     (case validate_stages sv stages of
        Inl crash \<Rightarrow> (s, Inl crash)
      | Inr _ \<Rightarrow>
          (let (w1, xid) = sv_new_id sv (ns_world (ss_node s));
               (w2, created) = sv_clock sv w1;
               s1 = set_world w2 s;
               estimated = execution_estimate sv stages q
           in if xq_estimated_units q \<noteq> None \<and> estimated < 0 then (s1, Inl NegativeEstimate)
              else case hold_units reserve sv q xid estimated (ss_usage s1) of
                     Inl e \<Rightarrow> (s1, Inl (ExecutionUsage e))
                   | Inr u \<Rightarrow> run_held settle fail sv strategy stages q xid created estimated
                                (s1\<lparr>ss_usage := u\<rparr>)))"

definition execute_single ::
  "('u \<Rightarrow> uuid \<Rightarrow> uuid \<Rightarrow> units \<Rightarrow> usage_error + ('u \<times> usage_ledger))
   \<Rightarrow> ('u \<Rightarrow> uuid \<Rightarrow> units \<Rightarrow> json_object \<Rightarrow> usage_error + ('u \<times> usage_ledger))
   \<Rightarrow> ('u \<Rightarrow> uuid \<Rightarrow> units \<Rightarrow> json_object \<Rightarrow> usage_error + ('u \<times> usage_ledger))
   \<Rightarrow> 'w service \<Rightarrow> routing_decision \<Rightarrow> provider_operation \<Rightarrow> json_object \<Rightarrow> execution_call
   \<Rightarrow> ('u, 'w) service_state \<Rightarrow> ('u, 'w) service_state \<times> (crash + execution_report)" where
  "execute_single reserve settle fail sv decision operation payload q s =
     run_execution reserve settle fail sv STRATEGY_SINGLE
       [\<lparr>st_node_key = ''single'', st_decision = decision, st_operation = operation,
         st_payload = payload\<rparr>] q s"

definition execute_pipeline ::
  "('u \<Rightarrow> uuid \<Rightarrow> uuid \<Rightarrow> units \<Rightarrow> usage_error + ('u \<times> usage_ledger))
   \<Rightarrow> ('u \<Rightarrow> uuid \<Rightarrow> units \<Rightarrow> json_object \<Rightarrow> usage_error + ('u \<times> usage_ledger))
   \<Rightarrow> ('u \<Rightarrow> uuid \<Rightarrow> units \<Rightarrow> json_object \<Rightarrow> usage_error + ('u \<times> usage_ledger))
   \<Rightarrow> 'w service \<Rightarrow> pipeline_stage list \<Rightarrow> execution_call
   \<Rightarrow> ('u, 'w) service_state \<Rightarrow> ('u, 'w) service_state \<times> (crash + execution_report)" where
  "execute_pipeline reserve settle fail sv stages q s =
     (let keys = map st_node_key stages
      in if stages = [] then (s, Inl (InvalidPipeline []))
         else if length (remdups keys) \<noteq> length keys then (s, Inl (InvalidPipeline keys))
         else run_execution reserve settle fail sv STRATEGY_PIPELINE stages q s)"

section \<open>Fail-fast wiring\<close>

lemma has_credential_ref: "has_credential sv c \<longleftrightarrow> is_ok (credential_ref_for sv c)"
  by (auto simp: has_credential_def credential_ref_for_def split: option.splits)

definition wired_ok :: "'w service \<Rightarrow> candidate_score \<Rightarrow> bool" where
  "wired_ok sv c \<longleftrightarrow> (\<exists>k. wire_candidate sv c = Inr k)"

lemma validate_candidates_wired:
  "validate_candidates sv cs = Inr () \<longleftrightarrow> (\<forall>c\<in>set cs. wired_ok sv c)"
proof (induction cs)
  case (Cons c cs)
  have "wired_ok sv c \<longleftrightarrow> sv_adapters sv (cs_provider_id c) \<noteq> None \<and> has_credential sv c
      \<and> is_ok (binding_get (sv_bindings sv) (cs_provider_id c) (cs_model_id c))"
    by (auto simp: wired_ok_def wire_candidate_def has_credential_ref is_ok_iff
        split: option.splits sum.splits)
  with Cons show ?case by (auto simp: is_ok_iff split: sum.splits)
qed simp

lemma validate_stages_wired:
  "validate_stages sv ts = Inr () \<longleftrightarrow>
    (\<forall>t\<in>set ts. \<forall>c\<in>set (decision_route (st_decision t)). wired_ok sv c)"
  by (induction ts) (auto simp: result_bind_Inr_iff validate_route_def validate_candidates_wired)

text \<open>The crashes that can happen while a node runs: none of them is a wiring fault.\<close>

fun runtime_crash :: "crash \<Rightarrow> bool" where
  "runtime_crash ContractViolation = True"
| "runtime_crash Cancellation = True"
| "runtime_crash _ = False"

lemma audit_account_used_ok: "\<exists>s'. audit_account_used sv n c r s = (s', Inr ())"
  by (cases "sv_event_stamp sv (ns_world s)")
    (auto simp: audit_account_used_def account_event_def audit_append_plain
      ADMIN_CHANGE_EVENT_TYPES_def split: option.split)

lemma attempt_call_Inl: "attempt_call ad q w = (w', Inl crash) \<Longrightarrow> crash = Cancellation"
  by (auto simp: attempt_call_def split: prod.splits adapter_reply.splits)

lemma attempt_call_Inr:
  "attempt_call ad q w = (w', Inr (p, e)) \<Longrightarrow>
    (case p of None \<Rightarrow> False | Some x \<Rightarrow> gs_succeeded x) \<longleftrightarrow> e = None"
  by (auto simp: attempt_call_def split: prod.splits adapter_reply.splits option.splits if_splits)

lemma make_attempt_sel [simp]:
  "at_candidate (make_attempt n c i p e) = c" "at_attempt (make_attempt n c i p e) = i"
  "at_error (make_attempt n c i p e) = e" "at_node_key (make_attempt n c i p e) = st_node_key (nc_stage n)"
  "at_succeeded (make_attempt n c i p e) = (case p of None \<Rightarrow> False | Some x \<Rightarrow> gs_succeeded x)"
  by (simp_all add: make_attempt_def)

lemma audit_account_used_Inr: "audit_account_used sv n c r s \<noteq> (s', Inl crash)"
  using audit_account_used_ok [of sv n c r s] by auto

lemma perform_attempt_Inl:
  "perform_attempt sv n c k i s = (s', Inl crash) \<Longrightarrow> runtime_crash crash"
  by (auto simp: perform_attempt_def Let_def audit_account_used_Inr dest!: attempt_call_Inl
      split: prod.splits if_splits sum.splits)

lemma perform_attempt_Inr:
  "perform_attempt sv n c k i s = (s', Inr (r, p)) \<Longrightarrow>
    at_candidate r = c \<and> at_attempt r = i \<and> (at_succeeded r \<longleftrightarrow> at_error r = None)
    \<and> at_succeeded r = (case p of None \<Rightarrow> False | Some x \<Rightarrow> gs_succeeded x)"
  by (auto simp: perform_attempt_def Let_def dest!: attempt_call_Inr
      split: prod.splits if_splits sum.splits)

section \<open>The attempt trail of a node\<close>

definition attempt_key :: "attempt_record \<Rightarrow> candidate_score \<times> nat" where
  "attempt_key r = (at_candidate r, at_attempt r)"

text \<open>A failed attempt after which the service may go on.\<close>

definition soft_failure :: "attempt_record \<Rightarrow> bool" where
  "soft_failure r \<longleftrightarrow> \<not> at_succeeded r
     \<and> (case at_error r of None \<Rightarrow> False | Some e \<Rightarrow> pe_category e \<notin> REQUEST_INDICTING)"

text \<open>A failed attempt after which it must stop.\<close>

definition indicts_request :: "attempt_record \<Rightarrow> bool" where
  "indicts_request r \<longleftrightarrow>
     (case at_error r of None \<Rightarrow> False | Some e \<Rightarrow> pe_category e \<in> REQUEST_INDICTING)"

lemma attempt_loop_round:
  assumes run: "attempt_loop sv n c k i as e s = (s', out)" and i: "i \<le> sv_max_retries sv"
  obtains (crash) x where "out = Crashed x" and "runtime_crash x"
  | (finish) r p err where "out = Finished \<lparr>nr_attempts = as @ [r], nr_response = p, nr_error = err\<rparr>"
      and "attempt_key r = (c, Suc i)" and "at_error r = err"
      and "at_succeeded r = (case p of None \<Rightarrow> False | Some x \<Rightarrow> gs_succeeded x)"
      and "at_succeeded r \<and> err = None \<or> \<not> at_succeeded r \<and> indicts_request r"
  | (stop) r where "out = NextCandidate (as @ [r]) (at_error r)"
      and "attempt_key r = (c, Suc i)" and "soft_failure r"
  | (again) r s2 where "attempt_loop sv n c k (Suc i) (as @ [r]) (at_error r) s2 = (s', out)"
      and "attempt_key r = (c, Suc i)" and "soft_failure r" and "Suc i \<le> sv_max_retries sv"
proof (cases "perform_attempt sv n c k (Suc i) s")
  case (Pair s1 res)
  show thesis
  proof (cases res)
    case (Inl x)
    with run i Pair have "out = Crashed x"
      by (subst (asm) attempt_loop.simps) simp
    with crash perform_attempt_Inl Pair Inl show thesis by blast
  next
    case (Inr rp)
    then obtain r p where rp: "res = Inr (r, p)" by (cases rp) auto
    note r = perform_attempt_Inr [OF Pair [unfolded rp]]
    have key: "attempt_key r = (c, Suc i)" using r by (simp add: attempt_key_def)
    show thesis
    proof (cases "at_error r")
      case None
      with run i Pair rp r show thesis
        by (subst (asm) attempt_loop.simps, intro finish [OF _ key]) auto
    next
      case (Some err)
      then have not: "\<not> at_succeeded r" using r by simp
      show thesis
      proof (cases "pe_category err \<in> REQUEST_INDICTING")
        case True
        with run i Pair rp r Some not show thesis
          by (subst (asm) attempt_loop.simps, intro finish [OF _ key])
            (auto simp: indicts_request_def)
      next
        case False
        then have soft: "soft_failure r" using not Some by (simp add: soft_failure_def)
        consider "out = NextCandidate (as @ [r]) (Some err)" | "out = Crashed Cancellation"
          | s2 where "attempt_loop sv n c k (Suc i) (as @ [r]) (Some err) s2 = (s', out)"
            and "Suc i \<le> sv_max_retries sv"
          using run i Pair rp Some not False
          by (subst (asm) attempt_loop.simps)
            (auto split: if_splits option.splits prod.splits)
        then show thesis
          using crash stop [OF _ key soft] again [OF _ key soft] Some by cases auto
      qed
    qed
  qed
qed

text \<open>The attempts one candidate gets after \<open>i\<close> earlier ones: consecutive and bounded.\<close>

definition tries :: "'w service \<Rightarrow> candidate_score \<Rightarrow> nat \<Rightarrow> attempt_record list \<Rightarrow> bool" where
  "tries sv c i new \<longleftrightarrow> new \<noteq> [] \<and> i + length new \<le> Suc (sv_max_retries sv)
     \<and> map attempt_key new = map (Pair c) [Suc i..<Suc (i + length new)]"

lemma tries_single: "attempt_key r = (c, Suc i) \<Longrightarrow> i \<le> sv_max_retries sv \<Longrightarrow> tries sv c i [r]"
  by (simp add: tries_def)

lemma tries_Cons:
  assumes "tries sv c (Suc i) new" and "attempt_key r = (c, Suc i)"
  shows "tries sv c i (r # new)"
proof -
  have "[Suc i..<Suc (i + length (r # new))] = Suc i # [Suc (Suc i)..<Suc (Suc i + length new)]"
    by (simp only: list.size add_Suc_right add_Suc One_nat_def add_0_right) (simp add: upt_rec)
  with assms show ?thesis by (simp add: tries_def del: upt_Suc)
qed

lemma tries_ne: "tries sv c i new \<Longrightarrow> new \<noteq> []"
  by (simp add: tries_def)

lemma tries_candidates:
  assumes "tries sv c i new"
  shows "at_candidate ` set new = {c}"
proof -
  have "at_candidate a = c" if "a \<in> set new" for a
  proof -
    have "attempt_key a \<in> set (map (Pair c) [Suc i..<Suc (i + length new)])"
      using that assms unfolding tries_def by (metis image_eqI list.set_map)
    then show ?thesis by (auto simp: attempt_key_def simp del: upt_Suc)
  qed
  with tries_ne [OF assms] show ?thesis by (cases new) force+
qed

text \<open>How a run ends after its last attempts: with a success or a request fault.\<close>

definition ends_run :: "attempt_record list \<Rightarrow> node_run \<Rightarrow> bool" where
  "ends_run new r \<longleftrightarrow> new \<noteq> [] \<and> list_all soft_failure (butlast new)
     \<and> nr_error r = at_error (last new) \<and> run_succeeded r = at_succeeded (last new)
     \<and> (run_succeeded r \<and> nr_error r = None \<or> \<not> run_succeeded r \<and> indicts_request (last new))"

lemma attempt_loop_trail:
  assumes "attempt_loop sv n c k i as e s = (s', out)" and "i \<le> sv_max_retries sv"
  shows "(\<exists>x. out = Crashed x \<and> runtime_crash x)
    \<or> (\<exists>r new. out = Finished r \<and> nr_attempts r = as @ new \<and> tries sv c i new \<and> ends_run new r)
    \<or> (\<exists>new. out = NextCandidate (as @ new) (at_error (last new)) \<and> tries sv c i new
         \<and> list_all soft_failure new)"
  using assms
proof (induction "Suc (sv_max_retries sv) - i" arbitrary: i as e s)
  case 0
  then show ?case by simp
next
  case (Suc m)
  from Suc.prems show ?case
  proof (cases rule: attempt_loop_round)
    case (finish r p err)
    then show ?thesis
      using tries_single [OF finish(2) Suc.prems(2)]
      by (intro disjI2 disjI1 exI [of _ "\<lparr>nr_attempts = as @ [r], nr_response = p, nr_error = err\<rparr>"]
          exI [of _ "[r]"]) (auto simp: ends_run_def run_succeeded_def)
  next
    case (stop r)
    then show ?thesis using tries_single [OF stop(2) Suc.prems(2)] by force
  next
    case (again r s2)
    have m: "m = Suc (sv_max_retries sv) - Suc i" using Suc.hyps(2) by simp
    note ih = Suc.hyps(1) [OF m again(1,4)]
    consider x where "out = Crashed x" "runtime_crash x"
      | r' new where "out = Finished r'" "nr_attempts r' = (as @ [r]) @ new"
          "tries sv c (Suc i) new" "ends_run new r'"
      | new where "out = NextCandidate ((as @ [r]) @ new) (at_error (last new))"
          "tries sv c (Suc i) new" "list_all soft_failure new"
      using ih by blast
    then show ?thesis
    proof cases
      case (2 r' new)
      then have "tries sv c i (r # new)" "ends_run (r # new) r'"
        using again by (auto simp: tries_Cons ends_run_def)
      with 2 show ?thesis by (intro disjI2 disjI1 exI [of _ r'] exI [of _ "r # new"]) simp
    next
      case (3 new)
      then have "tries sv c i (r # new)" and "new \<noteq> []"
        using again tries_ne by (auto simp: tries_Cons)
      with 3 again show ?thesis by (intro disjI2 exI [of _ "r # new"]) simp
    qed simp
  qed simp
qed

text \<open>
  \<open>router_order M cs ks\<close>: the attempts \<open>ks\<close> visit an initial part of the route \<open>cs\<close> in
  order, each candidate with the numbers 1, 2, ... up to at most \<open>M + 1\<close>.
\<close>

inductive router_order :: "nat \<Rightarrow> candidate_score list \<Rightarrow> (candidate_score \<times> nat) list \<Rightarrow> bool"
  for M where
  router_order_stop: "router_order M cs []"
| router_order_next: "1 \<le> m \<Longrightarrow> m \<le> Suc M \<Longrightarrow> router_order M cs ks
    \<Longrightarrow> router_order M (c # cs) (map (Pair c) [1..<Suc m] @ ks)"

lemma router_order_length: "router_order M cs ks \<Longrightarrow> length ks \<le> Suc M * length cs"
  by (induction rule: router_order.induct) (auto simp: algebra_simps)

lemma router_order_candidates: "router_order M cs ks \<Longrightarrow> fst ` set ks \<subseteq> set cs"
  by (induction rule: router_order.induct) auto

lemma tries_router_order:
  assumes "tries sv c 0 new" and "router_order (sv_max_retries sv) cs (map attempt_key rest)"
  shows "router_order (sv_max_retries sv) (c # cs) (map attempt_key (new @ rest))"
proof -
  have "map attempt_key new = map (Pair c) [1..<Suc (length new)]"
    and "1 \<le> length new" and "length new \<le> Suc (sv_max_retries sv)"
    using assms(1) by (auto simp: tries_def Suc_le_eq simp del: upt_Suc)
  then show ?thesis using router_order_next [OF _ _ assms(2), of "length new" c] by simp
qed

text \<open>How a whole traversal ends: as above, or after every candidate failed softly.\<close>

definition exhausted :: "candidate_score list \<Rightarrow> attempt_record list \<Rightarrow> bool" where
  "exhausted cs new \<longleftrightarrow> list_all soft_failure new \<and> set cs = at_candidate ` set new"

lemma route_loop_trail:
  assumes "route_loop sv n cs as e s = (s', out)" and "\<forall>c\<in>set cs. wired_ok sv c"
  shows "(\<exists>x. out = Inl x \<and> runtime_crash x)
    \<or> (\<exists>r new. out = Inr r \<and> nr_attempts r = as @ new
        \<and> router_order (sv_max_retries sv) cs (map attempt_key new)
        \<and> (ends_run new r
           \<or> exhausted cs new \<and> nr_response r = None
             \<and> nr_error r = (if new = [] then e else at_error (last new))))"
  using assms
proof (induction cs arbitrary: as e s)
  case Nil
  then show ?case by (auto simp: exhausted_def intro: router_order_stop)
next
  case (Cons c cs)
  obtain k where k: "wire_candidate sv c = Inr k"
    using Cons.prems(2) by (auto simp: wired_ok_def)
  obtain s1 o1 where loop: "attempt_loop sv n c k 0 as e s = (s1, o1)" by fastforce
  consider x where "o1 = Crashed x" "runtime_crash x"
    | r new where "o1 = Finished r" "nr_attempts r = as @ new" "tries sv c 0 new" "ends_run new r"
    | new where "o1 = NextCandidate (as @ new) (at_error (last new))" "tries sv c 0 new"
        "list_all soft_failure new"
    using attempt_loop_trail [OF loop] by blast
  then show ?case
  proof cases
    case (1 x)
    with Cons.prems(1) k loop show ?thesis by auto
  next
    case (2 r new)
    with Cons.prems(1) k loop have "out = Inr r" by simp
    with 2 tries_router_order [OF 2(3), of cs "[]"] show ?thesis
      by (auto intro: router_order_stop)
  next
    case (3 new)
    with Cons.prems(1) k loop
    have run: "route_loop sv n cs (as @ new) (at_error (last new)) s1 = (s', out)" by simp
    note c = tries_candidates [OF 3(2)]
    have "\<forall>c\<in>set cs. wired_ok sv c" using Cons.prems(2) by simp
    from Cons.IH [OF run this] consider x where "out = Inl x" "runtime_crash x"
      | r rest where "out = Inr r" "nr_attempts r = (as @ new) @ rest"
        "router_order (sv_max_retries sv) cs (map attempt_key rest)"
        "ends_run rest r \<or> exhausted cs rest \<and> nr_response r = None
           \<and> nr_error r = (if rest = [] then at_error (last new) else at_error (last rest))"
      by blast
    then show ?thesis
    proof cases
      case r: (2 r rest)
      have "ends_run (new @ rest) r" if "ends_run rest r"
        using that 3(3) by (auto simp: ends_run_def butlast_append)
      moreover have "exhausted (c # cs) (new @ rest)" if "exhausted cs rest"
        using that 3(3) c by (auto simp: exhausted_def)
      moreover have "router_order (sv_max_retries sv) (c # cs) (map attempt_key (new @ rest))"
        by (rule tries_router_order [OF 3(2) r(3)])
      moreover have "(if rest = [] then at_error (last new) else at_error (last rest))
          = (if new @ rest = [] then e else at_error (last (new @ rest)))"
        using tries_ne [OF 3(2)] by simp
      moreover have "nr_attempts r = as @ (new @ rest)" using r(2) by simp
      ultimately show ?thesis using r(1,4) by metis
    qed simp
  qed
qed

lemma indicts_not_soft: "indicts_request r \<Longrightarrow> \<not> soft_failure r"
  by (auto simp: indicts_request_def soft_failure_def split: option.splits)

text \<open>
  C19. A node walks the route the router decided and nothing else: with every candidate
  wired, its attempts visit the selected candidate and then the fallbacks in order, each at
  most \<open>max_retries + 1\<close> times in a row, so there are at most that many per candidate; every
  attempt but the last is a failure the service may act on; the run succeeds exactly when
  the last attempt does; and a rejected request or refused content ends the run at once,
  while any other failed run has tried every candidate.
\<close>

theorem node_follows_the_route:
  assumes "\<forall>c\<in>set (decision_route (st_decision (nc_stage n))). wired_ok sv c"
    and "run_node sv n s = (s', Inr r)"
  shows "router_order (sv_max_retries sv) (decision_route (st_decision (nc_stage n)))
           (map attempt_key (nr_attempts r))
    \<and> length (nr_attempts r)
        \<le> Suc (sv_max_retries sv) * length (decision_route (st_decision (nc_stage n)))
    \<and> nr_attempts r \<noteq> [] \<and> list_all soft_failure (butlast (nr_attempts r))
    \<and> run_succeeded r = at_succeeded (last (nr_attempts r))
    \<and> nr_error r = at_error (last (nr_attempts r))
    \<and> (\<forall>a\<in>set (nr_attempts r). indicts_request a \<longrightarrow> a = last (nr_attempts r) \<and> \<not> run_succeeded r)
    \<and> (run_succeeded r \<or> indicts_request (last (nr_attempts r))
       \<or> at_candidate ` set (nr_attempts r) = set (decision_route (st_decision (nc_stage n))))"
proof -
  let ?cs = "decision_route (st_decision (nc_stage n))"
  have order: "router_order (sv_max_retries sv) ?cs (map attempt_key (nr_attempts r))"
    and ends: "ends_run (nr_attempts r) r
      \<or> exhausted ?cs (nr_attempts r) \<and> nr_response r = None
        \<and> nr_error r = (if nr_attempts r = [] then None else at_error (last (nr_attempts r)))"
    using route_loop_trail [OF assms(2) [unfolded run_node_def] assms(1)] by auto
  have ne: "nr_attempts r \<noteq> []"
    using ends by (auto simp: ends_run_def exhausted_def decision_route_def)
  then have split: "butlast (nr_attempts r) @ [last (nr_attempts r)] = nr_attempts r" by simp
  have soft: "list_all soft_failure (butlast (nr_attempts r))"
    using ends by (auto simp: ends_run_def exhausted_def list_all_iff dest: in_set_butlastD)
  have last: "run_succeeded r = at_succeeded (last (nr_attempts r))
      \<and> nr_error r = at_error (last (nr_attempts r))"
    using ends ne
    by (auto simp: ends_run_def exhausted_def list_all_iff run_succeeded_def soft_failure_def)
  have indict: "a = last (nr_attempts r) \<and> \<not> run_succeeded r"
    if "a \<in> set (nr_attempts r)" "indicts_request a" for a
  proof -
    have a: "a = last (nr_attempts r)"
      using that(1) soft indicts_not_soft [OF that(2)]
      by (subst (asm) split [symmetric]) (auto simp: list_all_iff)
    then show ?thesis
      using ends that indicts_not_soft [OF that(2)] ne
      by (auto simp: ends_run_def exhausted_def list_all_iff indicts_request_def)
  qed
  show ?thesis
    using order router_order_length [OF order] ne soft last indict ends
    by (auto simp: ends_run_def exhausted_def)
qed

section \<open>Stages\<close>

lemma run_stage_crash:
  assumes "run_stage sv q xid t pg s = (s', Inl crash)"
    and "\<forall>c\<in>set (decision_route (st_decision t)). wired_ok sv c"
  shows "runtime_crash crash"
proof (cases "pg_failed pg")
  case True
  with assms(1) show ?thesis by (auto simp: run_stage_def Let_def split: prod.splits if_splits)
next
  case False
  let ?n = "\<lparr>nc_stage = t, nc_tenant_id = xq_tenant_id q,
    nc_payload = stage_payload t (pg_previous_output pg), nc_timeout_ms = xq_timeout_ms q\<rparr>"
  have "runtime_crash x" if "run_node sv ?n s = (s1, Inl x)" for s1 x
  proof -
    have "route_loop sv ?n (decision_route (st_decision t)) [] None s = (s1, Inl x)"
      using that by (simp add: run_node_def)
    from route_loop_trail [OF this assms(2)] show ?thesis by blast
  qed
  with assms(1) False show ?thesis
    by (auto simp: run_stage_def Let_def split: prod.splits if_splits sum.splits)
qed

lemma stage_loop_crash:
  "stage_loop sv q xid ts pg s = (s', Inl crash) \<Longrightarrow>
    \<forall>t\<in>set ts. \<forall>c\<in>set (decision_route (st_decision t)). wired_ok sv c \<Longrightarrow> runtime_crash crash"
proof (induction ts arbitrary: pg s)
  case (Cons t ts)
  then show ?case
    by (cases "run_stage sv q xid t pg s") (auto split: sum.splits dest: run_stage_crash)
qed simp

text \<open>The reports of a pipeline from a stage on, given the output handed to that stage.\<close>

definition skipped_report :: "pipeline_stage \<Rightarrow> node_report \<Rightarrow> bool" where
  "skipped_report t p \<longleftrightarrow> xn_node_key (np_node p) = st_node_key t
     \<and> xn_status (np_node p) = NODE_SKIPPED \<and> xn_input_ref (np_node p) = st_payload t
     \<and> xn_output_ref (np_node p) = None \<and> np_attempts p = [] \<and> np_response p = None"

fun pipeline_shape :: "pipeline_stage list \<Rightarrow> json_object option \<Rightarrow> node_report list \<Rightarrow> bool" where
  "pipeline_shape [] previous ps = (ps = [])"
| "pipeline_shape (t # ts) previous [] = False"
| "pipeline_shape (t # ts) previous (p # ps) =
     (xn_node_key (np_node p) = st_node_key t
      \<and> xn_input_ref (np_node p) = stage_payload t previous
      \<and> (if xn_status (np_node p) = NODE_SUCCEEDED
         then (case np_response p of
                 None \<Rightarrow> False
               | Some r \<Rightarrow> gs_succeeded r \<and> xn_output_ref (np_node p) = Some (gs_output r)
                          \<and> pipeline_shape ts (Some (gs_output r)) ps)
         else xn_status (np_node p) = NODE_FAILED \<and> xn_output_ref (np_node p) = None
              \<and> list_all2 skipped_report ts ps))"

lemma run_stage_failed:
  "pg_failed pg \<Longrightarrow> run_stage sv q xid t pg s = (s', Inr pg') \<Longrightarrow>
    \<exists>p. pg' = pg\<lparr>pg_reports := pg_reports pg @ [p]\<rparr> \<and> skipped_report t p"
  by (auto simp: run_stage_def Let_def skipped_report_def skipped_node_def
      split: prod.splits if_splits)

lemma stage_loop_failed:
  "pg_failed pg \<Longrightarrow> stage_loop sv q xid ts pg s = (s', Inr pg') \<Longrightarrow>
    pg_failed pg' \<and> (\<exists>ps. pg_reports pg' = pg_reports pg @ ps \<and> list_all2 skipped_report ts ps)"
proof (induction ts arbitrary: pg s)
  case (Cons t ts)
  obtain s1 pg1 where st: "run_stage sv q xid t pg s = (s1, Inr pg1)"
    and rest: "stage_loop sv q xid ts pg1 s1 = (s', Inr pg')"
    using Cons.prems(2) by (auto split: prod.splits sum.splits)
  obtain p where p: "pg1 = pg\<lparr>pg_reports := pg_reports pg @ [p]\<rparr>" "skipped_report t p"
    using run_stage_failed [OF Cons.prems(1) st] by blast
  with Cons.prems(1) Cons.IH [OF _ rest] show ?case by auto
qed simp

lemma run_stage_ran:
  assumes "\<not> pg_failed pg" and "run_stage sv q xid t pg s = (s', Inr pg')"
  obtains p r where "pg_reports pg' = pg_reports pg @ [p]"
    and "xn_node_key (np_node p) = st_node_key t"
    and "xn_input_ref (np_node p) = stage_payload t (pg_previous_output pg)"
    and "np_response p = Some r" and "gs_succeeded r"
    and "xn_output_ref (np_node p) = Some (gs_output r)"
    and "xn_status (np_node p) = NODE_SUCCEEDED" and "\<not> pg_failed pg'"
    and "pg_previous_output pg' = Some (gs_output r)"
  | p where "pg_reports pg' = pg_reports pg @ [p]"
    and "xn_node_key (np_node p) = st_node_key t"
    and "xn_input_ref (np_node p) = stage_payload t (pg_previous_output pg)"
    and "xn_status (np_node p) = NODE_FAILED" and "xn_output_ref (np_node p) = None"
    and "pg_failed pg'"
proof -
  let ?payload = "stage_payload t (pg_previous_output pg)"
  obtain node_id r where pg': "pg' = note_run t (completed_node node_id xid t ?payload r) r pg"
    using assms by (auto simp: run_stage_def Let_def split: prod.splits if_splits sum.splits)
  show thesis
  proof (cases "run_succeeded r")
    case True
    then obtain p where "nr_response r = Some p" "gs_succeeded p"
      by (auto simp: run_succeeded_def split: option.splits)
    with True pg' assms(1) show thesis
      by (intro that(1) [of "completed_node node_id xid t ?payload r" p])
        (auto simp: note_run_def completed_node_def)
  next
    case False
    with pg' show thesis
      by (intro that(2) [of "completed_node node_id xid t ?payload r"])
        (auto simp: note_run_def completed_node_def)
  qed
qed

lemma stage_loop_shape:
  "\<not> pg_failed pg \<Longrightarrow> stage_loop sv q xid ts pg s = (s', Inr pg') \<Longrightarrow>
    \<exists>ps. pg_reports pg' = pg_reports pg @ ps \<and> pipeline_shape ts (pg_previous_output pg) ps
      \<and> (pg_failed pg' \<longleftrightarrow> (\<exists>p\<in>set ps. xn_status (np_node p) \<noteq> NODE_SUCCEEDED))"
proof (induction ts arbitrary: pg s)
  case (Cons t ts)
  obtain s1 pg1 where st: "run_stage sv q xid t pg s = (s1, Inr pg1)"
    and rest: "stage_loop sv q xid ts pg1 s1 = (s', Inr pg')"
    using Cons.prems(2) by (auto split: prod.splits sum.splits)
  from Cons.prems(1) st show ?case
  proof (cases rule: run_stage_ran)
    case (1 p r)
    obtain ps where ps: "pg_reports pg' = pg_reports pg1 @ ps"
      "pipeline_shape ts (pg_previous_output pg1) ps"
      "pg_failed pg' \<longleftrightarrow> (\<exists>p\<in>set ps. xn_status (np_node p) \<noteq> NODE_SUCCEEDED)"
      using Cons.IH [OF 1(8) rest] by blast
    show ?thesis by (rule exI [of _ "p # ps"]) (use 1 ps in simp)
  next
    case (2 p)
    obtain ps where ps: "pg_failed pg'" "pg_reports pg' = pg_reports pg1 @ ps"
      "list_all2 skipped_report ts ps"
      using stage_loop_failed [OF 2(6) rest] by blast
    show ?thesis by (rule exI [of _ "p # ps"]) (use 2 ps in simp)
  qed
qed simp

section \<open>Whole executions\<close>

text \<open>The faults of composition.\<close>

fun wiring_fault :: "crash \<Rightarrow> bool" where
  "wiring_fault (AdapterNotBound i) = True"
| "wiring_fault (CredentialNotConfigured i) = True"
| "wiring_fault (ExecutionBoundary e) = True"
| "wiring_fault (WiringKeyError i) = True"
| "wiring_fault _ = False"

lemma validate_candidates_fault:
  "validate_candidates sv cs = Inl crash \<Longrightarrow> wiring_fault crash"
  by (induction cs) (auto split: if_splits sum.splits)

lemma validate_stages_fault: "validate_stages sv ts = Inl crash \<Longrightarrow> wiring_fault crash"
  by (induction ts) (auto simp: result_bind_def validate_route_def
      dest: validate_candidates_fault split: sum.splits)

lemma finish_execution_fault:
  "finish_execution settle fail sv st q xid created est pg s = (s', Inl crash) \<Longrightarrow> \<not> wiring_fault crash"
  by (auto simp: finish_execution_def Let_def make_report_def split: prod.splits if_splits sum.splits)

text \<open>
  Misconfiguration never starts an execution and never interrupts one: a route with a
  candidate that has no adapter, no credential or no binding is refused with a wiring fault
  before an id is drawn, a unit is held, or an adapter is called - the state is unchanged -
  and an execution whose routes are wired never ends in such a fault.
\<close>

theorem execution_fails_fast:
  "((\<exists>t\<in>set stages. \<exists>c\<in>set (decision_route (st_decision t)). \<not> wired_ok sv c)
      \<longleftrightarrow> (\<exists>crash. wiring_fault crash
            \<and> snd (run_execution reserve settle fail sv strategy stages q s) = Inl crash))
    \<and> ((\<exists>t\<in>set stages. \<exists>c\<in>set (decision_route (st_decision t)). \<not> wired_ok sv c)
      \<longrightarrow> fst (run_execution reserve settle fail sv strategy stages q s) = s)"
proof (cases "validate_stages sv stages")
  case (Inl crash)
  then have "\<not> (\<forall>t\<in>set stages. \<forall>c\<in>set (decision_route (st_decision t)). wired_ok sv c)"
    using validate_stages_wired [of sv stages] by auto
  with Inl validate_stages_fault [OF Inl] show ?thesis by (simp add: run_execution_def)
next
  case (Inr x)
  then have wired: "\<forall>t\<in>set stages. \<forall>c\<in>set (decision_route (st_decision t)). wired_ok sv c"
    using validate_stages_wired [of sv stages] by simp
  have runtime: "\<not> wiring_fault crash"
    if "stage_loop sv q xid stages no_progress nd = (nd', Inl crash)" for xid nd nd' crash
    using stage_loop_crash [OF that wired] by (cases crash) auto
  have "\<not> wiring_fault crash"
    if "run_execution reserve settle fail sv strategy stages q s = (s', Inl crash)" for s' crash
    using that Inr
    by (auto simp: run_execution_def run_held_def fail_execution_def Let_def
        dest: runtime finish_execution_fault split: prod.splits if_splits sum.splits)
  with wired show ?thesis by (metis prod.collapse)
qed

text \<open>How an execution can come to an end.\<close>

lemma run_execution_cases:
  assumes "run_execution reserve settle fail sv strategy stages q s = (s', out)"
  obtains (refused) crash where "out = Inl crash" and "ss_usage s' = ss_usage s"
  | (crashed) xid u crash s2 where
      "hold_units reserve sv q xid (execution_estimate sv stages q) (ss_usage s) = Inr u"
      and "ss_usage s2 = u" and "fail_execution fail sv xid crash s2 = (s', out)"
  | (finished) xid u created nd nd' pg s2 where
      "hold_units reserve sv q xid (execution_estimate sv stages q) (ss_usage s) = Inr u"
      and "stage_loop sv q xid stages no_progress nd = (nd', Inr pg)"
      and "ss_usage s2 = u"
      and "finish_execution settle fail sv strategy q xid created
             (execution_estimate sv stages q) pg s2 = (s', out)"
proof -
  obtain w1 xid where w1: "sv_new_id sv (ns_world (ss_node s)) = (w1, xid)" by fastforce
  obtain w2 created where w2: "sv_clock sv w1 = (w2, created)" by fastforce
  let ?est = "execution_estimate sv stages q"
  have same: "ss_usage (set_world w2 s) = ss_usage s" by (simp add: set_world_def)
  show thesis
  proof (cases "validate_stages sv stages")
    case (Inl crash)
    with assms show thesis by (intro refused) (auto simp: run_execution_def)
  next
    case (Inr x)
    show thesis
    proof (cases "hold_units reserve sv q xid ?est (ss_usage s)")
      case (Inl e)
      with assms Inr same show thesis
        by (auto simp: run_execution_def w1 w2 Let_def split: if_splits intro: refused)
    next
      case held: (Inr u)
      let ?s2 = "(set_world w2 s)\<lparr>ss_usage := u\<rparr>"
      consider "ss_usage s' = ss_usage s" "out = Inl NegativeEstimate"
        | "run_held settle fail sv strategy stages q xid created ?est ?s2 = (s', out)"
        using assms Inr held same by (auto simp: run_execution_def w1 w2 Let_def split: if_splits)
      then show thesis
      proof cases
        case 2
        obtain nd res where loop: "stage_loop sv q xid stages no_progress (ss_node ?s2) = (nd, res)"
          by fastforce
        show thesis
        proof (cases res)
          case (Inl crash)
          with 2 loop show thesis
            by (intro crashed [OF held, of "?s2\<lparr>ss_node := nd\<rparr>" crash]) (simp_all add: run_held_def)
        next
          case (Inr pg)
          with 2 loop show thesis
            by (intro finished [OF held, of "ss_node ?s2" nd pg "?s2\<lparr>ss_node := nd\<rparr>" created])
              (simp_all add: run_held_def)
        qed
      qed (rule refused)
    qed
  qed
qed

lemma pipeline_shape_last:
  "pipeline_shape ts previous ps \<Longrightarrow> ts \<noteq> [] \<Longrightarrow>
    \<forall>p\<in>set ps. xn_status (np_node p) = NODE_SUCCEEDED \<Longrightarrow>
    ps \<noteq> [] \<and> (\<exists>r. np_response (last ps) = Some r
      \<and> xn_output_ref (np_node (last ps)) = Some (gs_output r))"
proof (induction ts previous ps rule: pipeline_shape.induct)
  case (3 t ts previous p ps)
  then obtain r where r: "np_response p = Some r" "xn_output_ref (np_node p) = Some (gs_output r)"
    "pipeline_shape ts (Some (gs_output r)) ps"
    by (auto split: option.splits)
  show ?case
  proof (cases "ts = []")
    case True
    with r show ?thesis by simp
  next
    case False
    with 3 r show ?thesis by auto
  qed
qed simp_all

text \<open>
  C20. A pipeline unfolds in order: with an answer there is one report per stage, in stage
  order; each stage runs on its own payload extended with the previous stage's output; the
  first stage that fails ends the run as failed and every later one is reported skipped,
  with no attempt; the execution succeeds exactly when every node did, and its final output is
  then the last node's output, and otherwise there is none.
\<close>

theorem pipeline_unfolds_in_order:
  assumes "execute_pipeline reserve settle fail sv stages q s = (s', Inr rep)"
  shows "pipeline_shape stages None (xr_nodes rep) \<and> distinct (map st_node_key stages)
    \<and> stages \<noteq> []
    \<and> xc_status (xr_execution rep) =
        (if \<forall>p\<in>set (xr_nodes rep). xn_status (np_node p) = NODE_SUCCEEDED
         then EXECUTION_SUCCEEDED else EXECUTION_FAILED_STATUS)
    \<and> xr_status_history rep
        = [EXECUTION_QUEUED, EXECUTION_RUNNING, xc_status (xr_execution rep)]
    \<and> xc_strategy (xr_execution rep) = STRATEGY_PIPELINE
    \<and> final_output rep =
        (if xc_status (xr_execution rep) = EXECUTION_SUCCEEDED
         then xn_output_ref (np_node (last (xr_nodes rep))) else None)
    \<and> (final_output rep \<noteq> None \<longleftrightarrow> xc_status (xr_execution rep) = EXECUTION_SUCCEEDED)"
proof -
  have keys: "stages \<noteq> []" "distinct (map st_node_key stages)"
    using assms card_distinct [of "map st_node_key stages"]
    by (simp_all add: execute_pipeline_def Let_def length_remdups_card_conv split: if_splits)
  have "run_execution reserve settle fail sv STRATEGY_PIPELINE stages q s = (s', Inr rep)"
    using assms by (auto simp: execute_pipeline_def Let_def split: if_splits)
  then show ?thesis
  proof (cases rule: run_execution_cases)
    case (crashed xid u crash s2)
    then show ?thesis by (auto simp: fail_execution_def split: if_splits sum.splits)
  next
    case (finished xid u created nd nd' pg s2)
    obtain ps where ps: "pg_reports pg = ps" "pipeline_shape stages None ps"
      "pg_failed pg \<longleftrightarrow> (\<exists>p\<in>set ps. xn_status (np_node p) \<noteq> NODE_SUCCEEDED)"
      using stage_loop_shape [OF _ finished(2)] by (auto simp: no_progress_def)
    obtain completed ledger where "make_report q STRATEGY_PIPELINE xid created completed
        (execution_estimate sv stages q) pg ledger = Inr rep"
      using finished(4) by (auto simp: finish_execution_def Let_def split: prod.splits if_splits sum.splits)
    then have out: "xr_nodes rep = ps" "xc_status (xr_execution rep) = final_status pg"
        "xr_status_history rep = [EXECUTION_QUEUED, EXECUTION_RUNNING, final_status pg]"
        "xc_strategy (xr_execution rep) = STRATEGY_PIPELINE"
      using ps(1) by (auto simp: make_report_def split: if_splits)
    have status: "final_status pg =
        (if \<forall>p\<in>set ps. xn_status (np_node p) = NODE_SUCCEEDED
         then EXECUTION_SUCCEEDED else EXECUTION_FAILED_STATUS)"
      using ps(3) by (auto simp: final_status_def)
    have "final_output rep = (if final_status pg = EXECUTION_SUCCEEDED
         then xn_output_ref (np_node (last ps)) else None)
       \<and> (final_output rep \<noteq> None \<longleftrightarrow> final_status pg = EXECUTION_SUCCEEDED)"
      using pipeline_shape_last [OF ps(2) keys(1)] status out(1,2)
      by (auto simp: final_output_def split: if_splits)
    with ps(2) keys status show ?thesis unfolding out by blast
  qed simp
qed

section \<open>Units held and charged\<close>

lemma hold_units_Inr:
  "hold_units reserve sv q xid est u = Inr u' \<longleftrightarrow>
    (if sv_usage_bound sv then \<exists>l. reserve u (xq_tenant_id q) xid est = Inr (u', l) else u' = u)"
  by (auto simp: hold_units_def result_bind_Inr_iff)

context usage_port begin

text \<open>What one metered execution does to the ledger, with an answer or with a crash.\<close>

lemma run_execution_accounts:
  assumes wf: "wf (ss_usage s)" and bound: "sv_usage_bound sv" and price: "0 \<le> sv_units_per_stage sv"
    and run: "run_execution reserve settle fail sv strategy stages q s = (s', out)"
  shows "wf (ss_usage s')
    \<and> (case out of
         Inl crash \<Rightarrow> ss_usage s' = ss_usage s
           \<or> (\<exists>xid l. entry (ss_usage s) xid = None
                \<and> entry (ss_usage s') = (entry (ss_usage s))(xid \<mapsto> l) \<and> ul_status l \<noteq> RESERVED
                \<and> (crash \<noteq> ContractViolation \<longrightarrow> ul_status l = FAILED \<and> ul_units_settled l = 0))
       | Inr rep \<Rightarrow> (\<exists>xid l. entry (ss_usage s) xid = None
                \<and> entry (ss_usage s') = (entry (ss_usage s))(xid \<mapsto> l)
                \<and> xr_usage rep = Some l \<and> xc_id (xr_execution rep) = xid
                \<and> ul_units_reserved l = execution_estimate sv stages q
                \<and> ul_status l = (if xc_status (xr_execution rep) = EXECUTION_SUCCEEDED
                                 then SETTLED else FAILED)
                \<and> ul_units_settled l = dbl (sv_units_per_stage sv
                    * of_nat (length (filter (\<lambda>p. xn_status (np_node p) = NODE_SUCCEEDED)
                                        (xr_nodes rep))))))"
  using run
proof (cases rule: run_execution_cases)
  case (refused crash)
  with wf show ?thesis by simp
next
  case (crashed xid u crash s2)
  obtain l where res: "reserve (ss_usage s) (xq_tenant_id q) xid
      (execution_estimate sv stages q) = Inr (u, l)"
    using crashed(1) bound by (auto simp: hold_units_Inr)
  obtain u2 where u2: "fail u xid 0 [] = Inr (u2, l\<lparr>ul_units_settled := 0, ul_status := FAILED,
        ul_modality_costs := []\<rparr>)" "wf u2"
      "entry u2 = (entry (ss_usage s))(xid \<mapsto> l\<lparr>ul_units_settled := 0, ul_status := FAILED,
        ul_modality_costs := []\<rparr>)"
    using reserve_then_fail [OF wf res, of 0 "[]"] by auto
  have "s' = s2\<lparr>ss_usage := u2\<rparr>" "out = Inl crash"
    using crashed(2,3) bound u2(1) by (simp_all add: fail_execution_def)
  with u2 reserve_ok [OF wf res] show ?thesis by auto
next
  case (finished xid u created nd nd' pg s2)
  obtain l where res: "reserve (ss_usage s) (xq_tenant_id q) xid
      (execution_estimate sv stages q) = Inr (u, l)"
    using finished(1) bound by (auto simp: hold_units_Inr)
  let ?actual = "dbl (sv_units_per_stage sv * of_nat (succeeded_stages pg))"
  let ?costs = "[(''provider_usage'', JList (pg_provider_usage pg))]"
  let ?l = "l\<lparr>ul_units_settled := ?actual,
      ul_status := (if pg_failed pg then FAILED else SETTLED), ul_modality_costs := ?costs\<rparr>"
  have "0 \<le> ?actual" using price by (intro dbl_nonneg) simp
  then obtain u2 where u2: "(if pg_failed pg then fail u xid ?actual ?costs
        else settle u xid ?actual ?costs) = Inr (u2, ?l)" "wf u2"
      "entry u2 = (entry (ss_usage s))(xid \<mapsto> ?l)"
    using reserve_then_fail [OF wf res, of ?actual ?costs]
      reserve_then_settle [OF wf res, of ?actual ?costs]
    by (cases "pg_failed pg") auto
  obtain w completed where "sv_clock sv (ns_world (ss_node s2)) = (w, completed)" by fastforce
  then have "s' = set_world w (s2\<lparr>ss_usage := u2\<rparr>)"
    and out: "out = make_report q strategy xid created completed
        (execution_estimate sv stages q) pg (Some ?l)"
    using finished(3,4) bound u2(1)
    by (auto simp: finish_execution_def Let_def split: if_splits)
  then have "ss_usage s' = u2" by (simp add: set_world_def)
  with u2(2,3) reserve_ok [OF wf res] out show ?thesis
    by (auto simp: make_report_def final_status_def succeeded_stages_def split: if_splits)
qed

end

text \<open>
  C21. A metered execution resolves what it holds, once: over the in-memory ledger, an
  execution that answers has created its own entry, held at the price fixed before any
  work, and resolved it as settled when it succeeded and as failed otherwise, charging
  exactly the stage price times the succeeded stages, rounded once as a float product, so retries
  and failovers cost nothing;
  one that crashes leaves the ledger as it was or its own entry resolved, with nothing
  charged unless only its final record was invalid; and the ledger's invariant (the budget
  equations, for amounts on one binary grid) still holds.
\<close>

theorem execution_resolves_its_hold:
  assumes "usage_inv (ss_usage s)" and "sv_usage_bound sv" and "0 \<le> sv_units_per_stage sv"
    and "run_execution (usage_reserve i) usage_settle usage_fail sv strategy stages q s = (s', out)"
  shows "usage_inv (ss_usage s')
    \<and> (case out of
         Inl crash \<Rightarrow> ss_usage s' = ss_usage s
           \<or> (\<exists>xid l. usage_entry (ss_usage s) xid = None
                \<and> usage_entry (ss_usage s') = (usage_entry (ss_usage s))(xid \<mapsto> l)
                \<and> ul_status l \<noteq> RESERVED
                \<and> (crash \<noteq> ContractViolation \<longrightarrow> ul_status l = FAILED \<and> ul_units_settled l = 0))
       | Inr rep \<Rightarrow> (\<exists>xid l. usage_entry (ss_usage s) xid = None
                \<and> usage_entry (ss_usage s') = (usage_entry (ss_usage s))(xid \<mapsto> l)
                \<and> xr_usage rep = Some l \<and> xc_id (xr_execution rep) = xid
                \<and> ul_units_reserved l = execution_estimate sv stages q
                \<and> ul_status l = (if xc_status (xr_execution rep) = EXECUTION_SUCCEEDED
                                 then SETTLED else FAILED)
                \<and> ul_units_settled l = dbl (sv_units_per_stage sv
                    * of_nat (length (filter (\<lambda>p. xn_status (np_node p) = NODE_SUCCEEDED)
                                        (xr_nodes rep))))))"
  by (rule mem_usage.run_execution_accounts [OF assms])

section \<open>Witnesses\<close>

text \<open>
  A world that counts adapter calls: the first one raises, the later ones answer, so a
  node succeeds at its second attempt.
\<close>

definition ex_failure :: provider_error where
  "ex_failure = \<lparr>pe_category = TIMEOUT, pe_retryable = True, pe_retry_after_ms = None,
     pe_provider_code = None, pe_safe_message = ''m''\<rparr>"

definition ex_answer :: generate_response where
  "ex_answer = \<lparr>gs_request_id = 0, gs_succeeded = True, gs_output = [(''text'', JStr ''hi'')],
     gs_usage = [], gs_error = None, gs_latency_ms = None\<rparr>"

definition ex_adapter :: "nat adapter" where
  "ex_adapter = \<lparr>ad_generate = (\<lambda>w q. (Suc w, if w = 0 then RaisedException ''T'' ''m''
       else Replied ex_answer)), ad_normalize_error = (\<lambda>_. ex_failure)\<rparr>"

definition ex_service :: "nat service" where
  "ex_service = \<lparr>sv_adapters = [7 \<mapsto> ex_adapter], sv_credential_refs = [7 \<mapsto> ''ref''],
     sv_account_credentials = Map.empty, sv_bindings = [((7, 9), ex_binding 7 9)],
     sv_max_retries = 1, sv_max_retry_wait_ms = 60000, sv_usage_bound = True,
     sv_units_per_stage = 1, sv_audit_bound = False, sv_signals = None,
     sv_sleep = (\<lambda>w ms. (w, False)), sv_new_id = (\<lambda>w. (w, w)), sv_clock = (\<lambda>w. (w, 0)),
     sv_event_stamp = (\<lambda>w. (w, w, 0)), sv_show_uuid = (\<lambda>i. ''u'')\<rparr>"

definition ex_candidate :: candidate_score where
  "ex_candidate = \<lparr>cs_model_id = 9, cs_provider_id = 7, cs_account_id = None, cs_score = 1,
     cs_reasons = [], cs_risks = []\<rparr>"

definition ex_stage :: pipeline_stage where
  "ex_stage = \<lparr>st_node_key = ''a'', st_decision =
       \<lparr>rd_selected = ex_candidate, rd_ranked = [ex_candidate], rd_fallback_candidates = [],
        rd_excluded = [], rd_policy_snapshot = AUTO_POLICY, rd_fallback_policy = None,
        rd_weights = default_scoring_weights, rd_decided_at = 0\<rparr>,
     st_operation = GENERATE_TEXT, st_payload = []\<rparr>"

definition ex_call :: execution_call where
  "ex_call = \<lparr>xq_tenant_id = 3, xq_user_id = 2, xq_request_hash = ''h'',
     xq_idempotency_key = None, xq_conversation_id = None, xq_timeout_ms = None,
     xq_estimated_units = None\<rparr>"

definition ex_start :: "(usage_state, nat) service_state" where
  "ex_start = \<lparr>ss_usage = \<lparr>us_budgets = [3 \<mapsto> \<lparr>tb_plan = ''p'', tb_limit = 10, tb_consumed = 0,
        tb_held = 0, tb_modality_limits = []\<rparr>], us_ledger = []\<rparr>,
     ss_node = \<lparr>ns_world = 0, ns_audit = []\<rparr>\<rparr>"

abbreviation ex_node :: node_call where
  "ex_node \<equiv> \<lparr>nc_stage = ex_stage, nc_tenant_id = 3, nc_payload = [], nc_timeout_ms = None\<rparr>"

lemma ex_wire: "wire_candidate ex_service ex_candidate = Inr \<lparr>wr_adapter = ex_adapter,
    wr_binding = ex_binding 7 9, wr_credential_ref = ''ref''\<rparr>"
  by (simp add: wire_candidate_def ex_service_def ex_candidate_def binding_get_def
      credential_ref_for_def)

lemma ex_stage_route: "decision_route (st_decision ex_stage) = [ex_candidate]"
  by (simp add: decision_route_def ex_stage_def)

lemma ex_attempts:
  "perform_attempt ex_service ex_node ex_candidate \<lparr>wr_adapter = ex_adapter,
      wr_binding = ex_binding 7 9, wr_credential_ref = ''ref''\<rparr> i \<lparr>ns_world = w, ns_audit = evs\<rparr>
    = (\<lparr>ns_world = Suc w, ns_audit = evs\<rparr>,
       Inr (if w = 0 then (make_attempt ex_node ex_candidate i None (Some ex_failure), None)
            else (make_attempt ex_node ex_candidate i (Some ex_answer) None, Some ex_answer)))"
  by (simp add: perform_attempt_def ex_service_def ex_adapter_def make_request_def
      request_valid_def ex_binding_def bounded_str_def at_least_def attempt_call_def
      report_signal_def audit_account_used_def ex_answer_def)

definition ex_run :: node_run where
  "ex_run = \<lparr>nr_attempts = [make_attempt ex_node ex_candidate 1 None (Some ex_failure),
       make_attempt ex_node ex_candidate 2 (Some ex_answer) None],
     nr_response = Some ex_answer, nr_error = None\<rparr>"

lemma ex_settings: "sv_max_retries ex_service = 1" "pe_category ex_failure = TIMEOUT"
  "pe_retryable ex_failure" "pe_retry_after_ms ex_failure = None" "gs_succeeded ex_answer"
  by (simp_all add: ex_service_def ex_failure_def ex_answer_def)

lemma ex_run_node:
  "run_node ex_service ex_node \<lparr>ns_world = 0, ns_audit = []\<rparr>
    = (\<lparr>ns_world = 2, ns_audit = []\<rparr>, Inr ex_run)"
proof -
  let ?k = "\<lparr>wr_adapter = ex_adapter, wr_binding = ex_binding 7 9, wr_credential_ref = ''ref''\<rparr>"
  have second: "attempt_loop ex_service ex_node ex_candidate ?k (Suc 0) as e
      \<lparr>ns_world = Suc 0, ns_audit = []\<rparr>
      = (\<lparr>ns_world = 2, ns_audit = []\<rparr>, Finished \<lparr>nr_attempts = as @
          [make_attempt ex_node ex_candidate 2 (Some ex_answer) None],
          nr_response = Some ex_answer, nr_error = None\<rparr>)" for as e
    by (subst attempt_loop.simps) (simp add: ex_attempts ex_settings numeral_2_eq_2)
  have "attempt_loop ex_service ex_node ex_candidate ?k 0 [] None \<lparr>ns_world = 0, ns_audit = []\<rparr>
      = (\<lparr>ns_world = 2, ns_audit = []\<rparr>, Finished ex_run)"
    by (subst attempt_loop.simps)
      (simp add: ex_attempts ex_settings REQUEST_INDICTING_def second ex_run_def)
  then show ?thesis by (simp add: run_node_def ex_stage_route ex_wire)
qed

theorem node_follows_the_route_witness:
  "\<exists>s' r. run_node ex_service ex_node \<lparr>ns_world = 0, ns_audit = []\<rparr> = (s', Inr r)
    \<and> run_succeeded r \<and> length (nr_attempts r) = 2
    \<and> router_order 1 [ex_candidate] (map attempt_key (nr_attempts r))"
proof -
  have "\<forall>c\<in>set (decision_route (st_decision (nc_stage ex_node))). wired_ok ex_service c"
    by (simp add: ex_stage_route wired_ok_def ex_wire)
  from node_follows_the_route [OF this ex_run_node] show ?thesis
    using ex_run_node by (simp add: ex_stage_route ex_run_def run_succeeded_def ex_answer_def)
      (simp add: ex_service_def)
qed

lemma ex_validates: "validate_stages ex_service [ex_stage] = Inr ()"
  by (rule iffD2 [OF validate_stages_wired]) (simp add: ex_stage_route wired_ok_def ex_wire)

lemma ex_stage_loop:
  "\<exists>pg. stage_loop ex_service ex_call 0 [ex_stage] no_progress \<lparr>ns_world = 0, ns_audit = []\<rparr>
    = (\<lparr>ns_world = 2, ns_audit = []\<rparr>, Inr pg) \<and> \<not> pg_failed pg \<and> succeeded_stages pg = 1"
proof -
  have p: "stage_payload ex_stage None = []" "bounded_str (st_node_key ex_stage)"
    by (simp_all add: stage_payload_def ex_stage_def bounded_str_def)
  have "xq_tenant_id ex_call = 3" "xq_timeout_ms ex_call = None"
    "sv_new_id ex_service w = (w, w)" for w
    by (simp_all add: ex_call_def ex_service_def)
  with p ex_run_node show ?thesis
    by (simp add: run_stage_def no_progress_def note_run_def ex_run_def run_succeeded_def
        ex_answer_def succeeded_stages_def completed_node_def)
qed

lemma ex_inv: "usage_inv (ss_usage ex_start)"
  by (simp add: ex_start_def usage_inv_def usage_budget_ok_def)

lemma ex_reserve: "\<exists>u l. usage_reserve 5 (ss_usage ex_start) 3 0 1 = Inr (u, l)"
  by (simp add: ex_start_def usage_reserve_def tb_remaining_def tb_used_def Let_def)

lemma ex_executes:
  "\<exists>s' rep. run_execution (usage_reserve 5) usage_settle usage_fail ex_service STRATEGY_PIPELINE
    [ex_stage] ex_call ex_start = (s', Inr rep)"
proof -
  obtain pg where pg: "stage_loop ex_service ex_call 0 [ex_stage] no_progress
      \<lparr>ns_world = 0, ns_audit = []\<rparr> = (\<lparr>ns_world = 2, ns_audit = []\<rparr>, Inr pg)"
    "\<not> pg_failed pg" "succeeded_stages pg = 1"
    using ex_stage_loop by blast
  obtain u l where res: "usage_reserve 5 (ss_usage ex_start) 3 0 1 = Inr (u, l)"
    using ex_reserve by blast
  obtain u2 l2 where settle: "usage_settle u 0 1
      [(''provider_usage'', JList (pg_provider_usage pg))] = Inr (u2, l2)"
    using mem_usage.reserve_then_settle [OF ex_inv res, of 1] by (metis zero_le_one)
  have c: "xq_tenant_id ex_call = 3" "xq_estimated_units ex_call = None"
    "xq_request_hash ex_call = ''h''" "xq_idempotency_key ex_call = None"
    "ns_world (ss_node ex_start) = 0" "ss_node ex_start = \<lparr>ns_world = 0, ns_audit = []\<rparr>"
    by (simp_all add: ex_call_def ex_start_def)
  have v: "sv_new_id ex_service = (\<lambda>w. (w, w))" "sv_clock ex_service = (\<lambda>w. (w, 0))"
    "sv_usage_bound ex_service" "sv_units_per_stage ex_service = 1"
    by (simp_all add: ex_service_def)
  have "hold_units (usage_reserve 5) ex_service ex_call 0 1 (ss_usage ex_start) = Inr u"
    using res c v by (auto simp: hold_units_Inr)
  with pg settle c v show ?thesis
    by (simp add: run_execution_def ex_validates run_held_def execution_estimate_def
        set_world_def finish_execution_def make_report_def bounded_str_def
        del: stage_loop.simps validate_stages.simps)
qed

theorem execution_resolves_its_hold_witness:
  "\<exists>s' rep l. run_execution (usage_reserve 5) usage_settle usage_fail ex_service STRATEGY_PIPELINE
      [ex_stage] ex_call ex_start = (s', Inr rep)
    \<and> usage_inv (ss_usage s') \<and> xr_usage rep = Some l \<and> ul_units_reserved l = 1"
proof -
  obtain s' rep where run: "run_execution (usage_reserve 5) usage_settle usage_fail ex_service
      STRATEGY_PIPELINE [ex_stage] ex_call ex_start = (s', Inr rep)"
    using ex_executes by blast
  have v: "sv_usage_bound ex_service" "sv_units_per_stage ex_service = 1"
    "execution_estimate ex_service [ex_stage] ex_call = 1"
    by (simp_all add: ex_service_def execution_estimate_def ex_call_def)
  with execution_resolves_its_hold [OF ex_inv _ _ run] run show ?thesis by auto
qed

theorem pipeline_unfolds_in_order_witness:
  "\<exists>s' rep. execute_pipeline (usage_reserve 5) usage_settle usage_fail ex_service
      [ex_stage] ex_call ex_start = (s', Inr rep) \<and> pipeline_shape [ex_stage] None (xr_nodes rep)"
proof -
  obtain s' rep where run: "execute_pipeline (usage_reserve 5) usage_settle usage_fail ex_service
      [ex_stage] ex_call ex_start = (s', Inr rep)"
    using ex_executes by (auto simp: execute_pipeline_def)
  from pipeline_unfolds_in_order [OF run] run show ?thesis by blast
qed

theorem execution_fails_fast_witness:
  "fst (run_execution (usage_reserve 5) usage_settle usage_fail
      (ex_service\<lparr>sv_adapters := Map.empty\<rparr>) STRATEGY_SINGLE [ex_stage] ex_call ex_start) = ex_start"
proof -
  have "\<not> wired_ok (ex_service\<lparr>sv_adapters := Map.empty\<rparr>) ex_candidate"
    by (simp add: wired_ok_def wire_candidate_def)
  then show ?thesis
    using execution_fails_fast [of "[ex_stage]" "ex_service\<lparr>sv_adapters := Map.empty\<rparr>"
        "usage_reserve 5" usage_settle usage_fail STRATEGY_SINGLE ex_call ex_start]
    by (simp add: ex_stage_route)
qed

end
