(* ===== verification/Execution_Strategy.thy ===== *)
theory Execution_Strategy
  imports Execution_Service
begin

text \<open>
  Caller-defined strategies: the specification and its topological waves
  (\<open>core/contracts/execution_strategy.py\<close>) and the executor
  (\<open>core/execution/strategy.py\<close>), which runs each stage as one routed single execution.
  The stages of a wave run concurrently; what \<open>asyncio.gather\<close> makes of them is the
  locale \<open>wave_runner\<close>, interpreted by the run that executes them one after another.
  Lemmas: the waves are a topological order and exist exactly for acyclic dependencies; a
  stage runs only on succeeded dependencies and is skipped otherwise.
\<close>

section \<open>The specification\<close>

definition MAX_STAGES :: nat where "MAX_STAGES = 16"
definition MAX_PARALLEL :: int where "MAX_PARALLEL = 4"

datatype stage_kind = KIND_GENERATE | KIND_REVIEW | KIND_RETEST

fun stage_kind_value :: "stage_kind \<Rightarrow> string" where
  "stage_kind_value KIND_GENERATE = ''generate''"
| "stage_kind_value KIND_REVIEW = ''review''"
| "stage_kind_value KIND_RETEST = ''retest''"

record strategy_stage =
  ss_key :: string
  ss_kind :: stage_kind
  ss_role :: "string option"
  ss_instruction :: "string option"
  ss_model_policy :: "model_policy option"
  ss_depends_on :: "string list"
  ss_payload :: json_object

datatype strategy_mode = MODE_AUTO | MODE_CUSTOM | MODE_TEMPLATE

fun strategy_mode_value :: "strategy_mode \<Rightarrow> string" where
  "strategy_mode_value MODE_AUTO = ''auto''"
| "strategy_mode_value MODE_CUSTOM = ''custom''"
| "strategy_mode_value MODE_TEMPLATE = ''template''"

record strategy_spec =
  sp_mode :: strategy_mode
  sp_template_id :: "string option"
  sp_stages :: "strategy_stage list"
  sp_max_parallel :: int

text \<open>
  Kahn's loop over the remaining stages with their dependencies: each round takes every
  stage whose dependencies are done, sorted by key; \<open>None\<close> is the cycle error.
\<close>

definition ready_keys :: "(string \<times> string list) list \<Rightarrow> string list \<Rightarrow> string list" where
  "ready_keys remaining finished =
     sort (map fst (filter (\<lambda>p. set (snd p) \<subseteq> set finished) remaining))"

function waves_loop ::
  "(string \<times> string list) list \<Rightarrow> string list \<Rightarrow> string list list option" where
  "waves_loop remaining finished =
     (if remaining = [] then Some []
      else let ready = ready_keys remaining finished
           in if ready = [] then None
              else map_option (Cons ready)
                     (waves_loop (filter (\<lambda>p. fst p \<notin> set ready) remaining) (finished @ ready)))"
  by pat_completeness auto

lemma set_ready_keys:
  "set (ready_keys remaining finished) = {k. \<exists>ds. (k, ds) \<in> set remaining \<and> set ds \<subseteq> set finished}"
  by (force simp: ready_keys_def)

termination waves_loop
proof (relation "measure (\<lambda>(remaining, finished). length remaining)", simp, clarify)
  fix remaining :: "(string \<times> string list) list" and finished x
  assume "ready_keys remaining finished \<noteq> []"
  then obtain k where "k \<in> set (ready_keys remaining finished)" by fastforce
  moreover from this obtain ds where "(k, ds) \<in> set remaining" by (auto simp: set_ready_keys)
  ultimately have "length (filter (\<lambda>p. fst p \<notin> set (ready_keys remaining finished)) remaining)
      < length remaining"
    by (intro length_filter_less) auto
  then show "((filter (\<lambda>p. fst p \<notin> set (ready_keys remaining finished)) remaining,
      finished @ ready_keys remaining finished), (remaining, finished))
      \<in> measure (\<lambda>(remaining, finished). length remaining)" by simp
qed

declare waves_loop.simps [simp del]

definition dependencies :: "strategy_stage list \<Rightarrow> (string \<times> string list) list" where
  "dependencies stages = map (\<lambda>t. (ss_key t, ss_depends_on t)) stages"

text \<open>\<open>by_key\<close> is a dictionary; keys are distinct in a valid specification.\<close>

definition stage_by_key :: "strategy_stage list \<Rightarrow> string \<Rightarrow> strategy_stage option" where
  "stage_by_key stages = map_of (map (\<lambda>t. (ss_key t, t)) stages)"

definition wave_keys :: "strategy_stage list \<Rightarrow> string list list option" where
  "wave_keys stages = waves_loop (dependencies stages) []"

definition waves :: "strategy_spec \<Rightarrow> strategy_stage list list option" where
  "waves sp = map_option (map (map (\<lambda>k. the (stage_by_key (sp_stages sp) k))))
                (wave_keys (sp_stages sp))"

definition stage_well_formed :: "string list \<Rightarrow> strategy_stage \<Rightarrow> bool" where
  "stage_well_formed keys t \<longleftrightarrow>
     list_all (\<lambda>d. d \<in> set keys \<and> d \<noteq> ss_key t) (ss_depends_on t)
     \<and> (ss_kind t = KIND_GENERATE \<or> ss_depends_on t \<noteq> [])"

definition spec_well_formed :: "strategy_spec \<Rightarrow> bool" where
  "spec_well_formed sp \<longleftrightarrow>
     \<not> (sp_mode sp = MODE_CUSTOM \<and> sp_stages sp = [])
     \<and> \<not> (sp_mode sp = MODE_TEMPLATE \<and> (sp_template_id sp = None \<or> sp_template_id sp = Some []))
     \<and> \<not> (sp_mode sp = MODE_AUTO \<and> sp_stages sp \<noteq> [])
     \<and> length (sp_stages sp) \<le> MAX_STAGES
     \<and> distinct (map ss_key (sp_stages sp))
     \<and> list_all (stage_well_formed (map ss_key (sp_stages sp))) (sp_stages sp)
     \<and> waves sp \<noteq> None"

section \<open>The waves are a topological order\<close>

text \<open>The invariant of Kahn's loop: keys are distinct and disjoint from the finished ones.\<close>

lemma filter_ready_keys:
  "fst ` set (filter (\<lambda>p. fst p \<notin> set (ready_keys r f)) r) = fst ` set r - set (ready_keys r f)"
  by auto

lemma distinct_ready_keys: "distinct (map fst r) \<Longrightarrow> distinct (ready_keys r f)"
  by (simp add: ready_keys_def distinct_map_filter)

text \<open>Every dependency of a stage is finished before its wave, and no wave could start earlier.\<close>

fun layered :: "(string \<rightharpoonup> string list) \<Rightarrow> string set \<Rightarrow> string list list \<Rightarrow> bool" where
  "layered deps done [] = True"
| "layered deps done (w # ws) =
     (w \<noteq> [] \<and> sorted w \<and> (\<forall>k\<in>set w. set (the (deps k)) \<subseteq> done)
      \<and> (\<forall>v\<in>set ws. \<forall>k\<in>set v. \<not> set (the (deps k)) \<subseteq> done)
      \<and> layered deps (done \<union> set w) ws)"

lemma waves_loop_Some:
  "waves_loop r f = Some ws \<Longrightarrow> distinct (map fst r) \<Longrightarrow> fst ` set r \<inter> set f = {} \<Longrightarrow>
    (\<And>k ds. (k, ds) \<in> set r \<Longrightarrow> deps k = Some ds) \<Longrightarrow>
    distinct (concat ws) \<and> set (concat ws) = fst ` set r \<and> layered deps (set f) ws"
proof (induction r f arbitrary: ws rule: waves_loop.induct)
  case (1 r f)
  let ?w = "ready_keys r f" and ?r = "filter (\<lambda>p. fst p \<notin> set (ready_keys r f)) r"
  show ?case
  proof (cases "r = []")
    case True
    with "1.prems"(1) show ?thesis by (simp add: waves_loop.simps)
  next
    case False
    with "1.prems"(1) obtain ws' where ne: "?w \<noteq> []" and rec: "waves_loop ?r (f @ ?w) = Some ws'"
      and ws: "ws = ?w # ws'"
      by (subst (asm) waves_loop.simps) (auto simp: Let_def split: if_splits)
    have w: "set ?w \<subseteq> fst ` set r" by (force simp: set_ready_keys)
    have ih: "distinct (concat ws') \<and> set (concat ws') = fst ` set ?r
        \<and> layered deps (set (f @ ?w)) ws'"
      using "1.prems"(2,3,4)
      by (intro "1.IH" [OF False refl ne rec]) (auto simp: distinct_map_filter)
    have "\<not> set (the (deps k)) \<subseteq> set f" if "k \<in> set v" "v \<in> set ws'" for k v
    proof -
      have "k \<in> fst ` set ?r" using ih that by auto
      then obtain ds where "(k, ds) \<in> set r" "k \<notin> set ?w" by auto
      with "1.prems"(4) show ?thesis by (auto simp: set_ready_keys)
    qed
    moreover have "set (the (deps k)) \<subseteq> set f" if "k \<in> set ?w" for k
      using that "1.prems"(4) by (auto simp: set_ready_keys)
    moreover have "sorted ?w" by (simp add: ready_keys_def)
    moreover have "fst ` set ?r \<inter> set ?w = {}" by auto
    moreover have "fst ` set ?r \<union> set ?w = fst ` set r" using w by auto
    ultimately show ?thesis
      using ih ne ws distinct_ready_keys [OF "1.prems"(2), of f] by (auto simp: Un_commute)
  qed
qed

text \<open>The loop stops without an order only on stages that wait for each other.\<close>

lemma waves_loop_None:
  "waves_loop r f = None \<Longrightarrow>
    \<exists>s. s \<noteq> [] \<and> set s \<subseteq> set r \<and> (\<forall>(k, ds)\<in>set s. \<exists>d\<in>set ds. d \<notin> set f
      \<and> (\<forall>k' ds'. (k', ds') \<in> set r \<longrightarrow> k' = d \<longrightarrow> (k', ds') \<in> set s))"
proof (induction r f rule: waves_loop.induct)
  case (1 r f)
  let ?w = "ready_keys r f" and ?r = "filter (\<lambda>p. fst p \<notin> set (ready_keys r f)) r"
  have ne: "r \<noteq> []" using "1.prems" by (auto simp: waves_loop.simps)
  show ?case
  proof (cases "?w = []")
    case True
    then have "\<not> set ds \<subseteq> set f" if "(k, ds) \<in> set r" for k ds
      using that set_ready_keys [of r f] by auto
    with ne show ?thesis by (intro exI [of _ r]) fastforce
  next
    case False
    with "1.prems" ne have "waves_loop ?r (f @ ?w) = None"
      by (subst (asm) waves_loop.simps) (auto simp: Let_def)
    from "1.IH" [OF ne refl False this] obtain s where "s \<noteq> []" "set s \<subseteq> set ?r"
      and s: "\<forall>(k, ds)\<in>set s. \<exists>d\<in>set ds. d \<notin> set (f @ ?w)
        \<and> (\<forall>k' ds'. (k', ds') \<in> set ?r \<longrightarrow> k' = d \<longrightarrow> (k', ds') \<in> set s)" by blast
    then show ?thesis by (intro exI [of _ s]) fastforce
  qed
qed

lemma layered_index:
  "layered deps d ws \<Longrightarrow> i < length ws \<Longrightarrow> k \<in> set (ws ! i) \<Longrightarrow>
    set (the (deps k)) \<subseteq> d \<union> set (concat (take i ws))
    \<and> (\<forall>j<i. \<not> set (the (deps k)) \<subseteq> d \<union> set (concat (take j ws)))"
proof (induction deps d ws arbitrary: i rule: layered.induct)
  case (2 deps d w ws)
  show ?case
  proof (cases i)
    case (Suc n)
    have "set (the (deps k)) \<subseteq> (d \<union> set w) \<union> set (concat (take n ws))
        \<and> (\<forall>j<n. \<not> set (the (deps k)) \<subseteq> (d \<union> set w) \<union> set (concat (take j ws)))"
      using "2.prems" Suc by (intro "2.IH") auto
    moreover have "\<not> set (the (deps k)) \<subseteq> d"
      using "2.prems" Suc by (auto dest: nth_mem)
    moreover have "\<not> set (the (deps k)) \<subseteq> d \<union> set (concat (take j (w # ws)))" if "j < i" for j
      using that Suc calculation by (cases j) (auto simp: Un_assoc)
    ultimately show ?thesis using Suc by (auto simp: Un_assoc)
  qed (use "2.prems" in auto)
qed simp

lemma dependencies_distinct [simp]: "map fst (dependencies stages) = map ss_key stages"
  by (simp add: dependencies_def)

lemma dependencies_keys: "fst ` set (dependencies stages) = ss_key ` set stages"
  by (metis dependencies_distinct list.set_map)

lemma in_take_waves:
  "x \<in> set (concat (take m ks)) \<longleftrightarrow> (\<exists>j<m. j < length ks \<and> x \<in> set (ks ! j))"
proof (induction m)
  case (Suc m)
  then show ?case
    by (cases "m < length ks") (auto simp: take_Suc_conv_app_nth less_Suc_eq simp del: set_concat)
qed simp

lemma in_waves: "x \<in> set (concat ks) \<longleftrightarrow> (\<exists>j<length ks. x \<in> set (ks ! j))"
  using in_take_waves [of x "length ks" ks] by auto

lemma dependencies_map:
  "distinct (map ss_key stages) \<Longrightarrow> t \<in> set stages \<Longrightarrow>
    map_of (dependencies stages) (ss_key t) = Some (ss_depends_on t)
    \<and> stage_by_key stages (ss_key t) = Some t"
  by (auto simp: dependencies_def stage_by_key_def o_def intro!: map_of_is_SomeI)

lemma wave_keys_Some:
  assumes "wave_keys stages = Some ks" and "distinct (map ss_key stages)"
  shows "distinct (concat ks)" and "set (concat ks) = ss_key ` set stages"
    and "layered (map_of (dependencies stages)) {} ks"
proof -
  have "distinct (concat ks) \<and> set (concat ks) = fst ` set (dependencies stages)
      \<and> layered (map_of (dependencies stages)) (set []) ks"
    using assms by (intro waves_loop_Some) (auto simp: wave_keys_def intro!: map_of_is_SomeI)
  then show "distinct (concat ks)" "set (concat ks) = ss_key ` set stages"
    "layered (map_of (dependencies stages)) {} ks"
    by (simp_all only: dependencies_keys list.set)
qed

text \<open>
  C22. The waves of a strategy are a topological order, as wide as possible: every stage is
  in exactly one wave; each of its dependencies is in an earlier one; and a stage of a later
  wave has a dependency in the wave just before, so no stage could start earlier.
\<close>

theorem waves_are_topological:
  assumes wf: "distinct (map ss_key (sp_stages sp))" and ws: "waves sp = Some ws"
  shows "distinct (concat ws) \<and> set (concat ws) = set (sp_stages sp)
    \<and> (\<forall>i<length ws. \<forall>t\<in>set (ws ! i).
         (\<forall>d\<in>set (ss_depends_on t). \<exists>j<i. d \<in> ss_key ` set (ws ! j))
         \<and> (0 < i \<longrightarrow> (\<exists>d\<in>set (ss_depends_on t). d \<in> ss_key ` set (ws ! (i - 1)))))"
proof -
  let ?st = "sp_stages sp" and ?deps = "map_of (dependencies (sp_stages sp))"
  let ?f = "\<lambda>k. the (stage_by_key ?st k)"
  obtain ks where ks: "wave_keys ?st = Some ks" and wks: "ws = map (map ?f) ks"
    using ws by (auto simp: waves_def)
  note k = wave_keys_Some [OF ks wf]
  have f: "?f (ss_key t) = t" if "t \<in> set ?st" for t using dependencies_map [OF wf that] by simp
  have key: "ss_key (?f x) = x \<and> ?f x \<in> set ?st" if "x \<in> set (concat ks)" for x
    using that f by (auto simp: k(2) simp del: set_concat)
  have inj: "inj_on ?f (set (concat ks))" 
    by (rule inj_on_inverseI [of _ ss_key]) (use key in blast)
  have cat: "concat ws = map ?f (concat ks)" by (simp add: wks map_concat)
  have "set (concat ws) = set ?st"
    using f by (auto simp: cat k(2) image_image simp del: set_concat)
  moreover have "distinct (concat ws)" using k(1) inj by (simp add: cat distinct_map)
  moreover have "(\<forall>d\<in>set (ss_depends_on t). \<exists>j<i. d \<in> ss_key ` set (ws ! j))
         \<and> (0 < i \<longrightarrow> (\<exists>d\<in>set (ss_depends_on t). d \<in> ss_key ` set (ws ! (i - 1))))"
    if i: "i < length ws" and t: "t \<in> set (ws ! i)" for i t
  proof -
    have keys: "ss_key ` set (ws ! j) = set (ks ! j)" if "j < length ws" for j
    proof -
      have "set (ks ! j) \<subseteq> set (concat ks)" using that by (auto simp: wks intro: nth_mem)
      then show ?thesis using that key by (force simp: wks image_image)
    qed
    obtain x where x: "x \<in> set (ks ! i)" "t = ?f x" using i t by (auto simp: wks)
    then have x_in: "x \<in> set (concat ks)" using i by (auto simp: wks)
    have "?deps x = Some (ss_depends_on t)" using dependencies_map [OF wf] key [OF x_in] x by metis
    with layered_index [OF k(3) _ x(1)] i
    have l: "set (ss_depends_on t) \<subseteq> set (concat (take i ks))"
      "\<forall>j<i. \<not> set (ss_depends_on t) \<subseteq> set (concat (take j ks))" by (auto simp: wks)
    have "\<exists>j<i. d \<in> ss_key ` set (ws ! j)" if "d \<in> set (ss_depends_on t)" for d
      using subsetD [OF l(1) that] i keys by (auto simp only: in_take_waves wks length_map)
    moreover have "\<exists>d\<in>set (ss_depends_on t). d \<in> ss_key ` set (ws ! (i - 1))" if pos: "0 < i"
    proof -
      have "\<not> set (ss_depends_on t) \<subseteq> set (concat (take (i - 1) ks))" using l(2) pos by simp
      then obtain d where d: "d \<in> set (ss_depends_on t)" "d \<notin> set (concat (take (i - 1) ks))"
        by (meson subsetI)
      have "take i ks = take (i - 1) ks @ [ks ! (i - 1)]"
        using pos i take_Suc_conv_app_nth [of "i - 1" ks] by (simp add: wks)
      then have "set (concat (take i ks)) = set (concat (take (i - 1) ks)) \<union> set (ks ! (i - 1))"
        by simp
      then have "d \<in> set (ks ! (i - 1))" using d l(1) by blast
      then show ?thesis using d(1) keys [of "i - 1"] i by auto
    qed
    ultimately show ?thesis by blast
  qed
  ultimately show ?thesis by blast
qed

text \<open>
  C23. A strategy is refused for a cycle exactly when its dependencies have one: with
  distinct keys and every dependency known, the waves exist if and only if the relation from
  a dependency to its dependent is acyclic.
\<close>

theorem waves_exist_iff_acyclic:
  assumes wf: "distinct (map ss_key (sp_stages sp))"
    and known: "\<forall>t\<in>set (sp_stages sp). set (ss_depends_on t) \<subseteq> ss_key ` set (sp_stages sp)"
  shows "waves sp \<noteq> None \<longleftrightarrow>
    acyclic {(d, ss_key t) |d t. t \<in> set (sp_stages sp) \<and> d \<in> set (ss_depends_on t)}"
    (is "_ \<longleftrightarrow> acyclic ?R")
proof
  assume "waves sp \<noteq> None"
  then obtain ks where ks: "wave_keys (sp_stages sp) = Some ks" by (auto simp: waves_def)
  note k = wave_keys_Some [OF ks wf]
  let ?deps = "map_of (dependencies (sp_stages sp))"
  have mono: "?R \<subseteq> measure (\<lambda>x. LEAST i. i < length ks \<and> x \<in> set (ks ! i))"
  proof clarify
    fix d t assume t: "t \<in> set (sp_stages sp)" and d: "d \<in> set (ss_depends_on t)"
    let ?P = "\<lambda>x i. i < length ks \<and> x \<in> set (ks ! i)"
    have "ss_key t \<in> set (concat ks)" using t k(2) by auto
    then have "\<exists>i. ?P (ss_key t) i" by (simp only: in_waves)
    then have P: "?P (ss_key t) (LEAST i. ?P (ss_key t) i)" by (rule LeastI_ex)
    have "set (ss_depends_on t) \<subseteq> set (concat (take (LEAST i. ?P (ss_key t) i) ks))"
      using layered_index [OF k(3), of "LEAST i. ?P (ss_key t) i" "ss_key t"] P
        dependencies_map [OF wf t] by (simp only: option.sel Un_empty_left)
    then have "d \<in> set (concat (take (LEAST i. ?P (ss_key t) i) ks))" using d by blast
    then obtain j where "j < (LEAST i. ?P (ss_key t) i)" "?P d j"
      by (auto simp only: in_take_waves)
    then have "(LEAST i. ?P d i) < (LEAST i. ?P (ss_key t) i)"
      using Least_le [of "?P d" j] by simp
    then show "(d, ss_key t) \<in> measure (\<lambda>x. LEAST i. ?P x i)" by simp
  qed
  then show "acyclic ?R" by (rule acyclic_subset [rotated]) (simp add: wf_acyclic)
next
  assume ac: "acyclic ?R"
  have "finite ?R"
  proof (rule finite_subset)
    show "?R \<subseteq> (\<Union>t\<in>set (sp_stages sp). set (ss_depends_on t) \<times> {ss_key t})" by auto
  qed simp
  with ac have wfR: "wf ?R" by (rule finite_acyclic_wf [rotated])
  show "waves sp \<noteq> None"
  proof
    assume "waves sp = None"
    then have "waves_loop (dependencies (sp_stages sp)) [] = None"
      by (simp add: waves_def wave_keys_def)
    then obtain s where s: "s \<noteq> []" "set s \<subseteq> set (dependencies (sp_stages sp))"
      "\<forall>(k, ds)\<in>set s. \<exists>d\<in>set ds. \<forall>k' ds'. (k', ds') \<in> set (dependencies (sp_stages sp))
         \<longrightarrow> k' = d \<longrightarrow> (k', ds') \<in> set s"
      using waves_loop_None [of "dependencies (sp_stages sp)" "[]"] by fastforce
    have "fst (hd s) \<in> fst ` set s" using s(1) by simp
    from wfR this obtain z where z: "z \<in> fst ` set s" "\<And>y. (y, z) \<in> ?R \<Longrightarrow> y \<notin> fst ` set s"
      using that by (rule wfE_min)
    then obtain ds where ds: "(z, ds) \<in> set s" by auto
    with s(2) obtain t where t: "t \<in> set (sp_stages sp)" "z = ss_key t" "ds = ss_depends_on t"
      by (auto simp: dependencies_def)
    obtain d where d: "d \<in> set ds" "\<forall>k' ds'. (k', ds') \<in> set (dependencies (sp_stages sp))
         \<longrightarrow> k' = d \<longrightarrow> (k', ds') \<in> set s"
      using s(3) ds by blast
    have "d \<in> fst ` set (dependencies (sp_stages sp))"
      using known t d(1) by (auto simp: dependencies_def image_image)
    then have "d \<in> fst ` set s" using d(2) by force
    moreover have "(d, z) \<in> ?R" using t d(1) by blast
    ultimately show False using z(2) by blast
  qed
qed

section \<open>The executor\<close>

definition UPSTREAM_OUTPUTS_KEY :: string where "UPSTREAM_OUTPUTS_KEY = ''upstream_outputs''"

record stage_outcome =
  so_stage :: strategy_stage
  so_report :: "execution_report option"
  so_routing_error :: "string option"
  so_skipped :: bool

definition outcome_succeeded :: "stage_outcome \<Rightarrow> bool" where
  "outcome_succeeded out =
     (case so_report out of None \<Rightarrow> False
      | Some r \<Rightarrow> xc_status (xr_execution r) = EXECUTION_SUCCEEDED)"

definition outcome_output :: "stage_outcome \<Rightarrow> json_object option" where
  "outcome_output out = (case so_report out of None \<Rightarrow> None | Some r \<Rightarrow> final_output r)"

text \<open>The last provider error of a child report, searched from its end.\<close>

definition last_child_error :: "execution_report option \<Rightarrow> provider_error option" where
  "last_child_error report =
     (case report of None \<Rightarrow> None
      | Some r \<Rightarrow>
          (case List.map_filter at_error
                  (concat (map (\<lambda>p. rev (np_attempts p)) (rev (xr_nodes r)))) of
             [] \<Rightarrow> None | e # _ \<Rightarrow> Some e))"

definition compose_auto_strategy :: "model_policy option \<Rightarrow> bool \<Rightarrow> strategy_spec" where
  "compose_auto_strategy policy auto_review =
     \<lparr>sp_mode = MODE_CUSTOM, sp_template_id = None,
      sp_stages =
        [\<lparr>ss_key = ''generate'', ss_kind = KIND_GENERATE, ss_role = None, ss_instruction = None,
          ss_model_policy = policy, ss_depends_on = [], ss_payload = []\<rparr>]
        @ (if auto_review
           then [\<lparr>ss_key = ''review'', ss_kind = KIND_REVIEW, ss_role = Some ''reviewer'',
                  ss_instruction = Some ''Review the subject output for correctness; answer with a verdict.'',
                  ss_model_policy = None, ss_depends_on = [''generate''], ss_payload = []\<rparr>]
           else []),
      sp_max_parallel = MAX_PARALLEL\<rparr>"

datatype strategy_crash =
    StageCrash crash
  | LookupCrash boundary_error
  | UnknownTemplate "string option"
  | DependencyCycle
  | OutcomeKeyError string

text \<open>\<open>sx_now\<close> is the time a decision is stamped with, read off the world.\<close>

record 'w strategy_executor =
  sx_router :: "'w router"
  sx_service :: "'w service"
  sx_templates :: "string \<rightharpoonup> strategy_spec"
  sx_new_id :: "'w \<Rightarrow> 'w \<times> uuid"
  sx_clock :: "'w \<Rightarrow> 'w \<times> timestamp"
  sx_now :: "'w \<Rightarrow> timestamp"
  sx_show_routing_error :: "routing_error \<Rightarrow> string"
  sx_show_uuid :: "uuid \<Rightarrow> string"

record 'u usage_calls =
  uc_reserve :: "'u \<Rightarrow> uuid \<Rightarrow> uuid \<Rightarrow> units \<Rightarrow> usage_error + ('u \<times> usage_ledger)"
  uc_settle :: "'u \<Rightarrow> uuid \<Rightarrow> units \<Rightarrow> json_object \<Rightarrow> usage_error + ('u \<times> usage_ledger)"
  uc_fail :: "'u \<Rightarrow> uuid \<Rightarrow> units \<Rightarrow> json_object \<Rightarrow> usage_error + ('u \<times> usage_ledger)"

record strategy_call =
  sc_tenant_id :: uuid
  sc_user_id :: uuid
  sc_ask :: string
  sc_request_hash :: string
  sc_base_payload :: json_object
  sc_operation :: provider_operation
  sc_required_capabilities :: "string list"
  sc_timeout_ms :: "int option"
  sc_idempotency_key :: "string option"
  sc_conversation_id :: "uuid option"

definition resolve_strategy ::
  "'w strategy_executor \<Rightarrow> strategy_spec \<Rightarrow> model_policy option \<Rightarrow> bool
    \<Rightarrow> strategy_crash + strategy_spec" where
  "resolve_strategy sx sp policy auto_review =
     (case sp_mode sp of
        MODE_CUSTOM \<Rightarrow> Inr sp
      | MODE_AUTO \<Rightarrow> Inr (compose_auto_strategy policy auto_review)
      | MODE_TEMPLATE \<Rightarrow>
          (case Option.bind (sp_template_id sp) (sx_templates sx) of
             None \<Rightarrow> Inl (UnknownTemplate (sp_template_id sp)) | Some t \<Rightarrow> Inr t))"

subsection \<open>One stage\<close>

record stage_job =
  sj_stage :: strategy_stage
  sj_upstream :: "(string \<times> stage_outcome) list"

definition json_opt_string :: "string option \<Rightarrow> json" where
  "json_opt_string v = (case v of None \<Rightarrow> JNull | Some s \<Rightarrow> JStr s)"

definition json_output :: "json_object option \<Rightarrow> json" where
  "json_output v = (case v of None \<Rightarrow> JNull | Some out \<Rightarrow> JObj out)"

text \<open>\<open>{**d, **e}\<close>: the entries of \<open>e\<close> written over those of \<open>d\<close>.\<close>

definition dict_merge :: "json_object \<Rightarrow> json_object \<Rightarrow> json_object" where
  "dict_merge d e = fold (\<lambda>(k, v). AList.update k v) e d"

definition strategy_payload :: "strategy_call \<Rightarrow> stage_job \<Rightarrow> json_object" where
  "strategy_payload c job =
     (let t = sj_stage job;
          base = dict_merge (AList.update ''ask'' (JStr (sc_ask c)) (sc_base_payload c)) (ss_payload t);
          staged = AList.update ''stage''
             (JObj [(''key'', JStr (ss_key t)), (''kind'', JStr (stage_kind_value (ss_kind t))),
                    (''role'', json_opt_string (ss_role t)),
                    (''instruction'', json_opt_string (ss_instruction t))]) base;
          outputs = map (\<lambda>(k, out). (k, json_output (outcome_output out))) (sj_upstream job);
          chained = (case outputs of
                       [] \<Rightarrow> staged
                     | [(k, only)] \<Rightarrow> AList.update PREVIOUS_OUTPUT_KEY only staged
                     | _ \<Rightarrow> AList.update UPSTREAM_OUTPUTS_KEY (JObj outputs) staged)
      in if ss_kind t \<in> {KIND_REVIEW, KIND_RETEST}
         then AList.update ''subject'' (JObj outputs) chained else chained)"

definition stage_request :: "strategy_call \<Rightarrow> strategy_stage \<Rightarrow> routing_request" where
  "stage_request c t =
     \<lparr>rq_operation = sc_operation c, rq_required_capabilities = sc_required_capabilities c,
      rq_required_modalities = [], rq_model_policy = ss_model_policy t,
      rq_task_analysis = None, rq_context_length_hint = None, rq_weights = None,
      rq_credential_policy = None\<rparr>"

definition stage_call :: "strategy_call \<Rightarrow> strategy_stage \<Rightarrow> execution_call" where
  "stage_call c t =
     \<lparr>xq_tenant_id = sc_tenant_id c, xq_user_id = sc_user_id c,
      xq_request_hash = sc_request_hash c @ '':'' @ ss_key t,
      xq_idempotency_key = map_option (\<lambda>k. k @ '':'' @ ss_key t) (sc_idempotency_key c),
      xq_conversation_id = sc_conversation_id c, xq_timeout_ms = sc_timeout_ms c,
      xq_estimated_units = None\<rparr>"

definition execute_stage ::
  "'u usage_calls \<Rightarrow> 'w strategy_executor \<Rightarrow> strategy_call \<Rightarrow> stage_job \<Rightarrow> ('u, 'w) service_state
    \<Rightarrow> ('u, 'w) service_state \<times> (strategy_crash + stage_outcome)" where
  "execute_stage uc sx c job s =
     (let t = sj_stage job; w = ns_world (ss_node s)
      in if \<not> list_all bounded_str (sc_required_capabilities c)
         then (s, Inl (StageCrash ContractViolation))
         else case route (sx_now sx w) (sx_router sx) (stage_request c t) w of
                (w1, Inl (RoutingLookup e)) \<Rightarrow> (set_world w1 s, Inl (LookupCrash e))
              | (w1, Inl err) \<Rightarrow>
                  (set_world w1 s,
                   Inr \<lparr>so_stage = t, so_report = None,
                        so_routing_error = Some (sx_show_routing_error sx err),
                        so_skipped = False\<rparr>)
              | (w1, Inr d) \<Rightarrow>
                  (case execute_single (uc_reserve uc) (uc_settle uc) (uc_fail uc) (sx_service sx)
                          d (sc_operation c) (strategy_payload c job) (stage_call c t)
                          (set_world w1 s) of
                     (s2, Inl crash) \<Rightarrow> (s2, Inl (StageCrash crash))
                   | (s2, Inr r) \<Rightarrow>
                       (s2, Inr \<lparr>so_stage = t, so_report = Some r, so_routing_error = None,
                                 so_skipped = False\<rparr>)))"

subsection \<open>Waves\<close>

text \<open>The keys of a dict comprehension over a list: first occurrences, in order.\<close>

definition dict_keys :: "string list \<Rightarrow> string list" where
  "dict_keys xs = rev (remdups (rev xs))"

definition skipped_outcome :: "strategy_stage \<Rightarrow> stage_outcome" where
  "skipped_outcome t = \<lparr>so_stage = t, so_report = None, so_routing_error = None, so_skipped = True\<rparr>"

definition blocked :: "bool \<Rightarrow> (string \<rightharpoonup> stage_outcome) \<Rightarrow> strategy_stage \<Rightarrow> bool" where
  "blocked failed outcomes t \<longleftrightarrow> failed
     \<and> list_ex (\<lambda>d. case outcomes d of None \<Rightarrow> False | Some out \<Rightarrow> \<not> outcome_succeeded out)
         (ss_depends_on t)"

fun split_wave ::
  "bool \<Rightarrow> strategy_stage list \<Rightarrow> (string \<rightharpoonup> stage_outcome)
    \<Rightarrow> (string \<rightharpoonup> stage_outcome) \<times> strategy_stage list" where
  "split_wave failed [] outcomes = (outcomes, [])"
| "split_wave failed (t # ts) outcomes =
     (if blocked failed outcomes t
      then split_wave failed ts (outcomes(ss_key t \<mapsto> skipped_outcome t))
      else (let (outcomes', runnable) = split_wave failed ts outcomes
            in (outcomes', t # runnable)))"

fun upstream_outcomes ::
  "(string \<rightharpoonup> stage_outcome) \<Rightarrow> string list \<Rightarrow> strategy_crash + (string \<times> stage_outcome) list" where
  "upstream_outcomes outcomes [] = Inr []"
| "upstream_outcomes outcomes (d # ds) =
     (case outcomes d of
        None \<Rightarrow> Inl (OutcomeKeyError d)
      | Some out \<Rightarrow> result_bind (upstream_outcomes outcomes ds) (\<lambda>rest. Inr ((d, out) # rest)))"

fun make_jobs ::
  "(string \<rightharpoonup> stage_outcome) \<Rightarrow> strategy_stage list \<Rightarrow> strategy_crash + stage_job list" where
  "make_jobs outcomes [] = Inr []"
| "make_jobs outcomes (t # ts) =
     result_bind (upstream_outcomes outcomes (dict_keys (ss_depends_on t)))
       (\<lambda>up. result_bind (make_jobs outcomes ts)
         (\<lambda>jobs. Inr (\<lparr>sj_stage = t, sj_upstream = up\<rparr> # jobs)))"

definition record_outcomes ::
  "stage_outcome list \<Rightarrow> (string \<rightharpoonup> stage_outcome) \<Rightarrow> (string \<rightharpoonup> stage_outcome)" where
  "record_outcomes results outcomes =
     fold (\<lambda>out m. m(ss_key (so_stage out) \<mapsto> out)) results outcomes"

text \<open>\<open>gather\<close> runs the jobs of a wave, concurrently or not, and returns their outcomes.\<close>

fun strategy_loop ::
  "('s \<Rightarrow> stage_job list \<Rightarrow> 's \<times> (strategy_crash + stage_outcome list))
    \<Rightarrow> bool \<Rightarrow> strategy_stage list list \<Rightarrow> (string \<rightharpoonup> stage_outcome) \<Rightarrow> 's
    \<Rightarrow> 's \<times> (strategy_crash + (string \<rightharpoonup> stage_outcome))" where
  "strategy_loop gather failed [] outcomes s = (s, Inr outcomes)"
| "strategy_loop gather failed (w # ws) outcomes s =
     (let (outcomes1, runnable) = split_wave failed w outcomes
      in case make_jobs outcomes1 runnable of
           Inl crash \<Rightarrow> (s, Inl crash)
         | Inr jobs \<Rightarrow>
             (case gather s jobs of
                (s1, Inl crash) \<Rightarrow> (s1, Inl crash)
              | (s1, Inr results) \<Rightarrow>
                  strategy_loop gather (failed \<or> \<not> list_all outcome_succeeded results) ws
                    (record_outcomes results outcomes1) s1))"

text \<open>The run of a wave one stage after the other, as a semaphore of one would do.\<close>

fun run_in_turn ::
  "(stage_job \<Rightarrow> 's \<Rightarrow> 's \<times> (strategy_crash + stage_outcome))
    \<Rightarrow> 's \<Rightarrow> stage_job list \<Rightarrow> 's \<times> (strategy_crash + stage_outcome list)" where
  "run_in_turn f s [] = (s, Inr [])"
| "run_in_turn f s (job # jobs) =
     (case f job s of
        (s1, Inl crash) \<Rightarrow> (s1, Inl crash)
      | (s1, Inr out) \<Rightarrow>
          (case run_in_turn f s1 jobs of
             (s2, Inl crash) \<Rightarrow> (s2, Inl crash)
           | (s2, Inr outs) \<Rightarrow> (s2, Inr (out # outs))))"

subsection \<open>The projected report\<close>

definition outcome_status :: "stage_outcome \<Rightarrow> execution_node_status" where
  "outcome_status out =
     (if so_skipped out then NODE_SKIPPED
      else if so_report out = None then NODE_FAILED
      else if outcome_succeeded out then NODE_SUCCEEDED else NODE_FAILED)"

definition outcome_error :: "stage_outcome \<Rightarrow> json_object option" where
  "outcome_error out =
     (if so_skipped out then Some [(''reason'', JStr ''upstream stage failed'')]
      else if so_report out = None
      then Some [(''reason'', JStr ''routing refused''),
                 (''detail'', json_opt_string (so_routing_error out))]
      else if outcome_succeeded out then None
      else Some ([(''reason'', JStr ''stage execution failed''),
                  (''stage'', JStr (ss_key (so_stage out)))]
           @ (case last_child_error (so_report out) of
                None \<Rightarrow> []
              | Some e \<Rightarrow> [(''provider_error_category'', JStr (category_value (pe_category e))),
                          (''safe_message'', JStr (pe_safe_message e))])))"

definition project_node ::
  "'w strategy_executor \<Rightarrow> uuid \<Rightarrow> uuid \<Rightarrow> stage_outcome \<Rightarrow> node_report" where
  "project_node sx strategy_id node_id out =
     (let t = so_stage out
      in \<lparr>np_node =
            \<lparr>xn_id = node_id, xn_execution_id = strategy_id, xn_node_key = ss_key t,
             xn_type = NODE_MODEL_CALL, xn_status = outcome_status out,
             xn_input_ref =
               [(''kind'', JStr (stage_kind_value (ss_kind t))), (''role'', json_opt_string (ss_role t)),
                (''depends_on'', JList (map JStr (ss_depends_on t))),
                (''child_execution_id'', case so_report out of None \<Rightarrow> JNull
                   | Some r \<Rightarrow> JStr (sx_show_uuid sx (xc_id (xr_execution r))))],
             xn_output_ref = (if outcome_succeeded out then outcome_output out else None),
             xn_retry_count = 0, xn_error = outcome_error out\<rparr>,
          np_attempts =
            (case so_report out of
               Some r \<Rightarrow> if outcome_status out = NODE_FAILED
                         then concat (map np_attempts (xr_nodes r)) else []
             | None \<Rightarrow> []),
          np_response =
            (if outcome_succeeded out
             then Some \<lparr>gs_request_id = strategy_id, gs_succeeded = True,
                        gs_output = (case outcome_output out of None \<Rightarrow> [] | Some x \<Rightarrow> x),
                        gs_usage = [], gs_error = None, gs_latency_ms = None\<rparr>
             else None)\<rparr>)"

text \<open>The nodes, one id drawn for each; a key the contract rejects raises.\<close>

fun project_nodes ::
  "'w strategy_executor \<Rightarrow> uuid \<Rightarrow> stage_outcome list \<Rightarrow> 'w
    \<Rightarrow> 'w \<times> (strategy_crash + node_report list)" where
  "project_nodes sx sid [] w = (w, Inr [])"
| "project_nodes sx sid (out # outs) w =
     (let (w1, node_id) = sx_new_id sx w
      in if \<not> bounded_str (ss_key (so_stage out)) then (w1, Inl (StageCrash ContractViolation))
         else case project_nodes sx sid outs w1 of
                (w2, Inl crash) \<Rightarrow> (w2, Inl crash)
              | (w2, Inr ps) \<Rightarrow> (w2, Inr (project_node sx sid node_id out # ps)))"

definition strategy_cost ::
  "'w strategy_executor \<Rightarrow> strategy_spec \<Rightarrow> strategy_stage list list \<Rightarrow> stage_outcome list \<Rightarrow> json_object"
where
  "strategy_cost sx plan ws outs =
     [(''strategy'', JObj
         [(''mode'', JStr (strategy_mode_value (sp_mode plan))),
          (''stages'', JList (map (\<lambda>t. JStr (ss_key t)) (sp_stages plan))),
          (''waves'', JList (map (\<lambda>w. JList (map (\<lambda>t. JStr (ss_key t)) w)) ws)),
          (''max_parallel'', JInt (sp_max_parallel plan))]),
      (''child_execution_ids'',
         JList (List.map_filter (\<lambda>out. map_option (\<lambda>r. JStr (sx_show_uuid sx (xc_id (xr_execution r))))
                  (so_report out)) outs)),
      (''settlement'', JStr ''per_stage_child_executions'')]"

definition project_report ::
  "'w strategy_executor \<Rightarrow> strategy_call \<Rightarrow> strategy_spec \<Rightarrow> strategy_stage list list
    \<Rightarrow> stage_outcome list \<Rightarrow> uuid \<Rightarrow> timestamp \<Rightarrow> 'w \<Rightarrow> 'w \<times> (strategy_crash + execution_report)"
where
  "project_report sx c plan ws outs sid created w =
     (case project_nodes sx sid outs w of
        (w1, Inl crash) \<Rightarrow> (w1, Inl crash)
      | (w1, Inr ps) \<Rightarrow>
          (let (w2, completed) = sx_clock sx w1;
               status = (if list_all outcome_succeeded outs then EXECUTION_SUCCEEDED
                         else EXECUTION_FAILED_STATUS)
           in if \<not> bounded_str (sc_request_hash c)
                 \<or> (case sc_idempotency_key c of None \<Rightarrow> False | Some k \<Rightarrow> \<not> bounded_str k)
              then (w2, Inl (StageCrash ContractViolation))
              else (w2, Inr
                \<lparr>xr_execution =
                   \<lparr>xc_id = sid, xc_tenant_id = sc_tenant_id c, xc_user_id = sc_user_id c,
                    xc_conversation_id = sc_conversation_id c,
                    xc_request_hash = sc_request_hash c,
                    xc_idempotency_key = sc_idempotency_key c, xc_status = status,
                    xc_strategy = STRATEGY_HYBRID, xc_cost_snapshot = strategy_cost sx plan ws outs,
                    xc_created_at = created, xc_completed_at = Some completed\<rparr>,
                 xr_nodes = ps, xr_status_history = [EXECUTION_QUEUED, EXECUTION_RUNNING, status],
                 xr_usage = None\<rparr>)))"

subsection \<open>The whole strategy\<close>

record strategy_report =
  sr_spec :: strategy_spec
  sr_outcomes :: "stage_outcome list"
  sr_report :: execution_report

text \<open>\<open>outcomes[stage.key] for stage in plan.stages\<close>.\<close>

fun ordered_outcomes ::
  "(string \<rightharpoonup> stage_outcome) \<Rightarrow> strategy_stage list \<Rightarrow> strategy_crash + stage_outcome list" where
  "ordered_outcomes outcomes [] = Inr []"
| "ordered_outcomes outcomes (t # ts) =
     (case outcomes (ss_key t) of
        None \<Rightarrow> Inl (OutcomeKeyError (ss_key t))
      | Some out \<Rightarrow> result_bind (ordered_outcomes outcomes ts) (\<lambda>outs. Inr (out # outs)))"

definition execute_strategy ::
  "(('u, 'w) service_state \<Rightarrow> stage_job list
      \<Rightarrow> ('u, 'w) service_state \<times> (strategy_crash + stage_outcome list))
    \<Rightarrow> 'w strategy_executor \<Rightarrow> strategy_spec \<Rightarrow> strategy_call \<Rightarrow> ('u, 'w) service_state
    \<Rightarrow> ('u, 'w) service_state \<times> (strategy_crash + strategy_report)" where
  "execute_strategy gather sx sp c s =
     (case resolve_strategy sx sp None False of
        Inl crash \<Rightarrow> (s, Inl crash)
      | Inr plan \<Rightarrow>
          (let (w1, sid) = sx_new_id sx (ns_world (ss_node s));
               (w2, created) = sx_clock sx w1;
               s1 = set_world w2 s
           in case waves plan of
                None \<Rightarrow> (s1, Inl DependencyCycle)
              | Some ws \<Rightarrow>
                  (case strategy_loop gather False ws Map.empty s1 of
                     (s2, Inl crash) \<Rightarrow> (s2, Inl crash)
                   | (s2, Inr outcomes) \<Rightarrow>
                       (case ordered_outcomes outcomes (sp_stages plan) of
                          Inl crash \<Rightarrow> (s2, Inl crash)
                        | Inr outs \<Rightarrow>
                            (case project_report sx c plan ws outs sid created
                                    (ns_world (ss_node s2)) of
                               (w3, Inl crash) \<Rightarrow> (set_world w3 s2, Inl crash)
                             | (w3, Inr r) \<Rightarrow>
                                 (set_world w3 s2,
                                  Inr \<lparr>sr_spec = plan, sr_outcomes = outs, sr_report = r\<rparr>))))))"

section \<open>A stage runs on succeeded dependencies only\<close>

text \<open>Waves whose stages are new and depend on what is finished.\<close>

fun staged :: "string set \<Rightarrow> strategy_stage list list \<Rightarrow> bool" where
  "staged fin [] = True"
| "staged fin (w # ws) =
     (distinct (map ss_key w)
      \<and> (\<forall>t\<in>set w. set (ss_depends_on t) \<subseteq> fin \<and> ss_key t \<notin> fin)
      \<and> staged (fin \<union> ss_key ` set w) ws)"

definition lost :: "(string \<rightharpoonup> stage_outcome) \<Rightarrow> strategy_stage \<Rightarrow> bool" where
  "lost outcomes t \<longleftrightarrow> (\<exists>d\<in>set (ss_depends_on t). \<exists>out. outcomes d = Some out \<and> \<not> outcome_succeeded out)"

text \<open>
  The loop's invariant: a key has its own stage's outcome, whose dependencies have theirs;
  exactly the stages with a lost dependency are skipped; \<open>failed\<close> tells whether any stage
  did not succeed.
\<close>

definition strategy_inv :: "bool \<Rightarrow> (string \<rightharpoonup> stage_outcome) \<Rightarrow> bool" where
  "strategy_inv failed outcomes \<longleftrightarrow>
     (failed \<longleftrightarrow> (\<exists>k out. outcomes k = Some out \<and> \<not> outcome_succeeded out))
     \<and> (\<forall>k out. outcomes k = Some out \<longrightarrow>
          ss_key (so_stage out) = k \<and> set (ss_depends_on (so_stage out)) \<subseteq> dom outcomes
          \<and> (so_skipped out \<longleftrightarrow> lost outcomes (so_stage out)))"

lemma skipped_outcome_sel [simp]:
  "so_stage (skipped_outcome t) = t" "so_skipped (skipped_outcome t)"
  "\<not> outcome_succeeded (skipped_outcome t)"
  by (simp_all add: skipped_outcome_def outcome_succeeded_def)

lemma blocked_lost: "strategy_inv failed outcomes \<Longrightarrow> blocked failed outcomes t = lost outcomes t"
  unfolding blocked_def lost_def strategy_inv_def list_ex_iff
  by (auto split: option.splits; blast)

lemma blocked_cong:
  "(\<And>d. d \<in> set (ss_depends_on t) \<Longrightarrow> outcomes d = outcomes' d) \<Longrightarrow>
    blocked failed outcomes t = blocked failed outcomes' t"
  by (auto simp: blocked_def list_ex_iff)

lemma split_wave_eq:
  "(\<And>t. t \<in> set ts \<Longrightarrow> set (ss_depends_on t) \<inter> ss_key ` set ts = {}) \<Longrightarrow>
    distinct (map ss_key ts) \<Longrightarrow> split_wave failed ts outcomes = (outcomes1, runnable) \<Longrightarrow>
    runnable = filter (\<lambda>t. \<not> blocked failed outcomes t) ts
    \<and> (\<forall>t\<in>set ts. blocked failed outcomes t \<longrightarrow> outcomes1 (ss_key t) = Some (skipped_outcome t))
    \<and> (\<forall>k. k \<notin> ss_key ` set (filter (blocked failed outcomes) ts) \<longrightarrow> outcomes1 k = outcomes k)"
proof (induction ts arbitrary: outcomes outcomes1 runnable)
  case (Cons t ts)
  let ?m = "if blocked failed outcomes t then outcomes(ss_key t \<mapsto> skipped_outcome t) else outcomes"
  obtain o1 r1 where rec: "split_wave failed ts ?m = (o1, r1)" by fastforce
  have same: "blocked failed ?m u = blocked failed outcomes u" if "u \<in> set ts" for u
  proof (rule blocked_cong)
    fix d assume "d \<in> set (ss_depends_on u)"
    then have "d \<noteq> ss_key t" using Cons.prems(1) [of u] that by auto
    then show "?m d = outcomes d" by simp
  qed
  have "r1 = filter (\<lambda>u. \<not> blocked failed ?m u) ts
    \<and> (\<forall>u\<in>set ts. blocked failed ?m u \<longrightarrow> o1 (ss_key u) = Some (skipped_outcome u))
    \<and> (\<forall>k. k \<notin> ss_key ` set (filter (blocked failed ?m) ts) \<longrightarrow> o1 k = ?m k)"
    using Cons.prems(1,2) by (intro Cons.IH [OF _ _ rec]) fastforce+
  with same have ih: "r1 = filter (\<lambda>u. \<not> blocked failed outcomes u) ts"
    "\<forall>u\<in>set ts. blocked failed outcomes u \<longrightarrow> o1 (ss_key u) = Some (skipped_outcome u)"
    "\<forall>k. k \<notin> ss_key ` set (filter (blocked failed outcomes) ts) \<longrightarrow> o1 k = ?m k"
    by (auto cong: filter_cong image_cong)
  have "ss_key t \<notin> ss_key ` set ts" using Cons.prems(2) by auto
  then have t: "o1 (ss_key t) = ?m (ss_key t)" using ih(3) by auto
  show ?case
  proof (cases "blocked failed outcomes t")
    case True
    with Cons.prems(3) rec have "outcomes1 = o1" "runnable = r1" by simp_all
    with True ih t show ?thesis by auto
  next
    case False
    with Cons.prems(3) rec have "outcomes1 = o1" "runnable = t # r1" by simp_all
    with False ih t show ?thesis by auto
  qed
qed simp

lemma record_outcomes_lookup:
  "distinct (map (ss_key \<circ> so_stage) results) \<Longrightarrow>
    (\<forall>out\<in>set results. record_outcomes results m (ss_key (so_stage out)) = Some out)
    \<and> (\<forall>k. k \<notin> (ss_key \<circ> so_stage) ` set results \<longrightarrow> record_outcomes results m k = m k)"
proof (induction results arbitrary: m)
  case (Cons out results)
  let ?m = "m(ss_key (so_stage out) \<mapsto> out)"
  have "record_outcomes (out # results) m = record_outcomes results ?m"
    by (simp add: record_outcomes_def)
  moreover have "(\<forall>x\<in>set results. record_outcomes results ?m (ss_key (so_stage x)) = Some x)
    \<and> (\<forall>k. k \<notin> (ss_key \<circ> so_stage) ` set results \<longrightarrow> record_outcomes results ?m k = ?m k)"
    using Cons.prems by (intro Cons.IH) simp
  moreover have "ss_key (so_stage out) \<notin> (ss_key \<circ> so_stage) ` set results"
    using Cons.prems by simp
  ultimately show ?case by auto
qed (simp add: record_outcomes_def)

text \<open>What one wave adds, whoever ran its stages.\<close>

lemma strategy_wave_inv:
  assumes inv: "strategy_inv failed outcomes" and st: "staged (dom outcomes) [w]"
    and sw: "split_wave failed w outcomes = (outcomes1, runnable)"
    and res: "map so_stage results = runnable" "\<forall>out\<in>set results. \<not> so_skipped out"
  shows "strategy_inv (failed \<or> \<not> list_all outcome_succeeded results)
           (record_outcomes results outcomes1)
    \<and> dom (record_outcomes results outcomes1) = dom outcomes \<union> ss_key ` set w
    \<and> (\<forall>t\<in>set w. \<exists>out. record_outcomes results outcomes1 (ss_key t) = Some out \<and> so_stage out = t)
    \<and> outcomes \<subseteq>\<^sub>m record_outcomes results outcomes1"
proof -
  let ?o2 = "record_outcomes results outcomes1"
  have w: "distinct (map ss_key w)" "\<And>t. t \<in> set w \<Longrightarrow> set (ss_depends_on t) \<subseteq> dom outcomes"
    "\<And>t. t \<in> set w \<Longrightarrow> ss_key t \<notin> dom outcomes" using st by auto
  have disj: "set (ss_depends_on t) \<inter> ss_key ` set w = {}" if "t \<in> set w" for t
    using w(2) [OF that] w(3) by fastforce
  note sp = split_wave_eq [OF disj w(1) sw]
  have bl: "blocked failed outcomes t = lost outcomes t" for t by (rule blocked_lost [OF inv])
  have keys: "(ss_key \<circ> so_stage) ` set results = ss_key ` set runnable"
    using res(1) by (metis image_comp list.set_map)
  have dist: "distinct (map (ss_key \<circ> so_stage) results)"
    using sp w(1) res(1) by (metis distinct_map_filter map_map)
  note rl = record_outcomes_lookup [OF dist, of outcomes1]
  have inj: "t = u" if "t \<in> set w" "u \<in> set w" "ss_key t = ss_key u" for t u
    using w(1) that by (simp add: distinct_map inj_on_def)
  have old: "?o2 k = outcomes k" if "k \<notin> ss_key ` set w" for k
  proof -
    have "k \<notin> ss_key ` set runnable" "k \<notin> ss_key ` set (filter (blocked failed outcomes) w)"
      using that sp by auto
    with rl keys sp show ?thesis by simp
  qed
  have ran: "\<exists>out\<in>set results. so_stage out = t \<and> ?o2 (ss_key t) = Some out"
    if "t \<in> set w" "\<not> lost outcomes t" for t
  proof -
    have "t \<in> set runnable" using that sp bl by simp
    then obtain out where "out \<in> set results" "so_stage out = t" using res(1) by auto
    with rl show ?thesis by auto
  qed
  have skip: "?o2 (ss_key t) = Some (skipped_outcome t)" if "t \<in> set w" "lost outcomes t" for t
  proof -
    have "ss_key t \<notin> ss_key ` set runnable" using that sp bl inj by auto
    then show ?thesis using rl sp that bl keys by simp
  qed
  have each: "\<exists>out. ?o2 (ss_key t) = Some out \<and> so_stage out = t
      \<and> (so_skipped out \<longleftrightarrow> lost outcomes t)" if "t \<in> set w" for t
    using ran [OF that] skip [OF that] res(2) by (cases "lost outcomes t") auto
  have sub: "outcomes \<subseteq>\<^sub>m ?o2"
    unfolding map_le_def
  proof
    fix k assume "k \<in> dom outcomes"
    then have "k \<notin> ss_key ` set w" using w(3) by auto
    then show "outcomes k = ?o2 k" using old by simp
  qed
  have domo: "dom ?o2 = dom outcomes \<union> ss_key ` set w"
  proof (rule set_eqI)
    fix k show "k \<in> dom ?o2 \<longleftrightarrow> k \<in> dom outcomes \<union> ss_key ` set w"
      using old [of k] each by (cases "k \<in> ss_key ` set w") auto
  qed
  have lost_same: "lost ?o2 t = lost outcomes t" if "set (ss_depends_on t) \<subseteq> dom outcomes" for t
    using that sub unfolding lost_def map_le_def by (metis subsetD)
  have fail: "(failed \<or> \<not> list_all outcome_succeeded results)
      \<longleftrightarrow> (\<exists>k out. ?o2 k = Some out \<and> \<not> outcome_succeeded out)"
  proof
    assume "failed \<or> \<not> list_all outcome_succeeded results"
    then show "\<exists>k out. ?o2 k = Some out \<and> \<not> outcome_succeeded out"
    proof
      assume failed
      then obtain k out where "outcomes k = Some out" "\<not> outcome_succeeded out"
        using inv by (auto simp: strategy_inv_def)
      with sub show ?thesis by (metis domI map_le_def)
    qed (use rl in \<open>auto simp: list_all_iff\<close>)
  next
    assume "\<exists>k out. ?o2 k = Some out \<and> \<not> outcome_succeeded out"
    then obtain k out where k: "?o2 k = Some out" "\<not> outcome_succeeded out" by blast
    show "failed \<or> \<not> list_all outcome_succeeded results"
    proof (cases "k \<in> ss_key ` set w")
      case False
      with k old inv show ?thesis by (auto simp: strategy_inv_def)
    next
      case True
      then obtain t where t: "t \<in> set w" "k = ss_key t" by blast
      show ?thesis
      proof (cases "lost outcomes t")
        case True
        with inv show ?thesis by (auto simp: strategy_inv_def lost_def)
      next
        case False
        with ran t k show ?thesis by (fastforce simp: list_all_iff)
      qed
    qed
  qed
  have "ss_key (so_stage out) = k \<and> set (ss_depends_on (so_stage out)) \<subseteq> dom ?o2
      \<and> (so_skipped out \<longleftrightarrow> lost ?o2 (so_stage out))" if "?o2 k = Some out" for k out
  proof (cases "k \<in> ss_key ` set w")
    case False
    with that old have "outcomes k = Some out" by simp
    with inv have i: "ss_key (so_stage out) = k" "set (ss_depends_on (so_stage out)) \<subseteq> dom outcomes"
      "so_skipped out \<longleftrightarrow> lost outcomes (so_stage out)" by (auto simp: strategy_inv_def)
    with lost_same domo show ?thesis by auto
  next
    case True
    then obtain t where t: "t \<in> set w" "k = ss_key t" by blast
    with each [OF t(1)] that have "so_stage out = t" "so_skipped out \<longleftrightarrow> lost outcomes t"
      by (metis option.inject)+
    with t w(2) lost_same domo show ?thesis by auto
  qed
  with fail have "strategy_inv (failed \<or> \<not> list_all outcome_succeeded results) ?o2"
    by (simp add: strategy_inv_def)
  with domo each sub show ?thesis by blast
qed

lemma make_jobs_stages: "make_jobs outcomes ts = Inr jobs \<Longrightarrow> map sj_stage jobs = ts"
  by (induction ts arbitrary: jobs) (auto simp: result_bind_Inr_iff)

text \<open>
  What a way of running a wave must promise: outcomes in the order of the jobs, each of the
  job's own stage, none marked as skipped.
\<close>

locale wave_runner =
  fixes gather :: "'s \<Rightarrow> stage_job list \<Rightarrow> 's \<times> (strategy_crash + stage_outcome list)"
  assumes gather_ordered:
    "gather s jobs = (s', Inr results) \<Longrightarrow> map so_stage results = map sj_stage jobs"
    and gather_ran: "gather s jobs = (s', Inr results) \<Longrightarrow> out \<in> set results \<Longrightarrow> \<not> so_skipped out"
begin

lemma strategy_loop_inv:
  "strategy_loop gather failed ws outcomes s = (s', Inr outcomes') \<Longrightarrow> strategy_inv failed outcomes
    \<Longrightarrow> staged (dom outcomes) ws \<Longrightarrow>
    (\<exists>failed'. strategy_inv failed' outcomes') \<and> outcomes \<subseteq>\<^sub>m outcomes'
    \<and> dom outcomes' = dom outcomes \<union> ss_key ` set (concat ws)
    \<and> (\<forall>t\<in>set (concat ws). \<exists>out. outcomes' (ss_key t) = Some out \<and> so_stage out = t)"
proof (induction ws arbitrary: failed outcomes s)
  case Nil
  then show ?case by auto
next
  case (Cons w ws)
  obtain outcomes1 runnable where sw: "split_wave failed w outcomes = (outcomes1, runnable)"
    by fastforce
  obtain jobs s1 results where jobs: "make_jobs outcomes1 runnable = Inr jobs"
    and g: "gather s jobs = (s1, Inr results)"
    and rest: "strategy_loop gather (failed \<or> \<not> list_all outcome_succeeded results) ws
        (record_outcomes results outcomes1) s1 = (s', Inr outcomes')"
    using Cons.prems(1) sw by (auto split: sum.splits prod.splits)
  have "map so_stage results = runnable" "\<forall>out\<in>set results. \<not> so_skipped out"
    using gather_ordered [OF g] make_jobs_stages [OF jobs] gather_ran [OF g] by auto
  note wave = strategy_wave_inv [OF Cons.prems(2) _ sw this]
  let ?o2 = "record_outcomes results outcomes1"
  have st: "staged (dom outcomes) [w]" "staged (dom outcomes \<union> ss_key ` set w) ws"
    using Cons.prems(3) by auto
  note wave = wave [OF st(1)]
  have ih: "(\<exists>failed'. strategy_inv failed' outcomes') \<and> ?o2 \<subseteq>\<^sub>m outcomes'
    \<and> dom outcomes' = dom ?o2 \<union> ss_key ` set (concat ws)
    \<and> (\<forall>t\<in>set (concat ws). \<exists>out. outcomes' (ss_key t) = Some out \<and> so_stage out = t)"
    using wave st(2) by (intro Cons.IH [OF rest]) auto
  have "\<exists>out. outcomes' (ss_key t) = Some out \<and> so_stage out = t" if "t \<in> set w" for t
    using wave that ih by (metis domI map_le_def)
  with wave ih show ?case by (auto intro: map_le_trans)
qed

end

lemma execute_stage_job:
  "execute_stage uc sx c job s = (s', Inr out) \<Longrightarrow> so_stage out = sj_stage job \<and> \<not> so_skipped out"
  by (auto simp: execute_stage_def Let_def split: if_splits prod.splits sum.splits routing_error.splits)

lemma run_in_turn_results:
  assumes "\<And>job s s' out. f job s = (s', Inr out) \<Longrightarrow> so_stage out = sj_stage job \<and> \<not> so_skipped out"
  shows "run_in_turn f s jobs = (s', Inr results) \<Longrightarrow>
    map so_stage results = map sj_stage jobs \<and> (\<forall>out\<in>set results. \<not> so_skipped out)"
proof (induction jobs arbitrary: s results)
  case (Cons job jobs)
  then show ?case using assms by (fastforce split: prod.splits sum.splits)
qed simp

interpretation in_turn: wave_runner "run_in_turn (execute_stage uc sx c)" for uc sx c
  by unfold_locales
    (use run_in_turn_results [of "execute_stage uc sx c"] execute_stage_job in blast)+

lemma staged_layered:
  "layered (map_of (dependencies stages)) fin ks \<Longrightarrow> distinct (concat ks) \<Longrightarrow>
    set (concat ks) \<subseteq> ss_key ` set stages \<Longrightarrow> set (concat ks) \<inter> fin = {} \<Longrightarrow>
    distinct (map ss_key stages) \<Longrightarrow>
    staged fin (map (map (\<lambda>k. the (stage_by_key stages k))) ks)"
proof (induction ks arbitrary: fin)
  case (Cons w ks)
  let ?f = "\<lambda>k. the (stage_by_key stages k)"
  have f: "ss_key (?f k) = k \<and> the (map_of (dependencies stages) k) = ss_depends_on (?f k)"
    if "k \<in> set w" for k
  proof -
    have "k \<in> ss_key ` set stages" using Cons.prems(3) that by auto
    then obtain t where t: "t \<in> set stages" "k = ss_key t" by blast
    with dependencies_map [OF Cons.prems(5) t(1)] show ?thesis by simp
  qed
  have keys: "ss_key ` ?f ` set w = set w" using f by (force simp: image_image)
  have "map ss_key (map ?f w) = w" using f by (simp add: map_idI)
  moreover have "staged (fin \<union> set w) (map (map ?f) ks)"
    using Cons.prems by (intro Cons.IH) auto
  moreover have "set (ss_depends_on (?f k)) \<subseteq> fin \<and> ss_key (?f k) \<notin> fin" if "k \<in> set w" for k
  proof -
    have "set (the (map_of (dependencies stages) k)) \<subseteq> fin"
      using Cons.prems(1) that by simp
    then show ?thesis using Cons.prems(4) f [OF that] that by auto
  qed
  ultimately show ?case using Cons.prems(2) keys by (auto simp del: map_map)
qed simp

lemma ordered_outcomes_Inr:
  "ordered_outcomes outcomes ts = Inr outs \<Longrightarrow>
    list_all2 (\<lambda>t out. outcomes (ss_key t) = Some out) ts outs"
  by (induction ts arbitrary: outs) (auto simp: result_bind_Inr_iff split: option.splits)

lemma project_report_status:
  "project_report sx c plan ws outs sid created w = (w', Inr r) \<Longrightarrow>
    xc_status (xr_execution r) =
      (if list_all outcome_succeeded outs then EXECUTION_SUCCEEDED else EXECUTION_FAILED_STATUS)"
  by (auto simp: project_report_def Let_def split: prod.splits sum.splits if_splits)

text \<open>
  C24. A strategy keeps its promise to the stages: with an answer there is one outcome per
  stage of the plan, in plan order; a stage is skipped exactly when one of its dependencies
  did not succeed, directly or because it was skipped itself, so no stage ever runs on a
  missing upstream output, and an independent stage always runs; and the strategy succeeds
  exactly when every stage did.
\<close>

theorem strategy_skips_exactly_the_blocked:
  assumes wf: "distinct (map ss_key (sp_stages (sr_spec rep)))"
    and run: "execute_strategy (run_in_turn (execute_stage uc sx c)) sx sp c s = (s', Inr rep)"
  shows "map so_stage (sr_outcomes rep) = sp_stages (sr_spec rep)
    \<and> (\<forall>out\<in>set (sr_outcomes rep). so_skipped out \<longleftrightarrow>
         (\<exists>up\<in>set (sr_outcomes rep). ss_key (so_stage up) \<in> set (ss_depends_on (so_stage out))
            \<and> \<not> outcome_succeeded up))
    \<and> (xc_status (xr_execution (sr_report rep)) = EXECUTION_SUCCEEDED
         \<longleftrightarrow> list_all outcome_succeeded (sr_outcomes rep))"
proof -
  obtain plan sid created ws s1 s2 outcomes outs w3 where
    ws: "waves plan = Some ws"
    and loop: "strategy_loop (run_in_turn (execute_stage uc sx c)) False ws Map.empty s1
        = (s2, Inr outcomes)"
    and ord: "ordered_outcomes outcomes (sp_stages plan) = Inr outs"
    and proj: "project_report sx c plan ws outs sid created (ns_world (ss_node s2))
        = (w3, Inr (sr_report rep))"
    and rep: "sr_spec rep = plan" "sr_outcomes rep = outs"
    using run by (auto simp: execute_strategy_def Let_def split: sum.splits prod.splits option.splits)
  note wf = wf [unfolded rep]
  obtain ks where ks: "wave_keys (sp_stages plan) = Some ks"
    and wks: "ws = map (map (\<lambda>k. the (stage_by_key (sp_stages plan) k))) ks"
    using ws by (auto simp: waves_def)
  note k = wave_keys_Some [OF ks wf]
  have all: "set (concat ws) = set (sp_stages plan)"
  proof -
    have "the (stage_by_key (sp_stages plan) (ss_key t)) = t" if "t \<in> set (sp_stages plan)" for t
      using dependencies_map [OF wf that] by simp
    then have "(\<lambda>k. the (stage_by_key (sp_stages plan) k)) ` set (concat ks) = set (sp_stages plan)"
      by (auto simp: k(2) image_image simp del: set_concat)
    moreover have "concat ws = map (\<lambda>k. the (stage_by_key (sp_stages plan) k)) (concat ks)"
      by (simp add: wks map_concat)
    ultimately show ?thesis by (simp only: list.set_map)
  qed
  have "staged (dom Map.empty) ws"
    unfolding wks using k wf by (intro staged_layered) auto
  moreover have "strategy_inv False Map.empty" by (simp add: strategy_inv_def)
  ultimately obtain failed where inv: "strategy_inv failed outcomes"
    and doms: "dom outcomes = ss_key ` set (sp_stages plan)"
    and own: "\<forall>t\<in>set (sp_stages plan). \<exists>out. outcomes (ss_key t) = Some out \<and> so_stage out = t"
    using in_turn.strategy_loop_inv [OF loop] unfolding all by (metis dom_empty sup_bot_left)
  have outs: "list_all2 (\<lambda>t out. outcomes (ss_key t) = Some out) (sp_stages plan) outs"
    by (rule ordered_outcomes_Inr [OF ord])
  have stages: "map so_stage outs = sp_stages plan"
  proof (rule nth_equalityI)
    show "length (map so_stage outs) = length (sp_stages plan)"
      using outs by (simp add: list_all2_lengthD)
    fix i assume "i < length (map so_stage outs)"
    then show "map so_stage outs ! i = sp_stages plan ! i"
      using outs own by (auto simp: list_all2_conv_all_nth) (metis nth_mem option.inject)
  qed
  have look: "outcomes k = Some out \<longleftrightarrow> out \<in> set outs \<and> ss_key (so_stage out) = k" for k out
  proof
    assume a: "outcomes k = Some out"
    then obtain t where t: "t \<in> set (sp_stages plan)" "k = ss_key t" using doms by auto
    then obtain i where "i < length outs" "sp_stages plan ! i = t"
      using outs by (metis in_set_conv_nth list_all2_lengthD)
    then have "out = outs ! i" "i < length outs" using outs a t by (auto simp: list_all2_conv_all_nth)
    with a inv show "out \<in> set outs \<and> ss_key (so_stage out) = k"
      by (auto simp: strategy_inv_def)
  next
    assume b: "out \<in> set outs \<and> ss_key (so_stage out) = k"
    then obtain i where i: "i < length outs" "out = outs ! i" by (metis in_set_conv_nth)
    then have "outcomes (ss_key (sp_stages plan ! i)) = Some out"
      using outs by (simp add: list_all2_conv_all_nth)
    with b inv show "outcomes k = Some out" by (auto simp: strategy_inv_def)
  qed
  have "so_skipped out \<longleftrightarrow> (\<exists>up\<in>set outs. ss_key (so_stage up) \<in> set (ss_depends_on (so_stage out))
            \<and> \<not> outcome_succeeded up)" if "out \<in> set outs" for out
  proof -
    have "so_skipped out \<longleftrightarrow> lost outcomes (so_stage out)"
      using inv look that by (auto simp: strategy_inv_def)
    then show ?thesis by (auto simp: lost_def look)
  qed
  moreover have "xc_status (xr_execution (sr_report rep)) = EXECUTION_SUCCEEDED
      \<longleftrightarrow> list_all outcome_succeeded outs"
    using project_report_status [OF proj] by simp
  ultimately show ?thesis using rep stages by simp
qed

section \<open>Witnesses\<close>

definition ex_stage_of :: "string \<Rightarrow> string list \<Rightarrow> strategy_stage" where
  "ex_stage_of k ds = \<lparr>ss_key = k, ss_kind = KIND_GENERATE, ss_role = None, ss_instruction = None,
     ss_model_policy = None, ss_depends_on = ds, ss_payload = []\<rparr>"

definition ex_spec :: strategy_spec where
  "ex_spec = \<lparr>sp_mode = MODE_CUSTOM, sp_template_id = None,
     sp_stages = [ex_stage_of ''b'' [''a''], ex_stage_of ''a'' []], sp_max_parallel = 4\<rparr>"

lemma ex_wave_keys: "wave_keys (sp_stages ex_spec) = Some [[''a''], [''b'']]"
  by (simp add: wave_keys_def ex_spec_def dependencies_def ex_stage_of_def waves_loop.simps
      ready_keys_def)

lemma ex_waves: "waves ex_spec = Some [[ex_stage_of ''a'' []], [ex_stage_of ''b'' [''a'']]]"
  by (simp add: waves_def ex_wave_keys) (simp add: ex_spec_def stage_by_key_def ex_stage_of_def)

lemma ex_spec_distinct: "distinct (map ss_key (sp_stages ex_spec))"
  by (simp add: ex_spec_def ex_stage_of_def)

theorem waves_are_topological_witness:
  "set (concat [[ex_stage_of ''a'' []], [ex_stage_of ''b'' [''a'']]]) = set (sp_stages ex_spec)"
  using waves_are_topological [OF ex_spec_distinct ex_waves] by blast

theorem waves_exist_iff_acyclic_witness:
  "acyclic {(d, ss_key t) |d t. t \<in> set (sp_stages ex_spec) \<and> d \<in> set (ss_depends_on t)}"
proof -
  have "\<forall>t\<in>set (sp_stages ex_spec). set (ss_depends_on t) \<subseteq> ss_key ` set (sp_stages ex_spec)"
    by (simp add: ex_spec_def ex_stage_of_def)
  from waves_exist_iff_acyclic [OF ex_spec_distinct this] ex_waves show ?thesis by blast
qed

text \<open>An executor whose router knows no model: the first stage is refused, the second skipped.\<close>

definition ex_empty_router :: "nat router" where
  "ex_empty_router = \<lparr>rt_providers = empty_registry, rt_models = empty_registry, rt_bindings = [],
     rt_default_weights = default_scoring_weights, rt_admin_fallback_chain = None,
     rt_signals = None, rt_text = ex_text\<rparr>"

definition ex_executor :: "nat strategy_executor" where
  "ex_executor = \<lparr>sx_router = ex_empty_router, sx_service = ex_service, sx_templates = Map.empty,
     sx_new_id = (\<lambda>w. (w, w)), sx_clock = (\<lambda>w. (w, 0)), sx_now = (\<lambda>w. 0),
     sx_show_routing_error = (\<lambda>e. ''e''), sx_show_uuid = (\<lambda>i. ''u'')\<rparr>"

definition ex_strategy_call :: strategy_call where
  "ex_strategy_call = \<lparr>sc_tenant_id = 3, sc_user_id = 2, sc_ask = ''x'', sc_request_hash = ''h'',
     sc_base_payload = [], sc_operation = GENERATE_TEXT, sc_required_capabilities = [],
     sc_timeout_ms = None, sc_idempotency_key = None, sc_conversation_id = None\<rparr>"

definition ex_calls :: "usage_state usage_calls" where
  "ex_calls = \<lparr>uc_reserve = usage_reserve 5, uc_settle = usage_settle, uc_fail = usage_fail\<rparr>"

lemma ex_refused:
  "route 0 ex_empty_router (stage_request ex_strategy_call (ex_stage_of k ds)) w
    = (w, Inl (NoEligibleCandidates [] None))"
  by (simp add: route_def effective_policy_def stage_request_def ex_stage_of_def AUTO_POLICY_def
      in_slice_def eligible_candidates_def candidate_models_def active_models_def
      ex_empty_router_def empty_registry_def min_hint_def Let_def)

lemma ex_strategy_runs:
  "\<exists>s' rep. execute_strategy (run_in_turn (execute_stage ex_calls ex_executor ex_strategy_call))
      ex_executor ex_spec ex_strategy_call ex_start = (s', Inr rep)
    \<and> sr_spec rep = ex_spec \<and> map so_skipped (sr_outcomes rep) = [True, False]"
proof -
  have custom: "sp_mode ex_spec = MODE_CUSTOM"
    "sp_stages ex_spec = [ex_stage_of ''b'' [''a''], ex_stage_of ''a'' []]"
    by (simp_all add: ex_spec_def)
  have stage: "execute_stage ex_calls ex_executor ex_strategy_call \<lparr>sj_stage = ex_stage_of ''a'' [],
      sj_upstream = []\<rparr> s = (set_world (ns_world (ss_node s)) s,
        Inr \<lparr>so_stage = ex_stage_of ''a'' [], so_report = None, so_routing_error = Some ''e'',
             so_skipped = False\<rparr>)" for s
  proof -
    have "sc_required_capabilities ex_strategy_call = []" by (simp add: ex_strategy_call_def)
    moreover have "sx_router ex_executor = ex_empty_router" "sx_now ex_executor w = 0"
      "sx_show_routing_error ex_executor e = ''e''" for w e by (simp_all add: ex_executor_def)
    ultimately show ?thesis by (simp add: execute_stage_def ex_refused Let_def)
  qed
  have key: "ss_key (ex_stage_of k ds) = k" "ss_depends_on (ex_stage_of k ds) = ds" for k ds
    by (simp_all add: ex_stage_of_def)
  have x: "sx_new_id ex_executor = (\<lambda>w. (w, w))" "sx_clock ex_executor = (\<lambda>w. (w, 0))"
    by (simp_all add: ex_executor_def)
  have c: "sc_request_hash ex_strategy_call = ''h''" "sc_idempotency_key ex_strategy_call = None"
    by (simp_all add: ex_strategy_call_def)
  show ?thesis
    by (simp add: execute_strategy_def resolve_strategy_def custom x ex_waves blocked_def key
        dict_keys_def stage record_outcomes_def outcome_succeeded_def project_report_def c
        bounded_str_def skipped_outcome_def Let_def)
qed

theorem strategy_skips_exactly_the_blocked_witness:
  "\<exists>s' rep. execute_strategy (run_in_turn (execute_stage ex_calls ex_executor ex_strategy_call))
      ex_executor ex_spec ex_strategy_call ex_start = (s', Inr rep)
    \<and> map so_stage (sr_outcomes rep) = sp_stages ex_spec
    \<and> map so_skipped (sr_outcomes rep) = [True, False]"
proof -
  obtain s' rep where run: "execute_strategy
      (run_in_turn (execute_stage ex_calls ex_executor ex_strategy_call))
      ex_executor ex_spec ex_strategy_call ex_start = (s', Inr rep)"
    and rep: "sr_spec rep = ex_spec" "map so_skipped (sr_outcomes rep) = [True, False]"
    using ex_strategy_runs by (elim exE conjE) (rule that)
  from strategy_skips_exactly_the_blocked [OF _ run] ex_spec_distinct rep run show ?thesis by simp
qed

end
