(* ===== verification/Text_Patterns.thy ===== *)
theory Text_Patterns
  imports Prelude "HOL-Library.Sublist"
begin

text \<open>
  The part of Python's text library the secret screens use, on strings of code points
  below 256: \<open>str.lower\<close>, the word and space classes of \<open>re\<close>, substring test, decimal
  printing of integers, \<open>repr\<close> of a JSON value, and a backtracking matcher for the regular
  expressions of \<open>core/learning/sanitizer.py\<close>.  A pattern is a list of pieces; its matches
  from a position are listed in the order Python's engine tries them, so the first one is
  the match \<open>re.search\<close> returns.
\<close>

section \<open>Characters\<close>

definition code_point :: "char \<Rightarrow> nat" where
  "code_point c = of_char c"

definition is_upper :: "char \<Rightarrow> bool" where
  "is_upper c \<longleftrightarrow> code_point c \<in> {65..90}"

definition is_lower :: "char \<Rightarrow> bool" where
  "is_lower c \<longleftrightarrow> code_point c \<in> {97..122}"

definition is_digit :: "char \<Rightarrow> bool" where
  "is_digit c \<longleftrightarrow> code_point c \<in> {48..57}"

definition is_alnum_ascii :: "char \<Rightarrow> bool" where
  "is_alnum_ascii c \<longleftrightarrow> is_upper c \<or> is_lower c \<or> is_digit c"

definition is_word :: "char \<Rightarrow> bool" where
  "is_word c \<longleftrightarrow> is_alnum_ascii c \<or> code_point c = 95
     \<or> code_point c \<in> {170, 178, 179, 181, 185, 186, 188, 189, 190}
     \<or> (192 \<le> code_point c \<and> code_point c \<noteq> 215 \<and> code_point c \<noteq> 247)"

definition is_space :: "char \<Rightarrow> bool" where
  "is_space c \<longleftrightarrow> code_point c \<in> {9..13} \<or> code_point c \<in> {28..32} \<or> code_point c = 133 \<or> code_point c = 160"

definition lower_char :: "char \<Rightarrow> char" where
  "lower_char c =
     (if is_upper c \<or> (192 \<le> code_point c \<and> code_point c \<le> 222 \<and> code_point c \<noteq> 215)
      then char_of (code_point c + 32) else c)"

definition lower :: "string \<Rightarrow> string" where
  "lower s = map lower_char s"

text \<open>Python's \<open>needle in hay\<close> on strings.\<close>

definition occurs_in :: "string \<Rightarrow> string \<Rightarrow> bool" where
  "occurs_in needle hay \<longleftrightarrow> (\<exists>t \<in> set (suffixes hay). prefix needle t)"

lemma occurs_in_iff: "occurs_in needle hay \<longleftrightarrow> (\<exists>u v. hay = u @ needle @ v)"
  by (force simp: occurs_in_def in_set_suffixes suffix_def prefix_def)

section \<open>Patterns\<close>

datatype piece =
    Boundary
  | Many "char \<Rightarrow> bool" nat "nat option"
  | Choice "piece list list"

type_synonym pattern = "piece list"

text \<open>A position is the character before it, if any, and the text after it.\<close>

type_synonym position = "char option \<times> string"

fun word_at :: "char option \<Rightarrow> bool" where
  "word_at None = False"
| "word_at (Some c) = is_word c"

definition at_boundary :: "position \<Rightarrow> bool" where
  "at_boundary pos = (word_at (fst pos)
     \<noteq> word_at (case snd pos of [] \<Rightarrow> None | c # _ \<Rightarrow> Some c))"

definition advance :: "nat \<Rightarrow> position \<Rightarrow> position" where
  "advance k pos = (if k = 0 then pos else (Some (snd pos ! (k - 1)), drop k (snd pos)))"

definition longest :: "(char \<Rightarrow> bool) \<Rightarrow> nat option \<Rightarrow> string \<Rightarrow> nat" where
  "longest p hi s =
     (let n = length (takeWhile p s) in case hi of None \<Rightarrow> n | Some h \<Rightarrow> min n h)"

text \<open>All ends of a match in the order of a greedy backtracking engine.\<close>

fun piece_ends :: "piece \<Rightarrow> position \<Rightarrow> position list"
  and choice_ends :: "piece list list \<Rightarrow> position \<Rightarrow> position list"
  and pattern_ends :: "piece list \<Rightarrow> position \<Rightarrow> position list" where
  "piece_ends Boundary pos = (if at_boundary pos then [pos] else [])"
| "piece_ends (Many p lo hi) pos =
     map (\<lambda>k. advance k pos) (rev [lo..<Suc (longest p hi (snd pos))])"
| "piece_ends (Choice alts) pos = choice_ends alts pos"
| "choice_ends [] pos = []"
| "choice_ends (r # alts) pos = pattern_ends r pos @ choice_ends alts pos"
| "pattern_ends [] pos = [pos]"
| "pattern_ends (x # r) pos = concat (map (pattern_ends r) (piece_ends x pos))"

text \<open>\<open>pattern.search(text)\<close>: the leftmost match, as its text.\<close>

fun search_from :: "pattern \<Rightarrow> char option \<Rightarrow> string \<Rightarrow> string option" where
  "search_from r prv s =
     (case pattern_ends r (prv, s) of
        e # _ \<Rightarrow> Some (take (length s - length (snd e)) s)
      | [] \<Rightarrow> (case s of [] \<Rightarrow> None | c # cs \<Rightarrow> search_from r (Some c) cs))"

declare search_from.simps [simp del]

definition search :: "pattern \<Rightarrow> string \<Rightarrow> string option" where
  "search r s = search_from r None s"

text \<open>Literals, plain and under \<open>re.IGNORECASE\<close>.\<close>

definition one_char :: "(char \<Rightarrow> bool) \<Rightarrow> piece" where
  "one_char p = Many p 1 (Some 1)"

definition lit :: "string \<Rightarrow> pattern" where
  "lit s = map (\<lambda>c. one_char (\<lambda>x. x = c)) s"

definition lit_ci :: "string \<Rightarrow> pattern" where
  "lit_ci s = map (\<lambda>c. one_char (\<lambda>x. lower_char x = lower_char c)) s"

definition any_of :: "string \<Rightarrow> char \<Rightarrow> bool" where
  "any_of cs c \<longleftrightarrow> c \<in> set cs"

section \<open>Where a match is found\<close>

fun last_of :: "char option \<Rightarrow> string \<Rightarrow> char option" where
  "last_of prv [] = prv"
| "last_of prv (c # cs) = last_of (Some c) cs"

lemma search_from_found:
  assumes "pattern_ends r (last_of prv u, v) \<noteq> []"
  shows "search_from r prv (u @ v) \<noteq> None"
  using assms
proof (induction u arbitrary: prv)
  case Nil
  then show ?case
    by (subst search_from.simps) (auto split: list.split)
next
  case (Cons c u)
  then show ?case
    by (subst search_from.simps) (auto split: list.split)
qed

lemma search_from_sound:
  "search_from r prv s = Some m \<Longrightarrow>
     \<exists>u v. s = u @ v \<and> pattern_ends r (last_of prv u, v) \<noteq> []"
proof (induction s arbitrary: prv)
  case Nil
  then show ?case
    by (subst (asm) search_from.simps) (auto split: list.splits)
next
  case (Cons c s)
  show ?case
  proof (cases "pattern_ends r (prv, c # s)")
    case Nil
    with Cons.prems have "search_from r (Some c) s = Some m"
      by (subst (asm) search_from.simps) simp
    with Cons.IH obtain u v where "s = u @ v" "pattern_ends r (last_of (Some c) u, v) \<noteq> []"
      by blast
    then have "c # s = (c # u) @ v" "pattern_ends r (last_of prv (c # u), v) \<noteq> []"
      by simp_all
    then show ?thesis by blast
  next
    case (Cons e es)
    then have "c # s = [] @ (c # s) \<and> pattern_ends r (last_of prv [], c # s) \<noteq> []" by simp
    then show ?thesis by blast
  qed
qed

lemma search_iff:
  "search r s \<noteq> None \<longleftrightarrow> (\<exists>u v. s = u @ v \<and> pattern_ends r (last_of None u, v) \<noteq> [])"
  using search_from_found [of r None] search_from_sound [of r None]
  by (fastforce simp: search_def)

lemma one_char_ends:
  "piece_ends (one_char p) (prv, s) =
     (case s of c # cs \<Rightarrow> (if p c then [(Some c, cs)] else []) | [] \<Rightarrow> [])"
  by (simp add: one_char_def longest_def advance_def split: list.split)

lemma piece_Many_simps: "piece_ends (Many p lo hi) (prv, s)
    = map (\<lambda>k. advance k (prv, s)) (rev [lo..<Suc (longest p hi s)])"
  by simp

lemma lit_ends:
  "pattern_ends (lit w @ r) (prv, w @ s) = pattern_ends r (last_of prv w, s)"
  by (induction w arbitrary: prv) (simp_all add: lit_def one_char_ends)

section \<open>Numbers and \<open>repr\<close>\<close>

definition digit_char :: "nat \<Rightarrow> char" where
  "digit_char d = char_of (if d < 10 then 48 + d else 87 + d)"

fun dec_text :: "nat \<Rightarrow> string" where
  "dec_text n = (if n < 10 then [digit_char n] else dec_text (n div 10) @ [digit_char (n mod 10)])"

declare dec_text.simps [simp del]

definition int_text :: "int \<Rightarrow> string" where
  "int_text i = (if i < 0 then ''-'' @ dec_text (nat (- i)) else dec_text (nat i))"

text \<open>\<open>repr\<close> of a string: quotes, backslashes and unprintable code points are escaped.\<close>

definition str_quote :: "string \<Rightarrow> char" where
  "str_quote s =
     (if CHR 0x27 \<in> set s \<and> CHR 0x22 \<notin> set s then CHR 0x22 else CHR 0x27)"

definition unprintable :: "char \<Rightarrow> bool" where
  "unprintable c \<longleftrightarrow> code_point c < 32 \<or> code_point c \<in> {127..160} \<or> code_point c = 173"

definition escape_char :: "char \<Rightarrow> char \<Rightarrow> string" where
  "escape_char q c =
     (if c = q \<or> c = CHR 0x5C then [CHR 0x5C, c]
      else if c = CHR 0x09 then CHR 0x5C # ''t''
      else if c = CHR 0x0A then CHR 0x5C # ''n''
      else if c = CHR 0x0D then CHR 0x5C # ''r''
      else if unprintable c
      then CHR 0x5C # ''x'' @ [digit_char (code_point c div 16), digit_char (code_point c mod 16)]
      else [c])"

definition str_repr :: "string \<Rightarrow> string" where
  "str_repr s =
     (let q = str_quote s in q # concat (map (escape_char q) s) @ [q])"

fun joined :: "string list \<Rightarrow> string" where
  "joined [] = []"
| "joined [x] = x"
| "joined (x # xs) = x @ '', '' @ joined xs"

text \<open>\<open>repr\<close> of a decoded JSON value; the text of a float is a parameter.\<close>

fun py_repr :: "(rat \<Rightarrow> string) \<Rightarrow> json \<Rightarrow> string" where
  "py_repr ft JNull = ''None''"
| "py_repr ft (JBool b) = (if b then ''True'' else ''False'')"
| "py_repr ft (JInt i) = int_text i"
| "py_repr ft (JFloat r) = ft r"
| "py_repr ft (JStr s) = str_repr s"
| "py_repr ft (JList vs) = ''['' @ joined (map (py_repr ft) vs) @ '']''"
| "py_repr ft (JObj ps) =
     ''{'' @ joined (map (\<lambda>p. str_repr (fst p) @ '': '' @ py_repr ft (snd p)) ps) @ ''}''"

end
