(* ===== verification/Learning_Sanitizer.thy ===== *)
theory Learning_Sanitizer
  imports Text_Patterns
begin

text \<open>
  \<open>core/learning/sanitizer.py\<close>: the deterministic scan of a sample's knowledge for
  credential material.  The ten value patterns are written out; the hash of the
  fingerprint and the text of a float are parameters.  Lemmas: which texts are scanned
  (every string and every key, at any depth), when a report is clean, and that a key of
  the documented shapes embedded anywhere is found.
\<close>

section \<open>Vocabulary\<close>

definition KEY_INDICATORS :: "string list" where
  "KEY_INDICATORS =
     [''password'', ''passwd'', ''secret'', ''api_key'', ''apikey'', ''access_token'',
      ''refresh_token'', ''private_key'', ''credential'', ''client_secret'']"

definition token_char :: "char \<Rightarrow> bool" where
  "token_char c \<longleftrightarrow> is_alnum_ascii c \<or> any_of ''-_'' c"

definition key_word :: "string \<Rightarrow> pattern" where
  "key_word w = lit_ci w @ [Many (any_of ''_-'') 0 (Some 1)] @ lit_ci ''key''"

definition VALUE_PATTERNS :: "(string \<times> pattern) list" where
  "VALUE_PATTERNS =
     [(''bearer_token'',
         [Boundary] @ lit_ci ''Bearer'' @
         [Many is_space 1 None, Many (\<lambda>c. token_char c \<or> any_of ''.~+/'' c) 16 None]),
      (''pem_private_key'',
         lit ''-----BEGIN '' @ [Many (\<lambda>c. is_upper c \<or> any_of '' '' c) 0 None]
         @ lit ''PRIVATE KEY-----''),
      (''aws_access_key_id'',
         [Boundary] @ lit ''AKIA'' @ [Many (\<lambda>c. is_digit c \<or> is_upper c) 16 (Some 16), Boundary]),
      (''jwt_like_token'',
         [Boundary] @ lit ''eyJ'' @ [Many token_char 10 None] @ lit ''.''
         @ [Many token_char 10 None] @ lit ''.''),
      (''anthropic_api_key'',
         [Boundary] @ lit ''sk-ant-'' @ [Many token_char 20 None]),
      (''groq_api_key'',
         [Boundary] @ lit ''gsk_'' @ [Many is_alnum_ascii 20 None, Boundary]),
      (''google_api_key'',
         [Boundary] @ lit ''AIza'' @ [Many token_char 30 None]),
      (''github_pat'',
         [Choice
           [[Boundary] @ lit ''ghp_'' @ [Many is_alnum_ascii 36 (Some 36), Boundary],
            [Boundary] @ lit ''github_pat_''
            @ [Many (\<lambda>c. is_alnum_ascii c \<or> any_of ''_'' c) 40 None, Boundary]]]),
      (''opaque_provider_token'',
         [Boundary,
          Choice [lit ''sk'', lit ''pk'', lit ''ghp'', lit ''gho'', lit ''ghs'', lit ''ghr'',
                  lit ''xoxb'', lit ''xoxp'', lit ''xoxa'', lit ''xoxr'', lit ''xapp'']]
         @ lit ''-'' @ [Many token_char 16 None, Boundary]),
      (''generic_api_key_assignment'',
         [Boundary, Choice [key_word ''api'', lit_ci ''apikey'', key_word ''secret''], Boundary,
          Many is_space 0 None, one_char (any_of '':=''), Many is_space 0 None,
          Many (any_of [CHR 0x27, CHR 0x22]) 0 (Some 1),
          Many (\<lambda>c. token_char c \<or> any_of ''./+'' c) 16 None])]"

definition SECRET_LABELS :: "string list" where
  "SECRET_LABELS = ''credential_key'' # map fst VALUE_PATTERNS"

record finding =
  fd_path :: string
  fd_label :: string
  fd_fingerprint :: string

record sanitization_report =
  rep_findings :: "finding list"
  rep_scanned_paths :: nat

definition clean :: "sanitization_report \<Rightarrow> bool" where
  "clean rep \<longleftrightarrow> rep_findings rep = []"

text \<open>The hash and the float printing of the library.\<close>

record text_library =
  tl_digest :: "string \<Rightarrow> string"
  tl_float :: "rat \<Rightarrow> string"

definition fingerprint :: "text_library \<Rightarrow> string \<Rightarrow> string" where
  "fingerprint lib t = take 12 (tl_digest lib t)"

section \<open>The scan\<close>

text \<open>
  \<open>_walk\<close> appends to \<open>out\<close>; here the leaves are returned in the same order.  A number,
  boolean or null leaf is scanned as its JSON text.
\<close>

definition leaf_path :: "string \<Rightarrow> string" where
  "leaf_path path = (if path = [] then ''$'' else path)"

definition key_path :: "string \<Rightarrow> string \<Rightarrow> string" where
  "key_path path k = (if path \<noteq> [] then path @ ''.'' @ k else k)"

fun walk :: "text_library \<Rightarrow> json \<Rightarrow> string \<Rightarrow> (string \<times> string) list"
  and walk_dict :: "text_library \<Rightarrow> (string \<times> json) list \<Rightarrow> string \<Rightarrow> (string \<times> string) list"
  and walk_list :: "text_library \<Rightarrow> json list \<Rightarrow> nat \<Rightarrow> string \<Rightarrow> (string \<times> string) list" where
  "walk lib (JObj ps) path = walk_dict lib ps path"
| "walk lib (JList vs) path = walk_list lib vs 0 path"
| "walk lib (JStr s) path = [(leaf_path path, s)]"
| "walk lib JNull path = [(leaf_path path, ''null'')]"
| "walk lib (JBool b) path = [(leaf_path path, if b then ''true'' else ''false'')]"
| "walk lib (JInt i) path = [(leaf_path path, int_text i)]"
| "walk lib (JFloat r) path = [(leaf_path path, tl_float lib r)]"
| "walk_dict lib [] path = []"
| "walk_dict lib ((k, v) # ps) path =
     (key_path path k @ ''#key'', k) # walk lib v (key_path path k) @ walk_dict lib ps path"
| "walk_list lib [] i path = []"
| "walk_list lib (v # vs) i path =
     walk lib v (path @ ''['' @ dec_text i @ '']'') @ walk_list lib vs (Suc i) path"

definition ends_with :: "string \<Rightarrow> string \<Rightarrow> bool" where
  "ends_with s e \<longleftrightarrow> suffix e s"

definition key_leaf :: "string \<Rightarrow> bool" where
  "key_leaf path \<longleftrightarrow> ends_with path ''#key'' \<or> path = ''$key''"

definition key_findings :: "text_library \<Rightarrow> string \<Rightarrow> string \<Rightarrow> finding list" where
  "key_findings lib path t =
     (if key_leaf path \<and> (\<exists>ind \<in> set KEY_INDICATORS. occurs_in ind (lower t))
      then [\<lparr>fd_path = path, fd_label = ''credential_key'', fd_fingerprint = fingerprint lib t\<rparr>]
      else [])"

definition value_findings :: "text_library \<Rightarrow> string \<Rightarrow> string \<Rightarrow> finding list" where
  "value_findings lib path t =
     concat (map (\<lambda>(label, pattern). case search pattern t of
         None \<Rightarrow> []
       | Some m \<Rightarrow> [\<lparr>fd_path = path, fd_label = label, fd_fingerprint = fingerprint lib m\<rparr>])
       VALUE_PATTERNS)"

definition knowledge_leaves ::
  "text_library \<Rightarrow> string \<Rightarrow> json_object \<Rightarrow> (string \<times> string) list" where
  "knowledge_leaves lib key value = (''$key'', key) # walk lib (JObj value) []"

definition sanitize_knowledge ::
  "text_library \<Rightarrow> string \<Rightarrow> json_object \<Rightarrow> sanitization_report" where
  "sanitize_knowledge lib key value =
     (let leaves = knowledge_leaves lib key value
      in \<lparr>rep_findings =
             concat (map (\<lambda>(path, t). key_findings lib path t @ value_findings lib path t) leaves),
          rep_scanned_paths = length leaves\<rparr>)"

section \<open>What is scanned\<close>

text \<open>Every string and every object key of a value, at any depth.\<close>

fun json_keys :: "json \<Rightarrow> string set" where
  "json_keys (JObj ps) = (\<Union>p \<in> set ps. insert (fst p) (json_keys (snd p)))"
| "json_keys (JList vs) = (\<Union>v \<in> set vs. json_keys v)"
| "json_keys _ = {}"

fun json_strings :: "json \<Rightarrow> string set" where
  "json_strings (JObj ps) = (\<Union>p \<in> set ps. json_strings (snd p))"
| "json_strings (JList vs) = (\<Union>v \<in> set vs. json_strings v)"
| "json_strings (JStr s) = {s}"
| "json_strings _ = {}"

lemma walk_keys:
  "k \<in> json_keys v \<Longrightarrow> \<exists>p. (p, k) \<in> set (walk lib v path) \<and> key_leaf p"
  "\<exists>q \<in> set ps. k \<in> insert (fst q) (json_keys (snd q)) \<Longrightarrow>
     \<exists>p. (p, k) \<in> set (walk_dict lib ps path) \<and> key_leaf p"
  "\<exists>v \<in> set vs. k \<in> json_keys v \<Longrightarrow>
     \<exists>p. (p, k) \<in> set (walk_list lib vs i path) \<and> key_leaf p"
proof (induction lib v path and lib ps path and lib vs i path
    rule: walk_walk_dict_walk_list.induct)
  case (9 lib k' v ps path)
  have "key_leaf (key_path path k' @ ''#key'')"
    by (simp add: key_leaf_def ends_with_def suffix_def)
  with 9 show ?case by auto
qed auto

lemma walk_strings:
  "t \<in> json_strings v \<Longrightarrow> t \<in> snd ` set (walk lib v path)"
  "\<exists>q \<in> set ps. t \<in> json_strings (snd q) \<Longrightarrow> t \<in> snd ` set (walk_dict lib ps path)"
  "\<exists>v \<in> set vs. t \<in> json_strings v \<Longrightarrow> t \<in> snd ` set (walk_list lib vs i path)"
  by (induction lib v path and lib ps path and lib vs i path
      rule: walk_walk_dict_walk_list.induct) auto

lemma clean_iff:
  "clean (sanitize_knowledge lib k v) \<longleftrightarrow>
     (\<forall>(p, t) \<in> set (knowledge_leaves lib k v).
        (key_leaf p \<longrightarrow> (\<forall>ind \<in> set KEY_INDICATORS. \<not> occurs_in ind (lower t)))
        \<and> (\<forall>(l, r) \<in> set VALUE_PATTERNS. search r t = None))"
proof -
  have "key_findings lib p t = [] \<longleftrightarrow>
      (key_leaf p \<longrightarrow> (\<forall>ind \<in> set KEY_INDICATORS. \<not> occurs_in ind (lower t)))" for p t
    by (auto simp: key_findings_def)
  moreover have "value_findings lib p t = [] \<longleftrightarrow>
      (\<forall>(l, r) \<in> set VALUE_PATTERNS. search r t = None)" for p t
    by (auto simp: value_findings_def split: option.splits)
  ultimately have "key_findings lib (fst x) (snd x) @ value_findings lib (fst x) (snd x) = [] \<longleftrightarrow>
      (case x of (p, t) \<Rightarrow> (key_leaf p \<longrightarrow> (\<forall>ind \<in> set KEY_INDICATORS. \<not> occurs_in ind (lower t)))
        \<and> (\<forall>(l, r) \<in> set VALUE_PATTERNS. search r t = None))" for x
    by (cases x) simp
  then show ?thesis
    by (simp add: clean_def sanitize_knowledge_def Let_def case_prod_unfold)
qed

lemma clean_keys:
  assumes "clean (sanitize_knowledge lib k v)" and "t \<in> insert k (json_keys (JObj v))"
    and "ind \<in> set KEY_INDICATORS"
  shows "\<not> occurs_in ind (lower t)"
proof -
  have "\<exists>p. (p, t) \<in> set (knowledge_leaves lib k v) \<and> key_leaf p"
    using assms(2) walk_keys(1) [of t "JObj v" lib "[]"]
    by (auto simp: knowledge_leaves_def key_leaf_def simp del: json_keys.simps)
  with assms(1,3) show ?thesis by (auto simp: clean_iff)
qed

lemma clean_texts:
  assumes "clean (sanitize_knowledge lib k v)"
    and "t \<in> insert k (json_keys (JObj v) \<union> json_strings (JObj v))"
    and "(l, r) \<in> set VALUE_PATTERNS"
  shows "search r t = None"
proof -
  have "\<exists>p. (p, t) \<in> set (knowledge_leaves lib k v)"
    using assms(2) walk_keys(1) [of t "JObj v" lib "[]"] walk_strings(1) [of t "JObj v" lib "[]"]
    by (auto simp: knowledge_leaves_def simp del: json_keys.simps json_strings.simps; blast)
  with assms(1,3) show ?thesis by (auto simp: clean_iff)
qed

section \<open>Tokens that are found\<close>

lemma longest_all:
  "list_all p w \<Longrightarrow> length w \<le> longest p None (w @ s)"
  by (induction w) (auto simp: longest_def)

lemma longest_bound:
  "list_all p w \<Longrightarrow> longest p (Some (length w)) (w @ s) = length w"
  using longest_all [of p w s] by (simp add: longest_def)

lemma advance_append:
  "w \<noteq> [] \<Longrightarrow> advance (length w) (prv, w @ s) = (Some (last w), s)"
  by (simp add: advance_def nth_append last_conv_nth)

lemma last_of_append: "w \<noteq> [] \<Longrightarrow> last_of prv w = Some (last w)"
  by (induction w arbitrary: prv) auto

lemma boundary_before:
  "\<not> word_at (last_of None u) \<Longrightarrow> is_word c \<Longrightarrow> at_boundary (last_of None u, c # s)"
  by (simp add: at_boundary_def)

lemma pattern_single: "pattern_ends [x] pos = piece_ends x pos"
proof -
  have "concat (map (pattern_ends []) xs) = xs" for xs by (induction xs) auto
  then show ?thesis by simp
qed

lemma exact_ends:
  "list_all p x \<Longrightarrow> x \<noteq> [] \<Longrightarrow>
     piece_ends (Many p (length x) (Some (length x))) (prv, x @ v) = [(Some (last x), v)]"
  by (simp add: longest_bound advance_append)

text \<open>A token with a literal prefix and an open-ended body.\<close>

lemma open_token_found:
  assumes u: "\<not> word_at (last_of None u)" and w: "w = c # cs" "is_word c"
    and x: "list_all p x" "lo \<le> length x"
  shows "search ([Boundary] @ lit w @ [Many p lo None]) (u @ w @ x @ v) \<noteq> None"
proof -
  have "lo \<le> longest p None (x @ v)"
    using x longest_all [OF x(1), of v] by simp
  then have "pattern_ends [Many p lo None] (last_of (last_of None u) w, x @ v) \<noteq> []"
    by (simp add: pattern_single)
  with u w(2) boundary_before [of u c "cs @ x @ v"]
  have "pattern_ends ([Boundary] @ lit w @ [Many p lo None]) (last_of None u, w @ x @ v) \<noteq> []"
    using lit_ends [of w "[Many p lo None]" "last_of None u" "x @ v"] w(1) by simp
  then show ?thesis by (subst search_iff) blast
qed

text \<open>A token with a body of fixed length and a word boundary after it.\<close>

lemma closed_token_found:
  assumes u: "\<not> word_at (last_of None u)" and w: "w = c # cs" "is_word c"
    and x: "list_all p x" "x \<noteq> []" "is_word (last x)"
    and v: "case v of [] \<Rightarrow> True | d # _ \<Rightarrow> \<not> is_word d"
  shows "search ([Boundary] @ lit w @ [Many p (length x) (Some (length x)), Boundary])
           (u @ w @ x @ v) \<noteq> None"
proof -
  have "at_boundary (Some (last x), v)"
    using x(3) v by (auto simp: at_boundary_def split: list.splits)
  then have "pattern_ends [Many p (length x) (Some (length x)), Boundary]
      (last_of (last_of None u) w, x @ v) \<noteq> []"
    using exact_ends [OF x(1,2)] by (simp del: piece_ends.simps(2))
  with u w(2) boundary_before [of u c "cs @ x @ v"]
  have "pattern_ends ([Boundary] @ lit w @ [Many p (length x) (Some (length x)), Boundary])
      (last_of None u, w @ x @ v) \<noteq> []"
    using lit_ends [of w "[Many p (length x) (Some (length x)), Boundary]" "last_of None u" "x @ v"]
      w(1) by (simp del: piece_ends.simps(2))
  then show ?thesis by (subst search_iff) blast
qed

text \<open>
  A credential of a provider: the documented prefix, at the start of a word, with a body of
  the documented alphabet and length.
\<close>

definition holds_token ::
  "string \<Rightarrow> (char \<Rightarrow> bool) \<Rightarrow> nat \<Rightarrow> bool \<Rightarrow> string \<Rightarrow> bool" where
  "holds_token w p n exact t \<longleftrightarrow>
     (\<exists>u x v. t = u @ w @ x @ v \<and> \<not> word_at (last_of None u) \<and> list_all p x
        \<and> (if exact then length x = n \<and> (case v of [] \<Rightarrow> True | d # _ \<Rightarrow> \<not> is_word d)
           else n \<le> length x))"

lemma open_token_not_clean:
  assumes "search ([Boundary] @ lit w @ [Many p lo None]) t = None"
    and "w = c # cs" "is_word c"
  shows "\<not> holds_token w p lo False t"
proof
  assume "holds_token w p lo False t"
  then obtain u x v where t: "t = u @ w @ x @ v" "\<not> word_at (last_of None u)"
      and x: "list_all p x" "lo \<le> length x"
    by (auto simp: holds_token_def)
  from open_token_found [OF t(2) assms(2,3) x, of v] assms(1) t(1) show False by simp
qed

lemma closed_token_not_clean:
  assumes "search ([Boundary] @ lit w @ [Many p n (Some n), Boundary]) t = None"
    and "w = c # cs" "is_word c" and "0 < n" and "\<And>c. p c \<Longrightarrow> is_word c"
  shows "\<not> holds_token w p n True t"
proof
  assume "holds_token w p n True t"
  then obtain u x v where t: "t = u @ w @ x @ v" "\<not> word_at (last_of None u)"
      and x: "list_all p x" "length x = n" and v: "case v of [] \<Rightarrow> True | d # _ \<Rightarrow> \<not> is_word d"
    by (auto simp: holds_token_def)
  from x assms(4) have ne: "x \<noteq> []" by auto
  with x have "is_word (last x)" using assms(5) by (simp add: list_all_iff)
  from closed_token_found [OF t(2) assms(2,3) x(1) ne this v] t(1) x(2) assms(1)
  show False by simp
qed

lemma value_pattern_members:
  "(''aws_access_key_id'',
     [Boundary] @ lit ''AKIA'' @ [Many (\<lambda>c. is_digit c \<or> is_upper c) 16 (Some 16), Boundary])
   \<in> set VALUE_PATTERNS"
  "(''anthropic_api_key'', [Boundary] @ lit ''sk-ant-'' @ [Many token_char 20 None])
   \<in> set VALUE_PATTERNS"
  "(''google_api_key'', [Boundary] @ lit ''AIza'' @ [Many token_char 30 None])
   \<in> set VALUE_PATTERNS"
  by (simp_all add: VALUE_PATTERNS_def)

lemma prefix_starts:
  "is_word (CHR ''A'')" "is_word (CHR ''s'')"
  by (simp_all add: is_word_def is_alnum_ascii_def is_upper_def is_lower_def code_point_def)

text \<open>
  C25. A clean report means what it promises: in no string and no object key of the sample's
  knowledge, however deeply nested, is there a key name with a credential word (in any
  letter case), nor an AWS access key id, an Anthropic key or a Google key of the
  documented shape standing on its own inside a longer text.
\<close>

theorem clean_scan_leaves_no_credential:
  assumes "clean (sanitize_knowledge lib key value)"
  shows "(\<forall>k \<in> insert key (json_keys (JObj value)). \<forall>ind \<in> set KEY_INDICATORS.
            \<not> occurs_in ind (lower k))
    \<and> (\<forall>t \<in> insert key (json_keys (JObj value) \<union> json_strings (JObj value)).
         \<not> holds_token ''AKIA'' (\<lambda>c. is_digit c \<or> is_upper c) 16 True t
         \<and> \<not> holds_token ''sk-ant-'' token_char 20 False t
         \<and> \<not> holds_token ''AIza'' token_char 30 False t)"
proof (intro conjI ballI)
  fix t assume t: "t \<in> insert key (json_keys (JObj value) \<union> json_strings (JObj value))"
  note none = clean_texts [OF assms t]
  show "\<not> holds_token ''AKIA'' (\<lambda>c. is_digit c \<or> is_upper c) 16 True t"
    by (rule closed_token_not_clean [OF none [OF value_pattern_members(1)] refl prefix_starts(1)])
      (auto simp: is_word_def is_alnum_ascii_def)
  show "\<not> holds_token ''sk-ant-'' token_char 20 False t"
    by (rule open_token_not_clean [OF none [OF value_pattern_members(2)] refl prefix_starts(2)])
  show "\<not> holds_token ''AIza'' token_char 30 False t"
    by (rule open_token_not_clean [OF none [OF value_pattern_members(3)] refl prefix_starts(1)])
qed (rule clean_keys [OF assms])

definition ex_text_library :: text_library where
  "ex_text_library = \<lparr>tl_digest = (\<lambda>s. s), tl_float = (\<lambda>_. ''1.0'')\<rparr>"

lemma ex_clean_scan:
  "clean (sanitize_knowledge ex_text_library ''k'' [(''a'', JList [JStr ''b''])])"
  by code_simp

theorem clean_scan_leaves_no_credential_witness:
  "clean (sanitize_knowledge ex_text_library ''k'' [(''a'', JList [JStr ''b''])])
   \<and> \<not> holds_token ''AIza'' token_char 30 False ''b''"
  using ex_clean_scan clean_scan_leaves_no_credential [OF ex_clean_scan] by simp

end
