(* ===== verification/Memory_Store.thy ===== *)
theory Memory_Store
  imports Learning_Sanitizer
begin

text \<open>
  The in-memory conversation and memory stores of \<open>core/memory/memory.py\<close> over the
  contracts \<open>core/contracts/memory.py\<close> and \<open>core/contracts/conversation.py\<close>.  The two
  dictionaries of the memory store are kept as they are: items by \<open>(tenant, id)\<close> in
  insertion order, and the logical index.  Lemmas: under fresh ids the two agree
  (\<open>mem_inv\<close>), the store refines a map from logical keys to values (\<open>mem_abs\<close>), what a query
  returns, and that history is append-only.
\<close>

section \<open>Contracts\<close>

datatype memory_scope =
  SCOPE_GLOBAL | SCOPE_TENANT | SCOPE_WORKSPACE | SCOPE_PROJECT | SCOPE_CONVERSATION | SCOPE_ROLE

datatype memory_sensitivity = SENSITIVITY_LOW | SENSITIVITY_MEDIUM | SENSITIVITY_HIGH

definition SCOPE_PRIORITY :: "memory_scope list" where
  "SCOPE_PRIORITY =
     [SCOPE_CONVERSATION, SCOPE_PROJECT, SCOPE_WORKSPACE, SCOPE_TENANT, SCOPE_GLOBAL]"

record memory_item =
  mi_id :: uuid
  mi_tenant_id :: uuid
  mi_user_id :: "uuid option"
  mi_scope :: memory_scope
  mi_key :: string
  mi_value :: json
  mi_source :: string
  mi_confidence :: rat
  mi_evidence_count :: int
  mi_last_seen :: timestamp
  mi_expires_at :: "timestamp option"
  mi_sensitivity :: memory_sensitivity

datatype conversation_status = CONVERSATION_ACTIVE | CONVERSATION_ARCHIVED

datatype message_role = ROLE_USER | ROLE_ASSISTANT | ROLE_SYSTEM | ROLE_TOOL

record conversation =
  cv_id :: uuid
  cv_tenant_id :: uuid
  cv_user_id :: uuid
  cv_project_id :: "uuid option"
  cv_title :: string
  cv_status :: conversation_status

record message =
  mg_id :: uuid
  mg_conversation_id :: uuid
  mg_role :: message_role
  mg_content :: string
  mg_attachments :: "json_object list"
  mg_created_at :: timestamp

text \<open>
  \<open>DuplicateConversation\<close> is the \<open>ValueError\<close> of \<open>create_conversation\<close>;
  \<open>MissingKey\<close> the \<open>KeyError\<close> an index pointing nowhere would raise.
\<close>

datatype memory_error =
    ConversationNotFound uuid
  | MemoryItemNotFound uuid
  | EmptyMessage
  | SecretLikeMemoryRejected string
  | DuplicateConversation uuid
  | MissingKey

section \<open>The secret screen\<close>

definition screen_secret_like :: "text_library \<Rightarrow> string \<Rightarrow> json \<Rightarrow> memory_error option" where
  "screen_secret_like lib key value =
     (case find (\<lambda>ind. occurs_in ind (lower key)) KEY_INDICATORS of
        Some ind \<Rightarrow> Some (SecretLikeMemoryRejected
          (''key contains '' @ [CHR 0x27] @ ind @ [CHR 0x27]))
      | None \<Rightarrow>
          (let t = (case value of JStr s \<Rightarrow> s | _ \<Rightarrow> py_repr (tl_float lib) value)
           in case find (\<lambda>(label, r). search r t \<noteq> None) VALUE_PATTERNS of
                Some (label, r) \<Rightarrow> Some (SecretLikeMemoryRejected (''value matches '' @ label))
              | None \<Rightarrow> None))"

section \<open>The memory store\<close>

type_synonym logical_key = "uuid \<times> uuid option \<times> memory_scope \<times> string"

definition logical_of :: "memory_item \<Rightarrow> logical_key" where
  "logical_of m = (mi_tenant_id m, mi_user_id m, mi_scope m, mi_key m)"

record memory_store =
  ms_items :: "((uuid \<times> uuid) \<times> memory_item) list"
  ms_logical :: "logical_key \<rightharpoonup> uuid"

definition new_memory_store :: memory_store where
  "new_memory_store = \<lparr>ms_items = [], ms_logical = Map.empty\<rparr>"

definition merge_item :: "memory_item \<Rightarrow> memory_item \<Rightarrow> memory_item" where
  "merge_item old item =
     old\<lparr>mi_value := mi_value item, mi_source := mi_source item,
         mi_confidence := mi_confidence item, mi_evidence_count := mi_evidence_count old + 1,
         mi_last_seen := mi_last_seen item, mi_expires_at := mi_expires_at item,
         mi_sensitivity := mi_sensitivity item\<rparr>"

definition memory_upsert ::
  "text_library \<Rightarrow> memory_store \<Rightarrow> memory_item \<Rightarrow> memory_error + (memory_item \<times> memory_store)" where
  "memory_upsert lib s item =
     (case screen_secret_like lib (mi_key item) (mi_value item) of
        Some e \<Rightarrow> Inl e
      | None \<Rightarrow>
         (case ms_logical s (logical_of item) of
            None \<Rightarrow>
              Inr (item, s\<lparr>ms_items := AList.update (mi_tenant_id item, mi_id item) item (ms_items s),
                           ms_logical := (ms_logical s)(logical_of item \<mapsto> mi_id item)\<rparr>)
          | Some i \<Rightarrow>
             (case map_of (ms_items s) (mi_tenant_id item, i) of
                None \<Rightarrow> Inl MissingKey
              | Some old \<Rightarrow>
                  let m = merge_item old item
                  in Inr (m, s\<lparr>ms_items := AList.update (mi_tenant_id item, i) m (ms_items s)\<rparr>))))"

definition memory_get :: "memory_store \<Rightarrow> uuid \<Rightarrow> uuid \<Rightarrow> memory_error + memory_item" where
  "memory_get s tenant i =
     (case map_of (ms_items s) (tenant, i) of
        None \<Rightarrow> Inl (MemoryItemNotFound i) | Some m \<Rightarrow> Inr m)"

record memory_filter =
  mf_user_id :: "uuid option"
  mf_scope :: "memory_scope option"
  mf_key :: "string option"
  mf_min_confidence :: rat
  mf_include_expired :: bool

definition memory_matches ::
  "timestamp \<Rightarrow> uuid \<Rightarrow> memory_filter \<Rightarrow> (uuid \<times> uuid) \<times> memory_item \<Rightarrow> bool" where
  "memory_matches now tenant f p \<longleftrightarrow>
     (let m = snd p in
       fst (fst p) = tenant
       \<and> (mi_user_id m = None \<or> mi_user_id m = mf_user_id f)
       \<and> (mf_scope f = None \<or> Some (mi_scope m) = mf_scope f)
       \<and> (mf_key f = None \<or> Some (mi_key m) = mf_key f)
       \<and> mf_min_confidence f \<le> mi_confidence m
       \<and> (mf_include_expired f \<or> (case mi_expires_at m of None \<Rightarrow> True | Some e \<Rightarrow> now < e)))"

definition memory_query ::
  "timestamp \<Rightarrow> memory_store \<Rightarrow> uuid \<Rightarrow> memory_filter \<Rightarrow> memory_item list" where
  "memory_query now s tenant f =
     sort_key (\<lambda>m. - mi_last_seen m)
       (map snd (filter (memory_matches now tenant f) (ms_items s)))"

definition memory_delete ::
  "memory_store \<Rightarrow> uuid \<Rightarrow> uuid \<Rightarrow> memory_error + memory_store" where
  "memory_delete s tenant i =
     (case map_of (ms_items s) (tenant, i) of
        None \<Rightarrow> Inl (MemoryItemNotFound i)
      | Some m \<Rightarrow> Inr (s\<lparr>ms_items := AList.delete (tenant, i) (ms_items s),
                         ms_logical := (ms_logical s)(logical_of m := None)\<rparr>))"

section \<open>The conversation store\<close>

record conversation_store =
  cs_conversations :: "((uuid \<times> uuid) \<times> conversation) list"
  cs_messages :: "(uuid \<times> uuid) \<rightharpoonup> message list"
  cs_insert_seq :: int
  cs_creation_order :: "(uuid \<times> uuid) \<rightharpoonup> int"

definition new_conversation_store :: conversation_store where
  "new_conversation_store = \<lparr>cs_conversations = [], cs_messages = Map.empty,
     cs_insert_seq = 0, cs_creation_order = Map.empty\<rparr>"

definition create_conversation ::
  "conversation_store \<Rightarrow> conversation \<Rightarrow> memory_error + (conversation \<times> conversation_store)" where
  "create_conversation s c =
     (let k = (cv_tenant_id c, cv_id c)
      in if map_of (cs_conversations s) k \<noteq> None then Inl (DuplicateConversation (cv_id c))
         else let seq = cs_insert_seq s + 1
              in Inr (c, s\<lparr>cs_conversations := AList.update k c (cs_conversations s),
                           cs_messages := (cs_messages s)(k \<mapsto> []),
                           cs_insert_seq := seq,
                           cs_creation_order := (cs_creation_order s)(k \<mapsto> seq)\<rparr>))"

definition get_conversation ::
  "conversation_store \<Rightarrow> uuid \<Rightarrow> uuid \<Rightarrow> memory_error + conversation" where
  "get_conversation s tenant i =
     (case map_of (cs_conversations s) (tenant, i) of
        None \<Rightarrow> Inl (ConversationNotFound i) | Some c \<Rightarrow> Inr c)"

definition set_status ::
  "conversation_store \<Rightarrow> uuid \<Rightarrow> uuid \<Rightarrow> conversation_status
     \<Rightarrow> memory_error + (conversation \<times> conversation_store)" where
  "set_status s tenant i status =
     (case map_of (cs_conversations s) (tenant, i) of
        None \<Rightarrow> Inl (ConversationNotFound i)
      | Some c \<Rightarrow>
          let c' = c\<lparr>cv_status := status\<rparr>
          in Inr (c', s\<lparr>cs_conversations := AList.update (tenant, i) c' (cs_conversations s)\<rparr>))"

text \<open>The creation order is read by key, so a missing entry is the \<open>KeyError\<close>.\<close>

definition list_conversations ::
  "conversation_store \<Rightarrow> uuid \<Rightarrow> uuid \<Rightarrow> memory_error + conversation list" where
  "list_conversations s tenant user =
     (let matches = filter (\<lambda>(k, c). fst k = tenant \<and> cv_user_id c = user) (cs_conversations s)
      in if list_all (\<lambda>(k, _). cs_creation_order s k \<noteq> None) matches
         then Inr (map snd (sort_key (\<lambda>(k, _). - the (cs_creation_order s k)) matches))
         else Inl MissingKey)"

definition append_message ::
  "conversation_store \<Rightarrow> uuid \<Rightarrow> message \<Rightarrow> memory_error + (message \<times> conversation_store)" where
  "append_message s tenant m =
     (let k = (tenant, mg_conversation_id m)
      in if map_of (cs_conversations s) k = None then Inl (ConversationNotFound (mg_conversation_id m))
         else if mg_content m = [] \<and> mg_attachments m = [] then Inl EmptyMessage
         else case cs_messages s k of
                None \<Rightarrow> Inl MissingKey
              | Some ms \<Rightarrow> Inr (m, s\<lparr>cs_messages := (cs_messages s)(k \<mapsto> ms @ [m])\<rparr>))"

definition get_history ::
  "conversation_store \<Rightarrow> uuid \<Rightarrow> uuid \<Rightarrow> int option \<Rightarrow> memory_error + message list" where
  "get_history s tenant i limit =
     (let k = (tenant, i)
      in if map_of (cs_conversations s) k = None then Inl (ConversationNotFound i)
         else case cs_messages s k of
                None \<Rightarrow> Inl MissingKey
              | Some ms \<Rightarrow>
                  (case limit of
                     None \<Rightarrow> Inr ms
                   | Some n \<Rightarrow>
                       Inr (if 0 \<le> n then drop (length ms - min (nat n) (length ms)) ms else ms)))"

section \<open>The memory store refines a keyed map\<close>

definition mem_abs :: "memory_store \<Rightarrow> logical_key \<rightharpoonup> memory_item" where
  "mem_abs s l = (case ms_logical s l of None \<Rightarrow> None | Some i \<Rightarrow> map_of (ms_items s) (fst l, i))"

definition mem_inv :: "text_library \<Rightarrow> memory_store \<Rightarrow> bool" where
  "mem_inv lib s \<longleftrightarrow>
     distinct (map fst (ms_items s))
     \<and> (\<forall>k m. map_of (ms_items s) k = Some m \<longrightarrow>
           k = (mi_tenant_id m, mi_id m) \<and> ms_logical s (logical_of m) = Some (mi_id m)
           \<and> screen_secret_like lib (mi_key m) (mi_value m) = None)
     \<and> (\<forall>l i. ms_logical s l = Some i \<longrightarrow>
           (\<exists>m. map_of (ms_items s) (fst l, i) = Some m \<and> logical_of m = l))"

text \<open>Identifiers are drawn by \<open>uuid4\<close>: an insertion uses an id not stored before.\<close>

definition fresh_item :: "memory_store \<Rightarrow> memory_item \<Rightarrow> bool" where
  "fresh_item s item \<longleftrightarrow> map_of (ms_items s) (mi_tenant_id item, mi_id item) = None"

inductive mem_step :: "text_library \<Rightarrow> memory_store \<Rightarrow> memory_store \<Rightarrow> bool"
  for lib where
  upsert: "mem_step lib s s'"
    if "fresh_item s item" and "memory_upsert lib s item = Inr (r, s')"
| delete: "mem_step lib s s'" if "memory_delete s tenant i = Inr s'"

abbreviation mem_reachable :: "text_library \<Rightarrow> memory_store \<Rightarrow> bool" where
  "mem_reachable lib \<equiv> (mem_step lib)\<^sup>*\<^sup>* new_memory_store"

lemma logical_fst [simp]: "fst (logical_of m) = mi_tenant_id m"
  by (simp add: logical_of_def)

lemma merge_item_sel [simp]:
  "mi_id (merge_item m n) = mi_id m" "logical_of (merge_item m n) = logical_of m"
  "mi_tenant_id (merge_item m n) = mi_tenant_id m" "mi_key (merge_item m n) = mi_key m"
  "mi_value (merge_item m n) = mi_value n" "mi_source (merge_item m n) = mi_source n"
  "mi_confidence (merge_item m n) = mi_confidence n" "mi_user_id (merge_item m n) = mi_user_id m"
  "mi_scope (merge_item m n) = mi_scope m"
  "mi_evidence_count (merge_item m n) = mi_evidence_count m + 1"
  "mi_expires_at (merge_item m n) = mi_expires_at n"
  by (simp_all add: merge_item_def logical_of_def)

lemma logical_of_eq_iff:
  "logical_of m = logical_of n \<longleftrightarrow> mi_tenant_id m = mi_tenant_id n
     \<and> mi_user_id m = mi_user_id n \<and> mi_scope m = mi_scope n \<and> mi_key m = mi_key n"
  by (simp add: logical_of_def)

lemma mem_inv_new: "mem_inv lib new_memory_store"
  by (simp add: mem_inv_def new_memory_store_def)

lemma mem_invD:
  assumes "mem_inv lib s"
  shows "map_of (ms_items s) k = Some m \<Longrightarrow> k = (mi_tenant_id m, mi_id m)"
    and "map_of (ms_items s) k = Some m \<Longrightarrow> ms_logical s (logical_of m) = Some (mi_id m)"
    and "map_of (ms_items s) k = Some m \<Longrightarrow>
           screen_secret_like lib (mi_key m) (mi_value m) = None"
    and "ms_logical s l = Some i \<Longrightarrow>
           \<exists>m. map_of (ms_items s) (fst l, i) = Some m \<and> logical_of m = l"
    and "distinct (map fst (ms_items s))"
  using assms unfolding mem_inv_def by blast+

lemma mem_abs_Some_iff:
  assumes "mem_inv lib s"
  shows "mem_abs s l = Some m \<longleftrightarrow>
    map_of (ms_items s) (mi_tenant_id m, mi_id m) = Some m \<and> logical_of m = l"
proof
  assume "mem_abs s l = Some m"
  then obtain i where i: "ms_logical s l = Some i" "map_of (ms_items s) (fst l, i) = Some m"
    by (auto simp: mem_abs_def split: option.splits)
  with mem_invD(4) [OF assms i(1)] have "logical_of m = l" by simp
  moreover from mem_invD(1) [OF assms i(2)] have "(fst l, i) = (mi_tenant_id m, mi_id m)" .
  ultimately show "map_of (ms_items s) (mi_tenant_id m, mi_id m) = Some m \<and> logical_of m = l"
    using i(2) by simp
next
  assume m: "map_of (ms_items s) (mi_tenant_id m, mi_id m) = Some m \<and> logical_of m = l"
  with mem_invD(2) [OF assms, of _ m] have "ms_logical s l = Some (mi_id m)" by blast
  moreover from m have "fst l = mi_tenant_id m" by auto
  ultimately show "mem_abs s l = Some m" using m by (simp add: mem_abs_def)
qed

lemma ran_mem_abs:
  assumes "mem_inv lib s"
  shows "ran (mem_abs s) = snd ` set (ms_items s)"
proof -
  have "m \<in> snd ` set (ms_items s) \<longleftrightarrow> (\<exists>k. map_of (ms_items s) k = Some m)" for m
    by (rule dict_values_iff) (rule mem_invD(5) [OF assms])
  moreover have "m \<in> ran (mem_abs s) \<longleftrightarrow> (\<exists>k. map_of (ms_items s) k = Some m)" for m
    unfolding ran_def mem_abs_Some_iff [OF assms] using mem_invD(1) [OF assms, of _ m] by blast
  ultimately show ?thesis by blast
qed

lemma memory_upsert_cases:
  assumes "memory_upsert lib s item = Inr (r, s')"
  obtains (insert) "ms_logical s (logical_of item) = None" "r = item"
      "ms_items s' = AList.update (mi_tenant_id item, mi_id item) item (ms_items s)"
      "ms_logical s' = (ms_logical s)(logical_of item \<mapsto> mi_id item)"
      "screen_secret_like lib (mi_key item) (mi_value item) = None"
  | (merge) i old where "ms_logical s (logical_of item) = Some i"
      "map_of (ms_items s) (mi_tenant_id item, i) = Some old" "r = merge_item old item"
      "ms_items s' = AList.update (mi_tenant_id item, i) r (ms_items s)"
      "ms_logical s' = ms_logical s"
      "screen_secret_like lib (mi_key item) (mi_value item) = None"
  using assms by (auto simp: memory_upsert_def Let_def split: option.splits)

lemma memory_upsert_inv:
  assumes inv: "mem_inv lib s" and fresh: "fresh_item s item"
    and up: "memory_upsert lib s item = Inr (r, s')"
  shows "mem_inv lib s'"
    and "mem_abs s' = (mem_abs s)(logical_of item \<mapsto> r)"
    and "r = (case mem_abs s (logical_of item) of
                None \<Rightarrow> item | Some old \<Rightarrow> merge_item old item)"
proof -
  from up have "mem_inv lib s' \<and> mem_abs s' = (mem_abs s)(logical_of item \<mapsto> r)
     \<and> r = (case mem_abs s (logical_of item) of None \<Rightarrow> item | Some old \<Rightarrow> merge_item old item)"
  proof (cases rule: memory_upsert_cases)
    case insert
    have ne: "logical_of m \<noteq> logical_of item" if "map_of (ms_items s) k = Some m" for k m
      using mem_invD(2) [OF inv that] insert(1) by auto
    have inv': "mem_inv lib s'"
      unfolding mem_inv_def insert(3,4)
    proof (intro conjI allI impI)
      show "distinct (map fst (AList.update (mi_tenant_id item, mi_id item) item (ms_items s)))"
        using mem_invD(5) [OF inv] by simp
    next
      fix l i assume "((ms_logical s)(logical_of item \<mapsto> mi_id item)) l = Some i"
      then show "\<exists>m. map_of (AList.update (mi_tenant_id item, mi_id item) item (ms_items s))
          (fst l, i) = Some m \<and> logical_of m = l"
        using fresh mem_invD(4) [OF inv, of l i] by (auto simp: fresh_item_def split: if_splits)
    next
      fix k m assume m: "map_of (AList.update (mi_tenant_id item, mi_id item) item (ms_items s)) k
          = Some m"
      then show "k = (mi_tenant_id m, mi_id m)"
        using mem_invD(1) [OF inv] by (auto split: if_splits)
      show "((ms_logical s)(logical_of item \<mapsto> mi_id item)) (logical_of m) = Some (mi_id m)"
        using m mem_invD(2) [OF inv, of k m] ne [of k m] by (auto split: if_splits)
      show "screen_secret_like lib (mi_key m) (mi_value m) = None"
        using m mem_invD(3) [OF inv, of k m] insert(5) by (auto split: if_splits)
    qed
    have "mem_abs s' l = ((mem_abs s)(logical_of item \<mapsto> r)) l" for l
    proof (cases "ms_logical s l")
      case None
      with insert show ?thesis by (auto simp: mem_abs_def)
    next
      case (Some i)
      with insert fresh mem_invD(4) [OF inv Some] show ?thesis
        by (auto simp: mem_abs_def fresh_item_def)
    qed
    moreover have "mem_abs s (logical_of item) = None" using insert(1) by (simp add: mem_abs_def)
    ultimately show ?thesis using inv' insert(2) by (auto simp: fun_eq_iff)
  next
    case (merge i old)
    have old: "mi_tenant_id old = mi_tenant_id item" "mi_id old = i"
        "logical_of old = logical_of item"
      using mem_invD(1) [OF inv merge(2)] mem_invD(4) [OF inv merge(1)] merge(2) by auto
    have key: "mi_key old = mi_key item" using old(3) by (simp add: logical_of_def)
    have inv': "mem_inv lib s'"
      unfolding mem_inv_def merge(4,5)
    proof (intro conjI allI impI)
      show "distinct (map fst (AList.update (mi_tenant_id item, i) r (ms_items s)))"
        using mem_invD(5) [OF inv] by simp
    next
      fix l j assume l: "ms_logical s l = Some j"
      show "\<exists>m. map_of (AList.update (mi_tenant_id item, i) r (ms_items s)) (fst l, j) = Some m
          \<and> logical_of m = l"
        using mem_invD(4) [OF inv l] merge(2,3) by auto
    next
      fix k m assume m: "map_of (AList.update (mi_tenant_id item, i) r (ms_items s)) k = Some m"
      then show "k = (mi_tenant_id m, mi_id m)"
        using mem_invD(1) [OF inv] old merge(3) by (auto split: if_splits)
      show "ms_logical s (logical_of m) = Some (mi_id m)"
        using m mem_invD(2) [OF inv, of k m] merge(1,3) old by (auto split: if_splits)
      show "screen_secret_like lib (mi_key m) (mi_value m) = None"
        using m mem_invD(3) [OF inv, of k m] merge(3,6) key by (auto split: if_splits)
    qed
    have "mem_abs s (logical_of item) = Some old"
      using merge(1,2) by (simp add: mem_abs_def)
    moreover have "mem_abs s' l = ((mem_abs s)(logical_of item \<mapsto> r)) l" for l
    proof (cases "l = logical_of item")
      case True
      then show ?thesis using merge by (simp add: mem_abs_def)
    next
      case False
      have "(fst l, j) \<noteq> (mi_tenant_id item, i)" if "ms_logical s l = Some j" for j
        using mem_invD(4) [OF inv that] merge(2) old(3) False by auto
      with False merge show ?thesis by (auto simp: mem_abs_def split: option.splits)
    qed
    ultimately show ?thesis using inv' merge(3) by (auto simp: fun_eq_iff)
  qed
  then show "mem_inv lib s'" "mem_abs s' = (mem_abs s)(logical_of item \<mapsto> r)"
    "r = (case mem_abs s (logical_of item) of None \<Rightarrow> item | Some old \<Rightarrow> merge_item old item)"
    by blast+
qed

lemma memory_delete_Inr:
  "memory_delete s t i = Inr s' \<longleftrightarrow>
     (\<exists>m. map_of (ms_items s) (t, i) = Some m
        \<and> s' = s\<lparr>ms_items := AList.delete (t, i) (ms_items s),
                ms_logical := (ms_logical s)(logical_of m := None)\<rparr>)"
  by (auto simp: memory_delete_def split: option.splits)

lemma memory_delete_inv:
  assumes inv: "mem_inv lib s" and m: "map_of (ms_items s) (t, i) = Some m"
    and del: "memory_delete s t i = Inr s'"
  shows "mem_inv lib s'" and "mem_abs s' = (mem_abs s)(logical_of m := None)"
proof -
  from del m have s': "s' = s\<lparr>ms_items := AList.delete (t, i) (ms_items s),
                ms_logical := (ms_logical s)(logical_of m := None)\<rparr>"
    by (auto simp: memory_delete_Inr)
  then have sel: "ms_items s' = AList.delete (t, i) (ms_items s)"
      "ms_logical s' = (ms_logical s)(logical_of m := None)" by simp_all
  have ti: "t = mi_tenant_id m" "i = mi_id m" using mem_invD(1) [OF inv m] by auto
  have uniq: "k = (t, i)" if "map_of (ms_items s) k = Some n" "logical_of n = logical_of m" for k n
  proof -
    have "mi_id n = mi_id m"
      using mem_invD(2) [OF inv that(1)] mem_invD(2) [OF inv m] that(2) by simp
    moreover have "mi_tenant_id n = mi_tenant_id m"
      using that(2) by (simp add: logical_of_eq_iff)
    ultimately show ?thesis using mem_invD(1) [OF inv that(1)] ti by simp
  qed
  show "mem_inv lib s'"
    unfolding mem_inv_def sel
  proof (intro conjI allI impI)
    show "distinct (map fst (AList.delete (t, i) (ms_items s)))"
      using mem_invD(5) [OF inv] by simp
  next
    fix k n assume "map_of (AList.delete (t, i) (ms_items s)) k = Some n"
    then have k: "map_of (ms_items s) k = Some n" "k \<noteq> (t, i)" by (auto split: if_splits)
    from mem_invD(1) [OF inv k(1)] show "k = (mi_tenant_id n, mi_id n)" .
    show "((ms_logical s)(logical_of m := None)) (logical_of n) = Some (mi_id n)"
      using uniq [OF k(1)] k(2) mem_invD(2) [OF inv k(1)] by auto
    show "screen_secret_like lib (mi_key n) (mi_value n) = None" by (rule mem_invD(3) [OF inv k(1)])
  next
    fix l j assume "((ms_logical s)(logical_of m := None)) l = Some j"
    then have l: "l \<noteq> logical_of m" "ms_logical s l = Some j" by (auto split: if_splits)
    with mem_invD(4) [OF inv l(2)] m
    show "\<exists>n. map_of (AList.delete (t, i) (ms_items s)) (fst l, j) = Some n \<and> logical_of n = l"
      by auto
  qed
  have "mem_abs s' l = ((mem_abs s)(logical_of m := None)) l" for l
  proof (cases "ms_logical s l")
    case None
    then show ?thesis by (simp add: mem_abs_def s')
  next
    case (Some j)
    have "(fst l, j) = (t, i)" if "l = logical_of m"
      using mem_invD(2) [OF inv m] ti Some that by simp
    moreover have "(fst l, j) \<noteq> (t, i)" if "l \<noteq> logical_of m"
      using mem_invD(4) [OF inv Some] m that by auto
    ultimately show ?thesis using Some by (auto simp: mem_abs_def s')
  qed
  then show "mem_abs s' = (mem_abs s)(logical_of m := None)" by (rule ext)
qed

lemma mem_step_inv: "mem_inv lib s \<Longrightarrow> mem_step lib s s' \<Longrightarrow> mem_inv lib s'"
  by (erule mem_step.cases)
    (auto intro: memory_upsert_inv(1) memory_delete_inv(1) simp: memory_delete_Inr)

lemma mem_reachable_inv: "mem_reachable lib s \<Longrightarrow> mem_inv lib s"
  by (induction rule: rtranclp_induct) (auto intro: mem_inv_new mem_step_inv)

section \<open>Queries\<close>

text \<open>
  What a query may see: a value of the asking tenant, shared by the tenant or of the asking user, of
  the scope and key asked for, confident enough, and not past its expiry unless expired values are
  asked for.
\<close>

definition memory_visible :: "timestamp \<Rightarrow> uuid \<Rightarrow> memory_filter \<Rightarrow> memory_item \<Rightarrow> bool" where
  "memory_visible now t f m \<longleftrightarrow>
     mi_tenant_id m = t
     \<and> mi_user_id m \<in> {None, mf_user_id f}
     \<and> (\<forall>sc. mf_scope f = Some sc \<longrightarrow> mi_scope m = sc)
     \<and> (\<forall>k. mf_key f = Some k \<longrightarrow> mi_key m = k)
     \<and> \<not> mi_confidence m < mf_min_confidence f
     \<and> (\<forall>e. mi_expires_at m = Some e \<longrightarrow> e \<le> now \<longrightarrow> mf_include_expired f)"

lemma memory_matches_visible:
  "memory_matches now t f ((mi_tenant_id m, i), m) \<longleftrightarrow> memory_visible now t f m"
  by (cases "mf_scope f"; cases "mf_key f"; cases "mi_expires_at m")
    (auto simp: memory_visible_def memory_matches_def Let_def)

lemma memory_visible_iff:
  "memory_visible now t f m \<longleftrightarrow>
     mi_tenant_id m = t
     \<and> (mi_user_id m = None \<or> mi_user_id m = mf_user_id f)
     \<and> (mf_scope f = None \<or> mf_scope f = Some (mi_scope m))
     \<and> (mf_key f = None \<or> mf_key f = Some (mi_key m))
     \<and> mf_min_confidence f \<le> mi_confidence m
     \<and> (mf_include_expired f \<or> (\<forall>e. mi_expires_at m = Some e \<longrightarrow> now < e))"
  by (cases "mf_scope f"; cases "mf_key f"; cases "mi_expires_at m") (auto simp: memory_visible_def)

lemma memory_query_filter:
  assumes "mem_inv lib s"
  shows "memory_query now s t f
    = sort_key (\<lambda>m. - mi_last_seen m) (filter (memory_visible now t f) (map snd (ms_items s)))"
proof -
  have "map snd (filter (memory_matches now t f) xs) = filter (memory_visible now t f) (map snd xs)"
    if "\<forall>p \<in> set xs. fst p = (mi_tenant_id (snd p), mi_id (snd p))" for xs
    using that
  proof (induction xs)
    case (Cons p xs)
    then have "p = ((mi_tenant_id (snd p), mi_id (snd p)), snd p)" by (metis list.set_intros(1) prod.collapse)
    then have "memory_matches now t f p \<longleftrightarrow> memory_visible now t f (snd p)"
      using memory_matches_visible [of now t f "snd p" "mi_id (snd p)"] by simp
    with Cons show ?case by simp
  qed simp
  moreover have "\<forall>p \<in> set (ms_items s). fst p = (mi_tenant_id (snd p), mi_id (snd p))"
    using mem_invD(1,5) [OF assms] by (auto dest: map_of_is_SomeI)
  ultimately show ?thesis by (simp add: memory_query_def)
qed

lemma set_memory_query:
  assumes "mem_inv lib s"
  shows "set (memory_query now s t f) = {m \<in> ran (mem_abs s). memory_visible now t f m}"
  by (auto simp: memory_query_filter [OF assms] ran_mem_abs [OF assms])

lemma distinct_memory_query:
  assumes "mem_inv lib s"
  shows "distinct (memory_query now s t f)"
proof -
  have "fst p = (mi_tenant_id (snd p), mi_id (snd p))" if "p \<in> set (ms_items s)" for p
    using mem_invD(1) [OF assms, of "fst p" "snd p"] mem_invD(5) [OF assms] that by simp
  then have "inj_on snd (set (ms_items s))" by (intro inj_onI) (metis prod.collapse)
  then have "distinct (map snd (ms_items s))"
    using mem_invD(5) [OF assms] by (simp add: distinct_map)
  then show ?thesis by (simp add: memory_query_filter [OF assms])
qed

lemma mem_abs_logical:
  "mem_inv lib s \<Longrightarrow> mem_abs s l = Some m \<Longrightarrow> logical_of m = l"
  by (simp add: mem_abs_Some_iff)

lemma memory_store_is_a_keyed_map_parts:
  assumes "mem_reachable lib s" and "fresh_item s item"
  shows "memory_upsert lib s item = Inr (r, s') \<Longrightarrow>
      mem_abs s' = (mem_abs s)(logical_of item \<mapsto> r)
      \<and> r = (case mem_abs s (logical_of item) of
               None \<Rightarrow> item | Some old \<Rightarrow> merge_item old item)"
    and "memory_get s t i = Inr m \<Longrightarrow>
      \<exists>s'. memory_delete s t i = Inr s' \<and> mem_abs s' = (mem_abs s)(logical_of m := None)"
    and "set (memory_query now s t f) = {m \<in> ran (mem_abs s). memory_visible now t f m}
      \<and> distinct (memory_query now s t f) \<and> sorted (map (\<lambda>m. - mi_last_seen m) (memory_query now s t f))
      \<and> (\<forall>m \<in> set (memory_query now s t f). mi_tenant_id m = t
           \<and> (mi_user_id m = None \<or> mi_user_id m = mf_user_id f)
           \<and> screen_secret_like lib (mi_key m) (mi_value m) = None)"
proof -
  have inv: "mem_inv lib s" by (rule mem_reachable_inv) (rule assms(1))
  show "memory_upsert lib s item = Inr (r, s') \<Longrightarrow>
      mem_abs s' = (mem_abs s)(logical_of item \<mapsto> r)
      \<and> r = (case mem_abs s (logical_of item) of
               None \<Rightarrow> item | Some old \<Rightarrow> merge_item old item)"
    using memory_upsert_inv(2,3) [OF inv assms(2)] by blast
  show "\<exists>s'. memory_delete s t i = Inr s' \<and> mem_abs s' = (mem_abs s)(logical_of m := None)"
    if "memory_get s t i = Inr m"
  proof -
    from that have m: "map_of (ms_items s) (t, i) = Some m"
      by (simp add: memory_get_def split: option.splits)
    then obtain s' where d: "memory_delete s t i = Inr s'"
      using memory_delete_Inr [of s t i] by blast
    show ?thesis using memory_delete_inv(2) [OF inv m d] d by blast
  qed
  show "set (memory_query now s t f) = {m \<in> ran (mem_abs s). memory_visible now t f m}
      \<and> distinct (memory_query now s t f) \<and> sorted (map (\<lambda>m. - mi_last_seen m) (memory_query now s t f))
      \<and> (\<forall>m \<in> set (memory_query now s t f). mi_tenant_id m = t
           \<and> (mi_user_id m = None \<or> mi_user_id m = mf_user_id f)
           \<and> screen_secret_like lib (mi_key m) (mi_value m) = None)"
    (is "?q \<and> ?d \<and> ?o \<and> ?v")
  proof (intro conjI)
    show ?q by (rule set_memory_query [OF inv])
    show ?d by (rule distinct_memory_query [OF inv])
    show ?o by (simp add: memory_query_def)
    have "screen_secret_like lib (mi_key m) (mi_value m) = None" if "m \<in> ran (mem_abs s)" for m
      using that mem_invD(3) [OF inv] by (auto simp: ran_def mem_abs_Some_iff [OF inv])
    then show ?v by (auto simp: set_memory_query [OF inv] memory_visible_iff)
  qed
qed

text \<open>
  C26. The memory store is a map from (tenant, user, scope, key) to one current value, when every
  write carries an id the store does not hold yet (ids are drawn by \<open>uuid4\<close>): an accepted write
  installs the item under its logical key and nowhere else, keeping the id of an earlier value and
  counting its evidence; a delete removes exactly that key; and a query returns, each once and most
  recently seen first, exactly the current values of the asking tenant that are shared or the asking
  user's own, of the scope and key asked for, at least as confident as asked, and not expired unless
  expired ones are asked for; no value the secret screen rejects is among them.
\<close>

theorem memory_store_is_a_keyed_map:
  assumes "mem_reachable lib s" and "fresh_item s item"
  shows "(memory_upsert lib s item = Inr (r, s') \<longrightarrow>
      mem_abs s' = (mem_abs s)(logical_of item \<mapsto> r)
      \<and> r = (case mem_abs s (logical_of item) of
               None \<Rightarrow> item | Some old \<Rightarrow> merge_item old item))
    \<and> (memory_get s t i = Inr m \<longrightarrow>
      (\<exists>s'. memory_delete s t i = Inr s' \<and> mem_abs s' = (mem_abs s)(logical_of m := None)))
    \<and> set (memory_query now s t f) = {m \<in> ran (mem_abs s). mi_tenant_id m = t
         \<and> mi_user_id m \<in> {None, mf_user_id f}
         \<and> (\<forall>sc. mf_scope f = Some sc \<longrightarrow> mi_scope m = sc)
         \<and> (\<forall>k. mf_key f = Some k \<longrightarrow> mi_key m = k)
         \<and> \<not> mi_confidence m < mf_min_confidence f
         \<and> (\<forall>e. mi_expires_at m = Some e \<longrightarrow> e \<le> now \<longrightarrow> mf_include_expired f)}
    \<and> distinct (memory_query now s t f)
    \<and> sorted (map (\<lambda>m. - mi_last_seen m) (memory_query now s t f))
    \<and> (\<forall>m \<in> set (memory_query now s t f). mi_tenant_id m = t
         \<and> (mi_user_id m = None \<or> mi_user_id m = mf_user_id f)
         \<and> screen_secret_like lib (mi_key m) (mi_value m) = None)"
  using memory_store_is_a_keyed_map_parts [OF assms] unfolding memory_visible_def by blast

section \<open>Conversation history\<close>

definition conv_inv :: "conversation_store \<Rightarrow> bool" where
  "conv_inv s \<longleftrightarrow>
     distinct (map fst (cs_conversations s))
     \<and> (\<forall>k c. map_of (cs_conversations s) k = Some c \<longrightarrow>
           k = (cv_tenant_id c, cv_id c) \<and> cs_messages s k \<noteq> None
           \<and> (\<exists>n. cs_creation_order s k = Some n \<and> 0 < n \<and> n \<le> cs_insert_seq s))
     \<and> 0 \<le> cs_insert_seq s"

inductive conv_step :: "conversation_store \<Rightarrow> conversation_store \<Rightarrow> bool" where
  create: "conv_step s s'" if "create_conversation s c = Inr (r, s')"
| status: "conv_step s s'" if "set_status s tenant i st = Inr (r, s')"
| append: "conv_step s s'" if "append_message s tenant m = Inr (r, s')"

abbreviation conv_reachable :: "conversation_store \<Rightarrow> bool" where
  "conv_reachable \<equiv> conv_step\<^sup>*\<^sup>* new_conversation_store"

lemma create_conversation_Inr:
  "create_conversation s c = Inr (r, s') \<longleftrightarrow>
     map_of (cs_conversations s) (cv_tenant_id c, cv_id c) = None \<and> r = c
     \<and> s' = s\<lparr>cs_conversations :=
                AList.update (cv_tenant_id c, cv_id c) c (cs_conversations s),
             cs_messages := (cs_messages s)((cv_tenant_id c, cv_id c) \<mapsto> []),
             cs_insert_seq := cs_insert_seq s + 1,
             cs_creation_order :=
               (cs_creation_order s)((cv_tenant_id c, cv_id c) \<mapsto> cs_insert_seq s + 1)\<rparr>"
  by (auto simp: create_conversation_def Let_def)

lemma set_status_Inr:
  "set_status s t i st = Inr (r, s') \<longleftrightarrow>
     (\<exists>c. map_of (cs_conversations s) (t, i) = Some c \<and> r = c\<lparr>cv_status := st\<rparr>
        \<and> s' = s\<lparr>cs_conversations := AList.update (t, i) r (cs_conversations s)\<rparr>)"
  by (auto simp: set_status_def Let_def split: option.splits)

lemma append_message_Inr:
  "append_message s t m = Inr (r, s') \<longleftrightarrow>
     (\<exists>ms. map_of (cs_conversations s) (t, mg_conversation_id m) \<noteq> None
        \<and> (mg_content m \<noteq> [] \<or> mg_attachments m \<noteq> []) \<and> r = m
        \<and> cs_messages s (t, mg_conversation_id m) = Some ms
        \<and> s' = s\<lparr>cs_messages := (cs_messages s)((t, mg_conversation_id m) \<mapsto> ms @ [m])\<rparr>)"
  by (auto simp: append_message_def Let_def split: option.splits)

lemmas conv_results = create_conversation_Inr set_status_Inr append_message_Inr

lemma conv_inv_new: "conv_inv new_conversation_store"
  by (simp add: conv_inv_def new_conversation_store_def)

lemma conv_step_inv:
  assumes "conv_inv s" and "conv_step s s'"
  shows "conv_inv s'"
  using assms(2)
proof cases
  case (create c r)
  with assms(1) show ?thesis
    by (auto simp: conv_inv_def conv_results simp del: map_of_eq_Some_iff split: if_splits)
      (smt (verit) add_increasing2 zero_le_one)+
next
  case (status t i st r)
  with assms(1) show ?thesis
    by (auto simp: conv_inv_def conv_results simp del: map_of_eq_Some_iff split: if_splits)
next
  case (append t m r)
  with assms(1) show ?thesis
    by (auto simp: conv_inv_def conv_results simp del: map_of_eq_Some_iff split: if_splits)
qed

lemma conv_reachable_inv: "conv_reachable s \<Longrightarrow> conv_inv s"
  by (induction rule: rtranclp_induct) (auto intro: conv_inv_new conv_step_inv)

lemma get_history_all:
  "get_history s t i None = Inr ms \<longleftrightarrow>
     map_of (cs_conversations s) (t, i) \<noteq> None \<and> cs_messages s (t, i) = Some ms"
  by (auto simp: get_history_def Let_def split: option.splits)

lemma get_history_step:
  assumes "conv_step s s'" and "get_history s t i None = Inr ms"
  shows "\<exists>new. get_history s' t i None = Inr (ms @ new)"
  using assms by (cases rule: conv_step.cases) (auto simp: get_history_all conv_results)

lemma get_history_steps:
  assumes "conv_step\<^sup>*\<^sup>* s s'" and "get_history s t i None = Inr ms"
  shows "\<exists>new. get_history s' t i None = Inr (ms @ new)"
  using assms
proof (induction rule: rtranclp_induct)
  case base
  then show ?case by auto
next
  case (step y z)
  then obtain new where "get_history y t i None = Inr (ms @ new)" by blast
  from get_history_step [OF step.hyps(2) this] show ?case by auto
qed

lemma history_is_append_only_parts:
  assumes "conv_reachable s" and "conv_step\<^sup>*\<^sup>* s s'" and "get_history s t i None = Inr ms"
  shows "\<exists>new. get_history s' t i None = Inr (ms @ new)
      \<and> (\<forall>n \<ge> 0. \<exists>tail. get_history s' t i (Some n) = Inr tail
           \<and> length tail = min (nat n) (length (ms @ new))
           \<and> (\<exists>front. ms @ new = front @ tail))"
    and "\<exists>cs. list_conversations s' t u = Inr cs
      \<and> set cs = {c. map_of (cs_conversations s') (t, cv_id c) = Some c \<and> cv_user_id c = u}"
proof -
  obtain new where new: "get_history s' t i None = Inr (ms @ new)"
    using get_history_steps [OF assms(2,3)] by blast
  then have sel: "map_of (cs_conversations s') (t, i) \<noteq> None"
      "cs_messages s' (t, i) = Some (ms @ new)"
    by (simp_all add: get_history_all)
  have "\<exists>tail. get_history s' t i (Some n) = Inr tail
           \<and> length tail = min (nat n) (length (ms @ new))
           \<and> (\<exists>front. ms @ new = front @ tail)" if "0 \<le> n" for n
  proof -
    let ?xs = "ms @ new"
    let ?tail = "drop (length ?xs - min (nat n) (length ?xs)) ?xs"
    have "get_history s' t i (Some n) = Inr ?tail"
      using sel that by (auto simp: get_history_def simp del: drop_append length_append)
    moreover have "length ?tail = min (nat n) (length ?xs)" by simp
    moreover have "?xs = take (length ?xs - min (nat n) (length ?xs)) ?xs @ ?tail"
      by (rule append_take_drop_id [symmetric])
    ultimately show ?thesis by blast
  qed
  with new show "\<exists>new. get_history s' t i None = Inr (ms @ new)
      \<and> (\<forall>n \<ge> 0. \<exists>tail. get_history s' t i (Some n) = Inr tail
           \<and> length tail = min (nat n) (length (ms @ new))
           \<and> (\<exists>front. ms @ new = front @ tail))" by blast
next
  have "conv_inv s'"
    by (rule conv_reachable_inv) (rule rtranclp_trans [OF assms(1,2)])
  then have d: "distinct (map fst (cs_conversations s'))"
    and k: "\<And>k c. map_of (cs_conversations s') k = Some c \<Longrightarrow>
        k = (cv_tenant_id c, cv_id c) \<and> cs_creation_order s' k \<noteq> None"
    unfolding conv_inv_def by blast+
  let ?m = "filter (\<lambda>(k, c). fst k = t \<and> cv_user_id c = u) (cs_conversations s')"
  have mem: "(k, c) \<in> set (cs_conversations s') \<longleftrightarrow> map_of (cs_conversations s') k = Some c" for k c
    using d by simp
  have "list_all (\<lambda>(k, _). cs_creation_order s' k \<noteq> None) ?m"
    using k by (auto simp: list_all_iff mem)
  then have "list_conversations s' t u
      = Inr (map snd (sort_key (\<lambda>(k, _). - the (cs_creation_order s' k)) ?m))"
    by (simp add: list_conversations_def)
  moreover have "snd ` set ?m
      = {c. map_of (cs_conversations s') (t, cv_id c) = Some c \<and> cv_user_id c = u}"
  proof (intro equalityI subsetI)
    fix c assume "c \<in> snd ` set ?m"
    then obtain i where "map_of (cs_conversations s') (t, i) = Some c" "cv_user_id c = u"
      by (auto simp: mem)
    with k [of "(t, i)" c] show "c \<in> {c. map_of (cs_conversations s') (t, cv_id c) = Some c
        \<and> cv_user_id c = u}" by simp
  next
    fix c assume "c \<in> {c. map_of (cs_conversations s') (t, cv_id c) = Some c \<and> cv_user_id c = u}"
    then have "((t, cv_id c), c) \<in> set ?m" by (simp add: mem)
    then show "c \<in> snd ` set ?m" by (rule image_eqI [rotated]) simp
  qed
  ultimately show "\<exists>cs. list_conversations s' t u = Inr cs
      \<and> set cs = {c. map_of (cs_conversations s') (t, cv_id c) = Some c \<and> cv_user_id c = u}"
    by simp
qed

text \<open>
  Conversation history is append-only and tenant-scoped: whatever was once returned as a
  conversation's history stays a prefix of it whatever operations follow; a limit of n keeps
  the newest n messages in order; and the listing of a user's conversations never fails and
  contains exactly that user's conversations of that tenant.
\<close>


theorem history_is_append_only:
  assumes "conv_reachable s" and "conv_step\<^sup>*\<^sup>* s s'" and "get_history s t i None = Inr ms"
  shows "(\<exists>new. get_history s' t i None = Inr (ms @ new)
      \<and> (\<forall>n \<ge> 0. \<exists>tail. get_history s' t i (Some n) = Inr tail
           \<and> length tail = min (nat n) (length (ms @ new))
           \<and> (\<exists>front. ms @ new = front @ tail)))
    \<and> (\<exists>cs. list_conversations s' t u = Inr cs
      \<and> set cs = {c. map_of (cs_conversations s') (t, cv_id c) = Some c \<and> cv_user_id c = u})"
  using history_is_append_only_parts [OF assms] by blast

section \<open>A concrete history\<close>

definition ex_item :: memory_item where
  "ex_item = \<lparr>mi_id = 5, mi_tenant_id = 3, mi_user_id = None, mi_scope = SCOPE_TENANT,
     mi_key = ''k'', mi_value = JStr ''v'', mi_source = ''s'', mi_confidence = 1,
     mi_evidence_count = 0, mi_last_seen = 10, mi_expires_at = None,
     mi_sensitivity = SENSITIVITY_LOW\<rparr>"

definition ex_memory :: memory_store where
  "ex_memory = \<lparr>ms_items = [((3, 5), ex_item)], ms_logical = [logical_of ex_item \<mapsto> 5]\<rparr>"

lemma ex_screen: "screen_secret_like ex_text_library ''k'' (JStr ''v'') = None"
  by code_simp

lemma ex_item_sel [simp]:
  "mi_id ex_item = 5" "mi_tenant_id ex_item = 3" "mi_key ex_item = ''k''"
  "mi_value ex_item = JStr ''v''"
  by (simp_all add: ex_item_def)

lemma ex_memory_upsert:
  "memory_upsert ex_text_library new_memory_store ex_item = Inr (ex_item, ex_memory)"
  by (simp add: memory_upsert_def ex_screen new_memory_store_def ex_memory_def)

lemma ex_memory_reachable: "mem_reachable ex_text_library ex_memory"
proof (rule r_into_rtranclp, rule mem_step.upsert)
  show "fresh_item new_memory_store ex_item" by (simp add: fresh_item_def new_memory_store_def)
qed (rule ex_memory_upsert)

definition ex_item2 :: memory_item where
  "ex_item2 = ex_item\<lparr>mi_id := 6, mi_confidence := 1/2\<rparr>"

lemma ex_fresh: "fresh_item ex_memory ex_item2"
  by (simp add: fresh_item_def ex_memory_def ex_item2_def)

lemma ex_memory_merge:
  "memory_upsert ex_text_library ex_memory ex_item2
     = Inr (merge_item ex_item ex_item2,
            ex_memory\<lparr>ms_items := [((3, 5), merge_item ex_item ex_item2)]\<rparr>)"
  by (simp add: memory_upsert_def ex_screen ex_memory_def ex_item2_def logical_of_def Let_def)

theorem memory_store_is_a_keyed_map_witness:
  "mem_abs (ex_memory\<lparr>ms_items := [((3, 5), merge_item ex_item ex_item2)]\<rparr>)
     = (mem_abs ex_memory)(logical_of ex_item2 \<mapsto> merge_item ex_item ex_item2)"
  using memory_store_is_a_keyed_map [OF ex_memory_reachable ex_fresh] ex_memory_merge by blast

definition ex_conversation :: conversation where
  "ex_conversation = \<lparr>cv_id = 7, cv_tenant_id = 3, cv_user_id = 4, cv_project_id = None,
     cv_title = ''t'', cv_status = CONVERSATION_ACTIVE\<rparr>"

definition ex_message :: message where
  "ex_message = \<lparr>mg_id = 8, mg_conversation_id = 7, mg_role = ROLE_USER, mg_content = ''hi'',
     mg_attachments = [], mg_created_at = 1\<rparr>"

definition ex_conversations :: conversation_store where
  "ex_conversations = snd (projr (create_conversation new_conversation_store ex_conversation))"

definition ex_conversations2 :: conversation_store where
  "ex_conversations2 = snd (projr (append_message ex_conversations 3 ex_message))"

lemma ex_conversations_created:
  "create_conversation new_conversation_store ex_conversation
     = Inr (ex_conversation, ex_conversations)"
  by (simp add: ex_conversations_def create_conversation_def new_conversation_store_def Let_def)

lemma ex_history0: "get_history ex_conversations 3 7 None = Inr []"
  by (simp add: ex_conversations_def create_conversation_def new_conversation_store_def
      get_history_def ex_conversation_def Let_def)

lemma ex_message_appended:
  "append_message ex_conversations 3 ex_message = Inr (ex_message, ex_conversations2)"
  by (simp add: ex_conversations2_def append_message_def ex_message_def ex_conversations_def
      create_conversation_def new_conversation_store_def ex_conversation_def Let_def)

theorem history_is_append_only_witness:
  "\<exists>new. get_history ex_conversations2 3 7 None = Inr ([] @ new)"
proof -
  have "conv_reachable ex_conversations"
    by (rule r_into_rtranclp, rule conv_step.create, rule ex_conversations_created)
  moreover have "conv_step\<^sup>*\<^sup>* ex_conversations ex_conversations2"
    by (rule r_into_rtranclp, rule conv_step.append, rule ex_message_appended)
  ultimately show ?thesis
    using history_is_append_only [OF _ _ ex_history0] by blast
qed

end
