(* ===== verification/Skill_Pipeline.thy ===== *)
theory Skill_Pipeline
  imports Routing_Router "HOL-Library.Product_Lexorder" "HOL-Library.Sublist"
begin

text \<open>
  Roles and skills: the contracts \<open>core/contracts/roles.py\<close>, \<open>skills.py\<close> and
  \<open>role_profile.py\<close>, the registries of \<open>core/roles/registry.py\<close>, role governance, the
  import pipeline of \<open>core/skills/importing.py\<close>, the source catalog of \<open>sources.py\<close> and the
  resolver of \<open>resolver.py\<close>.  SHA-256 is a parameter; the registries' dictionaries are
  association lists in insertion order.  Lemmas: the only way from external content to a
  selectable skill is the whole pipeline, in order, with an empty scan and a reviewer; the
  resolver explains every candidate it drops; replacing and restoring the catalog is exact.
\<close>

section \<open>Contracts\<close>

datatype role_scope = RS_SYSTEM | RS_TENANT | RS_USER | RS_PROJECT

datatype role_status = ROLE_DRAFT | ROLE_ACTIVE | ROLE_DISABLED

record role =
  ro_id :: uuid
  ro_scope :: role_scope
  ro_name :: string
  ro_version :: string
  ro_objective :: string
  ro_behavior_policies :: json_object
  ro_output_contract :: json_object
  ro_status :: role_status
  ro_capabilities_requested :: "string list"

record role_override =
  ov_behavior_policies :: json_object
  ov_output_contract :: json_object

record role_profile =
  rp_role :: role
  rp_preferred_skills :: "string list"
  rp_runtime_override :: "role_override option"

text \<open>\<open>dict.update\<close>: existing keys in place, new ones appended.\<close>

definition dict_update :: "('k \<times> 'v) list \<Rightarrow> ('k \<times> 'v) list \<Rightarrow> ('k \<times> 'v) list" where
  "dict_update d new = fold (\<lambda>(k, v). AList.update k v) new d"

definition effective_behavior_policies :: "role_profile \<Rightarrow> json_object" where
  "effective_behavior_policies p =
     (case rp_runtime_override p of
        None \<Rightarrow> ro_behavior_policies (rp_role p)
      | Some ov \<Rightarrow> dict_update (ro_behavior_policies (rp_role p)) (ov_behavior_policies ov))"

definition effective_output_contract :: "role_profile \<Rightarrow> json_object" where
  "effective_output_contract p =
     (case rp_runtime_override p of
        None \<Rightarrow> ro_output_contract (rp_role p)
      | Some ov \<Rightarrow> dict_update (ro_output_contract (rp_role p)) (ov_output_contract ov))"

datatype skill_type = SKILL_INSTRUCTION | SKILL_WORKFLOW | SKILL_TOOL_ENABLED

datatype skill_source = SKILL_LOCAL | SKILL_IMPORTED_SOURCE

datatype skill_status =
    SKILL_IMPORTED | SKILL_SCANNED | SKILL_VALIDATED | SKILL_REVIEWED | SKILL_APPROVED
  | SKILL_ACTIVE | SKILL_DISABLED

datatype skill_invocation = INVOKE_USER | INVOKE_MODEL | INVOKE_USER_OR_MODEL

fun skill_status_value :: "skill_status \<Rightarrow> string" where
  "skill_status_value SKILL_IMPORTED = ''imported''"
| "skill_status_value SKILL_SCANNED = ''scanned''"
| "skill_status_value SKILL_VALIDATED = ''validated''"
| "skill_status_value SKILL_REVIEWED = ''reviewed''"
| "skill_status_value SKILL_APPROVED = ''approved''"
| "skill_status_value SKILL_ACTIVE = ''active''"
| "skill_status_value SKILL_DISABLED = ''disabled''"

fun skill_source_value :: "skill_source \<Rightarrow> string" where
  "skill_source_value SKILL_LOCAL = ''local''"
| "skill_source_value SKILL_IMPORTED_SOURCE = ''imported''"

definition IMPORT_LIFECYCLE_ORDER :: "skill_status list" where
  "IMPORT_LIFECYCLE_ORDER =
     [SKILL_IMPORTED, SKILL_SCANNED, SKILL_VALIDATED, SKILL_REVIEWED, SKILL_APPROVED, SKILL_ACTIVE]"

record tool_requirements =
  tr_required :: "string list"
  tr_optional :: "string list"

record skill_manifest =
  kf_id :: string
  kf_name :: string
  kf_version :: string
  kf_type :: skill_type
  kf_source :: skill_source
  kf_status :: skill_status
  kf_capabilities :: "string list"
  kf_inputs_schema :: "json_object option"
  kf_outputs_format :: "string option"
  kf_requires_tools :: tool_requirements
  kf_permissions_requested :: "string list"
  kf_invocation :: skill_invocation
  kf_compatible_roles :: "string list"

record skill_provenance =
  kp_source_url :: "string option"
  kp_source_version :: "string option"
  kp_checksum :: "string option"
  kp_imported_at :: "timestamp option"
  kp_reviewed_by :: "string option"
  kp_local_version :: "string option"

record skill =
  sk_id :: uuid
  sk_name :: string
  sk_version :: string
  sk_type :: skill_type
  sk_source :: skill_source
  sk_provenance :: skill_provenance
  sk_manifest :: skill_manifest
  sk_status :: skill_status

text \<open>The listing row: required tools first, then optional ones, each once.\<close>

record skill_entry =
  se_id :: string
  se_version :: string
  se_status :: skill_status
  se_requires_tools :: "string list"

fun ordered_dedup :: "string list \<Rightarrow> string list \<Rightarrow> string list" where
  "ordered_dedup seen [] = seen"
| "ordered_dedup seen (x # xs) = ordered_dedup (if x \<in> set seen then seen else seen @ [x]) xs"

definition from_skill :: "skill \<Rightarrow> skill_entry" where
  "from_skill s =
     (let tools = kf_requires_tools (sk_manifest s)
      in \<lparr>se_id = kf_id (sk_manifest s), se_version = sk_version s, se_status = sk_status s,
          se_requires_tools = ordered_dedup [] (tr_required tools @ tr_optional tools)\<rparr>)"

section \<open>Errors\<close>

datatype registry_error =
    RoleNotRegistered uuid
  | SkillNotRegistered uuid
  | DuplicateRole uuid
  | DuplicateSkill uuid
  | RoleNotSelectable uuid role_status
  | SkillNotSelectable uuid string
  | ManifestMismatch uuid string

datatype skill_error =
    UnknownImportSource string
  | ChecksumMismatch string string
  | NotAnImportedSkill uuid string
  | InvalidLifecycleStep uuid string string
  | ScanFindingsBlock uuid "string list"
  | MissingProvenance uuid string

section \<open>Registries\<close>

type_synonym role_registry = "(uuid \<times> role) list"

definition role_register :: "role_registry \<Rightarrow> role \<Rightarrow> registry_error + role_registry" where
  "role_register reg r =
     (if map_of reg (ro_id r) \<noteq> None then Inl (DuplicateRole (ro_id r))
      else Inr (AList.update (ro_id r) r reg))"

definition role_get :: "role_registry \<Rightarrow> uuid \<Rightarrow> registry_error + role" where
  "role_get reg i = (case map_of reg i of None \<Rightarrow> Inl (RoleNotRegistered i) | Some r \<Rightarrow> Inr r)"

definition role_select :: "role_registry \<Rightarrow> uuid \<Rightarrow> registry_error + role" where
  "role_select reg i = result_bind (role_get reg i) (\<lambda>r.
     if ro_status r \<noteq> ROLE_ACTIVE then Inl (RoleNotSelectable i (ro_status r)) else Inr r)"

definition role_list_selectable :: "role_registry \<Rightarrow> role list" where
  "role_list_selectable reg =
     sort_key ro_name (filter (\<lambda>r. ro_status r = ROLE_ACTIVE) (map snd reg))"

definition role_list_all :: "role_registry \<Rightarrow> role list" where
  "role_list_all reg = sort_key ro_name (map snd reg)"

type_synonym skill_registry = "(uuid \<times> skill) list"

definition manifest_agreement :: "skill \<Rightarrow> (string \<times> bool) list" where
  "manifest_agreement s =
     (let m = sk_manifest s in
      [(''name'', sk_name s = kf_name m), (''version'', sk_version s = kf_version m),
       (''type'', sk_type s = kf_type m), (''source'', sk_source s = kf_source m),
       (''status'', sk_status s = kf_status m)])"

definition first_divergent :: "skill \<Rightarrow> string option" where
  "first_divergent s = map_option fst (find (\<lambda>(_, same). \<not> same) (manifest_agreement s))"

definition skill_register :: "skill_registry \<Rightarrow> skill \<Rightarrow> registry_error + skill_registry" where
  "skill_register reg s =
     (case first_divergent s of
        Some f \<Rightarrow> Inl (ManifestMismatch (sk_id s) f)
      | None \<Rightarrow>
          if map_of reg (sk_id s) \<noteq> None then Inl (DuplicateSkill (sk_id s))
          else Inr (AList.update (sk_id s) s reg))"

definition skill_get :: "skill_registry \<Rightarrow> uuid \<Rightarrow> registry_error + skill" where
  "skill_get reg i = (case map_of reg i of None \<Rightarrow> Inl (SkillNotRegistered i) | Some s \<Rightarrow> Inr s)"

definition skill_replace :: "skill_registry \<Rightarrow> skill \<Rightarrow> registry_error + skill_registry" where
  "skill_replace reg s =
     (if map_of reg (sk_id s) = None then Inl (SkillNotRegistered (sk_id s))
      else case first_divergent s of
             Some f \<Rightarrow> Inl (ManifestMismatch (sk_id s) f)
           | None \<Rightarrow> Inr (AList.update (sk_id s) s reg))"

definition skill_select :: "skill_registry \<Rightarrow> uuid \<Rightarrow> registry_error + skill" where
  "skill_select reg i = result_bind (skill_get reg i) (\<lambda>s.
     if sk_status s \<noteq> SKILL_ACTIVE
     then Inl (SkillNotSelectable i (''status='' @ skill_status_value (sk_status s)))
     else if sk_source s \<noteq> SKILL_LOCAL
     then Inl (SkillNotSelectable i (''source='' @ skill_source_value (sk_source s)))
     else Inr s)"

definition skill_selectable :: "skill \<Rightarrow> bool" where
  "skill_selectable s \<longleftrightarrow> sk_status s = SKILL_ACTIVE \<and> sk_source s = SKILL_LOCAL"

definition skill_list_selectable :: "skill_registry \<Rightarrow> skill list" where
  "skill_list_selectable reg = sort_key sk_name (filter skill_selectable (map snd reg))"

definition skill_list_all :: "skill_registry \<Rightarrow> skill list" where
  "skill_list_all reg = sort_key sk_name (map snd reg)"

section \<open>Role governance\<close>

definition SYSTEM_SCOPES :: "role_scope set" where "SYSTEM_SCOPES = {RS_SYSTEM}"

definition CUSTOM_SCOPES :: "role_scope set" where
  "CUSTOM_SCOPES = {RS_TENANT, RS_USER, RS_PROJECT}"

record role_admission =
  rd_admitted :: bool
  rd_reason :: "string option"
  rd_capabilities_requested :: "string list"

definition role_evaluate :: "role \<Rightarrow> bool \<Rightarrow> role_admission" where
  "role_evaluate r is_admin =
     (if ro_scope r \<in> SYSTEM_SCOPES \<and> \<not> is_admin
      then \<lparr>rd_admitted = False, rd_reason = Some ''system_role_requires_admin'',
            rd_capabilities_requested = []\<rparr>
      else if ro_scope r \<notin> SYSTEM_SCOPES \<and> ro_scope r \<notin> CUSTOM_SCOPES
      then \<lparr>rd_admitted = False, rd_reason = Some ''scope_ungoverned'',
            rd_capabilities_requested = []\<rparr>
      else \<lparr>rd_admitted = True, rd_reason = None,
            rd_capabilities_requested = ro_capabilities_requested r\<rparr>)"

definition governed_register ::
  "role_registry \<Rightarrow> role \<Rightarrow> bool \<Rightarrow> registry_error + (role_admission \<times> role_registry)" where
  "governed_register reg r is_admin =
     (let d = role_evaluate r is_admin
      in if rd_admitted d then map_sum id (Pair d) (role_register reg r) else Inr (d, reg))"

section \<open>The import pipeline\<close>

definition IMPORT_SOURCES :: "string list" where
  "IMPORT_SOURCES =
     [''https://github.com/mattpocock/skills'', ''https://www.aihero.dev/skills-wayfinder'',
      ''https://github.com/amElnagdy/review-skills'']"

record import_call =
  ic_skill_id :: uuid
  ic_manifest :: skill_manifest
  ic_content :: string
  ic_source_url :: string
  ic_source_version :: string
  ic_imported_at :: timestamp
  ic_expected_checksum :: "string option"
  ic_local_version :: "string option"

text \<open>\<open>allowlist\<close> holds the admitted prefixes, \<open>digest\<close> the SHA-256 hex digest.\<close>

definition import_skill ::
  "(string \<Rightarrow> string) \<Rightarrow> string list \<Rightarrow> import_call \<Rightarrow> skill_error + skill" where
  "import_skill digest allowlist c =
     (let checksum = digest (ic_content c); m = ic_manifest c in
      if \<not> list_ex (startswith (ic_source_url c)) allowlist
      then Inl (UnknownImportSource (ic_source_url c))
      else if ic_expected_checksum c \<noteq> None \<and> ic_expected_checksum c \<noteq> Some checksum
      then Inl (ChecksumMismatch (the (ic_expected_checksum c)) checksum)
      else Inr
        \<lparr>sk_id = ic_skill_id c, sk_name = kf_name m, sk_version = kf_version m,
         sk_type = kf_type m, sk_source = SKILL_IMPORTED_SOURCE,
         sk_provenance =
           \<lparr>kp_source_url = Some (ic_source_url c), kp_source_version = Some (ic_source_version c),
            kp_checksum = Some checksum, kp_imported_at = Some (ic_imported_at c),
            kp_reviewed_by = None,
            kp_local_version = Some (case ic_local_version c of
                None \<Rightarrow> ic_source_version c | Some v \<Rightarrow> v)\<rparr>,
         sk_manifest = m\<lparr>kf_source := SKILL_IMPORTED_SOURCE, kf_status := SKILL_IMPORTED\<rparr>,
         sk_status = SKILL_IMPORTED\<rparr>)"

definition require_step :: "skill \<Rightarrow> skill_status \<Rightarrow> string \<Rightarrow> skill_error option" where
  "require_step s expected step =
     (if sk_source s \<noteq> SKILL_IMPORTED_SOURCE
      then Some (NotAnImportedSkill (sk_id s) (skill_source_value (sk_source s)))
      else if sk_status s \<noteq> expected
      then Some (InvalidLifecycleStep (sk_id s) (skill_status_value (sk_status s)) step)
      else None)"

definition advance_skill :: "skill \<Rightarrow> skill_status \<Rightarrow> skill" where
  "advance_skill s st = s\<lparr>sk_status := st, sk_manifest := (sk_manifest s)\<lparr>kf_status := st\<rparr>\<rparr>"

definition scan_skill :: "skill \<Rightarrow> string list \<Rightarrow> skill_error + skill" where
  "scan_skill s findings =
     (case require_step s SKILL_IMPORTED ''scan'' of
        Some e \<Rightarrow> Inl e
      | None \<Rightarrow> if findings \<noteq> [] then Inl (ScanFindingsBlock (sk_id s) findings)
                else Inr (advance_skill s SKILL_SCANNED))"

definition pre_review_provenance :: "skill_provenance \<Rightarrow> (string \<times> bool) list" where
  "pre_review_provenance p =
     [(''source_url'', kp_source_url p \<noteq> None), (''source_version'', kp_source_version p \<noteq> None),
      (''checksum'', kp_checksum p \<noteq> None), (''imported_at'', kp_imported_at p \<noteq> None),
      (''local_version'', kp_local_version p \<noteq> None)]"

definition validate_skill :: "skill \<Rightarrow> skill_error + skill" where
  "validate_skill s =
     (case require_step s SKILL_SCANNED ''validate'' of
        Some e \<Rightarrow> Inl e
      | None \<Rightarrow>
         (case first_divergent s of
            Some f \<Rightarrow> Inl (InvalidLifecycleStep (sk_id s) (skill_status_value (sk_status s))
                             (''validate (manifest disagrees on '' @ f @ '')''))
          | None \<Rightarrow>
             (case find (\<lambda>(_, present). \<not> present) (pre_review_provenance (sk_provenance s)) of
                Some (f, _) \<Rightarrow> Inl (MissingProvenance (sk_id s) f)
              | None \<Rightarrow> Inr (advance_skill s SKILL_VALIDATED))))"

definition review_skill :: "skill \<Rightarrow> string \<Rightarrow> skill_error + skill" where
  "review_skill s reviewed_by =
     (case require_step s SKILL_VALIDATED ''review'' of
        Some e \<Rightarrow> Inl e
      | None \<Rightarrow>
          Inr ((advance_skill s SKILL_REVIEWED)
                 \<lparr>sk_provenance := (sk_provenance s)\<lparr>kp_reviewed_by := Some reviewed_by\<rparr>\<rparr>))"

definition approve_skill :: "skill \<Rightarrow> skill_error + skill" where
  "approve_skill s =
     (case require_step s SKILL_REVIEWED ''approve'' of
        Some e \<Rightarrow> Inl e
      | None \<Rightarrow> if kp_reviewed_by (sk_provenance s) = None
                then Inl (MissingProvenance (sk_id s) ''reviewed_by'')
                else Inr (advance_skill s SKILL_APPROVED))"

definition activate_skill :: "skill \<Rightarrow> skill_error + skill" where
  "activate_skill s =
     (case require_step s SKILL_APPROVED ''activate'' of
        Some e \<Rightarrow> Inl e
      | None \<Rightarrow>
          let s' = advance_skill s SKILL_ACTIVE
          in Inr (s'\<lparr>sk_source := SKILL_LOCAL,
                    sk_manifest := (sk_manifest s')\<lparr>kf_source := SKILL_LOCAL\<rparr>\<rparr>))"

section \<open>The source catalog\<close>

datatype source_kind = GIT_REPOSITORY | WEB_CATALOG

datatype source_error =
    SourceUrlEmpty | SourceUrlNotHttps string | SourceUrlNoHost string
  | SourceUrlDuplicate string | DisabledUrlsUnlisted "string list"

record source_entry =
  sc_url :: string
  sc_kind :: source_kind
  sc_enabled :: bool

type_synonym source_catalog = "source_entry list"

definition classify_source :: "string \<Rightarrow> source_kind" where
  "classify_source url =
     (if startswith url ''https://github.com/'' then GIT_REPOSITORY else WEB_CATALOG)"

definition admit_url :: "string \<Rightarrow> source_error + string" where
  "admit_url url =
     (if url = [] then Inl SourceUrlEmpty
      else if \<not> startswith url ''https://'' then Inl (SourceUrlNotHttps url)
      else if length url \<le> length ''https://'' + 1 then Inl (SourceUrlNoHost url)
      else Inr url)"

fun build_entries ::
  "string list \<Rightarrow> string set \<Rightarrow> string list \<Rightarrow> source_error + source_entry list" where
  "build_entries seen disabled [] = Inr []"
| "build_entries seen disabled (url # urls) = result_bind (admit_url url) (\<lambda>a.
     if a \<in> set seen then Inl (SourceUrlDuplicate a)
     else map_sum id
       (Cons \<lparr>sc_url = a, sc_kind = classify_source a, sc_enabled = (a \<notin> disabled)\<rparr>)
       (build_entries (a # seen) disabled urls))"

definition new_catalog :: "string list option \<Rightarrow> source_error + source_catalog" where
  "new_catalog urls =
     build_entries [] {} (case urls of None \<Rightarrow> IMPORT_SOURCES | Some us \<Rightarrow> us)"

definition allowed_prefixes :: "source_catalog \<Rightarrow> string list" where
  "allowed_prefixes cat = map sc_url (filter sc_enabled cat)"

text \<open>The result is the previous catalog and the new one.\<close>

definition set_sources ::
  "source_catalog \<Rightarrow> string list \<Rightarrow> string list option
     \<Rightarrow> source_error + (source_catalog \<times> source_catalog)" where
  "set_sources cat urls disabled =
     (let off = (case disabled of None \<Rightarrow> [] | Some ds \<Rightarrow> ds);
          unknown = filter (\<lambda>u. u \<notin> set urls) off
      in if unknown \<noteq> [] then Inl (DisabledUrlsUnlisted (sort (remdups unknown)))
         else map_sum id (Pair cat) (build_entries [] (set off) urls))"

definition restore_sources :: "source_catalog \<Rightarrow> source_catalog \<Rightarrow> source_catalog" where
  "restore_sources cat entries = entries"

section \<open>The resolver\<close>

record skill_exclusion =
  sx_skill_name :: string
  sx_reason :: string

record skill_resolution =
  sr_selected :: "skill list"
  sr_excluded :: "skill_exclusion list"

fun comma_joined :: "string list \<Rightarrow> string" where
  "comma_joined [] = []"
| "comma_joined [x] = x"
| "comma_joined (x # xs) = x @ '','' @ comma_joined xs"

definition missing_capabilities :: "string list \<Rightarrow> skill \<Rightarrow> string list" where
  "missing_capabilities required s =
     sort (remdups (filter (\<lambda>c. c \<notin> set (kf_capabilities (sk_manifest s))) required))"

definition incompatibility :: "string \<Rightarrow> string list \<Rightarrow> skill \<Rightarrow> string option" where
  "incompatibility role_name required s =
     (let roles = kf_compatible_roles (sk_manifest s) in
      if roles \<noteq> [] \<and> role_name \<notin> set roles then Some (''role_incompatible:'' @ role_name)
      else let missing = missing_capabilities required s in
           if missing \<noteq> [] then Some (''capabilities_missing:'' @ comma_joined missing)
           else None)"

fun gate_skills ::
  "string \<Rightarrow> string list \<Rightarrow> skill list \<Rightarrow> skill list \<times> skill_exclusion list" where
  "gate_skills role_name required [] = ([], [])"
| "gate_skills role_name required (s # ss) =
     (let (ok, ex) = gate_skills role_name required ss in
      case incompatibility role_name required s of
        Some why \<Rightarrow> (ok, \<lparr>sx_skill_name = sk_name s, sx_reason = why\<rparr> # ex)
      | None \<Rightarrow> (s # ok, ex))"

definition skill_rank_key :: "string list \<Rightarrow> string list \<Rightarrow> skill \<Rightarrow> nat \<times> int \<times> string" where
  "skill_rank_key preferred required s =
     (if sk_name s \<in> set preferred then 0 else 1,
      - int (length (remdups (filter (\<lambda>c. c \<in> set required) (kf_capabilities (sk_manifest s))))),
      sk_name s)"

text \<open>\<open>None\<close> is the \<open>ValueError\<close> of a limit below one.\<close>

definition resolve_skills ::
  "skill_registry \<Rightarrow> task_analysis \<Rightarrow> role_profile \<Rightarrow> int option \<Rightarrow> skill_resolution option" where
  "resolve_skills reg task p limit =
     (if (case limit of None \<Rightarrow> False | Some n \<Rightarrow> n < 1) then None
      else
        let required = ta_capabilities_required task;
            (compatible, excluded) =
              gate_skills (ro_name (rp_role p)) required (skill_list_selectable reg);
            ranked = sort_key (skill_rank_key (rp_preferred_skills p) required) compatible
        in Some \<lparr>sr_selected = (case limit of None \<Rightarrow> ranked | Some n \<Rightarrow> take (nat n) ranked),
                 sr_excluded = excluded\<rparr>)"

section \<open>Facts of the pipeline\<close>

text \<open>Whatever is called on a skill, in whatever order; a refused step changes nothing.\<close>

datatype skill_op =
  OpScan "string list" | OpValidate | OpReview string | OpApprove | OpActivate

fun apply_skill_op :: "skill \<Rightarrow> skill_op \<Rightarrow> skill_error + skill" where
  "apply_skill_op s (OpScan fs) = scan_skill s fs"
| "apply_skill_op s OpValidate = validate_skill s"
| "apply_skill_op s (OpReview r) = review_skill s r"
| "apply_skill_op s OpApprove = approve_skill s"
| "apply_skill_op s OpActivate = activate_skill s"

definition try_skill_op :: "skill \<Rightarrow> skill_op \<Rightarrow> skill" where
  "try_skill_op s op = (case apply_skill_op s op of Inl _ \<Rightarrow> s | Inr s' \<Rightarrow> s')"

definition run_skill_ops :: "skill \<Rightarrow> skill_op list \<Rightarrow> skill" where
  "run_skill_ops = foldl try_skill_op"

definition pipeline_path :: "string \<Rightarrow> skill_op list" where
  "pipeline_path reviewer =
     [OpScan [], OpValidate, OpReview reviewer, OpApprove, OpActivate]"

text \<open>How far a skill has come: the first \<open>n\<close> steps of the path are done.\<close>

definition at_stage :: "skill \<Rightarrow> nat \<Rightarrow> skill \<Rightarrow> bool" where
  "at_stage s0 n s \<longleftrightarrow>
     n \<le> 5 \<and> sk_status s = IMPORT_LIFECYCLE_ORDER ! n
     \<and> sk_source s = (if n = 5 then SKILL_LOCAL else SKILL_IMPORTED_SOURCE)
     \<and> first_divergent s = None
     \<and> sk_id s = sk_id s0
     \<and> kp_checksum (sk_provenance s) = kp_checksum (sk_provenance s0)
     \<and> kp_source_url (sk_provenance s) = kp_source_url (sk_provenance s0)
     \<and> (3 \<le> n \<longleftrightarrow> kp_reviewed_by (sk_provenance s) \<noteq> None)"

lemma order_nth:
  "IMPORT_LIFECYCLE_ORDER ! 0 = SKILL_IMPORTED" "IMPORT_LIFECYCLE_ORDER ! 1 = SKILL_SCANNED"
  "IMPORT_LIFECYCLE_ORDER ! 2 = SKILL_VALIDATED" "IMPORT_LIFECYCLE_ORDER ! 3 = SKILL_REVIEWED"
  "IMPORT_LIFECYCLE_ORDER ! 4 = SKILL_APPROVED" "IMPORT_LIFECYCLE_ORDER ! 5 = SKILL_ACTIVE"
  by (simp_all add: IMPORT_LIFECYCLE_ORDER_def)

lemma order_nth_inj:
  "n \<le> 5 \<Longrightarrow> m \<le> 5 \<Longrightarrow> IMPORT_LIFECYCLE_ORDER ! n = IMPORT_LIFECYCLE_ORDER ! m \<longleftrightarrow> n = m"
  by (auto simp: IMPORT_LIFECYCLE_ORDER_def less_Suc_eq_le nth_eq_iff_index_eq)

lemma first_divergent_None:
  "first_divergent s = None \<longleftrightarrow>
     sk_name s = kf_name (sk_manifest s) \<and> sk_version s = kf_version (sk_manifest s)
     \<and> sk_type s = kf_type (sk_manifest s) \<and> sk_source s = kf_source (sk_manifest s)
     \<and> sk_status s = kf_status (sk_manifest s)"
  by (auto simp: first_divergent_def manifest_agreement_def Let_def)

lemma require_step_None:
  "require_step s st w = None \<longleftrightarrow> sk_source s = SKILL_IMPORTED_SOURCE \<and> sk_status s = st"
  by (simp add: require_step_def)

lemma advance_skill_sel [simp]:
  "sk_status (advance_skill s st) = st" "sk_source (advance_skill s st) = sk_source s"
  "sk_id (advance_skill s st) = sk_id s" "sk_provenance (advance_skill s st) = sk_provenance s"
  "sk_manifest (advance_skill s st) = (sk_manifest s)\<lparr>kf_status := st\<rparr>"
  "sk_name (advance_skill s st) = sk_name s" "sk_version (advance_skill s st) = sk_version s"
  "sk_type (advance_skill s st) = sk_type s"
  by (simp_all add: advance_skill_def)

lemma scan_skill_Inr:
  "scan_skill s fs = Inr s' \<longleftrightarrow> require_step s SKILL_IMPORTED ''scan'' = None \<and> fs = []
     \<and> s' = advance_skill s SKILL_SCANNED"
  by (auto simp: scan_skill_def split: option.splits)

lemma validate_skill_Inr:
  "validate_skill s = Inr s' \<longleftrightarrow> require_step s SKILL_SCANNED ''validate'' = None
     \<and> first_divergent s = None
     \<and> find (\<lambda>(_, present). \<not> present) (pre_review_provenance (sk_provenance s)) = None
     \<and> s' = advance_skill s SKILL_VALIDATED"
  by (auto simp: validate_skill_def split: option.splits)

lemma review_skill_Inr:
  "review_skill s r = Inr s' \<longleftrightarrow> require_step s SKILL_VALIDATED ''review'' = None
     \<and> s' = (advance_skill s SKILL_REVIEWED)
                 \<lparr>sk_provenance := (sk_provenance s)\<lparr>kp_reviewed_by := Some r\<rparr>\<rparr>"
  by (auto simp: review_skill_def split: option.splits)

lemma approve_skill_Inr:
  "approve_skill s = Inr s' \<longleftrightarrow> require_step s SKILL_REVIEWED ''approve'' = None
     \<and> kp_reviewed_by (sk_provenance s) \<noteq> None \<and> s' = advance_skill s SKILL_APPROVED"
  by (auto simp: approve_skill_def split: option.splits)

lemma activate_skill_Inr:
  "activate_skill s = Inr s' \<longleftrightarrow> require_step s SKILL_APPROVED ''activate'' = None
     \<and> s' = (advance_skill s SKILL_ACTIVE)\<lparr>sk_source := SKILL_LOCAL,
          sk_manifest := (sk_manifest (advance_skill s SKILL_ACTIVE))\<lparr>kf_source := SKILL_LOCAL\<rparr>\<rparr>"
  by (auto simp: activate_skill_def Let_def split: option.splits)

lemmas skill_step_Inr =
  scan_skill_Inr validate_skill_Inr review_skill_Inr approve_skill_Inr activate_skill_Inr

lemma at_stage_next:
  assumes "at_stage s0 n s" and "apply_skill_op s op = Inr s'"
  shows "n < 5 \<and> at_stage s0 (Suc n) s'
    \<and> (\<exists>r. op = pipeline_path r ! n \<and> (3 \<le> Suc n \<longrightarrow> kp_reviewed_by (sk_provenance s') = Some r))"
proof -
  from assms(1) have n: "n \<le> 5" "sk_status s = IMPORT_LIFECYCLE_ORDER ! n"
    by (simp_all add: at_stage_def)
  have st: "n = m" if "sk_status s = IMPORT_LIFECYCLE_ORDER ! m" "m \<le> 5" for m
    using order_nth_inj [OF n(1) that(2)] n(2) that(1) by metis
  show ?thesis
  proof (cases op)
    case (OpScan fs)
    with assms(2) have f: "require_step s SKILL_IMPORTED ''scan'' = None" "fs = []"
        "s' = advance_skill s SKILL_SCANNED" by (auto simp: skill_step_Inr)
    then have "n = 0" using st [of 0] by (simp add: require_step_None IMPORT_LIFECYCLE_ORDER_def)
    with f OpScan assms(1) show ?thesis
      by (auto simp: at_stage_def first_divergent_None IMPORT_LIFECYCLE_ORDER_def pipeline_path_def)
  next
    case OpValidate
    with assms(2) have f: "require_step s SKILL_SCANNED ''validate'' = None"
        "s' = advance_skill s SKILL_VALIDATED" by (auto simp: skill_step_Inr)
    then have "n = 1" using st [of 1] by (simp add: require_step_None IMPORT_LIFECYCLE_ORDER_def)
    with f OpValidate assms(1) show ?thesis
      by (auto simp: at_stage_def first_divergent_None IMPORT_LIFECYCLE_ORDER_def pipeline_path_def)
  next
    case (OpReview r)
    with assms(2) have f: "require_step s SKILL_VALIDATED ''review'' = None"
        "s' = (advance_skill s SKILL_REVIEWED)
                 \<lparr>sk_provenance := (sk_provenance s)\<lparr>kp_reviewed_by := Some r\<rparr>\<rparr>"
      by (auto simp: skill_step_Inr)
    then have "n = 2" using st [of 2] by (simp add: require_step_None IMPORT_LIFECYCLE_ORDER_def)
    with f OpReview assms(1) show ?thesis
      by (auto simp: at_stage_def first_divergent_None IMPORT_LIFECYCLE_ORDER_def pipeline_path_def)
  next
    case OpApprove
    with assms(2) have f: "require_step s SKILL_REVIEWED ''approve'' = None"
        "kp_reviewed_by (sk_provenance s) \<noteq> None" "s' = advance_skill s SKILL_APPROVED"
      by (auto simp: skill_step_Inr)
    then have "n = 3" using st [of 3] by (simp add: require_step_None IMPORT_LIFECYCLE_ORDER_def)
    with f OpApprove assms(1) show ?thesis
      by (auto simp: at_stage_def first_divergent_None IMPORT_LIFECYCLE_ORDER_def pipeline_path_def)
  next
    case OpActivate
    with assms(2) have f: "require_step s SKILL_APPROVED ''activate'' = None"
        "s' = (advance_skill s SKILL_ACTIVE)\<lparr>sk_source := SKILL_LOCAL, sk_manifest :=
           (sk_manifest (advance_skill s SKILL_ACTIVE))\<lparr>kf_source := SKILL_LOCAL\<rparr>\<rparr>"
      by (auto simp: skill_step_Inr)
    then have "n = 4" using st [of 4] by (simp add: require_step_None IMPORT_LIFECYCLE_ORDER_def)
    with f OpActivate assms(1) show ?thesis
      by (auto simp: at_stage_def first_divergent_None IMPORT_LIFECYCLE_ORDER_def pipeline_path_def)
  qed
qed

text \<open>The steps done are the path's prefix, found in order among the calls made.\<close>

lemma run_skill_ops_stage:
  assumes "at_stage s0 0 s0"
  shows "\<exists>n. at_stage s0 n (run_skill_ops s0 ops)
    \<and> (\<exists>r. subseq (take n (pipeline_path r)) ops
         \<and> (3 \<le> n \<longrightarrow> kp_reviewed_by (sk_provenance (run_skill_ops s0 ops)) = Some r))"
proof (induction ops rule: rev_induct)
  case Nil
  then show ?case using assms by (auto simp: run_skill_ops_def intro: exI [of _ 0])
next
  case (snoc op ops)
  let ?s = "run_skill_ops s0 ops"
  obtain n r where n: "at_stage s0 n ?s" "subseq (take n (pipeline_path r)) ops"
      "3 \<le> n \<longrightarrow> kp_reviewed_by (sk_provenance ?s) = Some r"
    using snoc.IH by blast
  have run: "run_skill_ops s0 (ops @ [op]) = try_skill_op ?s op"
    by (simp add: run_skill_ops_def)
  show ?case
  proof (cases "apply_skill_op ?s op")
    case (Inl e)
    have "subseq (take n (pipeline_path r)) (ops @ [op])"
      using list_emb_append_mono [OF n(2), of "[]" "[op]"] by simp
    with Inl n run show ?thesis by (auto simp: try_skill_op_def)
  next
    case (Inr s')
    from at_stage_next [OF n(1) Inr] obtain q where q: "n < 5" "at_stage s0 (Suc n) s'"
        "op = pipeline_path q ! n" "3 \<le> Suc n \<longrightarrow> kp_reviewed_by (sk_provenance s') = Some q"
      by blast
    have "take n (pipeline_path q) = take n (pipeline_path r)"
    proof (cases "3 \<le> n")
      case True
      have "kp_reviewed_by (sk_provenance s') = kp_reviewed_by (sk_provenance ?s)"
        using True Inr q(3) by (cases op; cases "n = 3"; cases "n = 4")
          (use q(1) True in \<open>auto simp: skill_step_Inr pipeline_path_def numeral_eq_Suc
             \<close>)
      with True n(3) q(4) show ?thesis by simp
    next
      case False
      then have "n = 0 \<or> n = 1 \<or> n = 2" by auto
      then show ?thesis by (auto simp: pipeline_path_def)
    qed
    moreover have "take (Suc n) (pipeline_path q) = take n (pipeline_path q) @ [op]"
      using q(1) by (simp only: q(3)) (rule take_Suc_conv_app_nth, simp add: pipeline_path_def)
    ultimately have "subseq (take (Suc n) (pipeline_path q)) (ops @ [op])"
      using list_emb_append_mono [OF n(2), of "[op]" "[op]"] by simp
    moreover have "run_skill_ops s0 (ops @ [op]) = s'"
      using Inr run by (simp add: try_skill_op_def)
    ultimately show ?thesis using q(2,4) by blast
  qed
qed

lemma import_skill_stage:
  assumes "import_skill digest allowlist c = Inr s0"
  shows "at_stage s0 0 s0"
    and "kp_checksum (sk_provenance s0) = Some (digest (ic_content c))"
    and "kp_source_url (sk_provenance s0) = Some (ic_source_url c)"
    and "\<exists>p \<in> set allowlist. startswith (ic_source_url c) p"
    and "ic_expected_checksum c \<in> {None, Some (digest (ic_content c))}"
  using assms
  by (auto simp: import_skill_def Let_def at_stage_def first_divergent_None
      IMPORT_LIFECYCLE_ORDER_def list_ex_iff split: if_splits)

lemma pipeline_leads_there:
  assumes "import_skill digest allowlist c = Inr s0"
  shows "skill_selectable (run_skill_ops s0 (pipeline_path reviewer))"
proof -
  define s1 where "s1 = advance_skill s0 SKILL_SCANNED"
  define s2 where "s2 = advance_skill s1 SKILL_VALIDATED"
  define s3 where "s3 = (advance_skill s2 SKILL_REVIEWED)
    \<lparr>sk_provenance := (sk_provenance s2)\<lparr>kp_reviewed_by := Some reviewer\<rparr>\<rparr>"
  define s4 where "s4 = advance_skill s3 SKILL_APPROVED"
  define s5 where "s5 = (advance_skill s4 SKILL_ACTIVE)\<lparr>sk_source := SKILL_LOCAL,
    sk_manifest := (sk_manifest (advance_skill s4 SKILL_ACTIVE))\<lparr>kf_source := SKILL_LOCAL\<rparr>\<rparr>"
  have i: "sk_source s0 = SKILL_IMPORTED_SOURCE" "sk_status s0 = SKILL_IMPORTED"
      "first_divergent s0 = None"
    using import_skill_stage(1) [OF assms] by (auto simp: at_stage_def order_nth)
  have "find (\<lambda>(_, present). \<not> present) (pre_review_provenance (sk_provenance s0)) = None"
    using assms by (auto simp: import_skill_def Let_def pre_review_provenance_def split: if_splits)
  with i have "validate_skill s1 = Inr s2"
    by (auto simp: validate_skill_Inr require_step_None first_divergent_None s1_def s2_def)
  moreover have "scan_skill s0 [] = Inr s1"
    using i by (simp add: scan_skill_Inr require_step_None s1_def)
  moreover have "review_skill s2 reviewer = Inr s3"
    using i by (simp add: review_skill_Inr require_step_None s1_def s2_def s3_def)
  moreover have "approve_skill s3 = Inr s4"
    using i by (simp add: approve_skill_Inr require_step_None s1_def s2_def s3_def s4_def)
  moreover have "activate_skill s4 = Inr s5"
    using i by (simp add: activate_skill_Inr require_step_None s1_def s2_def s3_def s4_def s5_def)
  ultimately have "run_skill_ops s0 (pipeline_path reviewer) = s5"
    by (simp add: run_skill_ops_def pipeline_path_def try_skill_op_def)
  then show ?thesis by (simp add: s5_def skill_selectable_def)
qed

lemma selectable_only_through_the_pipeline_parts:
  assumes imp: "import_skill digest allowlist c = Inr s0"
  shows "skill_selectable (run_skill_ops s0 ops) \<Longrightarrow>
      \<exists>reviewer. subseq (pipeline_path reviewer) ops
        \<and> kp_reviewed_by (sk_provenance (run_skill_ops s0 ops)) = Some reviewer
        \<and> kp_checksum (sk_provenance (run_skill_ops s0 ops)) = Some (digest (ic_content c))
        \<and> ic_expected_checksum c \<in> {None, Some (digest (ic_content c))}
        \<and> list_ex (startswith (ic_source_url c)) allowlist
        \<and> first_divergent (run_skill_ops s0 ops) = None"
    and "skill_selectable (run_skill_ops s0 (pipeline_path reviewer))"
proof -
  note i = import_skill_stage [OF imp]
  obtain n r where n: "at_stage s0 n (run_skill_ops s0 ops)"
      "subseq (take n (pipeline_path r)) ops"
      "3 \<le> n \<longrightarrow> kp_reviewed_by (sk_provenance (run_skill_ops s0 ops)) = Some r"
    using run_skill_ops_stage [OF i(1)] by blast
  show "\<exists>reviewer. subseq (pipeline_path reviewer) ops
        \<and> kp_reviewed_by (sk_provenance (run_skill_ops s0 ops)) = Some reviewer
        \<and> kp_checksum (sk_provenance (run_skill_ops s0 ops)) = Some (digest (ic_content c))
        \<and> ic_expected_checksum c \<in> {None, Some (digest (ic_content c))}
        \<and> list_ex (startswith (ic_source_url c)) allowlist
        \<and> first_divergent (run_skill_ops s0 ops) = None"
    if sel: "skill_selectable (run_skill_ops s0 ops)"
  proof -
    from sel n(1) have "n = 5" by (auto simp: skill_selectable_def at_stage_def split: if_splits)
    then have "take n (pipeline_path r) = pipeline_path r" by (simp add: pipeline_path_def)
    with n i \<open>n = 5\<close> show ?thesis by (auto simp: at_stage_def list_ex_iff)
  qed
  show "skill_selectable (run_skill_ops s0 (pipeline_path reviewer))"
    by (rule pipeline_leads_there [OF imp])
qed

text \<open>
  C27. Nothing imported becomes selectable without the whole review: whatever steps are called
  on an imported skill, in any order and any number, once the registry would select it those
  calls contain a scan without findings, a validation, a review, an approval and an
  activation, in this order; the reviewer of that review is on record, the checksum is that
  of the imported content and matches a declared one, and the source is on the allowlist.
  And that path does lead there.
\<close>


theorem selectable_only_through_the_pipeline:
  assumes "import_skill digest allowlist c = Inr s0"
  shows "(skill_selectable (run_skill_ops s0 ops) \<longrightarrow>
      (\<exists>reviewer. subseq (pipeline_path reviewer) ops
        \<and> kp_reviewed_by (sk_provenance (run_skill_ops s0 ops)) = Some reviewer
        \<and> kp_checksum (sk_provenance (run_skill_ops s0 ops)) = Some (digest (ic_content c))
        \<and> ic_expected_checksum c \<in> {None, Some (digest (ic_content c))}
        \<and> list_ex (startswith (ic_source_url c)) allowlist
        \<and> first_divergent (run_skill_ops s0 ops) = None))
    \<and> skill_selectable (run_skill_ops s0 (pipeline_path approver))"
  using selectable_only_through_the_pipeline_parts [OF assms] by blast

text \<open>The allowlist is a textual prefix: a sibling of an admitted repository passes.\<close>

lemma import_admits_lookalike_source:
  assumes "ic_source_url c = ''https://github.com/mattpocock/skills-evil/x''"
    and "ic_expected_checksum c = None"
  shows "\<exists>s. import_skill digest IMPORT_SOURCES c = Inr s"
  using assms by (simp add: import_skill_def IMPORT_SOURCES_def startswith_def Let_def)

section \<open>Facts of the resolver and the catalog\<close>

lemma gate_skills_eq:
  "gate_skills role_name required ss =
     (filter (\<lambda>s. incompatibility role_name required s = None) ss,
      map (\<lambda>s. \<lparr>sx_skill_name = sk_name s, sx_reason = the (incompatibility role_name required s)\<rparr>)
        (filter (\<lambda>s. incompatibility role_name required s \<noteq> None) ss))"
  by (induction ss) (auto split: option.splits)

lemma incompatibility_None:
  "incompatibility role_name required s = None \<longleftrightarrow>
     (kf_compatible_roles (sk_manifest s) = []
       \<or> role_name \<in> set (kf_compatible_roles (sk_manifest s)))
     \<and> set required \<subseteq> set (kf_capabilities (sk_manifest s))"
proof -
  have "missing_capabilities required s = [] \<longleftrightarrow>
      filter (\<lambda>c. c \<notin> set (kf_capabilities (sk_manifest s))) required = []"
    unfolding missing_capabilities_def
    by (metis remdups_eq_nil_iff set_empty2 set_sort)
  then have "missing_capabilities required s = [] \<longleftrightarrow>
      set required \<subseteq> set (kf_capabilities (sk_manifest s))"
    by (auto simp: filter_empty_conv)
  then show ?thesis by (simp add: incompatibility_def Let_def)
qed

lemma resolver_explains_every_candidate_parts:
  assumes "resolve_skills reg task p limit = Some res"
  defines "why \<equiv> incompatibility (ro_name (rp_role p)) (ta_capabilities_required task)"
  shows "\<forall>s \<in> set (sr_selected res). s \<in> snd ` set reg \<and> skill_selectable s
      \<and> (kf_compatible_roles (sk_manifest s) = []
          \<or> ro_name (rp_role p) \<in> set (kf_compatible_roles (sk_manifest s)))
      \<and> set (ta_capabilities_required task) \<subseteq> set (kf_capabilities (sk_manifest s))"
    and "map sx_skill_name (sr_excluded res)
      = map sk_name (filter (\<lambda>s. why s \<noteq> None) (skill_list_selectable reg))
     \<and> map (Some \<circ> sx_reason) (sr_excluded res)
      = map why (filter (\<lambda>s. why s \<noteq> None) (skill_list_selectable reg))"
    and "\<exists>ranked. mset ranked = mset (filter (\<lambda>s. why s = None) (skill_list_selectable reg))
      \<and> sorted (map (skill_rank_key (rp_preferred_skills p) (ta_capabilities_required task)) ranked)
      \<and> sr_selected res = (case limit of None \<Rightarrow> ranked | Some n \<Rightarrow> take (nat n) ranked)"
proof -
  let ?key = "skill_rank_key (rp_preferred_skills p) (ta_capabilities_required task)"
  let ?ok = "filter (\<lambda>s. why s = None) (skill_list_selectable reg)"
  let ?bad = "filter (\<lambda>s. why s \<noteq> None) (skill_list_selectable reg)"
  define ranked where "ranked = sort_key ?key ?ok"
  have res: "sr_selected res = (case limit of None \<Rightarrow> ranked | Some n \<Rightarrow> take (nat n) ranked)"
      "sr_excluded res = map (\<lambda>s. \<lparr>sx_skill_name = sk_name s, sx_reason = the (why s)\<rparr>) ?bad"
    using assms(1) unfolding ranked_def why_def
    by (auto simp: resolve_skills_def gate_skills_eq Let_def split: if_splits)
  have sub: "set (sr_selected res) \<subseteq> set ranked"
    using res(1) by (auto split: option.splits dest: in_set_takeD)
  have "set ranked = {s \<in> snd ` set reg. skill_selectable s \<and> why s = None}"
    by (auto simp: ranked_def skill_list_selectable_def)
  with sub show "\<forall>s \<in> set (sr_selected res). s \<in> snd ` set reg \<and> skill_selectable s
      \<and> (kf_compatible_roles (sk_manifest s) = []
          \<or> ro_name (rp_role p) \<in> set (kf_compatible_roles (sk_manifest s)))
      \<and> set (ta_capabilities_required task) \<subseteq> set (kf_capabilities (sk_manifest s))"
    unfolding why_def incompatibility_None by blast
  show "map sx_skill_name (sr_excluded res) = map sk_name ?bad
     \<and> map (Some \<circ> sx_reason) (sr_excluded res) = map why ?bad"
    by (simp add: res(2))
  show "\<exists>ranked. mset ranked = mset ?ok \<and> sorted (map ?key ranked)
      \<and> sr_selected res = (case limit of None \<Rightarrow> ranked | Some n \<Rightarrow> take (nat n) ranked)"
    using res(1) by (intro exI [of _ ranked]) (simp add: ranked_def)
qed

text \<open>
  The resolver neither widens admission nor drops anything silently: every selected skill
  is registered, active, local, compatible with the role and covers every capability the task
  requires; the exclusions name exactly the selectable skills that do not, each with its
  reason; the selection is the ranking of all the others - preferred skills first - cut to
  the limit.
\<close>


theorem resolver_explains_every_candidate:
  assumes "resolve_skills reg task p limit = Some res"
  shows "\<exists>why. why = incompatibility (ro_name (rp_role p)) (ta_capabilities_required task)
    \<and> (\<forall>s \<in> set (sr_selected res). s \<in> snd ` set reg \<and> skill_selectable s
      \<and> (kf_compatible_roles (sk_manifest s) = []
          \<or> ro_name (rp_role p) \<in> set (kf_compatible_roles (sk_manifest s)))
      \<and> set (ta_capabilities_required task) \<subseteq> set (kf_capabilities (sk_manifest s)))
    \<and> map sx_skill_name (sr_excluded res)
      = map sk_name (filter (\<lambda>s. why s \<noteq> None) (skill_list_selectable reg))
    \<and> map (Some \<circ> sx_reason) (sr_excluded res)
      = map why (filter (\<lambda>s. why s \<noteq> None) (skill_list_selectable reg))
    \<and> (\<exists>ranked. mset ranked = mset (filter (\<lambda>s. why s = None) (skill_list_selectable reg))
      \<and> sorted (map (skill_rank_key (rp_preferred_skills p) (ta_capabilities_required task)) ranked)
      \<and> sr_selected res = (case limit of None \<Rightarrow> ranked | Some n \<Rightarrow> take (nat n) ranked))"
  using resolver_explains_every_candidate_parts [OF assms] by blast

lemma build_entries_Inr:
  "build_entries seen off urls = Inr es \<longleftrightarrow>
     distinct urls \<and> set urls \<inter> set seen = {} \<and> (\<forall>u \<in> set urls. admit_url u = Inr u)
     \<and> es = map (\<lambda>u. \<lparr>sc_url = u, sc_kind = classify_source u, sc_enabled = (u \<notin> off)\<rparr>) urls"
proof (induction urls arbitrary: seen es)
  case (Cons u us)
  have admit: "admit_url u = Inr a \<Longrightarrow> a = u" for a
    by (auto simp: admit_url_def split: if_splits)
  show ?case
  proof (cases "admit_url u")
    case (Inl e)
    then show ?thesis by auto
  next
    case (Inr a)
    with admit have a: "a = u" by blast
    show ?thesis
    proof (cases "u \<in> set seen")
      case False
      have "build_entries seen off (u # us) = Inr es \<longleftrightarrow>
          (\<exists>es'. build_entries (u # seen) off us = Inr es'
             \<and> es = \<lparr>sc_url = u, sc_kind = classify_source u, sc_enabled = (u \<notin> off)\<rparr> # es')"
        using Inr a False by (cases "build_entries (u # seen) off us") auto
      then show ?thesis
        unfolding Cons.IH using Inr a False by auto
    qed (use Inr a in auto)
  qed
qed auto

text \<open>
  Replacing the source catalog is exact and reversible: the new live allowlist is the
  submitted list without the disabled urls, in the submitted order, every entry an https url
  listed once; the previous entries are returned and restoring them gives the old catalog
  back; and an import is admitted exactly when its url extends an enabled entry.
\<close>

theorem catalog_replacement_is_exact:
  assumes "set_sources cat urls disabled = Inr (previous, cat')"
  shows "restore_sources cat' previous = cat"
    and "allowed_prefixes cat' = filter (\<lambda>u. disabled = None \<or> u \<notin> set (the disabled)) urls"
    and "distinct (map sc_url cat') \<and> (\<forall>e \<in> set cat'. startswith (sc_url e) ''https://''
           \<and> (sc_kind e = GIT_REPOSITORY \<longleftrightarrow> startswith (sc_url e) ''https://github.com/''))"
    and "ic_expected_checksum c = None \<Longrightarrow>
         (\<exists>s. import_skill digest (allowed_prefixes cat') c = Inr s)
         \<longleftrightarrow> (\<exists>u \<in> set urls. (disabled = None \<or> u \<notin> set (the disabled))
                \<and> startswith (ic_source_url c) u)"
proof -
  let ?off = "case disabled of None \<Rightarrow> [] | Some ds \<Rightarrow> ds"
  from assms have prev: "previous = cat" and b: "build_entries [] (set ?off) urls = Inr cat'"
    by (auto simp: set_sources_def Let_def map_sum_def split: if_splits sum.splits)
  from prev show "restore_sources cat' previous = cat" by (simp add: restore_sources_def)
  from b have e: "distinct urls" "\<forall>u \<in> set urls. admit_url u = Inr u"
      "cat' = map (\<lambda>u. \<lparr>sc_url = u, sc_kind = classify_source u, sc_enabled = (u \<notin> set ?off)\<rparr>) urls"
    by (auto simp: build_entries_Inr)
  have off: "u \<notin> set ?off \<longleftrightarrow> disabled = None \<or> u \<notin> set (the disabled)" for u
    by (cases disabled) auto
  show allowed: "allowed_prefixes cat' = filter (\<lambda>u. disabled = None \<or> u \<notin> set (the disabled)) urls"
  proof -
    have "filter (\<lambda>u. u \<notin> set ?off) urls
        = filter (\<lambda>u. disabled = None \<or> u \<notin> set (the disabled)) urls"
      by (rule filter_cong) (simp_all only: off)
    then show ?thesis unfolding allowed_prefixes_def e(3) by (simp add: filter_map comp_def)
  qed
  have "startswith u ''https://''" if "u \<in> set urls" for u
    using e(2) that by (auto simp: admit_url_def split: if_splits)
  then show "distinct (map sc_url cat') \<and> (\<forall>e \<in> set cat'. startswith (sc_url e) ''https://''
           \<and> (sc_kind e = GIT_REPOSITORY \<longleftrightarrow> startswith (sc_url e) ''https://github.com/''))"
    using e(1) by (auto simp: e(3) comp_def classify_source_def)
  show "(\<exists>s. import_skill digest (allowed_prefixes cat') c = Inr s)
         \<longleftrightarrow> (\<exists>u \<in> set urls. (disabled = None \<or> u \<notin> set (the disabled))
                \<and> startswith (ic_source_url c) u)" if "ic_expected_checksum c = None"
    using that unfolding allowed
    by (auto simp: import_skill_def Let_def list_ex_iff)
qed

section \<open>Concrete instances\<close>

definition ex_manifest :: skill_manifest where
  "ex_manifest = \<lparr>kf_id = ''review'', kf_name = ''review'', kf_version = ''1'',
     kf_type = SKILL_INSTRUCTION, kf_source = SKILL_LOCAL, kf_status = SKILL_ACTIVE,
     kf_capabilities = [''code''], kf_inputs_schema = None, kf_outputs_format = None,
     kf_requires_tools = \<lparr>tr_required = [], tr_optional = []\<rparr>, kf_permissions_requested = [],
     kf_invocation = INVOKE_USER, kf_compatible_roles = []\<rparr>"

definition ex_import :: import_call where
  "ex_import = \<lparr>ic_skill_id = 3, ic_manifest = ex_manifest, ic_content = ''text'',
     ic_source_url = ''https://github.com/mattpocock/skills/a'', ic_source_version = ''v1'',
     ic_imported_at = 0, ic_expected_checksum = None, ic_local_version = None\<rparr>"

definition ex_imported :: skill where
  "ex_imported = projr (import_skill (\<lambda>s. s) IMPORT_SOURCES ex_import)"

lemma ex_import_ok: "import_skill (\<lambda>s. s) IMPORT_SOURCES ex_import = Inr ex_imported"
  by (simp add: ex_imported_def import_skill_def ex_import_def IMPORT_SOURCES_def startswith_def
      Let_def)

theorem selectable_only_through_the_pipeline_witness:
  "\<exists>reviewer. subseq (pipeline_path reviewer) (pipeline_path ''ann'')
     \<and> kp_reviewed_by (sk_provenance (run_skill_ops ex_imported (pipeline_path ''ann'')))
         = Some reviewer"
  using selectable_only_through_the_pipeline [OF ex_import_ok, of "pipeline_path ''ann''" "''ann''"]
  by blast

definition ex_skill :: skill where
  "ex_skill = \<lparr>sk_id = 3, sk_name = ''review'', sk_version = ''1'', sk_type = SKILL_INSTRUCTION,
     sk_source = SKILL_LOCAL, sk_provenance = \<lparr>kp_source_url = None, kp_source_version = None,
       kp_checksum = None, kp_imported_at = None, kp_reviewed_by = None, kp_local_version = None\<rparr>,
     sk_manifest = ex_manifest, sk_status = SKILL_ACTIVE\<rparr>"

definition ex_task :: task_analysis where
  "ex_task = \<lparr>ta_task_type = ''t'', ta_complexity = ''low'', ta_modalities_required = [],
     ta_capabilities_required = [''code''], ta_tools_required = [], ta_risk_level = ''low'',
     ta_needs_agent = None, ta_needs_evaluation = None, ta_language = None\<rparr>"

definition ex_profile :: role_profile where
  "ex_profile = \<lparr>rp_role = \<lparr>ro_id = 4, ro_scope = RS_SYSTEM, ro_name = ''dev'', ro_version = ''1'',
       ro_objective = ''o'', ro_behavior_policies = [], ro_output_contract = [],
       ro_status = ROLE_ACTIVE, ro_capabilities_requested = []\<rparr>,
     rp_preferred_skills = [], rp_runtime_override = None\<rparr>"

lemma ex_resolution:
  "resolve_skills [(3, ex_skill)] ex_task ex_profile None
     = Some \<lparr>sr_selected = [ex_skill], sr_excluded = []\<rparr>"
  by (simp add: resolve_skills_def skill_list_selectable_def skill_selectable_def ex_skill_def
      ex_task_def ex_profile_def ex_manifest_def incompatibility_def missing_capabilities_def)

theorem resolver_explains_every_candidate_witness:
  "skill_selectable ex_skill"
  using resolver_explains_every_candidate [OF ex_resolution] by auto

definition ex_catalog :: source_catalog where
  "ex_catalog = [\<lparr>sc_url = ''https://a.b'', sc_kind = WEB_CATALOG, sc_enabled = True\<rparr>]"

lemma ex_set_sources: "set_sources [] [''https://a.b''] None = Inr ([], ex_catalog)"
  by (simp add: set_sources_def admit_url_def startswith_def classify_source_def ex_catalog_def)

theorem catalog_replacement_is_exact_witness:
  "restore_sources ex_catalog [] = []"
  using catalog_replacement_is_exact(1) [OF ex_set_sources] .

end
