(* ===== verification/Evaluation_Policy.thy ===== *)
theory Evaluation_Policy
  imports Skill_Pipeline Learning_Sanitizer
begin

text \<open>
  Evaluation: the contract \<open>core/contracts/evaluation.py\<close>, the append-only store of
  \<open>core/evaluation/memory.py\<close>, the policy service of \<open>policy.py\<close> and the specialty graders
  of \<open>graders.py\<close>.  A judge is an arbitrary function on the external world \<open>'w\<close> that answers
  with a row or fails; scores are rationals.  Lemmas: the level of a record is the rung its
  rows earn (equivalence of the ladder arithmetic with a case table), every record built is
  valid, a broken judge costs only its own row, and history is never rewritten.
\<close>

section \<open>Contract\<close>

datatype verification_level =
  LEVEL_RAW | LEVEL_EVALUATED | LEVEL_VALIDATED | LEVEL_VERIFIED | LEVEL_GOLD

definition VERIFICATION_LEVEL_ORDER :: "verification_level list" where
  "VERIFICATION_LEVEL_ORDER =
     [LEVEL_RAW, LEVEL_EVALUATED, LEVEL_VALIDATED, LEVEL_VERIFIED, LEVEL_GOLD]"

text \<open>\<open>VERIFICATION_LEVEL_ORDER.index(level)\<close>.\<close>

definition level_index :: "verification_level \<Rightarrow> nat" where
  "level_index l = length (takeWhile (\<lambda>x. x \<noteq> l) VERIFICATION_LEVEL_ORDER)"

datatype evaluation_status = NEVER_EVALUATED | WAS_EVALUATED

datatype grader_type =
    GRADER_DETERMINISTIC | GRADER_MODEL_BASED | GRADER_PAIRWISE | GRADER_COUNTER_EVALUATION
  | GRADER_SKILL_SPECIFIC | GRADER_ROLE_SPECIFIC | GRADER_SECURITY | GRADER_REGRESSION
  | GRADER_HUMAN_CALIBRATED | GRADER_PRODUCTION_SIGNAL

fun grader_type_value :: "grader_type \<Rightarrow> string" where
  "grader_type_value GRADER_DETERMINISTIC = ''deterministic''"
| "grader_type_value GRADER_MODEL_BASED = ''model_based''"
| "grader_type_value GRADER_PAIRWISE = ''pairwise''"
| "grader_type_value GRADER_COUNTER_EVALUATION = ''counter_evaluation''"
| "grader_type_value GRADER_SKILL_SPECIFIC = ''skill_specific''"
| "grader_type_value GRADER_ROLE_SPECIFIC = ''role_specific''"
| "grader_type_value GRADER_SECURITY = ''security''"
| "grader_type_value GRADER_REGRESSION = ''regression''"
| "grader_type_value GRADER_HUMAN_CALIBRATED = ''human_calibrated''"
| "grader_type_value GRADER_PRODUCTION_SIGNAL = ''production_signal''"

definition MVP_ACTIVE_GRADER_TYPES :: "grader_type list" where
  "MVP_ACTIVE_GRADER_TYPES = [GRADER_DETERMINISTIC, GRADER_MODEL_BASED]"

definition FINAL_ACTIVE_GRADER_TYPES :: "grader_type list" where
  "FINAL_ACTIVE_GRADER_TYPES = MVP_ACTIVE_GRADER_TYPES @
     [GRADER_PAIRWISE, GRADER_SKILL_SPECIFIC, GRADER_ROLE_SPECIFIC, GRADER_COUNTER_EVALUATION,
      GRADER_SECURITY]"

record grader_result =
  gd_type :: grader_type
  gd_name :: string
  gd_passed :: "bool option"
  gd_score :: "rat option"
  gd_confidence :: "rat option"

definition in_unit :: "rat option \<Rightarrow> bool" where
  "in_unit v = (case v of None \<Rightarrow> True | Some r \<Rightarrow> 0 \<le> r \<and> r \<le> 1)"

definition grader_result_valid :: "grader_result \<Rightarrow> bool" where
  "grader_result_valid g \<longleftrightarrow> bounded_str (gd_name g) \<and> in_unit (gd_score g)
     \<and> in_unit (gd_confidence g)
     \<and> \<not> (gd_passed g = None \<and> gd_score g = None \<and> gd_confidence g = None)"

record evaluation_record =
  er_id :: uuid
  er_tenant_id :: uuid
  er_execution_id :: uuid
  er_level :: verification_level
  er_score :: "rat option"
  er_confidence :: "rat option"
  er_evidence_ref :: "string option"
  er_graders :: "grader_result list"

definition evaluation_record_valid :: "evaluation_record \<Rightarrow> bool" where
  "evaluation_record_valid e \<longleftrightarrow>
     in_unit (er_score e) \<and> in_unit (er_confidence e)
     \<and> (if er_level e = LEVEL_RAW
        then er_graders e = [] \<and> er_score e = None \<and> er_confidence e = None
        else er_graders e \<noteq> [])"

fun evaluation_status_of :: "evaluation_record list \<Rightarrow> evaluation_status" where
  "evaluation_status_of [] = NEVER_EVALUATED"
| "evaluation_status_of (e # es) =
     (if level_index LEVEL_RAW < level_index (er_level e) then WAS_EVALUATED
      else evaluation_status_of es)"

section \<open>The store\<close>

datatype evaluation_error =
    EvaluationNotFound uuid
  | InactiveGraderType "string list"
  | JudgeFailure string
  | JudgeRaised string
  | DuplicateEvaluation uuid
  | EvaluationKeyError
  | InvalidRow
  | NothingToChallenge uuid
  | PairwiseTie
  | InvalidWinner int
  | BadTolerance

record evaluation_store =
  es_records :: "(uuid \<times> uuid) \<rightharpoonup> evaluation_record"
  es_by_execution :: "(uuid \<times> uuid) \<rightharpoonup> uuid list"

definition new_evaluation_store :: evaluation_store where
  "new_evaluation_store = \<lparr>es_records = Map.empty, es_by_execution = Map.empty\<rparr>"

definition store_record ::
  "evaluation_store \<Rightarrow> evaluation_record \<Rightarrow> evaluation_error + evaluation_store" where
  "store_record s e =
     (let k = (er_tenant_id e, er_id e); x = (er_tenant_id e, er_execution_id e) in
      if es_records s k \<noteq> None then Inl (DuplicateEvaluation (er_id e))
      else Inr \<lparr>es_records = (es_records s)(k \<mapsto> e),
                es_by_execution = (es_by_execution s)
                  (x \<mapsto> (case es_by_execution s x of None \<Rightarrow> [] | Some ids \<Rightarrow> ids) @ [er_id e])\<rparr>)"

definition store_get ::
  "evaluation_store \<Rightarrow> uuid \<Rightarrow> uuid \<Rightarrow> evaluation_error + evaluation_record" where
  "store_get s tenant i =
     (case es_records s (tenant, i) of None \<Rightarrow> Inl (EvaluationNotFound i) | Some e \<Rightarrow> Inr e)"

text \<open>A listed id without a record would be the \<open>KeyError\<close>.\<close>

definition list_for_execution ::
  "evaluation_store \<Rightarrow> uuid \<Rightarrow> uuid \<Rightarrow> evaluation_error + evaluation_record list" where
  "list_for_execution s tenant execution =
     (let ids = (case es_by_execution s (tenant, execution) of None \<Rightarrow> [] | Some xs \<Rightarrow> xs)
      in if list_all (\<lambda>i. es_records s (tenant, i) \<noteq> None) ids
         then Inr (map (\<lambda>i. the (es_records s (tenant, i))) ids)
         else Inl EvaluationKeyError)"

section \<open>Deterministic checks and graders\<close>

record deterministic_check =
  dc_name :: string
  dc_predicate :: "json_object \<Rightarrow> bool"

definition output_present :: "json_object \<Rightarrow> bool" where
  "output_present output \<longleftrightarrow> output \<noteq> []"

definition error_free_output :: "json_object \<Rightarrow> bool" where
  "error_free_output output \<longleftrightarrow> ''error'' \<notin> fst ` set output"

definition MVP_DETERMINISTIC_CHECKS :: "deterministic_check list" where
  "MVP_DETERMINISTIC_CHECKS =
     [\<lparr>dc_name = ''output_present'', dc_predicate = output_present\<rparr>,
      \<lparr>dc_name = ''error_free_output'', dc_predicate = error_free_output\<rparr>]"

definition check_row :: "grader_type \<Rightarrow> string \<Rightarrow> bool \<Rightarrow> grader_result" where
  "check_row ty name passed =
     \<lparr>gd_type = ty, gd_name = name, gd_passed = Some passed, gd_score = None,
      gd_confidence = None\<rparr>"

definition run_checks :: "deterministic_check list \<Rightarrow> json_object \<Rightarrow> grader_result list" where
  "run_checks checks output =
     map (\<lambda>c. check_row GRADER_DETERMINISTIC (dc_name c) (dc_predicate c output)) checks"

record output_grader =
  og_type :: grader_type
  og_row :: "json_object \<Rightarrow> grader_result"

definition secret_material_grader :: "text_library \<Rightarrow> output_grader" where
  "secret_material_grader lib =
     \<lparr>og_type = GRADER_SECURITY,
      og_row = (\<lambda>output.
        let report = sanitize_knowledge lib ''output'' output in
        if clean report then check_row GRADER_SECURITY ''secret_material:none'' True
        else let labels = sort (remdups (map fd_label (rep_findings report)));
                 name = ''secret_material:'' @ dec_text (length (rep_findings report))
                        @ '':'' @ comma_joined labels
             in check_row GRADER_SECURITY (take 200 name) False)\<rparr>"

definition skill_format_grader :: "skill \<Rightarrow> output_grader" where
  "skill_format_grader s =
     \<lparr>og_type = GRADER_SKILL_SPECIFIC,
      og_row = (\<lambda>output. check_row GRADER_SKILL_SPECIFIC
        (''skill_output_format:'' @ kf_id (sk_manifest s))
        (case kf_outputs_format (sk_manifest s) of
           None \<Rightarrow> True
         | Some declared \<Rightarrow> map_of output ''type'' = Some (JStr declared)))\<rparr>"

definition role_contract_grader :: "role_profile \<Rightarrow> output_grader" where
  "role_contract_grader p =
     \<lparr>og_type = GRADER_ROLE_SPECIFIC,
      og_row = (\<lambda>output. check_row GRADER_ROLE_SPECIFIC
        (''role_output_contract:'' @ ro_name (rp_role p))
        (filter (\<lambda>k. k \<notin> fst ` set output) (map fst (effective_output_contract p)) = []))\<rparr>"

section \<open>Judges\<close>

text \<open>
  \<open>judge\<close> of the port.  \<open>JudgeFailure\<close> is the documented failure; any other exception of a
  judge is \<open>JudgeRaised\<close>.
\<close>

type_synonym 'w judge =
  "uuid \<Rightarrow> uuid \<Rightarrow> json_object \<Rightarrow> 'w \<Rightarrow> 'w \<times> (evaluation_error + grader_result)"

definition unit_interval :: "json option \<Rightarrow> rat option" where
  "unit_interval v =
     (case v of
        Some (JInt i) \<Rightarrow> (if 0 \<le> i \<and> i \<le> 1 then Some (rat_of_int i) else None)
      | Some (JFloat r) \<Rightarrow> (if 0 \<le> r \<and> r \<le> 1 then Some r else None)
      | _ \<Rightarrow> None)"

record judge_config =
  jc_provider_model_name :: string
  jc_credential_ref :: string
  jc_name :: string
  jc_timeout_ms :: "int option"

text \<open>
  \<open>AdapterModelJudge\<close> over a provider adapter: the adapter answers with a response or
  raises (\<open>None\<close>).  \<open>request_id\<close> is the drawn id, \<open>show\<close> the text of an id.
\<close>

definition adapter_judge ::
  "(generate_request \<Rightarrow> 'w \<Rightarrow> 'w \<times> generate_response option) \<Rightarrow> judge_config \<Rightarrow> uuid
     \<Rightarrow> (uuid \<Rightarrow> string) \<Rightarrow> 'w judge" where
  "adapter_judge generate cfg request_id show tenant execution output w =
     (let request = \<lparr>gr_request_id = request_id, gr_tenant_id = tenant,
            gr_operation = GENERATE_TEXT, gr_provider_model_name = jc_provider_model_name cfg,
            gr_credential_ref = jc_credential_ref cfg, gr_account_id = None,
            gr_payload = [(''task'', JStr ''evaluation_judgment''),
              (''execution_id'', JStr (show execution)), (''output'', JObj output)],
            gr_timeout_ms = jc_timeout_ms cfg\<rparr>
      in case generate request w of
           (w', None) \<Rightarrow> (w', Inl (JudgeFailure ''judge adapter raised''))
         | (w', Some response) \<Rightarrow>
             (w', if \<not> gs_succeeded response then Inl (JudgeFailure ''judge call failed'')
                  else case (unit_interval (map_of (gs_output response) ''score''),
                             unit_interval (map_of (gs_output response) ''confidence'')) of
                      (Some score, Some confidence) \<Rightarrow>
                        Inr \<lparr>gd_type = GRADER_MODEL_BASED, gd_name = jc_name cfg, gd_passed = None,
                             gd_score = Some score, gd_confidence = Some confidence\<rparr>
                    | _ \<Rightarrow> Inl (JudgeFailure ''judge returned no usable score/confidence'')))"

section \<open>The policy service\<close>

record 'w policy =
  ep_checks :: "deterministic_check list"
  ep_judge :: "'w judge option"
  ep_active_types :: "grader_type list"
  ep_output_graders :: "output_grader list"
  ep_threshold :: rat

definition admitted_grader_types ::
  "'w policy \<Rightarrow> grader_type list option \<Rightarrow> evaluation_error + grader_type list" where
  "admitted_grader_types p types =
     (case types of
        None \<Rightarrow> Inr (ep_active_types p)
      | Some ts \<Rightarrow>
          let inactive = filter (\<lambda>t. t \<notin> set (ep_active_types p)) ts
          in if inactive \<noteq> []
             then Inl (InactiveGraderType (sort (remdups (map grader_type_value inactive))))
             else Inr ts)"

definition mean :: "rat list \<Rightarrow> rat option" where
  "mean xs = (if xs = [] then None else Some (sum_list xs / rat_of_nat (length xs)))"

definition aggregate_rows :: "grader_result list \<Rightarrow> rat option \<times> rat option" where
  "aggregate_rows rows =
     (mean (List.map_filter gd_score rows), mean (List.map_filter gd_confidence rows))"

definition assign_level ::
  "rat \<Rightarrow> grader_result list \<Rightarrow> rat option \<Rightarrow> verification_level" where
  "assign_level threshold rows confidence =
     (if rows = [] then LEVEL_RAW
      else
        let checks = filter (\<lambda>r. gd_passed r \<noteq> None) rows;
            all_passed = list_all (\<lambda>r. gd_passed r = Some True) checks;
            cap = level_index LEVEL_VERIFIED;
            cap = (if \<not> all_passed then min cap (level_index LEVEL_EVALUATED) else cap);
            cap = (if confidence = None then min cap (level_index LEVEL_VALIDATED) else cap);
            achieved = level_index LEVEL_EVALUATED;
            achieved = (if checks \<noteq> [] \<and> all_passed then level_index LEVEL_VALIDATED else achieved);
            achieved = (case confidence of
                None \<Rightarrow> achieved
              | Some c \<Rightarrow> if threshold \<le> c then level_index LEVEL_VERIFIED else achieved)
        in VERIFICATION_LEVEL_ORDER ! min achieved cap)"

definition policy_rows ::
  "'w policy \<Rightarrow> grader_type list \<Rightarrow> json_object \<Rightarrow> grader_result list" where
  "policy_rows p requested output =
     (if GRADER_DETERMINISTIC \<in> set requested then run_checks (ep_checks p) output else [])
     @ map (\<lambda>g. og_row g output) (filter (\<lambda>g. og_type g \<in> set requested) (ep_output_graders p))"

text \<open>The judge's row, or nothing when the judge fails; another exception goes up.\<close>

definition judge_rows ::
  "'w policy \<Rightarrow> grader_type list \<Rightarrow> uuid \<Rightarrow> uuid \<Rightarrow> json_object \<Rightarrow> 'w
     \<Rightarrow> 'w \<times> (evaluation_error + grader_result list)" where
  "judge_rows p requested tenant execution output w =
     (case ep_judge p of
        Some judge \<Rightarrow>
          if GRADER_MODEL_BASED \<in> set requested
          then case judge tenant execution output w of
                 (w', Inr row) \<Rightarrow> (w', Inr [row])
               | (w', Inl (JudgeFailure m)) \<Rightarrow> (w', Inr [])
               | (w', Inl e) \<Rightarrow> (w', Inl e)
          else (w, Inr [])
      | None \<Rightarrow> (w, Inr []))"

definition make_evaluation ::
  "rat \<Rightarrow> uuid \<Rightarrow> uuid \<Rightarrow> uuid \<Rightarrow> (uuid \<Rightarrow> string) \<Rightarrow> grader_result list \<Rightarrow> evaluation_record" where
  "make_evaluation threshold i tenant execution show rows =
     (let (score, confidence) = aggregate_rows rows;
          level = assign_level threshold rows confidence;
          raw = (level = LEVEL_RAW)
      in \<lparr>er_id = i, er_tenant_id = tenant, er_execution_id = execution, er_level = level,
          er_score = (if raw then None else score),
          er_confidence = (if raw then None else confidence),
          er_evidence_ref = (if raw then None else Some (''object://evidence/'' @ show i)),
          er_graders = rows\<rparr>)"

text \<open>
  \<open>evaluate\<close>: the world and the store afterwards, with the record or the error.  Building an
  invalid record would raise in the contract's validator.
\<close>

definition evaluate ::
  "'w policy \<Rightarrow> uuid \<Rightarrow> (uuid \<Rightarrow> string) \<Rightarrow> uuid \<Rightarrow> uuid \<Rightarrow> json_object \<Rightarrow> grader_type list option
     \<Rightarrow> 'w \<times> evaluation_store \<Rightarrow> ('w \<times> evaluation_store) \<times> (evaluation_error + evaluation_record)"
  where
  "evaluate p i show tenant execution output types st =
     (case st of (w, s) \<Rightarrow>
       case admitted_grader_types p types of
         Inl e \<Rightarrow> (st, Inl e)
       | Inr requested \<Rightarrow>
          (case judge_rows p requested tenant execution output w of
             (w', Inl e) \<Rightarrow> ((w', s), Inl e)
           | (w', Inr js) \<Rightarrow>
              (let e = make_evaluation (ep_threshold p) i tenant execution show
                         (policy_rows p requested output @ js)
               in if \<not> evaluation_record_valid e then ((w', s), Inl InvalidRow)
                  else case store_record s e of
                         Inl err \<Rightarrow> ((w', s), Inl err)
                       | Inr s' \<Rightarrow> ((w', s'), Inr e))))"

section \<open>Pairwise and counter evaluation\<close>

definition pairwise_row :: "string \<Rightarrow> int \<Rightarrow> rat \<Rightarrow> int \<Rightarrow> grader_result" where
  "pairwise_row name winner confidence index =
     \<lparr>gd_type = GRADER_PAIRWISE, gd_name = name @ '':candidate_'' @ int_text index,
      gd_passed = Some (index = winner), gd_score = None, gd_confidence = Some confidence\<rparr>"

definition pairwise_compare ::
  "(uuid \<Rightarrow> json_object \<Rightarrow> json_object \<Rightarrow> 'w \<Rightarrow> 'w \<times> (evaluation_error + (int \<times> rat))) \<Rightarrow> string
     \<Rightarrow> uuid \<Rightarrow> json_object \<Rightarrow> json_object \<Rightarrow> 'w
     \<Rightarrow> 'w \<times> (evaluation_error + (int \<times> grader_result \<times> grader_result))" where
  "pairwise_compare prefer name tenant a b w =
     (case prefer tenant a b w of
        (w', Inl e) \<Rightarrow> (w', Inl e)
      | (w', Inr (winner, confidence)) \<Rightarrow>
          (w', if winner \<notin> {0, 1} then Inl (InvalidWinner winner)
               else if \<not> (grader_result_valid (pairwise_row name winner confidence 0)
                          \<and> grader_result_valid (pairwise_row name winner confidence 1))
               then Inl InvalidRow
               else Inr (winner, pairwise_row name winner confidence 0,
                         pairwise_row name winner confidence 1)))"

text \<open>\<open>math.isclose\<close> only absorbs float noise at the boundary; rationals have none.\<close>

definition counter_challenge ::
  "'w judge \<Rightarrow> rat \<Rightarrow> evaluation_record \<Rightarrow> json_object \<Rightarrow> 'w
     \<Rightarrow> 'w \<times> (evaluation_error + grader_result)" where
  "counter_challenge judge tolerance rec output w =
     (case er_score rec of
        None \<Rightarrow> (w, Inl (NothingToChallenge (er_id rec)))
      | Some score \<Rightarrow>
         (case judge (er_tenant_id rec) (er_execution_id rec) output w of
            (w', Inl e) \<Rightarrow> (w', Inl e)
          | (w', Inr counter) \<Rightarrow>
              (w', Inr \<lparr>gd_type = GRADER_COUNTER_EVALUATION, gd_name = ''counter_evaluation'',
                        gd_passed = Some (case gd_score counter of
                            None \<Rightarrow> False | Some c \<Rightarrow> \<bar>c - score\<bar> \<le> tolerance),
                        gd_score = gd_score counter, gd_confidence = gd_confidence counter\<rparr>)))"

section \<open>Levels\<close>

text \<open>The rung a list of rows earns, as a case table.\<close>

definition earned_level ::
  "rat \<Rightarrow> grader_result list \<Rightarrow> rat option \<Rightarrow> verification_level" where
  "earned_level threshold rows confidence =
     (if rows = [] then LEVEL_RAW
      else if \<exists>r \<in> set rows. gd_passed r = Some False then LEVEL_EVALUATED
      else if \<exists>c. confidence = Some c \<and> threshold \<le> c then LEVEL_VERIFIED
      else if \<exists>r \<in> set rows. gd_passed r = Some True then LEVEL_VALIDATED
      else LEVEL_EVALUATED)"

lemma level_index_simps [simp]:
  "level_index LEVEL_RAW = 0" "level_index LEVEL_EVALUATED = 1" "level_index LEVEL_VALIDATED = 2"
  "level_index LEVEL_VERIFIED = 3" "level_index LEVEL_GOLD = 4"
  by (simp_all add: level_index_def VERIFICATION_LEVEL_ORDER_def)

lemma level_order_nth [simp]:
  "VERIFICATION_LEVEL_ORDER ! 0 = LEVEL_RAW" "VERIFICATION_LEVEL_ORDER ! Suc 0 = LEVEL_EVALUATED"
  "VERIFICATION_LEVEL_ORDER ! 1 = LEVEL_EVALUATED"
  "VERIFICATION_LEVEL_ORDER ! 2 = LEVEL_VALIDATED" "VERIFICATION_LEVEL_ORDER ! 3 = LEVEL_VERIFIED"
  by (simp_all add: VERIFICATION_LEVEL_ORDER_def)

lemma checks_passed_iff:
  "list_all (\<lambda>r. gd_passed r = Some True) (filter (\<lambda>r. gd_passed r \<noteq> None) rows)
     \<longleftrightarrow> \<not> (\<exists>r \<in> set rows. gd_passed r = Some False)"
proof -
  have "(gd_passed r \<noteq> None \<longrightarrow> gd_passed r = Some True) \<longleftrightarrow> gd_passed r \<noteq> Some False" for r
    by (cases "gd_passed r") auto
  then show ?thesis by (auto simp: list_all_iff)
qed

lemma assign_level_eq: "assign_level threshold rows confidence = earned_level threshold rows confidence"
proof -
  let ?checks = "filter (\<lambda>r. gd_passed r \<noteq> None) rows"
  have ne: "?checks \<noteq> [] \<longleftrightarrow> (\<exists>r \<in> set rows. gd_passed r \<noteq> None)"
    by (auto simp: filter_empty_conv)
  show ?thesis
  proof (cases "\<exists>r \<in> set rows. gd_passed r = Some False")
    case True
    then show ?thesis
      unfolding assign_level_def earned_level_def Let_def checks_passed_iff
      by (auto split: option.splits)
  next
    case False
    then have "?checks \<noteq> [] \<longleftrightarrow> (\<exists>r \<in> set rows. gd_passed r = Some True)"
      unfolding ne by force
    with False show ?thesis
      unfolding assign_level_def earned_level_def Let_def checks_passed_iff
      by (auto split: option.splits)
  qed
qed

text \<open>
  C28. The ladder arithmetic of the level assignment - the lower of an achieved and a cap rung -
  is the case table: nothing graded is RAW, one failed check is EVALUATED whatever a judge
  says, confidence over the bar is VERIFIED, otherwise a passed check is VALIDATED; and no
  evaluation ever assigns GOLD.
\<close>

theorem level_assignment_is_the_case_table:
  "assign_level threshold rows confidence = earned_level threshold rows confidence
   \<and> assign_level threshold rows confidence \<noteq> LEVEL_GOLD"
  by (simp add: assign_level_eq earned_level_def)

lemma assign_level_RAW: "assign_level threshold rows confidence = LEVEL_RAW \<longleftrightarrow> rows = []"
  by (simp add: assign_level_eq earned_level_def)

section \<open>Records and history\<close>

lemma mean_in_unit:
  assumes "\<forall>x \<in> set xs. 0 \<le> x \<and> x \<le> 1"
  shows "in_unit (mean xs)"
proof (cases "xs = []")
  case False
  have "0 \<le> sum_list xs" using assms by (intro sum_list_nonneg) auto
  moreover have "sum_list xs \<le> rat_of_nat (length xs)"
    using assms
  proof (induction xs)
    case (Cons x xs)
    then have "x \<le> 1" and "sum_list xs \<le> rat_of_nat (length xs)" by simp_all
    then show ?case by simp
  qed simp
  ultimately show ?thesis using False by (simp add: mean_def in_unit_def)
qed (simp add: mean_def in_unit_def)

lemma set_map_filter_unit:
  assumes "\<forall>r \<in> set rows. in_unit (f r)"
  shows "\<forall>x \<in> set (List.map_filter f rows). 0 \<le> x \<and> x \<le> 1"
  using assms by (auto simp: List.map_filter_def in_unit_def)

lemma aggregate_in_unit:
  assumes "list_all grader_result_valid rows"
  shows "in_unit (fst (aggregate_rows rows))" and "in_unit (snd (aggregate_rows rows))"
proof -
  from assms have "\<forall>r \<in> set rows. in_unit (gd_score r)" "\<forall>r \<in> set rows. in_unit (gd_confidence r)"
    by (auto simp: list_all_iff grader_result_valid_def)
  then show "in_unit (fst (aggregate_rows rows))" "in_unit (snd (aggregate_rows rows))"
    by (simp_all add: aggregate_rows_def mean_in_unit set_map_filter_unit)
qed

lemma make_evaluation_valid:
  assumes "list_all grader_result_valid rows"
  shows "evaluation_record_valid (make_evaluation threshold i t x show rows)"
  using aggregate_in_unit [OF assms] assign_level_RAW
  by (auto simp: evaluation_record_valid_def make_evaluation_def Let_def case_prod_unfold
      in_unit_def)

definition evaluation_inv :: "evaluation_store \<Rightarrow> bool" where
  "evaluation_inv s \<longleftrightarrow>
     (\<forall>t x ids. es_by_execution s (t, x) = Some ids \<longrightarrow>
        (\<forall>i \<in> set ids. \<exists>e. es_records s (t, i) = Some e \<and> er_execution_id e = x))
     \<and> (\<forall>t i e. es_records s (t, i) = Some e \<longrightarrow> er_tenant_id e = t \<and> er_id e = i)"

inductive evaluation_step :: "evaluation_store \<Rightarrow> evaluation_store \<Rightarrow> bool" where
  "evaluation_step s s'" if "store_record s e = Inr s'"

abbreviation evaluation_reachable :: "evaluation_store \<Rightarrow> bool" where
  "evaluation_reachable \<equiv> evaluation_step\<^sup>*\<^sup>* new_evaluation_store"

lemma store_record_Inr:
  "store_record s e = Inr s' \<longleftrightarrow>
     es_records s (er_tenant_id e, er_id e) = None
     \<and> s' = \<lparr>es_records = (es_records s)((er_tenant_id e, er_id e) \<mapsto> e),
             es_by_execution = (es_by_execution s)((er_tenant_id e, er_execution_id e) \<mapsto>
               (case es_by_execution s (er_tenant_id e, er_execution_id e) of
                  None \<Rightarrow> [] | Some ids \<Rightarrow> ids) @ [er_id e])\<rparr>"
  by (auto simp: store_record_def Let_def)

lemma evaluation_inv_step:
  assumes "evaluation_inv s" and "store_record s e = Inr s'"
  shows "evaluation_inv s'"
  using assms unfolding evaluation_inv_def store_record_Inr
  by (auto split: option.splits if_splits) (metis (no_types) option.distinct(1))+

lemma evaluation_reachable_inv: "evaluation_reachable s \<Longrightarrow> evaluation_inv s"
proof (induction rule: rtranclp_induct)
  case base
  then show ?case by (simp add: evaluation_inv_def new_evaluation_store_def)
next
  case (step s s')
  from step.hyps(2) obtain e where "store_record s e = Inr s'"
    by (auto elim: evaluation_step.cases)
  with step.IH show ?case by (rule evaluation_inv_step)
qed

lemma list_for_execution_total:
  assumes "evaluation_inv s"
  shows "list_for_execution s t x = Inr (map (\<lambda>i. the (es_records s (t, i)))
    (case es_by_execution s (t, x) of None \<Rightarrow> [] | Some ids \<Rightarrow> ids))"
proof -
  let ?ids = "case es_by_execution s (t, x) of None \<Rightarrow> [] | Some ids \<Rightarrow> ids"
  have "\<forall>i \<in> set ?ids. es_records s (t, i) \<noteq> None"
  proof (cases "es_by_execution s (t, x)")
    case (Some ids)
    have "\<forall>i \<in> set ids. \<exists>e. es_records s (t, i) = Some e \<and> er_execution_id e = x"
      using assms Some unfolding evaluation_inv_def by blast
    with Some show ?thesis by auto
  qed simp
  then have "list_all (\<lambda>i. es_records s (t, i) \<noteq> None) ?ids" by (simp only: list_all_iff)
  then show ?thesis unfolding list_for_execution_def Let_def by (simp only: if_True)
qed

lemma store_record_list:
  assumes inv: "evaluation_inv s" and st: "store_record s e = Inr s'"
  shows "list_for_execution s' t x =
    map_sum id (\<lambda>old. old @ (if (t, x) = (er_tenant_id e, er_execution_id e) then [e] else []))
      (list_for_execution s t x)"
proof -
  define ids where
    "ids = (case es_by_execution s (t, x) of None \<Rightarrow> [] | Some ids \<Rightarrow> ids)"
  from st have fresh: "es_records s (er_tenant_id e, er_id e) = None"
    and s': "es_records s' = (es_records s)((er_tenant_id e, er_id e) \<mapsto> e)"
    and idx: "es_by_execution s' (t, x) = (if (t, x) = (er_tenant_id e, er_execution_id e)
        then Some (ids @ [er_id e]) else es_by_execution s (t, x))"
    by (auto simp: store_record_Inr ids_def)
  have known: "es_records s (t, i) \<noteq> None" if "i \<in> set ids" for i
  proof (cases "es_by_execution s (t, x)")
    case None
    with that show ?thesis by (simp add: ids_def)
  next
    case (Some js)
    then have "\<forall>i \<in> set js. \<exists>e. es_records s (t, i) = Some e \<and> er_execution_id e = x"
      using inv unfolding evaluation_inv_def by blast
    with Some that show ?thesis by (auto simp: ids_def)
  qed
  have same: "map (\<lambda>i. the (es_records s' (t, i))) ids = map (\<lambda>i. the (es_records s (t, i))) ids"
  proof (rule map_cong [OF refl])
    fix i assume "i \<in> set ids"
    then have "\<not> (t, i) = (er_tenant_id e, er_id e)" using known fresh by metis
    then show "the (es_records s' (t, i)) = the (es_records s (t, i))"
      unfolding s' fun_upd_def by (simp only: if_False)
  qed
  have new: "the (es_records s' (er_tenant_id e, er_id e)) = e" by (simp add: s')
  have old: "list_for_execution s t x = Inr (map (\<lambda>i. the (es_records s (t, i))) ids)"
    unfolding ids_def by (rule list_for_execution_total [OF inv])
  have "(case es_by_execution s' (t, x) of None \<Rightarrow> [] | Some ids \<Rightarrow> ids)
      = (if (t, x) = (er_tenant_id e, er_execution_id e) then ids @ [er_id e] else ids)"
    by (simp only: idx ids_def split: if_split) simp
  then have "list_for_execution s' t x = Inr (map (\<lambda>i. the (es_records s' (t, i)))
      (if (t, x) = (er_tenant_id e, er_execution_id e) then ids @ [er_id e] else ids))"
    by (simp only: list_for_execution_total [OF evaluation_inv_step [OF inv st]])
  with old same new show ?thesis by auto
qed

lemma evaluate_cases:
  assumes "evaluate p i show t x output types (w, s) = ((w', s'), r)"
  shows "case r of
      Inl _ \<Rightarrow> s' = s
    | Inr e \<Rightarrow> \<exists>requested js. admitted_grader_types p types = Inr requested
        \<and> judge_rows p requested t x output w = (w', Inr js)
        \<and> e = make_evaluation (ep_threshold p) i t x show (policy_rows p requested output @ js)
        \<and> evaluation_record_valid e \<and> store_record s e = Inr s'"
  using assms unfolding evaluate_def Let_def
  by (auto split: sum.splits prod.splits if_splits)

lemma make_evaluation_sel:
  "er_id (make_evaluation th i t x show rows) = i"
  "er_tenant_id (make_evaluation th i t x show rows) = t"
  "er_execution_id (make_evaluation th i t x show rows) = x"
  "er_graders (make_evaluation th i t x show rows) = rows"
  "er_level (make_evaluation th i t x show rows)
     = earned_level th rows (mean (List.map_filter gd_confidence rows))"
  by (simp_all add: make_evaluation_def Let_def case_prod_unfold assign_level_eq
      aggregate_rows_def)

text \<open>
  Evaluation only appends evidence: an evaluation that is refused, crashes or collides
  with an existing id leaves the store as it was; one that succeeds appends exactly its own
  record to the history of its execution and changes no other history; the record is valid,
  carries the rows of the graders that were asked for, and its level is the one those rows
  earn.
\<close>

theorem evaluation_appends_evidence:
  assumes "evaluation_reachable s"
    and "evaluate p i show t x output types (w, s) = ((w', s'), r)"
  shows "case r of
      Inl _ \<Rightarrow> s' = s
    | Inr e \<Rightarrow>
        er_level e = earned_level (ep_threshold p) (er_graders e)
          (mean (List.map_filter gd_confidence (er_graders e)))
        \<and> evaluation_record_valid e
        \<and> (\<exists>requested js. admitted_grader_types p types = Inr requested
             \<and> er_graders e = policy_rows p requested output @ js)
        \<and> (\<exists>old. list_for_execution s t x = Inr old
             \<and> list_for_execution s' t x = Inr (old @ [e]))
        \<and> (\<forall>t' x'. (t', x') \<noteq> (t, x) \<longrightarrow>
             list_for_execution s' t' x' = list_for_execution s t' x')"
proof (cases r)
  case (Inl err)
  with evaluate_cases [OF assms(2)] show ?thesis by simp
next
  case (Inr e)
  have inv: "evaluation_inv s" by (rule evaluation_reachable_inv) (rule assms(1))
  from evaluate_cases [OF assms(2)] Inr obtain requested js where
      adm: "admitted_grader_types p types = Inr requested" and
      e: "e = make_evaluation (ep_threshold p) i t x show (policy_rows p requested output @ js)" and
      valid: "evaluation_record_valid e" and st: "store_record s e = Inr s'"
    by auto
  have id: "er_tenant_id e = t" "er_execution_id e = x" by (simp_all add: e make_evaluation_sel)
  have level: "er_level e = earned_level (ep_threshold p) (er_graders e)
          (mean (List.map_filter gd_confidence (er_graders e)))"
    and rows: "er_graders e = policy_rows p requested output @ js"
    unfolding e make_evaluation_sel by (rule refl)+
  obtain old where old: "list_for_execution s t x = Inr old"
    using list_for_execution_total [OF inv] by blast
  then have new: "list_for_execution s' t x = Inr (old @ [e])"
    by (simp add: store_record_list [OF inv st] id)
  have other: "list_for_execution s' t' x' = list_for_execution s t' x'"
    if "(t', x') \<noteq> (t, x)" for t' x'
    unfolding store_record_list [OF inv st] id if_not_P [OF that] append_Nil2
    by (cases "list_for_execution s t' x'") simp_all
  show ?thesis
    using Inr adm level valid rows old new other by auto
qed

text \<open>
  A judge that fails in the documented way costs only its own row: the evaluation then
  gives the same record and the same store as the service without a judge.
\<close>

theorem broken_judge_degrades:
  assumes "ep_judge p = Some judge" and "judge t x output w = (w', Inl (JudgeFailure m))"
  shows "snd (evaluate p i show t x output types (w, s))
      = snd (evaluate (p\<lparr>ep_judge := None\<rparr>) i show t x output types (w, s))
    \<and> snd (fst (evaluate p i show t x output types (w, s)))
      = snd (fst (evaluate (p\<lparr>ep_judge := None\<rparr>) i show t x output types (w, s)))"
proof -
  have adm: "admitted_grader_types (p\<lparr>ep_judge := None\<rparr>) types = admitted_grader_types p types"
    by (cases types) (simp_all add: admitted_grader_types_def)
  have rows: "policy_rows (p\<lparr>ep_judge := None\<rparr>) q output = policy_rows p q output" for q
    by (simp add: policy_rows_def)
  have judged: "snd (judge_rows p q t x output w) = Inr []" for q
    using assms by (simp add: judge_rows_def)
  have none: "judge_rows (p\<lparr>ep_judge := None\<rparr>) q t x output w = (w, Inr [])" for q
    by (simp add: judge_rows_def)
  show ?thesis
  proof (cases "admitted_grader_types p types")
    case (Inl err)
    then show ?thesis by (simp add: evaluate_def adm)
  next
    case (Inr q)
    obtain w'' where "judge_rows p q t x output w = (w'', Inr [])"
      using judged [of q] by (cases "judge_rows p q t x output w") auto
    with Inr show ?thesis
      by (simp add: evaluate_def adm rows none Let_def split: sum.split)
  qed
qed

section \<open>Concrete instances\<close>

definition ex_policy :: "nat policy" where
  "ex_policy = \<lparr>ep_checks = MVP_DETERMINISTIC_CHECKS,
     ep_judge = Some (\<lambda>t x output w. (w, Inl (JudgeFailure ''down''))),
     ep_active_types = MVP_ACTIVE_GRADER_TYPES, ep_output_graders = [], ep_threshold = 3/4\<rparr>"

definition ex_evaluation :: evaluation_record where
  "ex_evaluation = \<lparr>er_id = 9, er_tenant_id = 3, er_execution_id = 4, er_level = LEVEL_VALIDATED,
     er_score = None, er_confidence = None, er_evidence_ref = Some ''object://evidence/'',
     er_graders = [check_row GRADER_DETERMINISTIC ''output_present'' True,
       check_row GRADER_DETERMINISTIC ''error_free_output'' True]\<rparr>"

lemma ex_evaluate:
  "evaluate ex_policy 9 (\<lambda>_. []) 3 4 [(''text'', JNull)] None (7, new_evaluation_store)
     = ((7, \<lparr>es_records = [(3, 9) \<mapsto> ex_evaluation], es_by_execution = [(3, 4) \<mapsto> [9]]\<rparr>),
        Inr ex_evaluation)"
  by (simp add: evaluate_def ex_policy_def admitted_grader_types_def judge_rows_def
      policy_rows_def MVP_ACTIVE_GRADER_TYPES_def MVP_DETERMINISTIC_CHECKS_def run_checks_def
      make_evaluation_def aggregate_rows_def mean_def assign_level_eq earned_level_def
      check_row_def output_present_def error_free_output_def evaluation_record_valid_def
      in_unit_def store_record_def new_evaluation_store_def ex_evaluation_def
      List.map_filter_def Let_def)

theorem evaluation_appends_evidence_witness:
  "\<exists>old. list_for_execution new_evaluation_store 3 4 = Inr old
     \<and> list_for_execution \<lparr>es_records = [(3, 9) \<mapsto> ex_evaluation],
           es_by_execution = [(3, 4) \<mapsto> [9]]\<rparr> 3 4 = Inr (old @ [ex_evaluation])"
  using evaluation_appends_evidence [OF rtranclp.rtrancl_refl ex_evaluate] by simp

theorem broken_judge_degrades_witness:
  "snd (evaluate ex_policy 9 (\<lambda>_. []) 3 4 [(''text'', JNull)] None (7, new_evaluation_store))
     = snd (evaluate (ex_policy\<lparr>ep_judge := None\<rparr>) 9 (\<lambda>_. []) 3 4 [(''text'', JNull)] None
         (7, new_evaluation_store))"
  using broken_judge_degrades [of ex_policy "\<lambda>t x output w. (w, Inl (JudgeFailure ''down''))"]
  by (simp add: ex_policy_def)

end
