(* ===== verification/Learning_Gates.thy ===== *)
theory Learning_Gates
  imports Evaluation_Policy Memory_Store Audit_Log
begin

text \<open>
  The learning contract \<open>core/contracts/learning.py\<close>, the two gates of
  \<open>core/learning/gates.py\<close> and the custody codec of \<open>core/learning/storage.py\<close>
  (\<open>validate_custody_state\<close>).  Lemmas: a gate admits iff every condition of its closed list
  holds and otherwise names exactly the failed ones, in order; the codec returns its input.
\<close>

section \<open>The sample\<close>

datatype learning_eligibility = LEARN_ELIGIBLE | LEARN_INELIGIBLE | LEARN_PENDING

datatype sanitization_state = SANITIZE_PENDING | SANITIZE_PASSED | SANITIZE_FAILED

record learning_sample =
  lm_id :: uuid
  lm_source_execution_id :: uuid
  lm_tenant_id :: "uuid option"
  lm_eligibility :: learning_eligibility
  lm_sanitization_state :: sanitization_state
  lm_verification_level :: verification_level
  lm_dataset_id :: "uuid option"

definition new_sample :: "uuid \<Rightarrow> uuid \<Rightarrow> uuid \<Rightarrow> learning_sample" where
  "new_sample i source_execution tenant =
     \<lparr>lm_id = i, lm_source_execution_id = source_execution, lm_tenant_id = Some tenant,
      lm_eligibility = LEARN_PENDING, lm_sanitization_state = SANITIZE_PENDING,
      lm_verification_level = LEVEL_RAW, lm_dataset_id = None\<rparr>"

section \<open>Errors\<close>

text \<open>
  \<open>LearningStorageRefused\<close> stands for \<open>LearningStorageError\<close>, \<open>InvalidMemoryItem\<close> for the
  contract's validation error, and the last three for what a port raises.
\<close>

datatype learning_error =
    SampleNotFound uuid
  | SanitizationRefused uuid sanitization_report
  | LearningError string
  | NotEligibleForTraining uuid "string list"
  | PromotionDenied uuid "string list"
  | LearningStorageRefused string
  | InvalidMemoryItem
  | KnowledgeRaised memory_error
  | AuditRaised audit_error
  | PortRaised string

section \<open>Gates\<close>

type_synonym verdicts = "(string \<times> bool) list"

definition failed_conditions :: "verdicts \<Rightarrow> string list" where
  "failed_conditions vs = map fst (filter (\<lambda>(_, held). \<not> held) vs)"

definition TRAINING_ELIGIBILITY_CONDITIONS :: "string list" where
  "TRAINING_ELIGIBILITY_CONDITIONS =
     [''privacy_policy_allows'', ''tenant_user_policy_allows'', ''sensitive_data_handled'',
      ''quality_level_sufficient'', ''deduplicated'', ''sanitized'', ''source_trace_exists'',
      ''not_poisoned'']"

definition PROMOTION_CONDITIONS :: "string list" where
  "PROMOTION_CONDITIONS =
     [''offline_eval_pass'', ''regression_pass'', ''security_eval_pass'',
      ''shadow_performance_acceptable'', ''canary_performance_acceptable'',
      ''rollback_plan_exists'', ''admin_approval_where_required'']"

record eligibility_signals =
  sg_privacy_policy_allows :: bool
  sg_tenant_user_policy_allows :: bool
  sg_sensitive_data_handled :: bool
  sg_deduplicated :: bool
  sg_not_poisoned :: bool
  sg_source_trace_intact :: bool

definition evaluate_eligibility ::
  "verification_level \<Rightarrow> learning_sample \<Rightarrow> eligibility_signals \<Rightarrow> verdicts" where
  "evaluate_eligibility minimum sample sg =
     [(''privacy_policy_allows'', sg_privacy_policy_allows sg),
      (''tenant_user_policy_allows'', sg_tenant_user_policy_allows sg),
      (''sensitive_data_handled'', sg_sensitive_data_handled sg),
      (''quality_level_sufficient'',
         level_index minimum \<le> level_index (lm_verification_level sample)),
      (''deduplicated'', sg_deduplicated sg),
      (''sanitized'', lm_sanitization_state sample = SANITIZE_PASSED),
      (''source_trace_exists'', sg_source_trace_intact sg),
      (''not_poisoned'', sg_not_poisoned sg)]"

definition admit_eligibility ::
  "verification_level \<Rightarrow> learning_sample \<Rightarrow> eligibility_signals \<Rightarrow> learning_error + verdicts" where
  "admit_eligibility minimum sample sg =
     (let vs = evaluate_eligibility minimum sample sg; failed = failed_conditions vs
      in if failed \<noteq> [] then Inl (NotEligibleForTraining (lm_id sample) failed) else Inr vs)"

record promotion_signals =
  pg_offline_eval_pass :: bool
  pg_regression_pass :: bool
  pg_security_eval_pass :: bool
  pg_shadow_performance_acceptable :: bool
  pg_canary_performance_acceptable :: bool
  pg_rollback_plan_exists :: bool
  pg_approval_required :: bool
  pg_admin_approved :: bool

definition evaluate_promotion :: "promotion_signals \<Rightarrow> verdicts" where
  "evaluate_promotion sg =
     [(''offline_eval_pass'', pg_offline_eval_pass sg),
      (''regression_pass'', pg_regression_pass sg),
      (''security_eval_pass'', pg_security_eval_pass sg),
      (''shadow_performance_acceptable'', pg_shadow_performance_acceptable sg),
      (''canary_performance_acceptable'', pg_canary_performance_acceptable sg),
      (''rollback_plan_exists'', pg_rollback_plan_exists sg),
      (''admin_approval_where_required'',
         if pg_approval_required sg then pg_admin_approved sg else True)]"

definition admit_promotion :: "uuid \<Rightarrow> promotion_signals \<Rightarrow> learning_error + verdicts" where
  "admit_promotion candidate sg =
     (let vs = evaluate_promotion sg; failed = failed_conditions vs
      in if failed \<noteq> [] then Inl (PromotionDenied candidate failed) else Inr vs)"

section \<open>Canonical JSON and identifiers\<close>

text \<open>
  \<open>json.dumps(value, sort_keys=True, separators=(",", ":"))\<close> on code points below 256; the
  text of a float is the library parameter.
\<close>

definition json_escape :: "char \<Rightarrow> string" where
  "json_escape c =
     (if c = CHR 0x22 \<or> c = CHR 0x5C then [CHR 0x5C, c]
      else if c = CHR 0x0A then CHR 0x5C # ''n''
      else if c = CHR 0x0D then CHR 0x5C # ''r''
      else if c = CHR 0x09 then CHR 0x5C # ''t''
      else if c = CHR 0x08 then CHR 0x5C # ''b''
      else if c = CHR 0x0C then CHR 0x5C # ''f''
      else if code_point c < 32 \<or> 127 \<le> code_point c
      then CHR 0x5C # ''u00'' @ [digit_char (code_point c div 16), digit_char (code_point c mod 16)]
      else [c])"

definition json_string :: "string \<Rightarrow> string" where
  "json_string s = [CHR 0x22] @ concat (map json_escape s) @ [CHR 0x22]"

fun canonical_json :: "text_library \<Rightarrow> json \<Rightarrow> string" where
  "canonical_json lib JNull = ''null''"
| "canonical_json lib (JBool b) = (if b then ''true'' else ''false'')"
| "canonical_json lib (JInt i) = int_text i"
| "canonical_json lib (JFloat r) = tl_float lib r"
| "canonical_json lib (JStr s) = json_string s"
| "canonical_json lib (JList vs) = ''['' @ comma_joined (map (canonical_json lib) vs) @ '']''"
| "canonical_json lib (JObj ps) =
     ''{'' @ comma_joined (map snd (sort_key fst
        (map (\<lambda>p. (fst p, json_string (fst p) @ '':'' @ canonical_json lib (snd p))) ps))) @ ''}''"

text \<open>
  \<open>str(uuid)\<close> is 36 characters: 32 lower-case hexadecimal digits in groups of 8-4-4-4-12.
  \<open>canonical_uuid\<close> is \<open>UUID(v)\<close> for the texts with \<open>str(UUID(v)) == v\<close>.
\<close>

fun hex_digits :: "nat \<Rightarrow> nat \<Rightarrow> string" where
  "hex_digits 0 n = []"
| "hex_digits (Suc k) n = hex_digits k (n div 16) @ [digit_char (n mod 16)]"

definition hex_value :: "char \<Rightarrow> nat option" where
  "hex_value c =
     (if is_digit c then Some (code_point c - 48)
      else if code_point c \<in> {97..102} then Some (code_point c - 87) else None)"

fun parse_hex :: "nat \<Rightarrow> string \<Rightarrow> nat option" where
  "parse_hex acc [] = Some acc"
| "parse_hex acc (c # cs) =
     (case hex_value c of None \<Rightarrow> None | Some d \<Rightarrow> parse_hex (16 * acc + d) cs)"

definition uuid_text :: "uuid \<Rightarrow> string" where
  "uuid_text n =
     (let h = hex_digits 32 n
      in take 8 h @ ''-'' @ take 4 (drop 8 h) @ ''-'' @ take 4 (drop 12 h) @ ''-''
         @ take 4 (drop 16 h) @ ''-'' @ drop 20 h)"

definition canonical_uuid :: "string \<Rightarrow> uuid option" where
  "canonical_uuid s =
     (if length s = 36 \<and> s ! 8 = CHR ''-'' \<and> s ! 13 = CHR ''-'' \<and> s ! 18 = CHR ''-''
         \<and> s ! 23 = CHR ''-''
      then parse_hex 0 (take 8 s @ take 4 (drop 9 s) @ take 4 (drop 14 s) @ take 4 (drop 19 s)
                        @ drop 24 s)
      else None)"

section \<open>The custody codec\<close>

definition verdicts_ok :: "string list \<Rightarrow> json option \<Rightarrow> bool" where
  "verdicts_ok names v =
     (case v of
        None \<Rightarrow> True
      | Some (JObj ps) \<Rightarrow> list_all (\<lambda>(k, b). k \<in> set names \<and> (\<exists>x. b = JBool x)) ps
      | _ \<Rightarrow> False)"

definition reference_ok :: "json option \<Rightarrow> bool" where
  "reference_ok v =
     (case v of
        None \<Rightarrow> True | Some JNull \<Rightarrow> True
      | Some (JStr s) \<Rightarrow> canonical_uuid s \<noteq> None
      | _ \<Rightarrow> False)"

definition CUSTODY_FIELDS :: "string list" where
  "CUSTODY_FIELDS =
     [''version'', ''eligibility_verdicts'', ''promotion_verdicts'', ''evaluation_id'', ''memory_id'']"

definition validate_custody_state :: "json \<Rightarrow> learning_error + json_object" where
  "validate_custody_state st =
     (case st of
        JObj ps \<Rightarrow>
          if \<not> set (map fst ps) \<subseteq> set CUSTODY_FIELDS \<or> map_of ps ''version'' \<noteq> Some (JInt 1)
          then Inl (LearningStorageRefused ''unsupported custody state'')
          else if \<not> verdicts_ok TRAINING_ELIGIBILITY_CONDITIONS (map_of ps ''eligibility_verdicts'')
                \<or> \<not> verdicts_ok PROMOTION_CONDITIONS (map_of ps ''promotion_verdicts'')
          then Inl (LearningStorageRefused ''invalid custody verdicts'')
          else if \<not> reference_ok (map_of ps ''evaluation_id'') \<or> \<not> reference_ok (map_of ps ''memory_id'')
          then Inl (LearningStorageRefused ''invalid custody reference'')
          else Inr ps
      | _ \<Rightarrow> Inl (LearningStorageRefused ''unsupported custody state''))"

section \<open>Facts\<close>

lemma failed_conditions_Nil: "failed_conditions vs = [] \<longleftrightarrow> (\<forall>(n, b) \<in> set vs. b)"
  by (auto simp: failed_conditions_def filter_empty_conv)

lemma admit_eligibility_Inr:
  "admit_eligibility minimum sample sg = Inr vs \<longleftrightarrow>
     vs = evaluate_eligibility minimum sample sg \<and> failed_conditions vs = []"
  by (auto simp: admit_eligibility_def Let_def)

lemma admit_promotion_Inr:
  "admit_promotion i sg = Inr vs \<longleftrightarrow> vs = evaluate_promotion sg \<and> failed_conditions vs = []"
  by (auto simp: admit_promotion_def Let_def)

lemma eligibility_names:
  "map fst (evaluate_eligibility minimum sample sg) = TRAINING_ELIGIBILITY_CONDITIONS"
  by (simp add: evaluate_eligibility_def TRAINING_ELIGIBILITY_CONDITIONS_def)

lemma promotion_names: "map fst (evaluate_promotion sg) = PROMOTION_CONDITIONS"
  by (simp add: evaluate_promotion_def PROMOTION_CONDITIONS_def)

text \<open>Admission means every condition, spelled out.\<close>

lemma eligible_means:
  "failed_conditions (evaluate_eligibility minimum sample sg) = [] \<longleftrightarrow>
     sg_privacy_policy_allows sg \<and> sg_tenant_user_policy_allows sg \<and> sg_sensitive_data_handled sg
     \<and> level_index minimum \<le> level_index (lm_verification_level sample) \<and> sg_deduplicated sg
     \<and> lm_sanitization_state sample = SANITIZE_PASSED \<and> sg_source_trace_intact sg
     \<and> sg_not_poisoned sg"
  by (auto simp: failed_conditions_Nil evaluate_eligibility_def)

lemma promoted_means:
  "failed_conditions (evaluate_promotion sg) = [] \<longleftrightarrow>
     pg_offline_eval_pass sg \<and> pg_regression_pass sg \<and> pg_security_eval_pass sg
     \<and> pg_shadow_performance_acceptable sg \<and> pg_canary_performance_acceptable sg
     \<and> pg_rollback_plan_exists sg \<and> (pg_approval_required sg \<longrightarrow> pg_admin_approved sg)"
  by (auto simp: failed_conditions_Nil evaluate_promotion_def)

lemma code_point_char_of: "m < 256 \<Longrightarrow> code_point (char_of m) = m"
  by (simp add: code_point_def)

lemma hex_value_digit: "d < 16 \<Longrightarrow> hex_value (digit_char d) = Some d"
  by (auto simp: hex_value_def digit_char_def is_digit_def code_point_char_of)

lemma length_hex_digits [simp]: "length (hex_digits k n) = k"
  by (induction k arbitrary: n) simp_all

lemma parse_hex_append:
  "parse_hex acc (xs @ ys) = (case parse_hex acc xs of None \<Rightarrow> None | Some a \<Rightarrow> parse_hex a ys)"
  by (induction xs arbitrary: acc) (auto split: option.split)

lemma parse_hex_digits: "parse_hex acc (hex_digits k n) = Some (16 ^ k * acc + n mod 16 ^ k)"
proof (induction k arbitrary: n)
  case (Suc k)
  have "n mod (16 * 16 ^ k) = 16 * (n div 16 mod 16 ^ k) + n mod 16"
    by (rule mod_mult2_eq)
  with Suc show ?case by (simp add: parse_hex_append hex_value_digit algebra_simps)
qed simp

lemma dash_groups:
  assumes "length h = 32"
  shows "take 8 h @ take 4 (drop 8 h) @ take 4 (drop 12 h) @ take 4 (drop 16 h) @ drop 20 h = h"
proof -
  have "take 4 (drop 16 h) @ drop 20 h = drop 16 h"
    using append_take_drop_id [of 4 "drop 16 h"] by simp
  moreover have "take 4 (drop 12 h) @ drop 16 h = drop 12 h"
    using append_take_drop_id [of 4 "drop 12 h"] by simp
  moreover have "take 4 (drop 8 h) @ drop 12 h = drop 8 h"
    using append_take_drop_id [of 4 "drop 8 h"] by simp
  ultimately show ?thesis by simp
qed

lemma uuid_text_parts:
  assumes "length h = 32"
    and "s = take 8 h @ ''-'' @ take 4 (drop 8 h) @ ''-'' @ take 4 (drop 12 h) @ ''-''
           @ take 4 (drop 16 h) @ ''-'' @ drop 20 h"
  shows "canonical_uuid s = parse_hex 0 h"
proof -
  have "length s = 36" "s ! 8 = CHR ''-''" "s ! 13 = CHR ''-''" "s ! 18 = CHR ''-''"
      "s ! 23 = CHR ''-''"
    using assms by (simp_all add: nth_append nth_Cons')
  moreover have "take 8 s = take 8 h" "take 4 (drop 9 s) = take 4 (drop 8 h)"
      "take 4 (drop 14 s) = take 4 (drop 12 h)" "take 4 (drop 19 s) = take 4 (drop 16 h)"
      "drop 24 s = drop 20 h"
    using assms by (simp_all add: drop_Cons')
  ultimately show ?thesis
    using dash_groups [OF assms(1)] by (simp add: canonical_uuid_def)
qed

lemma canonical_uuid_text:
  assumes "n < 16 ^ 32"
  shows "canonical_uuid (uuid_text n) = Some n"
proof -
  have "canonical_uuid (uuid_text n) = parse_hex 0 (hex_digits 32 n)"
    by (rule uuid_text_parts) (simp_all add: uuid_text_def Let_def)
  also have "\<dots> = Some (n mod 16 ^ 32)" by (simp add: parse_hex_digits)
  also have "n mod 16 ^ 32 = n" using assms by (rule mod_less)
  finally show ?thesis .
qed

lemma validate_custody_state_Inr:
  "validate_custody_state st = Inr ps \<longleftrightarrow>
     st = JObj ps \<and> set (map fst ps) \<subseteq> set CUSTODY_FIELDS \<and> map_of ps ''version'' = Some (JInt 1)
     \<and> verdicts_ok TRAINING_ELIGIBILITY_CONDITIONS (map_of ps ''eligibility_verdicts'')
     \<and> verdicts_ok PROMOTION_CONDITIONS (map_of ps ''promotion_verdicts'')
     \<and> reference_ok (map_of ps ''evaluation_id'') \<and> reference_ok (map_of ps ''memory_id'')"
  unfolding validate_custody_state_def by (cases st) (auto split: if_splits)

text \<open>Verdicts as the JSON object custody stores.\<close>

definition verdicts_json :: "verdicts \<Rightarrow> json" where
  "verdicts_json vs = JObj (map (\<lambda>(n, b). (n, JBool b)) vs)"

definition json_verdicts :: "json option \<Rightarrow> verdicts" where
  "json_verdicts v =
     (case v of
        Some (JObj ps) \<Rightarrow> map (\<lambda>(n, b). (n, b = JBool True)) ps
      | _ \<Rightarrow> [])"

lemma json_verdicts_json [simp]: "json_verdicts (Some (verdicts_json vs)) = vs"
proof -
  have "map ((\<lambda>(n, b). (n, b = JBool True)) \<circ> (\<lambda>(n, b). (n, JBool b))) vs = vs"
    by (induction vs) auto
  then show ?thesis by (simp add: json_verdicts_def verdicts_json_def)
qed

lemma verdicts_ok_json:
  "set (map fst vs) \<subseteq> set names \<Longrightarrow> verdicts_ok names (Some (verdicts_json vs))"
  by (auto simp: verdicts_ok_def verdicts_json_def list_all_iff)

definition promoted_state ::
  "uuid \<Rightarrow> verification_level \<Rightarrow> learning_sample \<Rightarrow> eligibility_signals \<Rightarrow> promotion_signals
     \<Rightarrow> json_object" where
  "promoted_state i minimum sample sg pg =
     [(''version'', JInt 1), (''memory_id'', JStr (uuid_text i)),
      (''eligibility_verdicts'', verdicts_json (evaluate_eligibility minimum sample sg)),
      (''promotion_verdicts'', verdicts_json (evaluate_promotion pg))]"

text \<open>
  What promotion writes into custody is what recovery reads back: the state that binds a
  memory id and carries the verdicts of both gates passes the closed codec unchanged, and
  from it the verdicts and the memory id are recovered exactly (an identifier is below
  2^128).
\<close>

theorem custody_state_roundtrip:
  assumes "i < 16 ^ 32"
  shows "\<exists>st t. validate_custody_state (JObj (promoted_state i minimum sample sg pg)) = Inr st
    \<and> json_verdicts (map_of st ''eligibility_verdicts'') = evaluate_eligibility minimum sample sg
    \<and> json_verdicts (map_of st ''promotion_verdicts'') = evaluate_promotion pg
    \<and> map_of st ''memory_id'' = Some (JStr t) \<and> canonical_uuid t = Some i"
proof -
  let ?st = "promoted_state i minimum sample sg pg"
  have "verdicts_ok TRAINING_ELIGIBILITY_CONDITIONS
      (Some (verdicts_json (evaluate_eligibility minimum sample sg)))"
    by (rule verdicts_ok_json) (simp only: eligibility_names subset_refl)
  moreover have "verdicts_ok PROMOTION_CONDITIONS (Some (verdicts_json (evaluate_promotion pg)))"
    by (rule verdicts_ok_json) (simp only: promotion_names subset_refl)
  ultimately have "validate_custody_state (JObj ?st) = Inr ?st"
    using canonical_uuid_text [OF assms]
    by (simp add: validate_custody_state_Inr promoted_state_def CUSTODY_FIELDS_def reference_ok_def)
  then show ?thesis
    using canonical_uuid_text [OF assms]
    by (intro exI [of _ ?st] exI [of _ "uuid_text i"]) (simp add: promoted_state_def)
qed

definition ex_signals :: eligibility_signals where
  "ex_signals = \<lparr>sg_privacy_policy_allows = True, sg_tenant_user_policy_allows = True,
     sg_sensitive_data_handled = True, sg_deduplicated = True, sg_not_poisoned = True,
     sg_source_trace_intact = True\<rparr>"

definition ex_promotion :: promotion_signals where
  "ex_promotion = \<lparr>pg_offline_eval_pass = True, pg_regression_pass = True,
     pg_security_eval_pass = True, pg_shadow_performance_acceptable = True,
     pg_canary_performance_acceptable = True, pg_rollback_plan_exists = True,
     pg_approval_required = True, pg_admin_approved = True\<rparr>"

theorem custody_state_roundtrip_witness:
  "\<exists>st t. validate_custody_state
        (JObj (promoted_state 48879 LEVEL_VERIFIED (new_sample 3 4 5) ex_signals ex_promotion)) = Inr st
     \<and> map_of st ''memory_id'' = Some (JStr t) \<and> canonical_uuid t = Some 48879"
proof -
  have "(48879::nat) < 16 ^ 32" by simp
  from custody_state_roundtrip [OF this, of LEVEL_VERIFIED "new_sample 3 4 5" ex_signals ex_promotion]
  show ?thesis by blast
qed

end
