(* ===== verification/Learning_Lifecycle.thy ===== *)
theory Learning_Lifecycle
  imports Learning_Gates
begin

text \<open>
  \<open>LearningLifecycleService\<close> of \<open>core/learning/lifecycle.py\<close>, with both of its modes: the
  in-process sample map, and a custody port that owns durable samples.  The ports act on an
  external world \<open>'w\<close>; ids and the clock are arguments.  In the in-process mode a record is
  mutated in place, so a change made before an exception stays (\<open>keep_record\<close>); in custody
  mode a record is detached and only \<open>persist\<close> makes it last.
\<close>

section \<open>State and ports\<close>

datatype sample_source = FROM_EXECUTION | FROM_EXTERNAL

definition GOLD_KNOWLEDGE_SOURCE :: string where
  "GOLD_KNOWLEDGE_SOURCE = ''learning.gold''"

record sample_record =
  sr_sample :: learning_sample
  sr_source_kind :: sample_source
  sr_key :: string
  sr_value :: json_object
  sr_eligibility_verdicts :: verdicts
  sr_promotion_verdicts :: verdicts
  sr_report :: "sanitization_report option"
  sr_revision :: int
  sr_custody_state :: json_object

record recovered_capture =
  rc_sample :: learning_sample
  rc_source_kind :: sample_source
  rc_payload :: "(string \<times> json_object) option"
  rc_state :: json
  rc_revision :: int
  rc_content_digest :: string

record capture_request =
  cq_policy_id :: "uuid option"
  cq_rights_ref :: "uuid option"
  cq_idempotency_key :: "uuid option"
  cq_key :: string
  cq_value :: json_object

record 'w custody_port =
  cu_capture_external ::
    "'w \<Rightarrow> uuid \<Rightarrow> uuid option \<Rightarrow> capture_request \<Rightarrow> 'w \<times> (learning_error + recovered_capture)"
  cu_capture_from_execution ::
    "'w \<Rightarrow> uuid \<Rightarrow> uuid \<Rightarrow> capture_request \<Rightarrow> 'w \<times> (learning_error + recovered_capture)"
  cu_get :: "'w \<Rightarrow> uuid \<Rightarrow> uuid \<Rightarrow> learning_error + recovered_capture"
  cu_list :: "'w \<Rightarrow> uuid \<Rightarrow> learning_error + recovered_capture list"
  cu_save :: "'w \<Rightarrow> learning_sample \<Rightarrow> json_object \<Rightarrow> int \<Rightarrow> 'w \<times> (learning_error + int)"

text \<open>The optional operator acts of a custody composition.\<close>

record 'w governance_port =
  gp_revoke_policy :: "'w \<Rightarrow> uuid \<Rightarrow> uuid \<Rightarrow> 'w \<times> (learning_error + int)"
  gp_expire :: "'w \<Rightarrow> uuid \<Rightarrow> timestamp \<Rightarrow> 'w \<times> (learning_error + int)"
  gp_release_legacy_hold :: "'w \<Rightarrow> uuid \<Rightarrow> uuid \<Rightarrow> 'w \<times> (learning_error + bool)"

text \<open>What the evaluation seam answers: an evaluation record, some object with a level, or not.\<close>

datatype evaluation_answer =
  AnswerRecord evaluation_record | AnswerLevel verification_level | AnswerOther

record 'w learning =
  ln_lib :: text_library
  ln_custody :: "'w custody_port option"
  ln_governance :: "'w governance_port option"
  ln_external ::
    "('w \<Rightarrow> uuid \<Rightarrow> uuid \<Rightarrow> uuid option \<Rightarrow> string \<Rightarrow> json_object
       \<Rightarrow> 'w \<times> (learning_error + uuid)) option"
  ln_evaluation ::
    "('w \<Rightarrow> uuid \<Rightarrow> uuid \<Rightarrow> json_object \<Rightarrow> 'w \<times> (learning_error + evaluation_answer)) option"
  ln_upsert :: "'w \<Rightarrow> memory_item \<Rightarrow> 'w \<times> (memory_error + memory_item)"
  ln_query :: "timestamp \<Rightarrow> 'w \<Rightarrow> uuid \<Rightarrow> memory_filter \<Rightarrow> memory_item list"
  ln_delete :: "'w \<Rightarrow> uuid \<Rightarrow> uuid \<Rightarrow> 'w \<times> (memory_error + unit)"
  ln_audit :: "('w \<Rightarrow> audit_event \<Rightarrow> 'w \<times> (audit_error + unit)) option"
  ln_minimum :: verification_level

record 'w learning_state =
  ls_samples :: "((uuid \<times> uuid) \<times> sample_record) list"
  ls_world :: 'w

section \<open>Capture\<close>

definition plain_record ::
  "learning_sample \<Rightarrow> sample_source \<Rightarrow> string \<Rightarrow> json_object \<Rightarrow> sample_record" where
  "plain_record sample kind key value =
     \<lparr>sr_sample = sample, sr_source_kind = kind, sr_key = key, sr_value = value,
      sr_eligibility_verdicts = [], sr_promotion_verdicts = [], sr_report = None,
      sr_revision = 0, sr_custody_state = [(''version'', JInt 1)]\<rparr>"

definition capture_plain ::
  "'w learning_state \<Rightarrow> uuid \<Rightarrow> uuid \<Rightarrow> sample_source \<Rightarrow> string \<Rightarrow> json_object \<Rightarrow> uuid
     \<Rightarrow> 'w learning_state \<times> learning_sample" where
  "capture_plain st tenant source kind key value sample_id =
     (let sample = new_sample sample_id source tenant
      in (st\<lparr>ls_samples := AList.update (tenant, sample_id) (plain_record sample kind key value)
               (ls_samples st)\<rparr>, sample))"

definition capture_from_execution ::
  "'w learning \<Rightarrow> uuid \<Rightarrow> 'w learning_state \<Rightarrow> uuid \<Rightarrow> uuid \<Rightarrow> capture_request
     \<Rightarrow> 'w learning_state \<times> (learning_error + learning_sample)" where
  "capture_from_execution c sample_id st tenant source cq =
     (case ln_custody c of
        Some cu \<Rightarrow>
          (case cu_capture_from_execution cu (ls_world st) tenant source cq of
             (w, r) \<Rightarrow> (st\<lparr>ls_world := w\<rparr>, map_sum id rc_sample r))
      | None \<Rightarrow>
          (case capture_plain st tenant source FROM_EXECUTION (cq_key cq) (cq_value cq) sample_id of
             (st', sample) \<Rightarrow> (st', Inr sample)))"

text \<open>\<open>source_id\<close> is the id drawn when no ingestion port is composed.\<close>

definition capture_external ::
  "'w learning \<Rightarrow> uuid \<Rightarrow> uuid \<Rightarrow> 'w learning_state \<Rightarrow> uuid \<Rightarrow> uuid option \<Rightarrow> capture_request
     \<Rightarrow> 'w learning_state \<times> (learning_error + learning_sample)" where
  "capture_external c sample_id source_id st tenant actor cq =
     (case ln_custody c of
        Some cu \<Rightarrow>
          (case cu_capture_external cu (ls_world st) tenant actor cq of
             (w, r) \<Rightarrow> (st\<lparr>ls_world := w\<rparr>, map_sum id rc_sample r))
      | None \<Rightarrow>
          (case (case ln_external c of
                   None \<Rightarrow> (ls_world st, Inr source_id)
                 | Some rec \<Rightarrow>
                     rec (ls_world st) tenant sample_id actor (cq_key cq) (cq_value cq)) of
             (w, Inl e) \<Rightarrow> (st\<lparr>ls_world := w\<rparr>, Inl e)
           | (w, Inr source) \<Rightarrow>
               (case capture_plain (st\<lparr>ls_world := w\<rparr>) tenant source FROM_EXTERNAL (cq_key cq)
                       (cq_value cq) sample_id of
                  (st', sample) \<Rightarrow> (st', Inr sample))))"

section \<open>Reads and writes of a record\<close>

definition learning_get ::
  "'w learning \<Rightarrow> 'w learning_state \<Rightarrow> uuid \<Rightarrow> uuid \<Rightarrow> learning_error + learning_sample" where
  "learning_get c st tenant i =
     (case ln_custody c of
        Some cu \<Rightarrow> map_sum id rc_sample (cu_get cu (ls_world st) tenant i)
      | None \<Rightarrow>
          (case map_of (ls_samples st) (tenant, i) of
             None \<Rightarrow> Inl (SampleNotFound i) | Some r \<Rightarrow> Inr (sr_sample r)))"

definition list_samples ::
  "'w learning \<Rightarrow> 'w learning_state \<Rightarrow> uuid \<Rightarrow> learning_error + learning_sample list" where
  "list_samples c st tenant =
     (case ln_custody c of
        Some cu \<Rightarrow> map_sum id (map rc_sample) (cu_list cu (ls_world st) tenant)
      | None \<Rightarrow> Inr (map (sr_sample \<circ> snd) (filter (\<lambda>p. fst (fst p) = tenant) (ls_samples st))))"

definition record_of ::
  "'w learning \<Rightarrow> 'w learning_state \<Rightarrow> uuid \<Rightarrow> uuid \<Rightarrow> learning_error + sample_record" where
  "record_of c st tenant i =
     (case ln_custody c of
        Some cu \<Rightarrow>
          result_bind (cu_get cu (ls_world st) tenant i) (\<lambda>cur.
            case rc_payload cur of
              None \<Rightarrow> Inl (LearningError ''learning payload unavailable'')
            | Some (key, value) \<Rightarrow>
                result_bind (validate_custody_state (rc_state cur)) (\<lambda>state.
                  Inr \<lparr>sr_sample = rc_sample cur, sr_source_kind = rc_source_kind cur,
                       sr_key = key, sr_value = value,
                       sr_eligibility_verdicts = json_verdicts (map_of state ''eligibility_verdicts''),
                       sr_promotion_verdicts = json_verdicts (map_of state ''promotion_verdicts''),
                       sr_report = None, sr_revision = rc_revision cur, sr_custody_state = state\<rparr>))
      | None \<Rightarrow>
          (case map_of (ls_samples st) (tenant, i) of
             None \<Rightarrow> Inl (SampleNotFound i) | Some r \<Rightarrow> Inr r))"

text \<open>Mutating the record object: visible at once in process, nowhere in custody mode.\<close>

definition keep_record ::
  "'w learning \<Rightarrow> 'w learning_state \<Rightarrow> uuid \<Rightarrow> uuid \<Rightarrow> sample_record \<Rightarrow> 'w learning_state" where
  "keep_record c st tenant i r =
     (if ln_custody c = None
      then st\<lparr>ls_samples := AList.update (tenant, i) r (ls_samples st)\<rparr> else st)"

definition persist ::
  "'w learning \<Rightarrow> 'w learning_state \<Rightarrow> sample_record
     \<Rightarrow> 'w learning_state \<times> (learning_error + learning_sample)" where
  "persist c st r =
     (case ln_custody c of
        None \<Rightarrow> (st, Inr (sr_sample r))
      | Some cu \<Rightarrow>
          (let state = dict_update (sr_custody_state r)
                 [(''eligibility_verdicts'', verdicts_json (sr_eligibility_verdicts r)),
                  (''promotion_verdicts'', verdicts_json (sr_promotion_verdicts r))]
           in case validate_custody_state (JObj state) of
                Inl e \<Rightarrow> (st, Inl e)
              | Inr state' \<Rightarrow>
                  (case cu_save cu (ls_world st) (sr_sample r) state' (sr_revision r) of
                     (w, Inl e) \<Rightarrow> (st\<lparr>ls_world := w\<rparr>, Inl e)
                   | (w, Inr revision) \<Rightarrow> (st\<lparr>ls_world := w\<rparr>, Inr (sr_sample r)))))"

definition commit ::
  "'w learning \<Rightarrow> 'w learning_state \<Rightarrow> uuid \<Rightarrow> uuid \<Rightarrow> sample_record
     \<Rightarrow> 'w learning_state \<times> (learning_error + learning_sample)" where
  "commit c st tenant i r = persist c (keep_record c st tenant i r) r"

section \<open>Sanitization\<close>

definition scan_of :: "'w learning \<Rightarrow> sample_record \<Rightarrow> sanitization_report" where
  "scan_of c r = sanitize_knowledge (ln_lib c) (sr_key r) (sr_value r)"

definition sanitize ::
  "'w learning \<Rightarrow> 'w learning_state \<Rightarrow> uuid \<Rightarrow> uuid
     \<Rightarrow> 'w learning_state \<times> (learning_error + sanitization_report)" where
  "sanitize c st tenant i =
     (case record_of c st tenant i of
        Inl e \<Rightarrow> (st, Inl e)
      | Inr r \<Rightarrow> (keep_record c st tenant i (r\<lparr>sr_report := Some (scan_of c r)\<rparr>), Inr (scan_of c r)))"

definition set_sanitization :: "sanitization_state \<Rightarrow> sample_record \<Rightarrow> sample_record" where
  "set_sanitization s r = r\<lparr>sr_sample := (sr_sample r)\<lparr>lm_sanitization_state := s\<rparr>\<rparr>"

definition mark_sanitized ::
  "'w learning \<Rightarrow> 'w learning_state \<Rightarrow> uuid \<Rightarrow> uuid \<Rightarrow> bool
     \<Rightarrow> 'w learning_state \<times> (learning_error + learning_sample)" where
  "mark_sanitized c st tenant i passed =
     (case record_of c st tenant i of
        Inl e \<Rightarrow> (st, Inl e)
      | Inr r0 \<Rightarrow>
          (let report = (case sr_report r0 of None \<Rightarrow> scan_of c r0 | Some rep \<Rightarrow> rep);
               r = r0\<lparr>sr_report := Some report\<rparr>
           in if passed \<and> \<not> clean report
              then (case commit c st tenant i (set_sanitization SANITIZE_FAILED r) of
                      (st', Inl e) \<Rightarrow> (st', Inl e)
                    | (st', Inr _) \<Rightarrow>
                        (st', Inl (if ln_custody c \<noteq> None
                                   then LearningError ''learning sanitization refused''
                                   else SanitizationRefused i report)))
              else commit c st tenant i
                     (set_sanitization (if passed then SANITIZE_PASSED else SANITIZE_FAILED) r)))"

section \<open>Derived signals\<close>

definition canonical_value :: "'w learning \<Rightarrow> json_object \<Rightarrow> string" where
  "canonical_value c v = canonical_json (ln_lib c) (JObj v)"

text \<open>\<open>deduplicated\<close> and \<open>scan_clean\<close>.\<close>

definition custody_signals ::
  "'w learning \<Rightarrow> 'w custody_port \<Rightarrow> 'w learning_state \<Rightarrow> uuid \<Rightarrow> recovered_capture
     \<Rightarrow> learning_error + (bool \<times> bool)" where
  "custody_signals c cu st tenant cur =
     (case rc_payload cur of
        None \<Rightarrow> Inr (False, False)
      | Some (key, value) \<Rightarrow>
          result_bind (cu_list cu (ls_world st) tenant) (\<lambda>all.
            Inr (\<not> list_ex (\<lambda>other. lm_id (rc_sample other) \<noteq> lm_id (rc_sample cur)
                      \<and> rc_content_digest other = rc_content_digest cur) all,
                 clean (sanitize_knowledge (ln_lib c) key value))))"

definition derived_signals ::
  "'w learning \<Rightarrow> 'w learning_state \<Rightarrow> uuid \<Rightarrow> uuid \<Rightarrow> learning_error + (bool \<times> bool)" where
  "derived_signals c st tenant i =
     (case ln_custody c of
        Some cu \<Rightarrow> result_bind (cu_get cu (ls_world st) tenant i) (custody_signals c cu st tenant)
      | None \<Rightarrow>
          result_bind (record_of c st tenant i) (\<lambda>r.
            let canonical = canonical_value c (sr_value r);
                duplicate = list_ex (\<lambda>((owner, other_id), other).
                  owner = tenant \<and> other_id \<noteq> i \<and> sr_key other = sr_key r
                  \<and> canonical_value c (sr_value other) = canonical) (ls_samples st);
                report = (case sr_report r of None \<Rightarrow> scan_of c r | Some rep \<Rightarrow> rep)
            in Inr (\<not> duplicate, clean report)))"

definition resolve_signals ::
  "'w learning \<Rightarrow> 'w learning_state \<Rightarrow> uuid \<Rightarrow> uuid \<Rightarrow> eligibility_signals
     \<Rightarrow> learning_error + eligibility_signals" where
  "resolve_signals c st tenant i asserted =
     map_sum id (\<lambda>(deduplicated, scan_clean).
        asserted\<lparr>sg_deduplicated := deduplicated,
                 sg_not_poisoned := sg_not_poisoned asserted \<and> scan_clean\<rparr>)
       (derived_signals c st tenant i)"

section \<open>Evaluation\<close>

definition set_level :: "verification_level \<Rightarrow> sample_record \<Rightarrow> sample_record" where
  "set_level l r = r\<lparr>sr_sample := (sr_sample r)\<lparr>lm_verification_level := l\<rparr>\<rparr>"

fun answer_level :: "evaluation_answer \<Rightarrow> verification_level option" where
  "answer_level (AnswerRecord e) = Some (er_level e)"
| "answer_level (AnswerLevel l) = Some l"
| "answer_level AnswerOther = None"

fun answer_bound :: "evaluation_answer \<Rightarrow> uuid \<Rightarrow> uuid \<Rightarrow> uuid option" where
  "answer_bound (AnswerRecord e) tenant execution =
     (if er_tenant_id e = tenant \<and> er_execution_id e = execution then Some (er_id e) else None)"
| "answer_bound _ tenant execution = None"

definition evaluate_sample ::
  "'w learning \<Rightarrow> 'w learning_state \<Rightarrow> uuid \<Rightarrow> uuid \<Rightarrow> json_object
     \<Rightarrow> 'w learning_state \<times> (learning_error + learning_sample)" where
  "evaluate_sample c st tenant i output =
     (case record_of c st tenant i of
        Inl e \<Rightarrow> (st, Inl e)
      | Inr r \<Rightarrow>
         (case ln_evaluation c of
            None \<Rightarrow>
              (st, Inl (LearningError ''no evaluation seam composed; sample level cannot advance''))
          | Some ev \<Rightarrow>
             (case ev (ls_world st) tenant (lm_source_execution_id (sr_sample r)) output of
                (w, Inl e) \<Rightarrow> (st\<lparr>ls_world := w\<rparr>, Inl e)
              | (w, Inr answer) \<Rightarrow>
                 (let st1 = st\<lparr>ls_world := w\<rparr> in
                  case answer_level answer of
                    None \<Rightarrow>
                      (st1, Inl (LearningError ''evaluation seam returned no verification level''))
                  | Some level \<Rightarrow>
                      if ln_custody c = None then commit c st1 tenant i (set_level level r)
                      else case answer_bound answer tenant (lm_source_execution_id (sr_sample r)) of
                             None \<Rightarrow>
                               (st1, Inl (LearningError
                                  ''evaluation seam returned invalid source binding''))
                           | Some evaluation_id \<Rightarrow>
                               if level = LEVEL_GOLD
                               then (st1, Inl (LearningError ''GOLD is granted only through promotion''))
                               else commit c st1 tenant i (set_level level
                                 (r\<lparr>sr_custody_state := AList.update ''evaluation_id''
                                     (JStr (uuid_text evaluation_id)) (sr_custody_state r)\<rparr>))))))"

definition set_verification_level ::
  "'w learning \<Rightarrow> 'w learning_state \<Rightarrow> uuid \<Rightarrow> uuid \<Rightarrow> verification_level
     \<Rightarrow> 'w learning_state \<times> (learning_error + learning_sample)" where
  "set_verification_level c st tenant i level =
     (case record_of c st tenant i of
        Inl e \<Rightarrow> (st, Inl e)
      | Inr r \<Rightarrow>
          if level = LEVEL_GOLD \<and> ln_custody c \<noteq> None
          then (st, Inl (LearningError ''GOLD is granted only through promotion''))
          else commit c st tenant i (set_level level r))"

section \<open>The gates in the lifecycle\<close>

definition admit_to_training ::
  "'w learning \<Rightarrow> uuid \<Rightarrow> 'w learning_state \<Rightarrow> uuid \<Rightarrow> uuid \<Rightarrow> eligibility_signals \<Rightarrow> uuid option
     \<Rightarrow> 'w learning_state \<times> (learning_error + learning_sample)" where
  "admit_to_training c drawn_id st tenant i signals dataset =
     (case record_of c st tenant i of
        Inl e \<Rightarrow> (st, Inl e)
      | Inr r \<Rightarrow>
         (case resolve_signals c st tenant i signals of
            Inl e \<Rightarrow> (st, Inl e)
          | Inr sg \<Rightarrow>
             (case admit_eligibility (ln_minimum c) (sr_sample r) sg of
                Inl e \<Rightarrow>
                  (let sample = (sr_sample r)\<lparr>lm_eligibility := LEARN_INELIGIBLE\<rparr>;
                       r' = r\<lparr>sr_sample := sample,
                              sr_eligibility_verdicts :=
                                evaluate_eligibility (ln_minimum c) sample sg\<rparr>
                   in case commit c st tenant i r' of
                        (st', Inl e') \<Rightarrow> (st', Inl e')
                      | (st', Inr _) \<Rightarrow> (st', Inl e))
              | Inr verdicts \<Rightarrow>
                  commit c st tenant i
                    (r\<lparr>sr_eligibility_verdicts := verdicts,
                       sr_sample := (sr_sample r)\<lparr>lm_eligibility := LEARN_ELIGIBLE,
                         lm_dataset_id := Some (case dataset of None \<Rightarrow> drawn_id | Some d \<Rightarrow> d)\<rparr>\<rparr>))))"

record promotion_call =
  pc_signals :: promotion_signals
  pc_actor_id :: "uuid option"
  pc_confidence :: rat
  pc_item_id :: uuid
  pc_now :: timestamp
  pc_event_id :: uuid

definition gold_item :: "uuid \<Rightarrow> sample_record \<Rightarrow> promotion_call \<Rightarrow> memory_item" where
  "gold_item tenant r pc =
     \<lparr>mi_id = pc_item_id pc, mi_tenant_id = tenant, mi_user_id = None, mi_scope = SCOPE_TENANT,
      mi_key = sr_key r, mi_value = JObj (sr_value r), mi_source = GOLD_KNOWLEDGE_SOURCE,
      mi_confidence = pc_confidence pc, mi_evidence_count = 1, mi_last_seen = pc_now pc,
      mi_expires_at = None, mi_sensitivity = SENSITIVITY_LOW\<rparr>"

definition memory_item_valid :: "memory_item \<Rightarrow> bool" where
  "memory_item_valid m \<longleftrightarrow> bounded_str (mi_key m) \<and> bounded_str (mi_source m)
     \<and> 0 \<le> mi_confidence m \<and> mi_confidence m \<le> 1 \<and> 0 \<le> mi_evidence_count m"

definition promotion_event ::
  "uuid \<Rightarrow> uuid \<Rightarrow> sample_record \<Rightarrow> promotion_call \<Rightarrow> memory_item \<Rightarrow> verdicts \<Rightarrow> audit_event" where
  "promotion_event tenant i r pc item verdicts =
     \<lparr>ae_id = pc_event_id pc, ae_tenant_id = tenant, ae_event_type = TRAINING_DATASET_PROMOTED,
      ae_actor_id = pc_actor_id pc, ae_occurred_at = pc_now pc,
      ae_details = [(''sample_id'', JStr (uuid_text i)), (''knowledge_key'', JStr (sr_key r)),
        (''memory_item_id'', JStr (uuid_text (mi_id item))), (''verdicts'', verdicts_json verdicts)],
      ae_admin_change = None\<rparr>"

text \<open>The binding of the copy to custody; a refused save deletes the copy.\<close>

definition bind_to_custody ::
  "'w learning \<Rightarrow> 'w learning_state \<Rightarrow> uuid \<Rightarrow> sample_record \<Rightarrow> memory_item
     \<Rightarrow> 'w learning_state \<times> learning_error option" where
  "bind_to_custody c st tenant r item =
     (if ln_custody c = None then (st, None)
      else case persist c st (r\<lparr>sr_custody_state := AList.update ''memory_id''
                   (JStr (uuid_text (mi_id item))) (sr_custody_state r)\<rparr>) of
             (st', Inr _) \<Rightarrow> (st', None)
           | (st', Inl _) \<Rightarrow>
               (st'\<lparr>ls_world := fst (ln_delete c (ls_world st') tenant (mi_id item))\<rparr>,
                Some (LearningError ''learning promotion refused'')))"

definition promote_to_gold ::
  "'w learning \<Rightarrow> 'w learning_state \<Rightarrow> uuid \<Rightarrow> uuid \<Rightarrow> promotion_call
     \<Rightarrow> 'w learning_state \<times> (learning_error + memory_item)" where
  "promote_to_gold c st tenant i pc =
     (case record_of c st tenant i of
        Inl e \<Rightarrow> (st, Inl e)
      | Inr r0 \<Rightarrow>
         if lm_eligibility (sr_sample r0) \<noteq> LEARN_ELIGIBLE
         then (st, Inl (LearningError
                 ''sample must pass training eligibility before promotion (22 8)''))
         else
          (case admit_promotion i (pc_signals pc) of
             Inl e \<Rightarrow> (st, Inl e)
           | Inr verdicts \<Rightarrow>
              (let r1 = r0\<lparr>sr_promotion_verdicts := verdicts\<rparr>;
                   st1 = keep_record c st tenant i r1;
                   wanted = gold_item tenant r1 pc
               in if \<not> memory_item_valid wanted then (st1, Inl InvalidMemoryItem)
                  else case ln_upsert c (ls_world st1) wanted of
                    (w, Inl e) \<Rightarrow> (st1\<lparr>ls_world := w\<rparr>, Inl (KnowledgeRaised e))
                  | (w, Inr item) \<Rightarrow>
                     (let r2 = set_level LEVEL_GOLD r1;
                          st2 = keep_record c (st1\<lparr>ls_world := w\<rparr>) tenant i r2
                      in case bind_to_custody c st2 tenant r2 item of
                           (st3, Some e) \<Rightarrow> (st3, Inl e)
                         | (st3, None) \<Rightarrow>
                            (case ln_audit c of
                               None \<Rightarrow> (st3, Inr item)
                             | Some log_event \<Rightarrow>
                                (case log_event (ls_world st3)
                                        (promotion_event tenant i r2 pc item verdicts) of
                                   (w', Inl e) \<Rightarrow> (st3\<lparr>ls_world := w'\<rparr>, Inl (AuditRaised e))
                                 | (w', Inr _) \<Rightarrow> (st3\<lparr>ls_world := w'\<rparr>, Inr item)))))))"

section \<open>Retrieval\<close>

text \<open>The memory ids live custody binds; an unreadable state raises.\<close>

fun live_gold_ids :: "recovered_capture list \<Rightarrow> learning_error + uuid list" where
  "live_gold_ids [] = Inr []"
| "live_gold_ids (cur # cs) =
     (if rc_payload cur = None \<or> lm_verification_level (rc_sample cur) \<noteq> LEVEL_GOLD
      then live_gold_ids cs
      else result_bind (validate_custody_state (rc_state cur)) (\<lambda>state.
        result_bind (live_gold_ids cs) (\<lambda>ids.
          Inr (case map_of state ''memory_id'' of
                 Some (JStr t) \<Rightarrow> (case canonical_uuid t of None \<Rightarrow> ids | Some i \<Rightarrow> i # ids)
               | _ \<Rightarrow> ids))))"

definition live_ids ::
  "'w learning \<Rightarrow> 'w learning_state \<Rightarrow> uuid \<Rightarrow> memory_item list \<Rightarrow> learning_error + uuid list" where
  "live_ids c st tenant gold =
     (case ln_custody c of
        None \<Rightarrow> Inr (map mi_id gold)
      | Some cu \<Rightarrow> result_bind (cu_list cu (ls_world st) tenant) live_gold_ids)"

definition servable_gold ::
  "'w learning \<Rightarrow> 'w learning_state \<Rightarrow> uuid \<Rightarrow> memory_item list \<Rightarrow> learning_error + memory_item list" where
  "servable_gold c st tenant items =
     (let gold = filter (\<lambda>m. mi_source m = GOLD_KNOWLEDGE_SOURCE) items
      in if ln_custody c = None then Inr gold
         else map_sum id (\<lambda>live. filter (\<lambda>m. mi_id m \<in> set live) gold) (live_ids c st tenant gold))"

definition tenant_filter :: "string option \<Rightarrow> bool \<Rightarrow> memory_filter" where
  "tenant_filter key expired =
     \<lparr>mf_user_id = None, mf_scope = Some SCOPE_TENANT, mf_key = key, mf_min_confidence = 0,
      mf_include_expired = expired\<rparr>"

text \<open>\<open>max(gold, key=confidence)\<close>: the first item of greatest confidence.\<close>

fun best_item :: "memory_item \<Rightarrow> memory_item list \<Rightarrow> memory_item" where
  "best_item b [] = b"
| "best_item b (m # ms) = best_item (if mi_confidence b < mi_confidence m then m else b) ms"

record learned_answer =
  la_found :: bool
  la_key :: string
  la_answer :: "json option"
  la_confidence :: "rat option"
  la_evidence :: "(uuid \<times> string) option"

definition ask_learned ::
  "'w learning \<Rightarrow> timestamp \<Rightarrow> 'w learning_state \<Rightarrow> uuid \<Rightarrow> string \<Rightarrow> learning_error + learned_answer"
  where
  "ask_learned c now st tenant key =
     map_sum id (\<lambda>gold. case gold of
         [] \<Rightarrow> \<lparr>la_found = False, la_key = key, la_answer = None, la_confidence = None,
               la_evidence = None\<rparr>
       | m # ms \<Rightarrow>
          (let best = best_item m ms
           in \<lparr>la_found = True, la_key = key, la_answer = Some (mi_value best),
               la_confidence = Some (mi_confidence best),
               la_evidence = Some (mi_id best, mi_source best)\<rparr>))
       (servable_gold c st tenant
          (ln_query c now (ls_world st) tenant (tenant_filter (Some key) False)))"

definition learned_keys ::
  "'w learning \<Rightarrow> timestamp \<Rightarrow> 'w learning_state \<Rightarrow> uuid \<Rightarrow> learning_error + string list" where
  "learned_keys c now st tenant =
     map_sum id (\<lambda>gold. sort (remdups (map mi_key gold)))
       (servable_gold c st tenant
          (ln_query c now (ls_world st) tenant (tenant_filter None False)))"

text \<open>The sweep of derived copies: checked, removed, retained.\<close>

fun remove_orphans ::
  "'w learning \<Rightarrow> uuid \<Rightarrow> uuid set \<Rightarrow> 'w \<Rightarrow> memory_item list \<Rightarrow> 'w \<times> nat" where
  "remove_orphans c tenant live w [] = (w, 0)"
| "remove_orphans c tenant live w (m # ms) =
     (if mi_id m \<in> live then remove_orphans c tenant live w ms
      else case ln_delete c w tenant (mi_id m) of
             (w', Inl _) \<Rightarrow> remove_orphans c tenant live w' ms
           | (w', Inr _) \<Rightarrow> (case remove_orphans c tenant live w' ms of (w'', n) \<Rightarrow> (w'', Suc n)))"

definition reconcile_derived_copies ::
  "'w learning \<Rightarrow> timestamp \<Rightarrow> 'w learning_state \<Rightarrow> uuid
     \<Rightarrow> 'w learning_state \<times> (learning_error + nat \<times> nat \<times> nat)" where
  "reconcile_derived_copies c now st tenant =
     (let items = ln_query c now (ls_world st) tenant (tenant_filter None True);
          gold = filter (\<lambda>m. mi_source m = GOLD_KNOWLEDGE_SOURCE) items
      in case live_ids c st tenant gold of
           Inl e \<Rightarrow> (st, Inl e)
         | Inr live \<Rightarrow>
            (case remove_orphans c tenant (set live) (ls_world st) gold of
               (w, removed) \<Rightarrow>
                 (st\<lparr>ls_world := w\<rparr>, Inr (length gold, removed, length gold - removed))))"

definition no_governance :: learning_error where
  "no_governance = LearningError ''learning governance requires durable custody''"

definition revoke_policy ::
  "'w learning \<Rightarrow> 'w learning_state \<Rightarrow> uuid \<Rightarrow> uuid \<Rightarrow> 'w learning_state \<times> (learning_error + int)"
  where
  "revoke_policy c st tenant policy =
     (case ln_governance c of
        None \<Rightarrow> (st, Inl no_governance)
      | Some g \<Rightarrow> (case gp_revoke_policy g (ls_world st) tenant policy of
                    (w, r) \<Rightarrow> (st\<lparr>ls_world := w\<rparr>, r)))"

definition sweep_retention ::
  "'w learning \<Rightarrow> timestamp \<Rightarrow> 'w learning_state \<Rightarrow> uuid
     \<Rightarrow> 'w learning_state \<times> (learning_error + int \<times> nat \<times> nat \<times> nat)" where
  "sweep_retention c now st tenant =
     (case ln_governance c of
        None \<Rightarrow> (st, Inl no_governance)
      | Some g \<Rightarrow>
         (case gp_expire g (ls_world st) tenant now of
            (w, Inl e) \<Rightarrow> (st\<lparr>ls_world := w\<rparr>, Inl e)
          | (w, Inr expired) \<Rightarrow>
             (case reconcile_derived_copies c now (st\<lparr>ls_world := w\<rparr>) tenant of
                (st', r) \<Rightarrow> (st', map_sum id (Pair expired) r))))"

definition release_legacy_hold ::
  "'w learning \<Rightarrow> 'w learning_state \<Rightarrow> uuid \<Rightarrow> uuid \<Rightarrow> 'w learning_state \<times> (learning_error + bool)"
  where
  "release_legacy_hold c st tenant ref =
     (case ln_governance c of
        None \<Rightarrow> (st, Inl no_governance)
      | Some g \<Rightarrow> (case gp_release_legacy_hold g (ls_world st) tenant ref of
                    (w, r) \<Rightarrow> (st\<lparr>ls_world := w\<rparr>, r)))"

section \<open>Capability snapshots\<close>

record capability_snapshot =
  cp_probes :: "string list"
  cp_found :: "string list"
  cp_missing :: "string list"
  cp_taken_at :: timestamp

definition snapshot_score :: "capability_snapshot \<Rightarrow> rat" where
  "snapshot_score s =
     (if cp_probes s = [] then 0
      else rat_of_nat (length (cp_found s)) / rat_of_nat (length (cp_probes s)))"

fun probe_keys ::
  "(string \<Rightarrow> learning_error + learned_answer) \<Rightarrow> string list
     \<Rightarrow> learning_error + string list \<times> string list" where
  "probe_keys ask [] = Inr ([], [])"
| "probe_keys ask (k # ks) = result_bind (ask k) (\<lambda>a.
     map_sum id (\<lambda>(found, missing).
       if la_found a then (k # found, missing) else (found, k # missing)) (probe_keys ask ks))"

definition take_snapshot ::
  "'w learning \<Rightarrow> timestamp \<Rightarrow> 'w learning_state \<Rightarrow> uuid \<Rightarrow> string list
     \<Rightarrow> learning_error + capability_snapshot" where
  "take_snapshot c now st tenant probes =
     (let ordered = ordered_dedup [] probes
      in map_sum id (\<lambda>(found, missing).
           \<lparr>cp_probes = ordered, cp_found = found, cp_missing = missing, cp_taken_at = now\<rparr>)
           (probe_keys (ask_learned c now st tenant) ordered))"

record capability_delta =
  cd_gained :: "string list"
  cd_lost :: "string list"
  cd_still_missing :: "string list"
  cd_improved :: bool
  cd_regressed :: bool

definition snapshot_delta ::
  "capability_snapshot \<Rightarrow> capability_snapshot \<Rightarrow> learning_error + capability_delta" where
  "snapshot_delta b a =
     (if cp_probes b \<noteq> cp_probes a
      then Inl (LearningError ''capability delta requires the SAME probe set'')
      else let gained = sort (remdups (filter (\<lambda>k. k \<notin> set (cp_found b)) (cp_found a)));
               lost = sort (remdups (filter (\<lambda>k. k \<notin> set (cp_found a)) (cp_found b)))
           in Inr \<lparr>cd_gained = gained, cd_lost = lost, cd_still_missing = cp_missing a,
                   cd_improved = (gained \<noteq> [] \<and> lost = []), cd_regressed = (lost \<noteq> [])\<rparr>)"

end
