(* ===== verification/Learning_Gold.thy ===== *)
theory Learning_Gold
  imports Learning_Lifecycle
begin

text \<open>
  What the lifecycle of \<open>Learning_Lifecycle\<close> guarantees in its in-process mode.  Every
  operation changes one record, in a way that keeps \<open>sample_ok\<close>; \<open>learn_step\<close> is the step
  relation of the composed service, with an environment that may write other knowledge.  The
  knowledge store is an interface (locale \<open>knowledge_store\<close>): its laws are those of the
  memory store, on which it is interpreted.  Lemmas: GOLD knowledge is earned, a promotion is
  retrievable, tenants do not see each other, and what the gates do not re-check.
\<close>

section \<open>How a record evolves in process\<close>

text \<open>
  What is always true of a tracked sample: PASSED means the scan is clean, ELIGIBLE means
  every training condition held when it was admitted (so the scan is clean: the knowledge
  of a sample never changes), and recorded promotion verdicts are those of an admission.
\<close>

definition promoted_ok :: "sample_record \<Rightarrow> bool" where
  "promoted_ok r \<longleftrightarrow> map fst (sr_promotion_verdicts r) = PROMOTION_CONDITIONS
     \<and> failed_conditions (sr_promotion_verdicts r) = []"

definition sample_ok :: "'w learning \<Rightarrow> sample_record \<Rightarrow> bool" where
  "sample_ok c r \<longleftrightarrow>
     (\<forall>rep. sr_report r = Some rep \<longrightarrow> rep = scan_of c r)
     \<and> (lm_sanitization_state (sr_sample r) = SANITIZE_PASSED \<longrightarrow> clean (scan_of c r))
     \<and> (lm_eligibility (sr_sample r) = LEARN_ELIGIBLE \<longrightarrow>
          clean (scan_of c r) \<and> lm_dataset_id (sr_sample r) \<noteq> None
          \<and> map fst (sr_eligibility_verdicts r) = TRAINING_ELIGIBILITY_CONDITIONS
          \<and> failed_conditions (sr_eligibility_verdicts r) = [])
     \<and> (sr_promotion_verdicts r \<noteq> [] \<longrightarrow> promoted_ok r \<and> clean (scan_of c r))"

definition evolves :: "'w learning \<Rightarrow> sample_record \<Rightarrow> sample_record \<Rightarrow> bool" where
  "evolves c r r' \<longleftrightarrow>
     sr_key r' = sr_key r \<and> sr_value r' = sr_value r
     \<and> (sample_ok c r \<longrightarrow> sample_ok c r') \<and> (promoted_ok r \<longrightarrow> promoted_ok r')"

lemma evolvesI:
  assumes "sr_key r' = sr_key r" and "sr_value r' = sr_value r"
    and "scan_of c r' = scan_of c r \<Longrightarrow> sample_ok c r \<Longrightarrow> sample_ok c r'"
    and "promoted_ok r \<Longrightarrow> promoted_ok r'"
  shows "evolves c r r'"
  using assms by (simp add: evolves_def scan_of_def)

lemma evolves_trans: "evolves c r r' \<Longrightarrow> evolves c r' r'' \<Longrightarrow> evolves c r r''"
  by (simp add: evolves_def)

lemma evolves_report: "evolves c r (r\<lparr>sr_report := Some (scan_of c r)\<rparr>)"
  by (rule evolvesI) (auto simp: sample_ok_def promoted_ok_def scan_of_def)

lemma evolves_level: "evolves c r (set_level l r)"
  by (rule evolvesI) (auto simp: sample_ok_def promoted_ok_def scan_of_def set_level_def)

lemma evolves_sanitization:
  assumes "s = SANITIZE_PASSED \<Longrightarrow> clean (scan_of c r)"
  shows "evolves c r (set_sanitization s r)"
  using assms
  by (intro evolvesI)
    (auto simp: sample_ok_def promoted_ok_def scan_of_def set_sanitization_def)

lemma evolves_ineligible:
  "evolves c r (r\<lparr>sr_sample := (sr_sample r)\<lparr>lm_eligibility := LEARN_INELIGIBLE\<rparr>,
     sr_eligibility_verdicts := vs\<rparr>)"
  by (rule evolvesI) (auto simp: sample_ok_def promoted_ok_def scan_of_def)

lemma evolves_eligible:
  assumes "admit_eligibility (ln_minimum c) (sr_sample r) sg = Inr vs"
  shows "evolves c r (r\<lparr>sr_eligibility_verdicts := vs, sr_sample :=
     (sr_sample r)\<lparr>lm_eligibility := LEARN_ELIGIBLE, lm_dataset_id := Some d\<rparr>\<rparr>)"
proof -
  from assms have vs: "vs = evaluate_eligibility (ln_minimum c) (sr_sample r) sg"
      "failed_conditions vs = []" by (auto simp: admit_eligibility_Inr)
  then have "lm_sanitization_state (sr_sample r) = SANITIZE_PASSED"
    by (simp add: eligible_means)
  with vs show ?thesis
    by (intro evolvesI)
      (auto simp: sample_ok_def promoted_ok_def scan_of_def eligibility_names)
qed

lemma evolves_promoted:
  assumes "admit_promotion i sg = Inr vs" and "lm_eligibility (sr_sample r) = LEARN_ELIGIBLE"
  shows "evolves c r (r\<lparr>sr_promotion_verdicts := vs\<rparr>)"
    and "promoted_ok (r\<lparr>sr_promotion_verdicts := vs\<rparr>)"
proof -
  from assms have vs: "vs = evaluate_promotion sg" "failed_conditions vs = []"
    by (auto simp: admit_promotion_Inr)
  then show "promoted_ok (r\<lparr>sr_promotion_verdicts := vs\<rparr>)"
    by (simp add: promoted_ok_def promotion_names)
  with assms(2) show "evolves c r (r\<lparr>sr_promotion_verdicts := vs\<rparr>)"
    by (intro evolvesI) (auto simp: sample_ok_def scan_of_def promoted_ok_def)
qed

text \<open>An operation on \<open>(tenant, i)\<close> changes that record at most, and in a way that evolves it.\<close>

definition samples_evolve ::
  "'w learning \<Rightarrow> uuid \<times> uuid \<Rightarrow> ((uuid \<times> uuid) \<times> sample_record) list
     \<Rightarrow> ((uuid \<times> uuid) \<times> sample_record) list \<Rightarrow> bool" where
  "samples_evolve c k d d' \<longleftrightarrow> d' = d
     \<or> (\<exists>r r'. map_of d k = Some r \<and> evolves c r r' \<and> d' = AList.update k r' d)"

lemma samples_evolveI:
  "map_of d k = Some r \<Longrightarrow> evolves c r r' \<Longrightarrow> samples_evolve c k d (AList.update k r' d)"
  by (auto simp: samples_evolve_def)

lemma record_of_plain:
  "ln_custody c = None \<Longrightarrow> record_of c st t i = Inr r \<longleftrightarrow> map_of (ls_samples st) (t, i) = Some r"
  by (auto simp: record_of_def split: option.splits)

lemma commit_plain:
  "ln_custody c = None \<Longrightarrow> commit c st t i r
     = (st\<lparr>ls_samples := AList.update (t, i) r (ls_samples st)\<rparr>, Inr (sr_sample r))"
  by (simp add: commit_def persist_def keep_record_def)

lemma keep_record_plain:
  "ln_custody c = None \<Longrightarrow>
     keep_record c st t i r = st\<lparr>ls_samples := AList.update (t, i) r (ls_samples st)\<rparr>"
  by (simp add: keep_record_def)

lemmas plain_simps = record_of_plain commit_plain keep_record_plain

lemma sanitize_plain:
  assumes "ln_custody c = None" and "sanitize c st t i = (st', res)"
  shows "samples_evolve c (t, i) (ls_samples st) (ls_samples st') \<and> ls_world st' = ls_world st"
proof (cases "record_of c st t i")
  case (Inl e)
  with assms show ?thesis by (auto simp: sanitize_def samples_evolve_def)
next
  case (Inr r)
  then have r: "map_of (ls_samples st) (t, i) = Some r" using assms(1) by (simp add: record_of_plain)
  from assms Inr have "st' = st\<lparr>ls_samples :=
      AList.update (t, i) (r\<lparr>sr_report := Some (scan_of c r)\<rparr>) (ls_samples st)\<rparr>"
    by (simp add: sanitize_def keep_record_plain)
  then show ?thesis using samples_evolveI [OF r evolves_report] by simp
qed

lemma mark_sanitized_plain:
  assumes "ln_custody c = None" and "mark_sanitized c st t i passed = (st', res)"
    and "\<And>r. map_of (ls_samples st) (t, i) = Some r \<Longrightarrow> sample_ok c r"
  shows "samples_evolve c (t, i) (ls_samples st) (ls_samples st') \<and> ls_world st' = ls_world st"
proof (cases "record_of c st t i")
  case (Inl e)
  with assms show ?thesis by (auto simp: mark_sanitized_def samples_evolve_def)
next
  case (Inr r)
  let ?r = "r\<lparr>sr_report := Some (scan_of c r)\<rparr>"
  have r: "map_of (ls_samples st) (t, i) = Some r" using Inr assms(1) by (simp add: record_of_plain)
  have rep: "(case sr_report r of None \<Rightarrow> scan_of c r | Some rep \<Rightarrow> rep) = scan_of c r"
    using assms(3) [OF r] by (auto simp: sample_ok_def split: option.splits)
  have scan: "scan_of c ?r = scan_of c r" by (simp add: scan_of_def)
  have ev: "evolves c r (set_sanitization s ?r)" if "s = SANITIZE_PASSED \<Longrightarrow> clean (scan_of c r)" for s
    by (rule evolves_trans [OF evolves_report evolves_sanitization]) (simp add: scan that)
  from assms(1,2) Inr obtain s where "st' = st\<lparr>ls_samples :=
      AList.update (t, i) (set_sanitization s ?r) (ls_samples st)\<rparr>"
      "s = SANITIZE_PASSED \<Longrightarrow> clean (scan_of c r)"
    by (auto simp: mark_sanitized_def rep commit_plain Let_def split: if_splits)
  then show ?thesis using samples_evolveI [OF r ev] by simp
qed

lemma evaluate_sample_plain:
  assumes "ln_custody c = None" and "evaluate_sample c st t i output = (st', res)"
  shows "samples_evolve c (t, i) (ls_samples st) (ls_samples st')"
    and "ls_world st' = ls_world st \<or> (\<exists>ev x a. ln_evaluation c = Some ev
           \<and> ev (ls_world st) t x output = (ls_world st', a))"
  using assms
  by (auto simp: evaluate_sample_def plain_simps samples_evolve_def Let_def
      split: sum.splits option.splits prod.splits intro: evolves_level)

lemma set_verification_level_plain:
  assumes "ln_custody c = None" and "set_verification_level c st t i level = (st', res)"
  shows "samples_evolve c (t, i) (ls_samples st) (ls_samples st') \<and> ls_world st' = ls_world st"
  using assms
  by (auto simp: set_verification_level_def plain_simps samples_evolve_def
      split: sum.splits intro: evolves_level)

lemma admit_to_training_plain:
  assumes "ln_custody c = None" and "admit_to_training c d st t i sg dataset = (st', res)"
  shows "samples_evolve c (t, i) (ls_samples st) (ls_samples st') \<and> ls_world st' = ls_world st"
  using assms
  by (auto simp: admit_to_training_def plain_simps samples_evolve_def Let_def
      split: sum.splits intro: evolves_ineligible evolves_eligible)

section \<open>Steps of the composed service\<close>

text \<open>
  \<open>fresh\<close> says that an item's drawn id is new in the knowledge store; \<open>other\<close> is what the
  rest of the platform may do to the world.
\<close>

inductive learn_step ::
  "'w learning \<Rightarrow> ('w \<Rightarrow> memory_item \<Rightarrow> bool) \<Rightarrow> ('w \<Rightarrow> 'w \<Rightarrow> bool)
     \<Rightarrow> 'w learning_state \<Rightarrow> 'w learning_state \<Rightarrow> bool"
  for c fresh other where
  capture: "learn_step c fresh other st st'"
    if "map_of (ls_samples st) (t, i) = None"
      and "capture_from_execution c i st t source cq = (st', res)"
| ingest: "learn_step c fresh other st st'"
    if "map_of (ls_samples st) (t, i) = None"
      and "capture_external c i source st t actor cq = (st', res)"
| scan: "learn_step c fresh other st st'" if "sanitize c st t i = (st', res1)"
| mark: "learn_step c fresh other st st'" if "mark_sanitized c st t i passed = (st', res)"
| evaluate: "learn_step c fresh other st st'" if "evaluate_sample c st t i output = (st', res)"
| level: "learn_step c fresh other st st'" if "set_verification_level c st t i l = (st', res)"
| admit: "learn_step c fresh other st st'" if "admit_to_training c d st t i sg dataset = (st', res)"
| promote: "learn_step c fresh other st st'"
    if "promote_to_gold c st t i pc = (st', res2)"
      and "\<And>r. fresh (ls_world st) (gold_item t r pc)"
| outside: "learn_step c fresh other st (st\<lparr>ls_world := w\<rparr>)" if "other (ls_world st) w"

text \<open>A gold item and the promoted sample it comes from.\<close>

definition earned ::
  "'w learning \<Rightarrow> ((uuid \<times> uuid) \<times> sample_record) list \<Rightarrow> memory_item \<Rightarrow> bool" where
  "earned c samples m \<longleftrightarrow>
     (\<exists>i r. map_of samples (mi_tenant_id m, i) = Some r \<and> sr_key r = mi_key m
        \<and> JObj (sr_value r) = mi_value m \<and> promoted_ok r \<and> clean (scan_of c r))"

definition samples_ok :: "'w learning \<Rightarrow> ((uuid \<times> uuid) \<times> sample_record) list \<Rightarrow> bool" where
  "samples_ok c samples \<longleftrightarrow> (\<forall>k r. map_of samples k = Some r \<longrightarrow> sample_ok c r)"

lemma samples_evolve_ok:
  assumes "samples_evolve c k d d'" and "samples_ok c d"
  shows "samples_ok c d'"
proof -
  have "sample_ok c r" if r: "map_of d' x = Some r" for x r
  proof (cases "d' = d \<or> x \<noteq> k")
    case True
    with assms(1) r have "map_of d x = Some r" by (auto simp: samples_evolve_def)
    with assms(2) show ?thesis unfolding samples_ok_def by blast
  next
    case False
    with assms(1) r obtain r0 where "map_of d x = Some r0" "evolves c r0 r"
      by (auto simp: samples_evolve_def)
    with assms(2) show ?thesis unfolding samples_ok_def evolves_def by blast
  qed
  then show ?thesis by (simp add: samples_ok_def)
qed

lemma samples_evolve_earned:
  assumes ev: "samples_evolve c k d d'" and e: "earned c d m"
  shows "earned c d' m"
proof -
  from e obtain i r where r: "map_of d (mi_tenant_id m, i) = Some r" "sr_key r = mi_key m"
      "JObj (sr_value r) = mi_value m" "promoted_ok r" "clean (scan_of c r)"
    by (auto simp: earned_def)
  show ?thesis
  proof (cases "d' = d \<or> k \<noteq> (mi_tenant_id m, i)")
    case True
    with ev r have "map_of d' (mi_tenant_id m, i) = Some r"
      by (auto simp: samples_evolve_def)
    with r show ?thesis by (auto simp: earned_def)
  next
    case False
    with ev r(1) obtain r' where "evolves c r r'" "map_of d' (mi_tenant_id m, i) = Some r'"
      by (auto simp: samples_evolve_def)
    with r show ?thesis unfolding earned_def evolves_def scan_of_def by metis
  qed
qed

lemma capture_fresh:
  assumes "map_of (ls_samples st) (t, i) = None"
    and "capture_plain st t source kind key value i = (st', sample)"
  shows "samples_ok c (ls_samples st) \<Longrightarrow> samples_ok c (ls_samples st')"
    and "earned c (ls_samples st) m \<Longrightarrow> earned c (ls_samples st') m"
    and "ls_world st' = ls_world st"
proof -
  from assms(2) have st': "st' = st\<lparr>ls_samples := AList.update (t, i)
      (plain_record (new_sample i source t) kind key value) (ls_samples st)\<rparr>"
    by (auto simp: capture_plain_def Let_def)
  have new: "sample_ok c (plain_record (new_sample i source t) kind key value)"
    by (simp add: sample_ok_def plain_record_def new_sample_def)
  show "samples_ok c (ls_samples st) \<Longrightarrow> samples_ok c (ls_samples st')"
    using new by (auto simp: st' samples_ok_def)
  show "ls_world st' = ls_world st" by (simp add: st')
  show "earned c (ls_samples st') m" if e: "earned c (ls_samples st) m"
  proof -
    from e obtain j r where r: "map_of (ls_samples st) (mi_tenant_id m, j) = Some r"
        "sr_key r = mi_key m" "JObj (sr_value r) = mi_value m" "promoted_ok r"
        "clean (scan_of c r)"
      by (auto simp: earned_def)
    with assms(1) have "map_of (ls_samples st') (mi_tenant_id m, j) = Some r" by (auto simp: st')
    with r show ?thesis by (auto simp: earned_def)
  qed
qed

text \<open>
  Promotion in process: either nothing was written, or the wanted item was offered to the
  store, with the sample's verdicts already recorded.
\<close>

lemma promote_plain:
  assumes "ln_custody c = None" and "promote_to_gold c st t i pc = (st', res)"
  shows "samples_evolve c (t, i) (ls_samples st) (ls_samples st')
    \<and> (ls_world st' = ls_world st \<and> \<not> is_ok res
       \<or> (\<exists>item e. ln_upsert c (ls_world st) item = (ls_world st', Inl e) \<and> \<not> is_ok res)
       \<or> (\<exists>r vs w item. map_of (ls_samples st) (t, i) = Some r
            \<and> lm_eligibility (sr_sample r) = LEARN_ELIGIBLE
            \<and> admit_promotion i (pc_signals pc) = Inr vs
            \<and> ln_upsert c (ls_world st) (gold_item t r pc) = (w, Inr item)
            \<and> map_of (ls_samples st') (t, i)
                = Some (set_level LEVEL_GOLD (r\<lparr>sr_promotion_verdicts := vs\<rparr>))
            \<and> (ln_audit c = None \<and> ls_world st' = w \<and> res = Inr item
               \<or> (\<exists>log_event event a. ln_audit c = Some log_event
                    \<and> log_event w event = (ls_world st', a)
                    \<and> (res = Inr item \<or> \<not> is_ok res)))))"
proof (cases "map_of (ls_samples st) (t, i)")
  case None
  with assms show ?thesis
    by (auto simp: promote_to_gold_def record_of_def samples_evolve_def)
next
  case (Some r)
  then have rec: "record_of c st t i = Inr r" using assms(1) by (simp add: record_of_plain)
  show ?thesis
  proof (cases "lm_eligibility (sr_sample r) = LEARN_ELIGIBLE")
    case False
    with assms rec show ?thesis by (auto simp: promote_to_gold_def samples_evolve_def)
  next
    case elig: True
    show ?thesis
    proof (cases "admit_promotion i (pc_signals pc)")
      case (Inl e)
      with assms rec elig show ?thesis by (auto simp: promote_to_gold_def samples_evolve_def)
    next
      case (Inr vs)
      let ?r1 = "r\<lparr>sr_promotion_verdicts := vs\<rparr>"
      have item: "gold_item t ?r1 pc = gold_item t r pc" by (simp add: gold_item_def)
      have ev1: "evolves c r ?r1" by (rule evolves_promoted(1) [OF Inr elig])
      have ev2: "evolves c r (set_level LEVEL_GOLD ?r1)"
        by (rule evolves_trans [OF ev1 evolves_level])
      obtain w up where up: "ln_upsert c (ls_world st) (gold_item t r pc) = (w, up)"
        by (cases "ln_upsert c (ls_world st) (gold_item t r pc)")
      note simps = promote_to_gold_def rec elig Inr Let_def keep_record_plain [OF assms(1)]
        item up bind_to_custody_def
      show ?thesis
      proof (cases "memory_item_valid (gold_item t r pc)")
        case False
        with assms samples_evolveI [OF Some ev1] show ?thesis by (auto simp: simps)
      next
        case valid: True
        show ?thesis
        proof (cases up)
          case (Inl e)
          with up have refused: "\<exists>item e. ln_upsert c (ls_world st) item = (w, Inl e)" by blast
          from assms valid Inl have "st' = st\<lparr>ls_samples := AList.update (t, i) ?r1 (ls_samples st),
              ls_world := w\<rparr>" "\<not> is_ok res"
            by (auto simp: simps)
          with samples_evolveI [OF Some ev1] refused show ?thesis by simp
        next
          case stored: (Inr it)
          have twice: "AList.update k b (AList.update k a d) = AList.update k b d"
            for k :: "uuid \<times> uuid" and a b :: sample_record and d
            by (induction d) auto
          have se: "samples_evolve c (t, i) (ls_samples st)
              (AList.update (t, i) (set_level LEVEL_GOLD ?r1) (ls_samples st))"
            by (rule samples_evolveI [OF Some ev2])
          show ?thesis
          proof (cases "ln_audit c")
            case None
            with assms valid stored se Some elig Inr up show ?thesis
              by (auto simp: simps twice)
          next
            case (Some log_event)
            with assms valid stored se \<open>map_of (ls_samples st) (t, i) = Some r\<close> elig Inr up
            show ?thesis
              by (auto simp: simps twice split: prod.splits sum.splits)
          qed
        qed
      qed
    qed
  qed
qed

lemma promote_confidence:
  "promote_to_gold c st t i pc = (st', Inr item) \<Longrightarrow> 0 \<le> pc_confidence pc"
  by (auto simp: promote_to_gold_def memory_item_valid_def gold_item_def Let_def
      split: sum.splits if_splits)

lemma ran_keyed_update:
  assumes "\<And>k y. f k = Some y \<Longrightarrow> key y = k"
  shows "ran (f(l \<mapsto> x)) = insert x {y \<in> ran f. key y \<noteq> l}"
proof -
  have "y \<in> ran (f(l \<mapsto> x)) \<longleftrightarrow> y = x \<or> y \<in> ran f \<and> key y \<noteq> l" for y
    using assms by (auto simp: ran_def)
  then show ?thesis by auto
qed

lemma best_item_member: "best_item b ms \<in> set (b # ms)"
  by (induction b ms rule: best_item.induct) auto

section \<open>The knowledge store as an interface\<close>

text \<open>
  The laws the service relies on: an accepted write installs the item under its logical key
  with the value and source given, a refused one changes nothing, a query returns the visible
  items; the other ports leave the stored knowledge alone.
\<close>

locale knowledge_store =
  fixes c :: "'w learning"
    and ok :: "'w \<Rightarrow> bool"
    and items :: "'w \<Rightarrow> memory_item set"
    and fresh :: "'w \<Rightarrow> memory_item \<Rightarrow> bool"
    and other :: "'w \<Rightarrow> 'w \<Rightarrow> bool"
  assumes in_process: "ln_custody c = None"
    and upsert_stored: "ok w \<Longrightarrow> fresh w item \<Longrightarrow> ln_upsert c w item = (w', Inr m) \<Longrightarrow>
          ok w' \<and> items w' = insert m {x \<in> items w. logical_of x \<noteq> logical_of item}
          \<and> logical_of m = logical_of item \<and> mi_value m = mi_value item
          \<and> mi_source m = mi_source item \<and> mi_confidence m = mi_confidence item
          \<and> mi_expires_at m = mi_expires_at item"
    and upsert_refused: "ln_upsert c w item = (w', Inl refusal) \<Longrightarrow> w' = w"
    and query_visible: "ok w \<Longrightarrow>
          set (ln_query c now w t f) = {m \<in> items w. memory_visible now t f m}"
    and audit_apart: "ok w \<Longrightarrow> ln_audit c = Some log_event \<Longrightarrow> log_event w event = (w', r) \<Longrightarrow>
          ok w' \<and> items w' = items w"
    and evaluation_apart: "ok w \<Longrightarrow> ln_evaluation c = Some ev \<Longrightarrow> ev w t i output = (w', answer) \<Longrightarrow>
          ok w' \<and> items w' = items w"
    and external_apart: "ok w \<Longrightarrow> ln_external c = Some ext
          \<Longrightarrow> ext w t i actor key value = (w', drawn) \<Longrightarrow> ok w' \<and> items w' = items w"
    and others_write_no_gold: "ok w \<Longrightarrow> other w w' \<Longrightarrow>
          ok w' \<and> {x \<in> items w'. mi_source x = GOLD_KNOWLEDGE_SOURCE} \<subseteq> items w"
begin

definition gold_inv :: "'w learning_state \<Rightarrow> bool" where
  "gold_inv st \<longleftrightarrow> ok (ls_world st) \<and> samples_ok c (ls_samples st)
     \<and> (\<forall>m \<in> items (ls_world st). mi_source m = GOLD_KNOWLEDGE_SOURCE \<longrightarrow>
          earned c (ls_samples st) m)"

lemma gold_inv_evolve:
  assumes "gold_inv st" and "samples_evolve c k (ls_samples st) (ls_samples st')"
    and "ok (ls_world st')" and "items (ls_world st') = items (ls_world st)"
  shows "gold_inv st'"
  using assms samples_evolve_ok samples_evolve_earned unfolding gold_inv_def by metis

lemma plain_inv:
  assumes "gold_inv st"
    and "samples_evolve c k (ls_samples st) (ls_samples st') \<and> ls_world st' = ls_world st"
  shows "gold_inv st'"
  using gold_inv_evolve [OF assms(1) conjunct1 [OF assms(2)]] assms by (simp add: gold_inv_def)

lemma capture_inv:
  assumes inv: "gold_inv st" and "map_of (ls_samples st) (t, i) = None"
    and "capture_plain st t source kind key value i = (st', sample)"
  shows "gold_inv st'"
  using inv capture_fresh(1,2) [OF assms(2,3), of c] capture_fresh(3) [OF assms(2,3)]
  unfolding gold_inv_def by simp

lemma promote_inv:
  assumes inv: "gold_inv st" and fr: "\<And>r. fresh (ls_world st) (gold_item t r pc)"
    and pr: "promote_to_gold c st t i pc = (st', res)"
  shows "gold_inv st'"
proof -
  from inv have ok: "ok (ls_world st)" and sok: "samples_ok c (ls_samples st)"
    and gold: "\<And>m. m \<in> items (ls_world st) \<Longrightarrow> mi_source m = GOLD_KNOWLEDGE_SOURCE \<Longrightarrow>
        earned c (ls_samples st) m"
    unfolding gold_inv_def by blast+
  from promote_plain [OF in_process pr]
  have se: "samples_evolve c (t, i) (ls_samples st) (ls_samples st')" by blast
  show ?thesis
  proof (cases "ls_world st' = ls_world st")
    case True
    with gold_inv_evolve [OF inv se] ok show ?thesis by simp
  next
    case False
    with upsert_refused have "\<not> (\<exists>item e. ln_upsert c (ls_world st) item = (ls_world st', Inl e))"
      by blast
    with False promote_plain [OF in_process pr]
    obtain r vs w item where r: "map_of (ls_samples st) (t, i) = Some r"
        "lm_eligibility (sr_sample r) = LEARN_ELIGIBLE"
        "admit_promotion i (pc_signals pc) = Inr vs"
        "ln_upsert c (ls_world st) (gold_item t r pc) = (w, Inr item)"
        "map_of (ls_samples st') (t, i)
           = Some (set_level LEVEL_GOLD (r\<lparr>sr_promotion_verdicts := vs\<rparr>))"
        "ls_world st' = w \<or> (\<exists>log_event event a. ln_audit c = Some log_event
                    \<and> log_event w event = (ls_world st', a))"
      by blast
    from upsert_stored [OF ok fr r(4)] have w: "ok w"
        "items w = insert item {x \<in> items (ls_world st). logical_of x \<noteq> logical_of (gold_item t r pc)}"
        "logical_of item = logical_of (gold_item t r pc)"
        "mi_value item = mi_value (gold_item t r pc)" by blast+
    have world: "ok (ls_world st') \<and> items (ls_world st') = items w"
      using r(6) audit_apart [OF w(1)] w(1) by metis
    have "earned c (ls_samples st') item"
    proof -
      let ?r = "set_level LEVEL_GOLD (r\<lparr>sr_promotion_verdicts := vs\<rparr>)"
      have "mi_tenant_id item = t" "mi_key item = sr_key r" "mi_value item = JObj (sr_value r)"
        using w(3,4) by (auto simp: logical_of_eq_iff gold_item_def)
      moreover have "promoted_ok ?r"
        using evolves_promoted(2) [OF r(3,2)] by (simp add: promoted_ok_def set_level_def)
      moreover have "clean (scan_of c ?r)"
        using sok r(1,2) by (auto simp: samples_ok_def sample_ok_def scan_of_def set_level_def)
      moreover have "sr_key ?r = sr_key r" "sr_value ?r = sr_value r"
        by (simp_all add: set_level_def)
      ultimately show ?thesis using r(5) unfolding earned_def by metis
    qed
    with world w(2) gold samples_evolve_earned [OF se] samples_evolve_ok [OF se sok]
    show ?thesis by (auto simp: gold_inv_def)
  qed
qed

lemma learn_step_inv:
  assumes "gold_inv st" and "learn_step c fresh other st st'"
  shows "gold_inv st'"
  using assms(2)
proof cases
  case (capture t i source cq res)
  then obtain sample where p: "capture_plain st t source FROM_EXECUTION (cq_key cq) (cq_value cq) i
      = (st', sample)"
    using in_process by (auto simp: capture_from_execution_def split: prod.splits)
  show ?thesis by (rule capture_inv [OF assms(1) capture(1) p])
next
  case (ingest t i source actor cq res)
  show ?thesis
  proof (cases "ln_external c")
    case None
    then obtain src sample where p: "capture_plain st t src FROM_EXTERNAL (cq_key cq) (cq_value cq) i
        = (st', sample)"
      using in_process ingest(2) by (auto simp: capture_external_def split: prod.splits)
    show ?thesis by (rule capture_inv [OF assms(1) ingest(1) p])
  next
    case (Some ext)
    obtain w d where x: "ext (ls_world st) t i actor (cq_key cq) (cq_value cq) = (w, d)"
      by (cases "ext (ls_world st) t i actor (cq_key cq) (cq_value cq)")
    from assms(1) have ok: "ok (ls_world st)" by (simp add: gold_inv_def)
    have mid: "gold_inv (st\<lparr>ls_world := w\<rparr>)"
      using assms(1) external_apart [OF ok Some x] by (simp add: gold_inv_def)
    show ?thesis
    proof (cases d)
      case (Inl e)
      with in_process Some x mid ingest show ?thesis
        by (auto simp: capture_external_def split: prod.splits)
    next
      case (Inr src)
      obtain s2 sample where p: "capture_plain (st\<lparr>ls_world := w\<rparr>) t src FROM_EXTERNAL (cq_key cq)
          (cq_value cq) i = (s2, sample)" by (cases "capture_plain (st\<lparr>ls_world := w\<rparr>) t src
          FROM_EXTERNAL (cq_key cq) (cq_value cq) i")
      have "st' = s2" using in_process Some x Inr ingest p by (auto simp: capture_external_def)
      moreover have "gold_inv s2"
        by (rule capture_inv [OF mid _ p]) (simp add: ingest(1))
      ultimately show ?thesis by simp
    qed
  qed
next
  case (scan t i res1)
  show ?thesis by (rule plain_inv [OF assms(1) sanitize_plain [OF in_process scan]])
next
  case (mark t i passed res)
  have "sample_ok c r" if "map_of (ls_samples st) (t, i) = Some r" for r
    using assms(1) that unfolding gold_inv_def samples_ok_def by blast
  then show ?thesis by (rule plain_inv [OF assms(1) mark_sanitized_plain [OF in_process mark]])
next
  case (evaluate t i out res)
  from assms(1) have ok: "ok (ls_world st)" by (simp add: gold_inv_def)
  have "ok (ls_world st') \<and> items (ls_world st') = items (ls_world st)"
    using evaluate_sample_plain(2) [OF in_process evaluate] evaluation_apart [OF ok] ok by auto
  then show ?thesis
    using gold_inv_evolve [OF assms(1) evaluate_sample_plain(1) [OF in_process evaluate]] by simp
next
  case (level t i l res)
  show ?thesis by (rule plain_inv [OF assms(1) set_verification_level_plain [OF in_process level]])
next
  case (admit d t i sg dataset res)
  show ?thesis by (rule plain_inv [OF assms(1) admit_to_training_plain [OF in_process admit]])
next
  case (promote t i pc res2)
  show ?thesis by (rule promote_inv [OF assms(1) promote(2,1)])
next
  case (outside w)
  from assms(1) have ok: "ok (ls_world st)" by (simp add: gold_inv_def)
  from others_write_no_gold [OF ok outside(2)] assms(1) outside(1) show ?thesis
    by (auto simp: gold_inv_def)
qed

lemma learn_reachable_inv:
  assumes "(learn_step c fresh other)\<^sup>*\<^sup>* st st'" and "gold_inv st"
  shows "gold_inv st'"
  using assms by (induction rule: rtranclp_induct) (auto intro: learn_step_inv)

lemma gold_is_earned:
  assumes "gold_inv st" and "m \<in> set (ln_query c now (ls_world st) t f)"
    and "mi_source m = GOLD_KNOWLEDGE_SOURCE"
  shows "mi_tenant_id m = t \<and> earned c (ls_samples st) m"
  using assms query_visible by (auto simp: gold_inv_def memory_visible_iff)

lemma promotion_answers:
  assumes inv: "gold_inv st" and fr: "\<And>r. fresh (ls_world st) (gold_item t r pc)"
    and pr: "promote_to_gold c st t i pc = (st', Inr item)"
  obtains r where "map_of (ls_samples st') (t, i) = Some r" and "mi_key item = sr_key r"
    and "ask_learned c now st' t (sr_key r)
      = Inr \<lparr>la_found = True, la_key = sr_key r, la_answer = Some (JObj (sr_value r)),
             la_confidence = Some (pc_confidence pc),
             la_evidence = Some (mi_id item, GOLD_KNOWLEDGE_SOURCE)\<rparr>"
proof -
  from inv have ok: "ok (ls_world st)" by (simp add: gold_inv_def)
  have "is_ok (Inr item :: learning_error + memory_item)" by (simp add: is_ok_def)
  with promote_plain [OF in_process pr]
  obtain r vs w where r: "ln_upsert c (ls_world st) (gold_item t r pc) = (w, Inr item)"
      "map_of (ls_samples st') (t, i)
         = Some (set_level LEVEL_GOLD (r\<lparr>sr_promotion_verdicts := vs\<rparr>))"
      "ls_world st' = w \<or> (\<exists>log_event event a. ln_audit c = Some log_event
                    \<and> log_event w event = (ls_world st', a))"
    by blast
  from upsert_stored [OF ok fr r(1)] have w: "ok w"
      "items w = insert item {x \<in> items (ls_world st). logical_of x \<noteq> logical_of (gold_item t r pc)}"
      "logical_of item = logical_of (gold_item t r pc)"
      "mi_value item = JObj (sr_value r)" "mi_source item = GOLD_KNOWLEDGE_SOURCE"
      "mi_confidence item = pc_confidence pc" "mi_expires_at item = None"
    by (auto simp: gold_item_def)
  have world: "ok (ls_world st') \<and> items (ls_world st') = items w"
    using r(3) audit_apart [OF w(1)] w(1) by metis
  let ?f = "tenant_filter (Some (sr_key r)) False"
  have key: "mi_tenant_id item = t" "mi_user_id item = None" "mi_scope item = SCOPE_TENANT"
      "mi_key item = sr_key r"
    using w(3) by (auto simp: logical_of_eq_iff gold_item_def)
  have "memory_visible now t ?f item"
    using key w(6,7) promote_confidence [OF pr] by (simp add: memory_visible_iff tenant_filter_def)
  moreover have "x = item" if "x \<in> items w" "memory_visible now t ?f x" for x
  proof -
    have "logical_of x = logical_of item"
      using that(2) key by (simp add: memory_visible_iff tenant_filter_def logical_of_eq_iff)
    with that(1) w(2,3) show ?thesis by auto
  qed
  ultimately have q: "set (ln_query c now (ls_world st') t ?f) = {item}"
    using query_visible [OF conjunct1 [OF world], of now t ?f] world w(2) by blast
  define gold where
    "gold = filter (\<lambda>m. mi_source m = GOLD_KNOWLEDGE_SOURCE) (ln_query c now (ls_world st') t ?f)"
  have "set gold = {item}" using q w(5) by (auto simp: gold_def)
  then obtain m ms where g: "gold = m # ms" "set (m # ms) = {item}" by (cases gold) auto
  then have best: "best_item m ms = item" using best_item_member [of m ms] by auto
  show thesis
  proof
    show "map_of (ls_samples st') (t, i)
        = Some (set_level LEVEL_GOLD (r\<lparr>sr_promotion_verdicts := vs\<rparr>))" by (rule r(2))
    show "mi_key item = sr_key (set_level LEVEL_GOLD (r\<lparr>sr_promotion_verdicts := vs\<rparr>))"
      by (simp add: key set_level_def)
    show "ask_learned c now st' t (sr_key (set_level LEVEL_GOLD (r\<lparr>sr_promotion_verdicts := vs\<rparr>)))
      = Inr \<lparr>la_found = True, la_key = sr_key (set_level LEVEL_GOLD (r\<lparr>sr_promotion_verdicts := vs\<rparr>)),
             la_answer = Some (JObj (sr_value (set_level LEVEL_GOLD (r\<lparr>sr_promotion_verdicts := vs\<rparr>)))),
             la_confidence = Some (pc_confidence pc),
             la_evidence = Some (mi_id item, GOLD_KNOWLEDGE_SOURCE)\<rparr>"
      using g(1) best w(4,5,6) in_process
      by (simp add: ask_learned_def servable_gold_def set_level_def flip: gold_def)
  qed
qed

end

section \<open>The service composed with the memory store and the audit log\<close>

text \<open>
  The rest of the platform's state, on which the evaluator and the ingestion recorder act, is
  of any type \<open>'x\<close>.
\<close>

record 'x platform =
  pf_memory :: memory_store
  pf_audit :: audit_log
  pf_rest :: 'x

definition platform_upsert ::
  "text_library \<Rightarrow> 'x platform \<Rightarrow> memory_item \<Rightarrow> 'x platform \<times> (memory_error + memory_item)" where
  "platform_upsert lib p item =
     (case memory_upsert lib (pf_memory p) item of
        Inl e \<Rightarrow> (p, Inl e)
      | Inr (m, s) \<Rightarrow> (p\<lparr>pf_memory := s\<rparr>, Inr m))"

definition platform_delete ::
  "'x platform \<Rightarrow> uuid \<Rightarrow> uuid \<Rightarrow> 'x platform \<times> (memory_error + unit)" where
  "platform_delete p t i =
     (case memory_delete (pf_memory p) t i of
        Inl e \<Rightarrow> (p, Inl e) | Inr s \<Rightarrow> (p\<lparr>pf_memory := s\<rparr>, Inr ()))"

definition platform_audit :: "'x platform \<Rightarrow> audit_event \<Rightarrow> 'x platform \<times> (audit_error + unit)" where
  "platform_audit p e =
     (case audit_append (pf_audit p) e of
        Inl err \<Rightarrow> (p, Inl err) | Inr l \<Rightarrow> (p\<lparr>pf_audit := l\<rparr>, Inr ()))"

definition on_rest :: "('x \<Rightarrow> 'x \<times> 'r) \<Rightarrow> 'x platform \<Rightarrow> 'x platform \<times> 'r" where
  "on_rest f p = (case f (pf_rest p) of (x, r) \<Rightarrow> (p\<lparr>pf_rest := x\<rparr>, r))"

text \<open>\<open>LearningLifecycleService(...)\<close> without custody, over these stores.\<close>

definition memory_learning ::
  "text_library \<Rightarrow> verification_level
   \<Rightarrow> ('x \<Rightarrow> uuid \<Rightarrow> uuid \<Rightarrow> json_object \<Rightarrow> 'x \<times> (learning_error + evaluation_answer)) option
   \<Rightarrow> ('x \<Rightarrow> uuid \<Rightarrow> uuid \<Rightarrow> uuid option \<Rightarrow> string \<Rightarrow> json_object \<Rightarrow> 'x \<times> (learning_error + uuid)) option
   \<Rightarrow> 'x platform learning" where
  "memory_learning lib minimum evaluation external =
     \<lparr>ln_lib = lib, ln_custody = None, ln_governance = None,
      ln_external = map_option (\<lambda>f p t i actor key value. on_rest (\<lambda>x. f x t i actor key value) p) external,
      ln_evaluation = map_option (\<lambda>f p t execution output. on_rest (\<lambda>x. f x t execution output) p) evaluation,
      ln_upsert = platform_upsert lib,
      ln_query = (\<lambda>now p. memory_query now (pf_memory p)),
      ln_delete = platform_delete, ln_audit = Some platform_audit, ln_minimum = minimum\<rparr>"

text \<open>
  What else may happen to the platform: other writers of knowledge (their sources are
  \<open>preference\<close> and \<open>repo.map\<close>, never the reserved one), deletions, audit events, anything in
  the rest.
\<close>

inductive platform_step :: "text_library \<Rightarrow> 'x platform \<Rightarrow> 'x platform \<Rightarrow> bool" for lib where
  put: "platform_step lib p p'"
    if "fresh_item (pf_memory p) item" and "mi_source item \<noteq> GOLD_KNOWLEDGE_SOURCE"
      and "platform_upsert lib p item = (p', Inr m)"
| erase: "platform_step lib p p'"
    if "map_of (ms_items (pf_memory p)) (t, i) = Some m" and "platform_delete p t i = (p', Inr u)"
| log: "platform_step lib p (p\<lparr>pf_audit := l\<rparr>)"
| elsewhere: "platform_step lib p (p\<lparr>pf_rest := x\<rparr>)"

lemma platform_upsert_stored:
  assumes inv: "mem_inv lib (pf_memory p)" and fr: "fresh_item (pf_memory p) item"
    and up: "platform_upsert lib p item = (p', Inr m)"
  shows "mem_inv lib (pf_memory p')
    \<and> ran (mem_abs (pf_memory p'))
        = insert m {x \<in> ran (mem_abs (pf_memory p)). logical_of x \<noteq> logical_of item}
    \<and> logical_of m = logical_of item \<and> mi_value m = mi_value item
    \<and> mi_source m = mi_source item \<and> mi_confidence m = mi_confidence item
    \<and> mi_expires_at m = mi_expires_at item"
proof -
  from up obtain s where s: "memory_upsert lib (pf_memory p) item = Inr (m, s)"
      "p' = p\<lparr>pf_memory := s\<rparr>"
    by (auto simp: platform_upsert_def split: sum.splits)
  note up_inv = memory_upsert_inv [OF inv fr s(1)]
  have m: "logical_of m = logical_of item \<and> mi_value m = mi_value item
      \<and> mi_source m = mi_source item \<and> mi_confidence m = mi_confidence item
      \<and> mi_expires_at m = mi_expires_at item"
    using up_inv(3) mem_abs_logical [OF inv] by (auto split: option.splits)
  have "ran (mem_abs s)
      = insert m {x \<in> ran (mem_abs (pf_memory p)). logical_of x \<noteq> logical_of item}"
    unfolding up_inv(2) by (rule ran_keyed_update [OF mem_abs_logical [OF inv]])
  with m up_inv(1) s(2) show ?thesis by simp
qed

lemma platform_step_inv:
  assumes "platform_step lib p p'" and "mem_inv lib (pf_memory p)"
  shows "mem_inv lib (pf_memory p')
    \<and> {x \<in> ran (mem_abs (pf_memory p')). mi_source x = GOLD_KNOWLEDGE_SOURCE}
        \<subseteq> ran (mem_abs (pf_memory p))"
  using assms
proof cases
  case (put item m)
  from platform_upsert_stored [OF assms(2) put(1,3)] put(2) show ?thesis by auto
next
  case (erase t i m u)
  then obtain s where s: "memory_delete (pf_memory p) t i = Inr s" "p' = p\<lparr>pf_memory := s\<rparr>"
    by (auto simp: platform_delete_def split: sum.splits)
  from memory_delete_inv [OF assms(2) erase(1) s(1)] s(2) show ?thesis
    by (auto simp: ran_def split: if_splits)
qed auto

interpretation gold: knowledge_store
  "memory_learning lib minimum evaluation external"
  "\<lambda>p. mem_inv lib (pf_memory p)" "\<lambda>p. ran (mem_abs (pf_memory p))"
  "\<lambda>p. fresh_item (pf_memory p)" "platform_step lib"
  for lib minimum evaluation external
proof unfold_locales
  fix w :: "'a platform" and item w' m
  assume "mem_inv lib (pf_memory w)" "fresh_item (pf_memory w) item"
    "ln_upsert (memory_learning lib minimum evaluation external) w item = (w', Inr m)"
  then show "mem_inv lib (pf_memory w') \<and> ran (mem_abs (pf_memory w'))
        = insert m {x \<in> ran (mem_abs (pf_memory w)). logical_of x \<noteq> logical_of item}
    \<and> logical_of m = logical_of item \<and> mi_value m = mi_value item
    \<and> mi_source m = mi_source item \<and> mi_confidence m = mi_confidence item
    \<and> mi_expires_at m = mi_expires_at item"
    by (intro platform_upsert_stored) (simp_all add: memory_learning_def)
next
  fix w w' :: "'a platform"
  assume "mem_inv lib (pf_memory w)" "platform_step lib w w'"
  then show "mem_inv lib (pf_memory w')
    \<and> {x \<in> ran (mem_abs (pf_memory w')). mi_source x = GOLD_KNOWLEDGE_SOURCE}
        \<subseteq> ran (mem_abs (pf_memory w))"
    by (intro platform_step_inv)
qed (auto simp: memory_learning_def platform_upsert_def platform_audit_def on_rest_def
      set_memory_query split: sum.splits prod.splits)

section \<open>Properties\<close>

abbreviation gold_step ::
  "'x platform learning \<Rightarrow> 'x platform learning_state \<Rightarrow> 'x platform learning_state \<Rightarrow> bool" where
  "gold_step c \<equiv> learn_step c (\<lambda>p. fresh_item (pf_memory p)) (platform_step (ln_lib c))"

definition new_learning :: "'x \<Rightarrow> 'x platform learning_state" where
  "new_learning x = \<lparr>ls_samples = [],
     ls_world = \<lparr>pf_memory = new_memory_store, pf_audit = [], pf_rest = x\<rparr>\<rparr>"

lemma gold_start: "gold.gold_inv lib minimum evaluation external (new_learning x)"
proof -
  have "ran (mem_abs new_memory_store) = {}"
    by (simp add: mem_abs_def new_memory_store_def ran_def)
  then show ?thesis
    by (simp add: gold.gold_inv_def new_learning_def mem_inv_new samples_ok_def)
qed

lemma ln_lib_memory_learning [simp]: "ln_lib (memory_learning lib minimum evaluation external) = lib"
  by (simp add: memory_learning_def)

lemma gold_reachable_inv:
  assumes "(gold_step (memory_learning lib minimum evaluation external))\<^sup>*\<^sup>* (new_learning x) st"
  shows "gold.gold_inv lib minimum evaluation external st"
  using gold.learn_reachable_inv [OF _ gold_start] assms by simp

text \<open>What custody must say of a copy for it to be served.\<close>

definition bound_in_custody :: "recovered_capture list \<Rightarrow> uuid \<Rightarrow> bool" where
  "bound_in_custody rows i \<longleftrightarrow> (\<exists>cur \<in> set rows. \<exists>state tx.
     rc_payload cur \<noteq> None \<and> lm_verification_level (rc_sample cur) = LEVEL_GOLD
     \<and> validate_custody_state (rc_state cur) = Inr state
     \<and> map_of state ''memory_id'' = Some (JStr tx) \<and> canonical_uuid tx = Some i)"

lemma live_gold_ids_bound: "live_gold_ids rows = Inr ids \<Longrightarrow> i \<in> set ids \<Longrightarrow> bound_in_custody rows i"
proof (induction rows arbitrary: ids)
  case (Cons cur rows)
  have more: "bound_in_custody (cur # rows) i" if "bound_in_custody rows i"
    using that by (auto simp: bound_in_custody_def)
  show ?case
  proof (cases "rc_payload cur = None \<or> lm_verification_level (rc_sample cur) \<noteq> LEVEL_GOLD")
    case True
    with Cons.prems have "live_gold_ids rows = Inr ids" by simp
    then show ?thesis using Cons.IH Cons.prems(2) more by blast
  next
    case False
    with Cons.prems(1) obtain state rest where st: "validate_custody_state (rc_state cur) = Inr state"
      and rest: "live_gold_ids rows = Inr rest"
      and ids: "ids = (case map_of state ''memory_id'' of
          Some (JStr t) \<Rightarrow> (case canonical_uuid t of None \<Rightarrow> rest | Some i \<Rightarrow> i # rest) | _ \<Rightarrow> rest)"
      by (auto simp: result_bind_Inr_iff)
    show ?thesis
    proof (cases "i \<in> set rest")
      case True
      with Cons.IH [OF rest] more show ?thesis by blast
    next
      case new: False
      with ids Cons.prems(2) obtain tx where "map_of state ''memory_id'' = Some (JStr tx)"
          "canonical_uuid tx = Some i"
        by (auto split: option.splits json.splits)
      with False st show ?thesis by (auto simp: bound_in_custody_def)
    qed
  qed
qed simp

lemma servable_gold_custody:
  assumes "ln_custody c = Some cu" and "servable_gold c st t found = Inr gold" and "m \<in> set gold"
  shows "m \<in> set found \<and> mi_source m = GOLD_KNOWLEDGE_SOURCE
    \<and> (\<exists>rows. cu_list cu (ls_world st) t = Inr rows \<and> bound_in_custody rows (mi_id m))"
proof -
  from assms(1,2) obtain rows ids where rows: "cu_list cu (ls_world st) t = Inr rows"
      "live_gold_ids rows = Inr ids"
    and gold: "gold = filter (\<lambda>m. mi_id m \<in> set ids)
        (filter (\<lambda>m. mi_source m = GOLD_KNOWLEDGE_SOURCE) found)"
    by (cases "cu_list cu (ls_world st) t"; cases "live_gold_ids (projr (cu_list cu (ls_world st) t))")
      (auto simp: servable_gold_def live_ids_def Let_def simp del: filter_filter)
  with assms(3) live_gold_ids_bound [OF rows(2)] show ?thesis by auto
qed

text \<open>
  C29. Learned knowledge is earned.  In the in-process mode (no durable custody), in whatever order
  the operations are called, with new ids drawn for new samples and items, and whatever the rest of
  the platform does meanwhile short of writing knowledge under the source reserved for this service
  (the code's other writers use \<open>preference\<close> and \<open>repo.map\<close>): every item the service may answer
  from belongs to the asking tenant and is the key and value of a captured sample of that tenant for
  which all seven promotion conditions were recorded as held and whose scan for secrets is clean.
  With durable custody, where custody is the authority, whatever the store holds and the custody
  answers: an item is served only if a capture of that tenant in custody still has its payload, is
  GOLD, and binds this very item.
\<close>

theorem gold_knowledge_is_earned:
  assumes "(gold_step (memory_learning lib minimum evaluation external))\<^sup>*\<^sup>* (new_learning x) st"
    and "servable_gold (memory_learning lib minimum evaluation external) st t
           (memory_query now (pf_memory (ls_world st)) t f) = Inr gold"
    and "m \<in> set gold"
  shows "(mi_tenant_id m = t
    \<and> (\<exists>i r. map_of (ls_samples st) (t, i) = Some r
         \<and> sr_key r = mi_key m \<and> JObj (sr_value r) = mi_value m
         \<and> map fst (sr_promotion_verdicts r) = PROMOTION_CONDITIONS
         \<and> failed_conditions (sr_promotion_verdicts r) = []
         \<and> clean (sanitize_knowledge lib (mi_key m) (sr_value r))))
    \<and> (ln_custody c = Some cu \<and> servable_gold c st2 t2 found = Inr served \<and> y \<in> set served
       \<longrightarrow> y \<in> set found \<and> mi_source y = GOLD_KNOWLEDGE_SOURCE
         \<and> (\<exists>rows. cu_list cu (ls_world st2) t2 = Inr rows \<and> bound_in_custody rows (mi_id y)))"
    (is "?earned \<and> _")
proof (rule conjI [OF _ impI])
  assume "ln_custody c = Some cu \<and> servable_gold c st2 t2 found = Inr served \<and> y \<in> set served"
  then show "y \<in> set found \<and> mi_source y = GOLD_KNOWLEDGE_SOURCE
         \<and> (\<exists>rows. cu_list cu (ls_world st2) t2 = Inr rows \<and> bound_in_custody rows (mi_id y))"
    by (intro servable_gold_custody) auto
next
  let ?c = "memory_learning lib minimum evaluation external"
  have m: "m \<in> set (ln_query ?c now (ls_world st) t f)" "mi_source m = GOLD_KNOWLEDGE_SOURCE"
    using assms(2,3) by (auto simp: servable_gold_def memory_learning_def)
  from gold.gold_is_earned [OF gold_reachable_inv [OF assms(1)] m] show ?earned
    unfolding earned_def promoted_ok_def scan_of_def ln_lib_memory_learning by metis
qed

text \<open>
  A promotion that returns is an answer: in the in-process mode and with a new item id, in the state
  \<open>promote_to_gold\<close> returns for a sample of any reachable state, asking for that sample's key
  answers with that sample's value, even when the key held other knowledge before.
\<close>

theorem promotion_is_retrievable:
  assumes "(gold_step (memory_learning lib minimum evaluation external))\<^sup>*\<^sup>* (new_learning x) st"
    and "map_of (ms_items (pf_memory (ls_world st))) (t, pc_item_id pc) = None"
    and "promote_to_gold (memory_learning lib minimum evaluation external) st t i pc = (st', Inr item)"
  shows "\<exists>r. map_of (ls_samples st') (t, i) = Some r
    \<and> ask_learned (memory_learning lib minimum evaluation external) now st' t (sr_key r)
        = Inr \<lparr>la_found = True, la_key = sr_key r, la_answer = Some (JObj (sr_value r)),
               la_confidence = Some (pc_confidence pc),
               la_evidence = Some (mi_id item, GOLD_KNOWLEDGE_SOURCE)\<rparr>"
proof -
  have "fresh_item (pf_memory (ls_world st)) (gold_item t r pc)" for r
    using assms(2) by (simp add: fresh_item_def gold_item_def)
  from gold.promotion_answers [OF gold_reachable_inv [OF assms(1)] this assms(3)]
  show ?thesis by metis
qed

text \<open>
  Admission is not re-examined: marking an admitted sample as failing sanitization leaves it
  promotable, with the same outcome.
\<close>

lemma promotion_outcome_cong:
  assumes "ln_custody c = None" and "ls_world st' = ls_world st"
    and "record_of c st t i = Inr r" and "record_of c st' t i = Inr r'"
    and "sr_key r' = sr_key r" and "sr_value r' = sr_value r"
    and "lm_eligibility (sr_sample r') = lm_eligibility (sr_sample r)"
  shows "snd (promote_to_gold c st' t i pc) = snd (promote_to_gold c st t i pc)"
proof -
  have item: "gold_item t (r'\<lparr>sr_promotion_verdicts := vs\<rparr>) pc
      = gold_item t (r\<lparr>sr_promotion_verdicts := vs\<rparr>) pc" for vs
    using assms by (simp add: gold_item_def)
  have event: "promotion_event t i (set_level l (r'\<lparr>sr_promotion_verdicts := vs\<rparr>)) pc m vs
      = promotion_event t i (set_level l (r\<lparr>sr_promotion_verdicts := vs\<rparr>)) pc m vs" for vs m l
    using assms by (simp add: promotion_event_def set_level_def)
  show ?thesis
    using assms
    by (simp add: promote_to_gold_def Let_def keep_record_plain item bind_to_custody_def event
        split: sum.splits prod.splits option.splits)
qed

lemma failed_mark_keeps_promotion:
  assumes "ln_custody c = None" and "map_of (ls_samples st) (t, i) = Some r"
    and "mark_sanitized c st t i False = (st', Inr sample)"
  shows "lm_sanitization_state sample = SANITIZE_FAILED"
    and "snd (promote_to_gold c st' t i pc) = snd (promote_to_gold c st t i pc)"
proof -
  obtain rep where st': "st' = st\<lparr>ls_samples := AList.update (t, i)
        (set_sanitization SANITIZE_FAILED (r\<lparr>sr_report := Some rep\<rparr>)) (ls_samples st)\<rparr>"
    and s: "sample = sr_sample (set_sanitization SANITIZE_FAILED (r\<lparr>sr_report := Some rep\<rparr>))"
    using assms by (auto simp: mark_sanitized_def plain_simps Let_def record_of_def)
  show "lm_sanitization_state sample = SANITIZE_FAILED" by (simp add: s set_sanitization_def)
  show "snd (promote_to_gold c st' t i pc) = snd (promote_to_gold c st t i pc)"
    by (rule promotion_outcome_cong [OF assms(1), of st' st t i r
          "set_sanitization SANITIZE_FAILED (r\<lparr>sr_report := Some rep\<rparr>)"])
      (use assms(1,2) in \<open>simp_all add: record_of_plain st' set_sanitization_def\<close>)
qed

section \<open>Examples\<close>

definition ex_learning :: "unit platform learning" where
  "ex_learning = memory_learning ex_text_library LEVEL_RAW None None"

definition ex_call :: promotion_call where
  "ex_call = \<lparr>pc_signals = \<lparr>pg_offline_eval_pass = True, pg_regression_pass = True,
       pg_security_eval_pass = True, pg_shadow_performance_acceptable = True,
       pg_canary_performance_acceptable = True, pg_rollback_plan_exists = True,
       pg_approval_required = False, pg_admin_approved = False\<rparr>,
     pc_actor_id = None, pc_confidence = 1, pc_item_id = 30, pc_now = 100, pc_event_id = 31\<rparr>"

definition ex_capture :: capture_request where
  "ex_capture = \<lparr>cq_policy_id = None, cq_rights_ref = None, cq_idempotency_key = None,
     cq_key = ''k'', cq_value = []\<rparr>"

definition ex_signals :: eligibility_signals where
  "ex_signals = \<lparr>sg_privacy_policy_allows = True, sg_tenant_user_policy_allows = True,
     sg_sensitive_data_handled = True, sg_deduplicated = False, sg_not_poisoned = True,
     sg_source_trace_intact = True\<rparr>"

definition ex_captured :: "unit platform learning_state" where
  "ex_captured = fst (capture_from_execution ex_learning 20 (new_learning ()) 7 8 ex_capture)"

definition ex_sanitized :: "unit platform learning_state" where
  "ex_sanitized = fst (mark_sanitized ex_learning ex_captured 7 20 True)"

definition ex_admitted :: "unit platform learning_state" where
  "ex_admitted = fst (admit_to_training ex_learning 40 ex_sanitized 7 20 ex_signals None)"

definition ex_promoted :: "unit platform learning_state" where
  "ex_promoted = fst (promote_to_gold ex_learning ex_admitted 7 20 ex_call)"
lemma ex_gold_scan: "clean (sanitize_knowledge ex_text_library ''k'' [])"
  by code_simp
lemma ex_gold_screen: "screen_secret_like ex_text_library ''k'' (JObj []) = None"
  by code_simp

lemma ex_learning_ports: "ln_custody ex_learning = None" "ln_lib ex_learning = ex_text_library" "ln_minimum ex_learning = LEVEL_RAW"
  "ln_upsert ex_learning = platform_upsert ex_text_library" "ln_audit ex_learning = Some platform_audit"
  "ln_query ex_learning = (\<lambda>now p. memory_query now (pf_memory p))"
  by (simp_all add: ex_learning_def memory_learning_def)

lemmas ex_learn_simps = ex_learning_ports plain_simps record_of_def capture_from_execution_def capture_plain_def
  plain_record_def new_sample_def new_learning_def ex_capture_def Let_def scan_of_def ex_gold_scan

lemma ex_captured_is: "ex_captured = \<lparr>ls_samples = [((7, 20), plain_record (new_sample 20 8 7) FROM_EXECUTION
    ''k'' [])],
     ls_world = \<lparr>pf_memory = new_memory_store, pf_audit = [], pf_rest = ()\<rparr>\<rparr>"
  by (simp add: ex_captured_def ex_learn_simps)

lemma ex_sanitized_is: "ls_samples ex_sanitized = [((7, 20), set_sanitization SANITIZE_PASSED
     ((plain_record (new_sample 20 8 7) FROM_EXECUTION ''k'' [])
        \<lparr>sr_report := Some (sanitize_knowledge ex_text_library ''k'' [])\<rparr>))]"
   "ls_world ex_sanitized = \<lparr>pf_memory = new_memory_store, pf_audit = [], pf_rest = ()\<rparr>"
  by (simp_all add: ex_sanitized_def mark_sanitized_def ex_captured_is ex_learn_simps)

lemma ex_admitted_is: "\<exists>r. ls_samples ex_admitted = [((7, 20), r)] \<and> lm_eligibility (sr_sample r) = LEARN_ELIGIBLE
   \<and> sr_key r = ''k'' \<and> sr_value r = []"
   "ls_world ex_admitted = \<lparr>pf_memory = new_memory_store, pf_audit = [], pf_rest = ()\<rparr>"
  by (simp_all add: ex_admitted_def admit_to_training_def ex_sanitized_is ex_learn_simps resolve_signals_def derived_signals_def
    admit_eligibility_def evaluate_eligibility_def ex_signals_def failed_conditions_def set_sanitization_def level_index_def VERIFICATION_LEVEL_ORDER_def)

lemma ex_promotion: "snd (promote_to_gold ex_learning ex_admitted 7 20 ex_call) = Inr (gold_item 7 
   (plain_record (new_sample 20 8 7) FROM_EXECUTION ''k'' []) ex_call)"
proof -
  obtain r where "ls_samples ex_admitted = [((7, 20), r)] \<and> lm_eligibility (sr_sample r) = LEARN_ELIGIBLE
   \<and> sr_key r = ''k'' \<and> sr_value r = []" using ex_admitted_is(1) by blast
  then show ?thesis
  by (simp add: promote_to_gold_def ex_admitted_is(2) ex_learn_simps admit_promotion_def evaluate_promotion_def failed_conditions_def
   ex_call_def memory_item_valid_def gold_item_def bounded_str_def GOLD_KNOWLEDGE_SOURCE_def platform_upsert_def
   memory_upsert_def ex_gold_screen bind_to_custody_def platform_audit_def audit_append_def promotion_event_def new_memory_store_def
    ADMIN_CHANGE_EVENT_TYPES_def)
qed

lemma ex_admitted_reachable: "(gold_step ex_learning)\<^sup>*\<^sup>* (new_learning ()) ex_admitted"
proof -
  have "gold_step ex_learning (new_learning ()) ex_captured"
    by (rule learn_step.capture [where i = 20 and t = 7 and source = 8 and cq = ex_capture
          and res = "snd (capture_from_execution ex_learning 20 (new_learning ()) 7 8 ex_capture)"])
      (simp_all add: ex_captured_def, simp add: new_learning_def)
  moreover have "gold_step ex_learning ex_captured ex_sanitized"
    by (rule learn_step.mark [where t = 7 and i = 20 and passed = True
          and res = "snd (mark_sanitized ex_learning ex_captured 7 20 True)"])
      (simp add: ex_sanitized_def)
  moreover have "gold_step ex_learning ex_sanitized ex_admitted"
    by (rule learn_step.admit [where d = 40 and t = 7 and i = 20 and sg = ex_signals and dataset = None
          and res = "snd (admit_to_training ex_learning 40 ex_sanitized 7 20 ex_signals None)"])
      (simp add: ex_admitted_def)
  ultimately show ?thesis by (meson converse_rtranclp_into_rtranclp rtranclp.rtrancl_refl)
qed

lemma ex_promoted_reachable: "(gold_step ex_learning)\<^sup>*\<^sup>* (new_learning ()) ex_promoted"
proof -
  have "promote_to_gold ex_learning ex_admitted 7 20 ex_call
      = (ex_promoted, snd (promote_to_gold ex_learning ex_admitted 7 20 ex_call))"
    by (simp add: ex_promoted_def)
  moreover have "fresh_item (pf_memory (ls_world ex_admitted)) (gold_item 7 r ex_call)" for r
    by (simp add: ex_admitted_is(2) fresh_item_def new_memory_store_def)
  ultimately have "gold_step ex_learning ex_admitted ex_promoted"
    by (rule learn_step.promote)
  then show ?thesis by (rule rtranclp.rtrancl_into_rtrancl [OF ex_admitted_reachable])
qed

theorem promotion_is_retrievable_witness:
  "\<exists>r. map_of (ls_samples ex_promoted) (7, 20) = Some r
    \<and> ask_learned ex_learning 500 ex_promoted 7 (sr_key r)
        = Inr \<lparr>la_found = True, la_key = sr_key r, la_answer = Some (JObj (sr_value r)),
               la_confidence = Some 1, la_evidence = Some (30, GOLD_KNOWLEDGE_SOURCE)\<rparr>"
proof -
  have "promote_to_gold ex_learning ex_admitted 7 20 ex_call
      = (ex_promoted, Inr (gold_item 7
           (plain_record (new_sample 20 8 7) FROM_EXECUTION ''k'' []) ex_call))"
    by (simp add: ex_promoted_def prod_eq_iff ex_promotion)
  from promotion_is_retrievable [OF ex_admitted_reachable [unfolded ex_learning_def] _
      this [unfolded ex_learning_def], of 500]
  show ?thesis
    by (simp add: ex_learning_def ex_admitted_is(2) new_memory_store_def gold_item_def ex_call_def)
qed

theorem gold_knowledge_is_earned_witness:
  "\<exists>i r. map_of (ls_samples ex_promoted) (7, i) = Some r \<and> sr_key r = ''k'' \<and> sr_value r = []
     \<and> map fst (sr_promotion_verdicts r) = PROMOTION_CONDITIONS
     \<and> failed_conditions (sr_promotion_verdicts r) = []"
proof -
  let ?m = "gold_item 7 (plain_record (new_sample 20 8 7) FROM_EXECUTION ''k'' []) ex_call"
  have "memory_query 500 (pf_memory (ls_world ex_promoted)) 7 (tenant_filter None False) = [?m]"
    using ex_admitted_is(1)
    by (auto simp: ex_promoted_def promote_to_gold_def ex_admitted_is(2) ex_learn_simps
        admit_promotion_def evaluate_promotion_def failed_conditions_def ex_call_def
        memory_item_valid_def gold_item_def bounded_str_def GOLD_KNOWLEDGE_SOURCE_def
        platform_upsert_def memory_upsert_def ex_gold_screen bind_to_custody_def platform_audit_def
        audit_append_def promotion_event_def new_memory_store_def ADMIN_CHANGE_EVENT_TYPES_def
        memory_query_def memory_matches_def tenant_filter_def)
  then have s: "servable_gold ex_learning ex_promoted 7
      (memory_query 500 (pf_memory (ls_world ex_promoted)) 7 (tenant_filter None False)) = Inr [?m]"
    by (simp add: servable_gold_def ex_learning_ports gold_item_def)
  from conjunct1 [OF gold_knowledge_is_earned [OF ex_promoted_reachable [unfolded ex_learning_def]
      s [unfolded ex_learning_def], of ?m]]
  show ?thesis by (auto simp: gold_item_def plain_record_def)
qed

end
