(* ===== verification/Source_Files.thy ===== *)
theory Source_Files
  imports Text_Patterns
begin

text \<open>
  The bounded source tools of \<open>core/tools/source_reader.py\<close>, \<open>source_writer.py\<close> and
  \<open>denied_paths.py\<close>.  The tree under the source root maps a relative path, as its parts, to a
  file's bytes or a directory; a byte is a \<open>char\<close>.  What the operating system and the Unicode
  tables answer is a parameter (\<open>source_env\<close>): path resolution with its symbolic links, the
  digest, decoding and the three Unicode folds.  System calls may fail (\<open>io_faults\<close>).
  \<open>fnmatch\<close> is modelled for the wildcards the denylists use.
\<close>

section \<open>Paths\<close>

text \<open>\<open>s.split(d)\<close> and \<open>d.join(xs)\<close> for a one-character separator.\<close>

fun split_on :: "char \<Rightarrow> string \<Rightarrow> string list" where
  "split_on d [] = [[]]"
| "split_on d (c # cs) =
     (if c = d then [] # split_on d cs
      else case split_on d cs of [] \<Rightarrow> [[c]] | s # ss \<Rightarrow> (c # s) # ss)"

fun join_on :: "char \<Rightarrow> string list \<Rightarrow> string" where
  "join_on d [] = []"
| "join_on d [x] = x"
| "join_on d (x # y # xs) = x @ d # join_on d (y # xs)"

type_synonym path = "string list"

definition path_parts :: "string \<Rightarrow> path" where
  "path_parts s = filter (\<lambda>p. p \<noteq> [] \<and> p \<noteq> ''.'') (split_on (CHR ''/'') s)"

text \<open>\<open>Path.as_posix\<close> of a path relative to the root.\<close>

definition as_posix :: "path \<Rightarrow> string" where
  "as_posix p = (if p = [] then ''.'' else join_on (CHR ''/'') p)"

section \<open>The denylist\<close>

definition DEFAULT_DENIED_PATTERNS :: "string list" where
  "DEFAULT_DENIED_PATTERNS =
     [''.git'', ''.git/*'', ''*/.git'', ''*/.git/*'', ''.env'', ''.env.*'', ''*/.env'',
      ''*/.env.*'', ''*.pem'', ''*.key'', ''*.p12'', ''*credentials*'', ''*.git-credentials*'']"

definition anywhere :: "string list \<Rightarrow> string list" where
  "anywhere names = concat (map (\<lambda>n. [n, ''*/'' @ n]) names)"

definition HARDENED_PATTERNS :: "string list" where
  "HARDENED_PATTERNS =
     [''engineering/verification'', ''engineering/verification/*'']
     @ anywhere [''green_manifest.json'']
     @ anywhere [''.ssh'', ''.ssh/*'', ''.aws'', ''.aws/*'', ''.kube'', ''.kube/*'', ''.gnupg'',
                 ''.gnupg/*'']
     @ anywhere [''id_*'', ''authorized_keys'', ''known_hosts'']
     @ [''*.pfx'', ''*.asc'', ''*.jks'', ''*.keystore'', ''*.pkcs12'']
     @ anywhere [''passwd'', ''shadow'', ''.netrc'', ''.pgpass'']
     @ [''*accounts*'', ''*cookies*'', ''*tokens*'', ''*password*'']
     @ anywhere [''.ENV'', ''.ENV.*'', ''.Env'', ''.Env.*'']"

fun dedupe_onto :: "string list \<Rightarrow> string list \<Rightarrow> string list" where
  "dedupe_onto out [] = out"
| "dedupe_onto out (p # ps) = dedupe_onto (if p \<in> set out then out else out @ [p]) ps"

definition DENIED_PATH_PATTERNS :: "string list" where
  "DENIED_PATH_PATTERNS = dedupe_onto [] (DEFAULT_DENIED_PATTERNS @ HARDENED_PATTERNS)"

text \<open>\<open>fnmatch(text, pattern)\<close> for patterns without character classes.\<close>

function fnmatch :: "string \<Rightarrow> string \<Rightarrow> bool" where
  "fnmatch s [] = (s = [])"
| "fnmatch s (c # p) =
     (if c = CHR ''*'' then fnmatch s p \<or> (case s of [] \<Rightarrow> False | x # t \<Rightarrow> fnmatch t (c # p))
      else case s of [] \<Rightarrow> False | x # t \<Rightarrow> (c = CHR ''?'' \<or> c = x) \<and> fnmatch t p)"
  by pat_completeness auto
termination fnmatch
  by (relation "measure (\<lambda>(s, p). length s + length p)") auto

declare fnmatch.simps(2) [simp del]

record path_library =
  pl_nfkc :: "string \<Rightarrow> string"
  pl_invisible :: "char \<Rightarrow> bool"
  pl_casefold :: "string \<Rightarrow> string"

definition rstrip_chars :: "string \<Rightarrow> string \<Rightarrow> string" where
  "rstrip_chars cs s = rev (dropWhile (\<lambda>c. c \<in> set cs) (rev s))"

definition strip_invisible :: "path_library \<Rightarrow> string \<Rightarrow> string" where
  "strip_invisible lib s = filter (\<lambda>c. \<not> pl_invisible lib c) s"

definition normalize_segment :: "path_library \<Rightarrow> string \<Rightarrow> string" where
  "normalize_segment lib seg =
     pl_casefold lib (rstrip_chars ''. ''
       (takeWhile (\<lambda>c. c \<noteq> CHR '':'') (strip_invisible lib (pl_nfkc lib seg))))"

definition normalize_deny_path :: "path_library \<Rightarrow> string \<Rightarrow> string" where
  "normalize_deny_path lib s =
     join_on (CHR ''/'')
       (filter (\<lambda>x. x \<noteq> []) (map (normalize_segment lib) (split_on (CHR ''/'') s)))"

definition is_denied_path :: "string \<Rightarrow> string list \<Rightarrow> bool" where
  "is_denied_path s patterns = list_ex (fnmatch s) patterns"

definition is_denied :: "path_library \<Rightarrow> string \<Rightarrow> string list \<Rightarrow> bool" where
  "is_denied lib s patterns =
     (if list_ex (fnmatch s) patterns then True
      else let canon = normalize_deny_path lib s
           in canon \<noteq> s \<and> list_ex (fnmatch canon) patterns)"

section \<open>The tree and its environment\<close>

datatype node = FileNode string | DirNode

type_synonym files = "path \<rightharpoonup> node"

text \<open>
  A link in the tree is seen as what it points to.  \<open>se_resolve\<close> is \<open>(root / s).resolve()\<close>,
  links followed, as parts below the root, or \<open>None\<close> outside it;
  \<open>se_glob\<close> is \<open>base.glob(pattern)\<close>, unsorted.
\<close>

record source_env =
  se_paths :: path_library
  se_resolve :: "string \<Rightarrow> path option"
  se_glob :: "path \<Rightarrow> string \<Rightarrow> path list"
  se_sha256 :: "string \<Rightarrow> string"
  se_decode :: "string \<Rightarrow> string"

fun node_bytes :: "node option \<Rightarrow> string option" where
  "node_bytes (Some (FileNode b)) = Some b"
| "node_bytes _ = None"

definition utf8 :: "string \<Rightarrow> string" where
  "utf8 s = concat (map (\<lambda>c. if code_point c < 128 then [c]
     else [char_of (192 + code_point c div 64), char_of (128 + code_point c mod 64)]) s)"

text \<open>The lexical guard both tools start with.\<close>

definition not_relative :: "string \<Rightarrow> bool" where
  "not_relative s \<longleftrightarrow> s = [] \<or> startswith s ''/'' \<or> startswith s [CHR 0x5C] \<or> ''..'' \<in> set (path_parts s)"

section \<open>The reader\<close>

datatype read_refusal =
    ReadNotRelative | ReadEscapes | ReadDenied string | NotReadable string | NotADirectory string
  | EmptySearch

record source_reader =
  rd_max_file_bytes :: nat
  rd_max_entries :: nat
  rd_denied :: "string list"

definition reader_admit ::
  "source_env \<Rightarrow> source_reader \<Rightarrow> string \<Rightarrow> read_refusal + path" where
  "reader_admit env rd rel =
     (if not_relative rel then Inl ReadNotRelative
      else case se_resolve env rel of
        None \<Rightarrow> Inl ReadEscapes
      | Some p \<Rightarrow>
          if is_denied (se_paths env) (as_posix p) (rd_denied rd)
          then Inl (ReadDenied (as_posix p)) else Inr p)"

record file_read =
  fr_path :: string
  fr_size :: nat
  fr_truncated :: bool
  fr_content :: string

definition read_file ::
  "source_env \<Rightarrow> source_reader \<Rightarrow> files \<Rightarrow> string \<Rightarrow> read_refusal + file_read" where
  "read_file env rd fs rel =
     result_bind (reader_admit env rd rel) (\<lambda>p.
       case fs p of
         Some (FileNode b) \<Rightarrow>
           Inr \<lparr>fr_path = as_posix p, fr_size = length b,
                fr_truncated = (rd_max_file_bytes rd < length b),
                fr_content = se_decode env (take (rd_max_file_bytes rd) b)\<rparr>
       | _ \<Rightarrow> Inl (NotReadable rel))"

text \<open>\<open>sorted\<close> orders paths by their parts.\<close>

definition base_dir ::
  "source_env \<Rightarrow> source_reader \<Rightarrow> files \<Rightarrow> string \<Rightarrow> read_refusal + path" where
  "base_dir env rd fs rel =
     result_bind (if rel = [] then Inr [] else reader_admit env rd rel) (\<lambda>p.
       if p = [] \<or> fs p = Some DirNode then Inr p else Inl (NotADirectory rel))"

definition walk_files :: "source_env \<Rightarrow> files \<Rightarrow> path \<Rightarrow> string \<Rightarrow> path list" where
  "walk_files env fs base pattern =
     filter (\<lambda>p. node_bytes (fs p) \<noteq> None) (sort (se_glob env base pattern))"

fun list_loop ::
  "(string \<Rightarrow> bool) \<Rightarrow> nat \<Rightarrow> string option \<Rightarrow> string list \<Rightarrow> string list \<Rightarrow> string list \<times> bool" where
  "list_loop denied cap cursor entries [] = (entries, False)"
| "list_loop denied cap cursor entries (s # ss) =
     (if (case cursor of None \<Rightarrow> False | Some k \<Rightarrow> s \<le> k)
      then list_loop denied cap cursor entries ss
      else if denied s then list_loop denied cap cursor entries ss
      else if cap \<le> length entries then (entries, True)
      else list_loop denied cap cursor (entries @ [s]) ss)"

record file_listing =
  fl_files :: "string list"
  fl_truncated :: bool
  fl_next_after :: "string option"

definition list_files ::
  "source_env \<Rightarrow> source_reader \<Rightarrow> files \<Rightarrow> string \<Rightarrow> string \<Rightarrow> string option
     \<Rightarrow> read_refusal + file_listing" where
  "list_files env rd fs rel pattern after =
     result_bind (base_dir env rd fs rel) (\<lambda>base.
       let cursor = (if after = Some [] then None else after);
           (entries, truncated) =
             list_loop (\<lambda>s. is_denied (se_paths env) s (rd_denied rd)) (rd_max_entries rd) cursor []
               (map as_posix (walk_files env fs base pattern))
       in Inr \<lparr>fl_files = entries, fl_truncated = truncated,
               fl_next_after = (if truncated \<and> entries \<noteq> [] then Some (last entries) else None)\<rparr>)"

definition line_break :: "char \<Rightarrow> bool" where
  "line_break c \<longleftrightarrow> code_point c \<in> {10..13} \<or> code_point c \<in> {28..30} \<or> code_point c = 133"

function lines_from :: "string \<Rightarrow> string \<Rightarrow> string list" where
  "lines_from acc [] = (if acc = [] then [] else [rev acc])"
| "lines_from acc (c # cs) =
     (if c = CHR 0x0D
      then rev acc # lines_from [] (case cs of [] \<Rightarrow> [] | d # ds \<Rightarrow> if d = CHR 0x0A then ds else cs)
      else if line_break c then rev acc # lines_from [] cs
      else lines_from (c # acc) cs)"
  by pat_completeness auto
termination lines_from
  by (relation "measure (\<lambda>(acc, s). length s)") (auto split: list.split)

declare lines_from.simps(2) [simp del]

definition splitlines :: "string \<Rightarrow> string list" where
  "splitlines s = lines_from [] s"

record search_match =
  sm_path :: string
  sm_line :: nat
  sm_text :: string

fun search_lines ::
  "string \<Rightarrow> nat \<Rightarrow> string \<Rightarrow> nat \<Rightarrow> search_match list \<Rightarrow> string list \<Rightarrow> search_match list \<times> bool" where
  "search_lines needle cap s n found [] = (found, False)"
| "search_lines needle cap s n found (l # ls) =
     (if occurs_in needle l
      then if cap \<le> length found then (found, True)
           else search_lines needle cap s (Suc n)
                  (found @ [\<lparr>sm_path = s, sm_line = n, sm_text = take 512 l\<rparr>]) ls
      else search_lines needle cap s (Suc n) found ls)"

fun search_loop ::
  "(path \<Rightarrow> string list option) \<Rightarrow> (string \<Rightarrow> bool) \<Rightarrow> string \<Rightarrow> nat \<Rightarrow> search_match list \<Rightarrow> path list
     \<Rightarrow> search_match list \<times> bool" where
  "search_loop lines denied needle cap found [] = (found, False)"
| "search_loop lines denied needle cap found (p # ps) =
     (if denied (as_posix p) then search_loop lines denied needle cap found ps
      else case lines p of
        None \<Rightarrow> search_loop lines denied needle cap found ps
      | Some ls \<Rightarrow>
          (case search_lines needle cap (as_posix p) 1 found ls of
             (found', True) \<Rightarrow> (found', True)
           | (found', False) \<Rightarrow> search_loop lines denied needle cap found' ps))"

text \<open>\<open>unreadable\<close> are the files whose read raises.\<close>

definition source_search ::
  "source_env \<Rightarrow> source_reader \<Rightarrow> files \<Rightarrow> (path \<Rightarrow> bool) \<Rightarrow> string \<Rightarrow> string \<Rightarrow> string
     \<Rightarrow> read_refusal + (search_match list \<times> bool)" where
  "source_search env rd fs unreadable needle rel pattern =
     (if needle = [] then Inl EmptySearch
      else result_bind (base_dir env rd fs rel) (\<lambda>base.
        Inr (search_loop
          (\<lambda>p. if unreadable p then None
               else map_option (\<lambda>b. splitlines (se_decode env (take (rd_max_file_bytes rd) b)))
                      (node_bytes (fs p)))
          (\<lambda>s. is_denied (se_paths env) s (rd_denied rd)) needle (rd_max_entries rd) []
          (walk_files env fs base pattern))))"

section \<open>The writer\<close>

datatype write_op = OP_CREATE | OP_OVERWRITE | OP_DELETE

datatype write_code =
    PATH_NOT_RELATIVE | PATH_OUTSIDE_ROOT | PATH_DENIED | FILE_EXISTS | FILE_MISSING | NOT_A_FILE
  | PRECONDITION_REQUIRED | PRECONDITION_MISMATCH | WRITE_TOO_LARGE | OP_CAP_EXCEEDED
  | CONTENT_REQUIRED | IO_ERROR

record write_refusal =
  wr_code :: write_code
  wr_path :: string

record write_done =
  wd_op :: write_op
  wd_path :: string
  wd_bytes_written :: nat
  wd_sha256 :: "string option"
  wd_previous :: "string option"
  wd_ops_remaining :: nat

record source_writer =
  sw_max_write_bytes :: nat
  sw_max_ops :: nat
  sw_denied :: "string list"
  sw_ops_used :: nat

record io_faults =
  io_read_fails :: bool
  io_mkdir_fails :: bool
  io_write_fails :: bool
  io_unlink_fails :: bool

definition writer_admit ::
  "source_env \<Rightarrow> source_writer \<Rightarrow> string \<Rightarrow> write_code + path" where
  "writer_admit env w rel =
     (if not_relative rel then Inl PATH_NOT_RELATIVE
      else case se_resolve env rel of
        None \<Rightarrow> Inl PATH_OUTSIDE_ROOT
      | Some p \<Rightarrow>
          if is_denied (se_paths env) (as_posix p) (sw_denied w) then Inl PATH_DENIED else Inr p)"

definition write_payload :: "source_writer \<Rightarrow> string option \<Rightarrow> write_code + string" where
  "write_payload w content =
     (case content of
        None \<Rightarrow> Inl CONTENT_REQUIRED
      | Some s \<Rightarrow> if sw_max_write_bytes w < length (utf8 s) then Inl WRITE_TOO_LARGE else Inr (utf8 s))"

definition existing_digest ::
  "source_env \<Rightarrow> io_faults \<Rightarrow> files \<Rightarrow> path \<Rightarrow> string option \<Rightarrow> write_code + string" where
  "existing_digest env io fs p expected =
     (if p = [] then Inl NOT_A_FILE
      else case fs p of
        None \<Rightarrow> Inl FILE_MISSING
      | Some DirNode \<Rightarrow> Inl NOT_A_FILE
      | Some (FileNode b) \<Rightarrow>
          (case expected of
             None \<Rightarrow> Inl PRECONDITION_REQUIRED
           | Some e \<Rightarrow> if io_read_fails io then Inl IO_ERROR
                      else if se_sha256 env b \<noteq> e then Inl PRECONDITION_MISMATCH
                      else Inr (se_sha256 env b)))"

text \<open>
  \<open>mkdir(parents=True, exist_ok=True)\<close> of a directory: refused when a file is in the way.
\<close>

definition blocked_by_file :: "files \<Rightarrow> path \<Rightarrow> bool" where
  "blocked_by_file fs p = list_ex (\<lambda>q. node_bytes (fs q) \<noteq> None) (prefixes p)"

definition make_dirs :: "io_faults \<Rightarrow> files \<Rightarrow> path \<Rightarrow> files option" where
  "make_dirs io fs p =
     (if io_mkdir_fails io \<or> blocked_by_file fs p then None
      else Some (\<lambda>q. if prefix q p \<and> fs q = None then Some DirNode else fs q))"

text \<open>The atomic replacement: all or nothing.\<close>

definition atomic_write :: "io_faults \<Rightarrow> files \<Rightarrow> path \<Rightarrow> string \<Rightarrow> files option" where
  "atomic_write io fs p b =
     (if io_write_fails io \<or> fs p = Some DirNode then None else Some (fs(p \<mapsto> FileNode b)))"

definition perform_write ::
  "source_env \<Rightarrow> io_faults \<Rightarrow> source_writer \<Rightarrow> files \<Rightarrow> write_op \<Rightarrow> string \<Rightarrow> string option
     \<Rightarrow> string option \<Rightarrow> source_writer \<times> files \<times> (write_code + write_done)" where
  "perform_write env io w fs oper rel content expected =
     (if sw_max_ops w \<le> sw_ops_used w then (w, fs, Inl OP_CAP_EXCEEDED)
      else case writer_admit env w rel of
        Inl e \<Rightarrow> (w, fs, Inl e)
      | Inr p \<Rightarrow>
         (let w' = w\<lparr>sw_ops_used := Suc (sw_ops_used w)\<rparr>;
              finish = (\<lambda>previous new written.
                \<lparr>wd_op = oper, wd_path = as_posix p, wd_bytes_written = written, wd_sha256 = new,
                 wd_previous = previous, wd_ops_remaining = sw_max_ops w' - sw_ops_used w'\<rparr>)
          in case oper of
            OP_CREATE \<Rightarrow>
             (case write_payload w content of
                Inl e \<Rightarrow> (w, fs, Inl e)
              | Inr b \<Rightarrow>
                 if p = [] \<or> fs p \<noteq> None then (w, fs, Inl FILE_EXISTS)
                 else case make_dirs io fs (butlast p) of
                    None \<Rightarrow> (w, fs, Inl IO_ERROR)
                  | Some fs1 \<Rightarrow>
                     (case atomic_write io fs1 p b of
                        None \<Rightarrow> (w, fs1, Inl IO_ERROR)
                      | Some fs2 \<Rightarrow>
                         (w', fs2, Inr (finish None (Some (se_sha256 env b)) (length b)))))
          | OP_OVERWRITE \<Rightarrow>
             (case write_payload w content of
                Inl e \<Rightarrow> (w, fs, Inl e)
              | Inr b \<Rightarrow>
                 (case existing_digest env io fs p expected of
                    Inl e \<Rightarrow> (w, fs, Inl e)
                  | Inr previous \<Rightarrow>
                     (case atomic_write io fs p b of
                        None \<Rightarrow> (w, fs, Inl IO_ERROR)
                      | Some fs' \<Rightarrow>
                         (w', fs', Inr (finish (Some previous) (Some (se_sha256 env b)) (length b))))))
          | OP_DELETE \<Rightarrow>
             (case existing_digest env io fs p expected of
                Inl e \<Rightarrow> (w, fs, Inl e)
              | Inr previous \<Rightarrow>
                  if io_unlink_fails io then (w, fs, Inl IO_ERROR)
                  else (w', fs(p := None), Inr (finish (Some previous) None 0)))))"

definition source_write ::
  "source_env \<Rightarrow> io_faults \<Rightarrow> source_writer \<Rightarrow> files \<Rightarrow> write_op \<Rightarrow> string \<Rightarrow> string option
     \<Rightarrow> string option \<Rightarrow> source_writer \<times> files \<times> (write_refusal + write_done)" where
  "source_write env io w fs oper rel content expected =
     (case perform_write env io w fs oper rel content expected of
        (w', fs', Inl code) \<Rightarrow> (w', fs', Inl \<lparr>wr_code = code, wr_path = rel\<rparr>)
      | (w', fs', Inr d) \<Rightarrow> (w', fs', Inr d))"

section \<open>Spellings of a path\<close>

lemma split_on_ne [simp]: "split_on d s \<noteq> []"
  by (induction s) (auto split: list.split)

lemma split_on_free: "x \<in> set (split_on d s) \<Longrightarrow> d \<notin> set x"
  by (induction s arbitrary: x) (auto split: list.splits if_splits)

lemma split_on_word: "d \<notin> set x \<Longrightarrow> split_on d x = [x]"
  by (induction x) auto

lemma split_on_append: "d \<notin> set x \<Longrightarrow> split_on d (x @ d # s) = x # split_on d s"
  by (induction x) (auto split: list.split)

lemma split_on_join:
  "xs \<noteq> [] \<Longrightarrow> \<forall>x \<in> set xs. d \<notin> set x \<Longrightarrow> split_on d (join_on d xs) = xs"
  by (induction d xs rule: join_on.induct) (auto simp: split_on_word split_on_append)

lemma code_point_less [simp]: "code_point c < 256"
  by (simp add: code_point_def)

lemma code_point_of [simp]: "n < 256 \<Longrightarrow> code_point (char_of n) = n"
  by (simp add: code_point_def)

lemma code_point_inj [simp]: "code_point c = code_point d \<longleftrightarrow> c = d"
  by (simp add: code_point_def)

lemma code_point_lower: "code_point (lower_char c) =
    (if is_upper c \<or> (192 \<le> code_point c \<and> code_point c \<le> 222 \<and> code_point c \<noteq> 215)
     then code_point c + 32 else code_point c)"
  by (auto simp: lower_char_def is_upper_def)

lemma lower_char_idem [simp]: "lower_char (lower_char c) = lower_char c"
proof -
  have "code_point (lower_char (lower_char c)) = code_point (lower_char c)"
    by (auto simp: code_point_lower is_upper_def)
  then show ?thesis by simp
qed

lemma lower_char_low: "code_point (lower_char c) < 64 \<or> code_point (lower_char c) = 127 \<Longrightarrow>
    lower_char c = c"
  by (auto simp: code_point_lower is_upper_def lower_char_def split: if_splits)

lemma lower_char_eq_low: "code_point d < 64 \<Longrightarrow> lower_char c = d \<longleftrightarrow> c = d"
  using lower_char_low [of c] by (auto simp: lower_char_def is_upper_def)

lemma lower_char_marks:
  "lower_char c = CHR '':'' \<longleftrightarrow> c = CHR '':''" "lower_char c = CHR ''/'' \<longleftrightarrow> c = CHR ''/''"
  "lower_char c = CHR ''.'' \<longleftrightarrow> c = CHR ''.''" "lower_char c = CHR '' '' \<longleftrightarrow> c = CHR '' ''"
  by (rule lower_char_eq_low, simp add: code_point_def)+

text \<open>What \<open>unicodedata\<close> and \<open>str.casefold\<close> document about ASCII text, controls and the soft hyphen.\<close>

definition unicode_ok :: "path_library \<Rightarrow> bool" where
  "unicode_ok lib \<longleftrightarrow>
     (\<forall>s. (\<forall>c \<in> set s. code_point c < 160 \<or> code_point c = 173) \<longrightarrow> pl_nfkc lib s = s)
     \<and> (\<forall>c. 32 \<le> code_point c \<and> code_point c < 127 \<longrightarrow> \<not> pl_invisible lib c)
     \<and> (\<forall>s. (\<forall>c \<in> set s. code_point c < 128) \<longrightarrow> pl_casefold lib s = lower s)"

text \<open>
  The spellings of a name: letters in upper case, invisible characters put in anywhere, trailing dots
  and spaces, and an NTFS stream suffix, in any number and order.
\<close>

definition hidden_char :: "path_library \<Rightarrow> char \<Rightarrow> bool" where
  "hidden_char lib c \<longleftrightarrow>
     pl_invisible lib c \<and> (code_point c < 160 \<or> code_point c = 173) \<and> c \<noteq> CHR ''/''"

definition spelling_char :: "path_library \<Rightarrow> char \<Rightarrow> bool" where
  "spelling_char lib c \<longleftrightarrow> hidden_char lib c \<or> code_point c < 128 \<and> c \<noteq> CHR ''/''"

inductive disguise :: "path_library \<Rightarrow> string \<Rightarrow> string \<Rightarrow> bool" for lib :: path_library and t :: string where
  dis_plain: "disguise lib t t"
| dis_upper: "disguise lib t (u @ c # v) \<Longrightarrow> is_lower c \<Longrightarrow>
     disguise lib t (u @ char_of (code_point c - 32) # v)"
| dis_hidden: "disguise lib t (u @ v) \<Longrightarrow> hidden_char lib c \<Longrightarrow> disguise lib t (u @ c # v)"
| dis_trailing: "disguise lib t s \<Longrightarrow> c \<in> {CHR ''.'', CHR '' ''} \<Longrightarrow> disguise lib t (s @ [c])"
| dis_stream: "disguise lib t s \<Longrightarrow> \<forall>c \<in> set x. spelling_char lib c \<Longrightarrow>
     disguise lib t (s @ CHR '':'' # x)"

text \<open>A name as denylists write it: printable ASCII in lower case, not ending in a dot or a space.\<close>

definition plain_name :: "string \<Rightarrow> bool" where
  "plain_name t \<longleftrightarrow> t \<noteq> [] \<and> last t \<notin> {CHR ''.'', CHR '' ''} \<and> lower t = t
     \<and> (\<forall>c \<in> set t. 32 \<le> code_point c \<and> code_point c < 127 \<and> c \<noteq> CHR ''/'' \<and> c \<noteq> CHR '':'')"

definition visible_stem :: "path_library \<Rightarrow> string \<Rightarrow> string" where
  "visible_stem lib s = takeWhile (\<lambda>c. c \<noteq> CHR '':'') (filter (\<lambda>c. \<not> pl_invisible lib c) s)"

lemma rstrip_id: "s = [] \<or> last s \<notin> set cs \<Longrightarrow> rstrip_chars cs s = s"
  by (cases s rule: rev_cases) (auto simp: rstrip_chars_def)

lemma set_rstrip: "c \<in> set (rstrip_chars cs s) \<Longrightarrow> c \<in> set s"
  by (auto simp: rstrip_chars_def dest: set_dropWhileD)

lemma rstrip_snoc: "c \<in> set cs \<Longrightarrow> rstrip_chars cs (s @ [c]) = rstrip_chars cs s"
  by (simp add: rstrip_chars_def)

lemma rstrip_lower: "rstrip_chars ''. '' (lower s) = lower (rstrip_chars ''. '' s)"
proof -
  have "(\<lambda>c. c \<in> set ''. '') \<circ> lower_char = (\<lambda>c. c \<in> set ''. '')"
    by (simp add: fun_eq_iff lower_char_marks)
  then show ?thesis by (simp only: rstrip_chars_def lower_def rev_map dropWhile_map)
qed

lemma normalize_spelling:
  assumes "unicode_ok lib" and "\<forall>c \<in> set s. spelling_char lib c"
  shows "normalize_segment lib s = rstrip_chars ''. '' (lower (visible_stem lib s))"
proof -
  have "code_point c < 160 \<or> code_point c = 173" if "c \<in> set s" for c
  proof -
    have "spelling_char lib c" using assms(2) that by blast
    then show ?thesis unfolding spelling_char_def hidden_char_def by (elim disjE conjE) linarith+
  qed
  then have "pl_nfkc lib s = s"
    using assms(1) unfolding unicode_ok_def by blast
  moreover have "code_point c < 128" if "c \<in> set (rstrip_chars ''. '' (visible_stem lib s))" for c
  proof -
    have "c \<in> set s" "\<not> pl_invisible lib c"
      using set_takeWhileD [OF set_rstrip [OF that, unfolded visible_stem_def]] by auto
    then show ?thesis using assms(2) unfolding spelling_char_def hidden_char_def by blast
  qed
  then have "pl_casefold lib (rstrip_chars ''. '' (visible_stem lib s))
      = lower (rstrip_chars ''. '' (visible_stem lib s))"
    using assms(1) by (simp add: unicode_ok_def)
  ultimately show ?thesis
    by (simp add: normalize_segment_def strip_invisible_def visible_stem_def rstrip_lower)
qed

lemma takeWhile_colon_append:
  "takeWhile P (xs @ ys) = (if \<forall>x\<in>set xs. P x then xs @ takeWhile P ys else takeWhile P xs)"
  by (induction xs) auto

lemma disguise_stem:
  assumes lib: "unicode_ok lib" and t: "plain_name t" and "disguise lib t s"
  shows "(\<forall>c \<in> set s. spelling_char lib c) \<and> rstrip_chars ''. '' (lower (visible_stem lib s)) = t"
  using assms(3)
proof (induction rule: disguise.induct)
  case dis_plain
  have vis: "\<not> pl_invisible lib c \<and> c \<noteq> CHR '':'' \<and> spelling_char lib c" if "c \<in> set t" for c
    using that t lib by (auto simp: plain_name_def unicode_ok_def spelling_char_def)
  then have "visible_stem lib t = t"
    by (simp add: visible_stem_def takeWhile_eq_all_conv)
  moreover have "rstrip_chars ''. '' t = t" using t by (intro rstrip_id) (simp add: plain_name_def)
  ultimately show ?case using t vis by (simp add: plain_name_def)
next
  case (dis_upper u c v)
  let ?C = "char_of (code_point c - 32) :: char"
  have c: "97 \<le> code_point c" "code_point c \<le> 122" using dis_upper.hyps(2) by (auto simp: is_lower_def)
  then have C: "code_point ?C = code_point c - 32" by (intro code_point_of) simp
  have "65 \<le> code_point ?C \<and> code_point ?C \<le> 90" using c unfolding C by arith
  then have "is_upper ?C" by (simp add: is_upper_def)
  then have low: "lower_char ?C = lower_char c"
    using c C code_point_lower [of ?C] code_point_lower [of c]
    by (intro code_point_inj [THEN iffD1]) (auto simp: is_upper_def)
  have marks: "code_point (CHR '':'') = 58" "code_point (CHR ''/'') = 47" by (simp_all add: code_point_def)
  have range: "65 \<le> code_point ?C" "97 \<le> code_point c" using c C by simp_all
  have ne: "?C \<noteq> CHR '':''" "c \<noteq> CHR '':''" "?C \<noteq> CHR ''/''"
  proof -
    show "?C \<noteq> CHR '':''" using range(1) marks(1) by (intro notI) simp
    show "c \<noteq> CHR '':''" using range(2) marks(1) by (intro notI) simp
    show "?C \<noteq> CHR ''/''" using range(1) marks(2) by (intro notI) simp
  qed
  have vis: "\<not> pl_invisible lib ?C" "\<not> pl_invisible lib c"
  proof -
    have v: "\<not> pl_invisible lib d" if "32 \<le> code_point d" "code_point d < 127" for d
      using lib that unfolding unicode_ok_def by blast
    have "32 \<le> code_point ?C" "code_point ?C < 127" using c unfolding C by arith+
    then show "\<not> pl_invisible lib ?C" by (rule v)
    have "32 \<le> code_point c" "code_point c < 127" using c by arith+
    then show "\<not> pl_invisible lib c" by (rule v)
  qed
  have "lower (visible_stem lib (u @ ?C # v)) = lower (visible_stem lib (u @ c # v))"
    using vis ne low by (auto simp: visible_stem_def lower_def takeWhile_colon_append)
  moreover have "code_point ?C < 128" using c unfolding C by arith
  then have "spelling_char lib ?C" using ne(3) unfolding spelling_char_def by blast
  ultimately show ?case using dis_upper.IH by auto
next
  case (dis_hidden u v c)
  then have "visible_stem lib (u @ c # v) = visible_stem lib (u @ v)"
    by (simp add: visible_stem_def hidden_char_def)
  with dis_hidden show ?case by (auto simp: spelling_char_def)
next
  case (dis_trailing s c)
  have "visible_stem lib (s @ [c]) = visible_stem lib s
      \<or> visible_stem lib (s @ [c]) = visible_stem lib s @ [c]"
    using dis_trailing.hyps(2)
    by (auto simp: visible_stem_def takeWhile_colon_append takeWhile_eq_all_conv [THEN iffD2])
  moreover have "lower [c] = [c]" "spelling_char lib c"
    using dis_trailing.hyps(2)
    by (auto simp: lower_def lower_char_marks spelling_char_def code_point_def)
  ultimately show ?case
    using dis_trailing by (auto simp: lower_def rstrip_snoc)
next
  case (dis_stream s x)
  have "\<not> pl_invisible lib (CHR '':'')" using lib by (simp add: unicode_ok_def code_point_def)
  then have "visible_stem lib (s @ CHR '':'' # x) = visible_stem lib s"
    by (auto simp: visible_stem_def takeWhile_colon_append takeWhile_eq_all_conv [THEN iffD2])
  with dis_stream show ?case by (auto simp: spelling_char_def code_point_def)
qed

lemma disguise_segment:
  assumes "unicode_ok lib" and "plain_name t" and "disguise lib t s"
  shows "normalize_segment lib s = t" and "CHR ''/'' \<notin> set s"
  using disguise_stem [OF assms] normalize_spelling [OF assms(1)]
  by (auto simp: spelling_char_def hidden_char_def)

lemma disguise_path:
  assumes "unicode_ok lib" and "list_all plain_name ts" and "list_all2 (disguise lib) ts ss" and "ts \<noteq> []"
  shows "normalize_deny_path lib (join_on (CHR ''/'') ss) = join_on (CHR ''/'') ts"
proof -
  have seg: "list_all2 (\<lambda>t s. normalize_segment lib s = t \<and> CHR ''/'' \<notin> set s \<and> t \<noteq> []) ts ss"
    using assms(3,2)
  proof (induction rule: list_all2_induct)
    case (Cons t ts s ss)
    then show ?case using disguise_segment [OF assms(1), of t s] by (simp add: plain_name_def)
  qed simp
  then have "map (normalize_segment lib) ss = ts" "\<forall>s \<in> set ss. CHR ''/'' \<notin> set s" "[] \<notin> set ts"
    by (induction rule: list_all2_induct) auto
  moreover have "ss \<noteq> []" using assms(3,4) by auto
  ultimately show ?thesis
    by (auto simp: normalize_deny_path_def split_on_join intro!: arg_cong [where f = "join_on _"] filter_True)
qed

lemma disguised_path_denied:
  assumes "unicode_ok lib" and "list_all plain_name ts" and "list_all2 (disguise lib) ts ss" and "ts \<noteq> []"
    and "is_denied_path (join_on (CHR ''/'') ts) patterns"
  shows "is_denied lib (join_on (CHR ''/'') ss) patterns"
  using disguise_path [OF assms(1-4)] assms(5)
  by (auto simp: is_denied_def is_denied_path_def Let_def)

text \<open>
  C30. A denied path is denied in every spelling: take a path of plain names (printable ASCII in lower
  case) that a denylist matches, and respell each of its names in any number and order of the ways
  the check is built to see through: letters in upper case, control and other invisible characters
  put in anywhere, trailing dots and spaces, a stream suffix.  Under what \<open>unicodedata\<close> documents
  for these characters (all below code point 256), the deny check refuses the respelled path, and
  neither the reader nor the writer admits a request that resolves to it.
\<close>

theorem denial_covers_every_spelling:
  assumes "unicode_ok (se_paths env)" and "list_all plain_name ts"
    and "list_all2 (disguise (se_paths env)) ts ss" and "ts \<noteq> []"
    and "is_denied_path (join_on (CHR ''/'') ts) patterns"
  shows "is_denied (se_paths env) (join_on (CHR ''/'') ss) patterns
    \<and> (rd_denied rd = patterns \<and> se_resolve env rel = Some ss
         \<longrightarrow> reader_admit env rd rel \<in> {Inl ReadNotRelative, Inl (ReadDenied (as_posix ss))})
    \<and> (sw_denied w = patterns \<and> se_resolve env rel = Some ss
         \<longrightarrow> writer_admit env w rel \<in> {Inl PATH_NOT_RELATIVE, Inl PATH_DENIED})"
proof -
  have d: "is_denied (se_paths env) (join_on (CHR ''/'') ss) patterns"
    by (rule disguised_path_denied [OF assms])
  moreover have "as_posix ss = join_on (CHR ''/'') ss" using assms(3,4) by (auto simp: as_posix_def)
  ultimately show ?thesis by (auto simp: reader_admit_def writer_admit_def)
qed

text \<open>Concrete tables for ASCII text, where NFKC changes nothing and case folding is lower case.\<close>

definition ascii_paths :: path_library where
  "ascii_paths = \<lparr>pl_nfkc = (\<lambda>s. s), pl_invisible = (\<lambda>c. code_point c < 32 \<or> code_point c = 127),
     pl_casefold = lower\<rparr>"

lemma ascii_paths_ok: "unicode_ok ascii_paths"
  by (auto simp: unicode_ok_def ascii_paths_def)

definition ex_spelling_env :: source_env where
  "ex_spelling_env = \<lparr>se_paths = ascii_paths, se_resolve = (\<lambda>s. Some (path_parts s)),
     se_glob = (\<lambda>_ _. []), se_sha256 = id, se_decode = id\<rparr>"

theorem denial_covers_every_spelling_witness:
  "is_denied ascii_paths ''src/.Env. :x'' [''*/.env'']"
proof -
  have "list_all plain_name [''src'', ''.env'']" by code_simp
  moreover have "disguise ascii_paths ''.env'' ''.Env. :x''"
  proof -
    have "disguise ascii_paths ''.env'' (''.'' @ CHR ''e'' # ''nv'')" by (simp add: dis_plain)
    then have "disguise ascii_paths ''.env'' (''.'' @ char_of (code_point (CHR ''e'') - 32) # ''nv'')"
      by (rule dis_upper) code_simp
    moreover have "(char_of (code_point (CHR ''e'') - 32) :: char) = CHR ''E''" by code_simp
    ultimately have "disguise ascii_paths ''.env'' ''.Env''" by (simp only: append.simps)
    from dis_trailing [OF dis_trailing [OF this, of "CHR ''.''"], of "CHR '' ''"]
    have "disguise ascii_paths ''.env'' ''.Env. ''" by simp
    from dis_stream [OF this, of "''x''"] show ?thesis by (simp add: spelling_char_def code_point_def)
  qed
  then have "list_all2 (disguise (se_paths ex_spelling_env)) [''src'', ''.env''] [''src'', ''.Env. :x'']"
    by (simp add: ex_spelling_env_def dis_plain)
  moreover have "is_denied_path (join_on (CHR ''/'') [''src'', ''.env'']) [''*/.env'']" by code_simp
  moreover have "unicode_ok (se_paths ex_spelling_env)"
    by (simp add: ex_spelling_env_def ascii_paths_ok)
  ultimately show ?thesis
    using denial_covers_every_spelling [of ex_spelling_env "[''src'', ''.env'']"
        "[''src'', ''.Env. :x'']" "[''*/.env'']"]
    by (simp add: ex_spelling_env_def)
qed

section \<open>The reader\<close>

lemma read_file_admitted:
  "read_file env rd fs rel = Inr r \<Longrightarrow>
     \<exists>p b. reader_admit env rd rel = Inr p \<and> fs p = Some (FileNode b)
       \<and> fr_content r = se_decode env (take (rd_max_file_bytes rd) b)
       \<and> (fr_truncated r \<longleftrightarrow> rd_max_file_bytes rd < length b) \<and> fr_size r = length b"
proof -
  assume r: "read_file env rd fs rel = Inr r"
  then obtain p where p: "reader_admit env rd rel = Inr p"
    by (cases "reader_admit env rd rel") (auto simp: read_file_def)
  from r p obtain b where b: "fs p = Some (FileNode b)"
    by (auto simp: read_file_def split: option.splits node.splits)
  from r p b show ?thesis by (auto simp: read_file_def)
qed

lemma list_loop_page:
  assumes "length entries \<le> cap"
  shows "list_loop denied cap cursor entries ss =
    (let vis = filter (\<lambda>s. \<not> (case cursor of None \<Rightarrow> False | Some k \<Rightarrow> s \<le> k) \<and> \<not> denied s) ss
     in (entries @ take (cap - length entries) vis, cap - length entries < length vis))"
  using assms
proof (induction ss arbitrary: entries)
  case (Cons s ss)
  show ?case
  proof (cases "(case cursor of None \<Rightarrow> False | Some k \<Rightarrow> s \<le> k) \<or> denied s")
    case True
    then show ?thesis using Cons by (auto simp: Let_def)
  next
    case False
    then have vis: "filter (\<lambda>s. \<not> (case cursor of None \<Rightarrow> False | Some k \<Rightarrow> s \<le> k) \<and> \<not> denied s) (s # ss)
        = s # filter (\<lambda>s. \<not> (case cursor of None \<Rightarrow> False | Some k \<Rightarrow> s \<le> k) \<and> \<not> denied s) ss"
      by simp
    show ?thesis
    proof (cases "cap \<le> length entries")
      case True
      with False Cons.prems show ?thesis unfolding vis by (simp add: Let_def)
    next
      case room: False
      then have n: "cap - length entries = Suc (cap - length (entries @ [s]))" by simp
      have "list_loop denied cap cursor entries (s # ss) = list_loop denied cap cursor (entries @ [s]) ss"
        using False room by simp
      then show ?thesis
        unfolding vis n using Cons.IH [of "entries @ [s]"] room by (simp add: Let_def)
    qed
  qed
qed simp

text \<open>All pages of a listing, following \<open>next_after\<close> at most \<open>n\<close> times.\<close>

fun pages ::
  "(string option \<Rightarrow> read_refusal + file_listing) \<Rightarrow> nat \<Rightarrow> string option \<Rightarrow> string list" where
  "pages list_page 0 cursor = []"
| "pages list_page (Suc n) cursor =
     (case list_page cursor of
        Inl e \<Rightarrow> []
      | Inr l \<Rightarrow> fl_files l @ (if fl_next_after l = None then [] else pages list_page n (fl_next_after l)))"

lemma list_files_page:
  assumes "base_dir env rd fs rel = Inr base" and "after \<noteq> Some []"
  shows "list_files env rd fs rel pattern after =
    (let vis = filter (\<lambda>s. \<not> is_denied (se_paths env) s (rd_denied rd))
                 (map as_posix (walk_files env fs base pattern));
         rest = filter (\<lambda>s. \<not> (case after of None \<Rightarrow> False | Some k \<Rightarrow> s \<le> k)) vis;
         page = take (rd_max_entries rd) rest
     in Inr \<lparr>fl_files = page, fl_truncated = (rd_max_entries rd < length rest),
             fl_next_after = (if rd_max_entries rd < length rest \<and> page \<noteq> []
                              then Some (last page) else None)\<rparr>)"
  using assms by (simp add: list_files_def list_loop_page Let_def filter_filter conj_commute)

lemma filter_above_prefix:
  assumes "sorted_wrt (<) (xs @ x # ys :: string list)"
  shows "filter (\<lambda>s. \<not> s \<le> x) (xs @ x # ys) = ys"
proof -
  from assms have "\<forall>s \<in> set xs. s \<le> x" and "\<forall>s \<in> set ys. \<not> s \<le> x"
    by (auto simp: sorted_wrt_append)
  then show ?thesis by (simp add: filter_empty_conv filter_id_conv)
qed

lemma pages_complete:
  fixes vis :: "string list"
  assumes page: "\<And>after. after \<noteq> Some [] \<Longrightarrow> list_page after =
      (let rest = filter (\<lambda>s. \<not> (case after of None \<Rightarrow> False | Some k \<Rightarrow> s \<le> k)) vis;
           page = take cap rest
       in Inr \<lparr>fl_files = page, fl_truncated = (cap < length rest),
               fl_next_after = (if cap < length rest \<and> page \<noteq> [] then Some (last page) else None)\<rparr>)"
    and sorted: "sorted_wrt (<) vis" and cap: "0 < cap" and names: "[] \<notin> set vis"
    and rest: "filter (\<lambda>s. \<not> (case after of None \<Rightarrow> False | Some k \<Rightarrow> s \<le> k)) vis = drop m vis"
    and after: "after \<noteq> Some []" and fuel: "length vis - m < n"
  shows "pages list_page n after = drop m vis"
  using rest after fuel
proof (induction n arbitrary: after m)
  case (Suc n)
  let ?rest = "drop m vis"
  let ?page = "take cap ?rest"
  show ?case
  proof (cases "cap < length ?rest")
    case False
    then show ?thesis by (simp add: page Suc.prems Let_def)
  next
    case True
    then have ne: "?page \<noteq> []" using cap by auto
    then obtain us where us: "?page = us @ [last ?page]" by (metis append_butlast_last_id)
    have vis: "vis = (take m vis @ us) @ last ?page # drop (m + cap) vis"
      using us by (metis append.assoc append_Cons append_Nil append_take_drop_id drop_drop add.commute)
    then have above: "filter (\<lambda>s. \<not> s \<le> last ?page) vis = drop (m + cap) vis"
      using filter_above_prefix sorted by metis
    have last: "last ?page \<in> set vis" using ne in_set_dropD in_set_takeD last_in_set by metis
    have "pages list_page n (Some (last ?page)) = drop (m + cap) vis"
    proof (rule Suc.IH)
      show "filter (\<lambda>s. \<not> (case Some (last ?page) of None \<Rightarrow> False | Some k \<Rightarrow> s \<le> k)) vis
          = drop (m + cap) vis"
        using above by simp
      show "Some (last ?page) \<noteq> Some []" using last names by auto
      show "length vis - (m + cap) < n" using Suc.prems(3) cap True by simp
    qed
    then show ?thesis
      using True ne by (simp add: page Suc.prems Let_def drop_drop add.commute)
        (metis append_take_drop_id drop_drop add.commute)
  qed
qed simp

text \<open>
  Following the continuation cursor loses nothing and repeats nothing, where the order of
  the walk is the order of the cursor: whatever the page size, the pages of a listing are
  together exactly the permitted files of the walk, in order, and the pages end.
\<close>

theorem listing_pages_are_the_walk:
  assumes "base_dir env rd fs rel = Inr base" and "0 < rd_max_entries rd"
    and "sorted_wrt (<) (map as_posix (walk_files env fs base pattern))"
    and "[] \<notin> as_posix ` set (walk_files env fs base pattern)"
    and "length (walk_files env fs base pattern) < n"
  shows "pages (list_files env rd fs rel pattern) n None
    = filter (\<lambda>s. \<not> is_denied (se_paths env) s (rd_denied rd))
        (map as_posix (walk_files env fs base pattern))"
proof -
  let ?vis = "filter (\<lambda>s. \<not> is_denied (se_paths env) s (rd_denied rd))
        (map as_posix (walk_files env fs base pattern))"
  have "pages (list_files env rd fs rel pattern) n None = drop 0 ?vis"
  proof (rule pages_complete [where cap = "rd_max_entries rd"])
    fix after :: "string option" assume "after \<noteq> Some []"
    then show "list_files env rd fs rel pattern after =
      (let rest = filter (\<lambda>s. \<not> (case after of None \<Rightarrow> False | Some k \<Rightarrow> s \<le> k)) ?vis;
           page = take (rd_max_entries rd) rest
       in Inr \<lparr>fl_files = page, fl_truncated = (rd_max_entries rd < length rest),
               fl_next_after = (if rd_max_entries rd < length rest \<and> page \<noteq> []
                                then Some (last page) else None)\<rparr>)"
      using list_files_page [OF assms(1)] by (simp add: Let_def)
  next
    have "length ?vis \<le> length (map as_posix (walk_files env fs base pattern))"
      by (rule length_filter_le)
    also have "\<dots> < n" using assms(5) by simp
    finally show "length ?vis - 0 < n" by (simp only: diff_zero)
  qed (use assms in \<open>auto simp: sorted_wrt_filter\<close>)
  then show ?thesis by simp
qed

section \<open>The writer\<close>

text \<open>The writer's jail is the reader's.\<close>

lemma writer_admit_reader:
  assumes "sw_denied w = rd_denied rd"
  shows "writer_admit env w rel = Inr p \<longleftrightarrow> reader_admit env rd rel = Inr p"
  using assms by (auto simp: writer_admit_def reader_admit_def split: option.splits)

definition file_map :: "files \<Rightarrow> path \<rightharpoonup> string" where
  "file_map fs p = node_bytes (fs p)"

lemma file_map_upd [simp]:
  "file_map (fs(p \<mapsto> FileNode b)) = (file_map fs)(p \<mapsto> b)"
  "file_map (fs(p := None)) = (file_map fs)(p := None)"
  by (auto simp: file_map_def)

lemma file_map_Some: "file_map fs p = Some b \<longleftrightarrow> fs p = Some (FileNode b)"
  unfolding file_map_def by (cases "fs p"; cases "the (fs p)") auto

lemma make_dirs_files:
  assumes "make_dirs io fs p = Some fs'"
  shows "file_map fs' = file_map fs" and "fs' q = None \<Longrightarrow> fs q = None"
    and "\<not> prefix q p \<Longrightarrow> fs' q = fs q" and "fs q \<noteq> None \<Longrightarrow> fs' q = fs q"
proof -
  have fs': "fs' = (\<lambda>q. if prefix q p \<and> fs q = None then Some DirNode else fs q)"
    using assms by (auto simp: make_dirs_def split: if_splits)
  show "file_map fs' = file_map fs" by (auto simp: fs' file_map_def)
  show "fs' q = None \<Longrightarrow> fs q = None" by (auto simp: fs' split: if_splits)
  show "\<not> prefix q p \<Longrightarrow> fs' q = fs q" by (simp add: fs')
  show "fs q \<noteq> None \<Longrightarrow> fs' q = fs q" by (simp add: fs')
qed

lemma existing_digest_Inr:
  "existing_digest env io fs p expected = Inr d \<longleftrightarrow>
     p \<noteq> [] \<and> (\<exists>b. fs p = Some (FileNode b) \<and> expected = Some d \<and> se_sha256 env b = d
       \<and> \<not> io_read_fails io)"
  by (cases "fs p"; cases "the (fs p)"; cases expected) (auto simp: existing_digest_def)

lemma write_payload_Inr:
  "write_payload w content = Inr b \<longleftrightarrow>
     (\<exists>s. content = Some s \<and> b = utf8 s \<and> length b \<le> sw_max_write_bytes w)"
  by (auto simp: write_payload_def split: option.splits)

lemma atomic_write_Some:
  "atomic_write io fs p b = Some fs' \<longleftrightarrow>
     \<not> io_write_fails io \<and> fs p \<noteq> Some DirNode \<and> fs' = fs(p \<mapsto> FileNode b)"
  by (auto simp: atomic_write_def)

text \<open>What one operation may have done to the tree.\<close>

definition written ::
  "source_env \<Rightarrow> source_writer \<Rightarrow> files \<Rightarrow> write_op \<Rightarrow> path \<Rightarrow> string option \<Rightarrow> string option
     \<Rightarrow> files \<Rightarrow> write_done \<Rightarrow> bool" where
  "written env w fs oper p content expected fs' d \<longleftrightarrow>
     (case oper of
        OP_CREATE \<Rightarrow> (\<exists>b. write_payload w content = Inr b \<and> fs p = None
          \<and> file_map fs' = (file_map fs)(p \<mapsto> b) \<and> wd_sha256 d = Some (se_sha256 env b)
          \<and> wd_previous d = None)
      | OP_OVERWRITE \<Rightarrow> (\<exists>a b. write_payload w content = Inr b \<and> file_map fs p = Some a
          \<and> expected = Some (se_sha256 env a) \<and> fs' = fs(p \<mapsto> FileNode b)
          \<and> wd_sha256 d = Some (se_sha256 env b) \<and> wd_previous d = expected)
      | OP_DELETE \<Rightarrow> (\<exists>a. file_map fs p = Some a \<and> expected = Some (se_sha256 env a)
          \<and> fs' = fs(p := None) \<and> wd_sha256 d = None
          \<and> wd_previous d = expected))"

lemma source_write_cases:
  assumes "source_write env io w fs oper rel content expected = (w', fs', res)"
  shows "(\<exists>e. res = Inl e \<and> wr_path e = rel \<and> w' = w \<and> file_map fs' = file_map fs)
    \<or> (\<exists>d p. res = Inr d \<and> writer_admit env w rel = Inr p \<and> p \<noteq> []
         \<and> sw_ops_used w < sw_max_ops w \<and> w' = w\<lparr>sw_ops_used := Suc (sw_ops_used w)\<rparr>
         \<and> wd_path d = as_posix p \<and> wd_op d = oper
         \<and> wd_ops_remaining d = sw_max_ops w - Suc (sw_ops_used w)
         \<and> written env w fs oper p content expected fs' d)"
proof (cases "sw_max_ops w \<le> sw_ops_used w")
  case True
  with assms show ?thesis by (auto simp: source_write_def perform_write_def)
next
  case room: False
  then have left: "sw_ops_used w < sw_max_ops w" by simp
  show ?thesis
  proof (cases "writer_admit env w rel")
    case (Inl e)
    with assms room show ?thesis by (auto simp: source_write_def perform_write_def)
  next
    case (Inr p)
    note simps = source_write_def perform_write_def room Inr Let_def
    show ?thesis
    proof (cases oper)
      case OP_CREATE
      show ?thesis
      proof (cases "write_payload w content")
        case (Inl e)
        with assms OP_CREATE show ?thesis by (auto simp: simps)
      next
        case b: (Inr b)
        show ?thesis
        proof (cases "p = [] \<or> fs p \<noteq> None")
          case True
          with assms OP_CREATE b show ?thesis by (auto simp: simps)
        next
          case False
          show ?thesis
          proof (cases "make_dirs io fs (butlast p)")
            case None
            with assms OP_CREATE b False show ?thesis by (auto simp: simps)
          next
            case (Some fs1)
            note dirs = make_dirs_files [OF Some]
            show ?thesis
            proof (cases "atomic_write io fs1 p b")
              case None
              with assms OP_CREATE b False \<open>make_dirs io fs (butlast p) = Some fs1\<close> dirs(1)
              show ?thesis by (auto simp: simps)
            next
              case stored: (Some fs2)
              then have "fs2 = fs1(p \<mapsto> FileNode b)" by (simp add: atomic_write_Some)
              with assms OP_CREATE b False \<open>make_dirs io fs (butlast p) = Some fs1\<close> dirs(1) stored left
              show ?thesis by (auto simp: simps written_def)
            qed
          qed
        qed
      qed
    next
      case OP_OVERWRITE
      show ?thesis
      proof (cases "write_payload w content")
        case (Inl e)
        with assms OP_OVERWRITE show ?thesis by (auto simp: simps)
      next
        case b: (Inr b)
        show ?thesis
        proof (cases "existing_digest env io fs p expected")
          case (Inl e)
          with assms OP_OVERWRITE b show ?thesis by (auto simp: simps)
        next
          case d: (Inr d)
          then obtain a where a: "p \<noteq> []" "file_map fs p = Some a" "expected = Some d"
              "se_sha256 env a = d"
            by (auto simp: existing_digest_Inr file_map_Some)
          show ?thesis
          proof (cases "atomic_write io fs p b")
            case None
            with assms OP_OVERWRITE b d show ?thesis by (auto simp: simps)
          next
            case stored: (Some fs2)
            then have "fs2 = fs(p \<mapsto> FileNode b)" by (simp add: atomic_write_Some)
            with assms OP_OVERWRITE b d a stored left show ?thesis by (auto simp: simps written_def)
          qed
        qed
      qed
    next
      case OP_DELETE
      show ?thesis
      proof (cases "existing_digest env io fs p expected")
        case (Inl e)
        with assms OP_DELETE show ?thesis by (auto simp: simps)
      next
        case d: (Inr d)
        then obtain a where a: "p \<noteq> []" "file_map fs p = Some a" "expected = Some d"
            "se_sha256 env a = d"
          by (auto simp: existing_digest_Inr file_map_Some)
        with assms OP_DELETE d left show ?thesis
          by (cases "io_unlink_fails io") (auto simp: simps written_def)
      qed
    qed
  qed
qed

text \<open>
  C31. A write is a bounded compare-and-swap on one permitted file.  A refusal leaves every file
  as it was and costs nothing; a success changes exactly one file, the one the path resolves
  to inside the root, which the reader with the same denylist may read too, within the
  operation and byte caps, and it overwrites or deletes only the content whose digest the
  caller gave, and creates only what did not exist.
\<close>

theorem write_is_compare_and_swap:
  assumes "source_write env io w fs oper rel content expected = (w', fs', res)"
    and "sw_denied w = rd_denied rd"
  shows "case res of
      Inl e \<Rightarrow> w' = w \<and> file_map fs' = file_map fs
    | Inr d \<Rightarrow> \<exists>p. reader_admit env rd rel = Inr p \<and> wd_path d = as_posix p
        \<and> sw_ops_used w' = Suc (sw_ops_used w) \<and> sw_ops_used w' \<le> sw_max_ops w
        \<and> (\<forall>q. q \<noteq> p \<longrightarrow> file_map fs' q = file_map fs q)
        \<and> (case oper of
             OP_DELETE \<Rightarrow> file_map fs' p = None
           | _ \<Rightarrow> \<exists>s. content = Some s \<and> file_map fs' p = Some (utf8 s)
                 \<and> length (utf8 s) \<le> sw_max_write_bytes w)
        \<and> (case oper of
             OP_CREATE \<Rightarrow> fs p = None
           | _ \<Rightarrow> \<exists>a. file_map fs p = Some a \<and> expected = Some (se_sha256 env a))"
  using source_write_cases [OF assms(1)]
proof (elim disjE exE conjE)
  fix e assume "res = Inl e" "w' = w" "file_map fs' = file_map fs"
  then show ?thesis by simp
next
  fix d p
  assume r: "res = Inr d" "writer_admit env w rel = Inr p" "sw_ops_used w < sw_max_ops w"
    "w' = w\<lparr>sw_ops_used := Suc (sw_ops_used w)\<rparr>" "wd_path d = as_posix p"
    "written env w fs oper p content expected fs' d"
  have "reader_admit env rd rel = Inr p" using writer_admit_reader [OF assms(2)] r(2) by blast
  with r show ?thesis
    by (cases oper) (auto simp: written_def write_payload_Inr intro!: exI [of _ p])
qed

section \<open>Examples\<close>

definition ex_source_env :: source_env where
  "ex_source_env = \<lparr>se_paths = ascii_paths, se_resolve = (\<lambda>s. Some (path_parts s)),
     se_glob = (\<lambda>base pattern. [[''a-b''], [''a'', ''b'']]), se_sha256 = (\<lambda>s. s), se_decode = (\<lambda>s. s)\<rparr>"

definition ex_reader :: source_reader where
  "ex_reader = \<lparr>rd_max_file_bytes = 8, rd_max_entries = 1, rd_denied = DEFAULT_DENIED_PATTERNS\<rparr>"

definition ex_writer :: source_writer where
  "ex_writer = \<lparr>sw_max_write_bytes = 8, sw_max_ops = 2, sw_denied = DEFAULT_DENIED_PATTERNS,
     sw_ops_used = 0\<rparr>"

definition no_faults :: io_faults where
  "no_faults = \<lparr>io_read_fails = False, io_mkdir_fails = False, io_write_fails = False,
     io_unlink_fails = False\<rparr>"

definition ex_tree :: files where
  "ex_tree = [[''a''] \<mapsto> DirNode, [''a'', ''b''] \<mapsto> FileNode ''x'', [''a-b''] \<mapsto> FileNode ''y'']"

theorem write_is_compare_and_swap_witness:
  "case source_write ex_source_env no_faults ex_writer ex_tree OP_OVERWRITE ''a/b'' (Some ''new'')
      (Some ''x'') of (w', fs', res) \<Rightarrow> is_ok res \<and> file_map fs' [''a'', ''b''] = Some ''new''
        \<and> file_map fs' [''a-b''] = Some ''y'' \<and> sw_ops_used w' = 1"
proof -
  obtain w' fs' res where
    r: "source_write ex_source_env no_faults ex_writer ex_tree OP_OVERWRITE ''a/b'' (Some ''new'')
      (Some ''x'') = (w', fs', res)" by (metis prod_cases3)
  have ok: "is_ok (snd (snd (source_write ex_source_env no_faults ex_writer ex_tree OP_OVERWRITE
      ''a/b'' (Some ''new'') (Some ''x''))))" by code_simp
  then obtain d where d: "res = Inr d" using r by (auto simp: is_ok_iff)
  have adm: "reader_admit ex_source_env ex_reader ''a/b'' = Inr [''a'', ''b'']" by code_simp
  have u: "utf8 ''new'' = ''new''" by code_simp
  have x: "file_map ex_tree [''a-b''] = Some ''y''" "sw_ops_used ex_writer = 0"
      "sw_denied ex_writer = rd_denied ex_reader"
    by (simp_all add: file_map_def ex_tree_def ex_writer_def ex_reader_def)
  from write_is_compare_and_swap [OF r x(3)] d adm u x(1,2)
  have "file_map fs' [''a'', ''b''] = Some ''new''" "file_map fs' [''a-b''] = Some ''y''"
      "sw_ops_used w' = 1"
    by auto
  with r d show ?thesis by simp
qed

text \<open>
  The walk is in the order of path parts while the cursor compares the joined text, so where
  a name extends a directory's name with a character before the slash a page can skip files:
  with one entry per page, \<open>a-b\<close> is never listed after \<open>a/b\<close>.
\<close>

lemma cursor_skips_files:
  "pages (list_files ex_source_env ex_reader ex_tree [] ''**/*'') 5 None = [''a/b'']"
  "map as_posix (walk_files ex_source_env ex_tree [] ''**/*'') = [''a/b'', ''a-b'']"
  by code_simp+

text \<open>
  \<open>search\<close> does not resolve what the walk finds: a link inside the tree that leads outside the
  root is refused by \<open>read_file\<close> but its target is searched and quoted.
\<close>

definition ex_link_env :: source_env where
  "ex_link_env = ex_source_env\<lparr>se_resolve := (\<lambda>s. if s = ''link.py'' then None else Some (path_parts s)),
     se_glob := (\<lambda>base pattern. [[''link.py'']])\<rparr>"

lemma search_follows_links_outside:
  "read_file ex_link_env ex_reader [[''link.py''] \<mapsto> FileNode ''key=1''] ''link.py'' = Inl ReadEscapes"
  "source_search ex_link_env ex_reader [[''link.py''] \<mapsto> FileNode ''key=1''] (\<lambda>_. False) ''key'' [] ''**/*.py''
     = Inr ([\<lparr>sm_path = ''link.py'', sm_line = 1, sm_text = ''key=1''\<rparr>], False)"
  by code_simp+

definition ex_flat_env :: source_env where
  "ex_flat_env = ex_source_env\<lparr>se_glob := (\<lambda>base pattern. [[''c''], [''a'', ''b''], [''a'', ''.env'']])\<rparr>"

definition ex_flat_tree :: files where
  "ex_flat_tree = [[''a''] \<mapsto> DirNode, [''a'', ''b''] \<mapsto> FileNode ''x'',
     [''a'', ''.env''] \<mapsto> FileNode ''k'', [''c''] \<mapsto> FileNode ''y'']"

theorem listing_pages_are_the_walk_witness:
  "pages (list_files ex_flat_env ex_reader ex_flat_tree [] ''**/*'') 5 None = [''a/b'', ''c'']"
proof -
  have walk: "walk_files ex_flat_env ex_flat_tree [] ''**/*'' = [[''a'', ''.env''], [''a'', ''b''], [''c'']]"
    by code_simp
  have names: "map as_posix [[''a'', ''.env''], [''a'', ''b''], [''c'']] = [''a/.env'', ''a/b'', ''c'']"
    by code_simp
  have order: "sorted_wrt (<) [''a/.env'', ''a/b'', ''c'']" by code_simp
  have base: "base_dir ex_flat_env ex_reader ex_flat_tree [] = Inr []" by code_simp
  have denied: "filter (\<lambda>s. \<not> is_denied (se_paths ex_flat_env) s (rd_denied ex_reader))
      [''a/.env'', ''a/b'', ''c''] = [''a/b'', ''c'']"
    by code_simp
  from listing_pages_are_the_walk [OF base, of "''**/*''" 5] show ?thesis
    unfolding walk names denied using order names
    by (auto simp: ex_reader_def as_posix_def)
qed

end
