(* ===== verification/Source_Checkpoint.thy ===== *)
theory Source_Checkpoint
  imports Source_Files
begin

text \<open>
  Checkpoints and undo of \<open>core/tools/checkpoint.py\<close> over the writer of \<open>Source_Files\<close>, with
  the durable index of \<open>core/tools/atomic_json.py\<close>.  The object store and the index are the
  checkpoint directory on disk; a JSON file is taken as the value it denotes, and how
  identifiers and times are read and printed is a parameter.  Each access to the directory may
  fail, all or nothing.
\<close>

section \<open>Records\<close>

datatype checkpoint_state = CP_OPEN | CP_SEALED | CP_PARTIAL | CP_RESTORED

record checkpoint =
  cp_id :: uuid
  cp_tenant_id :: uuid
  cp_path :: string
  cp_op :: write_op
  cp_pre :: "string option"
  cp_post :: "string option"
  cp_state :: checkpoint_state
  cp_created_at :: timestamp
  cp_sealed_at :: "timestamp option"
  cp_restored_at :: "timestamp option"

datatype checkpoint_code =
  CHECKPOINT_UNKNOWN | CHECKPOINT_CONFLICT | OBJECT_STORE_CORRUPT | PATH_REFUSED | CP_IO_ERROR

text \<open>\<open>CheckpointRefused\<close>, or the validation error of a record that cannot be built.\<close>

datatype checkpoint_exception = CheckpointRefused checkpoint_code | InvalidCheckpoint

datatype restore_outcome = NOOP | REVERTED

record checkpoint_refusal =
  cr_code :: checkpoint_code
  cr_id :: "uuid option"
  cr_path :: "string option"

record restore_result =
  rr_id :: uuid
  rr_outcome :: restore_outcome
  rr_path :: string
  rr_sha256 :: "string option"

section \<open>The codec of the index\<close>

record text_codec =
  tc_uuid :: "uuid \<Rightarrow> string"
  tc_parse_uuid :: "json \<Rightarrow> uuid option"
  tc_time :: "timestamp \<Rightarrow> string"
  tc_parse_time :: "json \<Rightarrow> timestamp option"

fun state_value :: "checkpoint_state \<Rightarrow> string" where
  "state_value CP_OPEN = ''open''" | "state_value CP_SEALED = ''sealed''"
| "state_value CP_PARTIAL = ''partial''" | "state_value CP_RESTORED = ''restored''"

fun op_value :: "write_op \<Rightarrow> string" where
  "op_value OP_CREATE = ''create''" | "op_value OP_OVERWRITE = ''overwrite''"
| "op_value OP_DELETE = ''delete''"

definition parse_state :: "json \<Rightarrow> checkpoint_state option" where
  "parse_state v =
     find (\<lambda>x. JStr (state_value x) = v) [CP_OPEN, CP_SEALED, CP_PARTIAL, CP_RESTORED]"

definition parse_op :: "json \<Rightarrow> write_op option" where
  "parse_op v = find (\<lambda>x. JStr (op_value x) = v) [OP_CREATE, OP_OVERWRITE, OP_DELETE]"

definition sha256_hex :: "string \<Rightarrow> bool" where
  "sha256_hex s \<longleftrightarrow> length s = 64 \<and> list_all (\<lambda>c. is_digit c \<or> code_point c \<in> {97..102}) s"

definition rel_path_ok :: "string \<Rightarrow> bool" where
  "rel_path_ok s \<longleftrightarrow> s \<noteq> [] \<and> length s \<le> 1024"

fun parse_str :: "(string \<Rightarrow> bool) \<Rightarrow> json \<Rightarrow> string option" where
  "parse_str p (JStr s) = (if p s then Some s else None)"
| "parse_str p _ = None"

fun nullable :: "(json \<Rightarrow> 'a option) \<Rightarrow> json \<Rightarrow> 'a option option" where
  "nullable f JNull = Some None"
| "nullable f v = map_option Some (f v)"

text \<open>A field with a default, and one without.\<close>

definition field_or :: "json_object \<Rightarrow> string \<Rightarrow> (json \<Rightarrow> 'a option) \<Rightarrow> 'a \<Rightarrow> 'a option" where
  "field_or ps k f d = (case map_of ps k of None \<Rightarrow> Some d | Some v \<Rightarrow> f v)"

definition field_req :: "json_object \<Rightarrow> string \<Rightarrow> (json \<Rightarrow> 'a option) \<Rightarrow> 'a option" where
  "field_req ps k f = Option.bind (map_of ps k) f"

definition opt_json :: "('a \<Rightarrow> string) \<Rightarrow> 'a option \<Rightarrow> json" where
  "opt_json f x = (case x of None \<Rightarrow> JNull | Some a \<Rightarrow> JStr (f a))"

definition CHECKPOINT_FIELDS :: "string list" where
  "CHECKPOINT_FIELDS =
     [''id'', ''tenant_id'', ''path'', ''op'', ''pre_sha256'', ''post_sha256'', ''state'',
      ''created_at'', ''sealed_at'', ''restored_at'']"

text \<open>\<open>model_dump(mode="json")\<close> and \<open>model_validate\<close>, with the defaults drawn while validating.\<close>

definition checkpoint_json :: "text_codec \<Rightarrow> checkpoint \<Rightarrow> json" where
  "checkpoint_json tc c = JObj
     [(''id'', JStr (tc_uuid tc (cp_id c))), (''tenant_id'', JStr (tc_uuid tc (cp_tenant_id c))),
      (''path'', JStr (cp_path c)), (''op'', JStr (op_value (cp_op c))),
      (''pre_sha256'', opt_json id (cp_pre c)), (''post_sha256'', opt_json id (cp_post c)),
      (''state'', JStr (state_value (cp_state c))),
      (''created_at'', JStr (tc_time tc (cp_created_at c))),
      (''sealed_at'', opt_json (tc_time tc) (cp_sealed_at c)),
      (''restored_at'', opt_json (tc_time tc) (cp_restored_at c))]"

definition parse_checkpoint ::
  "text_codec \<Rightarrow> uuid \<Rightarrow> timestamp \<Rightarrow> json \<Rightarrow> checkpoint option" where
  "parse_checkpoint tc drawn now v =
     (case v of
        JObj ps \<Rightarrow>
          if \<not> set (map fst ps) \<subseteq> set CHECKPOINT_FIELDS then None
          else Option.bind (field_or ps ''id'' (tc_parse_uuid tc) drawn) (\<lambda>i.
            Option.bind (field_req ps ''tenant_id'' (tc_parse_uuid tc)) (\<lambda>t.
            Option.bind (field_req ps ''path'' (parse_str rel_path_ok)) (\<lambda>p.
            Option.bind (field_req ps ''op'' parse_op) (\<lambda>oper.
            Option.bind (field_req ps ''pre_sha256'' (nullable (parse_str sha256_hex))) (\<lambda>pre.
            Option.bind (field_or ps ''post_sha256'' (nullable (parse_str sha256_hex)) None) (\<lambda>post.
            Option.bind (field_or ps ''state'' parse_state CP_OPEN) (\<lambda>st.
            Option.bind (field_or ps ''created_at'' (tc_parse_time tc) now) (\<lambda>created.
            Option.bind (field_or ps ''sealed_at'' (nullable (tc_parse_time tc)) None) (\<lambda>sealed.
            Option.bind (field_or ps ''restored_at'' (nullable (tc_parse_time tc)) None) (\<lambda>restored.
              Some \<lparr>cp_id = i, cp_tenant_id = t, cp_path = p, cp_op = oper, cp_pre = pre,
                    cp_post = post, cp_state = st, cp_created_at = created, cp_sealed_at = sealed,
                    cp_restored_at = restored\<rparr>))))))))))
      | _ \<Rightarrow> None)"

section \<open>The index on disk\<close>

datatype disk_document = DocMissing | DocUnreadable | DocNotAFile | DocNotJson | DocValue json

datatype document_state = STATE_MISSING | STATE_OK | STATE_PARTIAL | STATE_MALFORMED | STATE_UNREADABLE

text \<open>Python's \<open>v == n\<close> for a decoded value and an integer.\<close>

fun json_is_int :: "json \<Rightarrow> int \<Rightarrow> bool" where
  "json_is_int (JInt i) n = (i = n)"
| "json_is_int (JBool b) n = ((if b then 1 else 0) = n)"
| "json_is_int (JFloat r) n = (r = of_int n)"
| "json_is_int _ n = False"

definition read_document ::
  "disk_document \<Rightarrow> int \<Rightarrow> string \<Rightarrow> document_state \<times> json list" where
  "read_document doc version list_key =
     (case doc of
        DocMissing \<Rightarrow> (STATE_MISSING, [])
      | DocUnreadable \<Rightarrow> (STATE_UNREADABLE, [])
      | DocNotAFile \<Rightarrow> (STATE_MALFORMED, [])
      | DocNotJson \<Rightarrow> (STATE_MALFORMED, [])
      | DocValue (JObj ps) \<Rightarrow>
          (if \<not> (case map_of ps ''version'' of None \<Rightarrow> False | Some v \<Rightarrow> json_is_int v version)
           then (STATE_MALFORMED, [])
           else case map_of ps list_key of
                  Some (JList records) \<Rightarrow> (STATE_OK, records)
                | _ \<Rightarrow> (STATE_MALFORMED, []))
      | DocValue _ \<Rightarrow> (STATE_MALFORMED, []))"

definition CHECKPOINT_INDEX_VERSION :: int where
  "CHECKPOINT_INDEX_VERSION = 1"

definition index_document :: "text_codec \<Rightarrow> checkpoint list \<Rightarrow> json" where
  "index_document tc cps =
     JObj [(''version'', JInt CHECKPOINT_INDEX_VERSION),
           (''checkpoints'', JList (map (checkpoint_json tc) cps))]"

datatype skip_reason = SkipDocument | SkipInvalid | SkipDuplicate

fun load_records ::
  "text_codec \<Rightarrow> (nat \<Rightarrow> uuid) \<Rightarrow> timestamp \<Rightarrow> nat \<Rightarrow> uuid set \<Rightarrow> json list
     \<Rightarrow> checkpoint list \<times> (nat \<times> skip_reason) list" where
  "load_records tc drawn now n seen [] = ([], [])"
| "load_records tc drawn now n seen (v # vs) =
     (case parse_checkpoint tc (drawn n) now v of
        None \<Rightarrow> (case load_records tc drawn now (Suc n) seen vs of
                  (good, skipped) \<Rightarrow> (good, (n, SkipInvalid) # skipped))
      | Some c \<Rightarrow>
          if cp_id c \<in> seen
          then (case load_records tc drawn now (Suc n) seen vs of
                  (good, skipped) \<Rightarrow> (good, (n, SkipDuplicate) # skipped))
          else (case load_records tc drawn now (Suc n) (insert (cp_id c) seen) vs of
                  (good, skipped) \<Rightarrow> (c # good, skipped)))"

record load_report =
  lr_checkpoints :: "checkpoint list"
  lr_skipped :: "(nat \<times> skip_reason) list"
  lr_state :: document_state

definition load_index ::
  "text_codec \<Rightarrow> (nat \<Rightarrow> uuid) \<Rightarrow> timestamp \<Rightarrow> disk_document \<Rightarrow> load_report" where
  "load_index tc drawn now doc =
     (case read_document doc CHECKPOINT_INDEX_VERSION ''checkpoints'' of
        (STATE_MISSING, _) \<Rightarrow> \<lparr>lr_checkpoints = [], lr_skipped = [], lr_state = STATE_MISSING\<rparr>
      | (STATE_OK, records) \<Rightarrow>
          (case load_records tc drawn now 0 {} records of
             (good, skipped) \<Rightarrow>
               \<lparr>lr_checkpoints = good, lr_skipped = skipped,
                lr_state = (if skipped \<noteq> [] then STATE_PARTIAL else STATE_OK)\<rparr>)
      | (st, _) \<Rightarrow> \<lparr>lr_checkpoints = [], lr_skipped = [(0, SkipDocument)], lr_state = st\<rparr>)"

section \<open>The store and the manager\<close>

record store_faults =
  sf_snapshot_fails :: bool
  sf_index_fails :: bool
  sf_read_fails :: bool

record checkpoint_manager =
  cm_tenant_id :: uuid
  cm_denied :: "string list"
  cm_checkpoints :: "(uuid \<times> checkpoint) list"
  cm_objects :: "string \<rightharpoonup> string"
  cm_index :: disk_document

definition new_manager ::
  "text_codec \<Rightarrow> (nat \<Rightarrow> uuid) \<Rightarrow> timestamp \<Rightarrow> uuid \<Rightarrow> string list \<Rightarrow> (string \<rightharpoonup> string)
     \<Rightarrow> disk_document \<Rightarrow> checkpoint_manager" where
  "new_manager tc drawn now tenant denied objects doc =
     \<lparr>cm_tenant_id = tenant, cm_denied = denied,
      cm_checkpoints = foldl (\<lambda>d c. AList.update (cp_id c) c d) []
        (lr_checkpoints (load_index tc drawn now doc)),
      cm_objects = objects, cm_index = doc\<rparr>"

definition put_blob ::
  "(string \<Rightarrow> string) \<Rightarrow> bool \<Rightarrow> (string \<rightharpoonup> string) \<Rightarrow> string \<Rightarrow> (string \<rightharpoonup> string) option" where
  "put_blob sha fails objects b =
     (case objects (sha b) of
        Some old \<Rightarrow> if sha old = sha b then Some objects
                    else if fails then None else Some (objects(sha b \<mapsto> b))
      | None \<Rightarrow> if fails then None else Some (objects(sha b \<mapsto> b)))"

definition get_blob ::
  "(string \<Rightarrow> string) \<Rightarrow> (string \<rightharpoonup> string) \<Rightarrow> string \<Rightarrow> string option" where
  "get_blob sha objects digest =
     (if \<not> sha256_hex digest then None
      else case objects digest of
        None \<Rightarrow> None | Some b \<Rightarrow> if sha b = digest then Some b else None)"

text \<open>\<open>_persist\<close>: the new manager, or nothing written.\<close>

definition persist_index ::
  "text_codec \<Rightarrow> store_faults \<Rightarrow> checkpoint_manager \<Rightarrow> checkpoint_manager option" where
  "persist_index tc sf m =
     (if sf_index_fails sf then None
      else Some (m\<lparr>cm_index := DocValue (index_document tc (map snd (cm_checkpoints m)))\<rparr>))"

definition checkpoint_admit ::
  "source_env \<Rightarrow> string list \<Rightarrow> string \<Rightarrow> path option" where
  "checkpoint_admit env patterns rel =
     (if not_relative rel then None
      else case se_resolve env rel of
        None \<Rightarrow> None
      | Some p \<Rightarrow>
          if p = [] \<or> is_denied (se_paths env) (as_posix p) patterns then None else Some p)"

definition new_checkpoint ::
  "uuid \<Rightarrow> uuid \<Rightarrow> string \<Rightarrow> write_op \<Rightarrow> string option \<Rightarrow> timestamp \<Rightarrow> checkpoint" where
  "new_checkpoint i tenant s oper pre now =
     \<lparr>cp_id = i, cp_tenant_id = tenant, cp_path = s, cp_op = oper, cp_pre = pre, cp_post = None,
      cp_state = CP_OPEN, cp_created_at = now, cp_sealed_at = None, cp_restored_at = None\<rparr>"

text \<open>The snapshot: the digest of the content now, with the object it needs.\<close>

definition snapshot ::
  "source_env \<Rightarrow> store_faults \<Rightarrow> checkpoint_manager \<Rightarrow> files \<Rightarrow> path
     \<Rightarrow> (checkpoint_manager \<times> string option) option" where
  "snapshot env sf m fs p =
     (case fs p of
        Some (FileNode b) \<Rightarrow>
          if sf_read_fails sf then None
          else map_option (\<lambda>objects. (m\<lparr>cm_objects := objects\<rparr>, Some (se_sha256 env b)))
                 (put_blob (se_sha256 env) (sf_snapshot_fails sf) (cm_objects m) b)
      | _ \<Rightarrow> Some (m, None))"

definition begin_checkpoint ::
  "source_env \<Rightarrow> text_codec \<Rightarrow> store_faults \<Rightarrow> uuid \<Rightarrow> timestamp \<Rightarrow> checkpoint_manager \<Rightarrow> files
     \<Rightarrow> string \<Rightarrow> write_op \<Rightarrow> string list option
     \<Rightarrow> checkpoint_manager \<times> (checkpoint_exception + checkpoint)" where
  "begin_checkpoint env tc sf i now m fs rel oper denied =
     (let patterns = (case denied of None \<Rightarrow> cm_denied m | Some d \<Rightarrow> d)
      in case checkpoint_admit env patterns rel of
        None \<Rightarrow> (m, Inl (CheckpointRefused PATH_REFUSED))
      | Some p \<Rightarrow>
         if fs p = Some DirNode then (m, Inl (CheckpointRefused PATH_REFUSED))
         else case snapshot env sf m fs p of
            None \<Rightarrow> (m, Inl (CheckpointRefused CP_IO_ERROR))
          | Some (m1, pre) \<Rightarrow>
             if \<not> rel_path_ok (as_posix p) then (m1, Inl InvalidCheckpoint)
             else let c = new_checkpoint i (cm_tenant_id m) (as_posix p) oper pre now;
                      m2 = m1\<lparr>cm_checkpoints := AList.update i c (cm_checkpoints m1)\<rparr>
                  in case persist_index tc sf m2 of
                       None \<Rightarrow> (m1\<lparr>cm_checkpoints := AList.delete i (cm_checkpoints m1)\<rparr>,
                                Inl (CheckpointRefused CP_IO_ERROR))
                     | Some m3 \<Rightarrow> (m3, Inr c))"

definition checkpoint_transition ::
  "text_codec \<Rightarrow> store_faults \<Rightarrow> timestamp \<Rightarrow> checkpoint_manager \<Rightarrow> uuid \<Rightarrow> checkpoint_state
     \<Rightarrow> string option \<Rightarrow> checkpoint_manager \<times> (checkpoint_exception + checkpoint)" where
  "checkpoint_transition tc sf now m i st post =
     (case map_of (cm_checkpoints m) i of
        None \<Rightarrow> (m, Inl (CheckpointRefused CHECKPOINT_UNKNOWN))
      | Some c \<Rightarrow>
         (let c' = c\<lparr>cp_state := st, cp_post := post,
                     cp_sealed_at := (if st = CP_SEALED then Some now else cp_sealed_at c)\<rparr>
          in case persist_index tc sf
                    (m\<lparr>cm_checkpoints := AList.update i c' (cm_checkpoints m)\<rparr>) of
               None \<Rightarrow> (m, Inl (CheckpointRefused CP_IO_ERROR))
             | Some m' \<Rightarrow> (m', Inr c')))"

definition seal ::
  "text_codec \<Rightarrow> store_faults \<Rightarrow> timestamp \<Rightarrow> checkpoint_manager \<Rightarrow> uuid \<Rightarrow> string option
     \<Rightarrow> checkpoint_manager \<times> (checkpoint_exception + checkpoint)" where
  "seal tc sf now m i post = checkpoint_transition tc sf now m i CP_SEALED post"

definition mark_partial ::
  "text_codec \<Rightarrow> store_faults \<Rightarrow> timestamp \<Rightarrow> checkpoint_manager \<Rightarrow> uuid
     \<Rightarrow> checkpoint_manager \<times> (checkpoint_exception + checkpoint)" where
  "mark_partial tc sf now m i = checkpoint_transition tc sf now m i CP_PARTIAL None"

definition get_checkpoint :: "checkpoint_manager \<Rightarrow> uuid \<Rightarrow> checkpoint option" where
  "get_checkpoint m i = map_of (cm_checkpoints m) i"

definition list_checkpoints :: "checkpoint_manager \<Rightarrow> checkpoint list" where
  "list_checkpoints m = sort_key cp_created_at (map snd (cm_checkpoints m))"

section \<open>Restore\<close>

definition refuse_restore :: "checkpoint_code \<Rightarrow> checkpoint \<Rightarrow> checkpoint_refusal" where
  "refuse_restore code c = \<lparr>cr_code = code, cr_id = Some (cp_id c), cr_path = Some (cp_path c)\<rparr>"

definition restore_done ::
  "text_codec \<Rightarrow> store_faults \<Rightarrow> timestamp \<Rightarrow> checkpoint_manager \<Rightarrow> checkpoint \<Rightarrow> restore_outcome
     \<Rightarrow> checkpoint_manager \<times> restore_result" where
  "restore_done tc sf now m c outcome =
     (let c' = c\<lparr>cp_state := CP_RESTORED, cp_restored_at := Some now\<rparr>;
          m' = (case persist_index tc sf
                       (m\<lparr>cm_checkpoints := AList.update (cp_id c) c' (cm_checkpoints m)\<rparr>) of
                  None \<Rightarrow> m\<lparr>cm_checkpoints := AList.update (cp_id c) c (cm_checkpoints m)\<rparr>
                | Some m1 \<Rightarrow> m1)
      in (m', \<lparr>rr_id = cp_id c, rr_outcome = outcome, rr_path = cp_path c,
               rr_sha256 = cp_pre c\<rparr>))"

definition restore ::
  "source_env \<Rightarrow> text_codec \<Rightarrow> store_faults \<Rightarrow> io_faults \<Rightarrow> timestamp \<Rightarrow> checkpoint_manager
     \<Rightarrow> files \<Rightarrow> uuid \<Rightarrow> checkpoint_manager \<times> files \<times> (checkpoint_refusal + restore_result)" where
  "restore env tc sf io now m fs i =
     (case map_of (cm_checkpoints m) i of
        None \<Rightarrow> (m, fs, Inl \<lparr>cr_code = CHECKPOINT_UNKNOWN, cr_id = Some i, cr_path = None\<rparr>)
      | Some c \<Rightarrow>
         (let p = path_parts (cp_path c);
              current = map_option (se_sha256 env) (node_bytes (fs p));
              finish = (\<lambda>fs' outcome. let r = restore_done tc sf now m c outcome
                                      in (fst r, fs', Inr (snd r)))
          in if sf_read_fails sf \<and> current \<noteq> None then (m, fs, Inl (refuse_restore CP_IO_ERROR c))
             else if current = cp_pre c then finish fs NOOP
             else if cp_state c = CP_PARTIAL \<or> current \<noteq> cp_post c
             then (m, fs, Inl (refuse_restore CHECKPOINT_CONFLICT c))
             else case cp_pre c of
                None \<Rightarrow>
                  if io_unlink_fails io then (m, fs, Inl (refuse_restore CP_IO_ERROR c))
                  else finish (fs(p := None)) REVERTED
              | Some digest \<Rightarrow>
                 (case get_blob (se_sha256 env) (cm_objects m) digest of
                    None \<Rightarrow> (m, fs, Inl (refuse_restore OBJECT_STORE_CORRUPT c))
                  | Some b \<Rightarrow>
                     (case make_dirs io fs (butlast p) of
                        None \<Rightarrow> (m, fs, Inl (refuse_restore CP_IO_ERROR c))
                      | Some fs1 \<Rightarrow>
                         (case atomic_write io fs1 p b of
                            None \<Rightarrow> (m, fs1, Inl (refuse_restore CP_IO_ERROR c))
                          | Some fs2 \<Rightarrow> finish fs2 REVERTED)))))"

section \<open>The checkpointed write\<close>

record write_request =
  wq_op :: write_op
  wq_path :: string
  wq_content :: "string option"
  wq_expected :: "string option"

definition parse_request :: "json_object \<Rightarrow> write_request option" where
  "parse_request ps =
     (if \<not> set (map fst ps) \<subseteq> {''op'', ''path'', ''content'', ''expected_sha256''} then None
      else Option.bind (field_req ps ''op'' parse_op) (\<lambda>oper.
        Option.bind (field_req ps ''path'' (parse_str rel_path_ok)) (\<lambda>p.
        Option.bind (field_or ps ''content'' (nullable (parse_str (\<lambda>_. True))) None) (\<lambda>content.
        Option.bind (field_or ps ''expected_sha256'' (nullable (parse_str sha256_hex)) None) (\<lambda>e.
          Some \<lparr>wq_op = oper, wq_path = p, wq_content = content, wq_expected = e\<rparr>)))))"

datatype write_answer =
    ValidationError
  | Unwritten checkpoint_refusal
  | Written "write_refusal + write_done" "uuid option"

text \<open>
  \<open>checkpointed_write_handler\<close>; \<open>sf\<close> are the faults while the checkpoint opens, \<open>sf'\<close> those
  while it closes.  An exception leaves the handler as \<open>Inl\<close>.
\<close>

definition checkpointed_write ::
  "source_env \<Rightarrow> text_codec \<Rightarrow> store_faults \<Rightarrow> io_faults \<Rightarrow> store_faults \<Rightarrow> uuid \<Rightarrow> timestamp
     \<Rightarrow> checkpoint_manager \<Rightarrow> source_writer \<Rightarrow> files \<Rightarrow> json_object
     \<Rightarrow> checkpoint_manager \<times> source_writer \<times> files \<times> (checkpoint_exception + write_answer)" where
  "checkpointed_write env tc sf io sf' i now m w fs arguments =
     (case parse_request arguments of
        None \<Rightarrow> (m, w, fs, Inr ValidationError)
      | Some q \<Rightarrow>
         (let write = source_write env io w fs (wq_op q) (wq_path q) (wq_content q) (wq_expected q)
          in case begin_checkpoint env tc sf i now m fs (wq_path q) (wq_op q) (Some (sw_denied w)) of
               (m1, Inl (CheckpointRefused code)) \<Rightarrow>
                 if code = PATH_REFUSED
                 then (case write of (w', fs', res) \<Rightarrow> (m1, w', fs', Inr (Written res None)))
                 else (m1, w, fs, Inr (Unwritten
                        \<lparr>cr_code = code, cr_id = None, cr_path = Some (wq_path q)\<rparr>))
             | (m1, Inl InvalidCheckpoint) \<Rightarrow> (m1, w, fs, Inl InvalidCheckpoint)
             | (m1, Inr c) \<Rightarrow>
                 (case write of
                    (w', fs', Inr d) \<Rightarrow>
                      (case seal tc sf' now m1 (cp_id c) (wd_sha256 d) of
                         (m2, Inl e) \<Rightarrow> (m2, w', fs', Inl e)
                       | (m2, Inr _) \<Rightarrow> (m2, w', fs', Inr (Written (Inr d) (Some (cp_id c)))))
                  | (w', fs', Inl r) \<Rightarrow>
                      (case mark_partial tc sf' now m1 (cp_id c) of
                         (m2, Inl e) \<Rightarrow> (m2, w', fs', Inl e)
                       | (m2, Inr _) \<Rightarrow> (m2, w', fs', Inr (Written (Inl r) None))))))"

section \<open>The index survives a restart\<close>

text \<open>Documented behaviour of the library: what it prints, it reads back.\<close>

definition codec_ok :: "text_codec \<Rightarrow> bool" where
  "codec_ok tc \<longleftrightarrow> (\<forall>i. tc_parse_uuid tc (JStr (tc_uuid tc i)) = Some i)
     \<and> (\<forall>t. tc_parse_time tc (JStr (tc_time tc t)) = Some t)"

definition checkpoint_valid :: "checkpoint \<Rightarrow> bool" where
  "checkpoint_valid c \<longleftrightarrow> rel_path_ok (cp_path c) \<and> pred_option sha256_hex (cp_pre c)
     \<and> pred_option sha256_hex (cp_post c)"

lemma parse_state_value [simp]: "parse_state (JStr (state_value st)) = Some st"
  by (cases st) (simp_all add: parse_state_def)

lemma parse_op_value [simp]: "parse_op (JStr (op_value x)) = Some x"
  by (cases x) (simp_all add: parse_op_def)

lemma nullable_opt_json:
  "(\<And>a. x = Some a \<Longrightarrow> f (JStr (g a)) = Some a) \<Longrightarrow> nullable f (opt_json g x) = Some x"
  by (cases x) (simp_all add: opt_json_def)

lemma parse_checkpoint_json:
  assumes "codec_ok tc" and "checkpoint_valid c"
  shows "parse_checkpoint tc drawn now (checkpoint_json tc c) = Some c"
proof -
  have opt: "nullable (parse_str sha256_hex) (opt_json id (cp_pre c)) = Some (cp_pre c)"
    "nullable (parse_str sha256_hex) (opt_json id (cp_post c)) = Some (cp_post c)"
    "nullable (tc_parse_time tc) (opt_json (tc_time tc) (cp_sealed_at c)) = Some (cp_sealed_at c)"
    "nullable (tc_parse_time tc) (opt_json (tc_time tc) (cp_restored_at c)) = Some (cp_restored_at c)"
    using assms by (auto intro!: nullable_opt_json simp: codec_ok_def checkpoint_valid_def)
  from assms show ?thesis
    by (simp add: parse_checkpoint_def checkpoint_json_def field_or_def field_req_def opt
        codec_ok_def checkpoint_valid_def CHECKPOINT_FIELDS_def)
qed

lemma load_records_json:
  assumes "codec_ok tc" and "\<forall>c \<in> set cps. checkpoint_valid c" and "distinct (map cp_id cps)"
    and "cp_id ` set cps \<inter> seen = {}"
  shows "load_records tc drawn now n seen (map (checkpoint_json tc) cps) = (cps, [])"
  using assms(2-) by (induction cps arbitrary: n seen) (auto simp: parse_checkpoint_json [OF assms(1)])

lemma load_index_document:
  assumes "codec_ok tc" and "\<forall>c \<in> set cps. checkpoint_valid c" and "distinct (map cp_id cps)"
  shows "load_index tc drawn now (DocValue (index_document tc cps))
    = \<lparr>lr_checkpoints = cps, lr_skipped = [], lr_state = STATE_OK\<rparr>"
  using load_records_json [OF assms, of "{}"]
  by (simp add: load_index_def read_document_def index_document_def CHECKPOINT_INDEX_VERSION_def)

text \<open>The dict is keyed by the checkpoints' ids and the file on disk is its dump.\<close>

definition manager_inv :: "text_codec \<Rightarrow> checkpoint_manager \<Rightarrow> bool" where
  "manager_inv tc m \<longleftrightarrow> distinct (map fst (cm_checkpoints m))
     \<and> (\<forall>(k, c) \<in> set (cm_checkpoints m). cp_id c = k \<and> checkpoint_valid c)
     \<and> (cm_index m = DocValue (index_document tc (map snd (cm_checkpoints m)))
        \<or> cm_index m = DocMissing \<and> cm_checkpoints m = [])"

lemma manager_inv_update:
  assumes "manager_inv tc m" and "cp_id c = i" and "checkpoint_valid c"
    and "persist_index tc sf (m\<lparr>cm_checkpoints := AList.update i c (cm_checkpoints m)\<rparr>) = Some m'"
  shows "manager_inv tc m'"
proof -
  have "\<forall>(k, d) \<in> set (AList.update i c (cm_checkpoints m)). cp_id d = k \<and> checkpoint_valid d"
  proof (rule ballI, rule case_prodI2)
    fix kd k d assume "kd \<in> set (AList.update i c (cm_checkpoints m))" "kd = (k, d)"
    then have "(k, d) = (i, c) \<or> (k, d) \<in> set (cm_checkpoints m)"
      by (auto dest: alist_update_in_set)
    with assms(1-3) show "cp_id d = k \<and> checkpoint_valid d" by (auto simp: manager_inv_def)
  qed
  with assms show ?thesis by (auto simp: manager_inv_def persist_index_def split: if_splits)
qed

lemma manager_inv_valid:
  "manager_inv tc m \<Longrightarrow> map_of (cm_checkpoints m) i = Some c \<Longrightarrow> cp_id c = i \<and> checkpoint_valid c"
  by (auto simp: manager_inv_def dest: map_of_SomeD)

lemma snapshot_Some:
  assumes "snapshot env sf m fs p = Some (m1, pre)"
  shows "cm_checkpoints m1 = cm_checkpoints m \<and> cm_index m1 = cm_index m
    \<and> cm_tenant_id m1 = cm_tenant_id m
    \<and> pre = (if fs p = Some DirNode then None else map_option (se_sha256 env) (file_map fs p))"
  using assms
  by (auto simp: snapshot_def file_map_def split: option.splits node.splits if_splits)

lemma alist_delete_fresh: "map_of d i = None \<Longrightarrow> AList.delete i d = d"
  by (induction d) (auto split: if_splits)

lemma begin_inv:
  assumes inv: "manager_inv tc m" and "map_of (cm_checkpoints m) i = None"
    and hex: "\<And>b. sha256_hex (se_sha256 env b)"
    and r: "begin_checkpoint env tc sf i now m fs rel oper denied = (m', res)"
  shows "manager_inv tc m'"
proof (cases "checkpoint_admit env (case denied of None \<Rightarrow> cm_denied m | Some d \<Rightarrow> d) rel")
  case None
  with r inv show ?thesis by (simp add: begin_checkpoint_def)
next
  case (Some p)
  show ?thesis
  proof (cases "fs p = Some DirNode \<or> snapshot env sf m fs p = None")
    case True
    with r inv Some show ?thesis by (auto simp: begin_checkpoint_def split: if_splits)
  next
    case False
    then obtain m1 pre where s: "snapshot env sf m fs p = Some (m1, pre)" by fastforce
    note s' = snapshot_Some [OF s]
    have inv1: "manager_inv tc m1" using inv s' by (simp add: manager_inv_def)
    have valid: "checkpoint_valid (new_checkpoint i t (as_posix p) oper pre now)"
      if "rel_path_ok (as_posix p)" for t
      using that s' hex
      by (cases "file_map fs p") (auto simp: checkpoint_valid_def new_checkpoint_def)
    show ?thesis
    proof (cases "rel_path_ok (as_posix p)")
      case False
      with r inv1 Some s \<open>\<not> (fs p = Some DirNode \<or> snapshot env sf m fs p = None)\<close>
      show ?thesis by (simp add: begin_checkpoint_def)
    next
      case True
      let ?c = "new_checkpoint i (cm_tenant_id m) (as_posix p) oper pre now"
      show ?thesis
      proof (cases "persist_index tc sf (m1\<lparr>cm_checkpoints := AList.update i ?c (cm_checkpoints m1)\<rparr>)")
        case None
        with r inv1 Some s True False have "m' = m1\<lparr>cm_checkpoints := AList.delete i (cm_checkpoints m1)\<rparr>"
          by (simp add: begin_checkpoint_def Let_def)
        moreover have "AList.delete i (cm_checkpoints m1) = cm_checkpoints m1"
          using assms(2) s' by (simp add: alist_delete_fresh)
        ultimately show ?thesis using inv1 by simp
      next
        case (Some m3)
        have "cp_id ?c = i" by (simp add: new_checkpoint_def)
        from manager_inv_update [OF inv1 this valid [OF True] Some]
        show ?thesis
          using r \<open>checkpoint_admit env _ rel = Some p\<close> s True False Some
          by (simp add: begin_checkpoint_def Let_def)
      qed
    qed
  qed
qed

lemma transition_inv:
  assumes "manager_inv tc m" and "pred_option sha256_hex post"
    and "checkpoint_transition tc sf now m i st post = (m', res)"
  shows "manager_inv tc m'"
proof (cases "map_of (cm_checkpoints m) i")
  case None
  with assms show ?thesis by (simp add: checkpoint_transition_def)
next
  case (Some c)
  let ?c = "c\<lparr>cp_state := st, cp_post := post,
    cp_sealed_at := (if st = CP_SEALED then Some now else cp_sealed_at c)\<rparr>"
  show ?thesis
  proof (cases "persist_index tc sf (m\<lparr>cm_checkpoints := AList.update i ?c (cm_checkpoints m)\<rparr>)")
    case None
    with assms Some show ?thesis by (simp add: checkpoint_transition_def Let_def)
  next
    case stored: (Some m1)
    have "cp_id ?c = i" "checkpoint_valid ?c"
      using manager_inv_valid [OF assms(1) Some] assms(2) by (auto simp: checkpoint_valid_def)
    from manager_inv_update [OF assms(1) this stored] assms(3) Some stored show ?thesis
      by (simp add: checkpoint_transition_def Let_def)
  qed
qed

lemma alist_update_same: "map_of d i = Some v \<Longrightarrow> AList.update i v d = d"
  by (induction d) (auto split: if_splits)

lemma restore_manager:
  assumes "restore env tc sf io now m fs i = (m', fs', res)"
  shows "m' = m \<or> (\<exists>c outcome. map_of (cm_checkpoints m) i = Some c
    \<and> m' = fst (restore_done tc sf now m c outcome))"
  using assms
  by (auto simp: restore_def Let_def split: option.splits if_splits)

lemma restore_done_inv:
  assumes inv: "manager_inv tc m" and c: "map_of (cm_checkpoints m) i = Some c"
  shows "manager_inv tc (fst (restore_done tc sf now m c outcome))"
proof -
  note v = manager_inv_valid [OF inv c]
  let ?c = "c\<lparr>cp_state := CP_RESTORED, cp_restored_at := Some now\<rparr>"
  show ?thesis
  proof (cases "persist_index tc sf (m\<lparr>cm_checkpoints := AList.update i ?c (cm_checkpoints m)\<rparr>)")
    case None
    with v inv c show ?thesis by (simp add: restore_done_def alist_update_same)
  next
    case (Some m1)
    have "cp_id ?c = i" "checkpoint_valid ?c" using v by (auto simp: checkpoint_valid_def)
    from manager_inv_update [OF inv this Some] Some v show ?thesis by (simp add: restore_done_def)
  qed
qed

text \<open>
  What happens to a manager: checkpoints open under new ids, close with a content digest or
  none, and are restored, with any faults and any tree at each step.
\<close>

inductive manager_step ::
  "source_env \<Rightarrow> text_codec \<Rightarrow> checkpoint_manager \<Rightarrow> checkpoint_manager \<Rightarrow> bool" for env tc where
  opened: "manager_step env tc m m'"
    if "map_of (cm_checkpoints m) i = None"
      and "begin_checkpoint env tc sf i now m fs rel oper denied = (m', res)"
| sealed: "manager_step env tc m m'"
    if "seal tc sf now m i (map_option (se_sha256 env) content) = (m', res)"
| failed: "manager_step env tc m m'" if "mark_partial tc sf now m i = (m', res)"
| restored: "manager_step env tc m m'" if "restore env tc sf io now m fs i = (m', fs', res1)"

lemma manager_step_inv:
  assumes "manager_step env tc m m'" and "manager_inv tc m" and hex: "\<And>b. sha256_hex (se_sha256 env b)"
  shows "manager_inv tc m'"
  using assms(1)
proof cases
  case opened
  from begin_inv [OF assms(2) opened(1) hex opened(2)] show ?thesis .
next
  case (sealed sf now i content res)
  then show ?thesis
    unfolding seal_def by (rule transition_inv [OF assms(2), rotated]) (cases content, simp_all add: hex)
next
  case (failed sf now i res)
  then show ?thesis
    unfolding mark_partial_def by (rule transition_inv [OF assms(2), rotated]) simp
next
  case (restored sf io now fs i fs' res1)
  from restore_manager [OF restored] assms(2) restore_done_inv show ?thesis by blast
qed

lemma manager_reachable_inv:
  assumes "(manager_step env tc)\<^sup>*\<^sup>* m m'" and "manager_inv tc m"
    and "\<And>b. sha256_hex (se_sha256 env b)"
  shows "manager_inv tc m'"
  using assms(1,2) by (induction rule: rtranclp_induct) (auto intro: manager_step_inv [OF _ _ assms(3)])

lemma foldl_update_dict:
  assumes "distinct (map fst d)" and "\<forall>(k, c) \<in> set d. f c = k"
    and "\<forall>k \<in> fst ` set d. map_of acc k = None"
  shows "foldl (\<lambda>d c. AList.update (f c) c d) acc (map snd d) = acc @ d"
  using assms
proof (induction d arbitrary: acc)
  case (Cons kc d)
  obtain k c where kc: "kc = (k, c)" by (cases kc)
  with Cons.prems have "AList.update (f c) c acc = acc @ [kc]"
    by (simp add: alist_update_fresh map_of_eq_None_iff)
  with Cons.IH [of "acc @ [kc]"] Cons.prems kc show ?case
    by (force simp: map_add_def split: option.splits)
qed simp

text \<open>
  C32. A restart loses no checkpoint: whatever checkpoints were opened, closed and restored,
  and whatever writes of the index failed on the way, reading the index from disk gives back
  exactly the checkpoints the manager holds, with every field, none skipped.
\<close>

theorem restart_loses_no_checkpoint:
  assumes "codec_ok tc" and "\<And>b. sha256_hex (se_sha256 env b)"
    and "(manager_step env tc)\<^sup>*\<^sup>* (new_manager tc drawn0 now0 tenant denied objects DocMissing) m"
  shows "cm_checkpoints (new_manager tc drawn now tenant denied (cm_objects m) (cm_index m))
      = cm_checkpoints m
    \<and> lr_skipped (load_index tc drawn now (cm_index m)) = []"
proof -
  have "manager_inv tc (new_manager tc drawn0 now0 tenant denied objects DocMissing)"
    by (simp add: manager_inv_def new_manager_def load_index_def read_document_def)
  from manager_reachable_inv [OF assms(3) this assms(2)] have inv: "manager_inv tc m" .
  show ?thesis
  proof (cases "cm_index m = DocMissing \<and> cm_checkpoints m = []")
    case True
    then show ?thesis by (simp add: new_manager_def load_index_def read_document_def)
  next
    case False
    with inv have doc: "cm_index m = DocValue (index_document tc (map snd (cm_checkpoints m)))"
      by (auto simp: manager_inv_def)
    have ids: "map cp_id (map snd (cm_checkpoints m)) = map fst (cm_checkpoints m)"
      using inv by (auto simp: manager_inv_def)
    have "load_index tc drawn now (cm_index m)
        = \<lparr>lr_checkpoints = map snd (cm_checkpoints m), lr_skipped = [], lr_state = STATE_OK\<rparr>"
      unfolding doc
    proof (rule load_index_document [OF assms(1)])
      show "\<forall>c \<in> set (map snd (cm_checkpoints m)). checkpoint_valid c"
        using inv by (auto simp: manager_inv_def)
      show "distinct (map cp_id (map snd (cm_checkpoints m)))"
        unfolding ids using inv by (simp add: manager_inv_def)
    qed
    moreover have "foldl (\<lambda>d c. AList.update (cp_id c) c d) [] (map snd (cm_checkpoints m))
        = [] @ cm_checkpoints m"
      by (rule foldl_update_dict) (use inv in \<open>auto simp: manager_inv_def\<close>)
    ultimately show ?thesis by (simp add: new_manager_def)
  qed
qed

section \<open>Undo\<close>

lemma restore_done_sel [simp]:
  "rr_outcome (snd (restore_done tc sf now m c outcome)) = outcome"
  "rr_path (snd (restore_done tc sf now m c outcome)) = cp_path c"
  by (simp_all add: restore_done_def Let_def)

text \<open>What a restore did, case by case.\<close>

lemma restore_cases:
  assumes "restore env tc sf io now m fs i = (m', fs', res)"
  shows "(\<exists>e. res = Inl e \<and> m' = m \<and> file_map fs' = file_map fs)
    \<or> (\<exists>c r. map_of (cm_checkpoints m) i = Some c \<and> res = Inr r \<and> rr_path r = cp_path c
         \<and> (let p = path_parts (cp_path c); current = map_option (se_sha256 env) (file_map fs p)
            in (rr_outcome r = NOOP \<and> current = cp_pre c \<and> fs' = fs)
             \<or> (rr_outcome r = REVERTED \<and> current \<noteq> cp_pre c \<and> current = cp_post c
                \<and> cp_state c \<noteq> CP_PARTIAL
                \<and> (case cp_pre c of
                     None \<Rightarrow> file_map fs' = (file_map fs)(p := None)
                   | Some digest \<Rightarrow> (\<exists>b. get_blob (se_sha256 env) (cm_objects m) digest = Some b
                         \<and> file_map fs' = (file_map fs)(p \<mapsto> b))))))"
proof (cases "map_of (cm_checkpoints m) i")
  case None
  with assms show ?thesis by (auto simp: restore_def)
next
  case (Some c)
  define p where "p = path_parts (cp_path c)"
  define current where "current = map_option (se_sha256 env) (file_map fs p)"
  define done' where "done' = (\<lambda>outcome. restore_done tc sf now m c outcome)"
  have unfold: "restore env tc sf io now m fs i =
    (if sf_read_fails sf \<and> current \<noteq> None then (m, fs, Inl (refuse_restore CP_IO_ERROR c))
     else if current = cp_pre c then (fst (done' NOOP), fs, Inr (snd (done' NOOP)))
     else if cp_state c = CP_PARTIAL \<or> current \<noteq> cp_post c
     then (m, fs, Inl (refuse_restore CHECKPOINT_CONFLICT c))
     else case cp_pre c of
        None \<Rightarrow>
          if io_unlink_fails io then (m, fs, Inl (refuse_restore CP_IO_ERROR c))
          else (fst (done' REVERTED), fs(p := None), Inr (snd (done' REVERTED)))
      | Some digest \<Rightarrow>
         (case get_blob (se_sha256 env) (cm_objects m) digest of
            None \<Rightarrow> (m, fs, Inl (refuse_restore OBJECT_STORE_CORRUPT c))
          | Some b \<Rightarrow>
             (case make_dirs io fs (butlast p) of
                None \<Rightarrow> (m, fs, Inl (refuse_restore CP_IO_ERROR c))
              | Some fs1 \<Rightarrow>
                 (case atomic_write io fs1 p b of
                    None \<Rightarrow> (m, fs1, Inl (refuse_restore CP_IO_ERROR c))
                  | Some fs2 \<Rightarrow> (fst (done' REVERTED), fs2, Inr (snd (done' REVERTED)))))))"
    by (simp only: restore_def Some option.case Let_def p_def current_def file_map_def done'_def)
  have wrote: "file_map fs2 = (file_map fs)(p \<mapsto> b)"
    if "make_dirs io fs (butlast p) = Some fs1" "atomic_write io fs1 p b = Some fs2" for fs1 fs2 b
    using make_dirs_files(1) [OF that(1)] that(2) by (simp add: atomic_write_Some)
  have dirs: "file_map fs1 = file_map fs" if "make_dirs io fs (butlast p) = Some fs1" for fs1
    by (rule make_dirs_files(1) [OF that])
  have sel: "rr_outcome (snd (done' x)) = x" "rr_path (snd (done' x)) = cp_path c" for x
    by (simp_all add: done'_def)
  show ?thesis
    using assms unfolding unfold
    by (auto simp: Some Let_def sel dirs wrote simp flip: p_def current_def
        split: if_splits option.splits)
qed

text \<open>
  C33. Undo never clobbers: a restore that refuses leaves every file as it was, and one that
  succeeds leaves, at the checkpoint's path and nowhere else, exactly the content (or the
  absence) whose digest the checkpoint recorded before the write, and it replaces only
  content the write itself left there.
\<close>

theorem restore_never_clobbers:
  assumes "restore env tc sf io now m fs i = (m', fs', res)"
  shows "case res of
      Inl e \<Rightarrow> file_map fs' = file_map fs
    | Inr r \<Rightarrow> \<exists>c. map_of (cm_checkpoints m) i = Some c
        \<and> (\<forall>q. q \<noteq> path_parts (cp_path c) \<longrightarrow> file_map fs' q = file_map fs q)
        \<and> map_option (se_sha256 env) (file_map fs' (path_parts (cp_path c))) = cp_pre c
        \<and> (file_map fs' = file_map fs
           \<or> map_option (se_sha256 env) (file_map fs (path_parts (cp_path c))) = cp_post c
             \<and> cp_state c \<noteq> CP_PARTIAL)"
  using restore_cases [OF assms]
proof (elim disjE exE conjE)
  fix e assume "res = Inl e" "file_map fs' = file_map fs"
  then show ?thesis by simp
next
  fix c r
  assume c: "map_of (cm_checkpoints m) i = Some c" and r: "res = Inr r"
    and wrote: "let p = path_parts (cp_path c); current = map_option (se_sha256 env) (file_map fs p)
            in (rr_outcome r = NOOP \<and> current = cp_pre c \<and> fs' = fs)
             \<or> (rr_outcome r = REVERTED \<and> current \<noteq> cp_pre c \<and> current = cp_post c
                \<and> cp_state c \<noteq> CP_PARTIAL
                \<and> (case cp_pre c of
                     None \<Rightarrow> file_map fs' = (file_map fs)(p := None)
                   | Some digest \<Rightarrow> (\<exists>b. get_blob (se_sha256 env) (cm_objects m) digest = Some b
                         \<and> file_map fs' = (file_map fs)(p \<mapsto> b))))"
  from wrote c r show ?thesis
    by (auto simp: Let_def get_blob_def split: option.splits if_splits)
qed

lemma path_parts_as_posix:
  assumes "p \<noteq> []" and "\<forall>x \<in> set p. x \<noteq> [] \<and> x \<noteq> ''.'' \<and> CHR ''/'' \<notin> set x"
  shows "path_parts (as_posix p) = p"
  using assms by (simp add: path_parts_def as_posix_def split_on_join filter_id_conv)

text \<open>No file stands where a directory on the way to another node should be.\<close>

definition tree_ok :: "files \<Rightarrow> bool" where
  "tree_ok fs \<longleftrightarrow> (\<forall>p q. file_map fs p \<noteq> None \<and> strict_prefix p q \<longrightarrow> fs q = None)"

lemma put_blob_stored:
  assumes "put_blob sha fails objects b = Some objects'"
  shows "\<exists>b'. objects' (sha b) = Some b' \<and> sha b' = sha b \<and> (b' = b \<or> objects (sha b) = Some b')"
  using assms by (auto simp: put_blob_def split: option.splits if_splits)

lemma begin_ok:
  assumes "begin_checkpoint env tc sf i now m fs rel oper (Some denied) = (m1, Inr c)"
  shows "\<exists>p. checkpoint_admit env denied rel = Some p \<and> fs p \<noteq> Some DirNode
    \<and> c = new_checkpoint i (cm_tenant_id m) (as_posix p) oper
            (map_option (se_sha256 env) (file_map fs p)) now
    \<and> map_of (cm_checkpoints m1) i = Some c
    \<and> (\<forall>a. file_map fs p = Some a \<longrightarrow>
        (\<exists>a'. cm_objects m1 (se_sha256 env a) = Some a' \<and> se_sha256 env a' = se_sha256 env a
           \<and> (a' = a \<or> cm_objects m (se_sha256 env a) = Some a')))"
proof -
  from assms obtain p where p: "checkpoint_admit env denied rel = Some p"
    by (auto simp: begin_checkpoint_def split: option.splits)
  with assms have dir: "fs p \<noteq> Some DirNode" by (auto simp: begin_checkpoint_def)
  with assms p obtain m0 pre where s: "snapshot env sf m fs p = Some (m0, pre)"
    by (cases "snapshot env sf m fs p") (auto simp: begin_checkpoint_def)
  from assms p dir s have ok: "rel_path_ok (as_posix p)"
    by (auto simp: begin_checkpoint_def split: if_splits)
  let ?c = "new_checkpoint i (cm_tenant_id m) (as_posix p) oper pre now"
  from assms p dir s ok have c: "c = ?c" and m1:
      "persist_index tc sf (m0\<lparr>cm_checkpoints := AList.update i ?c (cm_checkpoints m0)\<rparr>) = Some m1"
    by (auto simp: begin_checkpoint_def Let_def split: option.splits)
  have sel: "map_of (cm_checkpoints m1) i = Some c" "cm_objects m1 = cm_objects m0"
    using m1 c by (auto simp: persist_index_def split: if_splits)
  have "\<exists>a'. cm_objects m0 (se_sha256 env a) = Some a' \<and> se_sha256 env a' = se_sha256 env a
           \<and> (a' = a \<or> cm_objects m (se_sha256 env a) = Some a')"
    if "file_map fs p = Some a" for a
    using s that put_blob_stored
    by (fastforce simp: snapshot_def file_map_Some split: if_splits)
  with p dir c sel snapshot_Some [OF s] show ?thesis by auto
qed

lemma seal_ok:
  assumes "seal tc sf now m i post = (m', Inr c')" and "map_of (cm_checkpoints m) i = Some c"
  shows "map_of (cm_checkpoints m') i
      = Some (c\<lparr>cp_state := CP_SEALED, cp_post := post, cp_sealed_at := Some now\<rparr>)
    \<and> cm_objects m' = cm_objects m"
  using assms
  by (auto simp: seal_def checkpoint_transition_def persist_index_def Let_def split: if_splits)

lemma checkpointed_write_ok:
  assumes "checkpointed_write env tc sf io sf' i now m w fs arguments
      = (m', w', fs', Inr (Written (Inr d) (Some j)))"
  shows "\<exists>q m1 c c'. parse_request arguments = Some q
    \<and> begin_checkpoint env tc sf i now m fs (wq_path q) (wq_op q) (Some (sw_denied w)) = (m1, Inr c)
    \<and> source_write env io w fs (wq_op q) (wq_path q) (wq_content q) (wq_expected q) = (w', fs', Inr d)
    \<and> seal tc sf' now m1 (cp_id c) (wd_sha256 d) = (m', Inr c') \<and> j = cp_id c"
  using assms
  by (auto simp: checkpointed_write_def Let_def
      split: option.splits prod.splits sum.splits checkpoint_exception.splits if_splits)

definition no_store_faults :: store_faults where
  "no_store_faults = \<lparr>sf_snapshot_fails = False, sf_index_fails = False, sf_read_fails = False\<rparr>"

lemma restore_goes_through:
  assumes "map_of (cm_checkpoints m) i = Some c" and "cp_state c \<noteq> CP_PARTIAL"
    and "map_option (se_sha256 env) (file_map fs (path_parts (cp_path c))) = cp_post c"
    and "\<And>digest. cp_pre c = Some digest \<Longrightarrow> get_blob (se_sha256 env) (cm_objects m) digest \<noteq> None
          \<and> \<not> blocked_by_file fs (butlast (path_parts (cp_path c)))
          \<and> fs (path_parts (cp_path c)) \<noteq> Some DirNode \<and> path_parts (cp_path c) \<noteq> []"
  shows "is_ok (snd (snd (restore env tc no_store_faults no_faults now m fs i)))"
proof (cases "map_option (se_sha256 env) (file_map fs (path_parts (cp_path c))) = cp_pre c")
  case True
  with assms(1) show ?thesis
    by (simp add: restore_def file_map_def no_store_faults_def Let_def)
next
  case False
  note simps = restore_def no_store_faults_def no_faults_def Let_def file_map_def [symmetric]
    assms(1,2,3) False assms(3) [symmetric]
  show ?thesis
  proof (cases "cp_pre c")
    case None
    with False assms show ?thesis
      by (simp add: restore_def no_store_faults_def no_faults_def Let_def file_map_def)
  next
    case (Some digest)
    let ?p = "path_parts (cp_path c)"
    obtain b where b: "get_blob (se_sha256 env) (cm_objects m) digest = Some b"
      and ok: "\<not> blocked_by_file fs (butlast ?p)" "fs ?p \<noteq> Some DirNode" "?p \<noteq> []"
      using assms(4) [OF Some] by auto
    obtain fs1 where fs1: "make_dirs no_faults fs (butlast ?p) = Some fs1"
      using ok by (auto simp: make_dirs_def no_faults_def)
    have "length (butlast ?p) < length ?p" using ok(3) by simp
    then have "\<not> prefix ?p (butlast ?p)" by (meson not_less prefix_length_le)
    then have "fs1 ?p = fs ?p" by (rule make_dirs_files(3) [OF fs1])
    then obtain fs2 where fs2: "atomic_write no_faults fs1 ?p b = Some fs2"
      using ok(2) by (auto simp: atomic_write_def no_faults_def)
    from False assms Some b fs1 fs2 show ?thesis
      by (simp add: restore_def no_store_faults_def Let_def file_map_def)
  qed
qed

lemma digest_inj:
  assumes "inj_on sha S" and "x \<in> Some ` S \<union> {None}" and "y \<in> Some ` S \<union> {None}"
    and "map_option sha x = map_option sha y"
  shows "x = y"
  using assms by (cases x; cases y) (auto dest: inj_onD)

text \<open>
  C34. A checkpointed write can be undone: after a write that returned a checkpoint, restoring
  that checkpoint, when nothing else happened and the disk works, succeeds and puts every file
  back exactly as it was, whatever the operation was (what it created is deleted, what it
  overwrote or deleted returns).  The digest is assumed not to collide on the contents at hand.
\<close>

theorem undo_restores_the_files:
  assumes w: "checkpointed_write env tc sf io sf' i now m w fs arguments
      = (m1, w1, fs1, Inr (Written (Inr d) (Some j)))"
    and r: "restore env tc no_store_faults no_faults now' m1 fs1 j = (m2, fs2, res)"
    and resolve: "\<And>s p. se_resolve env s = Some p \<Longrightarrow>
          \<forall>x \<in> set p. x \<noteq> [] \<and> x \<noteq> ''.'' \<and> CHR ''/'' \<notin> set x"
    and hex: "\<And>b. sha256_hex (se_sha256 env b)"
    and tree: "tree_ok fs"
    and inj: "inj_on (se_sha256 env) S" "ran (file_map fs) \<union> ran (file_map fs1) \<union> ran (cm_objects m) \<subseteq> S"
  shows "is_ok res \<and> file_map fs2 = file_map fs"
proof -
  from checkpointed_write_ok [OF w] obtain q :: write_request and m0 and c c' :: checkpoint where q:
      "begin_checkpoint env tc sf i now m fs (wq_path q) (wq_op q) (Some (sw_denied w)) = (m0, Inr c)"
      "source_write env io w fs (wq_op q) (wq_path q) (wq_content q) (wq_expected q) = (w1, fs1, Inr d)"
      "seal tc sf' now m0 (cp_id c) (wd_sha256 d) = (m1, Inr c')" "j = cp_id c"
    by blast
  from begin_ok [OF q(1)] obtain p where p: "checkpoint_admit env (sw_denied w) (wq_path q) = Some p"
      "fs p \<noteq> Some DirNode"
      "c = new_checkpoint i (cm_tenant_id m) (as_posix p) (wq_op q)
             (map_option (se_sha256 env) (file_map fs p)) now"
      "map_of (cm_checkpoints m0) i = Some c"
      "\<And>a. file_map fs p = Some a \<Longrightarrow> \<exists>a'. cm_objects m0 (se_sha256 env a) = Some a'
         \<and> se_sha256 env a' = se_sha256 env a \<and> (a' = a \<or> cm_objects m (se_sha256 env a) = Some a')"
    by blast
  have resolved: "se_resolve env (wq_path q) = Some p" "p \<noteq> []"
    using p(1) by (auto simp: checkpoint_admit_def split: option.splits if_splits)
  have clean: "path_parts (as_posix p) = p"
    by (rule path_parts_as_posix [OF resolved(2) resolve [OF resolved(1)]])
  have jid: "j = i" using q(4) p(3) by (simp add: new_checkpoint_def)
  define cc where "cc = c\<lparr>cp_state := CP_SEALED, cp_post := wd_sha256 d, cp_sealed_at := Some now\<rparr>"
  have m1: "map_of (cm_checkpoints m1) i = Some cc" "cm_objects m1 = cm_objects m0"
    using seal_ok [OF q(3)] p(4) q(4) jid by (simp_all add: cc_def)
  have cc: "path_parts (cp_path cc) = p" "cp_pre cc = map_option (se_sha256 env) (file_map fs p)"
      "cp_post cc = wd_sha256 d" "cp_state cc = CP_SEALED"
    using p(3) clean by (simp_all add: cc_def new_checkpoint_def)
  from source_write_cases [OF q(2)] obtain p2 where "writer_admit env w (wq_path q) = Inr p2"
      and wr2: "written env w fs (wq_op q) p2 (wq_content q) (wq_expected q) fs1 d" by auto
  with resolved(1) have wr: "written env w fs (wq_op q) p (wq_content q) (wq_expected q) fs1 d"
    by (auto simp: writer_admit_def split: if_splits)
  have off: "file_map fs1 x = file_map fs x" if "x \<noteq> p" for x
    using wr that by (cases "wq_op q") (auto simp: written_def)
  have post: "map_option (se_sha256 env) (file_map fs1 p) = wd_sha256 d"
    using wr by (cases "wq_op q") (auto simp: written_def)
  have not_dir: "fs1 p \<noteq> Some DirNode" if "file_map fs p \<noteq> None"
    using wr that by (cases "wq_op q") (auto simp: written_def file_map_def)
  have blob: "get_blob (se_sha256 env) (cm_objects m1) (se_sha256 env a) = Some a"
    if a: "file_map fs p = Some a" for a
  proof -
    from p(5) [OF a] obtain a' where a': "cm_objects m0 (se_sha256 env a) = Some a'"
        "se_sha256 env a' = se_sha256 env a" "a' = a \<or> cm_objects m (se_sha256 env a) = Some a'"
      by blast
    have "a' \<in> S" "a \<in> S" using a a'(3) inj(2) by (auto simp: ran_def)
    with a'(2) inj(1) have "a' = a" by (auto dest: inj_onD)
    with a'(1) m1(2) hex show ?thesis by (simp add: get_blob_def)
  qed
  have unblocked: "\<not> blocked_by_file fs1 (butlast p)" if "file_map fs p \<noteq> None"
  proof
    assume "blocked_by_file fs1 (butlast p)"
    then obtain x where x: "prefix x (butlast p)" "file_map fs1 x \<noteq> None"
      by (auto simp: blocked_by_file_def list_ex_iff file_map_def)
    have "strict_prefix x p"
      using x(1) resolved(2) by (metis append_butlast_last_id prefix_order.le_less_trans strict_prefixI' )
    moreover from this have "file_map fs x \<noteq> None" using x(2) off by fastforce
    ultimately have "fs p = None" using tree by (auto simp: tree_ok_def)
    with that show False by (simp add: file_map_def)
  qed
  have ok: "is_ok res"
  proof -
    have "is_ok (snd (snd (restore env tc no_store_faults no_faults now' m1 fs1 i)))"
    proof (rule restore_goes_through [OF m1(1)])
      fix digest assume "cp_pre cc = Some digest"
      then obtain a where "file_map fs p = Some a" "digest = se_sha256 env a" using cc by auto
      with blob unblocked not_dir resolved(2) show "get_blob (se_sha256 env) (cm_objects m1) digest \<noteq> None
          \<and> \<not> blocked_by_file fs1 (butlast (path_parts (cp_path cc)))
          \<and> fs1 (path_parts (cp_path cc)) \<noteq> Some DirNode \<and> path_parts (cp_path cc) \<noteq> []"
        by (simp add: cc)
    qed (use cc post in simp_all)
    with r jid show ?thesis by simp
  qed
  have mem: "file_map fs x \<in> Some ` S \<union> {None}" "file_map fs1 x \<in> Some ` S \<union> {None}" for x
  proof -
    have "file_map fs x = Some a \<Longrightarrow> a \<in> S" "file_map fs1 x = Some a \<Longrightarrow> a \<in> S" for a
      using inj(2) by (auto simp: ran_def)
    then show "file_map fs x \<in> Some ` S \<union> {None}" "file_map fs1 x \<in> Some ` S \<union> {None}"
      by (cases "file_map fs x", simp_all) (cases "file_map fs1 x", simp_all)
  qed
  have all: "file_map fs2 = file_map fs" if "file_map fs2 p = file_map fs p"
      "\<And>x. x \<noteq> p \<Longrightarrow> file_map fs2 x = file_map fs1 x"
    using that off by (metis ext)
  from restore_cases [OF r [unfolded jid]] ok
  have "(map_option (se_sha256 env) (file_map fs1 p) = cp_pre cc \<and> fs2 = fs1)
     \<or> (case cp_pre cc of
          None \<Rightarrow> file_map fs2 = (file_map fs1)(p := None)
        | Some digest \<Rightarrow> (\<exists>b. get_blob (se_sha256 env) (cm_objects m1) digest = Some b
              \<and> file_map fs2 = (file_map fs1)(p \<mapsto> b)))"
    unfolding m1(1) Let_def using cc(1) by fastforce
  then have "file_map fs2 = file_map fs"
  proof (elim disjE conjE)
    assume "map_option (se_sha256 env) (file_map fs1 p) = cp_pre cc" and fs2: "fs2 = fs1"
    then have "file_map fs1 p = file_map fs p"
      using digest_inj [OF inj(1) mem(2) mem(1)] cc(2) by simp
    with fs2 all show ?thesis by simp
  next
    assume a: "case cp_pre cc of
          None \<Rightarrow> file_map fs2 = (file_map fs1)(p := None)
        | Some digest \<Rightarrow> (\<exists>b. get_blob (se_sha256 env) (cm_objects m1) digest = Some b
              \<and> file_map fs2 = (file_map fs1)(p \<mapsto> b))"
    show ?thesis
    proof (rule all)
      show "file_map fs2 p = file_map fs p"
        using a cc(2) blob by (cases "file_map fs p") auto
      show "file_map fs2 x = file_map fs1 x" if "x \<noteq> p" for x
        using a that by (auto split: option.splits)
    qed
  qed
  with ok show ?thesis by simp
qed

text \<open>
  When the write went through but its checkpoint cannot be closed, the exception leaves the
  handler, the file is changed, and the open checkpoint refuses to undo it.
\<close>

lemma seal_failure_strands_the_write:
  assumes "parse_request arguments = Some q"
    and "begin_checkpoint env tc sf i now m fs (wq_path q) (wq_op q) (Some (sw_denied w)) = (m1, Inr c)"
    and "source_write env io w fs (wq_op q) (wq_path q) (wq_content q) (wq_expected q) = (w', fs', Inr d)"
    and "sf_index_fails sf'"
  shows "checkpointed_write env tc sf io sf' i now m w fs arguments
      = (m1, w', fs', Inl (CheckpointRefused CP_IO_ERROR))"
    and "map_option (se_sha256 env) (file_map fs' (path_parts (cp_path c))) \<noteq> cp_pre c \<Longrightarrow>
      file_map fs' (path_parts (cp_path c)) \<noteq> None \<Longrightarrow>
      restore env tc no_store_faults no_faults now' m1 fs' i
        = (m1, fs', Inl (refuse_restore CHECKPOINT_CONFLICT c))"
proof -
  have i: "map_of (cm_checkpoints m1) i = Some c" "cp_id c = i" "cp_post c = None"
    using begin_ok [OF assms(2)] by (auto simp: new_checkpoint_def)
  show "checkpointed_write env tc sf io sf' i now m w fs arguments
      = (m1, w', fs', Inl (CheckpointRefused CP_IO_ERROR))"
    using assms i
    by (simp add: checkpointed_write_def seal_def checkpoint_transition_def persist_index_def Let_def)
  show "restore env tc no_store_faults no_faults now' m1 fs' i
        = (m1, fs', Inl (refuse_restore CHECKPOINT_CONFLICT c))"
    if "map_option (se_sha256 env) (file_map fs' (path_parts (cp_path c))) \<noteq> cp_pre c"
      "file_map fs' (path_parts (cp_path c)) \<noteq> None"
    using that i by (simp add: restore_def no_store_faults_def Let_def file_map_def)
qed

section \<open>Examples\<close>

definition ex_sha :: "string \<Rightarrow> string" where
  "ex_sha b = replicate 64 (if b = ''x'' then CHR ''1'' else if b = ''y'' then CHR ''2'' else CHR ''0'')"

definition ex_undo_env :: source_env where
  "ex_undo_env = ex_source_env\<lparr>se_sha256 := ex_sha\<rparr>"

text \<open>A codec whose texts are unary numbers.\<close>

definition ex_parse_nat :: "json \<Rightarrow> nat option" where
  "ex_parse_nat v = (case v of JStr s \<Rightarrow> Some (length s) | _ \<Rightarrow> None)"

definition ex_codec :: text_codec where
  "ex_codec = \<lparr>tc_uuid = (\<lambda>n. replicate n CHR ''1''), tc_parse_uuid = ex_parse_nat,
     tc_time = (\<lambda>t. (if t < 0 then CHR ''-'' else CHR ''+'') # replicate (nat \<bar>t\<bar>) CHR ''1''),
     tc_parse_time = (\<lambda>v. case v of
        JStr (c # s) \<Rightarrow> Some (if c = CHR ''-'' then - int (length s) else int (length s))
      | _ \<Rightarrow> None)\<rparr>"

definition ex_manager :: checkpoint_manager where
  "ex_manager = new_manager ex_codec id 0 3 DEFAULT_DENIED_PATTERNS Map.empty DocMissing"

definition ex_arguments :: json_object where
  "ex_arguments = [(''op'', JStr ''overwrite''), (''path'', JStr ''a/b''), (''content'', JStr ''new''),
     (''expected_sha256'', JStr (ex_sha ''x''))]"

definition ex_written :: "checkpoint_manager \<times> source_writer \<times> files \<times> (checkpoint_exception + write_answer)" where
  "ex_written = checkpointed_write ex_undo_env ex_codec no_store_faults no_faults no_store_faults 5 10
     ex_manager ex_writer ex_tree ex_arguments"

lemma codec_ok_ex: "codec_ok ex_codec"
  by (auto simp: codec_ok_def ex_codec_def ex_parse_nat_def)

lemma ex_sha_hex: "sha256_hex (ex_sha b)"
  by (simp add: sha256_hex_def ex_sha_def list_all_iff set_replicate_conv_if is_digit_def code_point_def)

lemma ex_undo_sel [simp]:
  "se_sha256 ex_undo_env = ex_sha" "se_resolve ex_undo_env s = Some (path_parts s)"
  by (simp_all add: ex_undo_env_def ex_source_env_def)

lemma no_faults_sel [simp]:
  "sf_snapshot_fails no_store_faults = False" "sf_index_fails no_store_faults = False"
  "sf_read_fails no_store_faults = False" "io_read_fails no_faults = False"
  "io_write_fails no_faults = False" "io_mkdir_fails no_faults = False"
  "io_unlink_fails no_faults = False"
  by (simp_all add: no_store_faults_def no_faults_def)

lemma ex_manager_sel [simp]: "cm_checkpoints ex_manager = []" "cm_objects ex_manager = Map.empty"
  by (simp_all add: ex_manager_def new_manager_def load_index_def read_document_def)

lemma ex_writer_sel [simp]:
  "sw_max_ops ex_writer = 2" "sw_ops_used ex_writer = 0" "sw_max_write_bytes ex_writer = 8"
  by (simp_all add: ex_writer_def)

lemma ex_request: "parse_request ex_arguments = Some \<lparr>wq_op = OP_OVERWRITE, wq_path = ''a/b'',
    wq_content = Some ''new'', wq_expected = Some (ex_sha ''x'')\<rparr>"
  by (simp add: parse_request_def ex_arguments_def field_req_def field_or_def parse_op_def
      rel_path_ok_def ex_sha_hex)

lemma ex_admissions:
  "checkpoint_admit ex_undo_env (sw_denied ex_writer) ''a/b'' = Some [''a'', ''b'']"
  "writer_admit ex_undo_env ex_writer ''a/b'' = Inr [''a'', ''b'']"
  "as_posix [''a'', ''b''] = ''a/b''" "utf8 ''new'' = ''new''"
  by code_simp+

lemma ex_written_is:
  "\<exists>m1 w1 d. ex_written
     = (m1, w1, ex_tree([''a'', ''b''] \<mapsto> FileNode ''new''), Inr (Written (Inr d) (Some 5)))"
proof -
  have "ex_tree [''a'', ''b''] = Some (FileNode ''x'')" by (simp add: ex_tree_def)
  then show ?thesis
    by (simp add: ex_written_def checkpointed_write_def ex_request begin_checkpoint_def ex_admissions
        snapshot_def put_blob_def rel_path_ok_def persist_index_def Let_def new_checkpoint_def
        source_write_def perform_write_def write_payload_def existing_digest_def atomic_write_def
        seal_def checkpoint_transition_def)
qed

lemma ex_tree_ok: "tree_ok ex_tree"
  by (auto simp: tree_ok_def ex_tree_def file_map_def strict_prefix_def prefix_def split: if_splits)

theorem undo_restores_the_files_witness:
  "\<exists>fs2. fst (snd (restore ex_undo_env ex_codec no_store_faults no_faults 20 (fst ex_written)
      (fst (snd (snd ex_written))) 5)) = fs2
    \<and> file_map fs2 [''a'', ''b''] = Some ''x'' \<and> file_map fs2 [''a-b''] = Some ''y''"
proof -
  define fs1 where "fs1 = ex_tree([''a'', ''b''] \<mapsto> FileNode ''new'')"
  obtain m1 w1 d where e: "ex_written = (m1, w1, fs1, Inr (Written (Inr d) (Some 5)))"
    using ex_written_is unfolding fs1_def by blast
  obtain m2 fs2 res where r: "restore ex_undo_env ex_codec no_store_faults no_faults 20 m1 fs1 5
      = (m2, fs2, res)" by (cases "restore ex_undo_env ex_codec no_store_faults no_faults 20 m1 fs1 5")
  have resolve: "\<forall>x \<in> set p. x \<noteq> [] \<and> x \<noteq> ''.'' \<and> CHR ''/'' \<notin> set x"
    if "se_resolve ex_undo_env s = Some p" for s p
    using that split_on_free by (auto simp: path_parts_def)
  have "file_map fs1 = (file_map ex_tree)([''a'', ''b''] \<mapsto> ''new'')" by (simp add: fs1_def)
  then have contents: "ran (file_map ex_tree) \<union> ran (file_map fs1) \<union> ran (cm_objects ex_manager)
      \<subseteq> {''x'', ''y'', ''new''}"
    by (auto simp: ran_def file_map_def ex_tree_def ex_manager_def new_manager_def split: if_splits)
  have inj: "inj_on ex_sha {''x'', ''y'', ''new''}"
  proof (rule inj_onI)
    fix a b assume ab: "a \<in> {''x'', ''y'', ''new''}" "b \<in> {''x'', ''y'', ''new''}" "ex_sha a = ex_sha b"
    from ab(3) have "hd (ex_sha a) = hd (ex_sha b)" by simp
    with ab(1,2) show "a = b" by (auto simp: ex_sha_def)
  qed
  have "is_ok res \<and> file_map fs2 = file_map ex_tree"
  proof (rule undo_restores_the_files [OF _ r resolve _ ex_tree_ok])
    show "checkpointed_write ex_undo_env ex_codec no_store_faults no_faults no_store_faults 5 10
        ex_manager ex_writer ex_tree ex_arguments = (m1, w1, fs1, Inr (Written (Inr d) (Some 5)))"
      using e by (simp add: ex_written_def)
    show "inj_on (se_sha256 ex_undo_env) {''x'', ''y'', ''new''}" using inj by simp
  qed (use contents ex_sha_hex in simp_all)
  moreover have "file_map ex_tree [''a'', ''b''] = Some ''x''" "file_map ex_tree [''a-b''] = Some ''y''"
    by (simp_all add: file_map_def ex_tree_def)
  ultimately show ?thesis unfolding e fst_conv snd_conv r by auto
qed

definition ex_opened :: checkpoint_manager where
  "ex_opened = fst (begin_checkpoint ex_undo_env ex_codec no_store_faults 5 10 ex_manager ex_tree
     ''a/b'' OP_OVERWRITE None)"

theorem restart_loses_no_checkpoint_witness:
  "length (cm_checkpoints ex_opened) = 1
   \<and> cm_checkpoints (new_manager ex_codec id 50 3 DEFAULT_DENIED_PATTERNS (cm_objects ex_opened)
       (cm_index ex_opened)) = cm_checkpoints ex_opened"
proof -
  have "manager_step ex_undo_env ex_codec ex_manager ex_opened"
    by (rule manager_step.opened [where i = 5 and sf = no_store_faults and now = 10 and fs = ex_tree
          and rel = "''a/b''" and oper = OP_OVERWRITE and denied = None
          and res = "snd (begin_checkpoint ex_undo_env ex_codec no_store_faults 5 10 ex_manager ex_tree
            ''a/b'' OP_OVERWRITE None)"])
      (simp_all add: ex_opened_def)
  then have reach: "(manager_step ex_undo_env ex_codec)\<^sup>*\<^sup>*
      (new_manager ex_codec id 0 3 DEFAULT_DENIED_PATTERNS Map.empty DocMissing) ex_opened"
    unfolding ex_manager_def by (rule r_into_rtranclp)
  have hex: "sha256_hex (se_sha256 ex_undo_env b)" for b by (simp add: ex_sha_hex)
  have "ex_tree [''a'', ''b''] = Some (FileNode ''x'')" by (simp add: ex_tree_def)
  moreover have "checkpoint_admit ex_undo_env (cm_denied ex_manager) ''a/b'' = Some [''a'', ''b'']"
    using ex_admissions(1) by (simp add: ex_manager_def new_manager_def ex_writer_def)
  ultimately have "length (cm_checkpoints ex_opened) = 1"
    by (simp add: ex_opened_def begin_checkpoint_def snapshot_def put_blob_def rel_path_ok_def
        ex_admissions persist_index_def Let_def)
  with restart_loses_no_checkpoint [OF codec_ok_ex hex reach, of id 50] show ?thesis by blast
qed

theorem restore_never_clobbers_witness:
  "file_map (fst (snd (restore ex_undo_env ex_codec no_store_faults no_faults 20 ex_manager ex_tree 9)))
     = file_map ex_tree"
proof -
  have r: "restore ex_undo_env ex_codec no_store_faults no_faults 20 ex_manager ex_tree 9
      = (ex_manager, ex_tree, Inl \<lparr>cr_code = CHECKPOINT_UNKNOWN, cr_id = Some 9, cr_path = None\<rparr>)"
    by (simp add: restore_def)
  from restore_never_clobbers [OF r] show ?thesis unfolding r by simp
qed

end
