(* ===== verification/Workspace_Files.thy ===== *)
theory Workspace_Files
  imports Source_Files Learning_Gates
begin

text \<open>
  The object store of \<open>core/storage\<close> and the workspace files of \<open>core/workspace/files.py\<close>
  over it.  The storage port is the locale \<open>object_store\<close>, whose laws the in-memory binding
  satisfies; the workspace lemmas are proved from the laws.  Lemma: workspaces are separate
  maps from path to bytes, whatever store is behind them.
\<close>

section \<open>Object storage\<close>

record stored_object =
  so_tenant_id :: uuid
  so_key :: string
  so_size_bytes :: nat
  so_content_type :: string
  so_created_at :: timestamp

datatype storage_error = ObjectNotFound string | EmptyKey

type_synonym object_storage = "((uuid \<times> string) \<times> stored_object \<times> string) list"

definition object_put ::
  "timestamp \<Rightarrow> object_storage \<Rightarrow> uuid \<Rightarrow> string \<Rightarrow> string \<Rightarrow> string
     \<Rightarrow> object_storage \<times> (storage_error + stored_object)" where
  "object_put now s tenant key bytes content_type =
     (if key = [] then (s, Inl EmptyKey)
      else let meta = \<lparr>so_tenant_id = tenant, so_key = key, so_size_bytes = length bytes,
                       so_content_type = content_type, so_created_at = now\<rparr>
           in (AList.update (tenant, key) (meta, bytes) s, Inr meta))"

definition object_get :: "object_storage \<Rightarrow> uuid \<Rightarrow> string \<Rightarrow> storage_error + string" where
  "object_get s tenant key =
     (case map_of s (tenant, key) of None \<Rightarrow> Inl (ObjectNotFound key) | Some e \<Rightarrow> Inr (snd e))"

definition object_head :: "object_storage \<Rightarrow> uuid \<Rightarrow> string \<Rightarrow> storage_error + stored_object" where
  "object_head s tenant key =
     (case map_of s (tenant, key) of None \<Rightarrow> Inl (ObjectNotFound key) | Some e \<Rightarrow> Inr (fst e))"

definition object_delete ::
  "object_storage \<Rightarrow> uuid \<Rightarrow> string \<Rightarrow> object_storage \<times> (storage_error + unit)" where
  "object_delete s tenant key =
     (case map_of s (tenant, key) of
        None \<Rightarrow> (s, Inl (ObjectNotFound key))
      | Some _ \<Rightarrow> (AList.delete (tenant, key) s, Inr ()))"

definition list_keys :: "object_storage \<Rightarrow> uuid \<Rightarrow> string \<Rightarrow> string list" where
  "list_keys s tenant pre =
     sort (map (snd \<circ> fst) (filter (\<lambda>e. fst (fst e) = tenant \<and> startswith (snd (fst e)) pre) s))"

section \<open>Workspace paths\<close>

datatype path_fault =
  PathEmpty | PathAbsolute | PathBackslash | PathControl | SegmentEmpty | SegmentDots string

definition control_char :: "char \<Rightarrow> bool" where
  "control_char c \<longleftrightarrow> code_point c < 32 \<or> code_point c = 127"

fun segment_fault :: "string list \<Rightarrow> path_fault option" where
  "segment_fault [] = None"
| "segment_fault (x # xs) =
     (if x = [] then Some SegmentEmpty
      else if x = ''.'' \<or> x = ''..'' then Some (SegmentDots x) else segment_fault xs)"

definition validate_path :: "string \<Rightarrow> path_fault option" where
  "validate_path s =
     (if s = [] then Some PathEmpty
      else if startswith s ''/'' then Some PathAbsolute
      else if CHR 0x5C \<in> set s then Some PathBackslash
      else if list_ex control_char s then Some PathControl
      else segment_fault (split_on (CHR ''/'') s))"

section \<open>Workspace files\<close>

datatype workspace_error = InvalidWorkspacePath string path_fault | StorageRaised storage_error

record workspace_file =
  wf_workspace_id :: uuid
  wf_path :: string
  wf_size_bytes :: nat
  wf_content_type :: string
  wf_created_at :: timestamp

definition file_key :: "uuid \<Rightarrow> string \<Rightarrow> string" where
  "file_key workspace s = ''ws/'' @ uuid_text workspace @ ''/'' @ s"

definition file_of :: "uuid \<Rightarrow> string \<Rightarrow> stored_object \<Rightarrow> workspace_file" where
  "file_of workspace s m =
     \<lparr>wf_workspace_id = workspace, wf_path = s, wf_size_bytes = so_size_bytes m,
      wf_content_type = so_content_type m, wf_created_at = so_created_at m\<rparr>"

text \<open>The storage port, acting on a store \<open>'s\<close>.\<close>

record 's storage_port =
  st_put :: "'s \<Rightarrow> uuid \<Rightarrow> string \<Rightarrow> string \<Rightarrow> string \<Rightarrow> 's \<times> (storage_error + stored_object)"
  st_get :: "'s \<Rightarrow> uuid \<Rightarrow> string \<Rightarrow> storage_error + string"
  st_head :: "'s \<Rightarrow> uuid \<Rightarrow> string \<Rightarrow> storage_error + stored_object"
  st_delete :: "'s \<Rightarrow> uuid \<Rightarrow> string \<Rightarrow> 's \<times> (storage_error + unit)"
  st_list :: "'s \<Rightarrow> uuid \<Rightarrow> string \<Rightarrow> string list"

definition storage_result :: "storage_error + 'a \<Rightarrow> workspace_error + 'a" where
  "storage_result r = map_sum StorageRaised id r"

definition workspace_put ::
  "'s storage_port \<Rightarrow> 's \<Rightarrow> uuid \<Rightarrow> uuid \<Rightarrow> string \<Rightarrow> string \<Rightarrow> string
     \<Rightarrow> 's \<times> (workspace_error + workspace_file)" where
  "workspace_put port s tenant workspace p bytes content_type =
     (case validate_path p of
        Some fault \<Rightarrow> (s, Inl (InvalidWorkspacePath p fault))
      | None \<Rightarrow>
          (case st_put port s tenant (file_key workspace p) bytes content_type of
             (s', r) \<Rightarrow> (s', map_sum StorageRaised (file_of workspace p) r)))"

definition workspace_get ::
  "'s storage_port \<Rightarrow> 's \<Rightarrow> uuid \<Rightarrow> uuid \<Rightarrow> string \<Rightarrow> workspace_error + string" where
  "workspace_get port s tenant workspace p =
     (case validate_path p of
        Some fault \<Rightarrow> Inl (InvalidWorkspacePath p fault)
      | None \<Rightarrow> storage_result (st_get port s tenant (file_key workspace p)))"

definition workspace_head ::
  "'s storage_port \<Rightarrow> 's \<Rightarrow> uuid \<Rightarrow> uuid \<Rightarrow> string \<Rightarrow> workspace_error + workspace_file" where
  "workspace_head port s tenant workspace p =
     (case validate_path p of
        Some fault \<Rightarrow> Inl (InvalidWorkspacePath p fault)
      | None \<Rightarrow> map_sum StorageRaised (file_of workspace p)
                  (st_head port s tenant (file_key workspace p)))"

definition workspace_delete ::
  "'s storage_port \<Rightarrow> 's \<Rightarrow> uuid \<Rightarrow> uuid \<Rightarrow> string \<Rightarrow> 's \<times> (workspace_error + unit)" where
  "workspace_delete port s tenant workspace p =
     (case validate_path p of
        Some fault \<Rightarrow> (s, Inl (InvalidWorkspacePath p fault))
      | None \<Rightarrow>
          (case st_delete port s tenant (file_key workspace p) of
             (s', r) \<Rightarrow> (s', storage_result r)))"

definition removesuffix :: "string \<Rightarrow> char \<Rightarrow> string" where
  "removesuffix s c = (if s \<noteq> [] \<and> last s = c then butlast s else s)"

definition list_paths ::
  "'s storage_port \<Rightarrow> 's \<Rightarrow> uuid \<Rightarrow> uuid \<Rightarrow> string \<Rightarrow> workspace_error + string list" where
  "list_paths port s tenant workspace pre =
     (let fault = (if pre = [] then None else validate_path (removesuffix pre CHR ''/''))
      in case fault of
           Some f \<Rightarrow> Inl (InvalidWorkspacePath (removesuffix pre CHR ''/'') f)
         | None \<Rightarrow> Inr (map (drop (length (file_key workspace [])))
                          (st_list port s tenant (file_key workspace [] @ pre))))"

fun heads_of ::
  "(string \<Rightarrow> workspace_error + workspace_file) \<Rightarrow> string list
     \<Rightarrow> workspace_error + workspace_file list" where
  "heads_of h [] = Inr []"
| "heads_of h (p # ps) = result_bind (h p) (\<lambda>f. map_sum id (Cons f) (heads_of h ps))"

definition workspace_manifest ::
  "'s storage_port \<Rightarrow> 's \<Rightarrow> uuid \<Rightarrow> uuid \<Rightarrow> workspace_error + workspace_file list" where
  "workspace_manifest port s tenant workspace =
     result_bind (list_paths port s tenant workspace [])
       (heads_of (workspace_head port s tenant workspace))"

definition total_bytes :: "workspace_file list \<Rightarrow> nat" where
  "total_bytes fs = sum_list (map wf_size_bytes fs)"

definition memory_storage :: "timestamp \<Rightarrow> object_storage storage_port" where
  "memory_storage now =
     \<lparr>st_put = object_put now, st_get = object_get, st_head = object_head,
      st_delete = object_delete, st_list = list_keys\<rparr>"

section \<open>Keys\<close>

lemma uuid_text_inj:
  "a < 16 ^ 32 \<Longrightarrow> b < 16 ^ 32 \<Longrightarrow> uuid_text a = uuid_text b \<longleftrightarrow> a = b"
  by (metis canonical_uuid_text option.inject)

lemma uuid_text_length [simp]: "length (uuid_text n) = 36"
  by (simp add: uuid_text_def Let_def)

lemma file_key_inj:
  assumes "a < 16 ^ 32" and "b < 16 ^ 32"
  shows "file_key a p = file_key b q \<longleftrightarrow> a = b \<and> p = q"
  using assms by (auto simp: file_key_def uuid_text_inj)

lemma startswith_append_both:
  "length x = length y \<Longrightarrow> startswith (x @ s) (y @ t) \<longleftrightarrow> x = y \<and> startswith s t"
  by (auto simp: startswith_def)

lemma file_key_prefix:
  assumes "a < 16 ^ 32" and "b < 16 ^ 32"
  shows "startswith (file_key a p) (file_key b [] @ pre) \<longleftrightarrow> a = b \<and> startswith p pre"
proof -
  have "startswith (file_key a p) (file_key b [] @ pre) \<longleftrightarrow>
      startswith ((''ws/'' @ uuid_text a @ ''/'') @ p) ((''ws/'' @ uuid_text b @ ''/'') @ pre)"
    by (simp add: file_key_def)
  also have "\<dots> \<longleftrightarrow> a = b \<and> startswith p pre"
    using assms by (subst startswith_append_both) (auto simp: uuid_text_inj)
  finally show ?thesis .
qed

lemma file_key_ne [simp]: "file_key w p \<noteq> []"
  by (simp add: file_key_def)

lemma file_key_Nil_append: "file_key w [] @ p = file_key w p"
  by (simp add: file_key_def)

section \<open>The storage port as an interface\<close>

locale object_store =
  fixes port :: "'s storage_port"
    and ok :: "'s \<Rightarrow> bool"
    and objects :: "'s \<Rightarrow> (uuid \<times> string) \<rightharpoonup> stored_object \<times> string"
  assumes put_law: "ok s \<Longrightarrow> key \<noteq> [] \<Longrightarrow> st_put port s t key b ct = (s', r) \<Longrightarrow>
          ok s' \<and> (\<exists>m. r = Inr m \<and> so_size_bytes m = length b \<and> so_content_type m = ct
            \<and> objects s' = (objects s)((t, key) \<mapsto> (m, b)))"
    and get_law: "ok s \<Longrightarrow> st_get port s t key =
          (case objects s (t, key) of None \<Rightarrow> Inl (ObjectNotFound key) | Some e \<Rightarrow> Inr (snd e))"
    and head_law: "ok s \<Longrightarrow> st_head port s t key =
          (case objects s (t, key) of None \<Rightarrow> Inl (ObjectNotFound key) | Some e \<Rightarrow> Inr (fst e))"
    and delete_law: "ok s \<Longrightarrow> st_delete port s t key = (s', d) \<Longrightarrow>
          ok s' \<and> objects s' = (objects s)((t, key) := None)
          \<and> (d = Inr () \<longleftrightarrow> objects s (t, key) \<noteq> None)"
    and list_law: "ok s \<Longrightarrow> sorted (st_list port s t pre) \<and> distinct (st_list port s t pre)
          \<and> set (st_list port s t pre) = {key. objects s (t, key) \<noteq> None \<and> startswith key pre}"
begin

text \<open>The content of a workspace.\<close>

definition contents :: "'s \<Rightarrow> uuid \<Rightarrow> uuid \<Rightarrow> string \<rightharpoonup> string" where
  "contents s t w p = map_option snd (objects s (t, file_key w p))"

lemma workspace_get_contents:
  assumes "ok s" and "validate_path p = None"
  shows "workspace_get port s t w p =
    (case contents s t w p of
       None \<Rightarrow> Inl (StorageRaised (ObjectNotFound (file_key w p))) | Some b \<Rightarrow> Inr b)"
  using assms
  by (simp add: workspace_get_def contents_def get_law storage_result_def split: option.split)

lemma workspace_put_contents:
  assumes "ok s" and "validate_path p = None" and "w < 16 ^ 32" and "w' < 16 ^ 32"
    and "workspace_put port s t w p b ct = (s', r)"
  shows "ok s' \<and> is_ok r
    \<and> contents s' t' w' q = (if (t', w', q) = (t, w, p) then Some b else contents s t' w' q)"
proof -
  obtain r0 where r0: "st_put port s t (file_key w p) b ct = (s', r0)"
    using assms(2,5) by (auto simp: workspace_put_def split: prod.splits)
  from put_law [OF assms(1) _ r0] obtain m where m: "ok s'" "r0 = Inr m"
      "objects s' = (objects s)((t, file_key w p) \<mapsto> (m, b))" by auto
  moreover have "r = map_sum StorageRaised (file_of w p) r0"
    using assms(2,5) r0 by (simp add: workspace_put_def)
  ultimately show ?thesis
    using file_key_inj [OF assms(4,3)] by (auto simp: contents_def)
qed

lemma workspace_delete_contents:
  assumes "ok s" and "validate_path p = None" and "w < 16 ^ 32" and "w' < 16 ^ 32"
    and "workspace_delete port s t w p = (s', r)"
  shows "ok s' \<and> (is_ok r \<longleftrightarrow> contents s t w p \<noteq> None)
    \<and> contents s' t' w' q = (if (t', w', q) = (t, w, p) then None else contents s t' w' q)"
proof -
  obtain r0 where r0: "st_delete port s t (file_key w p) = (s', r0)"
    using assms(2,5) by (auto simp: workspace_delete_def split: prod.splits)
  note law = delete_law [OF assms(1) r0]
  moreover have "r = storage_result r0"
    using assms(2,5) r0 by (simp add: workspace_delete_def)
  ultimately show ?thesis
    using file_key_inj [OF assms(4,3)]
    by (cases r0) (auto simp: contents_def storage_result_def)
qed

lemma list_paths_contents:
  assumes "ok s" and "w < 16 ^ 32" and "list_paths port s t w pre = Inr ps"
  shows "set ps = {p. contents s t w p \<noteq> None \<and> startswith p pre}"
proof -
  have ps: "ps = map (drop (length (file_key w []))) (st_list port s t (file_key w [] @ pre))"
    using assms(3) by (auto simp: list_paths_def Let_def split: option.splits)
  have pre: "startswith key (file_key w [] @ pre) \<longleftrightarrow> (\<exists>p. key = file_key w p \<and> startswith p pre)" for key
  proof
    assume s: "startswith key (file_key w [] @ pre)"
    then have "key = (file_key w [] @ pre) @ drop (length (file_key w [] @ pre)) key"
      unfolding startswith_def by (metis append_take_drop_id)
    then obtain p where "key = file_key w [] @ p" by (metis append.assoc)
    then have "key = file_key w p" by (simp add: file_key_Nil_append)
    with s file_key_prefix [OF assms(2,2)] show "\<exists>p. key = file_key w p \<and> startswith p pre" by blast
  next
    assume "\<exists>p. key = file_key w p \<and> startswith p pre"
    then show "startswith key (file_key w [] @ pre)" using file_key_prefix [OF assms(2,2)] by blast
  qed
  have d: "drop (length (file_key w [])) (file_key w p) = p" for p
    by (simp add: file_key_def)
  show ?thesis
  proof (rule set_eqI)
    fix p
    have law: "set (st_list port s t (file_key w [] @ pre))
        = {key. objects s (t, key) \<noteq> None \<and> startswith key (file_key w [] @ pre)}"
      using list_law [OF assms(1)] by blast
    have "p \<in> set ps \<longleftrightarrow> (\<exists>key. objects s (t, key) \<noteq> None
        \<and> (\<exists>q. key = file_key w q \<and> startswith q pre) \<and> p = drop (length (file_key w [])) key)"
      unfolding ps set_map law pre by blast
    also have "\<dots> \<longleftrightarrow> objects s (t, file_key w p) \<noteq> None \<and> startswith p pre"
      using d by metis
    finally show "p \<in> set ps \<longleftrightarrow> p \<in> {p. contents s t w p \<noteq> None \<and> startswith p pre}"
      by (simp add: contents_def)
  qed
qed

end

lemma map_of_startswith_list:
  "distinct (map fst s) \<Longrightarrow>
     set (list_keys s t pre) = {key. map_of s (t, key) \<noteq> None \<and> startswith key pre}"
  by (force simp: list_keys_def map_of_eq_None_iff image_iff)

lemma list_keys_distinct: "distinct (map fst s) \<Longrightarrow> distinct (list_keys s t pre)"
proof -
  assume d: "distinct (map fst s)"
  have "inj_on (snd \<circ> fst) (set (filter (\<lambda>e. fst (fst e) = t \<and> startswith (snd (fst e)) pre) s))"
    using d by (auto intro!: inj_onI dest: eq_key_imp_eq_value)
  moreover have "distinct (filter (\<lambda>e. fst (fst e) = t \<and> startswith (snd (fst e)) pre) s)"
    using d by (simp add: distinct_map)
  ultimately show ?thesis by (simp add: list_keys_def distinct_map)
qed

interpretation mem_objects: object_store "memory_storage now"
  "\<lambda>s :: object_storage. distinct (map fst s)" "map_of"
  for now
proof unfold_locales
  fix s s' :: object_storage and t key d
  assume "distinct (map fst s)" "st_delete (memory_storage now) s t key = (s', d)"
  then show "distinct (map fst s') \<and> map_of s' = (map_of s)((t, key) := None)
      \<and> (d = Inr () \<longleftrightarrow> map_of s (t, key) \<noteq> None)"
    by (auto simp: memory_storage_def object_delete_def split: option.splits)
next
  fix s :: object_storage and t pre
  assume "distinct (map fst s)"
  then show "sorted (st_list (memory_storage now) s t pre)
      \<and> distinct (st_list (memory_storage now) s t pre)
      \<and> set (st_list (memory_storage now) s t pre)
          = {key. map_of s (t, key) \<noteq> None \<and> startswith key pre}"
    using map_of_startswith_list [of s t pre] list_keys_distinct [of s t pre]
    by (simp add: memory_storage_def) (simp add: list_keys_def)
qed (auto simp: memory_storage_def object_put_def object_get_def object_head_def Let_def
      split: option.splits if_splits)

section \<open>The in-memory workspace\<close>

text \<open>
  C35. Workspaces are separate maps from valid paths to bytes: after an accepted write every read of
  any tenant, workspace and path returns what it did before, except the written file, which returns
  the written bytes and is listed.
\<close>

theorem workspaces_are_separate_maps:
  assumes "distinct (map fst s)" and "w < 16 ^ 32" and "w' < 16 ^ 32"
    and "workspace_put (memory_storage now) s t w p b ct = (s', Inr f)"
  shows "distinct (map fst s') \<and> wf_path f = p \<and> wf_size_bytes f = length b
    \<and> workspace_get (memory_storage now) s' t' w' q
        = (if (t', w', q) = (t, w, p) then Inr b else workspace_get (memory_storage now) s t' w' q)
    \<and> (\<exists>ps. list_paths (memory_storage now) s' t w [] = Inr ps \<and> p \<in> set ps)"
proof -
  have v: "validate_path p = None"
    using assms(4) by (auto simp: workspace_put_def split: option.splits)
  note put = mem_objects.workspace_put_contents [OF assms(1) v]
  have ok: "distinct (map fst s')" using put [OF assms(2,2,4)] by blast
  have f: "wf_path f = p \<and> wf_size_bytes f = length b"
    using assms(4) v
    by (auto simp: workspace_put_def memory_storage_def object_put_def Let_def file_of_def)
  have get: "workspace_get (memory_storage now) s' t' w' q
      = (if (t', w', q) = (t, w, p) then Inr b else workspace_get (memory_storage now) s t' w' q)"
  proof (cases "validate_path q")
    case None
    show ?thesis
      using put [OF assms(2,3,4), of t' q] None v
      by (auto simp: mem_objects.workspace_get_contents [OF ok None]
          mem_objects.workspace_get_contents [OF assms(1) None])
  next
    case (Some e)
    with v show ?thesis by (auto simp: workspace_get_def)
  qed
  obtain ps where ps: "list_paths (memory_storage now) s' t w [] = Inr ps"
    by (simp add: list_paths_def)
  from mem_objects.list_paths_contents [OF ok assms(2) ps] put [OF assms(2,2,4), of t p]
  have "p \<in> set ps" by (simp add: startswith_def)
  with ok f get ps show ?thesis by blast
qed

text \<open>A witness: two workspaces, the same path.\<close>

definition ex_meta :: stored_object where
  "ex_meta = \<lparr>so_tenant_id = 1, so_key = file_key 2 ''a'', so_size_bytes = 3, so_content_type = ''t'',
     so_created_at = 4\<rparr>"

theorem workspaces_are_separate_maps_witness:
  "\<exists>s' f. workspace_put (memory_storage 5) [((1, file_key 2 ''a''), ex_meta, ''old'')] 1 3 ''a'' ''new'' ''t'' = (s', Inr f)
     \<and> workspace_get (memory_storage 5) s' 1 3 ''a'' = Inr ''new''
     \<and> workspace_get (memory_storage 5) s' 1 2 ''a'' = Inr ''old''"
proof -
  let ?s = "[((1, file_key 2 ''a''), ex_meta, ''old'')]"
  have v: "validate_path ''a'' = None" by code_simp
  obtain s' f where run: "workspace_put (memory_storage 5) ?s 1 3 ''a'' ''new'' ''t'' = (s', Inr f)"
    using v by (simp add: workspace_put_def memory_storage_def object_put_def Let_def)
  have lt: "(2::nat) < 16 ^ 32" "(3::nat) < 16 ^ 32" by simp_all
  have "distinct (map fst ?s)" by simp
  note law = workspaces_are_separate_maps [OF this lt(2) _ run]
  have "workspace_get (memory_storage 5) s' 1 3 ''a'' = Inr ''new''"
    using law [OF lt(2), of 1 "''a''"] by simp
  moreover have "workspace_get (memory_storage 5) s' 1 2 ''a'' = workspace_get (memory_storage 5) ?s 1 2 ''a''"
    using law [OF lt(1), of 1 "''a''"] by simp
  moreover have "workspace_get (memory_storage 5) ?s 1 2 ''a'' = Inr ''old''"
    using v by (simp add: workspace_get_def memory_storage_def object_get_def storage_result_def)
  ultimately have "workspace_get (memory_storage 5) s' 1 3 ''a'' = Inr ''new''"
    "workspace_get (memory_storage 5) s' 1 2 ''a'' = Inr ''old''" by simp_all
  then show ?thesis by (intro exI conjI) (rule run)
qed

end
