(* ===== verification/Source_Change.thy ===== *)
theory Source_Change
  imports Workspace_Files Audit_Log
begin

text \<open>
  The source-change workflow of \<open>core/sourcechange\<close>: content-addressed snapshots, the patch
  algebra, the proposal lifecycle, the stores, the differential verifier and
  \<open>SourceChangeWorkflow\<close>.  The digest is a parameter; the sandbox is a port on an external
  world \<open>'w\<close>, and \<open>hermetic_sandbox\<close> is the repository's own binding.  Identifiers and the
  clock are arguments; two reports are compared as the values their canonical JSON denotes.
\<close>

section \<open>Snapshots\<close>

type_synonym source_files = "(string \<times> string) list"

record source_snapshot =
  sn_id :: string
  sn_files :: source_files

definition NUL :: char where
  "NUL = CHR 0x00"

definition manifest_text :: "(string \<Rightarrow> string) \<Rightarrow> source_files \<Rightarrow> string" where
  "manifest_text sha fs =
     concat (map (\<lambda>(p, b). utf8 p @ [NUL] @ sha b @ [NUL]) (sort_key fst fs))"

definition manifest_digest :: "(string \<Rightarrow> string) \<Rightarrow> source_files \<Rightarrow> string" where
  "manifest_digest sha fs = sha (manifest_text sha fs)"

datatype change_error =
    InvalidPath string path_fault
  | PatchNotApplicable string string
  | MalformedPatch string
  | InvalidTransition string string
  | ApprovalHashMismatch string string
  | ProposalNotFound
  | UnknownSnapshot string
  | SnapshotIntegrityError string
  | NonDeterministicVerification string

fun first_bad_path :: "string list \<Rightarrow> change_error option" where
  "first_bad_path [] = None"
| "first_bad_path (p # ps) =
     (case validate_path p of Some f \<Rightarrow> Some (InvalidPath p f) | None \<Rightarrow> first_bad_path ps)"

definition snapshot_from_files ::
  "(string \<Rightarrow> string) \<Rightarrow> source_files \<Rightarrow> change_error + source_snapshot" where
  "snapshot_from_files sha fs =
     (let files = sort_key fst fs
      in case first_bad_path (map fst files) of
           Some e \<Rightarrow> Inl e
         | None \<Rightarrow> Inr \<lparr>sn_id = manifest_digest sha files, sn_files = files\<rparr>)"

definition manifest :: "(string \<Rightarrow> string) \<Rightarrow> source_snapshot \<Rightarrow> (string \<times> string \<times> nat) list" where
  "manifest sha s = map (\<lambda>(p, b). (p, sha b, length b)) (sort_key fst (sn_files s))"

definition verify_integrity :: "(string \<Rightarrow> string) \<Rightarrow> source_snapshot \<Rightarrow> bool" where
  "verify_integrity sha s \<longleftrightarrow> sn_id s = manifest_digest sha (sn_files s)"

section \<open>Patches\<close>

datatype patch_kind = ADD_FILE | MODIFY_FILE | DELETE_FILE

fun kind_value :: "patch_kind \<Rightarrow> string" where
  "kind_value ADD_FILE = ''add_file''"
| "kind_value MODIFY_FILE = ''modify_file''"
| "kind_value DELETE_FILE = ''delete_file''"

record patch_operation =
  po_kind :: patch_kind
  po_path :: string
  po_content :: "string option"

type_synonym source_patch = "patch_operation list"

definition make_operation ::
  "patch_kind \<Rightarrow> string \<Rightarrow> string option \<Rightarrow> change_error + patch_operation" where
  "make_operation kind p content =
     (case validate_path p of
        Some f \<Rightarrow> Inl (InvalidPath p f)
      | None \<Rightarrow>
          if kind = DELETE_FILE \<and> content \<noteq> None then Inl (MalformedPatch p)
          else if kind \<noteq> DELETE_FILE \<and> content = None then Inl (MalformedPatch p)
          else Inr \<lparr>po_kind = kind, po_path = p, po_content = content\<rparr>)"

fun duplicate_path :: "string set \<Rightarrow> string list \<Rightarrow> string option" where
  "duplicate_path seen [] = None"
| "duplicate_path seen (p # ps) =
     (if p \<in> seen then Some p else duplicate_path (insert p seen) ps)"

definition make_patch :: "patch_operation list \<Rightarrow> change_error + source_patch" where
  "make_patch ops =
     (if ops = [] then Inl (MalformedPatch [])
      else case duplicate_path {} (map po_path ops) of
             Some p \<Rightarrow> Inl (MalformedPatch p)
           | None \<Rightarrow> Inr ops)"

definition canonical_patch :: "(string \<Rightarrow> string) \<Rightarrow> source_patch \<Rightarrow> string" where
  "canonical_patch sha patch =
     concat (map (\<lambda>x. kind_value (po_kind x) @ [NUL] @ utf8 (po_path x) @ [NUL]
         @ (case po_content x of None \<Rightarrow> [] | Some b \<Rightarrow> sha b) @ [CHR 0x01])
       (sort_key po_path patch))"

definition patch_hash :: "(string \<Rightarrow> string) \<Rightarrow> source_patch \<Rightarrow> string \<Rightarrow> string" where
  "patch_hash sha patch base_id = sha (canonical_patch sha patch @ [CHR 0x02] @ base_id)"

definition operation_fault :: "source_files \<Rightarrow> patch_operation \<Rightarrow> change_error option" where
  "operation_fault fs x =
     (let exists = map_of fs (po_path x) \<noteq> None
      in case po_kind x of
           ADD_FILE \<Rightarrow>
             if exists then Some (PatchNotApplicable (po_path x) ''add_file target already exists'')
             else None
         | MODIFY_FILE \<Rightarrow>
             if exists then None
             else Some (PatchNotApplicable (po_path x) ''modify_file target does not exist'')
         | DELETE_FILE \<Rightarrow>
             if exists then None
             else Some (PatchNotApplicable (po_path x) ''delete_file target does not exist''))"

fun first_fault :: "source_files \<Rightarrow> source_patch \<Rightarrow> change_error option" where
  "first_fault fs [] = None"
| "first_fault fs (x # xs) =
     (case operation_fault fs x of Some e \<Rightarrow> Some e | None \<Rightarrow> first_fault fs xs)"

definition apply_operation :: "source_files \<Rightarrow> patch_operation \<Rightarrow> source_files" where
  "apply_operation fs x =
     (case po_content x of
        None \<Rightarrow> AList.delete (po_path x) fs
      | Some b \<Rightarrow> AList.update (po_path x) b fs)"

definition apply_patch ::
  "(string \<Rightarrow> string) \<Rightarrow> source_snapshot \<Rightarrow> source_patch \<Rightarrow> change_error + source_snapshot" where
  "apply_patch sha s patch =
     (case first_fault (sn_files s) patch of
        Some e \<Rightarrow> Inl e
      | None \<Rightarrow> snapshot_from_files sha (foldl apply_operation (sn_files s) patch))"

text \<open>The inverse of one operation; the new operation's own construction rules are checked.\<close>

definition invert_operation ::
  "source_files \<Rightarrow> patch_operation \<Rightarrow> change_error + patch_operation" where
  "invert_operation fs x =
     (case operation_fault fs x of
        Some e \<Rightarrow> Inl e
      | None \<Rightarrow>
          (case po_kind x of
             ADD_FILE \<Rightarrow> make_operation DELETE_FILE (po_path x) None
           | MODIFY_FILE \<Rightarrow> make_operation MODIFY_FILE (po_path x) (map_of fs (po_path x))
           | DELETE_FILE \<Rightarrow> make_operation ADD_FILE (po_path x) (map_of fs (po_path x))))"

fun invert_operations ::
  "source_files \<Rightarrow> source_patch \<Rightarrow> change_error + patch_operation list" where
  "invert_operations fs [] = Inr []"
| "invert_operations fs (x # xs) =
     result_bind (invert_operation fs x) (\<lambda>y. map_sum id (Cons y) (invert_operations fs xs))"

definition invert_patch :: "source_patch \<Rightarrow> source_snapshot \<Rightarrow> change_error + source_patch" where
  "invert_patch patch base = result_bind (invert_operations (sn_files base) patch) make_patch"

section \<open>Proposals\<close>

datatype proposal_state =
  DRAFT | VERIFIED | FAILED_VERIFICATION | APPROVED | REJECTED | APPLIED | ROLLED_BACK

fun proposal_value :: "proposal_state \<Rightarrow> string" where
  "proposal_value DRAFT = ''draft''"
| "proposal_value VERIFIED = ''verified''"
| "proposal_value FAILED_VERIFICATION = ''failed_verification''"
| "proposal_value APPROVED = ''approved''"
| "proposal_value REJECTED = ''rejected''"
| "proposal_value APPLIED = ''applied''"
| "proposal_value ROLLED_BACK = ''rolled_back''"

fun PROPOSAL_TRANSITIONS :: "proposal_state \<Rightarrow> proposal_state list" where
  "PROPOSAL_TRANSITIONS DRAFT = [VERIFIED, FAILED_VERIFICATION]"
| "PROPOSAL_TRANSITIONS VERIFIED = [APPROVED, REJECTED]"
| "PROPOSAL_TRANSITIONS FAILED_VERIFICATION = []"
| "PROPOSAL_TRANSITIONS APPROVED = [APPLIED]"
| "PROPOSAL_TRANSITIONS REJECTED = []"
| "PROPOSAL_TRANSITIONS APPLIED = [ROLLED_BACK]"
| "PROPOSAL_TRANSITIONS ROLLED_BACK = []"

record approval_record =
  ap_approver_id :: uuid
  ap_patch_hash :: string
  ap_decided_at :: timestamp

record proposal =
  pr_tenant_id :: uuid
  pr_actor_id :: uuid
  pr_base_id :: string
  pr_patch :: source_patch
  pr_rationale :: string
  pr_id :: uuid
  pr_state :: proposal_state
  pr_hash :: string
  pr_created_at :: timestamp
  pr_approval :: "approval_record option"
  pr_applied_id :: "string option"
  pr_inverse :: "source_patch option"

text \<open>\<open>__post_init__\<close>, which also runs on every \<open>replace\<close>.\<close>

definition post_init :: "(string \<Rightarrow> string) \<Rightarrow> proposal \<Rightarrow> change_error + proposal" where
  "post_init sha p =
     (let derived = patch_hash sha (pr_patch p) (pr_base_id p)
      in if pr_hash p \<noteq> [] \<and> pr_hash p \<noteq> derived then Inl (ApprovalHashMismatch derived (pr_hash p))
         else Inr (p\<lparr>pr_hash := derived\<rparr>))"

definition proposal_transition :: "proposal \<Rightarrow> proposal_state \<Rightarrow> change_error option" where
  "proposal_transition p target =
     (if target \<in> set (PROPOSAL_TRANSITIONS (pr_state p)) then None
      else Some (InvalidTransition (proposal_value (pr_state p)) (proposal_value target)))"

definition with_state ::
  "(string \<Rightarrow> string) \<Rightarrow> proposal \<Rightarrow> proposal_state \<Rightarrow> change_error + proposal" where
  "with_state sha p target =
     (case proposal_transition p target of
        Some e \<Rightarrow> Inl e | None \<Rightarrow> post_init sha (p\<lparr>pr_state := target\<rparr>))"

definition with_approval ::
  "(string \<Rightarrow> string) \<Rightarrow> proposal \<Rightarrow> approval_record \<Rightarrow> change_error + proposal" where
  "with_approval sha p a =
     (case proposal_transition p APPROVED of
        Some e \<Rightarrow> Inl e
      | None \<Rightarrow>
          if ap_patch_hash a \<noteq> pr_hash p then Inl (ApprovalHashMismatch (pr_hash p) (ap_patch_hash a))
          else post_init sha (p\<lparr>pr_state := APPROVED, pr_approval := Some a\<rparr>))"

definition with_applied ::
  "(string \<Rightarrow> string) \<Rightarrow> proposal \<Rightarrow> string \<Rightarrow> source_patch \<Rightarrow> change_error + proposal" where
  "with_applied sha p applied undo =
     (case proposal_transition p APPLIED of
        Some e \<Rightarrow> Inl e
      | None \<Rightarrow> post_init sha (p\<lparr>pr_state := APPLIED, pr_applied_id := Some applied,
                                   pr_inverse := Some undo\<rparr>))"

section \<open>Stores\<close>

type_synonym snapshot_store = "((uuid \<times> string) \<times> source_snapshot) list"

type_synonym proposal_store = "((uuid \<times> uuid) \<times> proposal) list"

definition save_snapshot ::
  "(string \<Rightarrow> string) \<Rightarrow> snapshot_store \<Rightarrow> uuid \<Rightarrow> source_snapshot
     \<Rightarrow> change_error + snapshot_store" where
  "save_snapshot sha st tenant s =
     (if \<not> verify_integrity sha s then Inl (SnapshotIntegrityError (sn_id s))
      else Inr (AList.update (tenant, sn_id s) s st))"

definition get_snapshot ::
  "(string \<Rightarrow> string) \<Rightarrow> snapshot_store \<Rightarrow> uuid \<Rightarrow> string \<Rightarrow> change_error + source_snapshot" where
  "get_snapshot sha st tenant i =
     (case map_of st (tenant, i) of
        None \<Rightarrow> Inl (UnknownSnapshot i)
      | Some s \<Rightarrow> if \<not> verify_integrity sha s then Inl (SnapshotIntegrityError i) else Inr s)"

definition save_proposal :: "proposal_store \<Rightarrow> proposal \<Rightarrow> proposal_store" where
  "save_proposal st p = AList.update (pr_tenant_id p, pr_id p) p st"

definition get_proposal :: "proposal_store \<Rightarrow> uuid \<Rightarrow> uuid \<Rightarrow> change_error + proposal" where
  "get_proposal st tenant i =
     (case map_of st (tenant, i) of None \<Rightarrow> Inl ProposalNotFound | Some p \<Rightarrow> Inr p)"

definition list_proposals :: "proposal_store \<Rightarrow> uuid \<Rightarrow> proposal list" where
  "list_proposals st tenant =
     sort_key (\<lambda>p. (pr_created_at p, uuid_text (pr_id p)))
       (map snd (filter (\<lambda>e. fst (fst e) = tenant) st))"

section \<open>The sandbox and the differential verifier\<close>

record check_result =
  ck_name :: string
  ck_passed :: bool
  ck_detail :: string

record verification_report =
  vr_snapshot_id :: string
  vr_suite_name :: string
  vr_results :: "check_result list"

definition report_passed :: "verification_report \<Rightarrow> bool" where
  "report_passed r = list_all ck_passed (vr_results r)"

text \<open>A check's predicate raises (\<open>Inl\<close> the printed exception) or answers.\<close>

record source_check =
  sc_name :: string
  sc_predicate :: "source_snapshot \<Rightarrow> string + bool"

record verification_suite =
  vs_name :: string
  vs_checks :: "source_check list"

definition make_suite :: "string \<Rightarrow> source_check list \<Rightarrow> change_error + verification_suite" where
  "make_suite name checks =
     (if checks = [] then Inl (MalformedPatch name)
      else case duplicate_path {} (map sc_name checks) of
             Some n \<Rightarrow> Inl (MalformedPatch n)
           | None \<Rightarrow> Inr \<lparr>vs_name = name, vs_checks = checks\<rparr>)"

definition run_check :: "source_snapshot \<Rightarrow> source_check \<Rightarrow> check_result" where
  "run_check s c =
     (case sc_predicate c s of
        Inl e \<Rightarrow> \<lparr>ck_name = sc_name c, ck_passed = False, ck_detail = ''check raised: '' @ e\<rparr>
      | Inr b \<Rightarrow> \<lparr>ck_name = sc_name c, ck_passed = b,
                   ck_detail = (if b then [] else ''predicate returned False'')\<rparr>)"

definition hermetic_sandbox ::
  "(string \<Rightarrow> string) \<Rightarrow> 'w \<Rightarrow> source_snapshot \<Rightarrow> verification_suite \<Rightarrow> 'w \<times> verification_report"
  where
  "hermetic_sandbox sha w s suite =
     (w, \<lparr>vr_snapshot_id = sn_id s, vr_suite_name = vs_name suite,
          vr_results = (if \<not> verify_integrity sha s
             then [\<lparr>ck_name = ''snapshot_integrity'', ck_passed = False,
                    ck_detail = ''snapshot failed content-address verification''\<rparr>]
             else map (run_check s) (vs_checks suite))\<rparr>)"

text \<open>
  The default suite.  \<open>compiles\<close> is CPython's compiler on one file: it accepts, raises
  \<open>SyntaxError\<close> (\<open>Inr False\<close>) or raises something else (\<open>Inl\<close>, the printed exception).
\<close>

fun python_syntax_valid ::
  "(string \<Rightarrow> string \<Rightarrow> string + bool) \<Rightarrow> source_files \<Rightarrow> string + bool" where
  "python_syntax_valid compiles [] = Inr True"
| "python_syntax_valid compiles ((p, b) # fs) =
     (if \<not> suffix ''.py'' p then python_syntax_valid compiles fs
      else case compiles b p of
             Inl e \<Rightarrow> Inl e
           | Inr good \<Rightarrow> if good then python_syntax_valid compiles fs else Inr False)"

definition SOURCE_VERIFICATION_CHECKS ::
  "(string \<Rightarrow> string) \<Rightarrow> (string \<Rightarrow> string \<Rightarrow> string + bool) \<Rightarrow> source_check list" where
  "SOURCE_VERIFICATION_CHECKS sha compiles =
     [\<lparr>sc_name = ''non_empty_snapshot'', sc_predicate = (\<lambda>s. Inr (0 < length (sn_files s)))\<rparr>,
      \<lparr>sc_name = ''manifest_integrity'', sc_predicate = (\<lambda>s. Inr (verify_integrity sha s))\<rparr>,
      \<lparr>sc_name = ''python_syntax_valid'',
       sc_predicate = (\<lambda>s. python_syntax_valid compiles (sn_files s))\<rparr>]"

datatype verdict = VERDICT_PASS | VERDICT_REGRESSION | VERDICT_FAILED_ON_PATCHED

record differential_report =
  df_base :: verification_report
  df_patched :: verification_report
  df_regressions :: "string list"
  df_improvements :: "string list"
  df_verdict :: verdict

type_synonym 'w sandbox =
  "'w \<Rightarrow> source_snapshot \<Rightarrow> verification_suite \<Rightarrow> 'w \<times> verification_report"

definition verified_twice ::
  "'w sandbox \<Rightarrow> 'w \<Rightarrow> source_snapshot \<Rightarrow> verification_suite
     \<Rightarrow> 'w \<times> (change_error + verification_report)" where
  "verified_twice sandbox w s suite =
     (case sandbox w s suite of (w1, first) \<Rightarrow>
      (case sandbox w1 s suite of (w2, second) \<Rightarrow>
        (w2, if first \<noteq> second then Inl (NonDeterministicVerification (sn_id s)) else Inr first)))"

text \<open>\<open>{r.name: r.passed for r in results}\<close>: the last row of a name counts.\<close>

definition by_name :: "verification_report \<Rightarrow> (string \<times> bool) list" where
  "by_name r = foldl (\<lambda>d c. AList.update (ck_name c) (ck_passed c) d) [] (vr_results r)"

definition differential ::
  "verification_report \<Rightarrow> verification_report \<Rightarrow> differential_report" where
  "differential base patched =
     (let held = map_of (by_name base);
          now = (\<lambda>n. map_of (by_name patched) n = Some True);
          names = sort (map fst (by_name base));
          regressions = filter (\<lambda>n. held n = Some True \<and> \<not> now n) names;
          improvements = filter (\<lambda>n. held n = Some False \<and> now n) names
      in \<lparr>df_base = base, df_patched = patched, df_regressions = regressions,
          df_improvements = improvements,
          df_verdict = (if regressions \<noteq> [] then VERDICT_REGRESSION
                        else if \<not> report_passed patched then VERDICT_FAILED_ON_PATCHED
                        else VERDICT_PASS)\<rparr>)"

definition verify_differential ::
  "'w sandbox \<Rightarrow> 'w \<Rightarrow> source_snapshot \<Rightarrow> source_snapshot \<Rightarrow> verification_suite
     \<Rightarrow> 'w \<times> (change_error + differential_report)" where
  "verify_differential sandbox w base patched suite =
     (case verified_twice sandbox w base suite of
        (w1, Inl e) \<Rightarrow> (w1, Inl e)
      | (w1, Inr b) \<Rightarrow>
          (case verified_twice sandbox w1 patched suite of
             (w2, Inl e) \<Rightarrow> (w2, Inl e)
           | (w2, Inr p) \<Rightarrow> (w2, Inr (differential b p))))"

section \<open>The workflow\<close>

record 'w change_workflow =
  cw_sha :: "string \<Rightarrow> string"
  cw_sandbox :: "'w sandbox"
  cw_suite :: verification_suite
  cw_audited :: bool
  cw_applier :: bool

record 'w change_state =
  cs_snapshots :: snapshot_store
  cs_proposals :: proposal_store
  cs_audit :: audit_log
  cs_world :: 'w

definition authoritative_apply_status :: "'w change_workflow \<Rightarrow> json" where
  "authoritative_apply_status c =
     (if \<not> cw_applier c
      then JObj [(''available'', JBool False), (''gate'', JStr ''S14_OPERATOR_GATE'')]
      else JObj [(''available'', JBool True)])"

text \<open>What an act draws: the row's id and time, and a new identifier.\<close>

record act_draw =
  ad_event_id :: uuid
  ad_now :: timestamp
  ad_new_id :: uuid

definition record_act ::
  "'w change_workflow \<Rightarrow> act_draw \<Rightarrow> 'w change_state \<Rightarrow> proposal \<Rightarrow> string \<Rightarrow> json_object
     \<Rightarrow> 'w change_state" where
  "record_act c ad st p act detail =
     (if \<not> cw_audited c then st
      else case audit_append (cs_audit st)
             \<lparr>ae_id = ad_event_id ad, ae_tenant_id = pr_tenant_id p,
              ae_event_type = APPROVAL_DECISION, ae_actor_id = Some (pr_actor_id p),
              ae_occurred_at = ad_now ad,
              ae_details = foldl (\<lambda>d (k, v). AList.update k v d)
                [(''surface'', JStr ''source_change_workflow''), (''act'', JStr act),
                 (''proposal_id'', JStr (uuid_text (pr_id p))), (''patch_hash'', JStr (pr_hash p)),
                 (''state'', JStr (proposal_value (pr_state p)))] detail,
              ae_admin_change = None\<rparr> of
             Inl e \<Rightarrow> st
           | Inr l \<Rightarrow> st\<lparr>cs_audit := l\<rparr>)"

definition register_base_snapshot ::
  "'w change_workflow \<Rightarrow> 'w change_state \<Rightarrow> uuid \<Rightarrow> source_snapshot
     \<Rightarrow> 'w change_state \<times> (change_error + source_snapshot)" where
  "register_base_snapshot c st tenant s =
     (case save_snapshot (cw_sha c) (cs_snapshots st) tenant s of
        Inl e \<Rightarrow> (st, Inl e)
      | Inr sn \<Rightarrow> (st\<lparr>cs_snapshots := sn\<rparr>, get_snapshot (cw_sha c) sn tenant (sn_id s)))"

definition propose ::
  "'w change_workflow \<Rightarrow> act_draw \<Rightarrow> 'w change_state \<Rightarrow> uuid \<Rightarrow> uuid \<Rightarrow> string \<Rightarrow> source_patch
     \<Rightarrow> string \<Rightarrow> 'w change_state \<times> (change_error + proposal)" where
  "propose c ad st tenant actor base_id patch rationale =
     (case get_snapshot (cw_sha c) (cs_snapshots st) tenant base_id of
        Inl e \<Rightarrow> (st, Inl e)
      | Inr base \<Rightarrow>
         (case post_init (cw_sha c)
                 \<lparr>pr_tenant_id = tenant, pr_actor_id = actor, pr_base_id = base_id, pr_patch = patch,
                  pr_rationale = rationale, pr_id = ad_new_id ad, pr_state = DRAFT, pr_hash = [],
                  pr_created_at = ad_now ad, pr_approval = None, pr_applied_id = None,
                  pr_inverse = None\<rparr> of
            Inl e \<Rightarrow> (st, Inl e)
          | Inr p \<Rightarrow>
              (record_act c ad (st\<lparr>cs_proposals := save_proposal (cs_proposals st) p\<rparr>) p ''propose''
                 [(''rationale'', JStr rationale)], Inr p)))"

fun verdict_value :: "verdict \<Rightarrow> string" where
  "verdict_value VERDICT_PASS = ''pass''"
| "verdict_value VERDICT_REGRESSION = ''regression''"
| "verdict_value VERDICT_FAILED_ON_PATCHED = ''failed_on_patched''"

definition report_json :: "verification_report \<Rightarrow> json" where
  "report_json r = JObj
     [(''results'', JList (map (\<lambda>k. JObj [(''detail'', JStr (ck_detail k)), (''name'', JStr (ck_name k)),
         (''passed'', JBool (ck_passed k))]) (vr_results r))),
      (''snapshot_id'', JStr (vr_snapshot_id r)), (''suite_name'', JStr (vr_suite_name r))]"

text \<open>An act that loads a proposal, derives its successor, stores it and records it.\<close>

definition conclude_act ::
  "'w change_workflow \<Rightarrow> act_draw \<Rightarrow> 'w change_state \<Rightarrow> string \<Rightarrow> json_object
     \<Rightarrow> change_error + proposal \<Rightarrow> 'w change_state \<times> (change_error + proposal)" where
  "conclude_act c ad st act detail r =
     (case r of
        Inl e \<Rightarrow> (st, Inl e)
      | Inr p \<Rightarrow> (record_act c ad (st\<lparr>cs_proposals := save_proposal (cs_proposals st) p\<rparr>) p act detail,
                  Inr p))"

definition verify_proposal ::
  "'w change_workflow \<Rightarrow> act_draw \<Rightarrow> 'w change_state \<Rightarrow> uuid \<Rightarrow> uuid
     \<Rightarrow> 'w change_state \<times> (change_error + proposal)" where
  "verify_proposal c ad st tenant i =
     (case result_bind (get_proposal (cs_proposals st) tenant i) (\<lambda>p.
             result_bind (get_snapshot (cw_sha c) (cs_snapshots st) tenant (pr_base_id p)) (\<lambda>base.
               map_sum id (\<lambda>patched. (p, base, patched)) (apply_patch (cw_sha c) base (pr_patch p)))) of
        Inl e \<Rightarrow> (st, Inl e)
      | Inr (p, base, patched) \<Rightarrow>
         (case verify_differential (cw_sandbox c) (cs_world st) base patched (cw_suite c) of
            (w, Inl e) \<Rightarrow> (st\<lparr>cs_world := w\<rparr>, Inl e)
          | (w, Inr report) \<Rightarrow>
             (let st1 = st\<lparr>cs_world := w\<rparr>;
                  detail = [(''verdict'', JStr (verdict_value (df_verdict report))),
                    (''regressions'', JList (map JStr (df_regressions report))),
                    (''improvements'', JList (map JStr (df_improvements report))),
                    (''base_report'', report_json (df_base report)),
                    (''patched_report'', report_json (df_patched report))]
              in if df_verdict report = VERDICT_PASS
                 then (case save_snapshot (cw_sha c) (cs_snapshots st1) tenant patched of
                         Inl e \<Rightarrow> (st1, Inl e)
                       | Inr sn \<Rightarrow> conclude_act c ad (st1\<lparr>cs_snapshots := sn\<rparr>) ''verify'' detail
                                    (with_state (cw_sha c) p VERIFIED))
                 else conclude_act c ad st1 ''verify'' detail
                        (with_state (cw_sha c) p FAILED_VERIFICATION))))"

definition approve_proposal ::
  "'w change_workflow \<Rightarrow> act_draw \<Rightarrow> 'w change_state \<Rightarrow> uuid \<Rightarrow> uuid \<Rightarrow> uuid \<Rightarrow> string
     \<Rightarrow> 'w change_state \<times> (change_error + proposal)" where
  "approve_proposal c ad st tenant i approver cited =
     conclude_act c ad st ''approve''
       [(''approver_id'', JStr (uuid_text approver)), (''cited_hash'', JStr cited)]
       (result_bind (get_proposal (cs_proposals st) tenant i) (\<lambda>p.
          with_approval (cw_sha c) p
            \<lparr>ap_approver_id = approver, ap_patch_hash = cited, ap_decided_at = ad_now ad\<rparr>))"

definition reject_proposal ::
  "'w change_workflow \<Rightarrow> act_draw \<Rightarrow> 'w change_state \<Rightarrow> uuid \<Rightarrow> uuid \<Rightarrow> uuid \<Rightarrow> string
     \<Rightarrow> 'w change_state \<times> (change_error + proposal)" where
  "reject_proposal c ad st tenant i approver reason =
     conclude_act c ad st ''reject''
       [(''approver_id'', JStr (uuid_text approver)), (''reason'', JStr reason)]
       (result_bind (get_proposal (cs_proposals st) tenant i) (\<lambda>p. with_state (cw_sha c) p REJECTED))"

text \<open>The re-verification runs after the proposal is stored.\<close>

definition apply_proposal ::
  "'w change_workflow \<Rightarrow> act_draw \<Rightarrow> 'w change_state \<Rightarrow> uuid \<Rightarrow> uuid
     \<Rightarrow> 'w change_state \<times> (change_error + proposal)" where
  "apply_proposal c ad st tenant i =
     (case result_bind (get_proposal (cs_proposals st) tenant i) (\<lambda>p.
             result_bind (get_snapshot (cw_sha c) (cs_snapshots st) tenant (pr_base_id p)) (\<lambda>base.
             result_bind (apply_patch (cw_sha c) base (pr_patch p)) (\<lambda>applied.
             result_bind (invert_patch (pr_patch p) base) (\<lambda>undo.
               map_sum id (\<lambda>sn. (p, applied, undo, sn))
                 (save_snapshot (cw_sha c) (cs_snapshots st) tenant applied))))) of
        Inl e \<Rightarrow> (st, Inl e)
      | Inr (p, applied, undo, sn) \<Rightarrow>
         (let st1 = st\<lparr>cs_snapshots := sn\<rparr>
          in case with_applied (cw_sha c) p (sn_id applied) undo of
               Inl e \<Rightarrow> (st1, Inl e)
             | Inr p' \<Rightarrow>
                (let st2 = st1\<lparr>cs_proposals := save_proposal (cs_proposals st1) p'\<rparr>
                 in case cw_sandbox c (cs_world st2) applied (cw_suite c) of
                      (w, report) \<Rightarrow>
                        (record_act c ad (st2\<lparr>cs_world := w\<rparr>) p' ''apply''
                           [(''applied_snapshot_id'', JStr (sn_id applied)),
                            (''post_apply_report'', report_json report),
                            (''post_apply_passed'', JBool (report_passed report)),
                            (''authoritative_apply'', authoritative_apply_status c)], Inr p'))))"

definition rollback_proposal ::
  "'w change_workflow \<Rightarrow> act_draw \<Rightarrow> 'w change_state \<Rightarrow> uuid \<Rightarrow> uuid
     \<Rightarrow> 'w change_state \<times> (change_error + proposal)" where
  "rollback_proposal c ad st tenant i =
     (case result_bind (get_proposal (cs_proposals st) tenant i) (\<lambda>p.
             result_bind (with_state (cw_sha c) p ROLLED_BACK) (\<lambda>p'.
               case (pr_applied_id p, pr_inverse p) of
                 (Some applied_id, Some undo) \<Rightarrow>
                   result_bind (get_snapshot (cw_sha c) (cs_snapshots st) tenant applied_id) (\<lambda>applied.
                   result_bind (apply_patch (cw_sha c) applied undo) (\<lambda>restored.
                     map_sum id (\<lambda>sn. (p, p', restored, sn))
                       (save_snapshot (cw_sha c) (cs_snapshots st) tenant restored)))
               | _ \<Rightarrow> Inl (UnknownSnapshot ''<no applied snapshot recorded>''))) of
        Inl e \<Rightarrow> (st, Inl e)
      | Inr (p, p', restored, sn) \<Rightarrow>
          conclude_act c ad (st\<lparr>cs_snapshots := sn\<rparr>) ''rollback''
            [(''restored_snapshot_id'', JStr (sn_id restored)),
             (''restored_matches_base'', JBool (sn_id restored = pr_base_id p))] (Inr p'))"

section \<open>Snapshots and patches as values\<close>

text \<open>What \<open>from_files\<close> returns for a dictionary, and what the patch constructors admit.\<close>

definition snapshot_ok :: "(string \<Rightarrow> string) \<Rightarrow> source_snapshot \<Rightarrow> bool" where
  "snapshot_ok sha s \<longleftrightarrow>
     distinct (map fst (sn_files s)) \<and> snapshot_from_files sha (sn_files s) = Inr s"

definition operation_ok :: "patch_operation \<Rightarrow> bool" where
  "operation_ok x \<longleftrightarrow> make_operation (po_kind x) (po_path x) (po_content x) = Inr x"

definition patch_ok :: "source_patch \<Rightarrow> bool" where
  "patch_ok p \<longleftrightarrow> make_patch p = Inr p \<and> (\<forall>x \<in> set p. operation_ok x)"

lemma first_bad_path_None: "first_bad_path ps = None \<longleftrightarrow> (\<forall>p \<in> set ps. validate_path p = None)"
  by (induction ps) (auto split: option.splits)

lemma snapshot_from_files_Inr:
  "snapshot_from_files sha fs = Inr s \<longleftrightarrow>
     (\<forall>p \<in> fst ` set fs. validate_path p = None)
     \<and> s = \<lparr>sn_id = manifest_digest sha (sort_key fst fs), sn_files = sort_key fst fs\<rparr>"
proof (cases "first_bad_path (map fst (sort_key fst fs))")
  case None
  then have "\<forall>p \<in> fst ` set fs. validate_path p = None" by (simp add: first_bad_path_None)
  with None show ?thesis by (auto simp: snapshot_from_files_def Let_def)
next
  case (Some e)
  then have "\<not> (\<forall>p \<in> fst ` set fs. validate_path p = None)"
    using first_bad_path_None [of "map fst (sort_key fst fs)"] by simp
  with Some show ?thesis by (simp add: snapshot_from_files_def Let_def)
qed

lemma sort_key_fst_idem [simp]: "sort_key fst (sort_key fst fs) = sort_key fst fs"
  by (rule sort_key_id_if_sorted) simp

lemma manifest_digest_sort [simp]: "manifest_digest sha (sort_key fst fs) = manifest_digest sha fs"
  by (simp add: manifest_digest_def manifest_text_def)

lemma snapshot_okD:
  assumes "snapshot_ok sha s"
  shows "distinct (map fst (sn_files s))" "sorted (map fst (sn_files s))"
    "\<And>p. p \<in> fst ` set (sn_files s) \<Longrightarrow> validate_path p = None"
    "sn_id s = manifest_digest sha (sn_files s)"
proof -
  have "snapshot_from_files sha (sn_files s) = Inr s" "distinct (map fst (sn_files s))"
    using assms by (simp_all add: snapshot_ok_def)
  note s = this(2) this(1) [unfolded snapshot_from_files_Inr]
  from s(2) have f: "sn_files s = sort_key fst (sn_files s)" by (metis source_snapshot.select_convs(2))
  show "distinct (map fst (sn_files s))" by (rule s(1))
  show "sorted (map fst (sn_files s))" by (subst f) simp
  show "validate_path p = None" if "p \<in> fst ` set (sn_files s)" for p
    by (rule bspec [OF conjunct1 [OF s(2)] that])
  show "sn_id s = manifest_digest sha (sn_files s)"
    using s(2) by (metis manifest_digest_sort source_snapshot.select_convs(1))
qed

lemma distinct_sort_keys [simp]: "distinct (map fst (sort_key fst fs)) \<longleftrightarrow> distinct (map fst fs)"
proof -
  have "mset (map fst (sort_key fst fs)) = mset (map fst fs)" by simp
  then show ?thesis by (metis mset_eq_imp_distinct_iff)
qed

lemma map_of_sort_key [simp]:
  assumes "distinct (map fst fs)" shows "map_of (sort_key fst fs) = map_of fs"
  using assms by (subst map_of_inject_set) auto

lemma snapshot_from_files_ok:
  assumes "distinct (map fst fs)" and "snapshot_from_files sha fs = Inr s"
  shows "snapshot_ok sha s" "map_of (sn_files s) = map_of fs"
  using assms by (auto simp: snapshot_ok_def snapshot_from_files_Inr)

lemma snapshot_ok_integrity: "snapshot_ok sha s \<Longrightarrow> verify_integrity sha s"
  by (simp add: verify_integrity_def snapshot_okD(4))

text \<open>A snapshot is determined by the map its files denote.\<close>

lemma snapshot_of_map:
  assumes s: "snapshot_ok sha s" and d: "distinct (map fst fs)" and m: "map_of fs = map_of (sn_files s)"
  shows "snapshot_from_files sha fs = Inr s"
proof -
  have set: "set fs = set (sn_files s)"
    using map_of_inject_set [OF d snapshot_okD(1) [OF s]] m by simp
  have "sort_key fst fs = sn_files s"
    by (rule map_sorted_distinct_set_unique [where f = fst])
      (use snapshot_okD(1,2) [OF s] d set in \<open>auto simp: distinct_map\<close>)
  moreover have "\<forall>p \<in> fst ` set fs. validate_path p = None"
    using snapshot_okD(3) [OF s] by (simp add: set)
  ultimately show ?thesis
    using snapshot_okD(4) [OF s] by (simp add: snapshot_from_files_Inr)
qed

lemma duplicate_path_None:
  "duplicate_path seen ps = None \<longleftrightarrow> distinct ps \<and> seen \<inter> set ps = {}"
  by (induction ps arbitrary: seen) auto

lemma patch_okD:
  assumes "patch_ok p"
  shows "distinct (map po_path p)" "p \<noteq> []" "\<And>x. x \<in> set p \<Longrightarrow> operation_ok x"
  using assms by (auto simp: patch_ok_def make_patch_def duplicate_path_None split: if_splits option.splits)

lemma operation_ok_iff:
  "operation_ok x \<longleftrightarrow> validate_path (po_path x) = None \<and> (po_kind x = DELETE_FILE \<longleftrightarrow> po_content x = None)"
  by (auto simp: operation_ok_def make_operation_def split: option.splits if_splits)

lemma make_patchI: "distinct (map po_path p) \<Longrightarrow> p \<noteq> [] \<Longrightarrow> make_patch p = Inr p"
  using duplicate_path_None [of "{}" "map po_path p"] by (simp add: make_patch_def)

lemma first_fault_None: "first_fault fs p = None \<longleftrightarrow> (\<forall>x \<in> set p. operation_fault fs x = None)"
  by (induction p) (auto split: option.splits)

lemma operation_fault_None:
  "operation_fault fs x = None \<longleftrightarrow> (map_of fs (po_path x) = None \<longleftrightarrow> po_kind x = ADD_FILE)"
  by (cases "po_kind x") (auto simp: operation_fault_def Let_def)

lemma apply_operation_map [simp]:
  "map_of (apply_operation fs x) = (map_of fs)(po_path x := po_content x)"
  by (cases "po_content x") (simp_all add: apply_operation_def)

lemma apply_operation_keys [simp]:
  "distinct (map fst fs) \<Longrightarrow> distinct (map fst (apply_operation fs x))"
  by (cases "po_content x") (simp_all add: apply_operation_def)

lemma apply_operations_keys: "distinct (map fst fs) \<Longrightarrow> distinct (map fst (foldl apply_operation fs p))"
  by (induction p arbitrary: fs) simp_all

lemma apply_operations_off:
  "k \<notin> po_path ` set p \<Longrightarrow> map_of (foldl apply_operation fs p) k = map_of fs k"
  by (induction p arbitrary: fs) auto

lemma apply_operations_on:
  "distinct (map po_path p) \<Longrightarrow> x \<in> set p \<Longrightarrow>
     map_of (foldl apply_operation fs p) (po_path x) = po_content x"
proof (induction p arbitrary: fs)
  case (Cons y p)
  show ?case
  proof (cases "x = y")
    case True
    with Cons.prems show ?thesis by (simp add: apply_operations_off)
  next
    case False
    with Cons show ?thesis by simp
  qed
qed simp

lemma apply_patch_Inr:
  "apply_patch sha s p = Inr s' \<longleftrightarrow> (\<forall>x \<in> set p. operation_fault (sn_files s) x = None)
     \<and> snapshot_from_files sha (foldl apply_operation (sn_files s) p) = Inr s'"
  by (auto simp: apply_patch_def first_fault_None split: option.splits) (auto simp flip: first_fault_None)

lemma apply_patch_ok: "snapshot_ok sha s \<Longrightarrow> apply_patch sha s p = Inr s' \<Longrightarrow> snapshot_ok sha s'"
  using snapshot_from_files_ok(1) [OF apply_operations_keys] by (auto simp: apply_patch_Inr dest: snapshot_okD(1))

text \<open>The inverse of one operation, where it is applicable.\<close>

definition undone :: "source_files \<Rightarrow> patch_operation \<Rightarrow> patch_operation" where
  "undone fs x =
     \<lparr>po_kind = (case po_kind x of ADD_FILE \<Rightarrow> DELETE_FILE | MODIFY_FILE \<Rightarrow> MODIFY_FILE
                 | DELETE_FILE \<Rightarrow> ADD_FILE),
      po_path = po_path x, po_content = map_of fs (po_path x)\<rparr>"

lemma undone_path [simp]: "po_path (undone fs x) = po_path x" "po_content (undone fs x) = map_of fs (po_path x)"
  by (simp_all add: undone_def)

lemma invert_operation_undone:
  assumes "operation_ok x" and "operation_fault fs x = None"
  shows "invert_operation fs x = Inr (undone fs x)" "operation_ok (undone fs x)"
proof -
  have v: "validate_path (po_path x) = None"
    and e: "map_of fs (po_path x) = None \<longleftrightarrow> po_kind x = ADD_FILE"
    using assms by (simp_all add: operation_ok_iff operation_fault_None)
  have k: "po_kind (undone fs x) = DELETE_FILE \<longleftrightarrow> po_kind x = ADD_FILE"
    by (cases "po_kind x") (simp_all add: undone_def)
  show ok: "operation_ok (undone fs x)"
    using v e k by (simp add: operation_ok_iff)
  have "make_operation (po_kind (undone fs x)) (po_path x) (map_of fs (po_path x)) = Inr (undone fs x)"
    using ok by (simp add: operation_ok_def)
  with e assms(2) show "invert_operation fs x = Inr (undone fs x)"
    by (cases "po_kind x") (simp_all add: invert_operation_def undone_def)
qed

lemma invert_operations_undone:
  "\<forall>x \<in> set p. operation_ok x \<and> operation_fault fs x = None
     \<Longrightarrow> invert_operations fs p = Inr (map (undone fs) p)"
  by (induction p) (simp_all add: invert_operation_undone)

lemma invert_patch_undone:
  assumes p: "patch_ok p" and "\<forall>x \<in> set p. operation_fault (sn_files base) x = None"
  shows "invert_patch p base = Inr (map (undone (sn_files base)) p)"
    "patch_ok (map (undone (sn_files base)) p)"
proof -
  have m: "make_patch (map (undone (sn_files base)) p) = Inr (map (undone (sn_files base)) p)"
    using patch_okD(1,2) [OF p] by (intro make_patchI) (simp_all add: comp_def)
  show "invert_patch p base = Inr (map (undone (sn_files base)) p)"
    using assms(2) patch_okD(3) [OF p] m by (simp add: invert_patch_def invert_operations_undone)
  show "patch_ok (map (undone (sn_files base)) p)"
    using m assms(2) patch_okD(3) [OF p] invert_operation_undone(2) by (auto simp: patch_ok_def)
qed

lemma applied_content:
  assumes base: "snapshot_ok sha base" and p: "patch_ok p"
    and app: "apply_patch sha base p = Inr s'" and x: "x \<in> set p"
  shows "map_of (sn_files s') (po_path x) = po_content x"
proof -
  have "snapshot_from_files sha (foldl apply_operation (sn_files base) p) = Inr s'"
    using app by (simp add: apply_patch_Inr)
  from snapshot_from_files_ok(2) [OF apply_operations_keys this] snapshot_okD(1) [OF base]
  show ?thesis using apply_operations_on [OF patch_okD(1) [OF p] x] by simp
qed

lemma patch_undone_restores:
  assumes base: "snapshot_ok sha base" and p: "patch_ok p"
    and app: "apply_patch sha base p = Inr s'"
  shows "apply_patch sha s' (map (undone (sn_files base)) p) = Inr base"
proof -
  define inv where "inv = map (undone (sn_files base)) p"
  from app have fine: "\<forall>x \<in> set p. operation_fault (sn_files base) x = None"
    and new: "snapshot_from_files sha (foldl apply_operation (sn_files base) p) = Inr s'"
    by (simp_all add: apply_patch_Inr)
  note keys = apply_operations_keys [OF snapshot_okD(1) [OF base], of p]
  have mp: "map_of (sn_files s') = map_of (foldl apply_operation (sn_files base) p)"
    by (rule snapshot_from_files_ok(2) [OF keys new])
  have dinv: "distinct (map po_path inv)"
    using patch_okD(1) [OF p] by (simp add: inv_def comp_def)
  have "operation_fault (sn_files s') (undone (sn_files base) x) = None" if x: "x \<in> set p" for x
  proof -
    have "map_of (sn_files s') (po_path x) = po_content x" by (rule applied_content [OF base p app x])
    moreover have "po_kind x = DELETE_FILE \<longleftrightarrow> po_content x = None"
      using patch_okD(3) [OF p x] by (simp add: operation_ok_iff)
    ultimately show ?thesis
      by (cases "po_kind x") (simp_all add: operation_fault_None undone_def)
  qed
  moreover have "map_of (foldl apply_operation (sn_files s') inv) = map_of (sn_files base)"
  proof
    fix k
    show "map_of (foldl apply_operation (sn_files s') inv) k = map_of (sn_files base) k"
    proof (cases "k \<in> po_path ` set p")
      case True
      then obtain x where x: "x \<in> set p" "k = po_path x" by blast
      then have "undone (sn_files base) x \<in> set inv" by (simp add: inv_def)
      from apply_operations_on [OF dinv this] x(2) show ?thesis by simp
    next
      case False
      then have "k \<notin> po_path ` set inv" by (auto simp: inv_def)
      from apply_operations_off [OF this] apply_operations_off [OF False] mp show ?thesis by simp
    qed
  qed
  moreover have "distinct (map fst (foldl apply_operation (sn_files s') inv))"
    using apply_patch_ok [OF base app] by (intro apply_operations_keys snapshot_okD(1))
  ultimately show ?thesis
    using snapshot_of_map [OF base] by (simp add: apply_patch_Inr inv_def)
qed

end
