(* ===== verification/Change_Workflow.thy ===== *)
theory Change_Workflow
  imports Source_Change
begin

text \<open>
  Lemmas on the source-change workflow of \<open>Source_Change\<close>: what each act does to the snapshot
  and proposal stores, the step relation of the acts with its invariants (an approval binds the
  exact version; a snapshot id is its content), the rollback of an applied proposal, and what the
  verification decides.
\<close>

section \<open>What each act does to the stores\<close>

lemma map_sum_Inr_iff: "map_sum f g r = Inr b \<longleftrightarrow> (\<exists>a. r = Inr a \<and> b = g a)"
  by (cases r) auto

lemma save_snapshot_Inr:
  "save_snapshot sha sn t s = Inr sn' \<longleftrightarrow> verify_integrity sha s \<and> sn' = AList.update (t, sn_id s) s sn"
  by (auto simp: save_snapshot_def)

lemma get_snapshot_Inr:
  "get_snapshot sha sn t i = Inr s \<longleftrightarrow> map_of sn (t, i) = Some s \<and> verify_integrity sha s"
  by (auto simp: get_snapshot_def split: option.splits)

lemma get_proposal_Inr: "get_proposal ps t i = Inr p \<longleftrightarrow> map_of ps (t, i) = Some p"
  by (auto simp: get_proposal_def split: option.splits)

lemma post_init_Inr:
  "post_init sha p = Inr p' \<longleftrightarrow> (pr_hash p = [] \<or> pr_hash p = patch_hash sha (pr_patch p) (pr_base_id p))
     \<and> p' = p\<lparr>pr_hash := patch_hash sha (pr_patch p) (pr_base_id p)\<rparr>"
  by (auto simp: post_init_def Let_def)

lemma proposal_transition_None:
  "proposal_transition p s = None \<longleftrightarrow> s \<in> set (PROPOSAL_TRANSITIONS (pr_state p))"
  by (simp add: proposal_transition_def)

lemma with_state_Inr:
  "with_state sha p s = Inr p' \<longleftrightarrow> s \<in> set (PROPOSAL_TRANSITIONS (pr_state p))
     \<and> post_init sha (p\<lparr>pr_state := s\<rparr>) = Inr p'"
  by (auto simp: with_state_def proposal_transition_def)

lemma with_approval_Inr:
  "with_approval sha p a = Inr p' \<longleftrightarrow> APPROVED \<in> set (PROPOSAL_TRANSITIONS (pr_state p))
     \<and> ap_patch_hash a = pr_hash p \<and> post_init sha (p\<lparr>pr_state := APPROVED, pr_approval := Some a\<rparr>) = Inr p'"
  by (auto simp: with_approval_def proposal_transition_def)

lemma with_applied_Inr:
  "with_applied sha p i u = Inr p' \<longleftrightarrow> APPLIED \<in> set (PROPOSAL_TRANSITIONS (pr_state p))
     \<and> post_init sha (p\<lparr>pr_state := APPLIED, pr_applied_id := Some i, pr_inverse := Some u\<rparr>) = Inr p'"
  by (auto simp: with_applied_def proposal_transition_def)

lemma record_act_stores [simp]:
  "cs_snapshots (record_act c ad st p a d) = cs_snapshots st"
  "cs_proposals (record_act c ad st p a d) = cs_proposals st"
  "cs_world (record_act c ad st p a d) = cs_world st"
  by (simp_all add: record_act_def split: sum.splits)

text \<open>One audit row per act, never refused: an approval decision is not an admin change.\<close>

lemma record_act_row:
  "cw_audited c \<Longrightarrow> \<exists>e. cs_audit (record_act c ad st p a d) = cs_audit st @ [e]
     \<and> ae_event_type e = APPROVAL_DECISION \<and> ae_tenant_id e = pr_tenant_id p
     \<and> ae_details e = foldl (\<lambda>d (k, v). AList.update k v d)
         [(''surface'', JStr ''source_change_workflow''), (''act'', JStr a),
          (''proposal_id'', JStr (uuid_text (pr_id p))), (''patch_hash'', JStr (pr_hash p)),
          (''state'', JStr (proposal_value (pr_state p)))] d"
  by (simp add: record_act_def audit_append_plain ADMIN_CHANGE_EVENT_TYPES_def)

text \<open>A successor in the closed lifecycle, except into \<open>APPLIED\<close>.\<close>

inductive advances :: "(string \<Rightarrow> string) \<Rightarrow> proposal \<Rightarrow> proposal \<Rightarrow> bool" for sha where
  adv_state: "with_state sha p s = Inr p' \<Longrightarrow> s \<noteq> APPROVED \<Longrightarrow> s \<noteq> APPLIED \<Longrightarrow> advances sha p p'"
| adv_approve: "with_approval sha p a = Inr p' \<Longrightarrow> advances sha p p'"

definition stored_from :: "(string \<Rightarrow> string) \<Rightarrow> snapshot_store \<Rightarrow> snapshot_store \<Rightarrow> bool" where
  "stored_from sha sn sn' \<longleftrightarrow> sn' = sn \<or>
     (\<exists>t s. sn' = AList.update (t, sn_id s) s sn
        \<and> (snapshot_ok sha s \<or> (\<exists>k s0 p. map_of sn k = Some s0 \<and> apply_patch sha s0 p = Inr s)))"

definition proposals_step ::
  "(string \<Rightarrow> string) \<Rightarrow> proposal_store \<Rightarrow> proposal_store \<Rightarrow> bool" where
  "proposals_step sha ps ps' \<longleftrightarrow> ps' = ps \<or>
     (\<exists>k p p'. map_of ps k = Some p \<and> advances sha p p' \<and> ps' = save_proposal ps p')"

lemma stored_from_refl [simp]: "stored_from sha sn sn"
  by (simp add: stored_from_def)

lemma stored_fromI:
  "map_of sn k = Some s0 \<Longrightarrow> apply_patch sha s0 p = Inr s \<Longrightarrow> stored_from sha sn (AList.update (t, sn_id s) s sn)"
  unfolding stored_from_def by blast

lemma proposals_step_refl [simp]: "proposals_step sha ps ps"
  by (simp add: proposals_step_def)

lemma proposals_stepI:
  "map_of ps k = Some p \<Longrightarrow> advances sha p p' \<Longrightarrow> proposals_step sha ps (save_proposal ps p')"
  unfolding proposals_step_def by blast

lemma conclude_act_cases:
  assumes "conclude_act c ad st a d r = (st', r')"
  obtains e where "r = Inl e" "st' = st" "r' = Inl e"
  | p' where "r = Inr p'" "r' = Inr p'" "cs_snapshots st' = cs_snapshots st"
      "cs_proposals st' = save_proposal (cs_proposals st) p'"
      "st' = record_act c ad (st\<lparr>cs_proposals := save_proposal (cs_proposals st) p'\<rparr>) p' a d"
  using assms by (cases r) (auto simp: conclude_act_def)

lemma approve_step:
  assumes "approve_proposal c ad st t i who cited = (st', r)"
  shows "cs_snapshots st' = cs_snapshots st \<and> proposals_step (cw_sha c) (cs_proposals st) (cs_proposals st')"
  using assms [unfolded approve_proposal_def]
  by (cases rule: conclude_act_cases)
    (auto simp: result_bind_Inr_iff get_proposal_Inr intro: proposals_stepI adv_approve)

lemma reject_step:
  assumes "reject_proposal c ad st t i who reason = (st', r)"
  shows "cs_snapshots st' = cs_snapshots st \<and> proposals_step (cw_sha c) (cs_proposals st) (cs_proposals st')"
  using assms [unfolded reject_proposal_def]
  by (cases rule: conclude_act_cases)
    (auto simp: result_bind_Inr_iff get_proposal_Inr intro!: proposals_stepI intro: adv_state)

text \<open>The three acts that derive a snapshot, when they succeed.\<close>

lemma verify_cases:
  assumes "verify_proposal c ad st t i = (st', r)"
  obtains "cs_snapshots st' = cs_snapshots st" "cs_proposals st' = cs_proposals st" "\<not> is_ok r"
  | p base patched w report sn where
      "map_of (cs_proposals st) (t, i) = Some p"
      "get_snapshot (cw_sha c) (cs_snapshots st) t (pr_base_id p) = Inr base"
      "apply_patch (cw_sha c) base (pr_patch p) = Inr patched"
      "verify_differential (cw_sandbox c) (cs_world st) base patched (cw_suite c) = (w, Inr report)"
      "sn = (if df_verdict report = VERDICT_PASS
             then AList.update (t, sn_id patched) patched (cs_snapshots st) else cs_snapshots st)"
      "cs_snapshots st' = sn"
      "(\<not> is_ok r \<and> cs_proposals st' = cs_proposals st) \<or>
       (\<exists>p'. r = Inr p' \<and> cs_proposals st' = save_proposal (cs_proposals st) p'
          \<and> with_state (cw_sha c) p
              (if df_verdict report = VERDICT_PASS then VERIFIED else FAILED_VERIFICATION) = Inr p')"
proof -
  let ?load = "result_bind (get_proposal (cs_proposals st) t i) (\<lambda>p.
             result_bind (get_snapshot (cw_sha c) (cs_snapshots st) t (pr_base_id p)) (\<lambda>base.
               map_sum id (\<lambda>patched. (p, base, patched)) (apply_patch (cw_sha c) base (pr_patch p))))"
  note A = assms [unfolded verify_proposal_def]
  show thesis
  proof (cases ?load)
    case (Inl e)
    with A that(1) show thesis by auto
  next
    case (Inr x)
    then obtain p base patched where x: "x = (p, base, patched)"
      and l: "map_of (cs_proposals st) (t, i) = Some p"
        "get_snapshot (cw_sha c) (cs_snapshots st) t (pr_base_id p) = Inr base"
        "apply_patch (cw_sha c) base (pr_patch p) = Inr patched"
      by (auto simp: result_bind_Inr_iff get_proposal_Inr map_sum_Inr_iff)
    obtain w res where vd:
      "verify_differential (cw_sandbox c) (cs_world st) base patched (cw_suite c) = (w, res)"
      by (cases "verify_differential (cw_sandbox c) (cs_world st) base patched (cw_suite c)")
    show thesis
    proof (cases res)
      case (Inl e)
      with A Inr x vd that(1) show thesis by auto
    next
      case report: (Inr report)
      show thesis
      proof (cases "df_verdict report = VERDICT_PASS")
        case True
        show thesis
        proof (cases "save_snapshot (cw_sha c) (cs_snapshots st) t patched")
          case (Inl e)
          with A Inr x vd report True that(1) show thesis by (auto simp: Let_def)
        next
          case sn: (Inr sn)
          with A Inr x vd report True
          have "\<exists>d. conclude_act c ad (st\<lparr>cs_world := w, cs_snapshots := sn\<rparr>) ''verify'' d
              (with_state (cw_sha c) p VERIFIED) = (st', r)" by (auto simp: Let_def)
          then obtain d where "conclude_act c ad (st\<lparr>cs_world := w, cs_snapshots := sn\<rparr>) ''verify'' d
              (with_state (cw_sha c) p VERIFIED) = (st', r)" by blast
          then show thesis
            using sn True
            by (cases rule: conclude_act_cases)
              (rule that(2) [OF l vd [unfolded report] refl], auto simp: save_snapshot_Inr)+
        qed
      next
        case False
        with A Inr x vd report
        have "\<exists>d. conclude_act c ad (st\<lparr>cs_world := w\<rparr>) ''verify'' d
            (with_state (cw_sha c) p FAILED_VERIFICATION) = (st', r)" by (auto simp: Let_def)
        then obtain d where "conclude_act c ad (st\<lparr>cs_world := w\<rparr>) ''verify'' d
            (with_state (cw_sha c) p FAILED_VERIFICATION) = (st', r)" by blast
        then show thesis
          using False
          by (cases rule: conclude_act_cases)
            (rule that(2) [OF l vd [unfolded report] refl], auto)+
      qed
    qed
  qed
qed

lemma apply_cases:
  assumes "apply_proposal c ad st t i = (st', r)"
  obtains "stored_from (cw_sha c) (cs_snapshots st) (cs_snapshots st')"
      "cs_proposals st' = cs_proposals st" "\<not> is_ok r"
  | p p' base applied undo where
      "map_of (cs_proposals st) (t, i) = Some p"
      "get_snapshot (cw_sha c) (cs_snapshots st) t (pr_base_id p) = Inr base"
      "apply_patch (cw_sha c) base (pr_patch p) = Inr applied"
      "invert_patch (pr_patch p) base = Inr undo"
      "with_applied (cw_sha c) p (sn_id applied) undo = Inr p'"
      "cs_snapshots st' = AList.update (t, sn_id applied) applied (cs_snapshots st)"
      "cs_proposals st' = save_proposal (cs_proposals st) p'" "r = Inr p'"
proof -
  let ?load = "result_bind (get_proposal (cs_proposals st) t i) (\<lambda>p.
             result_bind (get_snapshot (cw_sha c) (cs_snapshots st) t (pr_base_id p)) (\<lambda>base.
             result_bind (apply_patch (cw_sha c) base (pr_patch p)) (\<lambda>applied.
             result_bind (invert_patch (pr_patch p) base) (\<lambda>undo.
               map_sum id (\<lambda>sn. (p, applied, undo, sn))
                 (save_snapshot (cw_sha c) (cs_snapshots st) t applied)))))"
  note A = assms [unfolded apply_proposal_def]
  show thesis
  proof (cases ?load)
    case (Inl e)
    with A that(1) show thesis by auto
  next
    case (Inr x)
    then obtain p base applied undo sn where x: "x = (p, applied, undo, sn)"
      and l: "map_of (cs_proposals st) (t, i) = Some p"
        "get_snapshot (cw_sha c) (cs_snapshots st) t (pr_base_id p) = Inr base"
        "apply_patch (cw_sha c) base (pr_patch p) = Inr applied"
        "invert_patch (pr_patch p) base = Inr undo"
      and sn: "sn = AList.update (t, sn_id applied) applied (cs_snapshots st)"
      by (auto simp: result_bind_Inr_iff get_proposal_Inr map_sum_Inr_iff save_snapshot_Inr)
    have old: "map_of (cs_snapshots st) (t, pr_base_id p) = Some base"
      using l(2) by (simp add: get_snapshot_Inr)
    show thesis
    proof (cases "with_applied (cw_sha c) p (sn_id applied) undo")
      case (Inl e)
      have "stored_from (cw_sha c) (cs_snapshots st) sn"
        unfolding sn by (rule stored_fromI [OF old l(3)])
      moreover have "st' = st\<lparr>cs_snapshots := sn\<rparr> \<and> r = Inl e"
        using A \<open>?load = Inr x\<close> x Inl by (simp add: Let_def)
      ultimately show thesis using that(1) by simp
    next
      case (Inr p')
      with A \<open>?load = Inr x\<close> x that(2) [OF l Inr] sn show thesis
        by (auto simp: Let_def split: prod.splits)
    qed
  qed
qed

lemma rollback_cases:
  assumes "rollback_proposal c ad st t i = (st', r)"
  obtains "st' = st" "\<not> is_ok r"
  | p p' i' undo applied restored where
      "map_of (cs_proposals st) (t, i) = Some p"
      "with_state (cw_sha c) p ROLLED_BACK = Inr p'"
      "pr_applied_id p = Some i'" "pr_inverse p = Some undo"
      "get_snapshot (cw_sha c) (cs_snapshots st) t i' = Inr applied"
      "apply_patch (cw_sha c) applied undo = Inr restored"
      "cs_snapshots st' = AList.update (t, sn_id restored) restored (cs_snapshots st)"
      "cs_proposals st' = save_proposal (cs_proposals st) p'" "r = Inr p'"
proof -
  let ?load = "result_bind (get_proposal (cs_proposals st) t i) (\<lambda>p.
             result_bind (with_state (cw_sha c) p ROLLED_BACK) (\<lambda>p'.
               case (pr_applied_id p, pr_inverse p) of
                 (Some applied_id, Some undo) \<Rightarrow>
                   result_bind (get_snapshot (cw_sha c) (cs_snapshots st) t applied_id) (\<lambda>applied.
                   result_bind (apply_patch (cw_sha c) applied undo) (\<lambda>restored.
                     map_sum id (\<lambda>sn. (p, p', restored, sn))
                       (save_snapshot (cw_sha c) (cs_snapshots st) t restored)))
               | _ \<Rightarrow> Inl (UnknownSnapshot ''<no applied snapshot recorded>'')))"
  note A = assms [unfolded rollback_proposal_def]
  show thesis
  proof (cases ?load)
    case (Inl e)
    with A that(1) show thesis by auto
  next
    case (Inr x)
    from Inr [unfolded result_bind_Inr_iff get_proposal_Inr] obtain p p' where
      p: "map_of (cs_proposals st) (t, i) = Some p" "with_state (cw_sha c) p ROLLED_BACK = Inr p'"
      and rest: "(case (pr_applied_id p, pr_inverse p) of
                 (Some applied_id, Some undo) \<Rightarrow>
                   result_bind (get_snapshot (cw_sha c) (cs_snapshots st) t applied_id) (\<lambda>applied.
                   result_bind (apply_patch (cw_sha c) applied undo) (\<lambda>restored.
                     map_sum id (\<lambda>sn. (p, p', restored, sn))
                       (save_snapshot (cw_sha c) (cs_snapshots st) t restored)))
               | _ \<Rightarrow> Inl (UnknownSnapshot ''<no applied snapshot recorded>'')) = Inr x"
      by blast
    from rest obtain i' undo where u: "pr_applied_id p = Some i'" "pr_inverse p = Some undo"
      by (cases "pr_applied_id p"; cases "pr_inverse p") simp_all
    from rest obtain applied restored sn where x: "x = (p, p', restored, sn)"
      and s: "get_snapshot (cw_sha c) (cs_snapshots st) t i' = Inr applied"
        "apply_patch (cw_sha c) applied undo = Inr restored"
      and sn: "sn = AList.update (t, sn_id restored) restored (cs_snapshots st)"
      by (auto simp: u result_bind_Inr_iff map_sum_Inr_iff save_snapshot_Inr)
    note l = p u s
    from A Inr x have
      "st' = record_act c ad (st\<lparr>cs_snapshots := sn, cs_proposals := save_proposal (cs_proposals st) p'\<rparr>)
         p' ''rollback'' [(''restored_snapshot_id'', JStr (sn_id restored)),
            (''restored_matches_base'', JBool (sn_id restored = pr_base_id p))] \<and> r = Inr p'"
      by (simp add: conclude_act_def)
    then show thesis using that(2) [OF l] sn by simp
  qed
qed

section \<open>The workflow as a state machine\<close>

text \<open>
  One act of a client.  A base snapshot is what \<open>from_files\<close> returns, a patch is a constructed
  patch, and a new proposal's identifier is fresh (\<open>uuid4\<close>).
\<close>

inductive change_step :: "'w change_workflow \<Rightarrow> 'w change_state \<Rightarrow> 'w change_state \<Rightarrow> bool" for c where
  st_register: "snapshot_ok (cw_sha c) s \<Longrightarrow> register_base_snapshot c st t s = (st', rs) \<Longrightarrow> change_step c st st'"
| st_propose: "patch_ok patch \<Longrightarrow> map_of (cs_proposals st) (t, ad_new_id ad) = None
    \<Longrightarrow> propose c ad st t actor base_id patch why = (st', r) \<Longrightarrow> change_step c st st'"
| st_verify: "verify_proposal c ad st t i = (st', r) \<Longrightarrow> change_step c st st'"
| st_approve: "approve_proposal c ad st t i who cited = (st', r) \<Longrightarrow> change_step c st st'"
| st_reject: "reject_proposal c ad st t i who why = (st', r) \<Longrightarrow> change_step c st st'"
| st_apply: "apply_proposal c ad st t i = (st', r) \<Longrightarrow> change_step c st st'"
| st_rollback: "rollback_proposal c ad st t i = (st', r) \<Longrightarrow> change_step c st st'"

inductive change_reachable :: "'w change_workflow \<Rightarrow> 'w change_state \<Rightarrow> bool" for c where
  reach_init: "change_reachable c \<lparr>cs_snapshots = [], cs_proposals = [], cs_audit = evs, cs_world = w\<rparr>"
| reach_step: "change_reachable c st \<Longrightarrow> change_step c st st' \<Longrightarrow> change_reachable c st'"

definition new_draft :: "(string \<Rightarrow> string) \<Rightarrow> proposal_store \<Rightarrow> proposal \<Rightarrow> bool" where
  "new_draft sha ps p \<longleftrightarrow> map_of ps (pr_tenant_id p, pr_id p) = None \<and> pr_state p = DRAFT
     \<and> patch_ok (pr_patch p) \<and> pr_hash p = patch_hash sha (pr_patch p) (pr_base_id p) \<and> pr_approval p = None"

definition applies ::
  "(string \<Rightarrow> string) \<Rightarrow> snapshot_store \<Rightarrow> uuid \<Rightarrow> proposal \<Rightarrow> proposal \<Rightarrow> snapshot_store \<Rightarrow> bool" where
  "applies sha sn t p p' sn' \<longleftrightarrow>
     (\<exists>base applied undo. get_snapshot sha sn t (pr_base_id p) = Inr base
        \<and> apply_patch sha base (pr_patch p) = Inr applied \<and> invert_patch (pr_patch p) base = Inr undo
        \<and> with_applied sha p (sn_id applied) undo = Inr p'
        \<and> sn' = AList.update (t, sn_id applied) applied sn)"

lemma register_effect:
  assumes "snapshot_ok (cw_sha c) s" and "register_base_snapshot c st t s = (st', r)"
  shows "cs_proposals st' = cs_proposals st \<and> stored_from (cw_sha c) (cs_snapshots st) (cs_snapshots st')"
  using assms unfolding register_base_snapshot_def stored_from_def
  by (auto simp: save_snapshot_def split: if_splits)

lemma propose_effect:
  assumes "patch_ok patch" and "map_of (cs_proposals st) (t, ad_new_id ad) = None"
    and "propose c ad st t actor base_id patch why = (st', r)"
  shows "cs_snapshots st' = cs_snapshots st \<and> (cs_proposals st' = cs_proposals st
    \<or> (\<exists>p. new_draft (cw_sha c) (cs_proposals st) p \<and> cs_proposals st' = save_proposal (cs_proposals st) p))"
proof (cases "get_snapshot (cw_sha c) (cs_snapshots st) t base_id")
  case (Inl e)
  with assms(3) show ?thesis by (simp add: propose_def)
next
  case (Inr base)
  define p where "p = \<lparr>pr_tenant_id = t, pr_actor_id = actor, pr_base_id = base_id, pr_patch = patch,
    pr_rationale = why, pr_id = ad_new_id ad, pr_state = DRAFT, pr_hash = patch_hash (cw_sha c) patch base_id,
    pr_created_at = ad_now ad, pr_approval = None, pr_applied_id = None, pr_inverse = None\<rparr>"
  from assms(3) Inr have "st' = record_act c ad (st\<lparr>cs_proposals := save_proposal (cs_proposals st) p\<rparr>)
      p ''propose'' [(''rationale'', JStr why)]"
    by (simp add: propose_def post_init_def Let_def p_def)
  moreover have "new_draft (cw_sha c) (cs_proposals st) p"
    using assms(1,2) by (simp add: new_draft_def p_def)
  ultimately show ?thesis by auto
qed

text \<open>The effect of any act on the two stores.\<close>

lemma change_effect:
  assumes "change_step c st st'"
  shows "stored_from (cw_sha c) (cs_snapshots st) (cs_snapshots st') \<and>
    (proposals_step (cw_sha c) (cs_proposals st) (cs_proposals st')
     \<or> (\<exists>p. new_draft (cw_sha c) (cs_proposals st) p \<and> cs_proposals st' = save_proposal (cs_proposals st) p)
     \<or> (\<exists>t i p p'. map_of (cs_proposals st) (t, i) = Some p
          \<and> applies (cw_sha c) (cs_snapshots st) t p p' (cs_snapshots st')
          \<and> cs_proposals st' = save_proposal (cs_proposals st) p'))"
  using assms
proof cases
  case (st_register s t rs)
  from register_effect [OF this] show ?thesis by simp
next
  case (st_propose patch t ad actor base_id why r)
  from propose_effect [OF this] show ?thesis by (metis stored_from_refl proposals_step_refl)
next
  case (st_verify ad t i r)
  then show ?thesis
  proof (cases rule: verify_cases)
    case 1
    then show ?thesis by simp
  next
    case (2 p base patched w report sn)
    have "map_of (cs_snapshots st) (t, pr_base_id p) = Some base"
      using 2(2) by (simp add: get_snapshot_Inr)
    from stored_fromI [OF this 2(3)] 2(5,6)
    have "stored_from (cw_sha c) (cs_snapshots st) (cs_snapshots st')" by simp
    moreover have "proposals_step (cw_sha c) (cs_proposals st) (cs_proposals st')"
      using 2(7) proposals_stepI [OF 2(1) adv_state] by (auto split: if_splits)
    ultimately show ?thesis by blast
  qed
next
  case (st_approve ad t i who cited r)
  from approve_step [OF this] show ?thesis by simp
next
  case (st_reject ad t i who why r)
  from reject_step [OF this] show ?thesis by simp
next
  case (st_apply ad t i r)
  then show ?thesis
  proof (cases rule: apply_cases)
    case 1
    then show ?thesis by simp
  next
    case (2 p p' base applied undo)
    have "map_of (cs_snapshots st) (t, pr_base_id p) = Some base"
      using 2(2) by (simp add: get_snapshot_Inr)
    from stored_fromI [OF this 2(3)] 2(6)
    have "stored_from (cw_sha c) (cs_snapshots st) (cs_snapshots st')" by simp
    moreover have "applies (cw_sha c) (cs_snapshots st) t p p' (cs_snapshots st')"
      using 2(2-6) unfolding applies_def by blast
    ultimately show ?thesis using 2(1,7) by blast
  qed
next
  case (st_rollback ad t i r)
  then show ?thesis
  proof (cases rule: rollback_cases)
    case 1
    then show ?thesis by simp
  next
    case (2 p p' i' undo applied restored)
    have "map_of (cs_snapshots st) (t, i') = Some applied"
      using 2(5) by (simp add: get_snapshot_Inr)
    from stored_fromI [OF this 2(6)] 2(7)
    have "stored_from (cw_sha c) (cs_snapshots st) (cs_snapshots st')" by simp
    moreover have "proposals_step (cw_sha c) (cs_proposals st) (cs_proposals st')"
      unfolding 2(8) by (rule proposals_stepI [OF 2(1) adv_state [OF 2(2)]]) simp_all
    ultimately show ?thesis by blast
  qed
qed

section \<open>What an approval means\<close>

definition approval_bound :: "(string \<Rightarrow> string) \<Rightarrow> proposal \<Rightarrow> bool" where
  "approval_bound sha p \<longleftrightarrow> patch_ok (pr_patch p)
     \<and> pr_hash p = patch_hash sha (pr_patch p) (pr_base_id p)
     \<and> (pr_state p \<in> {APPROVED, APPLIED, ROLLED_BACK} \<longleftrightarrow> pr_approval p \<noteq> None)
     \<and> (\<forall>a. pr_approval p = Some a \<longrightarrow> ap_patch_hash a = pr_hash p)"

text \<open>What no later act changes of a proposal, and how its state moves.\<close>

definition version_kept :: "proposal \<Rightarrow> proposal \<Rightarrow> bool" where
  "version_kept p p' \<longleftrightarrow> pr_tenant_id p' = pr_tenant_id p \<and> pr_id p' = pr_id p
     \<and> pr_actor_id p' = pr_actor_id p \<and> pr_base_id p' = pr_base_id p \<and> pr_patch p' = pr_patch p
     \<and> pr_rationale p' = pr_rationale p \<and> pr_hash p' = pr_hash p \<and> pr_created_at p' = pr_created_at p
     \<and> (pr_approval p \<noteq> None \<longrightarrow> pr_approval p' = pr_approval p)
     \<and> (PROPOSAL_TRANSITIONS (pr_state p) = [] \<longrightarrow> p' = p)"

lemma version_kept_refl [simp]: "version_kept p p"
  by (simp add: version_kept_def)

lemma version_kept_trans: "version_kept p q \<Longrightarrow> version_kept q r \<Longrightarrow> version_kept p r"
  by (auto simp: version_kept_def)

lemma transition_into:
  "s \<in> set (PROPOSAL_TRANSITIONS s0) \<Longrightarrow> PROPOSAL_TRANSITIONS s0 \<noteq> []
     \<and> (s = APPLIED \<longleftrightarrow> s0 = APPROVED) \<and> (s = ROLLED_BACK \<longleftrightarrow> s0 = APPLIED)
     \<and> s \<noteq> DRAFT \<and> (s \<in> {APPROVED, REJECTED} \<longleftrightarrow> s0 = VERIFIED)"
  by (cases s0) auto

lemma advances_bound:
  assumes "approval_bound sha p" and "advances sha p p'"
  shows "approval_bound sha p' \<and> version_kept p p' \<and> pr_state p' \<noteq> APPLIED"
  using assms(2)
proof cases
  case (adv_state s)
  then have s: "s \<in> set (PROPOSAL_TRANSITIONS (pr_state p))"
    and p': "p' = p\<lparr>pr_state := s, pr_hash := patch_hash sha (pr_patch p) (pr_base_id p)\<rparr>"
    by (auto simp: with_state_Inr post_init_Inr)
  from transition_into [OF s] assms(1) adv_state(2,3) show ?thesis
    unfolding p' approval_bound_def version_kept_def by (cases "pr_state p") auto
next
  case (adv_approve a)
  then have s: "APPROVED \<in> set (PROPOSAL_TRANSITIONS (pr_state p))" and a: "ap_patch_hash a = pr_hash p"
    and p': "p' = p\<lparr>pr_state := APPROVED, pr_approval := Some a,
                   pr_hash := patch_hash sha (pr_patch p) (pr_base_id p)\<rparr>"
    by (auto simp: with_approval_Inr post_init_Inr)
  from transition_into [OF s] assms(1) a show ?thesis
    unfolding p' approval_bound_def version_kept_def by auto
qed

lemma applied_bound:
  assumes "approval_bound sha p" and "with_applied sha p i u = Inr p'"
  shows "approval_bound sha p' \<and> version_kept p p'
    \<and> pr_state p' = APPLIED \<and> pr_applied_id p' = Some i \<and> pr_inverse p' = Some u"
proof -
  have s: "APPLIED \<in> set (PROPOSAL_TRANSITIONS (pr_state p))"
    and p': "p' = p\<lparr>pr_state := APPLIED, pr_applied_id := Some i, pr_inverse := Some u,
                   pr_hash := patch_hash sha (pr_patch p) (pr_base_id p)\<rparr>"
    using assms(2) by (auto simp: with_applied_Inr post_init_Inr)
  from transition_into [OF s] assms(1) show ?thesis
    unfolding p' approval_bound_def version_kept_def by auto
qed

definition proposals_inv :: "(string \<Rightarrow> string) \<Rightarrow> proposal_store \<Rightarrow> bool" where
  "proposals_inv sha ps \<longleftrightarrow>
     (\<forall>k p. map_of ps k = Some p \<longrightarrow> k = (pr_tenant_id p, pr_id p) \<and> approval_bound sha p)"

lemma proposals_inv_save:
  assumes "proposals_inv sha ps" and "approval_bound sha p"
  shows "proposals_inv sha (save_proposal ps p)"
  using assms by (auto simp: proposals_inv_def save_proposal_def)

text \<open>One act: the records present stay the same version, and the invariant holds after it.\<close>

lemma change_step_proposals:
  assumes inv: "proposals_inv (cw_sha c) (cs_proposals st)" and "change_step c st st'"
  shows "proposals_inv (cw_sha c) (cs_proposals st')"
    and "map_of (cs_proposals st) k = Some q \<Longrightarrow>
      \<exists>q'. map_of (cs_proposals st') k = Some q' \<and> version_kept q q'"
proof -
  have saved: "proposals_inv (cw_sha c) (save_proposal (cs_proposals st) p') \<and>
      (map_of (cs_proposals st) k = Some q \<longrightarrow>
        (\<exists>q'. map_of (save_proposal (cs_proposals st) p') k = Some q' \<and> version_kept q q'))"
    if p: "map_of (cs_proposals st) k' = Some p" "approval_bound (cw_sha c) p'" "version_kept p p'" for k' p p'
  proof -
    have "k' = (pr_tenant_id p, pr_id p)"
      using inv p(1) unfolding proposals_inv_def by blast
    then have m: "map_of (save_proposal (cs_proposals st) p') = (map_of (cs_proposals st))(k' \<mapsto> p')"
      using p(3) by (simp add: save_proposal_def version_kept_def)
    show ?thesis
    proof (cases "k = k'")
      case True
      then show ?thesis using p proposals_inv_save [OF inv p(2)] m by auto
    next
      case False
      then show ?thesis using proposals_inv_save [OF inv p(2)] m by simp
    qed
  qed
  have bound: "approval_bound (cw_sha c) p" if "map_of (cs_proposals st) k' = Some p" for k' p
    using inv that unfolding proposals_inv_def by blast
  from change_effect [OF assms(2)] consider
      "cs_proposals st' = cs_proposals st"
    | k' p p' where "map_of (cs_proposals st) k' = Some p" "advances (cw_sha c) p p'"
        "cs_proposals st' = save_proposal (cs_proposals st) p'"
    | p where "new_draft (cw_sha c) (cs_proposals st) p" "cs_proposals st' = save_proposal (cs_proposals st) p"
    | t i p p' where "map_of (cs_proposals st) (t, i) = Some p"
        "applies (cw_sha c) (cs_snapshots st) t p p' (cs_snapshots st')"
        "cs_proposals st' = save_proposal (cs_proposals st) p'"
    unfolding proposals_step_def by blast
  then have "proposals_inv (cw_sha c) (cs_proposals st') \<and> (map_of (cs_proposals st) k = Some q \<longrightarrow>
      (\<exists>q'. map_of (cs_proposals st') k = Some q' \<and> version_kept q q'))"
  proof cases
    case 1
    with inv show ?thesis by simp
  next
    case (2 k' p p')
    with saved [OF 2(1)] advances_bound [OF bound [OF 2(1)] 2(2)] show ?thesis by simp
  next
    case (3 p)
    then have "approval_bound (cw_sha c) p" by (simp add: new_draft_def approval_bound_def)
    with proposals_inv_save [OF inv] 3 show ?thesis
      by (auto simp: new_draft_def save_proposal_def)
  next
    case (4 t i p p')
    from 4(2) obtain i' u where "with_applied (cw_sha c) p i' u = Inr p'"
      by (auto simp: applies_def)
    from applied_bound [OF bound [OF 4(1)] this] saved [OF 4(1)] 4(3) show ?thesis by simp
  qed
  then show "proposals_inv (cw_sha c) (cs_proposals st')"
    and "map_of (cs_proposals st) k = Some q \<Longrightarrow>
      \<exists>q'. map_of (cs_proposals st') k = Some q' \<and> version_kept q q'" by simp_all
qed

lemma change_reachable_proposals: "change_reachable c st \<Longrightarrow> proposals_inv (cw_sha c) (cs_proposals st)"
proof (induction rule: change_reachable.induct)
  case (reach_init evs w)
  show ?case by (simp add: proposals_inv_def)
next
  case (reach_step st st')
  then show ?case by (blast intro: change_step_proposals(1))
qed

lemma version_kept_steps:
  assumes "(change_step c)\<^sup>*\<^sup>* st st'" and "proposals_inv (cw_sha c) (cs_proposals st)"
    and "map_of (cs_proposals st) k = Some p"
  shows "\<exists>p'. map_of (cs_proposals st') k = Some p' \<and> version_kept p p'"
proof -
  have "proposals_inv (cw_sha c) (cs_proposals st')
      \<and> (\<exists>p'. map_of (cs_proposals st') k = Some p' \<and> version_kept p p')"
    using assms
  proof (induction rule: rtranclp_induct)
    case base
    then show ?case by auto
  next
    case (step y z)
    then obtain p' where inv: "proposals_inv (cw_sha c) (cs_proposals y)"
      and p': "map_of (cs_proposals y) k = Some p'" "version_kept p p'" by blast
    from change_step_proposals [OF inv step.hyps(2)] p' show ?case
      by (blast intro: version_kept_trans)
  qed
  then show ?thesis by blast
qed

text \<open>
  C37. In every state the acts can reach, a proposal is approved, applied or rolled back exactly when it
  carries an approval, and that approval cites the hash of this proposal's own patch and base; whatever
  acts follow, the proposal's tenant, author, patch, base, hash and approval stay as they are, and a
  failed, rejected or rolled-back proposal never changes again.
\<close>

theorem approval_binds_the_version:
  assumes "change_reachable c st" and "map_of (cs_proposals st) k = Some p"
  shows "k = (pr_tenant_id p, pr_id p) \<and> approval_bound (cw_sha c) p
    \<and> (\<forall>st'. (change_step c)\<^sup>*\<^sup>* st st' \<longrightarrow>
         (\<exists>p'. map_of (cs_proposals st') k = Some p' \<and> version_kept p p'))"
proof -
  note inv = change_reachable_proposals [OF assms(1)]
  have "k = (pr_tenant_id p, pr_id p) \<and> approval_bound (cw_sha c) p"
    using inv assms(2) unfolding proposals_inv_def by blast
  with version_kept_steps [OF _ inv assms(2)] show ?thesis by blast
qed

section \<open>The content address\<close>

lemma utf8_Cons:
  "utf8 (c # s) = (if code_point c < 128 then [c]
     else [char_of (192 + code_point c div 64), char_of (128 + code_point c mod 64)]) @ utf8 s"
  by (simp add: utf8_def)

lemma two_bytes:
  "code_point (char_of (192 + code_point c div 64)) = 192 + code_point c div 64"
  "code_point (char_of (128 + code_point c mod 64)) = 128 + code_point c mod 64"
proof -
  have "code_point c div 64 < 4"
    using code_point_less [of c] by (intro less_mult_imp_div_less) simp
  then show "code_point (char_of (192 + code_point c div 64)) = 192 + code_point c div 64"
    by (intro code_point_char_of) simp
  have "code_point c mod 64 < 64" by simp
  then show "code_point (char_of (128 + code_point c mod 64)) = 128 + code_point c mod 64"
    by (intro code_point_char_of) linarith
qed

lemma utf8_head:
  "utf8 (c # s) = (if code_point c < 128 then c # utf8 s
     else char_of (192 + code_point c div 64) # char_of (128 + code_point c mod 64) # utf8 s)"
  by (simp add: utf8_Cons)

lemma utf8_inj: "utf8 s = utf8 t \<Longrightarrow> s = t"
proof (induction s arbitrary: t)
  case Nil
  then show ?case by (cases t) (auto simp: utf8_def split: if_splits)
next
  case (Cons c s)
  then obtain d t' where t: "t = d # t'"
    by (cases t) (auto simp: utf8_def split: if_splits)
  note two = two_bytes
  have eq: "utf8 (c # s) = utf8 (d # t')" using Cons.prems t by simp
  consider "code_point c < 128" "code_point d < 128" | "\<not> code_point c < 128" "\<not> code_point d < 128"
    | "code_point c < 128" "\<not> code_point d < 128" | "\<not> code_point c < 128" "code_point d < 128" by blast
  then show ?case
  proof cases
    case 1
    with eq Cons.IH t show ?thesis by (simp add: utf8_head)
  next
    case 2
    with eq have e: "char_of (192 + code_point c div 64) = (char_of (192 + code_point d div 64) :: char)"
        "char_of (128 + code_point c mod 64) = (char_of (128 + code_point d mod 64) :: char)" "utf8 s = utf8 t'"
      by (simp_all add: utf8_head)
    from arg_cong [where f = code_point, OF e(1)] have "code_point c div 64 = code_point d div 64"
      unfolding two by simp
    moreover from arg_cong [where f = code_point, OF e(2)] have "code_point c mod 64 = code_point d mod 64"
      unfolding two by simp
    ultimately have "code_point c = code_point d" by (metis div_mult_mod_eq)
    with Cons.IH [OF e(3)] t show ?thesis by (simp add: code_point_inj)
  next
    case 3
    with eq have "c = char_of (192 + code_point d div 64)" by (simp add: utf8_head)
    with 3(1) two(1) [of d] show ?thesis by simp
  next
    case 4
    with eq have "d = char_of (192 + code_point c div 64)" by (simp add: utf8_head)
    with 4(2) two(1) [of c] show ?thesis by simp
  qed
qed

lemma utf8_no_NUL: "NUL \<notin> set s \<Longrightarrow> NUL \<notin> set (utf8 s)"
proof (induction s)
  case (Cons c s)
  have z: "code_point NUL = 0" by (simp add: NUL_def code_point_def)
  have "code_point (char_of (192 + code_point c div 64)) \<noteq> 0"
      "code_point (char_of (128 + code_point c mod 64)) \<noteq> 0"
    by (simp_all add: two_bytes)
  with z have "NUL \<noteq> char_of (192 + code_point c div 64)" "NUL \<noteq> char_of (128 + code_point c mod 64)"
    by metis+
  with Cons show ?case by (simp add: utf8_head)
qed (simp add: utf8_def)

lemma valid_path_no_NUL: "validate_path p = None \<Longrightarrow> NUL \<notin> set p"
proof
  assume v: "validate_path p = None" and "NUL \<in> set p"
  moreover have "control_char NUL" by (simp add: control_char_def NUL_def code_point_def)
  ultimately have "list_ex control_char p" by (auto simp: list_ex_iff)
  with v show False by (auto simp: validate_path_def split: if_splits)
qed

lemma NUL_split: "NUL \<notin> set a \<Longrightarrow> NUL \<notin> set b \<Longrightarrow> a @ NUL # x = b @ NUL # y \<Longrightarrow> a = b \<and> x = y"
proof (induction a arbitrary: b)
  case Nil
  then show ?case by (cases b) auto
next
  case (Cons c a)
  then obtain b' where "b = c # b'" by (cases b) auto
  with Cons show ?case by auto
qed

text \<open>What is used of the digest: no two contents share one, and it prints without NUL.\<close>

definition digest_ok :: "(string \<Rightarrow> string) \<Rightarrow> bool" where
  "digest_ok sha \<longleftrightarrow> inj sha \<and> (\<forall>b. NUL \<notin> set (sha b))"

lemma manifest_rows_inj:
  assumes "digest_ok sha" and "\<forall>p \<in> fst ` set fs. validate_path p = None"
    and "\<forall>p \<in> fst ` set gs. validate_path p = None"
    and "concat (map (\<lambda>(p, b). utf8 p @ [NUL] @ sha b @ [NUL]) fs)
       = concat (map (\<lambda>(p, b). utf8 p @ [NUL] @ sha b @ [NUL]) gs)"
  shows "fs = gs"
  using assms(2-)
proof (induction fs arbitrary: gs)
  case Nil
  then show ?case by (cases gs) auto
next
  case (Cons f fs)
  then obtain g gs' where g: "gs = g # gs'" by (cases gs) (auto split: prod.splits)
  obtain p b q d where pq: "f = (p, b)" "g = (q, d)" by (cases f; cases g) auto
  have nul: "NUL \<notin> set (utf8 p)" "NUL \<notin> set (utf8 q)" "NUL \<notin> set (sha b)" "NUL \<notin> set (sha d)"
    using utf8_no_NUL [OF valid_path_no_NUL, of p] utf8_no_NUL [OF valid_path_no_NUL, of q]
      Cons.prems(1,2) g pq assms(1) by (simp_all add: digest_ok_def)
  let ?row = "\<lambda>(p, b). utf8 p @ [NUL] @ sha b @ [NUL]"
  have "utf8 p @ NUL # sha b @ NUL # concat (map ?row fs) = utf8 q @ NUL # sha d @ NUL # concat (map ?row gs')"
    using Cons.prems(3) g pq by simp
  from NUL_split [OF nul(1,2) this]
  have "utf8 p = utf8 q" "sha b @ NUL # concat (map ?row fs) = sha d @ NUL # concat (map ?row gs')" by simp_all
  moreover from NUL_split [OF nul(3,4) this(2)]
  have "sha b = sha d" "concat (map ?row fs) = concat (map ?row gs')" by simp_all
  moreover have "fs = gs'"
    by (rule Cons.IH) (use Cons.prems(1,2) g calculation in auto)
  ultimately show ?case
    using pq g utf8_inj assms(1) by (auto simp: digest_ok_def dest: injD)
qed

text \<open>Identity is content.\<close>

lemma snapshot_identity:
  assumes "digest_ok sha" and a: "snapshot_ok sha a" and b: "snapshot_ok sha b"
  shows "sn_id a = sn_id b \<longleftrightarrow> a = b"
proof
  assume "sn_id a = sn_id b"
  then have "manifest_text sha (sn_files a) = manifest_text sha (sn_files b)"
    using snapshot_okD(4) [OF a] snapshot_okD(4) [OF b] assms(1)
    by (auto simp: manifest_digest_def digest_ok_def dest: injD)
  moreover have "sort_key fst (sn_files a) = sn_files a" "sort_key fst (sn_files b) = sn_files b"
    using snapshot_okD(2) [OF a] snapshot_okD(2) [OF b] by (simp_all add: sort_key_id_if_sorted)
  ultimately have "sn_files a = sn_files b"
    using manifest_rows_inj [OF assms(1), of "sn_files a" "sn_files b"]
      snapshot_okD(3) [OF a] snapshot_okD(3) [OF b] by (simp add: manifest_text_def)
  with \<open>sn_id a = sn_id b\<close> show "a = b" by simp
qed simp

section \<open>Rollback\<close>

definition snapshots_inv :: "(string \<Rightarrow> string) \<Rightarrow> snapshot_store \<Rightarrow> bool" where
  "snapshots_inv sha sn \<longleftrightarrow> (\<forall>k s. map_of sn k = Some s \<longrightarrow> snapshot_ok sha s \<and> snd k = sn_id s)"

lemma stored_from_grows:
  assumes "digest_ok sha" and inv: "snapshots_inv sha sn" and "stored_from sha sn sn'"
  shows "snapshots_inv sha sn' \<and> map_of sn \<subseteq>\<^sub>m map_of sn'"
proof (cases "sn' = sn")
  case True
  with inv show ?thesis by simp
next
  case False
  with assms(3) obtain t s where sn': "sn' = AList.update (t, sn_id s) s sn"
    and "snapshot_ok sha s \<or> (\<exists>k s0 p. map_of sn k = Some s0 \<and> apply_patch sha s0 p = Inr s)"
    unfolding stored_from_def by blast
  then have ok: "snapshot_ok sha s"
    using inv apply_patch_ok unfolding snapshots_inv_def by blast
  have "s' = s" if "map_of sn (t, sn_id s) = Some s'" for s'
  proof -
    have "snapshot_ok sha s' \<and> snd (t, sn_id s) = sn_id s'"
      using inv that unfolding snapshots_inv_def by blast
    with snapshot_identity [OF assms(1) _ ok, of s'] show ?thesis by simp
  qed
  then have "map_of sn \<subseteq>\<^sub>m map_of sn'"
    unfolding map_le_def sn' by auto
  moreover have "snapshots_inv sha sn'"
    using inv ok unfolding snapshots_inv_def sn' by auto
  ultimately show ?thesis by blast
qed

definition applied_recorded :: "(string \<Rightarrow> string) \<Rightarrow> snapshot_store \<Rightarrow> uuid \<Rightarrow> proposal \<Rightarrow> bool" where
  "applied_recorded sha sn t p \<longleftrightarrow>
     (\<exists>base applied undo. map_of sn (t, pr_base_id p) = Some base
        \<and> apply_patch sha base (pr_patch p) = Inr applied \<and> invert_patch (pr_patch p) base = Inr undo
        \<and> map_of sn (t, sn_id applied) = Some applied
        \<and> pr_applied_id p = Some (sn_id applied) \<and> pr_inverse p = Some undo)"

lemma applied_recorded_grows:
  "applied_recorded sha sn t p \<Longrightarrow> map_of sn \<subseteq>\<^sub>m map_of sn' \<Longrightarrow> applied_recorded sha sn' t p"
  unfolding applied_recorded_def map_le_def by (metis domI)

definition rollback_inv :: "'w change_workflow \<Rightarrow> 'w change_state \<Rightarrow> bool" where
  "rollback_inv c st \<longleftrightarrow> snapshots_inv (cw_sha c) (cs_snapshots st)
     \<and> proposals_inv (cw_sha c) (cs_proposals st)
     \<and> (\<forall>t i p. map_of (cs_proposals st) (t, i) = Some p \<longrightarrow> pr_state p = APPLIED
          \<longrightarrow> applied_recorded (cw_sha c) (cs_snapshots st) t p)"

lemma applies_recorded:
  assumes "approval_bound sha p" and "applies sha sn t p p' sn'" and "map_of sn \<subseteq>\<^sub>m map_of sn'"
  shows "applied_recorded sha sn' t p'"
proof -
  from assms(2) obtain base applied undo where a: "map_of sn (t, pr_base_id p) = Some base"
      "apply_patch sha base (pr_patch p) = Inr applied" "invert_patch (pr_patch p) base = Inr undo"
      "with_applied sha p (sn_id applied) undo = Inr p'" "sn' = AList.update (t, sn_id applied) applied sn"
    unfolding applies_def by (auto simp: get_snapshot_Inr)
  note b = applied_bound [OF assms(1) a(4)]
  have "map_of sn' (t, pr_base_id p) = Some base"
    using assms(3) a(1) by (metis domI map_le_def)
  with a b show ?thesis
    unfolding applied_recorded_def version_kept_def by auto
qed

lemma rollback_inv_step:
  assumes dig: "digest_ok (cw_sha c)" and inv: "rollback_inv c st" and step: "change_step c st st'"
  shows "rollback_inv c st'"
proof -
  note eff = change_effect [OF step]
  have sn: "snapshots_inv (cw_sha c) (cs_snapshots st)" and ps: "proposals_inv (cw_sha c) (cs_proposals st)"
    and rec: "\<And>t i p. map_of (cs_proposals st) (t, i) = Some p \<Longrightarrow> pr_state p = APPLIED
       \<Longrightarrow> applied_recorded (cw_sha c) (cs_snapshots st) t p"
    using inv by (simp_all add: rollback_inv_def)
  have grow: "snapshots_inv (cw_sha c) (cs_snapshots st')" "map_of (cs_snapshots st) \<subseteq>\<^sub>m map_of (cs_snapshots st')"
    using stored_from_grows [OF dig sn conjunct1 [OF eff]] by simp_all
  have key: "(t, i) = (pr_tenant_id p, pr_id p)" and bound: "approval_bound (cw_sha c) p"
    if "map_of (cs_proposals st) (t, i) = Some p" for t i p
    using ps that unfolding proposals_inv_def by blast+
  have save: "applied_recorded (cw_sha c) (cs_snapshots st') t q"
    if "cs_proposals st' = save_proposal (cs_proposals st) p'" "map_of (cs_proposals st') (t, i) = Some q"
      "pr_state q = APPLIED"
      "q = p' \<Longrightarrow> t = pr_tenant_id p' \<Longrightarrow> applied_recorded (cw_sha c) (cs_snapshots st') t p'" for p' t i q
    using that applied_recorded_grows [OF rec grow(2)]
    by (cases "(t, i) = (pr_tenant_id p', pr_id p')") (auto simp: save_proposal_def)
  have "applied_recorded (cw_sha c) (cs_snapshots st') t q"
    if q: "map_of (cs_proposals st') (t, i) = Some q" "pr_state q = APPLIED" for t i q
  proof -
    from conjunct2 [OF eff] consider
        "cs_proposals st' = cs_proposals st"
      | k p p' where "map_of (cs_proposals st) k = Some p" "advances (cw_sha c) p p'"
          "cs_proposals st' = save_proposal (cs_proposals st) p'"
      | p where "new_draft (cw_sha c) (cs_proposals st) p" "cs_proposals st' = save_proposal (cs_proposals st) p"
      | t' i' p p' where "map_of (cs_proposals st) (t', i') = Some p"
          "applies (cw_sha c) (cs_snapshots st) t' p p' (cs_snapshots st')"
          "cs_proposals st' = save_proposal (cs_proposals st) p'"
      unfolding proposals_step_def by blast
    then show ?thesis
    proof cases
      case 1
      with q rec grow(2) show ?thesis by (auto intro: applied_recorded_grows)
    next
      case (2 k p p')
      have "pr_state p' \<noteq> APPLIED"
        using 2(1,2) advances_bound bound by (cases k) blast
      with q save [OF 2(3) q] show ?thesis by blast
    next
      case (3 p)
      then have "pr_state p \<noteq> APPLIED" by (simp add: new_draft_def)
      with q save [OF 3(2) q] show ?thesis by blast
    next
      case (4 t' i' p p')
      from 4(2) obtain j u where "with_applied (cw_sha c) p j u = Inr p'" by (auto simp: applies_def)
      with applied_bound [OF bound [OF 4(1)] this] key [OF 4(1)] have "pr_tenant_id p' = t'"
        by (simp add: version_kept_def)
      with save [OF 4(3) q] applies_recorded [OF bound [OF 4(1)] 4(2) grow(2)] show ?thesis by blast
    qed
  qed
  with grow(1) change_step_proposals(1) [OF ps step] show ?thesis
    by (auto simp: rollback_inv_def)
qed

lemma change_reachable_rollback_inv:
  "change_reachable c st \<Longrightarrow> digest_ok (cw_sha c) \<Longrightarrow> rollback_inv c st"
proof (induction rule: change_reachable.induct)
  case (reach_init evs w)
  show ?case by (simp add: rollback_inv_def snapshots_inv_def proposals_inv_def)
next
  case (reach_step st st')
  then show ?case by (blast intro: rollback_inv_step)
qed

text \<open>
  C38. Rolling back an applied proposal of any reachable state succeeds, leaves the base snapshot in
  place under its id, and its audit row says that the restored snapshot matches the base.  The digest
  is taken to be collision free and to print without NUL.
\<close>

theorem rollback_restores_the_base:
  assumes "digest_ok (cw_sha c)" and "change_reachable c st"
    and "get_proposal (cs_proposals st) t i = Inr p" and "pr_state p = APPLIED"
  shows "\<exists>st' p' base. rollback_proposal c ad st t i = (st', Inr p')
    \<and> pr_state p' = ROLLED_BACK \<and> version_kept p p'
    \<and> get_proposal (cs_proposals st') t i = Inr p'
    \<and> get_snapshot (cw_sha c) (cs_snapshots st) t (pr_base_id p) = Inr base
    \<and> get_snapshot (cw_sha c) (cs_snapshots st') t (pr_base_id p) = Inr base
    \<and> (cw_audited c \<longrightarrow> (\<exists>e. cs_audit st' = cs_audit st @ [e]
         \<and> map_of (ae_details e) ''restored_matches_base'' = Some (JBool True)))"
proof -
  have inv: "rollback_inv c st" by (rule change_reachable_rollback_inv [OF assms(2,1)])
  have p: "map_of (cs_proposals st) (t, i) = Some p" using assms(3) by (simp add: get_proposal_Inr)
  from inv p assms(4) have rec: "applied_recorded (cw_sha c) (cs_snapshots st) t p"
    and key: "t = pr_tenant_id p" "i = pr_id p" and bound: "approval_bound (cw_sha c) p"
    and sn: "snapshots_inv (cw_sha c) (cs_snapshots st)"
    unfolding rollback_inv_def proposals_inv_def by blast+
  from rec obtain base applied undo where r: "map_of (cs_snapshots st) (t, pr_base_id p) = Some base"
      "apply_patch (cw_sha c) base (pr_patch p) = Inr applied" "invert_patch (pr_patch p) base = Inr undo"
      "map_of (cs_snapshots st) (t, sn_id applied) = Some applied"
      "pr_applied_id p = Some (sn_id applied)" "pr_inverse p = Some undo"
    unfolding applied_recorded_def by blast
  have ok: "snapshot_ok (cw_sha c) base" "sn_id base = pr_base_id p" "snapshot_ok (cw_sha c) applied"
    using sn r(1,4) unfolding snapshots_inv_def by force+
  have restored: "apply_patch (cw_sha c) applied undo = Inr base"
    using patch_undone_restores [OF ok(1) _ r(2)] invert_patch_undone(1) [of "pr_patch p" base] bound r(2,3)
    by (auto simp: approval_bound_def apply_patch_Inr)
  define p' where "p' = p\<lparr>pr_state := ROLLED_BACK\<rparr>"
  have p': "with_state (cw_sha c) p ROLLED_BACK = Inr p'"
    using bound assms(4) by (simp add: with_state_Inr post_init_Inr p'_def approval_bound_def)
  define st1 where "st1 = st\<lparr>cs_snapshots := AList.update (t, sn_id base) base (cs_snapshots st),
    cs_proposals := save_proposal (cs_proposals st) p'\<rparr>"
  define row where "row = [(''restored_snapshot_id'', JStr (sn_id base)),
    (''restored_matches_base'', JBool (sn_id base = pr_base_id p))]"
  have run: "rollback_proposal c ad st t i = (record_act c ad st1 p' ''rollback'' row, Inr p')"
    using p r(1,4,5,6) ok restored p' snapshot_ok_integrity
    by (simp add: rollback_proposal_def get_proposal_def get_snapshot_def save_snapshot_def
        conclude_act_def st1_def row_def)
  have "version_kept p p'" using assms(4) by (simp add: version_kept_def p'_def)
  moreover have "get_proposal (cs_proposals st1) t i = Inr p'"
    using key by (simp add: get_proposal_Inr st1_def save_proposal_def p'_def)
  moreover have "get_snapshot (cw_sha c) (cs_snapshots st) t (pr_base_id p) = Inr base"
      "get_snapshot (cw_sha c) (cs_snapshots st1) t (pr_base_id p) = Inr base"
    using r(1) ok snapshot_ok_integrity by (simp_all add: get_snapshot_Inr st1_def)
  moreover have "\<exists>e. cs_audit (record_act c ad st1 p' ''rollback'' row) = cs_audit st @ [e]
         \<and> map_of (ae_details e) ''restored_matches_base'' = Some (JBool True)" if "cw_audited c"
    using record_act_row [OF that, of ad st1 p' "''rollback''" row] ok(2)
    by (auto simp: st1_def row_def)
  moreover have "pr_state p' = ROLLED_BACK" by (simp add: p'_def)
  ultimately show ?thesis
    unfolding run by (intro exI [of _ "record_act c ad st1 p' ''rollback'' row"] exI [of _ p'] exI [of _ base]) simp
qed

section \<open>A worked lifecycle\<close>

definition ex_hex :: "string \<Rightarrow> string" where
  "ex_hex s = concat (map (\<lambda>c. [char_of (65 + code_point c div 16), char_of (65 + code_point c mod 16)]) s)"

lemma ex_hex_bytes:
  "code_point (char_of (65 + code_point c div 16)) = 65 + code_point c div 16"
  "code_point (char_of (65 + code_point c mod 16)) = 65 + code_point c mod 16"
proof -
  have "code_point c div 16 < 16"
    using code_point_less [of c] by (intro less_mult_imp_div_less) simp
  then show "code_point (char_of (65 + code_point c div 16)) = 65 + code_point c div 16"
    by (intro code_point_char_of) simp
  have "code_point c mod 16 < 16" by simp
  then show "code_point (char_of (65 + code_point c mod 16)) = 65 + code_point c mod 16"
    by (intro code_point_char_of) linarith
qed

lemma ex_hex_inj: "ex_hex s = ex_hex t \<Longrightarrow> s = t"
proof (induction s arbitrary: t)
  case Nil
  then show ?case by (cases t) (auto simp: ex_hex_def)
next
  case (Cons c s)
  then obtain d t' where t: "t = d # t'" by (cases t) (auto simp: ex_hex_def)
  with Cons.prems have e: "char_of (65 + code_point c div 16) = (char_of (65 + code_point d div 16) :: char)"
      "char_of (65 + code_point c mod 16) = (char_of (65 + code_point d mod 16) :: char)"
      "ex_hex s = ex_hex t'"
    by (simp_all add: ex_hex_def)
  from arg_cong [where f = code_point, OF e(1)] have "code_point c div 16 = code_point d div 16"
    unfolding ex_hex_bytes by simp
  moreover from arg_cong [where f = code_point, OF e(2)] have "code_point c mod 16 = code_point d mod 16"
    unfolding ex_hex_bytes by simp
  ultimately have "code_point c = code_point d" by (metis div_mult_mod_eq)
  with Cons.IH [OF e(3)] t show ?case by (simp add: code_point_inj)
qed

lemma ex_hex_digest_ok: "digest_ok ex_hex"
proof -
  have "code_point NUL = 0" by (simp add: NUL_def code_point_def)
  moreover have "code_point x \<noteq> 0" if "x \<in> set (ex_hex s)" for x s
    using that by (auto simp: ex_hex_def ex_hex_bytes)
  ultimately have "NUL \<notin> set (ex_hex s)" for s by metis
  then show ?thesis by (auto simp: digest_ok_def inj_def dest: ex_hex_inj)
qed

definition ex_flow :: "unit change_workflow" where
  "ex_flow = \<lparr>cw_sha = ex_hex, cw_sandbox = hermetic_sandbox ex_hex,
     cw_suite = \<lparr>vs_name = ''s'', vs_checks = [\<lparr>sc_name = ''n'', sc_predicate = (\<lambda>s. Inr (sn_files s \<noteq> []))\<rparr>]\<rparr>,
     cw_audited = True, cw_applier = False\<rparr>"

definition ex_sbase :: source_snapshot where
  "ex_sbase = \<lparr>sn_id = manifest_digest ex_hex [(''a'', ''x'')], sn_files = [(''a'', ''x'')]\<rparr>"

definition ex_spatch :: source_patch where
  "ex_spatch = [\<lparr>po_kind = MODIFY_FILE, po_path = ''a'', po_content = Some ''y''\<rparr>,
                \<lparr>po_kind = ADD_FILE, po_path = ''b'', po_content = Some ''''\<rparr>]"

definition ex_ad :: act_draw where
  "ex_ad = \<lparr>ad_event_id = 1, ad_now = 5, ad_new_id = 9\<rparr>"

definition ex_c0 :: "unit change_state" where
  "ex_c0 = \<lparr>cs_snapshots = [], cs_proposals = [], cs_audit = [], cs_world = ()\<rparr>"

definition ex_c1 :: "unit change_state" where
  "ex_c1 = fst (register_base_snapshot ex_flow ex_c0 1 ex_sbase)"

definition ex_c2 :: "unit change_state" where
  "ex_c2 = fst (propose ex_flow ex_ad ex_c1 1 2 (sn_id ex_sbase) ex_spatch ''r'')"

definition ex_c3 :: "unit change_state" where
  "ex_c3 = fst (verify_proposal ex_flow ex_ad ex_c2 1 9)"

definition ex_c4 :: "unit change_state" where
  "ex_c4 = fst (approve_proposal ex_flow ex_ad ex_c3 1 9 3 (patch_hash ex_hex ex_spatch (sn_id ex_sbase)))"

definition ex_c5 :: "unit change_state" where
  "ex_c5 = fst (apply_proposal ex_flow ex_ad ex_c4 1 9)"

definition ex_sapplied :: source_snapshot where
  "ex_sapplied = \<lparr>sn_id = manifest_digest ex_hex [(''a'', ''y''), (''b'', [])],
     sn_files = [(''a'', ''y''), (''b'', [])]\<rparr>"

definition ex_p0 :: proposal where
  "ex_p0 = \<lparr>pr_tenant_id = 1, pr_actor_id = 2, pr_base_id = sn_id ex_sbase, pr_patch = ex_spatch,
     pr_rationale = ''r'', pr_id = 9, pr_state = DRAFT,
     pr_hash = patch_hash ex_hex ex_spatch (sn_id ex_sbase), pr_created_at = 5, pr_approval = None,
     pr_applied_id = None, pr_inverse = None\<rparr>"

lemma ex_paths: "validate_path ''a'' = None" "validate_path ''b'' = None"
  by code_simp+

lemma ex_values:
  "snapshot_ok ex_hex ex_sbase" "snapshot_ok ex_hex ex_sapplied" "patch_ok ex_spatch"
  "apply_patch ex_hex ex_sbase ex_spatch = Inr ex_sapplied"
  by (simp_all add: snapshot_ok_def snapshot_from_files_Inr ex_sbase_def ex_sapplied_def ex_paths patch_ok_def
      operation_ok_iff make_patchI ex_spatch_def apply_patch_Inr operation_fault_None apply_operation_def)

lemma ex_undo: "invert_patch ex_spatch ex_sbase = Inr (map (undone (sn_files ex_sbase)) ex_spatch)"
  using ex_values(3,4) by (intro invert_patch_undone) (simp_all add: apply_patch_Inr)

lemma ex_flow_sel [simp]: "cw_sha ex_flow = ex_hex"
  by (simp add: ex_flow_def)

lemma ex_differential:
  "\<exists>d. verify_differential (cw_sandbox ex_flow) w ex_sbase ex_sapplied (cw_suite ex_flow) = (w, Inr d)
     \<and> df_verdict d = VERDICT_PASS"
  using snapshot_ok_integrity [OF ex_values(1)] snapshot_ok_integrity [OF ex_values(2)]
  by (simp add: ex_flow_def verify_differential_def verified_twice_def hermetic_sandbox_def run_check_def
      differential_def by_name_def Let_def report_passed_def ex_sbase_def ex_sapplied_def)

lemma ex_stage1:
  "cs_snapshots ex_c1 = [((1, sn_id ex_sbase), ex_sbase)]" "cs_proposals ex_c1 = []"
  using snapshot_ok_integrity [OF ex_values(1)]
  by (simp_all add: ex_c1_def ex_c0_def register_base_snapshot_def save_snapshot_def)

lemma ex_stage2:
  "cs_snapshots ex_c2 = [((1, sn_id ex_sbase), ex_sbase)]" "cs_proposals ex_c2 = [((1, 9), ex_p0)]"
  using snapshot_ok_integrity [OF ex_values(1)]
  by (simp_all add: ex_c2_def propose_def ex_stage1 get_snapshot_def post_init_def Let_def save_proposal_def
      ex_ad_def ex_p0_def)

lemma ex_stage3:
  "map_of (cs_snapshots ex_c3) (1, sn_id ex_sbase) = Some ex_sbase"
  "cs_proposals ex_c3 = [((1, 9), ex_p0\<lparr>pr_state := VERIFIED\<rparr>)]"
proof -
  obtain d where d: "verify_differential (cw_sandbox ex_flow) () ex_sbase ex_sapplied
      (cw_suite ex_flow) = ((), Inr d)" "df_verdict d = VERDICT_PASS"
    using ex_differential by blast
  have p: "pr_base_id ex_p0 = sn_id ex_sbase" "pr_patch ex_p0 = ex_spatch" "pr_tenant_id ex_p0 = 1"
      "pr_id ex_p0 = 9" by (simp_all add: ex_p0_def)
  have s: "with_state ex_hex ex_p0 VERIFIED = Inr (ex_p0\<lparr>pr_state := VERIFIED\<rparr>)"
    by (simp add: with_state_Inr post_init_Inr ex_p0_def)
  have "sn_id ex_sapplied \<noteq> sn_id ex_sbase"
    using snapshot_identity [OF ex_hex_digest_ok ex_values(2,1)] by (simp add: ex_sbase_def ex_sapplied_def)
  then show "map_of (cs_snapshots ex_c3) (1, sn_id ex_sbase) = Some ex_sbase"
      "cs_proposals ex_c3 = [((1, 9), ex_p0\<lparr>pr_state := VERIFIED\<rparr>)]"
    using snapshot_ok_integrity [OF ex_values(1)] snapshot_ok_integrity [OF ex_values(2)]
    by (simp_all add: ex_c3_def verify_proposal_def get_proposal_def ex_stage2 get_snapshot_def p d s
        ex_values(4) save_snapshot_def conclude_act_def save_proposal_def)
qed

lemma ex_stage4:
  "cs_snapshots ex_c4 = cs_snapshots ex_c3"
  "\<exists>p. cs_proposals ex_c4 = [((1, 9), p)] \<and> pr_state p = APPROVED \<and> pr_patch p = ex_spatch
     \<and> pr_base_id p = sn_id ex_sbase \<and> pr_hash p = pr_hash ex_p0 \<and> pr_tenant_id p = 1 \<and> pr_id p = 9"
  by (simp_all add: ex_c4_def approve_proposal_def get_proposal_def ex_stage3 conclude_act_def
      with_approval_def proposal_transition_def post_init_def Let_def save_proposal_def ex_p0_def)

lemma ex_stage5:
  "\<exists>p. cs_proposals ex_c5 = [((1, 9), p)] \<and> pr_state p = APPLIED"
proof -
  obtain p where p: "cs_proposals ex_c4 = [((1, 9), p)]" "pr_state p = APPROVED" "pr_patch p = ex_spatch"
     "pr_base_id p = sn_id ex_sbase" "pr_hash p = pr_hash ex_p0" "pr_tenant_id p = 1" "pr_id p = 9"
    using ex_stage4(2) by blast
  show ?thesis
    using snapshot_ok_integrity [OF ex_values(1)] snapshot_ok_integrity [OF ex_values(2)]
    by (simp add: ex_c5_def apply_proposal_def get_proposal_def p ex_stage4(1) ex_stage3(1) [simplified] get_snapshot_def
        ex_values(4) ex_undo save_snapshot_def with_applied_def proposal_transition_def post_init_def Let_def
        save_proposal_def ex_p0_def split: prod.split)
qed

lemma ex_c5_reachable: "change_reachable ex_flow ex_c5"
proof -
  have r0: "change_reachable ex_flow ex_c0" unfolding ex_c0_def by (rule reach_init)
  have "change_step ex_flow ex_c0 ex_c1"
    unfolding ex_c1_def by (rule st_register [OF _ surjective_pairing]) (simp add: ex_values)
  note r1 = reach_step [OF r0 this]
  have "change_step ex_flow ex_c1 ex_c2"
    unfolding ex_c2_def by (rule st_propose [OF ex_values(3) _ surjective_pairing]) (simp add: ex_stage1)
  note r2 = reach_step [OF r1 this]
  have "change_step ex_flow ex_c2 ex_c3"
    unfolding ex_c3_def by (rule st_verify [OF surjective_pairing])
  note r3 = reach_step [OF r2 this]
  have "change_step ex_flow ex_c3 ex_c4"
    unfolding ex_c4_def by (rule st_approve [OF surjective_pairing])
  note r4 = reach_step [OF r3 this]
  have "change_step ex_flow ex_c4 ex_c5"
    unfolding ex_c5_def by (rule st_apply [OF surjective_pairing])
  with r4 show ?thesis by (rule reach_step)
qed

text \<open>
  C36. The rollback law: whenever a constructed patch applies to a snapshot, its computed inverse is a
  constructed patch, applying that to the result gives back exactly the base snapshot, and the inverse
  of the inverse is the patch.
\<close>

theorem patch_round_trip:
  assumes "snapshot_ok sha base" and "patch_ok p" and "apply_patch sha base p = Inr s'"
  shows "snapshot_ok sha s'
    \<and> (\<exists>undo. invert_patch p base = Inr undo \<and> patch_ok undo \<and> apply_patch sha s' undo = Inr base
         \<and> invert_patch undo s' = Inr p)"
proof -
  have fine: "\<forall>x \<in> set p. operation_fault (sn_files base) x = None"
    using assms(3) by (simp add: apply_patch_Inr)
  note ok = apply_patch_ok [OF assms(1,3)]
  note undo = invert_patch_undone [OF assms(2) fine] patch_undone_restores [OF assms]
  have "undone (sn_files s') (undone (sn_files base) x) = x" if x: "x \<in> set p" for x
  proof -
    have "map_of (sn_files s') (po_path x) = po_content x" by (rule applied_content [OF assms x])
    then show ?thesis by (cases "po_kind x") (simp_all add: undone_def)
  qed
  then have "map (undone (sn_files s')) (map (undone (sn_files base)) p) = p"
    by (simp add: map_idI)
  moreover have "\<forall>x \<in> set (map (undone (sn_files base)) p). operation_fault (sn_files s') x = None"
    using undo(3) by (simp add: apply_patch_Inr)
  ultimately have "invert_patch (map (undone (sn_files base)) p) s' = Inr p"
    using invert_patch_undone(1) [OF undo(2)] by metis
  with ok undo show ?thesis by blast
qed

text \<open>A witness for the round trip, the approval and the rollback.\<close>

theorem patch_round_trip_witness:
  "\<exists>undo. invert_patch ex_spatch ex_sbase = Inr undo \<and> apply_patch ex_hex ex_sapplied undo = Inr ex_sbase"
  using patch_round_trip [OF ex_values(1,3,4)] by blast

theorem approval_binds_the_version_witness:
  "\<exists>p. map_of (cs_proposals ex_c5) (1, 9) = Some p \<and> pr_state p = APPLIED \<and> approval_bound ex_hex p"
proof -
  obtain p where p: "cs_proposals ex_c5 = [((1, 9), p)]" "pr_state p = APPLIED"
    using ex_stage5 by blast
  then have "map_of (cs_proposals ex_c5) (1, 9) = Some p" by simp
  from approval_binds_the_version [OF ex_c5_reachable this] p this show ?thesis by simp
qed

theorem rollback_restores_the_base_witness:
  "\<exists>p st' p'. get_proposal (cs_proposals ex_c5) 1 9 = Inr p
     \<and> rollback_proposal ex_flow ex_ad ex_c5 1 9 = (st', Inr p') \<and> pr_state p' = ROLLED_BACK"
proof -
  obtain p where p: "cs_proposals ex_c5 = [((1, 9), p)]" "pr_state p = APPLIED"
    using ex_stage5 by blast
  then have g: "get_proposal (cs_proposals ex_c5) 1 9 = Inr p" by (simp add: get_proposal_def)
  have "digest_ok (cw_sha ex_flow)" by (simp add: ex_hex_digest_ok)
  from rollback_restores_the_base [OF this ex_c5_reachable g p(2), of ex_ad] g show ?thesis by blast
qed

section \<open>What verification decides\<close>

lemma by_name_dom:
  "(n \<in> fst ` set (by_name r)) = (n \<in> ck_name ` set (vr_results r))"
proof -
  have "fst ` set (foldl (\<lambda>d c. AList.update (ck_name c) (ck_passed c) d) d rs)
      = fst ` set d \<union> ck_name ` set rs" for d and rs :: "check_result list"
    by (induction rs arbitrary: d) (auto simp: dom_update)
  from this [of "[]" "vr_results r"] show ?thesis by (simp add: by_name_def)
qed

lemma by_name_value:
  assumes "map_of (by_name r) n = Some b"
  shows "\<exists>k \<in> set (vr_results r). ck_name k = n \<and> ck_passed k = b"
proof -
  have "map_of (foldl (\<lambda>d c. AList.update (ck_name c) (ck_passed c) d) d rs) n = Some b \<Longrightarrow>
      map_of d n = Some b \<or> (\<exists>k \<in> set rs. ck_name k = n \<and> ck_passed k = b)" for d rs
    by (induction rs arbitrary: d) (fastforce split: if_splits)+
  from this [of "[]" "vr_results r"] assms show ?thesis by (simp add: by_name_def)
qed

text \<open>On the same check names, the verdict passes exactly when every check passes on the patched side.\<close>

lemma differential_pass_iff:
  assumes "ck_name ` set (vr_results b) = ck_name ` set (vr_results p)"
  shows "df_verdict (differential b p) = VERDICT_PASS \<longleftrightarrow> report_passed p"
proof -
  have "map_of (by_name p) n = Some True" if "report_passed p" "n \<in> fst ` set (by_name b)" for n
  proof -
    have "n \<in> fst ` set (by_name p)" using that(2) assms by (simp add: by_name_dom)
    then obtain v where v: "map_of (by_name p) n = Some v" by (metis map_of_eq_None_iff not_None_eq)
    from by_name_value [OF this] that(1) have v by (auto simp: report_passed_def list_all_iff)
    with v show ?thesis by simp
  qed
  then have "df_regressions (differential b p) = []" if "report_passed p"
    using that by (auto simp: differential_def Let_def filter_empty_conv)
  then show ?thesis by (auto simp: differential_def Let_def)
qed

lemma run_check_passed: "ck_passed (run_check s k) \<longleftrightarrow> sc_predicate k s = Inr True"
  by (auto simp: run_check_def split: sum.split)

lemma run_check_name [simp]: "ck_name (run_check s k) = sc_name k"
  by (simp add: run_check_def split: sum.split)

lemma hermetic_differential:
  assumes "verify_integrity sha base" and "verify_integrity sha patched"
  shows "\<exists>d. verify_differential (hermetic_sandbox sha) w base patched suite = (w, Inr d)
    \<and> (df_verdict d = VERDICT_PASS \<longleftrightarrow> (\<forall>k \<in> set (vs_checks suite). sc_predicate k patched = Inr True))"
proof -
  define rep where "rep s = \<lparr>vr_snapshot_id = sn_id s, vr_suite_name = vs_name suite,
    vr_results = map (run_check s) (vs_checks suite)\<rparr>" for s
  have "verify_differential (hermetic_sandbox sha) w base patched suite = (w, Inr (differential (rep base) (rep patched)))"
    using assms by (simp add: verify_differential_def verified_twice_def hermetic_sandbox_def rep_def)
  moreover have "ck_name ` set (vr_results (rep base)) = ck_name ` set (vr_results (rep patched))"
    by (simp add: rep_def image_image)
  ultimately show ?thesis
    by (simp add: differential_pass_iff) (simp add: rep_def report_passed_def list_all_iff run_check_passed)
qed

lemma apply_patch_integrity: "apply_patch sha s p = Inr s' \<Longrightarrow> verify_integrity sha s'"
  by (auto simp: apply_patch_Inr snapshot_from_files_Inr verify_integrity_def)

text \<open>
  C39. With the repository's own sandbox, a completed verification started from a draft, and it makes the
  proposal \<open>VERIFIED\<close> and stores the patched snapshot exactly when every check of the suite holds on
  the patched snapshot; otherwise the proposal fails for good and nothing is stored.
\<close>

theorem verification_decides_by_the_checks:
  assumes "cw_sandbox c = hermetic_sandbox (cw_sha c)" and "verify_proposal c ad st t i = (st', Inr p')"
  shows "\<exists>p base patched. get_proposal (cs_proposals st) t i = Inr p \<and> pr_state p = DRAFT
    \<and> get_snapshot (cw_sha c) (cs_snapshots st) t (pr_base_id p) = Inr base
    \<and> apply_patch (cw_sha c) base (pr_patch p) = Inr patched
    \<and> (if \<forall>k \<in> set (vs_checks (cw_suite c)). sc_predicate k patched = Inr True
       then pr_state p' = VERIFIED
         \<and> cs_snapshots st' = AList.update (t, sn_id patched) patched (cs_snapshots st)
       else pr_state p' = FAILED_VERIFICATION \<and> cs_snapshots st' = cs_snapshots st)"
  using assms(2)
proof (cases rule: verify_cases)
  case 1
  then show ?thesis by simp
next
  case (2 p base patched w report sn)
  let ?all = "\<forall>k \<in> set (vs_checks (cw_suite c)). sc_predicate k patched = Inr True"
  have "verify_integrity (cw_sha c) base" using 2(2) by (simp add: get_snapshot_Inr)
  from hermetic_differential [OF this apply_patch_integrity [OF 2(3)], of "cs_world st" "cw_suite c"] 2(4)
  have pass: "df_verdict report = VERDICT_PASS \<longleftrightarrow> ?all" by (simp add: assms(1))
  let ?to = "if df_verdict report = VERDICT_PASS then VERIFIED else FAILED_VERIFICATION"
  from 2(7) have "with_state (cw_sha c) p ?to = Inr p'" by auto
  then have to: "?to \<in> set (PROPOSAL_TRANSITIONS (pr_state p))" "pr_state p' = ?to"
    by (auto simp: with_state_Inr post_init_Inr)
  have "pr_state p = DRAFT" using to(1) by (cases "pr_state p") (auto split: if_splits)
  with 2(1,2,3,5,6) pass to(2) show ?thesis
    by (intro exI [of _ p] exI [of _ base] exI [of _ patched]) (simp add: get_proposal_Inr)
qed

text \<open>A witness on the worked lifecycle.\<close>

theorem verification_decides_by_the_checks_witness:
  "\<exists>p'. verify_proposal ex_flow ex_ad ex_c2 1 9 = (ex_c3, Inr p') \<and> pr_state p' = VERIFIED"
proof -
  have s: "cw_sandbox ex_flow = hermetic_sandbox (cw_sha ex_flow)" by (simp add: ex_flow_def)
  obtain r where r: "verify_proposal ex_flow ex_ad ex_c2 1 9 = (ex_c3, r)"
    unfolding ex_c3_def by (metis prod.collapse)
  have changed: "cs_proposals ex_c3 \<noteq> cs_proposals ex_c2"
    using ex_stage3(2) ex_stage2(2) by (simp add: ex_p0_def)
  have "is_ok r"
    using r changed by (cases rule: verify_cases) auto
  then obtain p' where p': "r = Inr p'" by (auto simp: is_ok_iff)
  from verification_decides_by_the_checks [OF s r [unfolded p']] ex_stage2 ex_values(4)
  have "\<forall>k \<in> set (vs_checks (cw_suite ex_flow)). sc_predicate k ex_sapplied = Inr True \<Longrightarrow> pr_state p' = VERIFIED"
    using snapshot_ok_integrity [OF ex_values(1)]
    by (auto simp: get_proposal_def get_snapshot_def ex_p0_def)
  moreover have "\<forall>k \<in> set (vs_checks (cw_suite ex_flow)). sc_predicate k ex_sapplied = Inr True"
    by (simp add: ex_flow_def ex_sapplied_def)
  ultimately show ?thesis using r p' by simp
qed

end
