(* ===== verification/Agent_Loop.thy ===== *)
theory Agent_Loop
  imports Tool_Executor Execution_Service Text_Patterns "HOL-Library.Sublist"
begin

text \<open>
  The bounded agent loop: the proposal validator of \<open>core/execution/agent.py\<close>, \<open>AgentLoop\<close> of
  \<open>core/execution/loop.py\<close> and the default final verifier of \<open>core/agent/runtime.py\<close>.  The
  model-call seam, the verifier seam, the clock and the tool executor act on one external world
  \<open>'w\<close>; \<open>gated_execute\<close> plugs in the executor of \<open>Tool_Executor\<close>.  The \<open>n\<close>-th identifier
  that \<open>id_factory\<close> returns is \<open>al_ids n\<close>.  Two argument objects whose sorted JSON text is equal
  are the same object up to key order, so a call's key is that value.  \<open>repr\<close> is a parameter.
\<close>

section \<open>Proposals\<close>

datatype agent_proposal =
    ToolCallProposal string json_object "string option"
  | FinalProposal json_object "string option"

datatype proposal_fault =
    ProposalNotObject
  | ToolCallExtraKeys "string list"
  | ToolCallNoArguments
  | ArgumentsNotObject
  | ToolNotText
  | ReasoningNotText
  | FinalExtraKeys "string list"
  | FinalNoOutput
  | OutputNotObject
  | UnknownAction json

definition TOOL_CALL_KEYS :: "string list" where
  "TOOL_CALL_KEYS = [''action'', ''tool'', ''arguments'', ''reasoning'']"

definition FINAL_KEYS :: "string list" where
  "FINAL_KEYS = [''action'', ''output'', ''reasoning'']"

definition extra_keys :: "json_object \<Rightarrow> string list \<Rightarrow> string list" where
  "extra_keys d allowed = sort (remdups (filter (\<lambda>k. k \<notin> set allowed) (map fst d)))"

definition optional_reasoning :: "json_object \<Rightarrow> proposal_fault + string option" where
  "optional_reasoning d =
     (case map_of d ''reasoning'' of
        None \<Rightarrow> Inr None
      | Some JNull \<Rightarrow> Inr None
      | Some (JStr s) \<Rightarrow> Inr (Some s)
      | Some _ \<Rightarrow> Inl ReasoningNotText)"

definition require_tool :: "json_object \<Rightarrow> proposal_fault + string" where
  "require_tool d =
     (case map_of d ''tool'' of
        Some (JStr s) \<Rightarrow> (if s = [] then Inl ToolNotText else Inr s)
      | _ \<Rightarrow> Inl ToolNotText)"

definition parse_tool_call :: "json_object \<Rightarrow> proposal_fault + agent_proposal" where
  "parse_tool_call d =
     (if extra_keys d TOOL_CALL_KEYS \<noteq> [] then Inl (ToolCallExtraKeys (extra_keys d TOOL_CALL_KEYS))
      else case map_of d ''arguments'' of
        None \<Rightarrow> Inl ToolCallNoArguments
      | Some (JObj arguments) \<Rightarrow>
          result_bind (require_tool d) (\<lambda>tool.
            map_sum id (ToolCallProposal tool arguments) (optional_reasoning d))
      | Some _ \<Rightarrow> Inl ArgumentsNotObject)"

definition parse_final :: "json_object \<Rightarrow> proposal_fault + agent_proposal" where
  "parse_final d =
     (if extra_keys d FINAL_KEYS \<noteq> [] then Inl (FinalExtraKeys (extra_keys d FINAL_KEYS))
      else case map_of d ''output'' of
        None \<Rightarrow> Inl FinalNoOutput
      | Some (JObj out) \<Rightarrow> map_sum id (FinalProposal out) (optional_reasoning d)
      | Some _ \<Rightarrow> Inl OutputNotObject)"

definition parse_agent_proposal :: "json \<Rightarrow> proposal_fault + agent_proposal" where
  "parse_agent_proposal raw =
     (case raw of
        JObj d \<Rightarrow>
          if map_of d ''action'' = Some (JStr ''tool_call'') then parse_tool_call d
          else if map_of d ''action'' = Some (JStr ''final'') then parse_final d
          else Inl (UnknownAction (case map_of d ''action'' of None \<Rightarrow> JNull | Some a \<Rightarrow> a))
      | _ \<Rightarrow> Inl ProposalNotObject)"

fun proposal_reason :: "(json \<Rightarrow> string) \<Rightarrow> proposal_fault \<Rightarrow> string" where
  "proposal_reason repr ProposalNotObject = ''proposal must be a JSON object''"
| "proposal_reason repr (ToolCallExtraKeys ks) =
     ''unexpected keys for tool_call: '' @ repr (JList (map JStr ks))"
| "proposal_reason repr ToolCallNoArguments = ''tool_call requires arguments''"
| "proposal_reason repr ArgumentsNotObject = ''arguments must be a JSON object''"
| "proposal_reason repr ToolNotText = ''tool must be a non-empty string''"
| "proposal_reason repr ReasoningNotText = ''reasoning must be a string when present''"
| "proposal_reason repr (FinalExtraKeys ks) =
     ''unexpected keys for final: '' @ repr (JList (map JStr ks))"
| "proposal_reason repr FinalNoOutput = ''final requires output''"
| "proposal_reason repr OutputNotObject = ''output must be a JSON object''"
| "proposal_reason repr (UnknownAction a) =
     ''action must be one of '' @ repr (JList [JStr ''final'', JStr ''tool_call'']) @ '', got '' @ repr a"

section \<open>The loop's configuration and state\<close>

record agent_tool_binding =
  agb_tool_id :: uuid
  agb_permission :: string
  agb_resource :: string
  agb_scope :: string
  agb_entitlement :: string
  agb_risk_level :: string
  agb_approval_state :: "approval_state option"
  agb_device_id :: "uuid option"
  agb_estimated_units :: units

text \<open>What a seam does: return, raise an \<open>Exception\<close> (printed \<open>Type: message\<close>), or be cancelled.\<close>

datatype seam_outcome = SeamReturned json | SeamRaised string | SeamCancelled

record 'w agent_loop =
  al_propose :: "'w \<Rightarrow> json_object \<Rightarrow> 'w \<times> seam_outcome"
  al_execute :: "tool_call \<Rightarrow> 'w \<Rightarrow> 'w \<times> (executor_exn + tool_call_record)"
  al_call_draw :: "'w \<Rightarrow> 'w \<times> (uuid \<times> uuid \<times> timestamp)"
  al_bindings :: "string \<rightharpoonup> agent_tool_binding"
  al_max_steps :: nat
  al_verify :: "('w \<Rightarrow> json_object \<Rightarrow> json_object \<Rightarrow> 'w \<times> seam_outcome) option"
  al_ids :: "nat \<Rightarrow> uuid"
  al_max_repeated_failures :: nat
  al_deadline_ms :: "nat option"
  al_clock :: "'w \<Rightarrow> 'w \<times> rat"
  al_utc_now :: "'w \<Rightarrow> 'w \<times> timestamp"
  al_max_invalid_proposals :: nat
  al_max_propose_failures :: nat
  al_repr :: "json \<Rightarrow> string"

definition loop_refusal :: "'w agent_loop \<Rightarrow> string option" where
  "loop_refusal a =
     (if al_max_steps a < 1 then Some ''max_steps must be >= 1''
      else if al_max_repeated_failures a < 1 then Some ''max_repeated_failures must be >= 1''
      else if al_max_invalid_proposals a < 1 then Some ''max_invalid_proposals must be >= 1''
      else if al_max_propose_failures a < 1 then Some ''max_propose_failures must be >= 1''
      else case al_deadline_ms a of
             Some d \<Rightarrow> if d < 1 then Some ''deadline_ms must be >= 1 when set'' else None
           | None \<Rightarrow> None)"

record agent_request =
  arq_tenant_id :: uuid
  arq_user_id :: uuid
  arq_request :: json_object
  arq_request_hash :: string
  arq_actor :: actor_kind
  arq_actor_id :: "uuid option"
  arq_conversation_id :: "uuid option"
  arq_idempotency_key :: "string option"

datatype stop_reason =
    STOP_FINAL | STOP_MAX_STEPS | STOP_INVALID_PROPOSAL | STOP_PROPOSE_FAILED
  | STOP_VERIFICATION_FAILED | STOP_DEADLINE_EXCEEDED | STOP_REPEATED_FAILURE

fun stop_value :: "stop_reason \<Rightarrow> string" where
  "stop_value STOP_FINAL = ''final''"
| "stop_value STOP_MAX_STEPS = ''max_steps_exceeded''"
| "stop_value STOP_INVALID_PROPOSAL = ''invalid_proposal''"
| "stop_value STOP_PROPOSE_FAILED = ''propose_failed''"
| "stop_value STOP_VERIFICATION_FAILED = ''verification_failed''"
| "stop_value STOP_DEADLINE_EXCEEDED = ''deadline_exceeded''"
| "stop_value STOP_REPEATED_FAILURE = ''repeated_failure''"

record agent_step =
  as_index :: nat
  as_proposal_raw :: "json_object option"
  as_observation :: json_object
  as_tool_record :: "tool_call_record option"

type_synonym call_key = "string \<times> json"

record run_state =
  ags_nodes :: "execution_node list"
  ags_steps :: "agent_step list"
  ags_observations :: "json_object list"
  ags_evidence :: "json_object list"
  ags_failures :: "call_key \<rightharpoonup> nat"
  ags_tool_ok :: nat
  ags_tool_failed :: nat
  ags_repeated_refused :: nat
  ags_invalid_streak :: nat
  ags_invalid_total :: nat
  ags_fault_streak :: nat
  ags_faults_total :: nat

text \<open>The run state with the loop's three locals.\<close>

record agent_run =
  agr_state :: run_state
  agr_stop :: stop_reason
  agr_final :: "json_object option"
  agr_verification :: "json_object option"

definition empty_run :: agent_run where
  "empty_run =
     \<lparr>agr_state = \<lparr>ags_nodes = [], ags_steps = [], ags_observations = [], ags_evidence = [],
        ags_failures = Map.empty, ags_tool_ok = 0, ags_tool_failed = 0, ags_repeated_refused = 0,
        ags_invalid_streak = 0, ags_invalid_total = 0, ags_fault_streak = 0, ags_faults_total = 0\<rparr>,
      agr_stop = STOP_MAX_STEPS, agr_final = None, agr_verification = None\<rparr>"

section \<open>Printing\<close>

fun show_dec :: "nat \<Rightarrow> string" where
  "show_dec n = (if n < 10 then [char_of (48 + n)] else show_dec (n div 10) @ [char_of (48 + n mod 10)])"

declare show_dec.simps [simp del]

fun json_type_name :: "json \<Rightarrow> string" where
  "json_type_name JNull = ''NoneType''"
| "json_type_name (JBool _) = ''bool''"
| "json_type_name (JInt _) = ''int''"
| "json_type_name (JFloat _) = ''float''"
| "json_type_name (JStr _) = ''str''"
| "json_type_name (JList _) = ''list''"
| "json_type_name (JObj _) = ''dict''"

fun json_truthy :: "json \<Rightarrow> bool" where
  "json_truthy JNull = False"
| "json_truthy (JBool b) = b"
| "json_truthy (JInt i) = (i \<noteq> 0)"
| "json_truthy (JFloat r) = (r \<noteq> 0)"
| "json_truthy (JStr s) = (s \<noteq> [])"
| "json_truthy (JList xs) = (xs \<noteq> [])"
| "json_truthy (JObj d) = (d \<noteq> [])"

text \<open>\<open>int(x)\<close> of a float: towards zero.\<close>

definition py_int :: "rat \<Rightarrow> int" where
  "py_int r = (if 0 \<le> r then \<lfloor>r\<rfloor> else \<lceil>r\<rceil>)"

fun sorted_json :: "json \<Rightarrow> json" where
  "sorted_json (JList xs) = JList (map sorted_json xs)"
| "sorted_json (JObj d) = JObj (sort_key fst (map (\<lambda>(k, v). (k, sorted_json v)) d))"
| "sorted_json j = j"

definition call_key_of :: "string \<Rightarrow> json_object \<Rightarrow> call_key" where
  "call_key_of tool arguments = (tool, sorted_json (JObj arguments))"

section \<open>Nodes\<close>

definition as_object :: "json \<Rightarrow> json_object option" where
  "as_object j = (case j of JObj d \<Rightarrow> Some d | _ \<Rightarrow> None)"

definition add_node ::
  "'w agent_loop \<Rightarrow> run_state \<Rightarrow> string \<Rightarrow> execution_node_type \<Rightarrow> execution_node_status
     \<Rightarrow> json_object \<Rightarrow> json_object option \<Rightarrow> json_object option \<Rightarrow> run_state" where
  "add_node a s key ty status input out err =
     s\<lparr>ags_nodes := ags_nodes s @
        [\<lparr>xn_id = al_ids a (Suc (length (ags_nodes s))), xn_execution_id = al_ids a 0,
          xn_node_key = key, xn_type = ty, xn_status = status, xn_input_ref = input,
          xn_output_ref = out, xn_retry_count = 0, xn_error = err\<rparr>]\<rparr>"

definition planner_node ::
  "'w agent_loop \<Rightarrow> run_state \<Rightarrow> json_object \<Rightarrow> execution_node_status \<Rightarrow> json_object option
     \<Rightarrow> json_object option \<Rightarrow> run_state" where
  "planner_node a s payload status out err =
     add_node a s (''plan-'' @ show_dec (length (ags_steps s) + 1)) NODE_PLANNER status payload out err"

definition tool_node ::
  "'w agent_loop \<Rightarrow> run_state \<Rightarrow> nat \<Rightarrow> string \<Rightarrow> json_object \<Rightarrow> execution_node_status
     \<Rightarrow> json_object option \<Rightarrow> json_object option \<Rightarrow> run_state" where
  "tool_node a s index tool arguments status out err =
     add_node a s (''act-'' @ show_dec index @ ''-'' @ tool) NODE_TOOL_CALL status arguments out err"

definition add_step ::
  "run_state \<Rightarrow> nat \<Rightarrow> json_object option \<Rightarrow> json_object \<Rightarrow> tool_call_record option \<Rightarrow> run_state" where
  "add_step s index raw observation rec =
     s\<lparr>ags_steps := ags_steps s @ [\<lparr>as_index = index, as_proposal_raw = raw,
        as_observation = observation, as_tool_record = rec\<rparr>]\<rparr>"

definition observe :: "run_state \<Rightarrow> json_object \<Rightarrow> run_state" where
  "observe s obs = s\<lparr>ags_observations := ags_observations s @ [obs]\<rparr>"

section \<open>One iteration\<close>

definition propose_payload :: "'w agent_loop \<Rightarrow> agent_request \<Rightarrow> nat \<Rightarrow> run_state \<Rightarrow> json_object" where
  "propose_payload a rq index s =
     [(''request'', JObj (arq_request rq)),
      (''observations'', JList (map JObj (ags_observations s))),
      (''budget'', JObj [(''step'', JInt (int index)), (''max_steps'', JInt (int (al_max_steps a)))])]"

text \<open>The wall-clock bound; \<open>Some\<close> the elapsed milliseconds when it is exceeded.\<close>

definition past_deadline :: "'w agent_loop \<Rightarrow> rat \<Rightarrow> 'w \<Rightarrow> 'w \<times> (nat \<times> rat) option" where
  "past_deadline a started w =
     (case al_deadline_ms a of
        None \<Rightarrow> (w, None)
      | Some d \<Rightarrow>
          (case al_clock a w of (w1, t) \<Rightarrow>
            (w1, if rat_of_nat d \<le> (t - started) * 1000 then Some (d, (t - started) * 1000) else None)))"

definition deadline_stop :: "nat \<Rightarrow> nat \<Rightarrow> rat \<Rightarrow> agent_run \<Rightarrow> agent_run" where
  "deadline_stop index d elapsed r =
     r\<lparr>agr_state := add_step (agr_state r) index None
         [(''step'', JInt (int index)), (''error'', JStr (stop_value STOP_DEADLINE_EXCEEDED)),
          (''elapsed_ms'', JInt (py_int elapsed)), (''deadline_ms'', JInt (int d))] None,
       agr_stop := STOP_DEADLINE_EXCEEDED\<rparr>"

definition recovery_notice :: "json_object \<Rightarrow> json_object" where
  "recovery_notice d = d @ [(''status'', JStr ''refused''), (''nothing_happened'', JBool True)]"

text \<open>A fault of the propose seam; the answer tells whether the run stops.\<close>

definition propose_fault ::
  "'w agent_loop \<Rightarrow> nat \<Rightarrow> json_object \<Rightarrow> string \<Rightarrow> agent_run \<Rightarrow> bool \<times> agent_run" where
  "propose_fault a index payload detail r =
     (let s = (agr_state r)\<lparr>ags_fault_streak := Suc (ags_fault_streak (agr_state r)),
                           ags_faults_total := Suc (ags_faults_total (agr_state r))\<rparr>;
          s = planner_node a s payload NODE_FAILED None
                (Some [(''reason'', JStr (stop_value STOP_PROPOSE_FAILED)), (''detail'', JStr detail)]);
          fault = [(''step'', JInt (int index)), (''error'', JStr (stop_value STOP_PROPOSE_FAILED)),
                   (''detail'', JStr detail)];
          s = add_step s index None fault None
      in if al_max_propose_failures a \<le> ags_fault_streak s \<or> index = al_max_steps a
         then (True, r\<lparr>agr_state := s, agr_stop := STOP_PROPOSE_FAILED\<rparr>)
         else (False, r\<lparr>agr_state := observe s (recovery_notice fault)\<rparr>))"

definition invalid_proposal ::
  "'w agent_loop \<Rightarrow> nat \<Rightarrow> json_object \<Rightarrow> json \<Rightarrow> string \<Rightarrow> agent_run \<Rightarrow> bool \<times> agent_run" where
  "invalid_proposal a index payload raw reason r =
     (let s = (agr_state r)\<lparr>ags_invalid_streak := Suc (ags_invalid_streak (agr_state r)),
                           ags_invalid_total := Suc (ags_invalid_total (agr_state r))\<rparr>;
          s = planner_node a s payload NODE_FAILED (as_object raw)
                (Some [(''reason'', JStr (stop_value STOP_INVALID_PROPOSAL)), (''detail'', JStr reason)]);
          refusal = [(''step'', JInt (int index)), (''error'', JStr (stop_value STOP_INVALID_PROPOSAL)),
                     (''detail'', JStr reason)];
          s = add_step s index (as_object raw) refusal None
      in if al_max_invalid_proposals a \<le> ags_invalid_streak s \<or> index = al_max_steps a
         then (True, r\<lparr>agr_state := s, agr_stop := STOP_INVALID_PROPOSAL\<rparr>)
         else (False, r\<lparr>agr_state := observe s (recovery_notice refusal)\<rparr>))"

definition admits_final :: "json_object \<Rightarrow> bool" where
  "admits_final verdict = (case map_of verdict ''verified'' of None \<Rightarrow> False | Some v \<Rightarrow> json_truthy v)"

text \<open>The verifier's verdict; a fault of the verifier is a rejecting verdict.\<close>

definition verdict_of :: "seam_outcome \<Rightarrow> executor_exn + json_object" where
  "verdict_of out =
     (case out of
        SeamCancelled \<Rightarrow> Inl CancelledError
      | SeamRaised detail \<Rightarrow>
          Inr [(''verified'', JBool False), (''error'', JStr ''verifier_failed''), (''detail'', JStr detail)]
      | SeamReturned (JObj d) \<Rightarrow> Inr d
      | SeamReturned j \<Rightarrow>
          Inr [(''verified'', JBool False), (''error'', JStr ''verifier_invalid''),
               (''detail'', JStr (''verdict must be a JSON object, got '' @ json_type_name j))])"

definition verifier_node ::
  "'w agent_loop \<Rightarrow> run_state \<Rightarrow> nat \<Rightarrow> json_object \<Rightarrow> json_object \<Rightarrow> run_state" where
  "verifier_node a s index out verdict =
     add_node a s (''verify-'' @ show_dec index) NODE_VALIDATOR
       (if admits_final verdict then NODE_SUCCEEDED else NODE_FAILED) out (Some verdict)
       (if admits_final verdict then None
        else Some [(''reason'', JStr (stop_value STOP_VERIFICATION_FAILED))])"

definition finalize ::
  "'w agent_loop \<Rightarrow> nat \<Rightarrow> json_object \<Rightarrow> json_object \<Rightarrow> agent_run \<Rightarrow> agent_run" where
  "finalize a index raw out r =
     (let s = add_node a (agr_state r) (''finalize-'' @ show_dec index) NODE_AGGREGATOR NODE_SUCCEEDED
                raw (Some out) None
      in r\<lparr>agr_state := add_step s index (Some raw)
              [(''step'', JInt (int index)), (''final'', JBool True)] None,
           agr_final := Some out, agr_stop := STOP_FINAL\<rparr>)"

definition reject_final ::
  "'w agent_loop \<Rightarrow> nat \<Rightarrow> json_object \<Rightarrow> json_object \<Rightarrow> agent_run \<Rightarrow> agent_run" where
  "reject_final a index raw verdict r =
     (let rejection = [(''step'', JInt (int index)), (''verification'', JObj verdict),
                       (''final_rejected'', JBool True)];
          r = r\<lparr>agr_state := observe (add_step (agr_state r) index (Some raw) rejection None) rejection\<rparr>
      in if index = al_max_steps a then r\<lparr>agr_stop := STOP_VERIFICATION_FAILED\<rparr> else r)"

definition final_step ::
  "'w agent_loop \<Rightarrow> agent_request \<Rightarrow> nat \<Rightarrow> json_object \<Rightarrow> json_object \<Rightarrow> 'w \<Rightarrow> agent_run
     \<Rightarrow> 'w \<times> (executor_exn + bool \<times> agent_run)" where
  "final_step a rq index raw out w r =
     (case al_verify a of
        None \<Rightarrow> (w, Inr (True, finalize a index raw out r))
      | Some verify \<Rightarrow>
          (case verify w (arq_request rq) out of (w1, answer) \<Rightarrow>
            (w1, map_sum id (\<lambda>verdict.
               let r1 = r\<lparr>agr_state := verifier_node a (agr_state r) index out verdict,
                          agr_verification := Some verdict\<rparr>
               in if admits_final verdict then (True, finalize a index raw out r1)
                  else (False, reject_final a index raw verdict r1)) (verdict_of answer))))"

definition binding_request :: "agent_request \<Rightarrow> agent_tool_binding \<Rightarrow> firewall_input" where
  "binding_request rq b =
     \<lparr>fi_actor = arq_actor rq, fi_tenant_id = arq_tenant_id rq, fi_permission = agb_permission b,
      fi_resource = agb_resource b, fi_scope = agb_scope b, fi_entitlement = agb_entitlement b,
      fi_approval_state = agb_approval_state b, fi_risk_level = agb_risk_level b\<rparr>"

definition refused_observation :: "nat \<Rightarrow> string \<Rightarrow> json_object \<Rightarrow> json_object" where
  "refused_observation index tool err =
     [(''step'', JInt (int index)), (''tool'', JStr tool), (''status'', JStr ''refused''),
      (''error'', JObj err)]"

definition refuse_act ::
  "'w agent_loop \<Rightarrow> nat \<Rightarrow> string \<Rightarrow> json_object \<Rightarrow> json_object \<Rightarrow> json_object \<Rightarrow> run_state
     \<Rightarrow> run_state \<times> json_object" where
  "refuse_act a index tool arguments raw err s =
     (let obs = refused_observation index tool err
      in (add_step (tool_node a s index tool arguments NODE_FAILED None (Some err)) index (Some raw) obs None,
          obs))"

definition optional_text :: "string option \<Rightarrow> json" where
  "optional_text t = (case t of None \<Rightarrow> JNull | Some s \<Rightarrow> JStr s)"

definition act_error :: "tool_call_record \<Rightarrow> json_object" where
  "act_error rec = [(''reason'', optional_text (tcr_error rec)),
     (''detail'', optional_text (tcr_error_detail rec))]"

definition record_observation :: "nat \<Rightarrow> string \<Rightarrow> tool_call_record \<Rightarrow> json_object" where
  "record_observation index tool rec =
     [(''step'', JInt (int index)), (''tool'', JStr tool),
      (''status'', JStr (tool_call_status_value (tcr_status rec)))]
     @ (case tcr_result rec of None \<Rightarrow> [] | Some d \<Rightarrow> [(''result'', JObj d)])
     @ (case tcr_error rec of None \<Rightarrow> [] | Some _ \<Rightarrow> [(''error'', JObj (act_error rec))])"

text \<open>What a dispatched call adds to the run.\<close>

definition note_record ::
  "'w agent_loop \<Rightarrow> nat \<Rightarrow> string \<Rightarrow> json_object \<Rightarrow> json_object \<Rightarrow> tool_call_record \<Rightarrow> run_state
     \<Rightarrow> run_state \<times> json_object" where
  "note_record a index tool arguments raw rec s =
     (let key = call_key_of tool arguments;
          prior = (case ags_failures s key of None \<Rightarrow> 0 | Some n \<Rightarrow> n);
          ok = (tcr_status rec = Succeeded);
          s = (if ok then
                 s\<lparr>ags_tool_ok := Suc (ags_tool_ok s), ags_failures := (ags_failures s)(key := None),
                   ags_evidence := ags_evidence s @
                     [[(''step'', JInt (int index)), (''tool'', JStr tool), (''arguments'', JObj arguments),
                       (''result'', case tcr_result rec of None \<Rightarrow> JNull | Some d \<Rightarrow> JObj d)]]\<rparr>
               else s\<lparr>ags_tool_failed := Suc (ags_tool_failed s),
                      ags_failures := (ags_failures s)(key \<mapsto> Suc prior)\<rparr>);
          obs = record_observation index tool rec;
          s = tool_node a s index tool arguments (if ok then NODE_SUCCEEDED else NODE_FAILED)
                (tcr_result rec) (if ok then None else Some (act_error rec))
      in (add_step s index (Some raw) obs (Some rec), obs))"

definition quoted :: "string \<Rightarrow> string" where
  "quoted s = CHR 0x27 # s @ [CHR 0x27]"

definition repeated_failure_error :: "string \<Rightarrow> nat \<Rightarrow> json_object" where
  "repeated_failure_error tool prior =
     [(''reason'', JStr (stop_value STOP_REPEATED_FAILURE)),
      (''detail'', JStr (''identical call to '' @ quoted tool @ '' already failed '' @ show_dec prior
         @ '' time(s); change arguments, tool, or strategy'')),
      (''prior_failures'', JInt (int prior))]"

definition act ::
  "'w agent_loop \<Rightarrow> agent_request \<Rightarrow> nat \<Rightarrow> string \<Rightarrow> json_object \<Rightarrow> json_object \<Rightarrow> 'w \<Rightarrow> run_state
     \<Rightarrow> 'w \<times> (executor_exn + run_state \<times> json_object)" where
  "act a rq index tool arguments raw w s =
     (let prior = (case ags_failures s (call_key_of tool arguments) of None \<Rightarrow> 0 | Some n \<Rightarrow> n)
      in case al_bindings a tool of
           None \<Rightarrow> (w, Inr (refuse_act a index tool arguments raw
                      [(''reason'', JStr ''unknown_tool''), (''detail'', JStr tool)] s))
         | Some b \<Rightarrow>
             if al_max_repeated_failures a \<le> prior
             then (w, Inr (refuse_act a index tool arguments raw (repeated_failure_error tool prior)
                            (s\<lparr>ags_repeated_refused := Suc (ags_repeated_refused s)\<rparr>)))
             else (case al_call_draw a w of (w1, call_id, event_id, now) \<Rightarrow>
               (case al_execute a \<lparr>tc_call_id = call_id, tc_event_id = event_id, tc_now = now,
                       tc_tool_id = agb_tool_id b, tc_request = binding_request rq b,
                       tc_arguments = arguments, tc_device_id = agb_device_id b,
                       tc_actor_id = arq_actor_id rq, tc_estimated_units = agb_estimated_units b\<rparr> w1 of
                  (w2, Inl e) \<Rightarrow> (w2, Inl e)
                | (w2, Inr rec) \<Rightarrow> (w2, Inr (note_record a index tool arguments raw rec s)))))"

definition error_reason :: "json_object \<Rightarrow> json option" where
  "error_reason obs = (case map_of obs ''error'' of Some (JObj e) \<Rightarrow> map_of e ''reason'' | _ \<Rightarrow> None)"

definition tool_step ::
  "'w agent_loop \<Rightarrow> agent_request \<Rightarrow> nat \<Rightarrow> string \<Rightarrow> json_object \<Rightarrow> json_object \<Rightarrow> 'w \<Rightarrow> agent_run
     \<Rightarrow> 'w \<times> (executor_exn + bool \<times> agent_run)" where
  "tool_step a rq index tool arguments raw w r =
     (case act a rq index tool arguments raw w (agr_state r) of
        (w1, Inl e) \<Rightarrow> (w1, Inl e)
      | (w1, Inr (s, obs)) \<Rightarrow>
          (let r1 = r\<lparr>agr_state := observe s obs\<rparr>
           in (w1, Inr (False,
                 if index = al_max_steps a \<and> error_reason obs = Some (JStr (stop_value STOP_REPEATED_FAILURE))
                 then r1\<lparr>agr_stop := STOP_REPEATED_FAILURE\<rparr> else r1))))"

text \<open>A valid proposal resets both streaks and is recorded before it is disposed of.\<close>

definition dispose ::
  "'w agent_loop \<Rightarrow> agent_request \<Rightarrow> nat \<Rightarrow> json_object \<Rightarrow> json \<Rightarrow> agent_proposal \<Rightarrow> 'w \<Rightarrow> agent_run
     \<Rightarrow> 'w \<times> (executor_exn + bool \<times> agent_run)" where
  "dispose a rq index payload rawj proposal w r =
     (let raw = (case as_object rawj of None \<Rightarrow> [] | Some d \<Rightarrow> d);
          s = (agr_state r)\<lparr>ags_invalid_streak := 0, ags_fault_streak := 0\<rparr>;
          r = r\<lparr>agr_state := planner_node a s payload NODE_SUCCEEDED (Some raw) None\<rparr>
      in case proposal of
           FinalProposal out _ \<Rightarrow> final_step a rq index raw out w r
         | ToolCallProposal tool arguments _ \<Rightarrow> tool_step a rq index tool arguments raw w r)"

definition agent_iteration ::
  "'w agent_loop \<Rightarrow> agent_request \<Rightarrow> rat \<Rightarrow> nat \<Rightarrow> 'w \<Rightarrow> agent_run
     \<Rightarrow> 'w \<times> (executor_exn + bool \<times> agent_run)" where
  "agent_iteration a rq started index w r =
     (case past_deadline a started w of
        (w1, Some (d, elapsed)) \<Rightarrow> (w1, Inr (True, deadline_stop index d elapsed r))
      | (w1, None) \<Rightarrow>
          (let payload = propose_payload a rq index (agr_state r)
           in case al_propose a w1 payload of
                (w2, SeamCancelled) \<Rightarrow> (w2, Inl CancelledError)
              | (w2, SeamRaised detail) \<Rightarrow> (w2, Inr (propose_fault a index payload detail r))
              | (w2, SeamReturned raw) \<Rightarrow>
                  (case parse_agent_proposal raw of
                     Inl f \<Rightarrow>
                       (w2, Inr (invalid_proposal a index payload raw (proposal_reason (al_repr a) f) r))
                   | Inr proposal \<Rightarrow> dispose a rq index payload raw proposal w2 r)))"

fun agent_iterations ::
  "'w agent_loop \<Rightarrow> agent_request \<Rightarrow> rat \<Rightarrow> nat list \<Rightarrow> 'w \<Rightarrow> agent_run
     \<Rightarrow> 'w \<times> (executor_exn + agent_run)" where
  "agent_iterations a rq started [] w r = (w, Inr r)"
| "agent_iterations a rq started (i # is) w r =
     (case agent_iteration a rq started i w r of
        (w1, Inl e) \<Rightarrow> (w1, Inl e)
      | (w1, Inr (stop, r1)) \<Rightarrow>
          if stop then (w1, Inr r1) else agent_iterations a rq started is w1 r1)"

record agent_report =
  arp_execution :: execution
  arp_nodes :: "execution_node list"
  arp_steps :: "agent_step list"
  arp_status_history :: "execution_status list"
  arp_stop_reason :: stop_reason
  arp_final_output :: "json_object option"
  arp_verification :: "json_object option"
  arp_evidence :: "json_object list"
  arp_summary :: json_object

definition run_summary :: "'w agent_loop \<Rightarrow> agent_run \<Rightarrow> rat \<Rightarrow> json_object" where
  "run_summary a r elapsed =
     (let s = agr_state r
      in [(''steps'', JInt (int (length (ags_steps s)))), (''max_steps'', JInt (int (al_max_steps a))),
          (''stop_reason'', JStr (stop_value (agr_stop r))), (''tool_calls_ok'', JInt (int (ags_tool_ok s))),
          (''tool_calls_failed'', JInt (int (ags_tool_failed s))),
          (''repeated_failure_refusals'', JInt (int (ags_repeated_refused s))),
          (''invalid_proposals'', JInt (int (ags_invalid_total s))),
          (''propose_faults'', JInt (int (ags_faults_total s))),
          (''evidence_items'', JInt (int (length (ags_evidence s)))),
          (''elapsed_ms'', JInt (py_int elapsed))]
         @ (case al_deadline_ms a of None \<Rightarrow> [] | Some d \<Rightarrow> [(''deadline_ms'', JInt (int d))]))"

definition agent_report_of ::
  "'w agent_loop \<Rightarrow> agent_request \<Rightarrow> timestamp \<Rightarrow> agent_run \<Rightarrow> rat \<Rightarrow> timestamp \<Rightarrow> agent_report" where
  "agent_report_of a rq created r elapsed completed =
     (let status = (if agr_stop r = STOP_FINAL then EXECUTION_SUCCEEDED else EXECUTION_FAILED_STATUS);
          summary = run_summary a r elapsed
      in \<lparr>arp_execution = \<lparr>xc_id = al_ids a 0, xc_tenant_id = arq_tenant_id rq, xc_user_id = arq_user_id rq,
            xc_conversation_id = arq_conversation_id rq, xc_request_hash = arq_request_hash rq,
            xc_idempotency_key = arq_idempotency_key rq, xc_status = status, xc_strategy = STRATEGY_AGENT,
            xc_cost_snapshot = summary, xc_created_at = created, xc_completed_at = Some completed\<rparr>,
          arp_nodes = ags_nodes (agr_state r), arp_steps = ags_steps (agr_state r),
          arp_status_history = [EXECUTION_QUEUED, EXECUTION_RUNNING, status],
          arp_stop_reason = agr_stop r, arp_final_output = agr_final r,
          arp_verification = agr_verification r, arp_evidence = ags_evidence (agr_state r),
          arp_summary = summary\<rparr>)"

definition agent_execute ::
  "'w agent_loop \<Rightarrow> agent_request \<Rightarrow> 'w \<Rightarrow> 'w \<times> (executor_exn + agent_report)" where
  "agent_execute a rq w =
     (case al_utc_now a w of (w1, created) \<Rightarrow>
      (case al_clock a w1 of (w2, started) \<Rightarrow>
      (case agent_iterations a rq started [1..<Suc (al_max_steps a)] w2 empty_run of
         (w3, Inl e) \<Rightarrow> (w3, Inl e)
       | (w3, Inr r) \<Rightarrow>
           (case al_clock a w3 of (w4, t) \<Rightarrow>
           (case al_utc_now a w4 of (w5, completed) \<Rightarrow>
             (w5, Inr (agent_report_of a rq created r ((t - started) * 1000) completed)))))))"

section \<open>The gated executor as the loop's tools\<close>

definition gated_execute ::
  "('u \<Rightarrow> uuid \<Rightarrow> uuid \<Rightarrow> units \<Rightarrow> usage_error + ('u \<times> usage_ledger))
   \<Rightarrow> ('u \<Rightarrow> uuid \<Rightarrow> units \<Rightarrow> json_object \<Rightarrow> usage_error + ('u \<times> usage_ledger))
   \<Rightarrow> ('u \<Rightarrow> uuid \<Rightarrow> units \<Rightarrow> json_object \<Rightarrow> usage_error + ('u \<times> usage_ledger))
   \<Rightarrow> tool_env \<Rightarrow> tool_call \<Rightarrow> 'v \<times> 'u exec_state
   \<Rightarrow> ('v \<times> 'u exec_state) \<times> (executor_exn + tool_call_record)" where
  "gated_execute reserve settle fail env c w =
     (case tool_execute reserve settle fail env c (snd w) of (s, out) \<Rightarrow> ((fst w, s), out))"

section \<open>The default verifier\<close>

fun cited_steps :: "json list \<Rightarrow> json + int list" where
  "cited_steps [] = Inr []"
| "cited_steps (JInt i # xs) = map_sum id (Cons i) (cited_steps xs)"
| "cited_steps (x # xs) = Inl x"

definition steps_json :: "int list \<Rightarrow> json" where
  "steps_json xs = JList (map JInt (sort (remdups xs)))"

fun int_items :: "json list \<Rightarrow> int list" where
  "int_items [] = []"
| "int_items (JInt i # xs) = i # int_items xs"
| "int_items (x # xs) = int_items xs"

definition evidence_verifier ::
  "(json \<Rightarrow> string) \<Rightarrow> json_object \<Rightarrow> json_object \<Rightarrow> json_object" where
  "evidence_verifier repr request out =
     (let ok = (case map_of request ''_evidence_steps'' of Some (JList xs) \<Rightarrow> int_items xs | _ \<Rightarrow> []);
          rejected = (\<lambda>why. [(''verified'', JBool False), (''reason'', JStr why)])
      in case map_of out ''answer'' of
           Some (JStr answer) \<Rightarrow>
             if list_all is_space answer
             then rejected (''final output must carry a non-empty '' @ quoted ''answer'')
             else (case (case map_of out ''evidence'' of None \<Rightarrow> JList [] | Some e \<Rightarrow> e) of
                JList items \<Rightarrow>
                  (case cited_steps items of
                     Inl x \<Rightarrow> rejected (''evidence item is not a step number: '' @ repr x)
                   | Inr cited \<Rightarrow>
                       (let invented = filter (\<lambda>i. i \<notin> set ok) cited
                        in if invented \<noteq> []
                           then rejected ''cited evidence steps did not succeed this run''
                                @ [(''invented'', steps_json invented), (''available'', steps_json ok)]
                           else [(''verified'', JBool True), (''cited'', steps_json cited),
                                 (''available'', steps_json ok)]))
              | _ \<Rightarrow> rejected (quoted ''evidence'' @ '' must be a list of step numbers''))
         | _ \<Rightarrow> rejected (''final output must carry a non-empty '' @ quoted ''answer''))"

section \<open>The cases of one iteration\<close>

lemma run_updates [simp]:
  "ags_steps (add_node a s key ty st i out err) = ags_steps s"
  "ags_evidence (add_node a s key ty st i out err) = ags_evidence s"
  "ags_failures (add_node a s key ty st i out err) = ags_failures s"
  "ags_observations (add_node a s key ty st i out err) = ags_observations s"
  "ags_nodes (add_step s index raw obs rec) = ags_nodes s"
  "ags_evidence (add_step s index raw obs rec) = ags_evidence s"
  "ags_failures (add_step s index raw obs rec) = ags_failures s"
  "ags_observations (add_step s index raw obs rec) = ags_observations s"
  "ags_steps (add_step s index raw obs rec) = ags_steps s @ [\<lparr>as_index = index, as_proposal_raw = raw,
        as_observation = obs, as_tool_record = rec\<rparr>]"
  "ags_nodes (observe s obs) = ags_nodes s" "ags_steps (observe s obs) = ags_steps s"
  "ags_evidence (observe s obs) = ags_evidence s" "ags_failures (observe s obs) = ags_failures s"
  "ags_observations (observe s obs) = ags_observations s @ [obs]"
  by (simp_all add: add_node_def add_step_def observe_def)

definition planner_count :: "run_state \<Rightarrow> nat" where
  "planner_count s = length (filter (\<lambda>n. xn_type n = NODE_PLANNER) (ags_nodes s))"

lemma planner_count_updates [simp]:
  "planner_count (add_step s index raw obs rec) = planner_count s"
  "planner_count (observe s obs) = planner_count s"
  "planner_count (add_node a s key ty st i out err) = planner_count s + (if ty = NODE_PLANNER then 1 else 0)"
  "planner_count (s\<lparr>ags_invalid_streak := n1, ags_fault_streak := n2\<rparr>) = planner_count s"
  "planner_count (s\<lparr>ags_repeated_refused := n3\<rparr>) = planner_count s"
  by (simp_all add: planner_count_def add_step_def observe_def add_node_def)

text \<open>The run after a valid proposal was recorded.\<close>

definition planned :: "'w agent_loop \<Rightarrow> json_object \<Rightarrow> json_object \<Rightarrow> agent_run \<Rightarrow> agent_run" where
  "planned a payload raw r =
     r\<lparr>agr_state := planner_node a ((agr_state r)\<lparr>ags_invalid_streak := 0, ags_fault_streak := 0\<rparr>)
         payload NODE_SUCCEEDED (Some raw) None\<rparr>"

lemma parse_Inr_object: "parse_agent_proposal j = Inr p \<Longrightarrow> \<exists>d. j = JObj d"
  by (auto simp: parse_agent_proposal_def split: json.splits)

lemma dispose_object:
  "dispose a rq index payload (JObj raw) proposal w r =
     (case proposal of
        FinalProposal out _ \<Rightarrow> final_step a rq index raw out w (planned a payload raw r)
      | ToolCallProposal tool arguments _ \<Rightarrow> tool_step a rq index tool arguments raw w (planned a payload raw r))"
  by (cases proposal) (simp_all add: dispose_def as_object_def planned_def Let_def)

definition dispatched_call ::
  "agent_request \<Rightarrow> agent_tool_binding \<Rightarrow> uuid \<times> uuid \<times> timestamp \<Rightarrow> json_object \<Rightarrow> tool_call" where
  "dispatched_call rq b draw arguments =
     \<lparr>tc_call_id = fst draw, tc_event_id = fst (snd draw), tc_now = snd (snd draw),
      tc_tool_id = agb_tool_id b, tc_request = binding_request rq b, tc_arguments = arguments,
      tc_device_id = agb_device_id b, tc_actor_id = arq_actor_id rq,
      tc_estimated_units = agb_estimated_units b\<rparr>"

definition settled_stop :: "'w agent_loop \<Rightarrow> nat \<Rightarrow> json_object \<Rightarrow> agent_run \<Rightarrow> agent_run" where
  "settled_stop a index obs r =
     (if index = al_max_steps a \<and> error_reason obs = Some (JStr (stop_value STOP_REPEATED_FAILURE))
      then r\<lparr>agr_stop := STOP_REPEATED_FAILURE\<rparr> else r)"

lemma tool_step_cases:
  assumes "tool_step a rq index tool arguments raw w r = (w', Inr (stop, r'))"
  obtains err s where "w' = w" "\<not> stop"
      "s = agr_state r \<or> s = (agr_state r)\<lparr>ags_repeated_refused := Suc (ags_repeated_refused (agr_state r))\<rparr>"
      "r' = settled_stop a index (refused_observation index tool err)
         (r\<lparr>agr_state := observe (fst (refuse_act a index tool arguments raw err s))
              (refused_observation index tool err)\<rparr>)"
  | b w1 draw rec where "al_bindings a tool = Some b" "\<not> stop"
      "(case ags_failures (agr_state r) (call_key_of tool arguments) of None \<Rightarrow> 0 | Some n \<Rightarrow> n)
         < al_max_repeated_failures a"
      "al_call_draw a w = (w1, draw)"
      "al_execute a (dispatched_call rq b draw arguments) w1 = (w', Inr rec)"
      "r' = settled_stop a index (record_observation index tool rec)
         (r\<lparr>agr_state := observe (fst (note_record a index tool arguments raw rec (agr_state r)))
              (record_observation index tool rec)\<rparr>)"
proof (cases "act a rq index tool arguments raw w (agr_state r)")
  case (Pair w1 out)
  show thesis
  proof (cases out)
    case (Inl e)
    with assms Pair show thesis by (simp add: tool_step_def)
  next
    case (Inr so)
    obtain s obs where so: "so = (s, obs)" by (cases so)
    have r': "w' = w1" "\<not> stop" "r' = settled_stop a index obs (r\<lparr>agr_state := observe s obs\<rparr>)"
      using assms Pair Inr so by (auto simp: tool_step_def settled_stop_def Let_def)
    have A: "act a rq index tool arguments raw w (agr_state r) = (w1, Inr (s, obs))"
      using Pair Inr so by simp
    show thesis
    proof (cases "al_bindings a tool")
      case None
      with A that(1) r' show thesis by (auto simp: act_def refuse_act_def Let_def)
    next
      case (Some b)
      let ?prior = "case ags_failures (agr_state r) (call_key_of tool arguments) of None \<Rightarrow> 0 | Some n \<Rightarrow> n"
      show thesis
      proof (cases "al_max_repeated_failures a \<le> ?prior")
        case True
        with A Some that(1) r' show thesis by (auto simp: act_def refuse_act_def Let_def)
      next
        case False
        obtain wd call_id event_id now where d: "al_call_draw a w = (wd, call_id, event_id, now)"
          by (cases "al_call_draw a w")
        from A Some False d obtain rec where
          e: "al_execute a (dispatched_call rq b (call_id, event_id, now) arguments) wd = (w1, Inr rec)"
          and n: "(s, obs) = note_record a index tool arguments raw rec (agr_state r)"
          by (auto simp: act_def Let_def dispatched_call_def split: prod.splits sum.splits)
        have "obs = record_observation index tool rec"
          using n by (simp add: note_record_def Let_def)
        moreover have "s = fst (note_record a index tool arguments raw rec (agr_state r))"
          using n by (metis fst_conv)
        ultimately show thesis using that(2) [OF Some _ _ d] False e r' by simp
      qed
    qed
  qed
qed

lemma final_step_cases:
  assumes "final_step a rq index raw out w r = (w', Inr (stop, r'))"
  obtains "al_verify a = None" "stop" "r' = finalize a index raw out r" "w' = w"
  | verify answer verdict where "al_verify a = Some verify" "verify w (arq_request rq) out = (w', answer)"
      "verdict_of answer = Inr verdict" "admits_final verdict" "stop"
      "r' = finalize a index raw out (r\<lparr>agr_state := verifier_node a (agr_state r) index out verdict,
                                     agr_verification := Some verdict\<rparr>)"
  | verify answer verdict where "al_verify a = Some verify" "verify w (arq_request rq) out = (w', answer)"
      "verdict_of answer = Inr verdict" "\<not> admits_final verdict" "\<not> stop"
      "r' = reject_final a index raw verdict (r\<lparr>agr_state := verifier_node a (agr_state r) index out verdict,
                                     agr_verification := Some verdict\<rparr>)"
proof (cases "al_verify a")
  case None
  with assms that(1) show thesis by (auto simp: final_step_def)
next
  case (Some verify)
  obtain w1 answer where v: "verify w (arq_request rq) out = (w1, answer)"
    by (cases "verify w (arq_request rq) out")
  show thesis
  proof (cases "verdict_of answer")
    case (Inl e)
    with assms Some v show thesis by (simp add: final_step_def)
  next
    case (Inr verdict)
    with assms Some v have *: "w' = w1" "(stop, r') =
        (let r1 = r\<lparr>agr_state := verifier_node a (agr_state r) index out verdict,
                   agr_verification := Some verdict\<rparr>
         in if admits_final verdict then (True, finalize a index raw out r1)
            else (False, reject_final a index raw verdict r1))"
      by (simp_all add: final_step_def)
    show thesis
      using that(2) [OF Some _ Inr] that(3) [OF Some _ Inr] v *
      by (cases "admits_final verdict") (simp_all add: Let_def)
  qed
qed

lemma agent_iteration_cases:
  assumes "agent_iteration a rq started index w r = (w', Inr (stop, r'))"
  obtains d elapsed where "stop" "r' = deadline_stop index d elapsed r" "past_deadline a started w = (w', Some (d, elapsed))"
  | w1 detail where "past_deadline a started w = (w1, None)"
      "al_propose a w1 (propose_payload a rq index (agr_state r)) = (w', SeamRaised detail)"
      "(stop, r') = propose_fault a index (propose_payload a rq index (agr_state r)) detail r"
  | w1 raw f where "past_deadline a started w = (w1, None)"
      "al_propose a w1 (propose_payload a rq index (agr_state r)) = (w', SeamReturned raw)"
      "parse_agent_proposal raw = Inl f"
      "(stop, r') = invalid_proposal a index (propose_payload a rq index (agr_state r)) raw
         (proposal_reason (al_repr a) f) r"
  | w1 w2 raw out why where "past_deadline a started w = (w1, None)"
      "al_propose a w1 (propose_payload a rq index (agr_state r)) = (w2, SeamReturned (JObj raw))"
      "parse_agent_proposal (JObj raw) = Inr (FinalProposal out why)"
      "final_step a rq index raw out w2 (planned a (propose_payload a rq index (agr_state r)) raw r)
         = (w', Inr (stop, r'))"
  | w1 w2 raw tool arguments why where "past_deadline a started w = (w1, None)"
      "al_propose a w1 (propose_payload a rq index (agr_state r)) = (w2, SeamReturned (JObj raw))"
      "parse_agent_proposal (JObj raw) = Inr (ToolCallProposal tool arguments why)"
      "tool_step a rq index tool arguments raw w2 (planned a (propose_payload a rq index (agr_state r)) raw r)
         = (w', Inr (stop, r'))"
proof -
  let ?payload = "propose_payload a rq index (agr_state r)"
  obtain w1 late where late: "past_deadline a started w = (w1, late)"
    by (cases "past_deadline a started w")
  show thesis
  proof (cases late)
    case (Some x)
    with assms late that(1) show thesis by (cases x) (auto simp: agent_iteration_def)
  next
    case None
    obtain w2 ans where p: "al_propose a w1 ?payload = (w2, ans)"
      by (cases "al_propose a w1 ?payload")
    show thesis
    proof (cases ans)
      case (SeamRaised detail)
      with assms late None p that(2) show thesis by (auto simp: agent_iteration_def Let_def)
    next
      case SeamCancelled
      with assms late None p show thesis by (auto simp: agent_iteration_def Let_def)
    next
      case (SeamReturned raw)
      show thesis
      proof (cases "parse_agent_proposal raw")
        case (Inl f)
        with assms late None p SeamReturned that(3) show thesis
          by (auto simp: agent_iteration_def Let_def)
      next
        case (Inr proposal)
        from parse_Inr_object [OF this] obtain d where d: "raw = JObj d" by blast
        have run: "dispose a rq index ?payload (JObj d) proposal w2 r = (w', Inr (stop, r'))"
          using assms late None p SeamReturned Inr d by (simp add: agent_iteration_def Let_def)
        show thesis
        proof (cases proposal)
          case (ToolCallProposal tool arguments why)
          with run that(5) late None p SeamReturned Inr d show thesis by (auto simp: dispose_object)
        next
          case (FinalProposal out why)
          with run that(4) late None p SeamReturned Inr d show thesis by (auto simp: dispose_object)
        qed
      qed
    qed
  qed
qed

lemma agent_iterations_rule:
  assumes "agent_iterations a rq started [lo..<hi] w r = (w', Inr r')" and "lo \<le> hi" and "P lo w r"
    and "\<And>i w r w' stop r'. lo \<le> i \<Longrightarrow> i < hi \<Longrightarrow> P i w r
      \<Longrightarrow> agent_iteration a rq started i w r = (w', Inr (stop, r'))
      \<Longrightarrow> (if stop then Q w' r' else P (Suc i) w' r')"
    and "\<And>w r. P hi w r \<Longrightarrow> Q w r"
  shows "Q w' r'"
  using assms(1-4)
proof (induction "hi - lo" arbitrary: lo w r)
  case 0
  then show ?case using assms(5) by simp
next
  case (Suc n)
  then have up: "[lo..<hi] = lo # [Suc lo..<hi]" by (simp add: upt_conv_Cons)
  obtain w1 out where it: "agent_iteration a rq started lo w r = (w1, out)"
    by (cases "agent_iteration a rq started lo w r")
  with Suc.prems(1) up obtain stop r1 where out: "out = Inr (stop, r1)"
    by (cases out) auto
  have "lo < hi" using Suc.hyps(2) by simp
  from Suc.prems(4) [OF _ this Suc.prems(3) it [unfolded out]]
  have step: "if stop then Q w1 r1 else P (Suc lo) w1 r1" by simp
  show ?case
  proof (cases stop)
    case True
    with Suc.prems(1) up it out step show ?thesis by simp
  next
    case False
    with Suc.prems(1) up it out have rest: "agent_iterations a rq started [Suc lo..<hi] w1 r1 = (w', Inr r')"
      by simp
    show ?thesis
    proof (rule Suc.hyps(1) [OF _ rest])
      show "n = hi - Suc lo" "Suc lo \<le> hi" using Suc.hyps(2) \<open>lo < hi\<close> by simp_all
      show "P (Suc lo) w1 r1" using step False by simp
      show "if stop' then Q w' r' else P (Suc i) w' r'"
        if "Suc lo \<le> i" "i < hi" "P i w r"
          "agent_iteration a rq started i w r = (w', Inr (stop', r'))" for i w r w' stop' r'
        using Suc.prems(4) [OF _ that(2-4)] that(1) by simp
    qed
  qed
qed

section \<open>What a run records\<close>

definition step_call :: "agent_step \<Rightarrow> (string \<times> json_object) option" where
  "step_call st =
     (case as_proposal_raw st of
        None \<Rightarrow> None
      | Some raw \<Rightarrow> (case parse_agent_proposal (JObj raw) of
          Inr (ToolCallProposal tool arguments _) \<Rightarrow> Some (tool, arguments) | _ \<Rightarrow> None))"

text \<open>The evidence a step stands for: the result its tool returned, nothing the model wrote.\<close>

definition evidence_of_step :: "agent_step \<Rightarrow> json_object list" where
  "evidence_of_step st =
     (case (as_tool_record st, step_call st) of
        (Some rec, Some (tool, arguments)) \<Rightarrow>
          if tcr_status rec = Succeeded
          then [[(''step'', JInt (int (as_index st))), (''tool'', JStr tool), (''arguments'', JObj arguments),
                 (''result'', case tcr_result rec of None \<Rightarrow> JNull | Some d \<Rightarrow> JObj d)]]
          else []
      | _ \<Rightarrow> [])"

text \<open>How often a call has failed since it last succeeded.\<close>

definition trail_step :: "call_key \<Rightarrow> agent_step \<Rightarrow> nat \<Rightarrow> nat" where
  "trail_step k st n =
     (case (as_tool_record st, step_call st) of
        (Some rec, Some (tool, arguments)) \<Rightarrow>
          if call_key_of tool arguments \<noteq> k then n
          else if tcr_status rec = Succeeded then 0 else Suc n
      | _ \<Rightarrow> n)"

definition trailing_failures :: "call_key \<Rightarrow> agent_step list \<Rightarrow> nat" where
  "trailing_failures k steps = foldl (\<lambda>n st. trail_step k st n) 0 steps"

definition fail_count :: "run_state \<Rightarrow> call_key \<Rightarrow> nat" where
  "fail_count s k = (case ags_failures s k of None \<Rightarrow> 0 | Some n \<Rightarrow> n)"

definition adds_step :: "'w agent_loop \<Rightarrow> nat \<Rightarrow> run_state \<Rightarrow> run_state \<Rightarrow> agent_step \<Rightarrow> bool" where
  "adds_step a i s s' st \<longleftrightarrow> ags_steps s' = ags_steps s @ [st] \<and> as_index st = i
     \<and> planner_count s' \<le> Suc (planner_count s)
     \<and> ags_evidence s' = ags_evidence s @ evidence_of_step st
     \<and> (\<forall>k. fail_count s' k = trail_step k st (fail_count s k))
     \<and> (\<forall>k. fail_count s' k \<le> max (fail_count s k) (al_max_repeated_failures a))"

lemma no_record_step [simp]:
  "as_tool_record st = None \<Longrightarrow> evidence_of_step st = []"
  "as_tool_record st = None \<Longrightarrow> trail_step k st n = n"
  by (simp_all add: evidence_of_step_def trail_step_def)

text \<open>A step without a dispatched call.\<close>

lemma adds_plain_step:
  assumes "ags_steps s' = ags_steps s @ [st]" "as_index st = i" "as_tool_record st = None"
    and "planner_count s' \<le> Suc (planner_count s)" "ags_evidence s' = ags_evidence s"
    and "ags_failures s' = ags_failures s"
  shows "adds_step a i s s' st"
  using assms by (simp add: adds_step_def fail_count_def)

lemma planned_sel [simp]:
  "ags_steps (agr_state (planned a payload raw r)) = ags_steps (agr_state r)"
  "ags_evidence (agr_state (planned a payload raw r)) = ags_evidence (agr_state r)"
  "ags_failures (agr_state (planned a payload raw r)) = ags_failures (agr_state r)"
  "ags_observations (agr_state (planned a payload raw r)) = ags_observations (agr_state r)"
  "planner_count (agr_state (planned a payload raw r)) = Suc (planner_count (agr_state r))"
  "agr_stop (planned a payload raw r) = agr_stop r" "agr_final (planned a payload raw r) = agr_final r"
  by (simp_all add: planned_def planner_node_def)

lemma settled_stop_sel [simp]:
  "agr_state (settled_stop a i obs r) = agr_state r" "agr_final (settled_stop a i obs r) = agr_final r"
  by (simp_all add: settled_stop_def)

lemma settled_stop_final: "agr_stop r \<noteq> STOP_FINAL \<Longrightarrow> agr_stop (settled_stop a i obs r) \<noteq> STOP_FINAL"
  by (simp add: settled_stop_def)

lemma note_record_adds:
  assumes "parse_agent_proposal (JObj raw) = Inr (ToolCallProposal tool arguments why)"
    and "fail_count s0 (call_key_of tool arguments) < al_max_repeated_failures a"
    and "ags_steps s0 = ags_steps s" "ags_evidence s0 = ags_evidence s" "ags_failures s0 = ags_failures s"
      "planner_count s0 = Suc (planner_count s)"
  shows "adds_step a i s (observe (fst (note_record a i tool arguments raw rec s0)) obs)
    \<lparr>as_index = i, as_proposal_raw = Some raw, as_observation = record_observation i tool rec,
     as_tool_record = Some rec\<rparr>"
proof (cases "tcr_status rec = Succeeded")
  case True
  with assms show ?thesis
    by (simp add: adds_step_def note_record_def Let_def tool_node_def evidence_of_step_def trail_step_def
        step_call_def fail_count_def planner_count_def add_node_def add_step_def observe_def)
next
  case False
  with assms show ?thesis
    by (simp add: adds_step_def note_record_def Let_def tool_node_def evidence_of_step_def trail_step_def
        step_call_def fail_count_def planner_count_def add_node_def add_step_def observe_def)
qed

lemma iteration_adds_step:
  assumes "agent_iteration a rq started i w r = (w', Inr (stop, r'))"
  shows "\<exists>st. adds_step a i (agr_state r) (agr_state r') st"
  using assms
proof (cases rule: agent_iteration_cases)
  case (1 d elapsed)
  then show ?thesis
    by (auto intro!: exI adds_plain_step simp: deadline_stop_def)
next
  case (2 w1 detail)
  then show ?thesis
    by (auto intro!: exI adds_plain_step simp: propose_fault_def planner_node_def Let_def planner_count_def
        add_node_def add_step_def observe_def split: if_splits)
next
  case (3 w1 raw f)
  then show ?thesis
    by (auto intro!: exI adds_plain_step simp: invalid_proposal_def planner_node_def Let_def planner_count_def
        add_node_def add_step_def observe_def split: if_splits)
next
  case (4 w1 w2 raw out why)
  from 4(4) show ?thesis
    by (cases rule: final_step_cases)
      (auto intro!: exI adds_plain_step simp: finalize_def reject_final_def verifier_node_def Let_def)
next
  case (5 w1 w2 raw tool arguments why)
  define r0 where "r0 = planned a (propose_payload a rq i (agr_state r)) raw r"
  have r0: "ags_steps (agr_state r0) = ags_steps (agr_state r)"
      "ags_evidence (agr_state r0) = ags_evidence (agr_state r)"
      "fail_count (agr_state r0) = fail_count (agr_state r)"
      "planner_count (agr_state r0) = Suc (planner_count (agr_state r))"
      "ags_failures (agr_state r0) = ags_failures (agr_state r)"
    by (simp_all add: r0_def fail_count_def fun_eq_iff)
  from 5(4) [folded r0_def] show ?thesis
  proof (cases rule: tool_step_cases)
    case (1 err s)
    then show ?thesis
      using r0 by (auto intro!: exI adds_plain_step simp: refuse_act_def tool_node_def Let_def)
  next
    case (2 b wd draw rec)
    have "fail_count (agr_state r0) (call_key_of tool arguments) < al_max_repeated_failures a"
      using 2(3) by (simp add: fail_count_def)
    from note_record_adds [OF 5(3) this r0(1,2,5,4)] show ?thesis
      unfolding 2(6) settled_stop_sel by (intro exI) simp
  qed
qed

lemma iteration_final:
  assumes "agent_iteration a rq started i w r = (w', Inr (stop, r'))"
    and "agr_final r = None" and "agr_stop r \<noteq> STOP_FINAL"
  shows "(agr_stop r' = STOP_FINAL \<longleftrightarrow> agr_final r' \<noteq> None)
    \<and> (agr_stop r' = STOP_FINAL \<longrightarrow> stop \<and> (al_verify a \<noteq> None \<longrightarrow>
         (\<exists>d. agr_verification r' = Some d \<and> admits_final d)))"
  using assms(1)
proof (cases rule: agent_iteration_cases)
  case (1 d elapsed)
  with assms(2,3) show ?thesis by (simp add: deadline_stop_def)
next
  case (2 w1 detail)
  with assms(2,3) show ?thesis by (auto simp: propose_fault_def Let_def split: if_splits)
next
  case (3 w1 raw f)
  with assms(2,3) show ?thesis by (auto simp: invalid_proposal_def Let_def split: if_splits)
next
  case (4 w1 w2 raw out why)
  from 4(4) assms(2,3) show ?thesis
    by (cases rule: final_step_cases) (auto simp: finalize_def reject_final_def Let_def)
next
  case (5 w1 w2 raw tool arguments why)
  from 5(4) assms(2,3) show ?thesis
    by (cases rule: tool_step_cases) (auto simp: settled_stop_def)
qed

definition run_inv :: "'w agent_loop \<Rightarrow> nat \<Rightarrow> agent_run \<Rightarrow> bool" where
  "run_inv a i r \<longleftrightarrow>
     map as_index (ags_steps (agr_state r)) = [1..<i]
     \<and> planner_count (agr_state r) \<le> length (ags_steps (agr_state r))
     \<and> ags_evidence (agr_state r) = concat (map evidence_of_step (ags_steps (agr_state r)))
     \<and> (\<forall>k. fail_count (agr_state r) k = trailing_failures k (ags_steps (agr_state r)))
     \<and> (\<forall>k n. trailing_failures k (take n (ags_steps (agr_state r))) \<le> al_max_repeated_failures a)"

lemma run_inv_step:
  assumes inv: "run_inv a i r" and "1 \<le> i" and "adds_step a i (agr_state r) (agr_state r') st"
  shows "run_inv a (Suc i) r'"
proof -
  let ?s = "agr_state r" and ?s' = "agr_state r'"
  have st: "ags_steps ?s' = ags_steps ?s @ [st]" "as_index st = i" "planner_count ?s' \<le> Suc (planner_count ?s)"
      "ags_evidence ?s' = ags_evidence ?s @ evidence_of_step st"
      "\<And>k. fail_count ?s' k = trail_step k st (fail_count ?s k)"
      "\<And>k. fail_count ?s' k \<le> max (fail_count ?s k) (al_max_repeated_failures a)"
    using assms(3) unfolding adds_step_def by blast+
  have old: "map as_index (ags_steps ?s) = [1..<i]" "planner_count ?s \<le> length (ags_steps ?s)"
      "ags_evidence ?s = concat (map evidence_of_step (ags_steps ?s))"
      "\<And>k. fail_count ?s k = trailing_failures k (ags_steps ?s)"
      "\<And>k n. trailing_failures k (take n (ags_steps ?s)) \<le> al_max_repeated_failures a"
    using inv unfolding run_inv_def by blast+
  have tr: "trailing_failures k (ags_steps ?s') = fail_count ?s' k" for k
    using old(4) [of k] by (simp add: st(1,5) trailing_failures_def)
  have "trailing_failures k (take n (ags_steps ?s')) \<le> al_max_repeated_failures a" for k n
  proof (cases "n \<le> length (ags_steps ?s)")
    case True
    then show ?thesis using old(5) [of k n] by (simp add: st(1))
  next
    case False
    then have "take n (ags_steps ?s') = ags_steps ?s'" by (simp add: st(1))
    moreover have "fail_count ?s k \<le> al_max_repeated_failures a"
      using old(5) [of k "length (ags_steps ?s)"] by (simp add: old(4))
    ultimately show ?thesis using tr [of k] st(6) [of k] by simp
  qed
  with tr st(1-4) old(1-3) assms(2) show ?thesis
    by (simp add: run_inv_def)
qed

lemma agent_execute_run:
  assumes "agent_execute a rq w = (w', Inr rep)"
  obtains w1 w2 w3 w4 created started r t completed where
    "al_utc_now a w = (w1, created)" "al_clock a w1 = (w2, started)"
    "agent_iterations a rq started [1..<Suc (al_max_steps a)] w2 empty_run = (w3, Inr r)"
    "al_clock a w3 = (w4, t)" "al_utc_now a w4 = (w', completed)"
    "rep = agent_report_of a rq created r ((t - started) * 1000) completed"
  using assms by (auto simp: agent_execute_def split: prod.splits sum.splits)

lemma agent_report_sel [simp]:
  "arp_nodes (agent_report_of a rq c r e f) = ags_nodes (agr_state r)"
  "arp_steps (agent_report_of a rq c r e f) = ags_steps (agr_state r)"
  "arp_stop_reason (agent_report_of a rq c r e f) = agr_stop r"
  "arp_final_output (agent_report_of a rq c r e f) = agr_final r"
  "arp_verification (agent_report_of a rq c r e f) = agr_verification r"
  "arp_evidence (agent_report_of a rq c r e f) = ags_evidence (agr_state r)"
  "xc_status (arp_execution (agent_report_of a rq c r e f))
     = (if agr_stop r = STOP_FINAL then EXECUTION_SUCCEEDED else EXECUTION_FAILED_STATUS)"
  by (simp_all add: agent_report_of_def Let_def)

lemma iterations_inv:
  assumes "agent_iterations a rq started [1..<Suc (al_max_steps a)] w empty_run = (w', Inr r)"
  shows "\<exists>i. i \<le> Suc (al_max_steps a) \<and> 1 \<le> i \<and> run_inv a i r
    \<and> (agr_stop r = STOP_FINAL \<longleftrightarrow> agr_final r \<noteq> None)
    \<and> (agr_stop r = STOP_FINAL \<longrightarrow> al_verify a \<noteq> None \<longrightarrow>
         (\<exists>d. agr_verification r = Some d \<and> admits_final d))"
proof -
  define P :: "nat \<Rightarrow> 'a \<Rightarrow> agent_run \<Rightarrow> bool" where
    "P = (\<lambda>i w r. run_inv a i r \<and> agr_final r = None \<and> agr_stop r \<noteq> STOP_FINAL)"
  show ?thesis
  proof (rule agent_iterations_rule [OF assms, where P = "\<lambda>i w r. P i w r \<and> i \<le> Suc (al_max_steps a)"])
    show "P 1 w empty_run \<and> 1 \<le> Suc (al_max_steps a)"
      by (simp add: P_def run_inv_def empty_run_def planner_count_def fail_count_def trailing_failures_def)
  next
    fix i w r w' stop r'
    assume i: "1 \<le> i" "i < Suc (al_max_steps a)" and P: "P i w r \<and> i \<le> Suc (al_max_steps a)"
      and it: "agent_iteration a rq started i w r = (w', Inr (stop, r'))"
    obtain st where "adds_step a i (agr_state r) (agr_state r') st"
      using iteration_adds_step [OF it] by blast
    from run_inv_step [OF _ i(1) this] P have "run_inv a (Suc i) r'" by (simp add: P_def)
    with iteration_final [OF it] P i show "if stop then
        (\<exists>i. i \<le> Suc (al_max_steps a) \<and> 1 \<le> i \<and> run_inv a i r'
          \<and> (agr_stop r' = STOP_FINAL \<longleftrightarrow> agr_final r' \<noteq> None)
          \<and> (agr_stop r' = STOP_FINAL \<longrightarrow> al_verify a \<noteq> None \<longrightarrow>
             (\<exists>d. agr_verification r' = Some d \<and> admits_final d)))
      else P (Suc i) w' r' \<and> Suc i \<le> Suc (al_max_steps a)"
      by (auto simp: P_def intro!: exI [of _ "Suc i"])
  qed (auto simp: P_def)
qed


section \<open>What the model cannot influence\<close>

text \<open>A call whose security inputs are those of a binding and of the caller.\<close>

definition vetted_call :: "'w agent_loop \<Rightarrow> agent_request \<Rightarrow> tool_call \<Rightarrow> bool" where
  "vetted_call a rq c \<longleftrightarrow>
     (\<exists>tool b. al_bindings a tool = Some b \<and> tc_tool_id c = agb_tool_id b
        \<and> tc_request c = binding_request rq b \<and> tc_device_id c = agb_device_id b
        \<and> tc_estimated_units c = agb_estimated_units b \<and> tc_actor_id c = arq_actor_id rq)"

lemma other_executor_sel [simp]:
  "add_node (a\<lparr>al_execute := e\<rparr>) = add_node a"
  "past_deadline (a\<lparr>al_execute := e\<rparr>) = past_deadline a"
  "propose_payload (a\<lparr>al_execute := e\<rparr>) = propose_payload a"
  "run_summary (a\<lparr>al_execute := e\<rparr>) = run_summary a"
  by (simp_all add: fun_eq_iff add_node_def past_deadline_def propose_payload_def run_summary_def
      split: option.split)

lemma other_executor_nodes [simp]:
  "planner_node (a\<lparr>al_execute := e\<rparr>) = planner_node a"
  "tool_node (a\<lparr>al_execute := e\<rparr>) = tool_node a"
  "verifier_node (a\<lparr>al_execute := e\<rparr>) = verifier_node a"
  by (simp_all add: fun_eq_iff planner_node_def tool_node_def verifier_node_def)

lemma other_executor_steps [simp]:
  "propose_fault (a\<lparr>al_execute := e\<rparr>) = propose_fault a"
  "invalid_proposal (a\<lparr>al_execute := e\<rparr>) = invalid_proposal a"
  "finalize (a\<lparr>al_execute := e\<rparr>) = finalize a"
  "reject_final (a\<lparr>al_execute := e\<rparr>) = reject_final a"
  "refuse_act (a\<lparr>al_execute := e\<rparr>) = refuse_act a"
  "note_record (a\<lparr>al_execute := e\<rparr>) = note_record a"
  "agent_report_of (a\<lparr>al_execute := e\<rparr>) = agent_report_of a"
  by (simp_all add: fun_eq_iff propose_fault_def invalid_proposal_def finalize_def reject_final_def
      refuse_act_def note_record_def agent_report_of_def)

lemma other_executor_final [simp]: "final_step (a\<lparr>al_execute := e\<rparr>) = final_step a"
  by (simp add: fun_eq_iff final_step_def Let_def cong: option.case_cong prod.case_cong if_cong)

lemma other_executor_act:
  assumes "\<And>c w. vetted_call a rq c \<Longrightarrow> e c w = al_execute a c w"
  shows "act (a\<lparr>al_execute := e\<rparr>) rq index tool arguments raw w s = act a rq index tool arguments raw w s"
proof (cases "al_bindings a tool")
  case None
  then show ?thesis by (simp add: act_def)
next
  case (Some b)
  have "vetted_call a rq \<lparr>tc_call_id = i1, tc_event_id = i2, tc_now = n, tc_tool_id = agb_tool_id b,
      tc_request = binding_request rq b, tc_arguments = arguments, tc_device_id = agb_device_id b,
      tc_actor_id = arq_actor_id rq, tc_estimated_units = agb_estimated_units b\<rparr>" for i1 i2 n
    using Some by (auto simp: vetted_call_def)
  with assms Some show ?thesis by (simp add: act_def Let_def cong: prod.case_cong sum.case_cong if_cong)
qed

lemma other_executor_iteration:
  assumes "\<And>c w. vetted_call a rq c \<Longrightarrow> e c w = al_execute a c w"
  shows "agent_iteration (a\<lparr>al_execute := e\<rparr>) rq started index w r = agent_iteration a rq started index w r"
  by (simp add: agent_iteration_def dispose_def tool_step_def other_executor_act [OF assms] Let_def
      cong: prod.case_cong option.case_cong sum.case_cong seam_outcome.case_cong agent_proposal.case_cong if_cong)

lemma other_executor_iterations:
  assumes "\<And>c w. vetted_call a rq c \<Longrightarrow> e c w = al_execute a c w"
  shows "agent_iterations (a\<lparr>al_execute := e\<rparr>) rq started is w r = agent_iterations a rq started is w r"
  by (induction "is" arbitrary: w r) (simp_all add: other_executor_iteration [OF assms] cong: prod.case_cong sum.case_cong if_cong)

text \<open>
  The loop itself has no authority: it hands the executor only vetted calls, whose tool,
  permission, resource, scope, entitlement, risk, approval and device come from the binding the
  operator configured under the proposed name, never from the model.  So two executors that agree on
  vetted calls give the same run.
\<close>

theorem agent_holds_no_authority:
  assumes "\<forall>c w. vetted_call a rq c \<longrightarrow> e c w = al_execute a c w"
  shows "agent_execute (a\<lparr>al_execute := e\<rparr>) rq w = agent_execute a rq w"
proof -
  have "agent_iterations (a\<lparr>al_execute := e\<rparr>) rq started is w r = agent_iterations a rq started is w r"
    for started "is" w r
    using assms by (intro other_executor_iterations) blast
  then show ?thesis by (simp add: agent_execute_def cong: prod.case_cong sum.case_cong)
qed

section \<open>The audit trail of a run\<close>

definition step_records :: "agent_step list \<Rightarrow> tool_call_record list" where
  "step_records steps = concat (map (\<lambda>st. case as_tool_record st of None \<Rightarrow> [] | Some r \<Rightarrow> [r]) steps)"

text \<open>The loop's other seams may append to the log too (a model call audits and charges itself).\<close>

definition appends :: "('w \<Rightarrow> bool) \<Rightarrow> ('w \<Rightarrow> audit_log) \<Rightarrow> 'w \<Rightarrow> 'w \<Rightarrow> bool" where
  "appends ok events w w' \<longleftrightarrow> ok w' \<and> prefix (events w) (events w')"

definition seams_append :: "('w \<Rightarrow> bool) \<Rightarrow> ('w \<Rightarrow> audit_log) \<Rightarrow> 'w agent_loop \<Rightarrow> bool" where
  "seams_append ok events a \<longleftrightarrow>
     (\<forall>w. ok w \<longrightarrow> (\<forall>p. appends ok events w (fst (al_propose a w p)))
        \<and> appends ok events w (fst (al_call_draw a w)) \<and> appends ok events w (fst (al_clock a w))
        \<and> appends ok events w (fst (al_utc_now a w))
        \<and> (\<forall>verify rq out. al_verify a = Some verify \<longrightarrow> appends ok events w (fst (verify w rq out))))"

locale tool_host =
  fixes execute :: "tool_call \<Rightarrow> 'w \<Rightarrow> 'w \<times> (executor_exn + tool_call_record)"
    and ok :: "'w \<Rightarrow> bool"
    and events :: "'w \<Rightarrow> audit_log"
    and detail :: "tool_call_record \<Rightarrow> json_object"
  assumes execute_law: "ok w \<Longrightarrow> execute c w = (w', Inr r) \<Longrightarrow>
    ok w' \<and> (\<exists>e. events w' = events w @ [e] \<and> ae_details e = detail r \<and> ae_event_type e = TOOL_CALL)"
begin

definition logged :: "audit_log \<Rightarrow> agent_step list \<Rightarrow> 'w \<Rightarrow> bool" where
  "logged evs steps w \<longleftrightarrow> ok w \<and> (\<exists>new. events w = evs @ new \<and>
     subseq (map detail (step_records steps)) (map ae_details (filter (\<lambda>e. ae_event_type e = TOOL_CALL) new)))"

lemma logged_append: "logged evs steps w \<Longrightarrow> appends ok events w w' \<Longrightarrow> logged evs steps w'"
  by (auto simp: logged_def appends_def prefix_def intro: subseq_rev_drop_many list_emb_append2)

lemma logged_execute:
  assumes l: "logged evs steps w" and x: "execute c w = (w', Inr r)" and st: "as_tool_record st = Some r"
  shows "logged evs (steps @ [st]) w'"
proof -
  from l obtain new where new: "ok w" "events w = evs @ new"
      "subseq (map detail (step_records steps)) (map ae_details (filter (\<lambda>e. ae_event_type e = TOOL_CALL) new))"
    by (auto simp: logged_def)
  from execute_law [OF new(1) x] obtain e where e: "ok w'" "events w' = events w @ [e]"
      "ae_details e = detail r" "ae_event_type e = TOOL_CALL" by blast
  have "subseq (map detail (step_records steps) @ [detail r])
     (map ae_details (filter (\<lambda>e. ae_event_type e = TOOL_CALL) new) @ [detail r])"
    using new(3) by (rule list_emb_append_mono) simp
  with e st new(2) show ?thesis
    by (auto simp: logged_def step_records_def intro!: exI [of _ "new @ [e]"])
qed

lemma logged_plain: "logged evs steps w \<Longrightarrow> as_tool_record st = None \<Longrightarrow> logged evs (steps @ [st]) w"
  by (simp add: logged_def step_records_def)

lemma logged_seam:
  assumes seams: "seams_append ok events a" and l: "logged evs steps w"
  shows "al_propose a w p = (w1, x) \<Longrightarrow> logged evs steps w1"
    "al_call_draw a w = (w1, y) \<Longrightarrow> logged evs steps w1"
    "al_clock a w = (w1, z) \<Longrightarrow> logged evs steps w1"
    "al_utc_now a w = (w1, n) \<Longrightarrow> logged evs steps w1"
    "al_verify a = Some verify \<Longrightarrow> verify w rq out = (w1, v) \<Longrightarrow> logged evs steps w1"
proof -
  have "ok w" using l by (simp add: logged_def)
  note s = seams [unfolded seams_append_def, rule_format, OF this]
  show "al_propose a w p = (w1, x) \<Longrightarrow> logged evs steps w1"
    using logged_append [OF l conjunct1 [OF s, rule_format]] by (metis fst_conv)
  show "al_call_draw a w = (w1, y) \<Longrightarrow> logged evs steps w1"
    using logged_append [OF l] s by (metis fst_conv)
  show "al_clock a w = (w1, z) \<Longrightarrow> logged evs steps w1"
    using logged_append [OF l] s by (metis fst_conv)
  show "al_utc_now a w = (w1, n) \<Longrightarrow> logged evs steps w1"
    using logged_append [OF l] s by (metis fst_conv)
  show "al_verify a = Some verify \<Longrightarrow> verify w rq out = (w1, v) \<Longrightarrow> logged evs steps w1"
    using logged_append [OF l] s by (metis fst_conv)
qed

lemma iteration_logged:
  assumes a: "al_execute a = execute" and seams: "seams_append ok events a"
    and l: "logged evs (ags_steps (agr_state r)) w"
    and it: "agent_iteration a rq started i w r = (w', Inr (stop, r'))"
  shows "logged evs (ags_steps (agr_state r')) w'"
proof -
  have late: "logged evs steps w1" if "logged evs steps w" "past_deadline a started w = (w1, x)" for w w1 x steps
  proof (cases "al_deadline_ms a")
    case None
    with that show ?thesis by (simp add: past_deadline_def)
  next
    case (Some d)
    with that(2) obtain t where "al_clock a w = (w1, t)"
      by (auto simp: past_deadline_def split: prod.splits)
    from logged_seam(3) [OF seams that(1) this] show ?thesis .
  qed
  note seam = logged_seam(1) [OF seams]
  from it show ?thesis
  proof (cases rule: agent_iteration_cases)
    case (1 d elapsed)
    from logged_plain [OF late [OF l 1(3)]] 1(2) show ?thesis by (simp add: deadline_stop_def)
  next
    case (2 w1 detail)
    from logged_plain [OF seam [OF late [OF l 2(1)] 2(2)]] 2(3) show ?thesis
      by (auto simp: propose_fault_def planner_node_def Let_def add_node_def add_step_def observe_def
          split: if_splits)
  next
    case (3 w1 raw f)
    from logged_plain [OF seam [OF late [OF l 3(1)] 3(2)]] 3(4) show ?thesis
      by (auto simp: invalid_proposal_def planner_node_def Let_def add_node_def add_step_def observe_def
          split: if_splits)
  next
    case (4 w1 w2 raw out why)
    have p: "logged evs (ags_steps (agr_state r)) w2" by (rule seam [OF late [OF l 4(1)] 4(2)])
    have v: "logged evs (ags_steps (agr_state r)) w'"
      if "al_verify a = Some verify" "verify w2 (arq_request rq) out = (w', answer)" for verify answer
      by (rule logged_seam(5) [OF seams p that])
    from 4(4) show ?thesis
    proof (cases rule: final_step_cases)
      case 1
      with logged_plain [OF p] show ?thesis by (simp add: finalize_def Let_def)
    next
      case (2 verify answer verdict)
      from logged_plain [OF v [OF 2(1,2)]] 2(6) show ?thesis
        by (simp add: finalize_def verifier_node_def Let_def)
    next
      case (3 verify answer verdict)
      from logged_plain [OF v [OF 3(1,2)]] 3(6) show ?thesis
        by (simp add: reject_final_def verifier_node_def Let_def)
    qed
  next
    case (5 w1 w2 raw tool arguments why)
    have p: "logged evs (ags_steps (agr_state r)) w2" by (rule seam [OF late [OF l 5(1)] 5(2)])
    from 5(4) show ?thesis
    proof (cases rule: tool_step_cases)
      case (1 err s)
      from logged_plain [OF p] 1 show ?thesis by (auto simp: refuse_act_def tool_node_def Let_def)
    next
      case (2 b wd draw rec)
      have d: "logged evs (ags_steps (agr_state r)) wd"
        by (rule logged_seam(2) [OF seams p 2(4)])
      from logged_execute [OF d 2(5) [unfolded a]] 2(6) show ?thesis
        by (simp add: note_record_def tool_node_def Let_def)
    qed
  qed
qed

lemma run_logged:
  assumes a: "al_execute a = execute" and seams: "seams_append ok events a" and "ok w"
    and run: "agent_execute a rq w = (w', Inr rep)"
  shows "ok w' \<and> (\<exists>new. events w' = events w @ new \<and>
     subseq (map detail (step_records (arp_steps rep)))
       (map ae_details (filter (\<lambda>e. ae_event_type e = TOOL_CALL) new)))"
proof -
  from run obtain w1 w2 w3 w4 created started r t completed where
    s: "al_utc_now a w = (w1, created)" "al_clock a w1 = (w2, started)"
    and it: "agent_iterations a rq started [1..<Suc (al_max_steps a)] w2 empty_run = (w3, Inr r)"
    and e: "al_clock a w3 = (w4, t)" "al_utc_now a w4 = (w', completed)"
    and rep: "rep = agent_report_of a rq created r ((t - started) * 1000) completed"
    by (rule agent_execute_run)
  note utc = logged_seam(4) [OF seams] and clk = logged_seam(3) [OF seams]
  have "logged (events w) [] w" using assms(3) by (simp add: logged_def step_records_def)
  from clk [OF utc [OF this s(1)] s(2)]
  have "logged (events w) (ags_steps (agr_state empty_run)) w2" by (simp add: empty_run_def)
  then have "logged (events w) (ags_steps (agr_state r)) w3"
    by (rule agent_iterations_rule [OF it, where P = "\<lambda>i w' r. logged (events w) (ags_steps (agr_state r)) w'"
        and Q = "\<lambda>w' r. logged (events w) (ags_steps (agr_state r)) w'", rotated 1])
      (use iteration_logged [OF a seams] in auto)
  from utc [OF clk [OF this e(1)] e(2)] show ?thesis
    by (auto simp: logged_def rep)
qed

end

interpretation gated: tool_host "gated_execute (usage_reserve n) usage_settle usage_fail env"
  "\<lambda>w. usage_inv (es_usage (snd w))" "\<lambda>w. es_audit (snd w)" "call_details env"
  for n env
proof unfold_locales
  fix w w' :: "'v \<times> usage_state exec_state" and c r
  assume "usage_inv (es_usage (snd w))"
    and "gated_execute (usage_reserve n) usage_settle usage_fail env c w = (w', Inr r)"
  then show "usage_inv (es_usage (snd w')) \<and> (\<exists>e. es_audit (snd w') = es_audit (snd w) @ [e]
      \<and> ae_details e = call_details env r \<and> ae_event_type e = TOOL_CALL)"
    using mem_usage.tool_execute_concludes [of "snd w" n env c "snd w'" r]
    by (auto simp: gated_execute_def call_event_def split: prod.splits)
qed

text \<open>
  An agent loop over the accounted executor never spends or acts off the record: a run that
  returns a report keeps the usage ledger's invariant, only appends to the audit log, and the tool
  call records of its steps are, in order, among the \<open>TOOL_CALL\<close> entries it appended.
\<close>

theorem agent_acts_are_audited:
  assumes "al_execute a = gated_execute (usage_reserve n) usage_settle usage_fail env"
    and "seams_append (\<lambda>w. usage_inv (es_usage (snd w))) (\<lambda>w. es_audit (snd w)) a"
    and "usage_inv (es_usage (snd w))" and "agent_execute a rq w = (w', Inr rep)"
  shows "usage_inv (es_usage (snd w')) \<and> (\<exists>new. es_audit (snd w') = es_audit (snd w) @ new \<and>
     subseq (map (call_details env) (step_records (arp_steps rep)))
       (map ae_details (filter (\<lambda>e. ae_event_type e = TOOL_CALL) new)))"
  by (rule gated.run_logged [OF assms])

section \<open>A run of one tool call and an answer\<close>

definition ex_agent_call :: json_object where
  "ex_agent_call = [(''action'', JStr ''tool_call''), (''tool'', JStr ''reader''), (''arguments'', JObj [])]"

definition ex_agent_final :: json_object where
  "ex_agent_final = [(''action'', JStr ''final''), (''output'', JObj [(''answer'', JStr ''x'')])]"

definition ex_agent :: "(nat \<times> usage_state exec_state) agent_loop" where
  "ex_agent =
     \<lparr>al_propose = (\<lambda>w p. ((Suc (fst w), snd w),
        SeamReturned (JObj (if fst w = 0 then ex_agent_call else ex_agent_final)))),
      al_execute = gated_execute (usage_reserve 100) usage_settle usage_fail (ex_env (Returned [])),
      al_call_draw = (\<lambda>w. (w, 3, 50, 1000)),
      al_bindings = [''reader'' \<mapsto> \<lparr>agb_tool_id = 5, agb_permission = ''fs.read'', agb_resource = ''repo'',
         agb_scope = ''project'', agb_entitlement = ''dev'', agb_risk_level = ''low'',
         agb_approval_state = Some Approved, agb_device_id = Some 7, agb_estimated_units = 4\<rparr>],
      al_max_steps = 2, al_verify = None, al_ids = (\<lambda>n. n), al_max_repeated_failures = 2,
      al_deadline_ms = None, al_clock = (\<lambda>w. (w, 0)), al_utc_now = (\<lambda>w. (w, 0)),
      al_max_invalid_proposals = 2, al_max_propose_failures = 2, al_repr = (\<lambda>_. [])\<rparr>"

definition ex_agent_rq :: agent_request where
  "ex_agent_rq = \<lparr>arq_tenant_id = 1, arq_user_id = 2, arq_request = [], arq_request_hash = ''h'',
     arq_actor = USER, arq_actor_id = None, arq_conversation_id = None, arq_idempotency_key = None\<rparr>"

lemma ex_agent_proposals:
  "parse_agent_proposal (JObj ex_agent_call) = Inr (ToolCallProposal ''reader'' [] None)"
  "parse_agent_proposal (JObj ex_agent_final) = Inr (FinalProposal [(''answer'', JStr ''x'')] None)"
  by (simp_all add: parse_agent_proposal_def parse_tool_call_def parse_final_def extra_keys_def
      TOOL_CALL_KEYS_def FINAL_KEYS_def optional_reasoning_def require_tool_def ex_agent_call_def
      ex_agent_final_def)

lemma ex_agent_tool:
  "\<exists>s' rec. tool_execute (usage_reserve 100) usage_settle usage_fail (ex_env (Returned [])) Tool_Executor.ex_call Tool_Executor.ex_state
     = (s', Inr rec) \<and> tcr_status rec = Succeeded"
  by (simp add: tool_execute_def ex_admit_Suc Tool_Executor.ex_state_def ex_reserve_one conclude_eq
      usage_settle_def usage_resolve_def ex_usage_held_def ex_hold_def Let_def)

lemma ex_agent_dispatch:
  "dispatched_call ex_agent_rq (the (al_bindings ex_agent ''reader'')) (3, 50, 1000) [] = Tool_Executor.ex_call"
  by (simp add: dispatched_call_def binding_request_def ex_agent_rq_def ex_agent_def Tool_Executor.ex_call_def
      Tool_Fabric.ex_request_def)

lemma ex_agent_runs:
  "\<exists>w' rep. agent_execute ex_agent ex_agent_rq (0, Tool_Executor.ex_state) = (w', Inr rep)
     \<and> length (step_records (arp_steps rep)) = 1 \<and> arp_final_output rep = Some [(''answer'', JStr ''x'')]"
proof -
  obtain s' rec where x: "tool_execute (usage_reserve 100) usage_settle usage_fail (ex_env (Returned []))
      Tool_Executor.ex_call Tool_Executor.ex_state = (s', Inr rec)" "tcr_status rec = Succeeded"
    using ex_agent_tool by blast
  have ex: "al_execute ex_agent Tool_Executor.ex_call (Suc 0, Tool_Executor.ex_state) = ((Suc 0, s'), Inr rec)"
    using x(1) by (simp add: ex_agent_def gated_execute_def)
  have sel: "al_propose ex_agent = (\<lambda>w p. ((Suc (fst w), snd w),
        SeamReturned (JObj (if fst w = 0 then ex_agent_call else ex_agent_final))))"
      "al_call_draw ex_agent = (\<lambda>w. (w, 3, 50, 1000))" "al_max_steps ex_agent = 2"
      "al_verify ex_agent = None" "al_max_repeated_failures ex_agent = 2" "al_deadline_ms ex_agent = None"
      "al_clock ex_agent = (\<lambda>w. (w, 0))" "al_utc_now ex_agent = (\<lambda>w. (w, 0))"
    by (simp_all add: ex_agent_def)
  obtain b where b: "al_bindings ex_agent ''reader'' = Some b" by (simp add: ex_agent_def)
  have call: "\<lparr>tc_call_id = 3, tc_event_id = 50, tc_now = 1000, tc_tool_id = agb_tool_id b,
      tc_request = binding_request ex_agent_rq b, tc_arguments = [], tc_device_id = agb_device_id b,
      tc_actor_id = arq_actor_id ex_agent_rq, tc_estimated_units = agb_estimated_units b\<rparr> = Tool_Executor.ex_call"
    using ex_agent_dispatch b by (simp add: dispatched_call_def)
  define r1 where "r1 = planned ex_agent (propose_payload ex_agent ex_agent_rq 1 (agr_state empty_run))
    ex_agent_call empty_run"
  define r2 where "r2 = r1\<lparr>agr_state := observe (fst (note_record ex_agent 1 ''reader'' [] ex_agent_call rec
    (agr_state r1))) (record_observation 1 ''reader'' rec)\<rparr>"
  have nofail: "ags_failures (agr_state r1) = Map.empty"
    by (simp add: r1_def) (simp add: empty_run_def)
  have act1: "act ex_agent ex_agent_rq 1 ''reader'' [] ex_agent_call (Suc 0, Tool_Executor.ex_state) (agr_state r1)
      = ((Suc 0, s'), Inr (note_record ex_agent 1 ''reader'' [] ex_agent_call rec (agr_state r1)))"
    using ex b call nofail by (simp add: act_def sel)
  have obs: "snd (note_record ex_agent 1 ''reader'' [] ex_agent_call rec (agr_state r1))
      = record_observation 1 ''reader'' rec"
    by (simp add: note_record_def Let_def)
  have tool1: "tool_step ex_agent ex_agent_rq 1 ''reader'' [] ex_agent_call (Suc 0, Tool_Executor.ex_state) r1
      = ((Suc 0, s'), Inr (False, r2))"
    using act1 obs
    by (cases "note_record ex_agent 1 ''reader'' [] ex_agent_call rec (agr_state r1)")
      (simp add: tool_step_def sel r2_def)
  have i1: "agent_iteration ex_agent ex_agent_rq 0 1 (0, Tool_Executor.ex_state) empty_run = ((Suc 0, s'), Inr (False, r2))"
    using tool1 ex_agent_proposals(1)
    by (simp add: agent_iteration_def past_deadline_def sel dispose_object r1_def)
  define r3 where "r3 = finalize ex_agent 2 ex_agent_final [(''answer'', JStr ''x'')]
    (planned ex_agent (propose_payload ex_agent ex_agent_rq 2 (agr_state r2)) ex_agent_final r2)"
  have i2: "agent_iteration ex_agent ex_agent_rq 0 2 (Suc 0, s') r2 = ((2, s'), Inr (True, r3))"
    using ex_agent_proposals(2)
    by (simp add: agent_iteration_def past_deadline_def sel dispose_object final_step_def r3_def)
  have "[1..<Suc (al_max_steps ex_agent)] = [1, 2]" by (simp add: sel upt_rec)
  then have "agent_iterations ex_agent ex_agent_rq 0 [1..<Suc (al_max_steps ex_agent)] (0, Tool_Executor.ex_state) empty_run
      = ((2, s'), Inr r3)"
    using i1 i2 by simp
  then have run: "agent_execute ex_agent ex_agent_rq (0, Tool_Executor.ex_state)
      = ((2, s'), Inr (agent_report_of ex_agent ex_agent_rq 0 r3 ((0 - 0) * 1000) 0))"
    unfolding agent_execute_def sel by simp
  have "step_records (ags_steps (agr_state r3)) = [rec]"
    by (simp add: r3_def finalize_def r2_def note_record_def tool_node_def Let_def r1_def step_records_def)
      (simp add: empty_run_def)
  with run show ?thesis by (simp add: r3_def finalize_def Let_def)
qed


theorem agent_holds_no_authority_witness:
  "agent_execute (ex_agent\<lparr>al_execute := (\<lambda>c w. if tc_tool_id c = 5 \<and> tc_device_id c = Some 7
       then al_execute ex_agent c w else (w, Inl CancelledError))\<rparr>) ex_agent_rq (0, Tool_Executor.ex_state)
   = agent_execute ex_agent ex_agent_rq (0, Tool_Executor.ex_state)"
proof (rule agent_holds_no_authority, intro allI impI)
  fix c and w :: "nat \<times> usage_state exec_state"
  assume "vetted_call ex_agent ex_agent_rq c"
  then have "tc_tool_id c = 5 \<and> tc_device_id c = Some 7"
    by (auto simp: vetted_call_def ex_agent_def split: if_splits)
  then show "(if tc_tool_id c = 5 \<and> tc_device_id c = Some 7 then al_execute ex_agent c w
      else (w, Inl CancelledError)) = al_execute ex_agent c w" by simp
qed

theorem agent_acts_are_audited_witness:
  "\<exists>w' rep. agent_execute ex_agent ex_agent_rq (0, Tool_Executor.ex_state) = (w', Inr rep)
     \<and> length (step_records (arp_steps rep)) = 1 \<and> es_audit (snd w') \<noteq> []"
proof -
  obtain w' rep where run: "agent_execute ex_agent ex_agent_rq (0, Tool_Executor.ex_state) = (w', Inr rep)"
    and one: "length (step_records (arp_steps rep)) = 1" using ex_agent_runs by blast
  have "al_execute ex_agent = gated_execute (usage_reserve 100) usage_settle usage_fail (ex_env (Returned []))"
    by (simp add: ex_agent_def)
  moreover have "seams_append (\<lambda>w. usage_inv (es_usage (snd w))) (\<lambda>w. es_audit (snd w)) ex_agent"
    by (simp add: seams_append_def appends_def ex_agent_def)
  moreover have "usage_inv (es_usage (snd (0::nat, Tool_Executor.ex_state)))" by (simp add: Tool_Executor.ex_state_def ex_usage_inv)
  ultimately have "\<exists>new. es_audit (snd w') = es_audit (snd (0::nat, Tool_Executor.ex_state)) @ new \<and>
     subseq (map (call_details (ex_env (Returned []))) (step_records (arp_steps rep)))
       (map ae_details (filter (\<lambda>e. ae_event_type e = TOOL_CALL) new))"
    using agent_acts_are_audited [OF _ _ _ run] by blast
  then obtain new where new: "es_audit (snd w') = es_audit Tool_Executor.ex_state @ new"
      "subseq (map (call_details (ex_env (Returned []))) (step_records (arp_steps rep)))
       (map ae_details (filter (\<lambda>e. ae_event_type e = TOOL_CALL) new))" by auto
  have "new \<noteq> []" using new(2) one by auto
  with run one new(1) show ?thesis by auto
qed

end
