(* ===== verification/Agent_Runtime.thy ===== *)
theory Agent_Runtime
  imports Agent_Loop
begin

text \<open>
  \<open>AgentRuntime\<close> of \<open>core/agent/runtime.py\<close>: the tool specs it admits, how one run wires the loop
  to the gated executor, the evidence the default verifier reads, and the projection of the loop's
  report onto the stored execution report.  One reasoning call (routing, \<open>execute_single\<close> and the
  extraction of the JSON object) is a port on the world \<open>'v\<close>; its prompt is kept as the four
  values that \<open>build_agent_prompt\<close> prints.  A verifier passed by the caller is a function of the
  request and the proposed output.  Lemmas: a successful run's answer cites only steps whose
  tool results it holds; the stored report gives back the loop's answer.
\<close>

section \<open>Tool specs\<close>

record agent_tool_spec =
  ats_tool :: tool
  ats_handler :: "json_object \<Rightarrow> handler_outcome"
  ats_permission :: string
  ats_resource :: string
  ats_entitlement :: string
  ats_description :: string
  ats_arguments :: json_object
  ats_scope :: string
  ats_risk_level :: string
  ats_estimated_units :: units
  ats_verify_result :: "(json_object \<Rightarrow> string option) option"

definition spec_admitted :: "agent_tool_spec \<Rightarrow> bool" where
  "spec_admitted p \<longleftrightarrow> ats_permission p \<in> set (tool_permissions (ats_tool p))"

definition describe_tool :: "agent_tool_spec \<Rightarrow> json_object" where
  "describe_tool p =
     [(''name'', JStr (tool_name (ats_tool p))), (''description'', JStr (ats_description p)),
      (''arguments'', JObj (ats_arguments p)), (''permission'', JStr (ats_permission p)),
      (''risk_level'', JStr (ats_risk_level p))]"

text \<open>\<open>dumps\<close> is the sorted JSON text of a result.\<close>

definition bound_handler ::
  "(json_object \<Rightarrow> string) \<Rightarrow> agent_tool_spec \<Rightarrow> json_object \<Rightarrow> handler_outcome" where
  "bound_handler dumps p arguments =
     (case ats_verify_result p of
        None \<Rightarrow> ats_handler p arguments
      | Some check \<Rightarrow>
          (case ats_handler p arguments of
             Returned result \<Rightarrow>
               (case check result of
                  None \<Rightarrow> Returned result
                | Some reason \<Rightarrow> Raised ''ToolResultRejected''
                                  (reason @ ''; result='' @ take 500 (dumps result)))
           | other \<Rightarrow> other))"

definition spec_binding :: "agent_tool_spec \<Rightarrow> agent_tool_binding" where
  "spec_binding p =
     \<lparr>agb_tool_id = tool_id (ats_tool p), agb_permission = ats_permission p,
      agb_resource = ats_resource p, agb_scope = ats_scope p, agb_entitlement = ats_entitlement p,
      agb_risk_level = ats_risk_level p, agb_approval_state = None, agb_device_id = None,
      agb_estimated_units = ats_estimated_units p\<rparr>"

section \<open>The runtime\<close>

definition MAX_AGENT_MAX_STEPS :: nat where
  "MAX_AGENT_MAX_STEPS = 32"

definition runtime_refusal :: "nat \<Rightarrow> nat \<Rightarrow> string option" where
  "runtime_refusal max_steps reasoning_max_tokens =
     (if \<not> (1 \<le> max_steps \<and> max_steps \<le> MAX_AGENT_MAX_STEPS) then Some ''max_steps''
      else if \<not> (256 \<le> reasoning_max_tokens \<and> reasoning_max_tokens \<le> 65536)
      then Some ''reasoning_max_tokens'' else None)"

record agent_prompt =
  apr_task :: json_object
  apr_tools :: "json_object list"
  apr_observations :: "json list"
  apr_budget :: json_object

text \<open>
  One reasoning call: the extracted object with the stored execution's id, a \<open>ReasoningFailed\<close>
  with its message, or a cancellation.
\<close>

datatype reasoning = Reasoned json_object uuid | ReasoningFailed string | ReasoningCancelled

text \<open>The usage port's calls, the printers and the wall clock are wired in at composition.\<close>

record ('v, 'u) agent_runtime =
  art_tools :: tool_registry
  art_firewall :: firewall
  art_devices :: device_registry
  art_show :: py_show
  art_reserve :: "'u \<Rightarrow> uuid \<Rightarrow> uuid \<Rightarrow> units \<Rightarrow> usage_error + ('u \<times> usage_ledger)"
  art_settle :: "'u \<Rightarrow> uuid \<Rightarrow> units \<Rightarrow> json_object \<Rightarrow> usage_error + ('u \<times> usage_ledger)"
  art_fail :: "'u \<Rightarrow> uuid \<Rightarrow> units \<Rightarrow> json_object \<Rightarrow> usage_error + ('u \<times> usage_ledger)"
  art_max_steps :: nat
  art_deadline_ms :: "nat option"
  art_max_repeated_failures :: nat
  art_reason :: "'v \<times> 'u exec_state \<Rightarrow> agent_prompt \<Rightarrow> ('v \<times> 'u exec_state) \<times> reasoning"
  art_call_draw :: "'v \<times> 'u exec_state \<Rightarrow> ('v \<times> 'u exec_state) \<times> (uuid \<times> uuid \<times> timestamp)"
  art_clock :: "'v \<times> 'u exec_state \<Rightarrow> ('v \<times> 'u exec_state) \<times> rat"
  art_utc_now :: "'v \<times> 'u exec_state \<Rightarrow> ('v \<times> 'u exec_state) \<times> timestamp"
  art_ids :: "nat \<Rightarrow> uuid"
  art_repr :: "json \<Rightarrow> string"
  art_dumps :: "json_object \<Rightarrow> string"
  art_task_hash :: "json_object \<Rightarrow> string"
  art_store_report :: "('v \<times> 'u exec_state \<Rightarrow> execution_report \<Rightarrow> 'v \<times> 'u exec_state) option"

text \<open>The world of one run: the shared world, the succeeded steps seen, the reasoning ids.\<close>

type_synonym ('v, 'u) run_world = "('v \<times> 'u exec_state) \<times> int list \<times> uuid list"

definition on_shared ::
  "('v \<times> 'u exec_state \<Rightarrow> ('v \<times> 'u exec_state) \<times> 'a) \<Rightarrow> ('v, 'u) run_world \<Rightarrow> ('v, 'u) run_world \<times> 'a" where
  "on_shared f w = (case f (fst w) of (x, y) \<Rightarrow> ((x, snd w), y))"

datatype runtime_error = RuntimeValue string | RuntimeTool tool_error | RuntimeExecutor executor_exn

fun admit_specs ::
  "tool_registry \<Rightarrow> string list \<Rightarrow> agent_tool_spec list \<Rightarrow> runtime_error option" where
  "admit_specs reg seen [] = None"
| "admit_specs reg seen (p # ps) =
     (if tool_name (ats_tool p) \<in> set seen then Some (RuntimeValue (tool_name (ats_tool p)))
      else case tool_select reg (tool_id (ats_tool p)) of
             Inl e \<Rightarrow> Some (RuntimeTool e)
           | Inr _ \<Rightarrow> admit_specs reg (tool_name (ats_tool p) # seen) ps)"

text \<open>The step numbers that \<open>propose\<close> collects from the succeeded observations.\<close>

definition json_int :: "json \<Rightarrow> int option" where
  "json_int j = (case j of JInt i \<Rightarrow> Some i | JBool b \<Rightarrow> Some (of_bool b) | _ \<Rightarrow> None)"

definition collect_step :: "int list \<Rightarrow> json \<Rightarrow> int list" where
  "collect_step ev entry =
     (case entry of
        JObj d \<Rightarrow>
          (if map_of d ''status'' \<noteq> Some (JStr ''succeeded'') then ev
           else case (case map_of d ''step'' of None \<Rightarrow> None | Some j \<Rightarrow> json_int j) of
                  None \<Rightarrow> ev
                | Some i \<Rightarrow> if i \<in> set ev then ev else ev @ [i])
      | _ \<Rightarrow> ev)"

definition json_items :: "json option \<Rightarrow> json list" where
  "json_items j = (case j of Some (JList xs) \<Rightarrow> xs | _ \<Rightarrow> [])"

definition runtime_propose ::
  "('v, 'u) agent_runtime \<Rightarrow> json_object \<Rightarrow> json_object list \<Rightarrow> ('v, 'u) run_world \<Rightarrow> json_object
     \<Rightarrow> ('v, 'u) run_world \<times> seam_outcome" where
  "runtime_propose rt task described w payload =
     (let obs = json_items (map_of payload ''observations'');
          ev = foldl collect_step (fst (snd w)) obs;
          budget = (case map_of payload ''budget'' of Some (JObj b) \<Rightarrow> b | _ \<Rightarrow> [])
      in case art_reason rt (fst w) \<lparr>apr_task = task, apr_tools = described, apr_observations = obs,
                apr_budget = budget\<rparr> of
           (x, Reasoned d i) \<Rightarrow> ((x, ev, snd (snd w) @ [i]), SeamReturned (JObj d))
         | (x, ReasoningFailed msg) \<Rightarrow> ((x, ev, snd (snd w)), SeamRaised (''ReasoningFailed: '' @ msg))
         | (x, ReasoningCancelled) \<Rightarrow> ((x, ev, snd (snd w)), SeamCancelled))"

type_synonym verifier = "json_object \<Rightarrow> json_object \<Rightarrow> seam_outcome"

definition verify_with_evidence ::
  "verifier \<Rightarrow> ('v, 'u) run_world \<Rightarrow> json_object \<Rightarrow> json_object \<Rightarrow> ('v, 'u) run_world \<times> seam_outcome" where
  "verify_with_evidence verify w request out =
     (w, verify (AList.update ''_evidence_steps'' (JList (map JInt (fst (snd w)))) request) out)"

definition runtime_env :: "('v, 'u) agent_runtime \<Rightarrow> agent_tool_spec list \<Rightarrow> tool_env" where
  "runtime_env rt specs =
     \<lparr>te_tools = art_tools rt, te_firewall = art_firewall rt, te_devices = art_devices rt,
      te_handlers = map_of (rev (map (\<lambda>p. (tool_id (ats_tool p), bound_handler (art_dumps rt) p)) specs)),
      te_show = art_show rt\<rparr>"

definition runtime_loop ::
  "('v, 'u) agent_runtime \<Rightarrow> json_object \<Rightarrow> agent_tool_spec list \<Rightarrow> nat \<Rightarrow> nat option \<Rightarrow> verifier
     \<Rightarrow> ('v, 'u) run_world agent_loop" where
  "runtime_loop rt task specs steps deadline verify =
     \<lparr>al_propose = runtime_propose rt task (map describe_tool specs),
      al_execute = (\<lambda>c. on_shared (gated_execute (art_reserve rt) (art_settle rt) (art_fail rt)
                       (runtime_env rt specs) c)),
      al_call_draw = on_shared (art_call_draw rt),
      al_bindings = map_of (rev (map (\<lambda>p. (tool_name (ats_tool p), spec_binding p)) specs)),
      al_max_steps = steps, al_verify = Some (verify_with_evidence verify), al_ids = art_ids rt,
      al_max_repeated_failures = art_max_repeated_failures rt, al_deadline_ms = deadline,
      al_clock = on_shared (art_clock rt), al_utc_now = on_shared (art_utc_now rt),
      al_max_invalid_proposals = 2, al_max_propose_failures = 2, al_repr = art_repr rt\<rparr>"

section \<open>The stored report\<close>

definition agent_execution_report ::
  "(uuid \<Rightarrow> string) \<Rightarrow> agent_report \<Rightarrow> uuid list \<Rightarrow> execution_report" where
  "agent_execution_report show_id rep ids =
     (let ex = arp_execution rep;
          cost = foldl (\<lambda>d (k, v). AList.update k v d) (xc_cost_snapshot ex)
            [(''reasoning_execution_ids'', JList (map (\<lambda>i. JStr (show_id i)) ids)),
             (''verification'', case arp_verification rep of None \<Rightarrow> JNull | Some d \<Rightarrow> JObj d),
             (''evidence'', JList (map JObj (arp_evidence rep)))];
          nodes = map (\<lambda>n. \<lparr>np_node = n, np_attempts = [], np_response = None\<rparr>) (arp_nodes rep);
          final = (case arp_final_output rep of
             Some out \<Rightarrow>
               if xc_status ex = EXECUTION_SUCCEEDED
               then [\<lparr>np_node = \<lparr>xn_id = xc_id ex, xn_execution_id = xc_id ex, xn_node_key = ''final'',
                       xn_type = NODE_MODEL_CALL, xn_status = NODE_SUCCEEDED,
                       xn_input_ref = [(''stop_reason'', JStr (stop_value (arp_stop_reason rep)))],
                       xn_output_ref = Some out, xn_retry_count = 0, xn_error = None\<rparr>,
                      np_attempts = [],
                      np_response = Some \<lparr>gs_request_id = xc_id ex, gs_succeeded = True, gs_output = out,
                        gs_usage = [], gs_error = None, gs_latency_ms = None\<rparr>\<rparr>]
               else []
           | None \<Rightarrow> [])
      in \<lparr>xr_execution = ex\<lparr>xc_cost_snapshot := cost\<rparr>, xr_nodes = nodes @ final,
          xr_status_history = arp_status_history rep, xr_usage = None\<rparr>)"

record runtime_request =
  rtq_tenant_id :: uuid
  rtq_user_id :: uuid
  rtq_task :: json_object
  rtq_tools :: "agent_tool_spec list"
  rtq_max_steps :: "nat option"
  rtq_deadline_ms :: "nat option"
  rtq_verify :: "verifier option"
  rtq_actor :: actor_kind
  rtq_conversation_id :: "uuid option"
  rtq_idempotency_key :: "string option"
  rtq_request_hash :: "string option"

record run_outcome =
  rto_report :: agent_report
  rto_reasoning_ids :: "uuid list"
  rto_execution_report :: execution_report

definition default_verifier :: "(json \<Rightarrow> string) \<Rightarrow> verifier" where
  "default_verifier repr request out = SeamReturned (JObj (evidence_verifier repr request out))"

definition run_deadline :: "nat option \<Rightarrow> nat option \<Rightarrow> nat option" where
  "run_deadline own asked =
     (case asked of None \<Rightarrow> own
      | Some d \<Rightarrow> (case own of None \<Rightarrow> Some d | Some m \<Rightarrow> Some (min d m)))"

definition runtime_run ::
  "('v, 'u) agent_runtime \<Rightarrow> runtime_request \<Rightarrow> 'v \<times> 'u exec_state
     \<Rightarrow> ('v \<times> 'u exec_state) \<times> (runtime_error + run_outcome)" where
  "runtime_run rt q w =
     (case admit_specs (art_tools rt) [] (rtq_tools q) of
        Some e \<Rightarrow> (w, Inl e)
      | None \<Rightarrow>
         (let steps = (case rtq_max_steps q of None \<Rightarrow> art_max_steps rt | Some n \<Rightarrow> n);
              verify = (case rtq_verify q of None \<Rightarrow> default_verifier (art_repr rt) | Some v \<Rightarrow> v);
              a = runtime_loop rt (rtq_task q) (rtq_tools q) steps
                    (run_deadline (art_deadline_ms rt) (rtq_deadline_ms q)) verify
          in if \<not> (1 \<le> steps \<and> steps \<le> art_max_steps rt)
             then (w, Inl (RuntimeValue ''max_steps''))
             else case loop_refusal a of
                Some why \<Rightarrow> (w, Inl (RuntimeValue why))
              | None \<Rightarrow>
                 (case agent_execute a
                     \<lparr>arq_tenant_id = rtq_tenant_id q, arq_user_id = rtq_user_id q,
                      arq_request = rtq_task q, arq_request_hash = (case rtq_request_hash q of None \<Rightarrow> art_task_hash rt (rtq_task q) | Some h \<Rightarrow> h),
                      arq_actor = rtq_actor q, arq_actor_id = Some (rtq_user_id q),
                      arq_conversation_id = rtq_conversation_id q,
                      arq_idempotency_key = rtq_idempotency_key q\<rparr> (w, [], []) of
                    ((w', _), Inl e) \<Rightarrow> (w', Inl (RuntimeExecutor e))
                  | ((w', _, ids), Inr rep) \<Rightarrow>
                      (let stored = agent_execution_report (show_uuid (art_show rt)) rep ids
                       in (case art_store_report rt of None \<Rightarrow> w' | Some store \<Rightarrow> store w' stored,
                           Inr \<lparr>rto_report = rep, rto_reasoning_ids = ids, rto_execution_report = stored\<rparr>)))))"

section \<open>The default verifier\<close>

lemma cited_steps_Inr: "cited_steps xs = Inr is \<longleftrightarrow> xs = map JInt is"
proof (induction xs arbitrary: "is")
  case (Cons x xs)
  show ?case
  proof (cases x)
    case (JInt i)
    have inj: "inj JInt" by (simp add: inj_def)
    show ?thesis
    proof (cases "cited_steps xs")
      case (Inl e)
      then have "xs \<noteq> map JInt is" for "is" using Cons.IH [of "is"] by simp
      with Inl JInt show ?thesis by (auto simp: Cons_eq_map_conv)
    next
      case (Inr js)
      then have "xs = map JInt js" using Cons.IH by blast
      with Inr JInt show ?thesis
        using inj by (auto simp: Cons_eq_map_conv inj_map_eq_map)
    qed
  qed (auto simp: Cons_eq_map_conv)
qed auto

definition cited_items :: "json_object \<Rightarrow> json list option" where
  "cited_items out =
     (case map_of out ''evidence'' of None \<Rightarrow> Some [] | Some (JList xs) \<Rightarrow> Some xs | Some _ \<Rightarrow> None)"

definition available_steps :: "json_object \<Rightarrow> int list" where
  "available_steps request = (case map_of request ''_evidence_steps'' of Some (JList xs) \<Rightarrow> int_items xs | _ \<Rightarrow> [])"

lemma rejected_final [simp]: "\<not> admits_final ((''verified'', JBool False) # d)"
  by (simp add: admits_final_def)

lemma admitted_final [simp]: "admits_final ((''verified'', JBool True) # d)"
  by (simp add: admits_final_def)

lemma verifier_exact:
  "admits_final (evidence_verifier repr request out) \<longleftrightarrow>
     (\<exists>answer items. map_of out ''answer'' = Some (JStr answer) \<and> \<not> list_all is_space answer
        \<and> cited_items out = Some items
        \<and> (\<forall>x \<in> set items. \<exists>i \<in> set (available_steps request). x = JInt i))"
proof (cases "\<exists>answer. map_of out ''answer'' = Some (JStr answer)")
  case False
  have "\<not> admits_final (evidence_verifier repr request out)"
  proof (cases "map_of out ''answer''")
    case None
    then show ?thesis by (simp add: evidence_verifier_def Let_def)
  next
    case (Some j)
    with False show ?thesis by (cases j) (simp_all add: evidence_verifier_def Let_def)
  qed
  with False show ?thesis by blast
next
  case True
  then obtain answer where ans: "map_of out ''answer'' = Some (JStr answer)" by blast
  define e where "e = (case map_of out ''evidence'' of None \<Rightarrow> JList [] | Some e \<Rightarrow> e)"
  show ?thesis
  proof (cases "list_all is_space answer")
    case True
    with ans show ?thesis by (simp add: evidence_verifier_def Let_def)
  next
    case blank: False
    show ?thesis
    proof (cases "\<exists>items. e = JList items")
      case False
      then have "cited_items out = None"
        by (auto simp: e_def cited_items_def split: option.splits json.splits)
      moreover have "\<not> admits_final (evidence_verifier repr request out)"
        using False ans blank by (cases e) (simp_all add: evidence_verifier_def Let_def e_def [symmetric])
      ultimately show ?thesis by simp
    next
      case True
      then obtain items where items: "e = JList items" by blast
      then have ci: "cited_items out = Some items"
        by (auto simp: e_def cited_items_def split: option.splits json.splits)
      show ?thesis
      proof (cases "cited_steps items")
        case (Inl x)
        then have "\<not> (\<forall>x \<in> set items. \<exists>i. x = JInt i)"
          using cited_steps_Inr [of items] by (metis Inl_Inr_False ex_map_conv)
        then have "\<not> (\<forall>x \<in> set items. \<exists>i \<in> set (available_steps request). x = JInt i)" by blast
        with Inl ans blank ci show ?thesis
          by (simp add: evidence_verifier_def Let_def e_def [symmetric] items)
      next
        case (Inr cited)
        then have im: "items = map JInt cited" by (simp add: cited_steps_Inr)
        have "filter (\<lambda>i. i \<notin> set (available_steps request)) cited = [] \<longleftrightarrow>
            (\<forall>x \<in> set items. \<exists>i \<in> set (available_steps request). x = JInt i)"
          by (auto simp: im filter_empty_conv)
        with Inr ans blank ci show ?thesis
          by (auto simp: evidence_verifier_def Let_def e_def [symmetric] items available_steps_def [symmetric])
      qed
    qed
  qed
qed

section \<open>A successful run cites its own evidence\<close>

definition evidence_steps :: "json_object list \<Rightarrow> int set" where
  "evidence_steps ev = {i. \<exists>e \<in> set ev. map_of e ''step'' = Some (JInt i)}"

lemma evidence_steps_append [simp]: "evidence_steps (a @ b) = evidence_steps a \<union> evidence_steps b"
  by (auto simp: evidence_steps_def)

text \<open>Every observation that claims success is backed by the evidence ledger.\<close>

definition backed :: "int set \<Rightarrow> json_object \<Rightarrow> bool" where
  "backed E obs \<longleftrightarrow> (map_of obs ''status'' = Some (JStr ''succeeded'')
     \<longrightarrow> (\<exists>i \<in> E. map_of obs ''step'' = Some (JInt i)))"

lemma backed_mono: "backed E obs \<Longrightarrow> E \<subseteq> F \<Longrightarrow> backed F obs"
  by (auto simp: backed_def)

definition evidence_inv :: "('v, 'u) run_world \<Rightarrow> run_state \<Rightarrow> bool" where
  "evidence_inv w s \<longleftrightarrow> set (fst (snd w)) \<subseteq> evidence_steps (ags_evidence s)
     \<and> (\<forall>obs \<in> set (ags_observations s). backed (evidence_steps (ags_evidence s)) obs)"

lemma collect_step_backed:
  assumes "set ev \<subseteq> E" and "\<forall>obs \<in> set os. backed E obs"
  shows "set (foldl collect_step ev (map JObj os)) \<subseteq> E"
  using assms
proof (induction os arbitrary: ev)
  case (Cons obs os)
  have "set (collect_step ev (JObj obs)) \<subseteq> E"
    using Cons.prems by (auto simp: collect_step_def backed_def json_int_def split: option.splits)
  with Cons show ?case by simp
qed simp

lemma runtime_loop_sel [simp]:
  "al_propose (runtime_loop rt task specs n d v) = runtime_propose rt task (map describe_tool specs)"
  "al_call_draw (runtime_loop rt task specs n d v) = on_shared (art_call_draw rt)"
  "al_execute (runtime_loop rt task specs n d v) = (\<lambda>c. on_shared (gated_execute (art_reserve rt)
     (art_settle rt) (art_fail rt) (runtime_env rt specs) c))"
  "al_clock (runtime_loop rt task specs n d v) = on_shared (art_clock rt)"
  "al_utc_now (runtime_loop rt task specs n d v) = on_shared (art_utc_now rt)"
  "al_verify (runtime_loop rt task specs n d v) = Some (verify_with_evidence v)"
  "al_max_steps (runtime_loop rt task specs n d v) = n"
  by (simp_all add: runtime_loop_def)

lemma on_shared_snd: "on_shared f w = (w', y) \<Longrightarrow> snd w' = snd w"
  by (auto simp: on_shared_def split: prod.splits)

lemma past_deadline_snd:
  "past_deadline (runtime_loop rt task specs n d v) started w = (w', x) \<Longrightarrow> snd w' = snd w"
  by (auto simp: past_deadline_def on_shared_def split: option.splits prod.splits)

lemma runtime_propose_evidence:
  assumes "evidence_inv w s"
    and "runtime_propose rt task ds w (propose_payload a rq i s) = (w', ans)"
  shows "evidence_inv w' s"
proof -
  have "set (foldl collect_step (fst (snd w)) (map JObj (ags_observations s)))
      \<subseteq> evidence_steps (ags_evidence s)"
    using assms(1) by (intro collect_step_backed) (auto simp: evidence_inv_def)
  moreover have "fst (snd w') = foldl collect_step (fst (snd w)) (map JObj (ags_observations s))"
    using assms(2)
    by (auto simp: runtime_propose_def propose_payload_def json_items_def Let_def
        split: prod.splits reasoning.splits)
  ultimately show ?thesis using assms(1) by (simp add: evidence_inv_def)
qed

lemma refused_backed [simp]:
  "backed E (recovery_notice [(''step'', JInt i), (''error'', JStr e), (''detail'', JStr d)])"
  "backed E (refused_observation k tool err)"
  "backed E [(''step'', JInt i), (''verification'', JObj v), (''final_rejected'', JBool b)]"
  by (simp_all add: backed_def recovery_notice_def refused_observation_def)

lemma record_backed:
  "backed (if tcr_status rec = Succeeded then insert (int i) E else E) (record_observation i tool rec)"
  by (cases "tcr_status rec") (simp_all add: backed_def record_observation_def)

text \<open>What a final that the default verifier admitted must satisfy.\<close>

definition cites_evidence :: "run_state \<Rightarrow> json_object \<Rightarrow> bool" where
  "cites_evidence s out \<longleftrightarrow>
     (\<exists>answer items. map_of out ''answer'' = Some (JStr answer) \<and> \<not> list_all is_space answer
        \<and> cited_items out = Some items
        \<and> (\<forall>x \<in> set items. \<exists>i \<in> evidence_steps (ags_evidence s). x = JInt i))"

lemma int_items_map [simp]: "int_items (map JInt xs) = xs"
  by (induction xs) simp_all

lemma default_verdict_cites:
  assumes "evidence_inv w s" and "verify_with_evidence (default_verifier repr) w rq out = (w', answer)"
    and "verdict_of answer = Inr verdict" and "admits_final verdict"
  shows "w' = w \<and> cites_evidence s out"
proof -
  let ?rq = "AList.update ''_evidence_steps'' (JList (map JInt (fst (snd w)))) rq"
  have w: "w' = w" and v: "verdict = evidence_verifier repr ?rq out"
    using assms(2,3) by (auto simp: verify_with_evidence_def default_verifier_def verdict_of_def)
  have av: "available_steps ?rq = fst (snd w)" by (simp add: available_steps_def)
  from assms(4) obtain ans items where "map_of out ''answer'' = Some (JStr ans)" "\<not> list_all is_space ans"
      "cited_items out = Some items" "\<forall>x \<in> set items. \<exists>i \<in> set (fst (snd w)). x = JInt i"
    using verifier_exact [of repr ?rq out] av unfolding v by auto
  with assms(1) w show ?thesis
    unfolding cites_evidence_def evidence_inv_def by blast
qed

lemma iteration_evidence:
  assumes a: "a = runtime_loop rt task specs n d (default_verifier repr)"
    and inv: "evidence_inv w (agr_state r)" and nofinal: "agr_final r = None"
    and it: "agent_iteration a rq started i w r = (w', Inr (stop, r'))"
  shows "evidence_inv w' (agr_state r')
    \<and> (\<forall>out. agr_final r' = Some out \<longrightarrow> cites_evidence (agr_state r') out)"
proof -
  have prp: "evidence_inv w2 (agr_state r)"
    if "past_deadline a started w = (w1, None)"
      "al_propose a w1 (propose_payload a rq i (agr_state r)) = (w2, ans)" for w1 w2 ans
  proof -
    have "evidence_inv w1 (agr_state r)"
      using inv past_deadline_snd that(1) unfolding a by (metis evidence_inv_def)
    with that(2) show ?thesis by (auto simp: a intro: runtime_propose_evidence)
  qed
  from it show ?thesis
  proof (cases rule: agent_iteration_cases)
    case (1 dl elapsed)
    have "snd w' = snd w" using past_deadline_snd 1(3) unfolding a by blast
    with 1(2) inv nofinal show ?thesis by (simp add: deadline_stop_def evidence_inv_def)
  next
    case (2 w1 detail)
    from prp [OF 2(1,2)] 2(3) nofinal show ?thesis
      by (auto simp: propose_fault_def planner_node_def Let_def evidence_inv_def add_node_def add_step_def
          observe_def split: if_splits)
  next
    case (3 w1 raw f)
    from prp [OF 3(1,2)] 3(4) nofinal show ?thesis
      by (auto simp: invalid_proposal_def planner_node_def Let_def evidence_inv_def add_node_def add_step_def
          observe_def split: if_splits)
  next
    case (4 w1 w2 raw out why)
    have p: "evidence_inv w2 (agr_state r)" by (rule prp [OF 4(1,2)])
    from 4(4) show ?thesis
    proof (cases rule: final_step_cases)
      case 1
      then show ?thesis by (simp add: a)
    next
      case (2 verify answer verdict)
      from 2(1) have "verify = verify_with_evidence (default_verifier repr)" by (simp add: a)
      from default_verdict_cites [OF p 2(2) [unfolded this] 2(3,4)] p 2(6) show ?thesis
        by (simp add: finalize_def verifier_node_def Let_def evidence_inv_def cites_evidence_def)
    next
      case (3 verify answer verdict)
      from 3(1) have "verify = verify_with_evidence (default_verifier repr)" by (simp add: a)
      with 3(2) have "w' = w2" by (simp add: verify_with_evidence_def)
      with p 3(6) nofinal show ?thesis
        by (auto simp: reject_final_def verifier_node_def Let_def evidence_inv_def)
    qed
  next
    case (5 w1 w2 raw tool arguments why)
    have p: "evidence_inv w2 (agr_state r)" by (rule prp [OF 5(1,2)])
    from 5(4) show ?thesis
    proof (cases rule: tool_step_cases)
      case (1 err s)
      with p nofinal show ?thesis
        by (auto simp: refuse_act_def tool_node_def Let_def evidence_inv_def)
    next
      case (2 b wd draw rec)
      have w: "snd w' = snd w2"
        using on_shared_snd [OF 2(4) [unfolded a runtime_loop_sel]]
          on_shared_snd [OF 2(5) [unfolded a runtime_loop_sel]] by simp
      show ?thesis
      proof (cases "tcr_status rec = Succeeded")
        case True
        let ?E = "evidence_steps (ags_evidence (agr_state r))"
        have E: "evidence_steps (ags_evidence (agr_state r')) = insert (int i) ?E"
          using 2(6) True by (auto simp: note_record_def tool_node_def Let_def evidence_steps_def)
        have obs: "ags_observations (agr_state r')
            = ags_observations (agr_state r) @ [record_observation i tool rec]"
          using 2(6) True by (simp add: note_record_def tool_node_def Let_def)
        have "backed (insert (int i) ?E) (record_observation i tool rec)"
          using record_backed [of rec i ?E tool] True by simp
        moreover have "\<forall>x \<in> set (ags_observations (agr_state r)). backed (insert (int i) ?E) x"
          using p backed_mono [of ?E _ "insert (int i) ?E"] unfolding evidence_inv_def by blast
        moreover have "set (fst (snd w')) \<subseteq> insert (int i) ?E"
          using p unfolding w evidence_inv_def by blast
        moreover have "agr_final r' = None" using 2(6) nofinal by simp
        ultimately show ?thesis by (simp add: evidence_inv_def E obs)
      next
        case False
        let ?E = "evidence_steps (ags_evidence (agr_state r))"
        have E: "ags_evidence (agr_state r') = ags_evidence (agr_state r)"
          using 2(6) False by (simp add: note_record_def tool_node_def Let_def)
        have obs: "ags_observations (agr_state r')
            = ags_observations (agr_state r) @ [record_observation i tool rec]"
          using 2(6) False by (simp add: note_record_def tool_node_def Let_def)
        have "backed ?E (record_observation i tool rec)"
          using record_backed [of rec i ?E tool] False by simp
        moreover have "agr_final r' = None" using 2(6) nofinal by simp
        ultimately show ?thesis using p unfolding evidence_inv_def w E obs by simp
      qed
    qed
  qed
qed

lemma execute_cites:
  assumes a: "a = runtime_loop rt task specs n d (default_verifier repr)"
    and run: "agent_execute a rq (w, [], []) = (w', Inr rep)" and out: "arp_final_output rep = Some out"
  shows "\<exists>answer items. map_of out ''answer'' = Some (JStr answer) \<and> \<not> list_all is_space answer
        \<and> cited_items out = Some items
        \<and> (\<forall>x \<in> set items. \<exists>i \<in> evidence_steps (arp_evidence rep). x = JInt i)"
proof -
  from run obtain w1 w2 w3 w4 created started r t completed where
    s: "al_utc_now a (w, [], []) = (w1, created)" "al_clock a w1 = (w2, started)"
    and it: "agent_iterations a rq started [1..<Suc (al_max_steps a)] w2 empty_run = (w3, Inr r)"
    and rep: "rep = agent_report_of a rq created r ((t - started) * 1000) completed"
    by (rule agent_execute_run)
  have "snd w1 = ([], [])" using on_shared_snd [OF s(1) [unfolded a runtime_loop_sel]] by simp
  with on_shared_snd [OF s(2) [unfolded a runtime_loop_sel]] have "snd w2 = ([], [])" by simp
  then have init: "evidence_inv w2 (agr_state empty_run) \<and> agr_final empty_run = None
      \<and> agr_stop empty_run \<noteq> STOP_FINAL"
    by (simp add: evidence_inv_def empty_run_def)
  have "\<forall>out. agr_final r = Some out \<longrightarrow> cites_evidence (agr_state r) out"
  proof (rule agent_iterations_rule [OF it, where P = "\<lambda>i w r. evidence_inv w (agr_state r)
      \<and> agr_final r = None \<and> agr_stop r \<noteq> STOP_FINAL"])
    show "evidence_inv w2 (agr_state empty_run) \<and> agr_final empty_run = None
      \<and> agr_stop empty_run \<noteq> STOP_FINAL" by (rule init)
    show "1 \<le> Suc (al_max_steps a)" by simp
  next
    fix i w r w' stop r'
    assume P: "evidence_inv w (agr_state r) \<and> agr_final r = None \<and> agr_stop r \<noteq> STOP_FINAL"
      and st: "agent_iteration a rq started i w r = (w', Inr (stop, r'))"
    note e = iteration_evidence [OF a conjunct1 [OF P] conjunct1 [OF conjunct2 [OF P]] st]
    note f = iteration_final [OF st conjunct1 [OF conjunct2 [OF P]] conjunct2 [OF conjunct2 [OF P]]]
    show "if stop then \<forall>out. agr_final r' = Some out \<longrightarrow> cites_evidence (agr_state r') out
      else evidence_inv w' (agr_state r') \<and> agr_final r' = None \<and> agr_stop r' \<noteq> STOP_FINAL"
      using e f by (cases "agr_final r'") auto
  qed auto
  with out rep show ?thesis by (auto simp: cites_evidence_def)
qed

lemma runtime_run_execute:
  assumes "runtime_run rt q w = (w', Inr res)"
  obtains a rq v ids where
    "a = runtime_loop rt (rtq_task q) (rtq_tools q)
       (case rtq_max_steps q of None \<Rightarrow> art_max_steps rt | Some n \<Rightarrow> n)
       (run_deadline (art_deadline_ms rt) (rtq_deadline_ms q))
       (case rtq_verify q of None \<Rightarrow> default_verifier (art_repr rt) | Some v \<Rightarrow> v)"
    "agent_execute a rq (w, [], []) = (v, Inr (rto_report res))"
    "al_max_steps a \<le> art_max_steps rt" "loop_refusal a = None"
    "rto_execution_report res = agent_execution_report (show_uuid (art_show rt)) (rto_report res) ids"
proof -
  define steps where "steps = (case rtq_max_steps q of None \<Rightarrow> art_max_steps rt | Some n \<Rightarrow> n)"
  define a where "a = runtime_loop rt (rtq_task q) (rtq_tools q) steps
       (run_deadline (art_deadline_ms rt) (rtq_deadline_ms q))
       (case rtq_verify q of None \<Rightarrow> default_verifier (art_repr rt) | Some v \<Rightarrow> v)"
  note run = assms [unfolded runtime_run_def, folded steps_def, unfolded Let_def, folded a_def]
  have admit: "admit_specs (art_tools rt) [] (rtq_tools q) = None"
    using run by (cases "admit_specs (art_tools rt) [] (rtq_tools q)") simp_all
  have bound: "1 \<le> steps \<and> steps \<le> art_max_steps rt"
    using run admit by (auto split: if_splits)
  have ok: "loop_refusal a = None"
    using run admit bound by (cases "loop_refusal a") simp_all
  define rq where "rq = \<lparr>arq_tenant_id = rtq_tenant_id q, arq_user_id = rtq_user_id q,
      arq_request = rtq_task q,
      arq_request_hash = (case rtq_request_hash q of None \<Rightarrow> art_task_hash rt (rtq_task q) | Some h \<Rightarrow> h),
      arq_actor = rtq_actor q, arq_actor_id = Some (rtq_user_id q),
      arq_conversation_id = rtq_conversation_id q, arq_idempotency_key = rtq_idempotency_key q\<rparr>"
  obtain v out where e: "agent_execute a rq (w, [], []) = (v, out)"
    by (cases "agent_execute a rq (w, [], [])")
  obtain x ev ids where v: "v = (x, ev, ids)" by (cases v)
  from run admit bound ok e v obtain rep where out: "out = Inr rep"
    by (cases out) (auto simp: rq_def)
  with run admit bound ok e v have res: "rto_report res = rep"
      "rto_execution_report res = agent_execution_report (show_uuid (art_show rt)) rep ids"
    by (auto simp: rq_def)
  have "al_max_steps a \<le> art_max_steps rt" using bound by (simp add: a_def)
  with that [OF a_def [unfolded steps_def]] e out res ok show thesis by simp
qed

text \<open>The stored report gives back the answer of the loop.\<close>

lemma stored_report_keeps_answer:
  assumes "xc_status (arp_execution rep) = EXECUTION_SUCCEEDED \<longleftrightarrow> arp_final_output rep \<noteq> None"
  shows "final_output (agent_execution_report show_id rep ids) = arp_final_output rep"
proof (cases "arp_final_output rep")
  case None
  with assms show ?thesis by (simp add: final_output_def agent_execution_report_def Let_def)
next
  case (Some out)
  with assms have "xc_status (arp_execution rep) = EXECUTION_SUCCEEDED" by simp
  with Some show ?thesis by (simp add: final_output_def agent_execution_report_def Let_def)
qed

lemma execute_status:
  assumes "agent_execute a rq w = (w', Inr rep)"
  shows "xc_status (arp_execution rep) = EXECUTION_SUCCEEDED \<longleftrightarrow> arp_final_output rep \<noteq> None"
proof -
  from assms obtain w2 w3 started r where
    run: "agent_iterations a rq started [1..<Suc (al_max_steps a)] w2 empty_run = (w3, Inr r)"
    and rep: "\<exists>c e f. rep = agent_report_of a rq c r e f"
    by (rule agent_execute_run) blast
  from iterations_inv [OF run] rep show ?thesis by auto
qed

text \<open>
  A successful agent run under the runtime's default verifier answers with a non-blank text
  whose citations all name steps of that run whose tool results are in its evidence ledger, and the
  stored execution report gives that same output back.
\<close>

theorem agent_answers_cite_their_evidence:
  assumes "runtime_run rt q w = (w', Inr res)" and "rtq_verify q = None"
    and "arp_final_output (rto_report res) = Some out"
  shows "final_output (rto_execution_report res) = Some out
    \<and> (\<exists>answer items. map_of out ''answer'' = Some (JStr answer) \<and> \<not> list_all is_space answer
        \<and> cited_items out = Some items
        \<and> (\<forall>x \<in> set items. \<exists>e \<in> set (arp_evidence (rto_report res)). map_of e ''step'' = Some x))"
proof -
  from runtime_run_execute [OF assms(1)] obtain a rq v ids n d where
    a: "a = runtime_loop rt (rtq_task q) (rtq_tools q) n d (default_verifier (art_repr rt))"
    and run: "agent_execute a rq (w, [], []) = (v, Inr (rto_report res))"
    and stored: "rto_execution_report res = agent_execution_report (show_uuid (art_show rt)) (rto_report res) ids"
    using assms(2) by (metis option.simps(4))
  have "final_output (rto_execution_report res) = Some out"
    using stored_report_keeps_answer [OF execute_status [OF run]] assms(3) by (simp add: stored)
  with execute_cites [OF a run assms(3)] show ?thesis
    by (fastforce simp: evidence_steps_def)
qed

text \<open>
  What the default verifier checks: it admits a final exactly when the answer is a non-blank
  text and every item of \<open>evidence\<close> (absent counts as empty) is the number of an available step; so
  it admits a final without citations whatever evidence the run holds.
\<close>

theorem default_verifier_checks_citations_only:
  "(admits_final (evidence_verifier repr request out) \<longleftrightarrow>
     (\<exists>answer items. map_of out ''answer'' = Some (JStr answer) \<and> \<not> list_all is_space answer
        \<and> cited_items out = Some items
        \<and> (\<forall>x \<in> set items. \<exists>i \<in> set (available_steps request). x = JInt i)))
   \<and> (map_of out ''answer'' = Some (JStr (c # cs)) \<and> \<not> is_space c \<and> map_of out ''evidence'' = None
      \<longrightarrow> admits_final (evidence_verifier repr request out))"
  using verifier_exact [of repr request out] by (auto simp: cited_items_def)

section \<open>Witnesses\<close>

definition ex_runtime :: "(unit, unit) agent_runtime" where
  "ex_runtime = \<lparr>art_tools = [], art_firewall = Map.empty, art_devices = Map.empty,
     art_show = \<lparr>show_uuid = (\<lambda>_. ''id''), show_usage_error = (\<lambda>_. ''e'')\<rparr>,
     art_reserve = (\<lambda>_ _ _ _. Inl (EntitlementNotConfigured 0)),
     art_settle = (\<lambda>_ _ _ _. Inl (EntitlementNotConfigured 0)),
     art_fail = (\<lambda>_ _ _ _. Inl (EntitlementNotConfigured 0)),
     art_max_steps = 1, art_deadline_ms = None, art_max_repeated_failures = 2,
     art_reason = (\<lambda>w p. (w, Reasoned ex_agent_final 7)),
     art_call_draw = (\<lambda>w. (w, 0, 0, 0)), art_clock = (\<lambda>w. (w, 0)), art_utc_now = (\<lambda>w. (w, 0)),
     art_ids = (\<lambda>n. n), art_repr = (\<lambda>_. []), art_dumps = (\<lambda>_. []), art_task_hash = (\<lambda>_. ''h''),
     art_store_report = None\<rparr>"

definition ex_runtime_rq :: runtime_request where
  "ex_runtime_rq = \<lparr>rtq_tenant_id = 1, rtq_user_id = 2, rtq_task = [], rtq_tools = [],
     rtq_max_steps = None, rtq_deadline_ms = None, rtq_verify = None, rtq_actor = USER,
     rtq_conversation_id = None, rtq_idempotency_key = None, rtq_request_hash = None\<rparr>"

lemma ex_runtime_answers:
  "\<exists>w' res. runtime_run ex_runtime ex_runtime_rq ((), \<lparr>es_usage = (), es_audit = []\<rparr>) = (w', Inr res)
     \<and> arp_final_output (rto_report res) = Some [(''answer'', JStr ''x'')]"
proof -
  let ?w = "((), \<lparr>es_usage = (), es_audit = []\<rparr>) :: unit \<times> unit exec_state"
  let ?out = "[(''answer'', JStr ''x'')]"
  define a where "a = runtime_loop ex_runtime [] [] 1 None (default_verifier (art_repr ex_runtime))"
  have adm: "admits_final (evidence_verifier (art_repr ex_runtime) d ?out)" for d
    unfolding verifier_exact by (simp add: cited_items_def is_space_def code_point_def)
  have sel: "al_max_steps a = 1" "al_deadline_ms a = None" "al_utc_now a = on_shared (\<lambda>w. (w, 0))"
      "al_clock a = on_shared (\<lambda>w. (w, 0))"
      "al_verify a = Some (verify_with_evidence (default_verifier (art_repr ex_runtime)))"
      "al_propose a = runtime_propose ex_runtime [] []"
    by (simp_all add: a_def) (simp_all add: runtime_loop_def ex_runtime_def)
  have p: "\<exists>ev. runtime_propose ex_runtime [] [] (?w, [], []) q
      = ((?w, ev, [7]), SeamReturned (JObj ex_agent_final))" for q
    by (simp add: runtime_propose_def ex_runtime_def Let_def)
  have "\<exists>w' rep. agent_execute a rq (?w, [], []) = (w', Inr rep) \<and> arp_final_output rep = Some ?out" for rq
  proof -
    obtain ev where ev: "runtime_propose ex_runtime [] [] (?w, [], [])
        (propose_payload a rq 1 (agr_state empty_run)) = ((?w, ev, [7]), SeamReturned (JObj ex_agent_final))"
      using p by blast
    have "[1..<Suc (al_max_steps a)] = [1]" by (simp add: sel)
    with ev adm ex_agent_proposals(2) show ?thesis
      by (simp add: agent_execute_def on_shared_def sel agent_iteration_def past_deadline_def dispose_object
          final_step_def verify_with_evidence_def default_verifier_def verdict_of_def finalize_def Let_def)
  qed
  then obtain x ev ids rep where run: "agent_execute a
      \<lparr>arq_tenant_id = 1, arq_user_id = 2, arq_request = [], arq_request_hash = ''h'', arq_actor = USER,
       arq_actor_id = Some 2, arq_conversation_id = None, arq_idempotency_key = None\<rparr> (?w, [], [])
      = ((x, ev, ids), Inr rep)" "arp_final_output rep = Some ?out"
    by (metis prod.collapse)
  have ok: "loop_refusal a = None"
    by (simp add: loop_refusal_def a_def runtime_loop_def ex_runtime_def)
  have q: "rtq_task ex_runtime_rq = []" "rtq_tools ex_runtime_rq = []" "rtq_max_steps ex_runtime_rq = None"
      "rtq_deadline_ms ex_runtime_rq = None" "rtq_verify ex_runtime_rq = None" "rtq_tenant_id ex_runtime_rq = 1"
      "rtq_user_id ex_runtime_rq = 2" "rtq_request_hash ex_runtime_rq = None" "rtq_actor ex_runtime_rq = USER"
      "rtq_conversation_id ex_runtime_rq = None" "rtq_idempotency_key ex_runtime_rq = None"
      "art_max_steps ex_runtime = 1" "art_deadline_ms ex_runtime = None" "art_store_report ex_runtime = None"
      "art_task_hash ex_runtime [] = ''h''" "run_deadline None None = None"
    by (simp_all add: ex_runtime_rq_def ex_runtime_def run_deadline_def)
  note unfolded = runtime_run_def [of ex_runtime ex_runtime_rq ?w, unfolded Let_def q option.case, folded a_def]
  have "\<exists>res. runtime_run ex_runtime ex_runtime_rq ?w = (x, Inr res) \<and> rto_report res = rep"
    using ok run(1) by (simp add: unfolded)
  then obtain res where res: "runtime_run ex_runtime ex_runtime_rq ?w = (x, Inr res)" "rto_report res = rep"
    by blast
  show ?thesis
  proof (intro exI conjI)
    show "runtime_run ex_runtime ex_runtime_rq ?w = (x, Inr res)" by (rule res(1))
    show "arp_final_output (rto_report res) = Some ?out" using res(2) run(2) by simp
  qed
qed

theorem agent_answers_cite_their_evidence_witness:
  "\<exists>w' res. runtime_run ex_runtime ex_runtime_rq ((), \<lparr>es_usage = (), es_audit = []\<rparr>) = (w', Inr res)
     \<and> final_output (rto_execution_report res) = Some [(''answer'', JStr ''x'')]"
proof -
  obtain w' res where r: "runtime_run ex_runtime ex_runtime_rq ((), \<lparr>es_usage = (), es_audit = []\<rparr>)
      = (w', Inr res)" "arp_final_output (rto_report res) = Some [(''answer'', JStr ''x'')]"
    using ex_runtime_answers by blast
  have "rtq_verify ex_runtime_rq = None" by (simp add: ex_runtime_rq_def)
  from agent_answers_cite_their_evidence [OF r(1) this r(2)] r(1) show ?thesis by blast
qed

theorem default_verifier_checks_citations_only_witness:
  "admits_final (evidence_verifier (\<lambda>_. []) [(''_evidence_steps'', JList [JInt 1])] [(''answer'', JStr ''x'')])"
  using conjunct2 [OF default_verifier_checks_citations_only
    [of "\<lambda>_. []" "[(''_evidence_steps'', JList [JInt 1])]" "[(''answer'', JStr ''x'')]" "CHR ''x''" "[]"]]
  by (simp add: is_space_def code_point_def)

end
