(* ===== verification/Spec2Isabelle.thy ===== *)
theory Spec2Isabelle
  imports Tool_Executor Runtime_Worker Runtime_Admission Routing_Capacity Routing_Resources Execution_Strategy
    Memory_Store Skill_Pipeline Evaluation_Policy Learning_Gold Source_Checkpoint Workspace_Files Change_Workflow
    Agent_Runtime
begin

section \<open>A verification development of the general AI core\<close>

text \<open>
  The program (\<open>src/core\<close>) is the core of a multi-tenant AI platform in Python: it admits
  tool calls and meters them, routes a task to a model, provider and account, executes it with
  retries and failover, runs background work through queues and leases, keeps conversations,
  memory, skills and evaluations, promotes what it has learned through a chain of gates, edits
  source files under checkpoints, and drives bounded agents over these tools.  Services talk
  to each other through protocols (ports) and keep their state in dictionaries; the in-memory
  implementations of the ports are part of the core, the PostgreSQL and Redis ones are not.

  \<^bold>\<open>Theories and code.\<close>  Each theory models the files it names, operation by operation, and
  proves its lemmas below the definitions.

  \<^item> \<open>Prelude\<close>: identifiers, JSON values, association lists with the order of Python's
    dictionaries, sums for calls that may raise, and the shared lemmas.
  \<^item> \<open>Double_Arith\<close>: binary64 rounding of an exact rational, ties to even.
  \<^item> \<open>Text_Patterns\<close>: the part of \<open>str\<close>, \<open>repr\<close> and \<open>re\<close> that the secret screens use.
  \<^item> \<open>Capability_Firewall\<close> (\<open>security/firewall.py\<close>), \<open>Device_Trust\<close>
    (\<open>identity/devices.py\<close>), \<open>Tool_Fabric\<close> (\<open>tools/registry.py\<close>, \<open>tools/gate.py\<close>),
    \<open>Audit_Log\<close> (\<open>audit/memory.py\<close>), \<open>Usage_Ledger\<close> (\<open>usage/memory.py\<close>) and
    \<open>Tool_Executor\<close> (\<open>tools/executor.py\<close>): the one path a tool call takes, from the gate
    over the reservation and the handler to the settlement and the audit event.
  \<^item> \<open>Runtime_Queue\<close>, \<open>Runtime_Lease\<close> (\<open>runtime/memory.py\<close>), \<open>Runtime_Worker\<close>
    (\<open>runtime/worker.py\<close>, \<open>runtime/outbox.py\<close>) and \<open>Runtime_Admission\<close>
    (\<open>runtime/admission.py\<close>): background work.
  \<^item> \<open>Provider_Domain\<close>, \<open>Provider_Registry\<close> (\<open>providers/registry.py\<close>) and \<open>Account_Pool\<close>
    (\<open>providers/accounts.py\<close>): what can be routed to; \<open>Routing_Capacity\<close>
    (\<open>routing/capacity.py\<close>), \<open>Routing_Router\<close> (\<open>routing/router.py\<close>) and
    \<open>Routing_Resources\<close> (\<open>routing/resources.py\<close>): the choice.
  \<^item> \<open>Execution_Service\<close> (\<open>execution/service.py\<close>) and \<open>Execution_Strategy\<close>
    (\<open>execution/strategy.py\<close>): single calls, pipelines and strategies on a decided route.
  \<^item> \<open>Agent_Loop\<close> (\<open>execution/agent.py\<close>, \<open>execution/loop.py\<close>) and \<open>Agent_Runtime\<close>
    (\<open>agent/runtime.py\<close>): plan, act, observe within bounds, over the gated tools.
  \<^item> \<open>Memory_Store\<close> (\<open>memory/memory.py\<close>), \<open>Skill_Pipeline\<close> (\<open>roles/\<close>, \<open>skills/\<close>),
    \<open>Evaluation_Policy\<close> (\<open>evaluation/\<close>): stored knowledge and its grading.
  \<^item> \<open>Learning_Sanitizer\<close>, \<open>Learning_Gates\<close>, \<open>Learning_Lifecycle\<close> (\<open>learning/\<close>): the
    operations; \<open>Learning_Gold\<close>: what they guarantee together.
  \<^item> \<open>Source_Files\<close> (\<open>tools/source_reader.py\<close>, \<open>source_writer.py\<close>, \<open>denied_paths.py\<close>),
    \<open>Source_Checkpoint\<close> (\<open>tools/checkpoint.py\<close>, \<open>atomic_json.py\<close>), \<open>Workspace_Files\<close>
    (\<open>workspace/files.py\<close>, \<open>storage/memory.py\<close>): files.
  \<^item> \<open>Source_Change\<close> (\<open>sourcechange/\<close>): snapshots, patches, proposals and the workflow;
    \<open>Change_Workflow\<close>: its reachable states.

  The records of \<open>contracts/\<close> stand in the theory of the component that uses them first, with
  the validators that their construction runs.
\<close>

text \<open>
  \<^bold>\<open>How the code is read.\<close>  A class is a record of its state and each method a function from
  the state to the new state and its answer.  A raised exception is the left side of a sum; where
  Python mutates before it raises, the state returned beside the exception is the mutated one.
  Whatever lies outside the core (adapters, sleepers, sandboxes, judges, reasoning calls) acts
  on one external world of arbitrary type \<open>'w\<close>, which the model passes through in the order of the
  calls.  Fresh identifiers and the readings of the clock are arguments, so a theorem about
  \<open>uuid4\<close> being fresh says so in a hypothesis.  SHA-256, the Unicode tables, \<open>repr\<close>, the printed
  form of dates and CPython's compiler are parameters; theorems that need a law of one of them
  (no two contents with one digest, what case folding does to plain names) assume it by name, and
  a witness instantiates the parameter.  Strings are lists of code points below 256.

  \<^bold>\<open>Numbers.\<close>  Integers are unbounded, as in Python.  Amounts of the usage ledger, prices of
  the execution service and the router's scores are floats of the code and doubles here: every sum,
  difference and product is rounded by \<open>dbl\<close>.  The budget equations are therefore stated for amounts
  on a binary grid, where no operation rounds; off the grid they fail, which
  \<open>Usage_Ledger\<close> shows by evaluation (\<open>float_holds_drift\<close>, \<open>float_reserve_overdraws\<close>).
  Overflow to an infinity and NaN are left out.  Monotonic seconds, evaluation scores and
  confidence values are exact rationals: a sum such as \<open>now + ttl\<close> is not rounded in the model.

  \<^bold>\<open>Loops.\<close>  No definition uses fuel: a loop is structural recursion, or \<open>function\<close> with a
  measure (\<open>attempt_loop\<close> by the retries left, \<open>waves_loop\<close> by the stages not
  yet placed, \<open>fnmatch\<close> and \<open>lines_from\<close> by the text left).  The bounds of the agent loop are
  those of its request.

  \<^bold>\<open>Interfaces.\<close>  A locale states what a client needs of a port and is interpreted on the
  model of the repository's implementation: \<open>usage_port\<close> (ledger), \<open>queue_port\<close> (stream queue),
  \<open>lease_port\<close> (lease manager), \<open>keyed_registry\<close> (provider and model registries),
  \<open>object_store\<close> (in-memory storage), \<open>knowledge_store\<close> (memory store), \<open>tool_host\<close> (gated
  executor over the ledger) and \<open>wave_runner\<close>.  The code runs the stages of a wave with
  \<open>asyncio.gather\<close>; the locale \<open>wave_runner\<close> asks only for outcomes in the order of the jobs, one
  for each, and its instance runs them one after the other.

  \<^bold>\<open>What the lemmas show.\<close>  Admission and metering: a decision is characterised by a predicate
  that does not mention the code, no handler runs without it, and every hold is resolved.  Runtime:
  step relations with invariants over all histories (delivery, fencing tokens, fairness between
  tenants, concurrency ceilings).  Routing and execution: what a decision may contain, that an
  execution follows it, that pipelines, waves and agent runs are ordered, bounded and completely
  recorded.  Knowledge: keyed-map laws of the memory store, and that no skill, level or GOLD
  sample skips a stage of its pipeline.  Files: the denylist in every spelling, compare-and-swap
  writes, undo, separate workspaces; patches invert, approvals bind a version, rollback restores.

  \<^bold>\<open>Scope of the learning theorems.\<close>  The reachability results of \<open>Learning_Gold\<close> are about
  the in-process mode of the service.  With a durable custody port the records live in SQL; for
  that mode the servable check is proved of whatever the custody answers.  The environment of the
  step relation writes memory under other sources than \<open>learning.gold\<close> and draws
  fresh ids, as \<open>memory/preferences.py\<close> and \<open>apps/composition/repo_map.py\<close> do.
\<close>

text \<open>
  \<^bold>\<open>Not modelled.\<close>

  \<^item> Infrastructure: SQL, Redis, S3 and secret adapters, the provider HTTP clients and their wire
    formats.  The laws they owe are the locales and the models of the in-memory versions.
  \<^item> \<open>apps/\<close>: HTTP routes, command line, composition from the environment, metrics and logging,
    the tool catalogues and prompts of the bundled agents.
  \<^item> Facades and clients of modelled services: \<open>admin/\<close>, \<open>identity/service.py\<close>,
    \<open>context/composer.py\<close>, \<open>execution/multi_model.py\<close>, \<open>graph_planner.py\<close>, \<open>templates.py\<close>,
    \<open>routing/planner.py\<close>, \<open>providers/onboarding.py\<close>, \<open>memory/preferences.py\<close>,
    \<open>agent/general.py\<close> and \<open>agent/app_factory.py\<close>.
  \<^item> External processes and signatures: \<open>engineering/\<close> (git, subprocesses), \<open>events/\<close> (timers,
    outgoing HTTP), payload binding and remote trust (HMAC), \<open>secrets/\<close>, log scrubbing.
  \<^item> Inside modelled files: the JSON renderings of learning reports, the text of refusals where
    only the kind matters, and the prompt text and JSON extraction of one agent reasoning call.
  \<^item> Preemption: a method without an \<open>await\<close> is one step, a method with one is atomic unless
    its theorem interleaves steps explicitly; locks are left out.  Temporary files of an atomic
    replacement are not seen, and a disk access happens or fails as a whole.
\<close>

end
